(* ===== verification/Rust_Prelude.thy ===== *)
theory Rust_Prelude
  imports Main "HOL-Library.Word" "HOL-Library.Sublist"
begin

text \<open>
  Shared material of the development.  It fixes how the Rust of
  \<^verbatim>\<open>crates/sidereon-core\<close> is read in HOL:

  \<^item> \<^verbatim>\<open>u8\<close>, \<^verbatim>\<open>u16\<close>, \<^verbatim>\<open>u32\<close>, \<^verbatim>\<open>u64\<close> are words of that width, and a widening or
    narrowing \<^verbatim>\<open>as\<close> cast between them is \<^const>\<open>ucast\<close>;
  \<^item> \<^verbatim>\<open>i16\<close>, \<^verbatim>\<open>i32\<close>, \<^verbatim>\<open>i64\<close> values are integers, and an \<^verbatim>\<open>as\<close> cast into one of
    them keeps the low bits and sign-extends (\<open>as_i16\<close>, \<open>as_i32\<close>, \<open>as_i64\<close>);
  \<^item> \<^verbatim>\<open>usize\<close> counts and offsets are natural numbers;
  \<^item> \<^verbatim>\<open>Result<T, E>\<close> is the sum \<open>'e + 'a\<close> with \<open>Inl\<close> the error, and the \<^verbatim>\<open>?\<close>
    operator is \<open>ebind\<close>.

  Bit strings (most significant bit first) are the abstract view on which the
  bit reader, the bit writer and the checksum are specified.
\<close>

unbundle bit_operations_syntax

type_synonym u8 = "8 word"
type_synonym u16 = "16 word"
type_synonym u32 = "32 word"
type_synonym u64 = "64 word"

text \<open>
  A Rust \<^verbatim>\<open>String\<close> is the list of its characters' code points, \<^verbatim>\<open>u32::from(c)\<close>.
\<close>

type_synonym rust_string = "u32 list"

section \<open>Results\<close>

definition ebind :: "'e + 'a \<Rightarrow> ('a \<Rightarrow> 'e + 'b) \<Rightarrow> 'e + 'b" where
  "ebind m k = (case m of Inl e \<Rightarrow> Inl e | Inr x \<Rightarrow> k x)"

lemma ebind_simps [simp]:
  "ebind (Inl e) k = Inl e"
  "ebind (Inr x) k = k x"
  by (simp_all add: ebind_def)

lemma ebind_eq_Inr [simp]:
  "ebind m k = Inr y \<longleftrightarrow> (\<exists>x. m = Inr x \<and> k x = Inr y)"
  by (cases m) auto

lemma ebind_eq_Inl:
  "ebind m k = Inl e \<longleftrightarrow> m = Inl e \<or> (\<exists>x. m = Inr x \<and> k x = Inl e)"
  by (cases m) auto

section \<open>Signed casts\<close>

definition as_i8 :: "int \<Rightarrow> int" where
  "as_i8 v = signed_take_bit 7 v"

definition as_i16 :: "int \<Rightarrow> int" where
  "as_i16 v = signed_take_bit 15 v"

definition as_i32 :: "int \<Rightarrow> int" where
  "as_i32 v = signed_take_bit 31 v"

definition as_i64 :: "int \<Rightarrow> int" where
  "as_i64 v = signed_take_bit 63 v"

text \<open>The values a two's-complement field of \<open>n\<close> bits states.\<close>

definition fits_i :: "nat \<Rightarrow> int \<Rightarrow> bool" where
  "fits_i n v \<longleftrightarrow> - (2 ^ (n - 1)) \<le> v \<and> v \<le> 2 ^ (n - 1) - 1"

lemma fits_i_signed_take_bit:
  assumes "fits_i n v" and "0 < n" and "n \<le> Suc m"
  shows "signed_take_bit m v = v"
proof -
  have "(2::int) ^ (n - 1) \<le> 2 ^ m"
    using assms(3) by (intro power_increasing) auto
  moreover from assms(1) have "- (2 ^ (n - 1)) \<le> v" and "v < 2 ^ (n - 1)"
    by (auto simp: fits_i_def)
  ultimately have "- (2 ^ m) \<le> v" and "v < 2 ^ m"
    by linarith+
  then show ?thesis
    by (simp add: signed_take_bit_int_eq_self)
qed

lemma as_i8_fits: "fits_i n v \<Longrightarrow> 0 < n \<Longrightarrow> n \<le> 8 \<Longrightarrow> as_i8 v = v"
  by (simp add: as_i8_def fits_i_signed_take_bit)

lemma as_i16_fits: "fits_i n v \<Longrightarrow> 0 < n \<Longrightarrow> n \<le> 16 \<Longrightarrow> as_i16 v = v"
  by (simp add: as_i16_def fits_i_signed_take_bit)

lemma as_i32_fits: "fits_i n v \<Longrightarrow> 0 < n \<Longrightarrow> n \<le> 32 \<Longrightarrow> as_i32 v = v"
  by (simp add: as_i32_def fits_i_signed_take_bit)

lemma as_i64_fits: "fits_i n v \<Longrightarrow> 0 < n \<Longrightarrow> n \<le> 64 \<Longrightarrow> as_i64 v = v"
  by (simp add: as_i64_def fits_i_signed_take_bit)

lemma fits_i_signed_take_bit_self: "fits_i n (signed_take_bit (n - 1) v)"
  by (simp add: fits_i_def signed_take_bit_int_greater_eq_minus_exp
      signed_take_bit_int_less_exp zle_diff1_eq)

section \<open>Bit strings\<close>

text \<open>The \<open>n\<close> low bits of a 64-bit value, most significant first.\<close>

definition to_bits :: "nat \<Rightarrow> u64 \<Rightarrow> bool list" where
  "to_bits n v = map (bit v) (rev [0..<n])"

lemma length_to_bits [simp]: "length (to_bits n v) = n"
  by (simp add: to_bits_def)

lemma to_bits_0 [simp]: "to_bits 0 v = []"
  by (simp add: to_bits_def)

lemma to_bits_Suc: "to_bits (Suc n) v = bit v n # to_bits n v"
  by (simp add: to_bits_def)

lemma to_bits_cong:
  "(\<And>k. k < n \<Longrightarrow> bit v k = bit w k) \<Longrightarrow> to_bits n v = to_bits n w"
  by (auto simp: to_bits_def)

text \<open>Reading a bit string back, most significant bit first.\<close>

definition bits_step :: "u64 \<Rightarrow> bool \<Rightarrow> u64" where
  "bits_step acc b = push_bit 1 acc OR of_bool b"

definition of_bits :: "bool list \<Rightarrow> u64" where
  "of_bits bs = foldl bits_step 0 bs"

lemma bit_bits_step:
  "bit (bits_step acc b) k \<longleftrightarrow> k < 64 \<and> (if k = 0 then b else bit acc (k - 1))"
  unfolding bits_step_def bit_or_iff bit_push_bit_iff bit_of_bool_iff
  by (cases k) auto

lemma foldl_bits_step:
  "bit (foldl bits_step acc bs) k \<longleftrightarrow>
     k < 64 \<and> (if k < length bs then bs ! (length bs - 1 - k) else bit acc (k - length bs))"
proof (induction bs arbitrary: acc k rule: rev_induct)
  case Nil
  then show ?case by (auto dest: bit_imp_le_length)
next
  case (snoc b bs)
  then show ?case
    by (cases k) (auto simp: bit_bits_step nth_append not_less Suc_diff_le)
qed

lemma bit_of_bits:
  "bit (of_bits bs) k \<longleftrightarrow> k < 64 \<and> k < length bs \<and> bs ! (length bs - 1 - k)"
  by (auto simp: of_bits_def foldl_bits_step)

lemma of_bits_less:
  assumes "length bs \<le> 64"
  shows "of_bits bs = take_bit (length bs) (of_bits bs)"
  by (rule bit_word_eqI) (auto simp: bit_simps bit_of_bits)

lemma of_bits_to_bits: "n \<le> 64 \<Longrightarrow> of_bits (to_bits n v) = take_bit n v"
  by (rule bit_word_eqI) (auto simp: bit_of_bits bit_simps to_bits_def rev_nth)

lemma to_bits_of_bits: "length bs = n \<Longrightarrow> n \<le> 64 \<Longrightarrow> to_bits n (of_bits bs) = bs"
  by (rule nth_equalityI) (auto simp: to_bits_def rev_nth bit_of_bits)

end
