(* ===== verification/Rtcm_Error.thy ===== *)
theory Rtcm_Error
  imports Rust_Prelude
begin

text \<open>
  The enumerations and the typed refusals shared by the RTCM codec: the
  constellations (\<^verbatim>\<open>id.rs\<close>), the MSM and SSR kinds, the decoding policy and the
  departures it decides on (\<^verbatim>\<open>rtcm/mod.rs\<close>), the encoder refusals
  (\<^verbatim>\<open>rtcm/encode_error.rs\<close>) and the decoder errors.  Constructor arguments are the
  named fields of the Rust variants in their order.  The texts of \<^verbatim>\<open>Error::Parse\<close>
  are built character by character as the \<^verbatim>\<open>format!\<close> calls build them.
\<close>

section \<open>Text of numbers\<close>

text \<open>\<^verbatim>\<open>{}\<close> of an unsigned integer.\<close>

fun dec :: "nat \<Rightarrow> string" where
  "dec n = (if n < 10 then [char_of (48 + n)] else dec (n div 10) @ [char_of (48 + n mod 10)])"

declare dec.simps [simp del]

definition dec_u :: "'a::len word \<Rightarrow> string" where
  "dec_u v = dec (unat v)"

text \<open>\<^verbatim>\<open>{:#0Nx}\<close>: lower-case hexadecimal, \<^verbatim>\<open>0x\<close> in front, zero-filled to \<open>N\<close> characters.\<close>

definition hex_digit :: "nat \<Rightarrow> char" where
  "hex_digit d = (if d < 10 then char_of (48 + d) else char_of (87 + d))"

fun hex :: "nat \<Rightarrow> string" where
  "hex n = (if n < 16 then [hex_digit n] else hex (n div 16) @ [hex_digit (n mod 16)])"

declare hex.simps [simp del]

definition hex_alt :: "nat \<Rightarrow> nat \<Rightarrow> string" where
  "hex_alt width n =
     (let d = hex n in ''0x'' @ replicate (width - 2 - length d) (CHR ''0'') @ d)"

section \<open>Constellations and message kinds\<close>

datatype gnss_system = Gps | Glonass | Galileo | BeiDou | Qzss | Navic | Sbas

datatype msm_kind = Msm1 | Msm2 | Msm3 | Msm4 | Msm5 | Msm6 | Msm7

datatype ssr_kind =
    SsrOrbit | SsrClock | SsrCombinedOrbitClock | SsrCodeBias | SsrPhaseBias | SsrUra
  | SsrHighRateClock

section \<open>Policy and departures\<close>

datatype rtcm_policy = Strict | Lenient

datatype rtcm_departure =
    FrameReservedBits (fr_reserved: u8)
  | TrailingBits (tb_message_number: u16) (tb_bits: "bool list")
  | MsmCellMaskOver64 (cm_message_number: u16) (cm_cells: nat)
  | OrderExceedsDegree (od_message_number: u16) (od_layer_index: nat) (od_degree: u8) (od_order: u8)
  | SsrRecordsShort (ss_message_number: u16) (ss_declared: nat) (ss_read: nat)
  | RecordsShort (rs_message_number: u16) (rs_declared: nat) (rs_read: nat)

section \<open>Encoder refusals\<close>

datatype rtcm_field_encoding = Unsigned | TwosComplement | SignMagnitude

datatype (plugins only: code) rtcm_record_kind =
    RkStationCoordinates
  | RkAntennaDescriptor
  | RkMsm gnss_system msm_kind
  | RkSsr gnss_system ssr_kind
  | RkLegacyObservations
  | RkSystemParameters
  | RkText
  | RkNetwork string
  | RkTransformation string
  | RkGlonassCodePhaseBiases
  | RkSsrVtec u16

datatype msm_optional_field = ExtendedInfo | RoughPhaseRangeRate | FinePhaseRangeRate

datatype msm_optional_problem = Missing | NotCarried | InvalidValue int

datatype (plugins only: code) msm_mask_problem =
    SatelliteOutsideMask u8
  | SatelliteListedTwice u8
  | SignalOutsideMask u8
  | SignalNotInMask u8 u32
  | SignalSatelliteNotListed u8 u8
  | CellListedTwice u8 u8

datatype (plugins only: code) rtcm_encode_error =
    FieldOutOfRange u16 string int nat rtcm_field_encoding
  | NegativeZeroWithValue u16 string int
  | NegativeZeroMask u16 u16
  | MessageNumber u16 rtcm_record_kind
  | FieldPresence u16 rtcm_record_kind string bool
  | SatelliteFieldPresence u16 rtcm_record_kind u8 string bool
  | CountMismatch u16 string nat nat
  | ValueOutOfRange u16 string int int int
  | NonLatin1Character string nat
  | SatelliteIdOutOfRange u16 string u8 nat
  | SsrSatelliteIdOutOfRange u16 u8 nat
  | SsrRecordsNotCarried u16 ssr_kind string nat
  | SsrCombinedRecordCounts u16 nat nat
  | SsrCombinedSatelliteMismatch u16 nat u8 u8
  | SsrHighRateClockTerms u16 u8 int int
  | SsrSatelliteCount u16 nat nat
  | MsmMask u16 msm_mask_problem
  | MsmOptional u16 msm_kind u8 "u8 option" msm_optional_field msm_optional_problem
  | TrailingZeroBits u16 nat
  | StrictDeparture rtcm_departure
  | UnsupportedBodyTooShort u16
  | UnsupportedBodyNumber u16 u16
  | UnsupportedDecodedNumber u16
  | FrameBodyTooLong nat
  | FrameReservedOutOfRange u8

section \<open>Decoder errors\<close>

text \<open>\<^verbatim>\<open>OutOfInput\<close>: the bits asked for and the bits that remain.\<close>

record out_of_input =
  requested_bits :: nat
  left_bits :: nat

text \<open>
  The crate \<^verbatim>\<open>Error\<close>, with the two variants the modelled code builds, and its display.
\<close>

datatype rust_error = Parse string | InvalidInput string

definition error_text :: "rust_error \<Rightarrow> string" where
  "error_text err =
     (case err of
        Parse msg \<Rightarrow> ''parse error: '' @ msg
      | InvalidInput msg \<Rightarrow> ''invalid input: '' @ msg)"

text \<open>
  \<^verbatim>\<open>DecodeError\<close>.  Its middle variant holds a crate \<^verbatim>\<open>Error\<close>, of which the RTCM
  decoders build only \<^verbatim>\<open>Error::Parse\<close>.
\<close>

datatype decode_error =
    OutOfInput out_of_input
  | DecodeFailed rust_error
  | Departure rtcm_departure

end
