(* ===== verification/Rtcm_Bits.thy ===== *)
theory Rtcm_Bits
  imports Rtcm_Error
begin

text \<open>
  The bit reader and the bit writers of \<^verbatim>\<open>rtcm/bits.rs\<close>.  A reader is a byte
  buffer and a bit position, a writer a byte buffer and a bit count, and both
  walk their buffer one bit at a time, most significant bit first.  The second
  half of the theory relates them to bit strings: a reader is abstracted to the
  bits it has not consumed (\<open>rest_bits\<close>), and a writer that has written the
  bits \<open>bs\<close> holds \<open>pack bs\<close>, the bits padded with zeros to a whole byte.
\<close>

unbundle bit_operations_syntax

section \<open>The reader\<close>

record bit_reader =
  br_bytes :: "u8 list"
  bit_pos :: nat

definition br_new :: "u8 list \<Rightarrow> bit_reader" where
  "br_new bytes = \<lparr>br_bytes = bytes, bit_pos = 0\<rparr>"

definition remaining_bits :: "bit_reader \<Rightarrow> nat" where
  "remaining_bits r = length (br_bytes r) * 8 - bit_pos r"

text \<open>The bit under the cursor, as the byte expression of the source computes it.\<close>

definition br_bit :: "bit_reader \<Rightarrow> u8" where
  "br_bit r = (let byte = br_bytes r ! (bit_pos r div 8)
               in drop_bit (7 - bit_pos r mod 8) byte AND 1)"

fun br_u_loop :: "nat \<Rightarrow> u64 \<Rightarrow> bit_reader \<Rightarrow> u64 \<times> bit_reader" where
  "br_u_loop 0 acc r = (acc, r)"
| "br_u_loop (Suc k) acc r =
     br_u_loop k (push_bit 1 acc OR ucast (br_bit r)) (r\<lparr>bit_pos := bit_pos r + 1\<rparr>)"

definition br_u :: "nat \<Rightarrow> bit_reader \<Rightarrow> out_of_input + u64 \<times> bit_reader" where
  "br_u n r =
     (if remaining_bits r < n
      then Inl \<lparr>requested_bits = n, left_bits = remaining_bits r\<rparr>
      else Inr (br_u_loop n 0 r))"

definition br_flag :: "bit_reader \<Rightarrow> out_of_input + bool \<times> bit_reader" where
  "br_flag r = ebind (br_u 1 r) (\<lambda>(v, r'). Inr (v \<noteq> 0, r'))"

definition br_i :: "nat \<Rightarrow> bit_reader \<Rightarrow> out_of_input + int \<times> bit_reader" where
  "br_i n r =
     ebind (br_u n r) (\<lambda>(raw, r').
       let sign_bit = push_bit (n - 1) (1 :: u64)
       in if raw AND sign_bit \<noteq> 0
          then Inr (as_i64 (as_i64 (uint raw) - as_i64 (2 ^ n)), r')
          else Inr (as_i64 (uint raw), r'))"

definition br_ism_signed_zero ::
  "nat \<Rightarrow> bit_reader \<Rightarrow> out_of_input + (int \<times> bool) \<times> bit_reader" where
  "br_ism_signed_zero n r =
     ebind (br_flag r) (\<lambda>(negative, r1).
     ebind (br_u (n - 1) r1) (\<lambda>(mag, r2).
       let magnitude = as_i64 (uint mag)
       in Inr (if negative then (- magnitude, magnitude = 0) else (magnitude, False), r2)))"

function br_rest_loop :: "bool list \<Rightarrow> bit_reader \<Rightarrow> bool list \<times> bit_reader" where
  "br_rest_loop bits r =
     (if bit_pos r < length (br_bytes r) * 8
      then br_rest_loop (bits @ [br_bit r = 1]) (r\<lparr>bit_pos := bit_pos r + 1\<rparr>)
      else (bits, r))"
  by pat_completeness auto
termination
  by (relation "measure (\<lambda>(bits, r). length (br_bytes r) * 8 - bit_pos r)") auto

declare br_rest_loop.simps [simp del]

definition br_rest :: "bit_reader \<Rightarrow> bool list \<times> bit_reader" where
  "br_rest r = br_rest_loop [] r"

section \<open>The writer\<close>

record bit_writer =
  bw_bytes :: "u8 list"
  bw_nbits :: nat

definition bw_new :: bit_writer where
  "bw_new = \<lparr>bw_bytes = [], bw_nbits = 0\<rparr>"

definition bw_push_bit :: "u8 \<Rightarrow> bit_writer \<Rightarrow> bit_writer" where
  "bw_push_bit b w =
     (let byte_index = bw_nbits w div 8;
          bytes = (if byte_index \<ge> length (bw_bytes w) then bw_bytes w @ [0] else bw_bytes w);
          bytes' = (if b \<noteq> 0
                    then bytes[byte_index := bytes ! byte_index
                                 OR push_bit (7 - bw_nbits w mod 8) 1]
                    else bytes)
      in w\<lparr>bw_bytes := bytes', bw_nbits := bw_nbits w + 1\<rparr>)"

fun bw_push_u :: "u64 \<Rightarrow> nat \<Rightarrow> bit_writer \<Rightarrow> bit_writer" where
  "bw_push_u v 0 w = w"
| "bw_push_u v (Suc k) w = bw_push_u v k (bw_push_bit (ucast (drop_bit k v AND 1)) w)"

definition bw_push_flag :: "bool \<Rightarrow> bit_writer \<Rightarrow> bit_writer" where
  "bw_push_flag b w = bw_push_bit (of_bool b) w"

definition bw_push_i :: "int \<Rightarrow> nat \<Rightarrow> bit_writer \<Rightarrow> bit_writer" where
  "bw_push_i v n w =
     (let mask = push_bit n (1 :: u64) - 1
      in bw_push_u (word_of_int v AND mask) n w)"

section \<open>The field writer\<close>

record field_writer =
  fw_writer :: bit_writer
  fw_message_number :: u16

definition fw_new :: "u16 \<Rightarrow> field_writer" where
  "fw_new n = \<lparr>fw_writer = bw_new, fw_message_number = n\<rparr>"

definition fw_bit_len :: "field_writer \<Rightarrow> nat" where
  "fw_bit_len w = bw_nbits (fw_writer w)"

definition fw_into_bytes :: "field_writer \<Rightarrow> u8 list" where
  "fw_into_bytes w = bw_bytes (fw_writer w)"

definition fw_flag :: "bool \<Rightarrow> field_writer \<Rightarrow> field_writer" where
  "fw_flag b w = w\<lparr>fw_writer := bw_push_flag b (fw_writer w)\<rparr>"

text \<open>
  The refusals of the field writer carry the message number, the field's name,
  the value, the width and the encoding, as \<^verbatim>\<open>RtcmEncodeError::FieldOutOfRange\<close> and
  \<^verbatim>\<open>NegativeZeroWithValue\<close> do.
\<close>

definition fw_refuse ::
  "field_writer \<Rightarrow> string \<Rightarrow> int \<Rightarrow> nat \<Rightarrow> rtcm_field_encoding \<Rightarrow> rtcm_encode_error" where
  "fw_refuse w field v width enc = FieldOutOfRange (fw_message_number w) field v width enc"

definition fw_u :: "string \<Rightarrow> u64 \<Rightarrow> nat \<Rightarrow> field_writer \<Rightarrow> rtcm_encode_error + field_writer" where
  "fw_u field v width w =
     (if width < 64 \<and> drop_bit width v \<noteq> 0
      then Inl (fw_refuse w field (uint v) width Unsigned)
      else Inr (w\<lparr>fw_writer := bw_push_u v width (fw_writer w)\<rparr>))"

definition fw_i :: "string \<Rightarrow> int \<Rightarrow> nat \<Rightarrow> field_writer \<Rightarrow> rtcm_encode_error + field_writer" where
  "fw_i field v width w =
     (let low = - (2 ^ (width - 1)); high = 2 ^ (width - 1) - 1
      in if \<not> (low \<le> v \<and> v \<le> high)
         then Inl (fw_refuse w field v width TwosComplement)
         else Inr (w\<lparr>fw_writer := bw_push_i v width (fw_writer w)\<rparr>))"

definition fw_ism ::
  "string \<Rightarrow> int \<Rightarrow> nat \<Rightarrow> bool \<Rightarrow> field_writer \<Rightarrow> rtcm_encode_error + field_writer" where
  "fw_ism field v width negative_zero w =
     (let widest = 2 ^ (width - 1) - 1
      in if \<bar>v\<bar> > widest then Inl (fw_refuse w field v width SignMagnitude)
         else if negative_zero \<and> v \<noteq> 0
         then Inl (NegativeZeroWithValue (fw_message_number w) field v)
         else Inr (w\<lparr>fw_writer :=
                bw_push_u (word_of_int \<bar>v\<bar>) (width - 1)
                  (bw_push_flag (v < 0 \<or> negative_zero) (fw_writer w))\<rparr>))"

section \<open>Bytes as bit strings\<close>

definition byte_bits :: "u8 \<Rightarrow> bool list" where
  "byte_bits b = map (bit b) (rev [0..<8])"

definition bits_of_bytes :: "u8 list \<Rightarrow> bool list" where
  "bits_of_bytes bs = concat (map byte_bits bs)"

lemma length_byte_bits [simp]: "length (byte_bits b) = 8"
  by (simp add: byte_bits_def)

lemma byte_bits_nth: "i < 8 \<Longrightarrow> byte_bits b ! i = bit b (7 - i)"
  by (simp add: byte_bits_def rev_nth)

lemma bits_of_bytes_simps [simp]:
  "bits_of_bytes [] = []"
  "bits_of_bytes (b # bs) = byte_bits b @ bits_of_bytes bs"
  "bits_of_bytes (bs @ cs) = bits_of_bytes bs @ bits_of_bytes cs"
  by (simp_all add: bits_of_bytes_def)

lemma length_bits_of_bytes [simp]: "length (bits_of_bytes bs) = 8 * length bs"
  by (induction bs) simp_all

lemma bits_of_bytes_nth:
  "i < 8 * length bs \<Longrightarrow> bits_of_bytes bs ! i = bit (bs ! (i div 8)) (7 - i mod 8)"
proof (induction bs arbitrary: i)
  case Nil
  then show ?case by simp
next
  case (Cons b bs)
  show ?case
  proof (cases "i < 8")
    case True
    then show ?thesis by (simp add: nth_append byte_bits_nth)
  next
    case False
    then have "i div 8 = Suc ((i - 8) div 8)" and "i mod 8 = (i - 8) mod 8"
      by (simp_all add: le_div_geq le_mod_geq)
    with False Cons show ?thesis by (simp add: nth_append)
  qed
qed

lemma byte_bits_inj: "byte_bits a = byte_bits b \<Longrightarrow> a = b"
proof (rule bit_word_eqI)
  fix k assume eq: "byte_bits a = byte_bits b" and "k < LENGTH(8)"
  then have "7 - k < 8" and "7 - (7 - k) = k" by simp_all
  then show "bit a k = bit b k"
    using byte_bits_nth [of "7 - k" a] byte_bits_nth [of "7 - k" b] eq by simp
qed

lemma bits_of_bytes_inj: "bits_of_bytes as = bits_of_bytes bs \<Longrightarrow> as = bs"
proof (induction as arbitrary: bs)
  case Nil
  then show ?case by (cases bs) (simp_all add: byte_bits_def)
next
  case (Cons a as)
  then obtain b bs' where "bs = b # bs'"
    by (cases bs) (auto simp: byte_bits_def)
  with Cons show ?case by (auto dest: byte_bits_inj)
qed

text \<open>The zero bits that align \<open>n\<close> bits to a byte.\<close>

definition pad_len :: "nat \<Rightarrow> nat" where
  "pad_len n = (8 - n mod 8) mod 8"

lemma pad_len_alt: "pad_len n = (if n mod 8 = 0 then 0 else 8 - n mod 8)"
  by (auto simp: pad_len_def)

lemma pad_len_less [simp]: "pad_len n < 8"
  by (simp add: pad_len_def)

lemma pad_len_0 [simp]: "n mod 8 = 0 \<Longrightarrow> pad_len n = 0"
  by (simp add: pad_len_alt)

lemma pad_len_dvd: "(n + pad_len n) mod 8 = 0"
proof (cases "n mod 8 = 0")
  case False
  have "n + (8 - n mod 8) = 8 * (n div 8) + 8"
    using mult_div_mod_eq [of 8 n] mod_less_divisor [of 8 n] by linarith
  with False show ?thesis by (simp add: pad_len_alt)
qed simp

lemma mod8_cancel:
  assumes "(n + j) mod 8 = (0::nat)" and "(n + k) mod 8 = 0" and "j < 8" and "k < 8"
  shows "j = k"
proof -
  obtain a where a: "n + j = 8 * a" using assms(1) by (metis mod_0_imp_dvd dvdE)
  obtain b where b: "n + k = 8 * b" using assms(2) by (metis mod_0_imp_dvd dvdE)
  from a b assms(3,4) have "a = b" by linarith
  with a b show ?thesis by simp
qed

lemma pad_len_unique: "(n + k) mod 8 = 0 \<Longrightarrow> k < 8 \<Longrightarrow> pad_len n = k"
  by (rule mod8_cancel [OF pad_len_dvd]) simp_all

definition byte_of :: "bool list \<Rightarrow> u8" where
  "byte_of bs = ucast (of_bits bs)"

fun pack :: "bool list \<Rightarrow> u8 list" where
  "pack [] = []"
| "pack (b # bs) =
     byte_of (take 8 (b # bs) @ replicate (8 - length (b # bs)) False) # pack (drop 7 bs)"

lemma byte_bits_byte_of: "length bs = 8 \<Longrightarrow> byte_bits (byte_of bs) = bs"
  by (rule nth_equalityI) (auto simp: byte_bits_nth byte_of_def bit_simps bit_of_bits)

lemma bits_of_bytes_pack: "bits_of_bytes (pack bs) = bs @ replicate (pad_len (length bs)) False"
proof (induction bs rule: pack.induct)
  case 1
  then show ?case by simp
next
  case (2 b bs)
  show ?case
  proof (cases "length bs < 7")
    case True
    then have "pad_len (Suc (length bs)) = 7 - length bs"
      by (intro pad_len_unique) auto
    with True show ?thesis by (simp add: byte_bits_byte_of)
  next
    case False
    then have "Suc (length bs) = (length bs - 7) + 8" by simp
    then have "pad_len (Suc (length bs)) = pad_len (length bs - 7)"
      unfolding pad_len_def by (metis mod_add_self2)
    with False 2 show ?thesis by (simp add: byte_bits_byte_of)
  qed
qed

lemma length_pack: "8 * length (pack bs) = length bs + pad_len (length bs)"
  using arg_cong [OF bits_of_bytes_pack, of length bs] by simp

lemma pack_bits_of_bytes [simp]: "pack (bits_of_bytes bs) = bs"
  by (rule bits_of_bytes_inj) (simp add: bits_of_bytes_pack)

lemma pack_pad: "k < 8 \<Longrightarrow> (length bs + k) mod 8 = 0 \<Longrightarrow> pack (bs @ replicate k False) = pack bs"
proof (rule bits_of_bytes_inj)
  assume k: "k < 8" and m: "(length bs + k) mod 8 = 0"
  have "pad_len (length bs) = k" using m k by (rule pad_len_unique)
  with m show "bits_of_bytes (pack (bs @ replicate k False)) = bits_of_bytes (pack bs)"
    by (simp add: bits_of_bytes_pack)
qed

section \<open>The reader on bit strings\<close>

definition rest_bits :: "bit_reader \<Rightarrow> bool list" where
  "rest_bits r = drop (bit_pos r) (bits_of_bytes (br_bytes r))"

definition adv :: "nat \<Rightarrow> bit_reader \<Rightarrow> bit_reader" where
  "adv n r = r\<lparr>bit_pos := bit_pos r + n\<rparr>"

lemma rest_bits_new [simp]: "rest_bits (br_new bytes) = bits_of_bytes bytes"
  by (simp add: rest_bits_def br_new_def)

lemma remaining_bits_eq: "remaining_bits r = length (rest_bits r)"
  by (simp add: remaining_bits_def rest_bits_def mult.commute)

lemma rest_bits_adv [simp]: "rest_bits (adv n r) = drop n (rest_bits r)"
  by (simp add: rest_bits_def adv_def add.commute)

lemma adv_adv [simp]: "adv m (adv n r) = adv (n + m) r"
  by (simp add: adv_def)

lemma adv_0 [simp]: "adv 0 r = r"
  by (simp add: adv_def)

lemma br_bit_eq:
  assumes "rest_bits r = b # bs"
  shows "br_bit r = of_bool b"
proof -
  from assms have pos: "bit_pos r < 8 * length (br_bytes r)"
    by (metis drop_all length_bits_of_bytes list.distinct(1) not_le rest_bits_def)
  then have "b = bits_of_bytes (br_bytes r) ! bit_pos r"
    using assms by (metis hd_drop_conv_nth length_bits_of_bytes list.sel(1) rest_bits_def)
  with pos have "b = bit (br_bytes r ! (bit_pos r div 8)) (7 - bit_pos r mod 8)"
    by (simp add: bits_of_bytes_nth)
  then show ?thesis
    unfolding br_bit_def Let_def
    by (intro bit_word_eqI) (auto simp: bit_simps)
qed

lemma br_u_loop_eq:
  "n \<le> length (rest_bits r) \<Longrightarrow>
     br_u_loop n acc r = (foldl bits_step acc (take n (rest_bits r)), adv n r)"
proof (induction n arbitrary: acc r)
  case 0
  then show ?case by simp
next
  case (Suc n)
  then obtain b bs where r: "rest_bits r = b # bs"
    by (cases "rest_bits r") auto
  have step: "r\<lparr>bit_pos := bit_pos r + 1\<rparr> = adv 1 r"
    by (simp add: adv_def)
  have acc: "push_bit 1 acc OR ucast (br_bit r) = bits_step acc b"
    by (simp add: br_bit_eq [OF r] bits_step_def)
  show ?case
    using Suc.prems Suc.IH [of "adv 1 r" "bits_step acc b"]
    by (simp only: br_u_loop.simps step acc) (simp add: r)
qed

lemma br_u_eq:
  "br_u n r =
     (if length (rest_bits r) < n
      then Inl \<lparr>requested_bits = n, left_bits = length (rest_bits r)\<rparr>
      else Inr (of_bits (take n (rest_bits r)), adv n r))"
  by (simp add: br_u_def remaining_bits_eq br_u_loop_eq of_bits_def)

lemma br_rest_loop_eq: "br_rest_loop bits r = (bits @ rest_bits r, adv (length (rest_bits r)) r)"
proof (induction bits r rule: br_rest_loop.induct)
  case (1 bits r)
  show ?case
  proof (cases "rest_bits r")
    case Nil
    then have "\<not> bit_pos r < length (br_bytes r) * 8"
      by (simp add: rest_bits_def mult.commute)
    with Nil show ?thesis by (simp add: br_rest_loop.simps [of bits r])
  next
    case (Cons b bs)
    then have lt: "bit_pos r < length (br_bytes r) * 8"
      by (metis drop_all length_bits_of_bytes list.distinct(1) mult.commute not_le rest_bits_def)
    have "r\<lparr>bit_pos := bit_pos r + 1\<rparr> = adv 1 r"
      by (simp add: adv_def)
    with 1 [OF lt] lt Cons show ?thesis
      by (simp add: br_rest_loop.simps [of bits r] br_bit_eq [OF Cons])
  qed
qed

lemma br_rest_eq: "br_rest r = (rest_bits r, adv (length (rest_bits r)) r)"
  by (simp add: br_rest_def br_rest_loop_eq)

section \<open>The writer on bit strings\<close>

definition bw_rep :: "bit_writer \<Rightarrow> bool list \<Rightarrow> bool" where
  "bw_rep w bs \<longleftrightarrow> bw_nbits w = length bs \<and> bw_bytes w = pack bs"

lemma bw_rep_new: "bw_rep bw_new []"
  by (simp add: bw_rep_def bw_new_def)

lemma bits_of_bytes_update:
  assumes "i < 8 * length bs"
  shows "bits_of_bytes (bs[i div 8 := bs ! (i div 8) OR push_bit (7 - i mod 8) 1])
           = (bits_of_bytes bs)[i := True]"
proof (rule nth_equalityI)
  show "length (bits_of_bytes (bs[i div 8 := bs ! (i div 8) OR push_bit (7 - i mod 8) 1]))
          = length ((bits_of_bytes bs)[i := True])"
    by simp
next
  fix j
  assume "j < length (bits_of_bytes (bs[i div 8 := bs ! (i div 8) OR push_bit (7 - i mod 8) 1]))"
  then have j: "j < 8 * length bs" by simp
  have "i mod 8 < 8" and "j mod 8 < 8" by simp_all
  then have same: "7 - j mod 8 = 7 - i mod 8 \<longleftrightarrow> j mod 8 = i mod 8" by linarith
  have ij: "j = i \<longleftrightarrow> j div 8 = i div 8 \<and> j mod 8 = i mod 8"
    by (metis div_mult_mod_eq)
  show "bits_of_bytes (bs[i div 8 := bs ! (i div 8) OR push_bit (7 - i mod 8) 1]) ! j
          = (bits_of_bytes bs)[i := True] ! j"
    using assms j ij same by (auto simp: bits_of_bytes_nth nth_list_update bit_simps)
qed

lemma pack_snoc_bytes:
  "pack (bs @ [False]) = (if length bs mod 8 = 0 then pack bs @ [0] else pack bs)"
proof (rule bits_of_bytes_inj)
  have zero: "byte_bits 0 = replicate 8 False"
    by (rule nth_equalityI) (simp_all add: byte_bits_nth)
  show "bits_of_bytes (pack (bs @ [False])) =
          bits_of_bytes (if length bs mod 8 = 0 then pack bs @ [0] else pack bs)"
  proof (cases "length bs mod 8 = 0")
    case True
    then have "pad_len (Suc (length bs)) = 7"
      by (intro pad_len_unique) (simp_all add: mod_add_eq [symmetric])
    with True show ?thesis
      by (simp add: bits_of_bytes_pack zero replicate_append_same flip: replicate_Suc)
  next
    case False
    then have "pad_len (length bs) = Suc (pad_len (Suc (length bs)))"
      by (auto simp: pad_len_alt mod_Suc)
    with False show ?thesis by (simp add: bits_of_bytes_pack)
  qed
qed

lemma bw_rep_push_bit:
  assumes "bw_rep w bs"
  shows "bw_rep (bw_push_bit b w) (bs @ [b \<noteq> 0])"
proof -
  let ?i = "length bs" and ?bytes = "pack (bs @ [False])"
  from assms have w: "bw_nbits w = ?i" "bw_bytes w = pack bs"
    by (simp_all add: bw_rep_def)
  have len: "?i div 8 \<ge> length (pack bs) \<longleftrightarrow> ?i mod 8 = 0"
    using length_pack [of bs] by (auto simp: pad_len_alt split: if_splits)
  have bytes: "(if ?i div 8 \<ge> length (pack bs) then pack bs @ [0] else pack bs) = ?bytes"
    by (simp add: len pack_snoc_bytes)
  have "?i < 8 * length ?bytes"
    using length_pack [of "bs @ [False]"] by simp
  from bits_of_bytes_update [OF this]
  have "bits_of_bytes (?bytes[?i div 8 := ?bytes ! (?i div 8) OR push_bit (7 - ?i mod 8) 1])
               = bits_of_bytes (pack (bs @ [True]))"
    by (simp add: bits_of_bytes_pack list_update_append)
  then have upd: "?bytes[?i div 8 := ?bytes ! (?i div 8) OR push_bit (7 - ?i mod 8) 1]
               = pack (bs @ [True])"
    by (rule bits_of_bytes_inj)
  show ?thesis
    unfolding bw_rep_def bw_push_bit_def Let_def w bytes upd by simp
qed

definition bw_put :: "bool list \<Rightarrow> bit_writer \<Rightarrow> bit_writer" where
  "bw_put bs w = foldl (\<lambda>w b. bw_push_bit (of_bool b) w) w bs"

lemma bw_put_simps [simp]:
  "bw_put [] w = w"
  "bw_put (b # bs) w = bw_put bs (bw_push_bit (of_bool b) w)"
  "bw_put (bs @ cs) w = bw_put cs (bw_put bs w)"
  by (simp_all add: bw_put_def)

lemma bw_rep_put: "bw_rep w bs \<Longrightarrow> bw_rep (bw_put cs w) (bs @ cs)"
proof (induction cs arbitrary: w bs)
  case Nil
  then show ?case by simp
next
  case (Cons c cs)
  from bw_rep_push_bit [OF Cons.prems, of "of_bool c"]
  have "bw_rep (bw_push_bit (of_bool c) w) (bs @ [c])" by simp
  from Cons.IH [OF this] show ?case by simp
qed

lemma bw_push_u_put: "bw_push_u v n w = bw_put (to_bits n v) w"
proof (induction n arbitrary: w)
  case 0
  then show ?case by simp
next
  case (Suc n)
  have "ucast (drop_bit n v AND 1) = (of_bool (bit v n) :: u8)"
    by (intro bit_word_eqI) (auto simp: bit_simps)
  with Suc show ?case by (simp add: to_bits_Suc)
qed

text \<open>The bits of a two's-complement field.\<close>

definition to_bits_i :: "nat \<Rightarrow> int \<Rightarrow> bool list" where
  "to_bits_i n v = to_bits n (word_of_int v)"

lemma length_to_bits_i [simp]: "length (to_bits_i n v) = n"
  by (simp add: to_bits_i_def)

lemma bw_push_i_put: "n < 64 \<Longrightarrow> bw_push_i v n w = bw_put (to_bits_i n v) w"
proof -
  assume n: "n < 64"
  have "push_bit n (1 :: u64) - 1 = mask n"
    by (simp add: mask_eq_exp_minus_1 push_bit_eq_mult)
  then have "to_bits n (word_of_int v AND (push_bit n (1 :: u64) - 1)) = to_bits n (word_of_int v)"
    using n by (intro to_bits_cong) (auto simp: bit_simps)
  then show ?thesis
    by (simp add: bw_push_i_def Let_def bw_push_u_put to_bits_i_def)
qed

section \<open>The field writer on bit strings\<close>

definition fw_put :: "bool list \<Rightarrow> field_writer \<Rightarrow> field_writer" where
  "fw_put bs w = w\<lparr>fw_writer := bw_put bs (fw_writer w)\<rparr>"

lemma fw_put_simps [simp]:
  "fw_put [] w = w"
  "fw_put cs (fw_put bs w) = fw_put (bs @ cs) w"
  "fw_message_number (fw_put bs w) = fw_message_number w"
  by (simp_all add: fw_put_def)

lemma fw_put_new [simp]:
  "fw_into_bytes (fw_put bs (fw_new n)) = pack bs"
  "fw_bit_len (fw_put bs (fw_new n)) = length bs"
  "fw_message_number (fw_new n) = n"
  using bw_rep_put [OF bw_rep_new, of bs]
  by (simp_all add: fw_put_def fw_new_def fw_into_bytes_def fw_bit_len_def bw_rep_def)

definition fits_u :: "nat \<Rightarrow> 'a::len word \<Rightarrow> bool" where
  "fits_u n v \<longleftrightarrow> unat v < 2 ^ n"

lemma drop_bit_eq_0_iff_fits: "drop_bit n v = 0 \<longleftrightarrow> fits_u n v"
proof -
  have "unat (drop_bit n v) = unat v div 2 ^ n"
    by (simp only: unat_drop_bit_eq) (simp add: drop_bit_eq_div)
  then show ?thesis
    by (simp only: fits_u_def word_unat_eq_iff) (simp add: div_eq_0_iff)
qed

lemma fw_flag_put: "fw_flag b w = fw_put [b] w"
  by (simp add: fw_flag_def fw_put_def bw_push_flag_def)

lemma fw_u_eq:
  assumes "n \<le> 64"
  shows "fw_u f v n w =
     (if fits_u n v then Inr (fw_put (to_bits n v) w)
      else Inl (fw_refuse w f (uint v) n Unsigned))"
proof -
  have "fits_u 64 v"
    using unsigned_less [of v] by (simp add: fits_u_def)
  with assms show ?thesis
    by (auto simp: fw_u_def drop_bit_eq_0_iff_fits bw_push_u_put fw_put_def)
qed

lemma fw_i_eq:
  assumes "n < 64"
  shows "fw_i f v n w =
     (if fits_i n v then Inr (fw_put (to_bits_i n v) w)
      else Inl (fw_refuse w f v n TwosComplement))"
  using assms by (simp add: fw_i_def fits_i_def bw_push_i_put fw_put_def)

section \<open>What a read field says of the bits\<close>

lemma take_bit_eq_iff_fits: "take_bit n v = v \<longleftrightarrow> fits_u n v"
  by (simp add: fits_u_def word_unat_eq_iff unsigned_take_bit_eq take_bit_nat_eq_self_iff)

lemma fits_u_of_bits: "length bs = n \<Longrightarrow> n \<le> 64 \<Longrightarrow> fits_u n (of_bits bs)"
  using of_bits_less [of bs] by (metis take_bit_eq_iff_fits)

lemma br_u_Inr:
  assumes "br_u n r = Inr (v, r')" and "n \<le> 64"
  shows "rest_bits r = to_bits n v @ rest_bits r'" and "r' = adv n r" and "fits_u n v"
proof -
  from assms(1) have len: "n \<le> length (rest_bits r)" and v: "v = of_bits (take n (rest_bits r))"
    and r': "r' = adv n r"
    by (auto simp: br_u_eq split: if_splits)
  then have "to_bits n v = take n (rest_bits r)"
    using assms(2) by (simp add: to_bits_of_bits)
  then show "rest_bits r = to_bits n v @ rest_bits r'" and "r' = adv n r" and "fits_u n v"
    using len v r' assms(2) by (simp_all add: fits_u_of_bits)
qed

lemma br_u_to_bits:
  assumes "rest_bits r = to_bits n v @ rest" and "n \<le> 64" and "fits_u n v"
  shows "br_u n r = Inr (v, adv n r)"
  using assms by (simp add: br_u_eq of_bits_to_bits take_bit_eq_iff_fits)

lemma br_flag_eq:
  "br_flag r =
     (case rest_bits r of [] \<Rightarrow> Inl \<lparr>requested_bits = 1, left_bits = 0\<rparr>
      | b # _ \<Rightarrow> Inr (b, adv 1 r))"
proof -
  have "of_bits [b] \<noteq> 0 \<longleftrightarrow> b" for b
    by (simp add: of_bits_def bits_step_def)
  then show ?thesis
    by (auto simp: br_flag_def br_u_eq split: list.splits)
qed

lemma raw_and_sign_bit: "raw AND push_bit m (1 :: u64) \<noteq> 0 \<longleftrightarrow> bit raw m"
  by (simp add: push_bit_eq_mult and_exp_eq_0_iff_not_bit)

lemma sign_extend:
  fixes raw :: u64
  assumes "0 < n" and "n < 64" and "fits_u n raw"
  shows "(if bit raw (n - 1) then as_i64 (as_i64 (uint raw) - as_i64 (2 ^ n))
          else as_i64 (uint raw)) = signed_take_bit (n - 1) (uint raw)"
proof -
  have lt: "uint raw < 2 ^ n"
    using assms(3)
    by (simp only: fits_u_def uint_nat of_nat_less_numeral_power_cancel_iff)
  have eq: "signed_take_bit (n - 1) (uint raw - 2 ^ n) = signed_take_bit (n - 1) (uint raw)"
  proof -
    have "take_bit n (uint raw - 2 ^ n) = take_bit n (uint raw)"
      by (simp only: take_bit_eq_mod minus_mod_self2)
    with assms(1) show ?thesis
      by (simp only: signed_take_bit_eq_iff_take_bit_eq Suc_diff_1)
  qed
  have two: "(2::int) ^ n = 2 * 2 ^ (n - 1)"
    using assms(1) by (simp flip: power_Suc)
  have small: "(2::int) ^ n \<le> 2 ^ 63"
    using assms(2) by (intro power_increasing) auto
  show ?thesis
  proof (cases "bit raw (n - 1)")
    case True
    then have "bit (uint raw) (n - 1)" by (simp only: bit_uint_iff bit_imp_le_length)
    then have "2 ^ (n - 1) \<le> uint raw"
      by (metis bit_imp_le_length bit_take_bit_iff leI order.strict_iff_not take_bit_int_eq_self
          uint_ge_0)
    with lt two have r: "fits_i n (uint raw - 2 ^ n)" by (simp add: fits_i_def)
    then have "signed_take_bit (n - 1) (uint raw) = uint raw - 2 ^ n"
      using assms(1) by (metis eq fits_i_signed_take_bit Suc_pred' le_refl)
    moreover have "as_i64 (as_i64 (uint raw) - as_i64 (2 ^ n)) = as_i64 (uint raw - 2 ^ n)"
      by (simp add: as_i64_def signed_take_bit_diff)
    ultimately show ?thesis
      using True r assms(1,2) by (simp add: as_i64_fits)
  next
    case False
    then have "\<not> bit (uint raw) (n - 1)" by (simp add: bit_uint_iff)
    then have "take_bit n (uint raw) = take_bit (n - 1) (uint raw)"
      using take_bit_Suc_from_most [of "n - 1" "uint raw"] assms(1) by simp
    then have "uint raw = take_bit (n - 1) (uint raw)"
      using lt by (simp add: take_bit_int_eq_self)
    then have "uint raw < 2 ^ (n - 1)"
      by (metis take_bit_int_less_exp)
    moreover have "- (2 ^ (n - 1)) \<le> uint raw"
      by (rule order_trans [OF _ uint_ge_0]) simp
    ultimately have "fits_i n (uint raw)" by (simp add: fits_i_def)
    then show ?thesis
      using False assms(1,2) fits_i_signed_take_bit [of n "uint raw" "n - 1"]
      by (simp add: as_i64_fits)
  qed
qed

lemma to_bits_i_signed:
  fixes raw :: u64
  assumes "0 < n" and "n < 64"
  shows "to_bits_i n (signed_take_bit (n - 1) (uint raw)) = to_bits n raw"
  unfolding to_bits_i_def
proof (rule to_bits_cong)
  fix k assume "k < n"
  moreover from this have "min k (n - 1) = k" by simp
  ultimately show "bit (word_of_int (signed_take_bit (n - 1) (uint raw)) :: u64) k = bit raw k"
    using assms by (simp add: bit_simps)
qed

lemma br_i_eq:
  assumes "0 < n" and "n < 64"
  shows "br_i n r = ebind (br_u n r) (\<lambda>(raw, r'). Inr (signed_take_bit (n - 1) (uint raw), r'))"
proof (cases "br_u n r")
  case (Inl e)
  then show ?thesis by (simp add: br_i_def)
next
  case (Inr p)
  obtain raw r' where p: "p = (raw, r')" by (cases p)
  have "fits_u n raw"
    using br_u_Inr(3) [of n r raw r'] Inr p assms(2) by simp
  from sign_extend [OF assms this] show ?thesis
    unfolding br_i_def Inr p Let_def raw_and_sign_bit by auto
qed

lemma br_i_Inr:
  assumes "br_i n r = Inr (v, r')" and "0 < n" and "n < 64"
  shows "rest_bits r = to_bits_i n v @ rest_bits r'" and "r' = adv n r" and "fits_i n v"
proof -
  from assms obtain raw where u: "br_u n r = Inr (raw, r')"
    and v: "v = signed_take_bit (n - 1) (uint raw)"
    by (auto simp: br_i_eq)
  from br_u_Inr [OF u] assms(3)
  show "rest_bits r = to_bits_i n v @ rest_bits r'" and "r' = adv n r"
    by (simp_all only: v to_bits_i_signed [OF assms(2,3)])
  show "fits_i n v" unfolding v by (rule fits_i_signed_take_bit_self)
qed

lemma br_i_to_bits:
  assumes "rest_bits r = to_bits_i n v @ rest" and "0 < n" and "n < 64" and "fits_i n v"
  shows "br_i n r = Inr (v, adv n r)"
proof -
  define raw where "raw = take_bit n (word_of_int v :: u64)"
  have fits: "fits_u n raw"
    by (simp add: raw_def flip: take_bit_eq_iff_fits)
  have bits: "to_bits n raw = to_bits_i n v"
    unfolding to_bits_i_def raw_def by (intro to_bits_cong) (simp add: bit_simps)
  have u: "br_u n r = Inr (raw, adv n r)"
    using assms(1,3) fits by (intro br_u_to_bits) (simp_all add: bits)
  have "uint raw = take_bit n (take_bit 64 v)"
    by (simp only: raw_def unsigned_take_bit_eq unsigned_of_int) simp
  then have "signed_take_bit (n - 1) (uint raw) = signed_take_bit (n - 1) v"
    using assms(2,3) by (simp add: signed_take_bit_eq_iff_take_bit_eq min_def)
  also have "\<dots> = v"
    using assms(2) by (intro fits_i_signed_take_bit [OF assms(4,2)]) linarith
  finally show ?thesis
    by (simp add: br_i_eq assms(2,3) u)
qed

section \<open>Sign-and-magnitude fields\<close>

definition to_bits_ism :: "nat \<Rightarrow> int \<Rightarrow> bool \<Rightarrow> bool list" where
  "to_bits_ism n v nz = (v < 0 \<or> nz) # to_bits (n - 1) (word_of_int \<bar>v\<bar>)"

definition fits_ism :: "nat \<Rightarrow> int \<Rightarrow> bool \<Rightarrow> bool" where
  "fits_ism n v nz \<longleftrightarrow> \<bar>v\<bar> \<le> 2 ^ (n - 1) - 1 \<and> (nz \<longrightarrow> v = 0)"

lemma length_to_bits_ism [simp]: "0 < n \<Longrightarrow> length (to_bits_ism n v nz) = n"
  by (simp add: to_bits_ism_def)

lemma fw_ism_eq:
  "fw_ism f v n nz w =
     (if fits_ism n v nz then Inr (fw_put (to_bits_ism n v nz) w)
      else if \<bar>v\<bar> > 2 ^ (n - 1) - 1 then Inl (fw_refuse w f v n SignMagnitude)
      else Inl (NegativeZeroWithValue (fw_message_number w) f v))"
  by (auto simp: fw_ism_def fits_ism_def to_bits_ism_def fw_put_def bw_push_u_put
      bw_push_flag_def Let_def)

lemma uint_word_of_int_small:
  assumes "0 \<le> v" and "v < 2 ^ m" and "m < 64"
  shows "uint (word_of_int v :: u64) = v" and "fits_u m (word_of_int v :: u64)"
proof -
  have "(2::int) ^ m \<le> 2 ^ 63"
    using assms(3) by (intro power_increasing) auto
  with assms(2) have lt: "v < 2 ^ 64" by simp
  with assms(1) show u: "uint (word_of_int v :: u64) = v"
    by (simp add: unsigned_of_int take_bit_int_eq_self)
  have "int (unat (word_of_int v :: u64)) < 2 ^ m"
    using assms(2) by (simp only: u flip: uint_nat)
  then show "fits_u m (word_of_int v :: u64)"
    by (simp only: fits_u_def of_nat_less_numeral_power_cancel_iff)
qed

lemma as_i64_uint_fits:
  fixes raw :: u64
  assumes "fits_u m raw" and "m < 64"
  shows "as_i64 (uint raw) = uint raw" and "uint raw < 2 ^ m"
proof -
  show lt: "uint raw < 2 ^ m"
    using assms(1) by (simp only: fits_u_def uint_nat of_nat_less_numeral_power_cancel_iff)
  have "(2::int) ^ m \<le> 2 ^ 63"
    using assms(2) by (intro power_increasing) auto
  with lt have "uint raw < 2 ^ 63" by linarith
  moreover have "- (2 ^ 63) \<le> uint raw"
    by (rule order_trans [OF _ uint_ge_0]) simp
  ultimately show "as_i64 (uint raw) = uint raw"
    by (simp only: as_i64_def signed_take_bit_int_eq_self)
qed

lemma br_ism_Inr:
  assumes "br_ism_signed_zero n r = Inr ((v, nz), r')" and "0 < n" and "n < 64"
  shows "rest_bits r = to_bits_ism n v nz @ rest_bits r'" and "r' = adv n r" and "fits_ism n v nz"
proof -
  from assms(1) obtain neg r1 raw where f: "br_flag r = Inr (neg, r1)"
    and u: "br_u (n - 1) r1 = Inr (raw, r')"
    and v: "(v, nz) = (let m = as_i64 (uint raw) in if neg then (- m, m = 0) else (m, False))"
    by (auto simp: br_ism_signed_zero_def Let_def)
  from f have r: "rest_bits r = neg # rest_bits r1" and r1: "r1 = adv 1 r"
    by (auto simp: br_flag_eq split: list.splits)
  have n1: "n - 1 < 64" "n - 1 \<le> 64" using assms(3) by simp_all
  note u' = br_u_Inr [OF u n1(2)]
  note m = as_i64_uint_fits [OF u'(3) n1(1)]
  have abs: "\<bar>v\<bar> = uint raw" and sgn: "v < 0 \<or> nz \<longleftrightarrow> neg" and nz: "nz \<longrightarrow> v = 0"
    using v m(1) by (auto simp: Let_def order.strict_iff_order split: if_splits)
  have "word_of_int \<bar>v\<bar> = raw" by (simp only: abs word_of_int_uint)
  then show "rest_bits r = to_bits_ism n v nz @ rest_bits r'"
    using r u'(1) sgn by (simp add: to_bits_ism_def)
  show "r' = adv n r" using u'(2) r1 assms(2) by simp
  show "fits_ism n v nz" using abs nz m(2) by (simp add: fits_ism_def)
qed

lemma br_ism_to_bits:
  assumes "rest_bits r = to_bits_ism n v nz @ rest" and "0 < n" and "n < 64" and "fits_ism n v nz"
  shows "br_ism_signed_zero n r = Inr ((v, nz), adv n r)"
proof -
  let ?raw = "word_of_int \<bar>v\<bar> :: u64"
  have lt: "\<bar>v\<bar> < 2 ^ (n - 1)" and nz: "nz \<longrightarrow> v = 0"
    using assms(4) by (auto simp: fits_ism_def)
  have n1: "n - 1 < 64" using assms(3) by simp
  note raw = uint_word_of_int_small [OF abs_ge_zero lt n1]
  have f: "br_flag r = Inr (v < 0 \<or> nz, adv 1 r)"
    using assms(1) by (simp add: br_flag_eq to_bits_ism_def)
  have "rest_bits (adv 1 r) = to_bits (n - 1) ?raw @ rest"
    using assms(1) by (simp add: to_bits_ism_def)
  then have u: "br_u (n - 1) (adv 1 r) = Inr (?raw, adv (n - 1) (adv 1 r))"
    using raw(2) n1 by (intro br_u_to_bits) simp_all
  have adv: "adv (n - 1) (adv 1 r) = adv n r"
    using assms(2) by simp
  have mag: "as_i64 (uint ?raw) = \<bar>v\<bar>"
    using as_i64_uint_fits(1) [OF raw(2) n1] raw(1) by (rule trans)
  show ?thesis
    unfolding br_ism_signed_zero_def f u adv ebind_simps prod.case Let_def mag
    using nz by auto
qed

end
