(* ===== verification/Rtcm_Codec.thy ===== *)
theory Rtcm_Codec
  imports Rtcm_Bits
begin

text \<open>
  Decoders and encoders over the bit reader and the field writer, and the laws
  that tie one to the other.

  A decoder is a function on the reader state that fails with a \<^typ>\<open>decode_error\<close>;
  \<open>rbind\<close> is the \<^verbatim>\<open>?\<close> that passes the reader on.  An encoder is a list of writer
  actions run in order until one refuses.  Two judgements connect them:

  \<^item> \<open>sync m as x\<close>: whenever the actions \<open>as\<close> succeed, the decoder \<open>m\<close> reads the
    bits they wrote back as \<open>x\<close>, whatever follows them;
  \<^item> \<open>deco m Q\<close>: whenever the decoder \<open>m\<close> returns a value, it has consumed a run
    of bits that stands in the relation \<open>Q\<close> to that value.

  Both have one introduction rule per decoder construct, so that a message's
  proof follows the order of its fields.
\<close>

unbundle bit_operations_syntax

named_theorems sync_intros "read-back rules, one per field encoding"
named_theorems deco_intros "consumption rules, one per field encoding"
named_theorems writes_intros "bits written by a list of actions"

section \<open>Decoders\<close>

type_synonym 'a rd = "bit_reader \<Rightarrow> decode_error + 'a \<times> bit_reader"

definition rreturn :: "'a \<Rightarrow> 'a rd" where
  "rreturn x = (\<lambda>r. Inr (x, r))"

definition rbind :: "'a rd \<Rightarrow> ('a \<Rightarrow> 'b rd) \<Rightarrow> 'b rd" where
  "rbind m k = (\<lambda>r. ebind (m r) (\<lambda>(x, r'). k x r'))"

definition rfail :: "decode_error \<Rightarrow> 'a rd" where
  "rfail e = (\<lambda>r. Inl e)"

text \<open>A result that does not touch the reader, and \<^verbatim>\<open>Error::Parse(..).into()\<close>.\<close>

definition rlift :: "decode_error + 'a \<Rightarrow> 'a rd" where
  "rlift e = (\<lambda>r. ebind e (\<lambda>x. Inr (x, r)))"

definition parse_error :: "string \<Rightarrow> 'a rd" where
  "parse_error msg = rfail (DecodeFailed (Parse msg))"

text \<open>The reader's methods under \<^verbatim>\<open>?\<close>, which converts \<^verbatim>\<open>OutOfInput\<close> into \<^verbatim>\<open>DecodeError\<close>.\<close>

definition from_out_of_input ::
  "(bit_reader \<Rightarrow> out_of_input + 'a \<times> bit_reader) \<Rightarrow> 'a rd" where
  "from_out_of_input m = (\<lambda>r. case m r of Inl e \<Rightarrow> Inl (OutOfInput e) | Inr p \<Rightarrow> Inr p)"

definition rd_u :: "nat \<Rightarrow> u64 rd" where
  "rd_u n = from_out_of_input (br_u n)"

definition rd_flag :: "bool rd" where
  "rd_flag = from_out_of_input br_flag"

definition rd_i :: "nat \<Rightarrow> int rd" where
  "rd_i n = from_out_of_input (br_i n)"

definition rd_ism_signed_zero :: "nat \<Rightarrow> (int \<times> bool) rd" where
  "rd_ism_signed_zero n = from_out_of_input (br_ism_signed_zero n)"

text \<open>\<^verbatim>\<open>r.u(n)? as uW\<close>, \<^verbatim>\<open>r.u(n)? as usize\<close>, \<^verbatim>\<open>r.i(n)? as iW\<close>.\<close>

definition rd_as :: "nat \<Rightarrow> 'a::len word rd" where
  "rd_as n = rbind (rd_u n) (\<lambda>v. rreturn (ucast v))"

definition rd_usize :: "nat \<Rightarrow> nat rd" where
  "rd_usize n = rbind (rd_u n) (\<lambda>v. rreturn (unat v))"

definition rd_i8 :: "nat \<Rightarrow> int rd" where
  "rd_i8 n = rbind (rd_i n) (\<lambda>v. rreturn (as_i8 v))"

definition rd_i16 :: "nat \<Rightarrow> int rd" where
  "rd_i16 n = rbind (rd_i n) (\<lambda>v. rreturn (as_i16 v))"

definition rd_i32 :: "nat \<Rightarrow> int rd" where
  "rd_i32 n = rbind (rd_i n) (\<lambda>v. rreturn (as_i32 v))"

text \<open>Reading \<open>n\<close> values in a row, and reading a value only where it is carried.\<close>

fun rd_vec :: "nat \<Rightarrow> 'a rd \<Rightarrow> 'a list rd" where
  "rd_vec 0 m = rreturn []"
| "rd_vec (Suc n) m = rbind m (\<lambda>x. rbind (rd_vec n m) (\<lambda>xs. rreturn (x # xs)))"

definition rd_opt :: "bool \<Rightarrow> 'a rd \<Rightarrow> 'a option rd" where
  "rd_opt carried m = (if carried then rbind m (\<lambda>x. rreturn (Some x)) else rreturn None)"

section \<open>Encoders\<close>

type_synonym wr = "field_writer \<Rightarrow> rtcm_encode_error + field_writer"

fun w_all :: "wr list \<Rightarrow> wr" where
  "w_all [] w = Inr w"
| "w_all (a # as) w = ebind (a w) (w_all as)"

definition w_flag :: "bool \<Rightarrow> wr" where
  "w_flag b w = Inr (fw_flag b w)"

text \<open>
  \<^verbatim>\<open>w.u(field, u64::from(v), n)\<close> and the same for a length held in a \<^verbatim>\<open>usize\<close>.  The
  length of a Rust vector is below \<open>2 ^ 64\<close>; a longer HOL list is refused as any
  value too wide for the field is.
\<close>

definition w_u :: "string \<Rightarrow> 'a::len word \<Rightarrow> nat \<Rightarrow> wr" where
  "w_u f v n = fw_u f (ucast v) n"

definition w_len :: "string \<Rightarrow> nat \<Rightarrow> nat \<Rightarrow> wr" where
  "w_len f v n w =
     (if v < 2 ^ 64 then fw_u f (word_of_nat v) n w
      else Inl (fw_refuse w f (int v) n Unsigned))"

definition w_opt :: "('a \<Rightarrow> wr) \<Rightarrow> 'a option \<Rightarrow> wr list" where
  "w_opt f v = (case v of None \<Rightarrow> [] | Some x \<Rightarrow> [f x])"

lemma w_all_append: "w_all (as @ bs) w = ebind (w_all as w) (w_all bs)"
  by (induction as arbitrary: w) (auto simp: ebind_def split: sum.splits)

lemma w_opt_simps [simp]: "w_opt f None = []" "w_opt f (Some x) = [f x]"
  by (simp_all add: w_opt_def)

section \<open>The judgements\<close>

definition reads :: "'a rd \<Rightarrow> 'a \<Rightarrow> bool list \<Rightarrow> bool" where
  "reads m x bs \<longleftrightarrow>
     (\<forall>r rest. rest_bits r = bs @ rest \<longrightarrow> m r = Inr (x, adv (length bs) r))"

definition writes :: "wr list \<Rightarrow> bool list \<Rightarrow> bool" where
  "writes as bs \<longleftrightarrow> (\<forall>w. w_all as w = Inr (fw_put bs w))"

definition sync :: "'a rd \<Rightarrow> wr list \<Rightarrow> 'a \<Rightarrow> bool" where
  "sync m as x \<longleftrightarrow>
     (\<forall>w w'. w_all as w = Inr w' \<longrightarrow> (\<exists>bs. w' = fw_put bs w \<and> reads m x bs))"

definition deco :: "'a rd \<Rightarrow> ('a \<Rightarrow> bool list \<Rightarrow> bool) \<Rightarrow> bool" where
  "deco m Q \<longleftrightarrow>
     (\<forall>r x r'. m r = Inr (x, r') \<longrightarrow>
        (\<exists>bs. rest_bits r = bs @ rest_bits r' \<and> r' = adv (length bs) r \<and> Q x bs))"

subsection \<open>Sequencing\<close>

lemma decoD:
  assumes "deco m Q" and "m r = Inr (x, r')"
  shows "\<exists>bs. rest_bits r = bs @ rest_bits r' \<and> r' = adv (length bs) r \<and> Q x bs"
  using assms unfolding deco_def by blast

lemma reads_return: "reads (rreturn x) x []"
  by (simp add: reads_def rreturn_def)

lemma reads_bind:
  "reads m x bs \<Longrightarrow> reads (k x) y cs \<Longrightarrow> reads (rbind m k) y (bs @ cs)"
  by (auto simp: reads_def rbind_def)

lemma reads_bind_Cons:
  "reads m x [b] \<Longrightarrow> reads (k x) y cs \<Longrightarrow> reads (rbind m k) y (b # cs)"
  using reads_bind [of m x "[b]"] by simp

lemma sync_return [sync_intros]: "x = y \<Longrightarrow> sync (rreturn x) [] y"
  by (auto simp: sync_def intro!: exI [of _ "[]"] reads_return)

lemma sync_lift [sync_intros]: "sync (k x) as y \<Longrightarrow> sync (rbind (rlift (Inr x)) k) as y"
  by (simp add: sync_def reads_def rbind_def rlift_def)

lemma sync_bind_return [sync_intros]: "sync (k x) as y \<Longrightarrow> sync (rbind (rreturn x) k) as y"
  by (simp add: sync_def reads_def rbind_def rreturn_def)

lemma sync_bind:
  assumes m: "sync m as x" and k: "sync (k x) bs y"
  shows "sync (rbind m k) (as @ bs) y"
  unfolding sync_def
proof (intro allI impI)
  fix w w' assume "w_all (as @ bs) w = Inr w'"
  then obtain w1 where w1: "w_all as w = Inr w1" and w': "w_all bs w1 = Inr w'"
    by (auto simp: w_all_append)
  from m w1 obtain b1 where b1: "w1 = fw_put b1 w" "reads m x b1"
    by (auto simp: sync_def)
  from k w' obtain b2 where b2: "w' = fw_put b2 w1" "reads (k x) y b2"
    by (auto simp: sync_def)
  show "\<exists>bs. w' = fw_put bs w \<and> reads (rbind m k) y bs"
    using b1 b2 by (intro exI [of _ "b1 @ b2"]) (simp add: reads_bind)
qed

lemma sync_step:
  "sync m [a] x \<Longrightarrow> sync (k x) as y \<Longrightarrow> sync (rbind m k) (a # as) y"
  using sync_bind [of m "[a]"] by simp

lemma deco_return [deco_intros]: "Q x [] \<Longrightarrow> deco (rreturn x) Q"
  by (auto simp: deco_def rreturn_def)

lemma deco_fail [deco_intros]: "deco (rfail e) Q"
  by (simp add: deco_def rfail_def)

lemma deco_parse_error [deco_intros]: "deco (parse_error e) Q"
  by (simp add: parse_error_def deco_fail)

lemma deco_bind:
  assumes m: "deco m P" and k: "\<And>x bs. P x bs \<Longrightarrow> deco (k x) (\<lambda>y cs. Q y (bs @ cs))"
  shows "deco (rbind m k) Q"
  unfolding deco_def
proof (intro allI impI)
  fix r y r'' assume "rbind m k r = Inr (y, r'')"
  then obtain x r' where x: "m r = Inr (x, r')" and y: "k x r' = Inr (y, r'')"
    by (auto simp: rbind_def)
  from m x obtain b1 where b1: "rest_bits r = b1 @ rest_bits r'" "r' = adv (length b1) r" "P x b1"
    unfolding deco_def by blast
  from k [OF b1(3)] y obtain b2 where
    b2: "rest_bits r' = b2 @ rest_bits r''" "r'' = adv (length b2) r'" "Q y (b1 @ b2)"
    unfolding deco_def by blast
  show "\<exists>bs. rest_bits r = bs @ rest_bits r'' \<and> r'' = adv (length bs) r \<and> Q y bs"
    using b1(1,2) b2 by (intro exI [of _ "b1 @ b2"]) (simp only: append_assoc length_append adv_adv simp_thms)
qed

lemma deco_bind_return [deco_intros]: "deco (k x) Q \<Longrightarrow> deco (rbind (rreturn x) k) Q"
  by (simp add: deco_def rbind_def rreturn_def)

lemma deco_bind_fail [deco_intros]:
  "deco (rbind (rfail e) k) Q" "deco (rbind (parse_error msg) k) Q"
  by (simp_all add: deco_def rbind_def rfail_def parse_error_def)

lemma deco_lift [deco_intros]:
  "(\<And>x. e = Inr x \<Longrightarrow> deco (k x) Q) \<Longrightarrow> deco (rbind (rlift e) k) Q"
  by (auto simp: deco_def rbind_def rlift_def)

lemma deco_if [deco_intros]:
  "(c \<Longrightarrow> deco m Q) \<Longrightarrow> (\<not> c \<Longrightarrow> deco n Q) \<Longrightarrow> deco (if c then m else n) Q"
  by simp

lemma deco_mono: "deco m P \<Longrightarrow> (\<And>x bs. P x bs \<Longrightarrow> Q x bs) \<Longrightarrow> deco m Q"
  unfolding deco_def by blast

lemma writes_Nil [writes_intros]: "writes [] []"
  by (simp add: writes_def)

lemma writes_append: "writes as bs \<Longrightarrow> writes as' bs' \<Longrightarrow> writes (as @ as') (bs @ bs')"
  by (simp add: writes_def w_all_append)

lemma writes_step: "writes [a] bs \<Longrightarrow> writes as bs' \<Longrightarrow> writes (a # as) (bs @ bs')"
  using writes_append [of "[a]" bs as bs'] by simp

subsection \<open>Unsigned fields\<close>

lemma ucast_ucast_u64:
  "LENGTH('a) \<le> 64 \<Longrightarrow> (ucast (ucast (x :: 'a::len word) :: u64) :: 'a word) = x"
  by (intro bit_word_eqI) (auto simp: bit_simps)

lemma fits_u_ucast:
  assumes "LENGTH('a) \<le> 64"
  shows "fits_u n (ucast (x :: 'a::len word) :: u64) \<longleftrightarrow> fits_u n x"
proof -
  have "unat x < 2 ^ LENGTH('a)" by (rule unsigned_less)
  also have "(2::nat) ^ LENGTH('a) \<le> 2 ^ 64"
    using assms by (intro power_increasing) auto
  finally have "unat (ucast x :: u64) = unat x"
    by (simp add: unsigned_ucast_eq take_bit_nat_eq_self_iff)
  then show ?thesis by (simp add: fits_u_def)
qed

lemma fits_u_narrow:
  assumes "n \<le> LENGTH('a)" and "LENGTH('a) \<le> 64" and "fits_u n (v :: u64)"
  shows "ucast (ucast v :: 'a::len word) = v" and "fits_u n (ucast v :: 'a word)"
proof -
  have "\<not> bit v k" if "n \<le> k" for k
    using assms(3) that by (metis bit_take_bit_iff not_le take_bit_eq_iff_fits)
  then show eq: "ucast (ucast v :: 'a word) = v"
    using assms(1,2) by (intro bit_word_eqI) (auto simp: bit_simps not_less intro: ccontr)
  show "fits_u n (ucast v :: 'a word)"
    using assms(3) fits_u_ucast [OF assms(2), of n "ucast v"] by (simp add: eq)
qed

lemma reads_u: "n \<le> 64 \<Longrightarrow> fits_u n v \<Longrightarrow> reads (rd_u n) v (to_bits n v)"
  by (simp add: reads_def rd_u_def from_out_of_input_def br_u_to_bits)

lemma reads_as:
  assumes "n \<le> 64" and "LENGTH('a) \<le> 64" and "fits_u n (x :: 'a::len word)"
  shows "reads (rd_as n) x (to_bits n (ucast x))"
proof -
  have "fits_u n (ucast x :: u64)" using assms(2,3) by (simp add: fits_u_ucast)
  then have "reads (rbind (rd_u n) (\<lambda>v. rreturn (ucast v))) (ucast (ucast x :: u64) :: 'a word)
               (to_bits n (ucast x) @ [])"
    using assms(1) by (intro reads_bind [OF reads_u] reads_return)
  then show ?thesis
    using assms(2) by (simp add: rd_as_def ucast_ucast_u64)
qed

lemma w_u_eq:
  assumes "n \<le> 64" and "LENGTH('a) \<le> 64"
  shows "w_u f (x :: 'a::len word) n w =
     (if fits_u n x then Inr (fw_put (to_bits n (ucast x)) w)
      else Inl (fw_refuse w f (uint (ucast x :: u64)) n Unsigned))"
  using assms by (simp add: w_u_def fw_u_eq fits_u_ucast)

lemma sync_as [sync_intros]:
  assumes "n \<le> 64" and "LENGTH('a) \<le> 64"
    and "fits_u n x \<Longrightarrow> sync (k (x :: 'a::len word)) as y"
  shows "sync (rbind (rd_as n) k) (w_u f x n # as) y"
proof (cases "fits_u n x")
  case True
  have "sync (rd_as n) [w_u f x n] x"
    using assms(1,2) True by (auto simp: sync_def w_u_eq intro: reads_as)
  then show ?thesis using assms(3) [OF True] by (rule sync_step)
next
  case False
  then show ?thesis by (simp add: sync_def w_u_eq assms(1,2))
qed

lemma deco_as [deco_intros]:
  assumes "n \<le> LENGTH('a)" and "LENGTH('a) \<le> 64"
    and "\<And>x :: 'a::len word. fits_u n x \<Longrightarrow> deco (k x) (\<lambda>y cs. Q y (to_bits n (ucast x) @ cs))"
  shows "deco (rbind (rd_as n) k) Q"
proof (rule deco_bind)
  have n: "n \<le> 64" using assms(1,2) by simp
  show "deco (rd_as n) (\<lambda>x bs. fits_u n x \<and> bs = to_bits n (ucast (x :: 'a word)))"
    unfolding deco_def
  proof (intro allI impI)
    fix r r' and x :: "'a word" assume "rd_as n r = Inr (x, r')"
    then obtain v where v: "br_u n r = Inr (v, r')" and x: "x = ucast v"
      by (auto simp: rd_as_def rbind_def rd_u_def rreturn_def from_out_of_input_def
          split: sum.splits)
    note u = br_u_Inr [OF v n] and c = fits_u_narrow [OF assms(1,2) br_u_Inr(3) [OF v n]]
    show "\<exists>bs. rest_bits r = bs @ rest_bits r' \<and> r' = adv (length bs) r
            \<and> fits_u n x \<and> bs = to_bits n (ucast x)"
      using u(1,2) c x by simp
  qed
qed (auto intro: assms(3))

lemma writes_u [writes_intros]:
  "n \<le> 64 \<Longrightarrow> LENGTH('a) \<le> 64 \<Longrightarrow> fits_u n (x :: 'a::len word) \<Longrightarrow> writes as bs \<Longrightarrow>
     writes (w_u f x n # as) (to_bits n (ucast x) @ bs)"
  by (rule writes_step) (simp_all add: writes_def w_u_eq)

text \<open>A full 64-bit field and a count read into a \<^verbatim>\<open>usize\<close>.\<close>

lemma rd_u_as: "rd_u n = rd_as n"
  by (simp add: rd_as_def rbind_def rreturn_def fun_eq_iff ebind_def split: sum.splits)

lemma sync_u [sync_intros]:
  "n \<le> 64 \<Longrightarrow> (fits_u n x \<Longrightarrow> sync (k x) as y) \<Longrightarrow> sync (rbind (rd_u n) k) (w_u f x n # as) y"
  unfolding rd_u_as by (rule sync_as) simp_all

lemma deco_u [deco_intros]:
  "n \<le> 64 \<Longrightarrow> (\<And>x. fits_u n x \<Longrightarrow> deco (k x) (\<lambda>y cs. Q y (to_bits n x @ cs))) \<Longrightarrow>
     deco (rbind (rd_u n) k) Q"
  unfolding rd_u_as by (rule deco_as) simp_all

lemma rd_usize_as: "rbind (rd_usize n) k = rbind (rd_u n) (\<lambda>v. k (unat v))"
  by (auto simp: rd_usize_def rbind_def rreturn_def fun_eq_iff ebind_def split: sum.splits)

lemma w_len_u: "x < 2 ^ 64 \<Longrightarrow> w_len f x n = w_u f (word_of_nat x :: u64) n"
  by (rule ext) (simp add: w_len_def w_u_def)

lemma sync_usize [sync_intros]:
  assumes "n < 64" and "x < 2 ^ n \<Longrightarrow> sync (k x) as y"
  shows "sync (rbind (rd_usize n) k) (w_len f x n # as) y"
proof (cases "x < 2 ^ 64")
  case True
  then have x: "unat (word_of_nat x :: u64) = x"
    by (simp add: unat_of_nat)
  have "sync (rbind (rd_u n) (\<lambda>v. k (unat v))) (w_u f (word_of_nat x :: u64) n # as) y"
    using assms by (intro sync_u) (simp_all add: x fits_u_def)
  then show ?thesis using True by (simp add: rd_usize_as w_len_u)
next
  case False
  then show ?thesis by (simp add: sync_def w_len_def)
qed

lemma deco_usize [deco_intros]:
  assumes "n < 64"
    and "\<And>x. x < 2 ^ n \<Longrightarrow> deco (k x) (\<lambda>y cs. Q y (to_bits n (word_of_nat x) @ cs))"
  shows "deco (rbind (rd_usize n) k) Q"
proof -
  have "deco (k (unat v)) (\<lambda>y cs. Q y (to_bits n v @ cs))" if "fits_u n v" for v :: u64
    using assms(2) [of "unat v"] that by (simp add: fits_u_def)
  then show ?thesis
    unfolding rd_usize_as using assms(1) by (intro deco_u) simp_all
qed

lemma writes_len [writes_intros]:
  assumes "n < 64" and "x < 2 ^ n" and "writes as bs"
  shows "writes (w_len f x n # as) (to_bits n (word_of_nat x) @ bs)"
proof -
  have "(2::nat) ^ n < 2 ^ 64" using assms(1) by (intro power_strict_increasing) auto
  with assms(2) have x: "x < 2 ^ 64" by simp
  then have "unat (word_of_nat x :: u64) = x" by (simp add: unat_of_nat)
  with assms(1,2) have "writes (w_u f (word_of_nat x :: u64) n # as)
      (to_bits n (ucast (word_of_nat x :: u64)) @ bs)"
    by (intro writes_u assms(3)) (simp_all add: fits_u_def)
  then show ?thesis using x by (simp add: w_len_u)
qed

subsection \<open>Flags\<close>

lemma reads_flag: "reads rd_flag b [b]"
  by (auto simp: reads_def rd_flag_def from_out_of_input_def br_flag_eq)

lemma w_flag_eq: "w_flag b w = Inr (fw_put [b] w)"
  by (simp add: w_flag_def fw_flag_put)

lemma sync_flag [sync_intros]: "sync (k b) as y \<Longrightarrow> sync (rbind rd_flag k) (w_flag b # as) y"
  by (rule sync_step) (auto simp: sync_def w_flag_eq intro: reads_flag)

lemma deco_flag [deco_intros]:
  assumes "\<And>b. deco (k b) (\<lambda>y cs. Q y (b # cs))"
  shows "deco (rbind rd_flag k) Q"
proof (rule deco_bind)
  show "deco rd_flag (\<lambda>b bs. bs = [b])"
    by (auto simp: deco_def rd_flag_def from_out_of_input_def br_flag_eq
        split: sum.splits list.splits)
  show "\<And>x bs. bs = [x] \<Longrightarrow> deco (k x) (\<lambda>y cs. Q y (bs @ cs))"
    by (auto intro: assms)
qed

lemma writes_flag [writes_intros]: "writes as bs \<Longrightarrow> writes (w_flag b # as) (b # bs)"
  using writes_step [of "w_flag b" "[b]" as bs] by (simp add: writes_def w_flag_eq)

lemma writes_flags: "writes (map w_flag bs) bs"
  by (induction bs) (simp_all add: writes_intros)

subsection \<open>Two's-complement fields\<close>

lemma reads_i: "0 < n \<Longrightarrow> n < 64 \<Longrightarrow> fits_i n v \<Longrightarrow> reads (rd_i n) v (to_bits_i n v)"
  by (simp add: reads_def rd_i_def from_out_of_input_def br_i_to_bits)

lemma sync_i [sync_intros]:
  assumes "0 < n" and "n < 64" and "fits_i n x \<Longrightarrow> sync (k x) as y"
  shows "sync (rbind (rd_i n) k) (fw_i f x n # as) y"
proof (cases "fits_i n x")
  case True
  have "sync (rd_i n) [fw_i f x n] x"
    using assms(1,2) True by (auto simp: sync_def fw_i_eq intro: reads_i)
  then show ?thesis using assms(3) [OF True] by (rule sync_step)
next
  case False
  then show ?thesis by (simp add: sync_def fw_i_eq assms(1,2))
qed

lemma deco_i [deco_intros]:
  assumes "0 < n" and "n < 64"
    and "\<And>x. fits_i n x \<Longrightarrow> deco (k x) (\<lambda>y cs. Q y (to_bits_i n x @ cs))"
  shows "deco (rbind (rd_i n) k) Q"
proof (rule deco_bind)
  show "deco (rd_i n) (\<lambda>x bs. fits_i n x \<and> bs = to_bits_i n x)"
    unfolding deco_def
  proof (intro allI impI)
    fix r r' x assume "rd_i n r = Inr (x, r')"
    then have "br_i n r = Inr (x, r')"
      by (auto simp: rd_i_def from_out_of_input_def split: sum.splits)
    from br_i_Inr [OF this assms(1,2)]
    show "\<exists>bs. rest_bits r = bs @ rest_bits r' \<and> r' = adv (length bs) r
            \<and> fits_i n x \<and> bs = to_bits_i n x"
      by (intro exI [of _ "to_bits_i n x"]) simp
  qed
qed (auto intro: assms(3))

lemma rd_i8_as: "rbind (rd_i8 n) k = rbind (rd_i n) (\<lambda>v. k (as_i8 v))"
  by (auto simp: rd_i8_def rbind_def rreturn_def fun_eq_iff ebind_def split: sum.splits)

lemma rd_i16_as: "rbind (rd_i16 n) k = rbind (rd_i n) (\<lambda>v. k (as_i16 v))"
  by (auto simp: rd_i16_def rbind_def rreturn_def fun_eq_iff ebind_def split: sum.splits)

lemma rd_i32_as: "rbind (rd_i32 n) k = rbind (rd_i n) (\<lambda>v. k (as_i32 v))"
  by (auto simp: rd_i32_def rbind_def rreturn_def fun_eq_iff ebind_def split: sum.splits)

lemma sync_i8 [sync_intros]:
  "0 < n \<Longrightarrow> n \<le> 8 \<Longrightarrow> (fits_i n x \<Longrightarrow> sync (k x) as y) \<Longrightarrow>
     sync (rbind (rd_i8 n) k) (fw_i f x n # as) y"
  unfolding rd_i8_as by (rule sync_i) (simp_all add: as_i8_fits)

lemma sync_i16 [sync_intros]:
  "0 < n \<Longrightarrow> n \<le> 16 \<Longrightarrow> (fits_i n x \<Longrightarrow> sync (k x) as y) \<Longrightarrow>
     sync (rbind (rd_i16 n) k) (fw_i f x n # as) y"
  unfolding rd_i16_as by (rule sync_i) (simp_all add: as_i16_fits)

lemma sync_i32 [sync_intros]:
  "0 < n \<Longrightarrow> n \<le> 32 \<Longrightarrow> (fits_i n x \<Longrightarrow> sync (k x) as y) \<Longrightarrow>
     sync (rbind (rd_i32 n) k) (fw_i f x n # as) y"
  unfolding rd_i32_as by (rule sync_i) (simp_all add: as_i32_fits)

lemma deco_i8 [deco_intros]:
  "0 < n \<Longrightarrow> n \<le> 8 \<Longrightarrow>
     (\<And>x. fits_i n x \<Longrightarrow> deco (k x) (\<lambda>y cs. Q y (to_bits_i n x @ cs))) \<Longrightarrow>
     deco (rbind (rd_i8 n) k) Q"
  unfolding rd_i8_as by (rule deco_i) (simp_all add: as_i8_fits)

lemma deco_i16 [deco_intros]:
  "0 < n \<Longrightarrow> n \<le> 16 \<Longrightarrow>
     (\<And>x. fits_i n x \<Longrightarrow> deco (k x) (\<lambda>y cs. Q y (to_bits_i n x @ cs))) \<Longrightarrow>
     deco (rbind (rd_i16 n) k) Q"
  unfolding rd_i16_as by (rule deco_i) (simp_all add: as_i16_fits)

lemma deco_i32 [deco_intros]:
  "0 < n \<Longrightarrow> n \<le> 32 \<Longrightarrow>
     (\<And>x. fits_i n x \<Longrightarrow> deco (k x) (\<lambda>y cs. Q y (to_bits_i n x @ cs))) \<Longrightarrow>
     deco (rbind (rd_i32 n) k) Q"
  unfolding rd_i32_as by (rule deco_i) (simp_all add: as_i32_fits)

lemma writes_i [writes_intros]:
  "n < 64 \<Longrightarrow> fits_i n x \<Longrightarrow> writes as bs \<Longrightarrow> writes (fw_i f x n # as) (to_bits_i n x @ bs)"
  by (rule writes_step) (simp_all add: writes_def fw_i_eq)

subsection \<open>Sign-and-magnitude fields\<close>

lemma sync_ism [sync_intros]:
  assumes "0 < n" and "n < 64" and "fits_ism n x nz \<Longrightarrow> sync (k (x, nz)) as y"
  shows "sync (rbind (rd_ism_signed_zero n) k) (fw_ism f x n nz # as) y"
proof (cases "fits_ism n x nz")
  case True
  have "reads (rd_ism_signed_zero n) (x, nz) (to_bits_ism n x nz)"
    using assms(1,2) True
    by (simp add: reads_def rd_ism_signed_zero_def from_out_of_input_def br_ism_to_bits)
  with True have "sync (rd_ism_signed_zero n) [fw_ism f x n nz] (x, nz)"
    by (auto simp: sync_def fw_ism_eq)
  then show ?thesis using assms(3) [OF True] by (rule sync_step)
next
  case False
  then show ?thesis by (simp add: sync_def fw_ism_eq)
qed

lemma deco_ism [deco_intros]:
  assumes "0 < n" and "n < 64"
    and "\<And>x nz. fits_ism n x nz \<Longrightarrow> deco (k (x, nz)) (\<lambda>y cs. Q y (to_bits_ism n x nz @ cs))"
  shows "deco (rbind (rd_ism_signed_zero n) k) Q"
proof (rule deco_bind)
  show "deco (rd_ism_signed_zero n)
          (\<lambda>(x, nz) bs. fits_ism n x nz \<and> bs = to_bits_ism n x nz)"
    unfolding deco_def
  proof (intro allI impI)
    fix r r' and p :: "int \<times> bool" assume "rd_ism_signed_zero n r = Inr (p, r')"
    moreover obtain x nz where p: "p = (x, nz)" by (cases p)
    ultimately have "br_ism_signed_zero n r = Inr ((x, nz), r')"
      by (auto simp: rd_ism_signed_zero_def from_out_of_input_def split: sum.splits)
    from br_ism_Inr [OF this assms(1,2)] assms(1)
    show "\<exists>bs. rest_bits r = bs @ rest_bits r' \<and> r' = adv (length bs) r
            \<and> (case p of (x, nz) \<Rightarrow> \<lambda>bs. fits_ism n x nz \<and> bs = to_bits_ism n x nz) bs"
      by (intro exI [of _ "to_bits_ism n x nz"]) (simp add: p)
  qed
qed (auto intro: assms(3))

lemma writes_ism [writes_intros]:
  "fits_ism n x nz \<Longrightarrow> writes as bs \<Longrightarrow>
     writes (fw_ism f x n nz # as) (to_bits_ism n x nz @ bs)"
  by (rule writes_step) (simp_all add: writes_def fw_ism_eq)

section \<open>Optional and repeated fields\<close>

lemma rbind_assoc: "rbind (rbind m k) h = rbind m (\<lambda>x. rbind (k x) h)"
  by (auto simp: rbind_def fun_eq_iff ebind_def split: sum.splits)

lemma rbind_return [simp]: "rbind (rreturn x) k = k x"
  by (simp add: rbind_def rreturn_def)

lemma rbind_opt:
  "rbind (rd_opt carried m) k = (if carried then rbind m (\<lambda>x. k (Some x)) else k None)"
  by (simp add: rd_opt_def rbind_assoc)

lemma fits_u_numeral [simp]:
  "fits_u n (numeral k :: 'a::len word) \<longleftrightarrow> take_bit LENGTH('a) (numeral k :: nat) < 2 ^ n"
  by (simp add: fits_u_def)

lemma fits_u_0_1 [simp]: "fits_u n (0 :: 'a::len word)" "0 < n \<Longrightarrow> fits_u n (1 :: 'a::len word)"
  using one_less_power [of "2::nat" n] by (simp_all add: fits_u_def)

lemma fits_u_full [simp]: "LENGTH('a) \<le> n \<Longrightarrow> fits_u n (x :: 'a::len word)"
  unfolding fits_u_def
  by (rule less_le_trans [OF unsigned_less power_increasing]) simp_all

lemma w_len_eq:
  assumes "n < 64" and "x < 2 ^ n"
  shows "w_len f x n w = Inr (fw_put (to_bits n (word_of_nat x)) w)"
  using writes_len [OF assms writes_Nil, of f] by (auto simp: writes_def)

text \<open>Running a list of actions on the values a decoder has just read.\<close>

lemmas w_exec = writes_def w_all_append w_u_eq w_flag_eq fw_i_eq fw_ism_eq w_len_eq

lemma sync_vec:
  assumes "\<And>x. x \<in> set xs \<Longrightarrow> sync m (f x) (g x)" and "n = length xs"
  shows "sync (rd_vec n m) (concat (map f xs)) (map g xs)"
  using assms
proof (induction xs arbitrary: n)
  case Nil
  then show ?case by (simp add: sync_return)
next
  case (Cons x xs)
  have "sync (rbind m (\<lambda>x. rbind (rd_vec (length xs) m) (\<lambda>xs. rreturn (x # xs))))
          (f x @ concat (map f xs) @ []) (map g (x # xs))"
    using Cons by (intro sync_bind sync_return) auto
  then show ?case using Cons.prems(2) by simp
qed

lemma sync_bind_vec:
  assumes "\<And>x. x \<in> set xs \<Longrightarrow> sync m (f x) x" and "n = length xs" and "sync (k xs) as y"
  shows "sync (rbind (rd_vec n m) k) (concat (map f xs) @ as) y"
  using sync_bind [OF sync_vec [of xs m f "\<lambda>x. x"]] assms by simp

lemma sync_bind_vec_end:
  assumes "\<And>x. x \<in> set xs \<Longrightarrow> sync m (f x) x" and "n = length xs" and "sync (k xs) [] y"
  shows "sync (rbind (rd_vec n m) k) (concat (map f xs)) y"
  using sync_bind_vec [of xs m f n k "[]" y] assms by simp

lemma deco_vec:
  assumes "deco m (\<lambda>x bs. P x \<and> writes (f x) bs)"
  shows "deco (rd_vec n m)
     (\<lambda>xs bs. length xs = n \<and> (\<forall>x\<in>set xs. P x) \<and> writes (concat (map f xs)) bs)"
proof (induction n)
  case 0
  then show ?case by (auto intro!: deco_intros simp: w_exec)
next
  case (Suc n)
  show ?case
    unfolding rd_vec.simps
    by (rule deco_bind [OF assms], rule deco_bind [OF Suc.IH], rule deco_return)
      (auto intro: writes_append)
qed

lemma deco_bind_vec:
  assumes "deco m (\<lambda>x bs. P x \<and> writes (f x) bs)"
    and "\<And>xs bs. length xs = n \<Longrightarrow> \<forall>x\<in>set xs. P x \<Longrightarrow> writes (concat (map f xs)) bs
           \<Longrightarrow> deco (k xs) (\<lambda>y cs. Q y (bs @ cs))"
  shows "deco (rbind (rd_vec n m) k) Q"
  by (rule deco_bind [OF deco_vec [OF assms(1)]]) (auto intro: assms(2))

text \<open>Runs of whole bytes.\<close>

lemma rd_vec_map:
  "rd_vec n (rbind m (\<lambda>x. rreturn (g x))) = rbind (rd_vec n m) (\<lambda>xs. rreturn (map g xs))"
  by (induction n) (simp_all add: rbind_assoc)

lemma deco_bytes:
  "deco (rd_vec n (rd_as 8))
     (\<lambda>bytes bs. length bytes = n \<and> bs = concat (map (\<lambda>b :: u8. to_bits 8 (ucast b)) bytes))"
proof (induction n)
  case 0
  then show ?case by (auto intro!: deco_intros)
next
  case (Suc n)
  show ?case
    unfolding rd_vec.simps
    by (intro deco_as) (auto intro!: deco_bind [OF Suc.IH] deco_return)
qed

lemma w_bytes_eq:
  "w_all (map (\<lambda>byte :: u8. w_u f byte 8) bytes) w
     = Inr (fw_put (concat (map (\<lambda>b. to_bits 8 (ucast b)) bytes)) w)"
  by (induction bytes arbitrary: w) (simp_all add: w_u_eq)

lemma sync_bytes:
  "sync (rd_vec (length bytes) (rd_as 8)) (map (\<lambda>byte :: u8. w_u f byte 8) bytes) bytes"
proof (induction bytes)
  case Nil
  then show ?case by (simp add: sync_return)
next
  case (Cons b bytes)
  have "sync (rbind (rd_vec (length bytes) (rd_as 8)) (\<lambda>xs. rreturn (b # xs)))
          (map (\<lambda>byte. w_u f byte 8) bytes @ []) (b # bytes)"
    by (intro sync_bind [OF Cons.IH] sync_return) simp
  then show ?case by (auto intro: sync_as)
qed

lemma sync_bytes_end [sync_intros]:
  assumes "sync (k bytes) [] y" and "n = length bytes"
  shows "sync (rbind (rd_vec n (rd_as 8)) k) (map (\<lambda>byte :: u8. w_u f byte 8) bytes) y"
  using sync_bind [OF sync_bytes [of bytes f], of k "[]" y] assms by simp

text \<open>A decoder on its own, and the last one of a sequence.\<close>

lemma rbind_right: "rbind m rreturn = m"
  by (rule ext) (auto simp: rbind_def rreturn_def ebind_def split: sum.splits)

lemma sync_single: "sync (rbind m rreturn) as x \<Longrightarrow> sync m as x"
  by (simp add: rbind_right)

lemma deco_single: "deco (rbind m rreturn) Q \<Longrightarrow> deco m Q"
  by (simp add: rbind_right)

lemma sync_bind_end: "sync m as x \<Longrightarrow> sync (k x) [] y \<Longrightarrow> sync (rbind m k) as y"
  using sync_bind [of m as x k "[]" y] by simp

lemma deco_flags: "deco (rd_vec n rd_flag) (\<lambda>fs bs. length fs = n \<and> bs = fs)"
proof (induction n)
  case 0
  show ?case by (auto intro!: deco_intros)
next
  case (Suc n)
  show ?case
    unfolding rd_vec.simps by (intro deco_flag) (auto intro!: deco_bind [OF Suc.IH] deco_return)
qed

end
