(* ===== verification/Rtcm_Context.thy ===== *)
theory Rtcm_Context
  imports Rtcm_Codec
begin

text \<open>
  What \<^verbatim>\<open>rtcm/mod.rs\<close> shares between the messages: the decoding policy and the
  departures it has met (\<^verbatim>\<open>DecodeContext\<close>), the bits after a message's last field
  (\<^verbatim>\<open>finish\<close>, \<^verbatim>\<open>is_departing_tail\<close>, \<^verbatim>\<open>write_trailing\<close>) and the common decoding of a
  fixed-layout body (\<^verbatim>\<open>decode_body\<close>).

  The locale \<open>body_codec\<close> is the contract between one message type and that
  shared code: what its field reader and its field writers promise each other.
  Both round trips of a message body are proved once from it.
\<close>

unbundle bit_operations_syntax

section \<open>The decoding context\<close>

record decode_context =
  policy :: rtcm_policy
  departures :: "rtcm_departure list"

definition ctx_new :: "rtcm_policy \<Rightarrow> decode_context" where
  "ctx_new p = \<lparr>policy = p, departures = []\<rparr>"

definition depart :: "rtcm_departure \<Rightarrow> decode_context \<Rightarrow> decode_error + decode_context" where
  "depart d ctx =
     (case policy ctx of
        Strict \<Rightarrow> Inl (Departure d)
      | Lenient \<Rightarrow> Inr (ctx\<lparr>departures := departures ctx @ [d]\<rparr>))"

definition is_departing_tail :: "bool list \<Rightarrow> bool" where
  "is_departing_tail bits \<longleftrightarrow> length bits \<ge> 8 \<or> list_ex (\<lambda>bit. bit) bits"

definition finish ::
  "bit_reader \<Rightarrow> u16 \<Rightarrow> decode_context \<Rightarrow> decode_error + bool list \<times> decode_context" where
  "finish r message_number ctx =
     (let bits = fst (br_rest r)
      in if \<not> is_departing_tail bits then Inr ([], ctx)
         else ebind (depart (TrailingBits message_number bits) ctx) (\<lambda>ctx'. Inr (bits, ctx')))"

definition message_number_classified :: "u8 list \<Rightarrow> decode_error + u16" where
  "message_number_classified body = ebind (rd_as 12 (br_new body)) (\<lambda>(n, r). Inr n)"

definition decode_body ::
  "(bool list \<Rightarrow> 'm \<Rightarrow> 'm) \<Rightarrow> u8 list \<Rightarrow> decode_context
     \<Rightarrow> (decode_context \<Rightarrow> ('m \<times> decode_context) rd) \<Rightarrow> decode_error + 'm \<times> decode_context" where
  "decode_body set_trailing_bits body ctx read =
     ebind (message_number_classified body) (\<lambda>message_number.
     ebind (read ctx (br_new body)) (\<lambda>((value, ctx1), r).
     ebind (finish r message_number ctx1) (\<lambda>(tail, ctx2).
     Inr (set_trailing_bits tail value, ctx2))))"

text \<open>\<^verbatim>\<open>|r, _| Self::read(r)\<close>: a field reader that does not look at the context.\<close>

definition no_ctx :: "'m rd \<Rightarrow> decode_context \<Rightarrow> ('m \<times> decode_context) rd" where
  "no_ctx m ctx = rbind m (\<lambda>x. rreturn (x, ctx))"

section \<open>Writing the kept bits\<close>

definition fw_flags :: "bool list \<Rightarrow> field_writer \<Rightarrow> field_writer" where
  "fw_flags bits w = foldl (\<lambda>w bit. fw_flag bit w) w bits"

definition write_trailing ::
  "field_writer \<Rightarrow> bool list \<Rightarrow> rtcm_policy
     \<Rightarrow> rtcm_encode_error + field_writer \<times> rtcm_departure list" where
  "write_trailing w bits pol =
     (let message_number = fw_message_number w
      in if bits = [] then Inr (w, [])
         else
           let pad = (8 - (fw_bit_len w + length bits) mod 8) mod 8;
               read_back = bits @ replicate pad False
           in if \<not> is_departing_tail read_back
              then Inl (TrailingZeroBits message_number (length bits))
              else
                let departure = TrailingBits message_number read_back
                in case pol of
                     Strict \<Rightarrow> Inl (StrictDeparture departure)
                   | Lenient \<Rightarrow> Inr (fw_flags bits w, [departure]))"

text \<open>The end of every encoder: the kept bits, then the byte-aligned body.\<close>

definition close_body ::
  "field_writer \<Rightarrow> bool list \<Rightarrow> rtcm_policy \<Rightarrow> rtcm_encode_error + u8 list \<times> rtcm_departure list" where
  "close_body w bits pol =
     ebind (write_trailing w bits pol) (\<lambda>(w', departures). Inr (fw_into_bytes w', departures))"

section \<open>Facts about tails\<close>

lemma ctx_new_simps [simp]: "policy (ctx_new p) = p" "departures (ctx_new p) = []"
  by (simp_all add: ctx_new_def)

lemma depart_Inr:
  "depart d ctx = Inr ctx' \<longleftrightarrow>
     policy ctx = Lenient \<and> ctx' = ctx\<lparr>departures := departures ctx @ [d]\<rparr>"
  by (auto simp: depart_def split: rtcm_policy.splits)

lemma fw_flags_put: "fw_flags bits w = fw_put bits w"
  by (induction bits arbitrary: w) (simp_all add: fw_flags_def fw_flag_put)

lemma list_ex_id_replicate: "\<not> list_ex (\<lambda>b. b) bs \<Longrightarrow> bs = replicate (length bs) False"
  by (induction bs) auto

lemma quiet_tail: "\<not> is_departing_tail bs \<Longrightarrow> bs = replicate (length bs) False \<and> length bs < 8"
  using list_ex_id_replicate [of bs] by (auto simp: is_departing_tail_def)

lemma quiet_replicate: "k < 8 \<Longrightarrow> \<not> is_departing_tail (replicate k False)"
  by (auto simp: is_departing_tail_def list_ex_iff)

lemma departing_nonempty: "is_departing_tail bs \<Longrightarrow> bs \<noteq> []"
  by (auto simp: is_departing_tail_def)

lemma finish_eq:
  "finish r n ctx =
     (if is_departing_tail (rest_bits r)
      then ebind (depart (TrailingBits n (rest_bits r)) ctx) (\<lambda>ctx'. Inr (rest_bits r, ctx'))
      else Inr ([], ctx))"
  by (simp add: finish_def br_rest_eq Let_def)

text \<open>
  A run of field bits and a quiet tail are the same bytes as the field bits
  alone: the alignment is what the writer pads with.
\<close>

lemma pack_quiet:
  assumes "bits_of_bytes body = bs @ rest" and "\<not> is_departing_tail rest"
  shows "pack bs = body"
proof -
  from quiet_tail [OF assms(2)] have rest: "rest = replicate (length rest) False" "length rest < 8"
    by simp_all
  have "(length bs + length rest) mod 8 = 0"
    using arg_cong [OF assms(1), of length] by (metis length_append length_bits_of_bytes mod_mult_self1_is_0)
  with rest have "pack (bs @ replicate (length rest) False) = pack bs"
    by (intro pack_pad)
  with rest(1) assms(1) show ?thesis
    by (metis pack_bits_of_bytes)
qed

lemma pack_whole: "bits_of_bytes body = bs @ rest \<Longrightarrow> pack (bs @ rest) = body"
  by (metis pack_bits_of_bytes)

lemma whole_length: "bits_of_bytes body = bs \<Longrightarrow> length bs mod 8 = 0"
  by (metis length_bits_of_bytes mod_mult_self1_is_0)

lemma write_trailing_put:
  "write_trailing (fw_put bs (fw_new n)) bits pol =
     (if bits = [] then Inr (fw_put bs (fw_new n), [])
      else let read_back = bits @ replicate (pad_len (length bs + length bits)) False
           in if \<not> is_departing_tail read_back then Inl (TrailingZeroBits n (length bits))
              else case pol of
                     Strict \<Rightarrow> Inl (StrictDeparture (TrailingBits n read_back))
                   | Lenient \<Rightarrow> Inr (fw_put (bs @ bits) (fw_new n), [TrailingBits n read_back]))"
  by (simp add: write_trailing_def Let_def fw_flags_put pad_len_def split: rtcm_policy.split)

text \<open>The bits a written tail is read back as.\<close>

definition kept_tail :: "nat \<Rightarrow> bool list \<Rightarrow> bool list" where
  "kept_tail n bits = (if bits = [] then [] else bits @ replicate (pad_len (n + length bits)) False)"

lemma close_body_put:
  assumes "close_body (fw_put bs (fw_new n)) bits pol = Inr (body, ds)"
  shows "\<exists>rest. bits_of_bytes body = bs @ rest \<and>
     (if is_departing_tail rest
      then pol = Lenient \<and> kept_tail (length bs) bits = rest \<and> ds = [TrailingBits n rest]
      else bits = [] \<and> ds = [])"
proof (cases "bits = []")
  case True
  with assms have "body = pack bs" "ds = []"
    by (auto simp: close_body_def write_trailing_put)
  with True show ?thesis
    by (intro exI [of _ "replicate (pad_len (length bs)) False"])
      (simp add: bits_of_bytes_pack quiet_replicate)
next
  case False
  let ?rb = "bits @ replicate (pad_len (length bs + length bits)) False"
  from assms False have "is_departing_tail ?rb" "pol = Lenient" "body = pack (bs @ bits)"
    "ds = [TrailingBits n ?rb]"
    by (auto simp: close_body_def write_trailing_put Let_def split: if_splits rtcm_policy.splits)
  with False show ?thesis
    by (intro exI [of _ ?rb]) (simp add: bits_of_bytes_pack kept_tail_def)
qed

lemma close_body_departing:
  assumes "bits_of_bytes body = bs @ rest" and "is_departing_tail rest"
  shows "close_body (fw_put bs (fw_new n)) rest Lenient = Inr (body, [TrailingBits n rest])"
proof -
  have "length (bs @ rest) mod 8 = 0" using assms(1) by (rule whole_length)
  then have "pad_len (length bs + length rest) = 0" by simp
  with assms pack_whole [OF assms(1)] show ?thesis
    by (simp add: close_body_def write_trailing_put departing_nonempty Let_def)
qed

lemma close_body_quiet:
  assumes "bits_of_bytes body = bs @ rest" and "\<not> is_departing_tail rest"
  shows "close_body (fw_put bs (fw_new n)) [] pol = Inr (body, [])"
  using pack_quiet [OF assms] by (simp add: close_body_def write_trailing_put)

lemma close_body_strict:
  assumes "close_body w bits Strict = Inr (body, ds)"
  shows "bits = []" and "ds = []" and "close_body w bits Lenient = Inr (body, [])"
  using assms by (auto simp: close_body_def write_trailing_def Let_def split: if_splits)

section \<open>Message numbers\<close>

lemma message_number_of_bits:
  assumes "bits_of_bytes body = to_bits 12 (ucast (n :: u16)) @ rest" and "fits_u 12 n"
  shows "message_number_classified body = Inr n"
proof -
  have "reads (rd_as 12) n (to_bits 12 (ucast n))"
    using assms(2) by (intro reads_as) simp_all
  then have "rd_as 12 (br_new body) = Inr (n, adv 12 (br_new body))"
    using assms(1) by (simp add: reads_def)
  then show ?thesis by (simp add: message_number_classified_def)
qed

lemma message_number_bits:
  assumes "message_number_classified body = Inr n"
  shows "\<exists>rest. bits_of_bytes body = to_bits 12 (ucast n) @ rest" and "fits_u 12 n"
proof -
  from assms obtain r where r: "rbind (rd_as 12) rreturn (br_new body) = Inr (n, r)"
    by (auto simp: message_number_classified_def rbind_def rreturn_def)
  have "deco (rbind (rd_as 12) rreturn)
          (\<lambda>n bs. fits_u 12 (n :: u16) \<and> bs = to_bits 12 (ucast n))"
    by (intro deco_intros) simp_all
  with r have *: "bits_of_bytes body = to_bits 12 (ucast n) @ rest_bits r \<and> fits_u 12 n"
    unfolding deco_def by fastforce
  from * show "\<exists>rest. bits_of_bytes body = to_bits 12 (ucast n) @ rest" by blast
  from * show "fits_u 12 n" by blast
qed

section \<open>The contract of a fixed-layout message\<close>

text \<open>
  A message type gives: \<open>read\<close>, its field reader; \<open>number\<close>, the message number it
  encodes to; \<open>check\<close>, what its encoder verifies before it writes, with the
  departures that step reports; \<open>fields\<close>, its field writers in order; \<open>tail\<close> and
  \<open>set_tail\<close>, the kept trailing bits; \<open>norm\<close>, the order in which the wire states
  the message's lists (the identity for most messages); and \<open>encode\<close>, the whole
  encoder.  The laws are the two directions between \<open>read\<close> and \<open>fields\<close>.
\<close>

locale body_codec =
  fixes read :: "decode_context \<Rightarrow> ('m \<times> decode_context) rd"
    and number :: "'m \<Rightarrow> u16"
    and check :: "rtcm_policy \<Rightarrow> 'm \<Rightarrow> rtcm_encode_error + rtcm_departure list"
    and fields :: "'m \<Rightarrow> wr list"
    and tail :: "'m \<Rightarrow> bool list"
    and set_tail :: "bool list \<Rightarrow> 'm \<Rightarrow> 'm"
    and norm :: "'m \<Rightarrow> 'm"
    and encode :: "rtcm_policy \<Rightarrow> 'm \<Rightarrow> rtcm_encode_error + u8 list \<times> rtcm_departure list"
  assumes encode_iff: "encode pol m = Inr (body, ds) \<longleftrightarrow>
      (\<exists>before w after. check pol m = Inr before
        \<and> w_all (fields m) (fw_new (number m)) = Inr w
        \<and> close_body w (tail m) pol = Inr (body, after) \<and> ds = before @ after)"
    and check_set_tail: "check pol (set_tail bits m) = check pol m"
    and fields_set_tail: "fields (set_tail bits m) = fields m"
    and number_set_tail: "number (set_tail bits m) = number m"
    and tail_set_tail: "tail (set_tail bits m) = bits"
    and set_tail_idem: "set_tail bits (set_tail bits' m) = set_tail bits m"
    and number_norm: "number (norm m) = number m"
    and read_back: "check (policy ctx) m = Inr before \<Longrightarrow>
      sync (read ctx) (fields m)
        (set_tail [] (norm m), ctx\<lparr>departures := departures ctx @ before\<rparr>)"
    and check_strict: "check Strict m = Inr before \<Longrightarrow> before = [] \<and> check Lenient m = Inr []"
    and consumed: "deco (read ctx) (\<lambda>(m, ctx') bs.
      \<exists>before. check (policy ctx) m = Inr before
        \<and> ctx' = ctx\<lparr>departures := departures ctx @ before\<rparr>
        \<and> writes (fields m) bs \<and> tail m = []
        \<and> fits_u 12 (number m) \<and> (\<exists>cs. bs = to_bits 12 (ucast (number m)) @ cs))"
begin

abbreviation decode where
  "decode pol body \<equiv> decode_body set_tail body (ctx_new pol) read"

lemma read_number:
  assumes "read ctx (br_new body) = Inr ((m, ctx'), r)"
  shows "message_number_classified body = Inr (number m)"
proof -
  from decoD [OF consumed assms] obtain bs where
    "bits_of_bytes body = bs @ rest_bits r" "fits_u 12 (number m)"
    "\<exists>cs. bs = to_bits 12 (ucast (number m)) @ cs"
    by (simp only: prod.case rest_bits_new) blast
  then show ?thesis by (auto intro: message_number_of_bits)
qed

text \<open>An encoded body is decoded back, with the kept bits and the same departures.\<close>

lemma decode_encode:
  assumes "encode pol m = Inr (body, ds)"
  shows "\<exists>n. decode pol body
           = Inr (set_tail (kept_tail n (tail m)) (norm m), \<lparr>policy = pol, departures = ds\<rparr>)"
proof -
  from assms obtain before w after where
    c: "check pol m = Inr before" and w: "w_all (fields m) (fw_new (number m)) = Inr w"
    and cl: "close_body w (tail m) pol = Inr (body, after)" and ds: "ds = before @ after"
    unfolding encode_iff by blast
  let ?ctx = "ctx_new pol" and ?ctx' = "\<lparr>policy = pol, departures = before\<rparr>"
  and ?m = "set_tail [] (norm m)"
  from read_back [of ?ctx m before] c
  have "sync (read ?ctx) (fields m) (?m, ?ctx')"
    by (simp add: ctx_new_def)
  with w obtain bs where w': "w = fw_put bs (fw_new (number m))"
    and rd: "reads (read ?ctx) (?m, ?ctx') bs"
    unfolding sync_def by blast
  from cl [unfolded w', THEN close_body_put] obtain rest where
    body: "bits_of_bytes body = bs @ rest" and
    tl: "if is_departing_tail rest
         then pol = Lenient \<and> kept_tail (length bs) (tail m) = rest
              \<and> after = [TrailingBits (number m) rest]
         else tail m = [] \<and> after = []"
    by blast
  let ?r = "adv (length bs) (br_new body)"
  from rd body have read: "read ?ctx (br_new body) = Inr ((?m, ?ctx'), ?r)"
    by (simp add: reads_def)
  have num: "message_number_classified body = Inr (number m)"
    using read_number [OF read] by (simp add: number_set_tail number_norm)
  have "finish ?r (number m) ?ctx'
          = Inr (kept_tail (length bs) (tail m), \<lparr>policy = pol, departures = ds\<rparr>)"
    using tl ds body
    by (auto simp: finish_eq depart_def kept_tail_def split: if_splits)
  then have "decode pol body
      = Inr (set_tail (kept_tail (length bs) (tail m)) (norm m), \<lparr>policy = pol, departures = ds\<rparr>)"
    by (simp add: decode_body_def num read set_tail_idem)
  then show ?thesis by blast
qed

text \<open>What the strict encoder writes has no departure, and the lenient one writes the same.\<close>

lemma strict_encode:
  assumes "encode Strict m = Inr (body, ds)"
  shows "ds = [] \<and> tail m = [] \<and> encode Lenient m = Inr (body, [])"
  using assms unfolding encode_iff by (blast dest: check_strict close_body_strict intro: append_Nil)

text \<open>A decoded body is encoded back bit for bit, with the departures it was read with.\<close>

lemma encode_decode:
  assumes "decode pol body = Inr (m, ctx')"
  shows "encode pol m = Inr (body, departures ctx')" and "policy ctx' = pol"
    and "message_number_classified body = Inr (number m)"
proof -
  let ?ctx = "ctx_new pol"
  from assms obtain n v ctx1 r tl where
    n: "message_number_classified body = Inr n"
    and rd: "read ?ctx (br_new body) = Inr ((v, ctx1), r)"
    and fin: "finish r n ctx1 = Inr (tl, ctx')" and m: "m = set_tail tl v"
    by (auto simp: decode_body_def)
  from decoD [OF consumed rd] obtain bs before where
    bs: "bits_of_bytes body = bs @ rest_bits r"
    and c: "check pol v = Inr before" "ctx1 = ?ctx\<lparr>departures := before\<rparr>"
    and wf: "writes (fields v) bs"
    by (simp only: prod.case rest_bits_new ctx_new_simps append_Nil) blast
  have num: "n = number v" using read_number [OF rd] n by simp
  have w: "w_all (fields m) (fw_new (number m)) = Inr (fw_put bs (fw_new n))"
    using wf by (simp add: m fields_set_tail number_set_tail num writes_def)
  have "encode pol m = Inr (body, departures ctx') \<and> policy ctx' = pol"
  proof (cases "is_departing_tail (rest_bits r)")
    case True
    with fin c have "tl = rest_bits r" "pol = Lenient"
      "ctx' = \<lparr>policy = pol, departures = before @ [TrailingBits n (rest_bits r)]\<rparr>"
      by (auto simp: finish_eq depart_Inr ctx_new_def)
    with close_body_departing [OF bs True, of n] w c(1) show ?thesis
      by (simp add: encode_iff m check_set_tail tail_set_tail)
  next
    case False
    with fin c have "tl = []" "ctx' = \<lparr>policy = pol, departures = before\<rparr>"
      by (auto simp: finish_eq ctx_new_def)
    with close_body_quiet [OF bs False, of n pol] w c(1) show ?thesis
      by (simp add: encode_iff m check_set_tail tail_set_tail)
  qed
  then show "encode pol m = Inr (body, departures ctx')" and "policy ctx' = pol"
    by simp_all
  show "message_number_classified body = Inr (number m)"
    using read_number [OF rd] by (simp add: m number_set_tail)
qed

end

text \<open>
  Most messages read their fields without looking at the context and check
  themselves before they write with no departure of their own.
\<close>

locale plain_codec =
  fixes read :: "'m rd"
    and number :: "'m \<Rightarrow> u16"
    and check :: "'m \<Rightarrow> rtcm_encode_error + unit"
    and fields :: "'m \<Rightarrow> wr list"
    and tail :: "'m \<Rightarrow> bool list"
    and set_tail :: "bool list \<Rightarrow> 'm \<Rightarrow> 'm"
    and encode :: "rtcm_policy \<Rightarrow> 'm \<Rightarrow> rtcm_encode_error + u8 list \<times> rtcm_departure list"
  assumes plain_encode: "encode pol m =
      ebind (check m) (\<lambda>_.
      ebind (w_all (fields m) (fw_new (number m))) (\<lambda>w. close_body w (tail m) pol))"
    and plain_check_tail: "check (set_tail bits m) = check m"
    and plain_fields_tail: "fields (set_tail bits m) = fields m"
    and plain_number_tail: "number (set_tail bits m) = number m"
    and plain_tail_tail: "tail (set_tail bits m) = bits"
    and plain_tail_idem: "set_tail bits (set_tail bits' m) = set_tail bits m"
    and plain_read_back: "check m = Inr () \<Longrightarrow> sync read (fields m) (set_tail [] m)"
    and plain_consumed: "deco read (\<lambda>m bs.
      check m = Inr () \<and> tail m = [] \<and> fits_u 12 (number m) \<and> writes (fields m) bs
        \<and> (\<exists>cs. bs = to_bits 12 (ucast (number m)) @ cs))"

lemma sync_no_ctx: "sync m as x \<Longrightarrow> sync (no_ctx m ctx) as (x, ctx)"
  using sync_bind [of m as x "\<lambda>x. rreturn (x, ctx)" "[]" "(x, ctx)"]
  by (simp add: no_ctx_def sync_return)

sublocale plain_codec \<subseteq> body_codec "no_ctx read" number
  "\<lambda>pol m. ebind (check m) (\<lambda>_. Inr [])" fields tail set_tail "\<lambda>m. m" encode
proof unfold_locales
  show "encode pol m = Inr (body, ds) \<longleftrightarrow>
      (\<exists>before w after. ebind (check m) (\<lambda>_. Inr []) = Inr before
        \<and> w_all (fields m) (fw_new (number m)) = Inr w
        \<and> close_body w (tail m) pol = Inr (body, after) \<and> ds = before @ after)" for pol m body ds
    by (auto simp: plain_encode)
  show "sync (no_ctx read ctx) (fields m) (set_tail [] m, ctx\<lparr>departures := departures ctx @ before\<rparr>)"
    if "ebind (check m) (\<lambda>_. Inr []) = Inr before" for ctx m before
    using that by (auto intro: sync_no_ctx plain_read_back)
  show "before = [] \<and> ebind (check m) (\<lambda>_. Inr []) = Inr []"
    if "ebind (check m) (\<lambda>_. Inr []) = Inr before" for m before
    using that by auto
  show "deco (no_ctx read ctx) (\<lambda>(m, ctx') bs. \<exists>before.
      ebind (check m) (\<lambda>_. Inr []) = Inr before
        \<and> ctx' = ctx\<lparr>departures := departures ctx @ before\<rparr>
        \<and> writes (fields m) bs \<and> tail m = []
        \<and> fits_u 12 (number m) \<and> (\<exists>cs. bs = to_bits 12 (ucast (number m)) @ cs))" for ctx
    unfolding no_ctx_def
    by (rule deco_bind [OF plain_consumed], rule deco_return) auto
qed (simp_all add: plain_check_tail plain_fields_tail plain_number_tail plain_tail_tail
      plain_tail_idem)

context plain_codec
begin

lemma plain_decode_encode:
  assumes "encode pol m = Inr (body, ds)"
  shows "\<exists>n. decode pol body
           = Inr (set_tail (kept_tail n (tail m)) m, \<lparr>policy = pol, departures = ds\<rparr>)"
  by (rule decode_encode [OF assms])

end

end
