(* ===== verification/Rtcm_Station.thy ===== *)
theory Rtcm_Station
  imports Rtcm_Context
begin

text \<open>
  The station messages: antenna reference points (\<^verbatim>\<open>rtcm/station.rs\<close>, 1005 and
  1006), antenna and receiver descriptors (\<^verbatim>\<open>rtcm/antenna.rs\<close>, 1007, 1008 and 1033),
  GLONASS code-phase biases (\<^verbatim>\<open>rtcm/code_phase_bias.rs\<close>, 1230) and text strings
  (\<^verbatim>\<open>rtcm/system.rs\<close>, 1029).  For each message: its record, its field reader, the
  checks its encoder makes first, its field writers in order, and the
  interpretation of the message contract, which gives both round trips.
\<close>

unbundle bit_operations_syntax

section \<open>Station coordinates, 1005 and 1006\<close>

record station_coordinates =
  st_message_number :: u16
  st_reference_station_id :: u16
  st_itrf_realization_year :: u8
  st_gps_indicator :: bool
  st_glonass_indicator :: bool
  st_galileo_indicator :: bool
  st_reference_station_indicator :: bool
  st_ecef_x :: int
  st_single_receiver_oscillator :: bool
  st_reserved :: bool
  st_ecef_y :: int
  st_quarter_cycle_indicator :: u8
  st_ecef_z :: int
  st_antenna_height :: "u16 option"
  st_trailing_bits :: "bool list"

definition station_read :: "station_coordinates rd" where
  "station_read =
     rbind (rd_as 12) (\<lambda>message_number :: u16.
     if message_number \<noteq> 1005 \<and> message_number \<noteq> 1006
     then parse_error (''message '' @ dec_u message_number @
                       '' is not station coordinates 1005/1006'')
     else
     rbind (rd_as 12) (\<lambda>reference_station_id.
     rbind (rd_as 6) (\<lambda>itrf_realization_year.
     rbind rd_flag (\<lambda>gps_indicator.
     rbind rd_flag (\<lambda>glonass_indicator.
     rbind rd_flag (\<lambda>galileo_indicator.
     rbind rd_flag (\<lambda>reference_station_indicator.
     rbind (rd_i 38) (\<lambda>ecef_x.
     rbind rd_flag (\<lambda>single_receiver_oscillator.
     rbind rd_flag (\<lambda>reserved.
     rbind (rd_i 38) (\<lambda>ecef_y.
     rbind (rd_as 2) (\<lambda>quarter_cycle_indicator.
     rbind (rd_i 38) (\<lambda>ecef_z.
     rbind (rd_opt (message_number = 1006) (rd_as 16)) (\<lambda>antenna_height.
     rreturn \<lparr>st_message_number = message_number,
              st_reference_station_id = reference_station_id,
              st_itrf_realization_year = itrf_realization_year,
              st_gps_indicator = gps_indicator,
              st_glonass_indicator = glonass_indicator,
              st_galileo_indicator = galileo_indicator,
              st_reference_station_indicator = reference_station_indicator,
              st_ecef_x = ecef_x,
              st_single_receiver_oscillator = single_receiver_oscillator,
              st_reserved = reserved,
              st_ecef_y = ecef_y,
              st_quarter_cycle_indicator = quarter_cycle_indicator,
              st_ecef_z = ecef_z,
              st_antenna_height = antenna_height,
              st_trailing_bits = []\<rparr>))))))))))))))"

definition station_check :: "station_coordinates \<Rightarrow> rtcm_encode_error + unit" where
  "station_check s =
     (let number = st_message_number s
      in if number = 1005 \<and> st_antenna_height s = None
            \<or> number = 1006 \<and> st_antenna_height s \<noteq> None
         then Inr ()
         else if number = 1005 \<or> number = 1006
         then Inl (FieldPresence number RkStationCoordinates ''antenna height'' (number = 1006))
         else Inl (MessageNumber number RkStationCoordinates))"

definition station_fields :: "station_coordinates \<Rightarrow> wr list" where
  "station_fields s =
     [w_u ''message number'' (st_message_number s) 12,
      w_u ''reference station ID'' (st_reference_station_id s) 12,
      w_u ''ITRF realization year'' (st_itrf_realization_year s) 6,
      w_flag (st_gps_indicator s),
      w_flag (st_glonass_indicator s),
      w_flag (st_galileo_indicator s),
      w_flag (st_reference_station_indicator s),
      fw_i ''ECEF X'' (st_ecef_x s) 38,
      w_flag (st_single_receiver_oscillator s),
      w_flag (st_reserved s),
      fw_i ''ECEF Y'' (st_ecef_y s) 38,
      w_u ''quarter-cycle indicator'' (st_quarter_cycle_indicator s) 2,
      fw_i ''ECEF Z'' (st_ecef_z s) 38] @
     w_opt (\<lambda>height. w_u ''antenna height'' height 16) (st_antenna_height s)"

definition station_encode_with_policy ::
  "rtcm_policy \<Rightarrow> station_coordinates \<Rightarrow> rtcm_encode_error + u8 list \<times> rtcm_departure list" where
  "station_encode_with_policy pol s =
     ebind (station_check s) (\<lambda>_.
     ebind (w_all (station_fields s) (fw_new (st_message_number s))) (\<lambda>w.
     close_body w (st_trailing_bits s) pol))"

lemma station_sync: "station_check s = Inr () \<Longrightarrow>
   sync station_read (station_fields s) (s\<lparr>st_trailing_bits := []\<rparr>)"
  unfolding station_read_def station_fields_def station_check_def Let_def rbind_opt
  by (cases s) (auto intro!: sync_intros split: if_splits)

lemma station_consumed: "deco station_read (\<lambda>s bs.
    station_check s = Inr () \<and> st_trailing_bits s = [] \<and> fits_u 12 (st_message_number s)
      \<and> writes (station_fields s) bs \<and> (\<exists>cs. bs = to_bits 12 (ucast (st_message_number s)) @ cs))"
  unfolding station_read_def rbind_opt
  by (intro deco_intros) (auto simp: station_check_def station_fields_def w_exec)

interpretation station: plain_codec station_read st_message_number
   station_check station_fields st_trailing_bits
   "\<lambda>bits s. s\<lparr>st_trailing_bits := bits\<rparr>" station_encode_with_policy
  by unfold_locales (rule station_consumed | erule station_sync
    | simp add: station_encode_with_policy_def station_check_def station_fields_def)+

section \<open>Antenna and receiver descriptors, 1007, 1008 and 1033\<close>

record antenna_descriptor =
  ad_message_number :: u16
  ad_reference_station_id :: u16
  ad_antenna_descriptor :: rust_string
  ad_antenna_setup_id :: u8
  ad_antenna_serial_number :: "rust_string option"
  ad_receiver_type :: "rust_string option"
  ad_receiver_firmware_version :: "rust_string option"
  ad_receiver_serial_number :: "rust_string option"
  ad_trailing_bits :: "bool list"

text \<open>\<^verbatim>\<open>s.push(char::from(r.u(8)? as u8))\<close> for each counted character.\<close>

definition read_string :: "rust_string rd" where
  "read_string =
     rbind (rd_usize 8) (\<lambda>count.
     rd_vec count (rbind (rd_as 8) (\<lambda>byte :: u8. rreturn (ucast byte))))"

text \<open>\<^verbatim>\<open>u8::try_from(u32::from(c))\<close> for each character, up to the first that has no byte.\<close>

fun latin1_bytes :: "string \<Rightarrow> rust_string \<Rightarrow> rtcm_encode_error + u8 list" where
  "latin1_bytes field [] = Inr []"
| "latin1_bytes field (c # cs) =
     (if c \<le> 255
      then ebind (latin1_bytes field cs) (\<lambda>bytes. Inr (ucast c # bytes))
      else Inl (NonLatin1Character field (unat c)))"

definition write_string :: "string \<Rightarrow> rust_string \<Rightarrow> wr" where
  "write_string field s w =
     ebind (latin1_bytes field s) (\<lambda>bytes.
       w_all (w_len (field @ '' character count'') (length bytes) 8
              # map (\<lambda>byte. w_u field byte 8) bytes) w)"

definition antenna_read :: "antenna_descriptor rd" where
  "antenna_read =
     rbind (rd_as 12) (\<lambda>message_number :: u16.
     if \<not> (message_number = 1007 \<or> message_number = 1008 \<or> message_number = 1033)
     then parse_error (''message '' @ dec_u message_number @
                       '' is not an antenna descriptor 1007/1008/1033'')
     else
     rbind (rd_as 12) (\<lambda>reference_station_id.
     rbind read_string (\<lambda>descriptor.
     rbind (rd_as 8) (\<lambda>antenna_setup_id.
     rbind (rd_opt (message_number = 1008 \<or> message_number = 1033) read_string) (\<lambda>serial.
     rbind (rd_opt (message_number = 1033) read_string) (\<lambda>receiver_type.
     rbind (rd_opt (message_number = 1033) read_string) (\<lambda>firmware.
     rbind (rd_opt (message_number = 1033) read_string) (\<lambda>receiver_serial.
     rreturn \<lparr>ad_message_number = message_number,
              ad_reference_station_id = reference_station_id,
              ad_antenna_descriptor = descriptor,
              ad_antenna_setup_id = antenna_setup_id,
              ad_antenna_serial_number = serial,
              ad_receiver_type = receiver_type,
              ad_receiver_firmware_version = firmware,
              ad_receiver_serial_number = receiver_serial,
              ad_trailing_bits = []\<rparr>))))))))"

definition antenna_strings :: "antenna_descriptor \<Rightarrow> (string \<times> rust_string option) list" where
  "antenna_strings d =
     [(''antenna serial number'', ad_antenna_serial_number d),
      (''receiver type'', ad_receiver_type d),
      (''receiver firmware version'', ad_receiver_firmware_version d),
      (''receiver serial number'', ad_receiver_serial_number d)]"

fun check_presence ::
  "u16 \<Rightarrow> rtcm_record_kind \<Rightarrow> ((string \<times> 'a option) \<times> bool) list \<Rightarrow> rtcm_encode_error + unit" where
  "check_presence number record [] = Inr ()"
| "check_presence number record (((field, value), carried) # rest) =
     (if (value \<noteq> None) \<noteq> carried then Inl (FieldPresence number record field carried)
      else check_presence number record rest)"

definition antenna_check :: "antenna_descriptor \<Rightarrow> rtcm_encode_error + unit" where
  "antenna_check d =
     (let number = ad_message_number d
      in ebind (if number = 1007 then Inr (False, False)
                else if number = 1008 then Inr (True, False)
                else if number = 1033 then Inr (True, True)
                else Inl (MessageNumber number RkAntennaDescriptor))
          (\<lambda>(serial, receiver).
            check_presence number RkAntennaDescriptor
              (zip (antenna_strings d) [serial, receiver, receiver, receiver])))"

definition antenna_fields :: "antenna_descriptor \<Rightarrow> wr list" where
  "antenna_fields d =
     [w_u ''message number'' (ad_message_number d) 12,
      w_u ''reference station ID'' (ad_reference_station_id d) 12,
      write_string ''antenna descriptor'' (ad_antenna_descriptor d),
      w_u ''antenna setup ID'' (ad_antenna_setup_id d) 8] @
     concat (map (\<lambda>(field, value). w_opt (write_string field) value) (antenna_strings d))"

definition antenna_encode_with_policy ::
  "rtcm_policy \<Rightarrow> antenna_descriptor \<Rightarrow> rtcm_encode_error + u8 list \<times> rtcm_departure list" where
  "antenna_encode_with_policy pol d =
     ebind (antenna_check d) (\<lambda>_.
     ebind (w_all (antenna_fields d) (fw_new (ad_message_number d))) (\<lambda>w.
     close_body w (ad_trailing_bits d) pol))"

subsection \<open>Strings\<close>

lemma ucast_u8_u32: "ucast (ucast (b :: u8) :: u32) = b" "ucast (b :: u8) \<le> (255 :: u32)"
proof -
  show "ucast (ucast b :: u32) = b" by (rule bit_word_eqI) (auto simp: bit_simps)
  have "unat b < 2 ^ LENGTH(8)" by (rule unsigned_less)
  then have "unat (ucast b :: u32) < 256"
    by (simp add: unsigned_ucast_eq le_less_trans [OF take_bit_nat_less_eq_self])
  then show "ucast b \<le> (255 :: u32)"
    by (simp add: word_le_nat_alt)
qed

lemma ucast_u32_u8:
  assumes "(c :: u32) \<le> 255"
  shows "ucast (ucast c :: u8) = c"
proof -
  have "fits_u 8 c" using assms by (simp add: fits_u_def word_le_nat_alt)
  then have "take_bit 8 c = c" by (simp add: take_bit_eq_iff_fits)
  moreover have "ucast (ucast c :: u8) = take_bit 8 c"
    by (rule bit_word_eqI) (auto simp: bit_simps)
  ultimately show "ucast (ucast c :: u8) = c" by simp
qed

lemma latin1_bytes_Inr: "latin1_bytes f s = Inr bytes \<longleftrightarrow> s = map ucast bytes"
proof (induction s arbitrary: bytes)
  case Nil
  then show ?case by auto
next
  case (Cons c s)
  show ?case
    by (cases bytes) (auto simp: Cons.IH ucast_u8_u32 ucast_u32_u8)
qed

lemma read_string_bytes:
  "read_string = rbind (rd_usize 8) (\<lambda>count.
     rbind (rd_vec count (rd_as 8)) (\<lambda>bytes :: u8 list. rreturn (map ucast bytes)))"
  by (simp add: read_string_def rd_vec_map)

lemma sync_string [sync_intros]:
  assumes "sync (k s) as y"
  shows "sync (rbind read_string k) (write_string f s # as) y"
proof (cases "latin1_bytes f s")
  case (Inl e)
  then show ?thesis by (simp add: sync_def write_string_def)
next
  case (Inr bytes)
  then have s: "s = map ucast bytes" by (simp add: latin1_bytes_Inr)
  let ?as = "w_len (f @ '' character count'') (length bytes) 8
              # map (\<lambda>byte. w_u f byte 8) bytes @ []"
  have "sync read_string ?as s"
    unfolding read_string_bytes s by (intro sync_usize sync_bind [OF sync_bytes] sync_return) simp_all
  then have "sync (rbind read_string k) (?as @ as) y"
    using assms by (rule sync_bind)
  moreover have "w_all (?as @ as) = w_all (write_string f s # as)"
    by (rule ext) (simp add: write_string_def Inr w_all_append ebind_def split: sum.splits)
  ultimately show ?thesis by (simp only: sync_def)
qed

lemma deco_string [deco_intros]:
  assumes "\<And>s bs. (\<And>f w. write_string f s w = Inr (fw_put bs w)) \<Longrightarrow>
             deco (k s) (\<lambda>y cs. Q y (bs @ cs))"
  shows "deco (rbind read_string k) Q"
proof (rule deco_bind)
  show "deco read_string (\<lambda>s bs. \<forall>f w. write_string f s w = Inr (fw_put bs w))"
    unfolding read_string_bytes
    by (intro deco_usize deco_bind [OF deco_bytes] deco_return)
      (auto simp: write_string_def latin1_bytes_Inr [THEN iffD2, OF refl] w_bytes_eq w_len_eq)
qed (auto intro: assms)

subsection \<open>The message contract\<close>

lemma antenna_sync: "antenna_check d = Inr () \<Longrightarrow>
   sync antenna_read (antenna_fields d) (d\<lparr>ad_trailing_bits := []\<rparr>)"
  unfolding antenna_read_def antenna_fields_def antenna_check_def antenna_strings_def Let_def rbind_opt
  by (cases d) (auto intro!: sync_intros split: if_splits)

lemma antenna_consumed: "deco antenna_read (\<lambda>d bs.
    antenna_check d = Inr () \<and> ad_trailing_bits d = [] \<and> fits_u 12 (ad_message_number d)
      \<and> writes (antenna_fields d) bs \<and> (\<exists>cs. bs = to_bits 12 (ucast (ad_message_number d)) @ cs))"
  unfolding antenna_read_def rbind_opt
  by (intro deco_intros) (auto simp: antenna_check_def antenna_fields_def antenna_strings_def w_exec)

interpretation antenna: plain_codec antenna_read ad_message_number
   antenna_check antenna_fields ad_trailing_bits
   "\<lambda>bits d. d\<lparr>ad_trailing_bits := bits\<rparr>" antenna_encode_with_policy
  by unfold_locales (rule antenna_consumed | erule antenna_sync
    | simp add: antenna_encode_with_policy_def antenna_check_def antenna_fields_def antenna_strings_def)+


section \<open>GLONASS code-phase biases, 1230\<close>

record glonass_code_phase_biases =
  gb_reference_station_id :: u16
  gb_aligned :: bool
  gb_reserved :: u8
  gb_l1_ca :: "int option"
  gb_l1_p :: "int option"
  gb_l2_ca :: "int option"
  gb_l2_p :: "int option"
  gb_trailing_bits :: "bool list"

definition signal_mask :: "glonass_code_phase_biases \<Rightarrow> u8" where
  "signal_mask b =
     foldl (\<lambda>mask (index, bias). mask OR push_bit (3 - index) 1) 0
       (filter (\<lambda>(_, bias). bias \<noteq> None)
         (enumerate 0 [gb_l1_ca b, gb_l1_p b, gb_l2_ca b, gb_l2_p b]))"

definition biases_read :: "glonass_code_phase_biases rd" where
  "biases_read =
     rbind (rd_as 12) (\<lambda>message_number :: u16.
     if message_number \<noteq> 1230
     then parse_error (''message '' @ dec_u message_number @
                       '' is not GLONASS code-phase biases 1230'')
     else
     rbind (rd_as 12) (\<lambda>reference_station_id.
     rbind rd_flag (\<lambda>aligned.
     rbind (rd_as 3) (\<lambda>reserved.
     rbind (rd_as 4) (\<lambda>mask :: u8.
     rbind (rd_opt (mask AND push_bit (3 - 0) 1 \<noteq> 0) (rd_i16 16)) (\<lambda>l1_ca.
     rbind (rd_opt (mask AND push_bit (3 - 1) 1 \<noteq> 0) (rd_i16 16)) (\<lambda>l1_p.
     rbind (rd_opt (mask AND push_bit (3 - 2) 1 \<noteq> 0) (rd_i16 16)) (\<lambda>l2_ca.
     rbind (rd_opt (mask AND push_bit (3 - 3) 1 \<noteq> 0) (rd_i16 16)) (\<lambda>l2_p.
     rreturn \<lparr>gb_reference_station_id = reference_station_id,
              gb_aligned = aligned,
              gb_reserved = reserved,
              gb_l1_ca = l1_ca,
              gb_l1_p = l1_p,
              gb_l2_ca = l2_ca,
              gb_l2_p = l2_p,
              gb_trailing_bits = []\<rparr>)))))))))"

definition biases_fields :: "glonass_code_phase_biases \<Rightarrow> wr list" where
  "biases_fields b =
     [w_u ''message number'' (1230 :: u16) 12,
      w_u ''reference station ID'' (gb_reference_station_id b) 12,
      w_flag (gb_aligned b),
      w_u ''reserved'' (gb_reserved b) 3,
      w_u ''signal mask'' (signal_mask b) 4] @
     concat (map (\<lambda>(name, bias). w_opt (\<lambda>bias. fw_i name bias 16) bias)
       [(''L1 C/A code-phase bias'', gb_l1_ca b),
        (''L1 P code-phase bias'', gb_l1_p b),
        (''L2 C/A code-phase bias'', gb_l2_ca b),
        (''L2 P code-phase bias'', gb_l2_p b)])"

definition biases_encode_with_policy ::
  "rtcm_policy \<Rightarrow> glonass_code_phase_biases
     \<Rightarrow> rtcm_encode_error + u8 list \<times> rtcm_departure list" where
  "biases_encode_with_policy pol b =
     ebind (w_all (biases_fields b) (fw_new 1230)) (\<lambda>w.
     close_body w (gb_trailing_bits b) pol)"

text \<open>The mask of the carried biases states each of them in its own bit.\<close>

definition mask4 :: "bool \<Rightarrow> bool \<Rightarrow> bool \<Rightarrow> bool \<Rightarrow> u8" where
  "mask4 a b c d = 8 * of_bool a + 4 * of_bool b + 2 * of_bool c + of_bool d"

lemma signal_mask_eq:
  "signal_mask b = mask4 (gb_l1_ca b \<noteq> None) (gb_l1_p b \<noteq> None) (gb_l2_ca b \<noteq> None) (gb_l2_p b \<noteq> None)"
  by (cases "gb_l1_ca b"; cases "gb_l1_p b"; cases "gb_l2_ca b"; cases "gb_l2_p b")
    (simp_all add: signal_mask_def mask4_def push_bit_eq_mult)

lemma mask4_bits:
  "mask4 a b c d AND 8 = 0 \<longleftrightarrow> \<not> a" "mask4 a b c d AND 4 = 0 \<longleftrightarrow> \<not> b"
  "mask4 a b c d AND 2 = 0 \<longleftrightarrow> \<not> c" "mask4 a b c d AND 1 = 0 \<longleftrightarrow> \<not> d"
  by (cases a; cases b; cases c; cases d; simp add: mask4_def)+

lemma mask4_of:
  assumes "fits_u 4 m"
  shows "mask4 (m AND 8 \<noteq> 0) (m AND 4 \<noteq> 0) (m AND 2 \<noteq> 0) (m AND 1 \<noteq> 0) = m"
proof -
  have m: "m = word_of_nat (unat m)" and "unat m < 16" using assms by (simp_all add: fits_u_def)
  then have "unat m \<in> {0, 1, 2, 3, 4, 5, 6, 7, 8, 9, 10, 11, 12, 13, 14, 15}"
    unfolding insert_iff empty_iff by presburger
  then have "m \<in> word_of_nat ` {0, 1, 2, 3, 4, 5, 6, 7, 8, 9, 10, 11, 12, 13, 14, 15}"
    using m by (rule rev_image_eqI)
  then show ?thesis
    unfolding image_insert image_empty insert_iff empty_iff
    by (elim disjE) (simp_all add: mask4_def)
qed

lemma biases_sync: "sync biases_read (biases_fields b) (b\<lparr>gb_trailing_bits := []\<rparr>)"
  unfolding biases_read_def biases_fields_def rbind_opt signal_mask_eq
  by (cases b) (auto intro!: sync_intros simp: mask4_bits)

lemma mask4_fits: "fits_u 4 (mask4 a b c d)"
  by (cases a; cases b; cases c; cases d; simp add: mask4_def)

lemma biases_consumed: "deco biases_read (\<lambda>b bs.
    gb_trailing_bits b = [] \<and> writes (biases_fields b) bs
      \<and> (\<exists>cs. bs = to_bits 12 (ucast (1230 :: u16)) @ cs))"
  unfolding biases_read_def rbind_opt
  by (intro deco_intros)
    (auto simp: biases_fields_def signal_mask_eq w_exec mask4_fits dest!: mask4_of)

interpretation biases: plain_codec biases_read "\<lambda>_. 1230" "\<lambda>_. Inr ()" biases_fields
   gb_trailing_bits "\<lambda>bits b. b\<lparr>gb_trailing_bits := bits\<rparr>" biases_encode_with_policy
proof unfold_locales
qed (rule deco_mono [OF biases_consumed] biases_sync
  | simp add: biases_encode_with_policy_def biases_fields_def signal_mask_def)+

section \<open>Text strings, 1029\<close>

record text_message =
  tm_reference_station_id :: u16
  tm_mjd :: u16
  tm_seconds_of_day :: u32
  tm_character_count :: u8
  tm_code_units :: "u8 list"
  tm_trailing_bits :: "bool list"

definition text_read :: "text_message rd" where
  "text_read =
     rbind (rd_as 12) (\<lambda>message_number :: u16.
     if message_number \<noteq> 1029
     then parse_error (''message '' @ dec_u message_number @ '' is not a text message 1029'')
     else
     rbind (rd_as 12) (\<lambda>reference_station_id.
     rbind (rd_as 16) (\<lambda>mjd.
     rbind (rd_as 17) (\<lambda>seconds_of_day.
     rbind (rd_as 7) (\<lambda>character_count.
     rbind (rd_usize 8) (\<lambda>units.
     rbind (rd_vec units (rd_as 8)) (\<lambda>code_units.
     rreturn \<lparr>tm_reference_station_id = reference_station_id,
              tm_mjd = mjd,
              tm_seconds_of_day = seconds_of_day,
              tm_character_count = character_count,
              tm_code_units = code_units,
              tm_trailing_bits = []\<rparr>)))))))"

definition text_fields :: "text_message \<Rightarrow> wr list" where
  "text_fields t =
     [w_u ''message number'' (1029 :: u16) 12,
      w_u ''reference station ID'' (tm_reference_station_id t) 12,
      w_u ''MJD'' (tm_mjd t) 16,
      w_u ''seconds of day'' (tm_seconds_of_day t) 17,
      w_u ''character count'' (tm_character_count t) 7,
      w_len ''code unit count'' (length (tm_code_units t)) 8] @
     map (\<lambda>unit. w_u ''code unit'' unit 8) (tm_code_units t)"

definition text_encode_with_policy ::
  "rtcm_policy \<Rightarrow> text_message \<Rightarrow> rtcm_encode_error + u8 list \<times> rtcm_departure list" where
  "text_encode_with_policy pol t =
     ebind (w_all (text_fields t) (fw_new 1029)) (\<lambda>w.
     close_body w (tm_trailing_bits t) pol)"

lemma text_sync: "sync text_read (text_fields t) (t\<lparr>tm_trailing_bits := []\<rparr>)"
  unfolding text_read_def text_fields_def
  by (cases t) (auto intro!: sync_intros)

lemma text_consumed: "deco text_read (\<lambda>t bs.
    tm_trailing_bits t = [] \<and> writes (text_fields t) bs
      \<and> (\<exists>cs. bs = to_bits 12 (ucast (1029 :: u16)) @ cs))"
  unfolding text_read_def
  by (intro deco_intros deco_bind [OF deco_bytes])
    (auto simp: text_fields_def w_exec w_bytes_eq)

interpretation text_string: plain_codec text_read "\<lambda>_. 1029" "\<lambda>_. Inr ()" text_fields
   tm_trailing_bits "\<lambda>bits t. t\<lparr>tm_trailing_bits := bits\<rparr>" text_encode_with_policy
proof unfold_locales
qed (rule deco_mono [OF text_consumed] text_sync
  | simp add: text_encode_with_policy_def text_fields_def)+

end
