(* ===== verification/Rtcm_Counted.thy ===== *)
theory Rtcm_Counted
  imports Rtcm_Context
begin

text \<open>
  Records counted by a message header (\<^verbatim>\<open>read_counted\<close>, \<^verbatim>\<open>check_count\<close> and
  \<^verbatim>\<open>write_tail\<close> of \<^verbatim>\<open>rtcm/network.rs\<close>).  A body that ends before the records its
  header counts is refused under the strict policy and read up to its last
  complete record under the lenient one.  The locale \<open>counted_codec\<close> is the
  contract between a counted message and this code; both round trips are proved
  from it once.
\<close>

section \<open>Records counted by a header\<close>

text \<open>
  The loop of \<^verbatim>\<open>read_counted\<close> and of the SSR \<^verbatim>\<open>read_records\<close>.  A record is read on a
  copy of the reader, which replaces the reader only when the whole record was
  there.  A \<open>caught\<close> error ends the records under the lenient policy with the
  departure \<open>short\<close> gives for the number of records read.
\<close>

fun counted_loop ::
  "(decode_error \<Rightarrow> bool) \<Rightarrow> (nat \<Rightarrow> rtcm_departure) \<Rightarrow> 'a rd \<Rightarrow> nat \<Rightarrow> decode_context \<Rightarrow> 'a list
     \<Rightarrow> ('a list \<times> decode_context) rd" where
  "counted_loop caught short read 0 ctx records r = Inr ((records, ctx), r)"
| "counted_loop caught short read (Suc left) ctx records r =
     (case read r of
        Inr (record, trial) \<Rightarrow>
          counted_loop caught short read left ctx (records @ [record]) trial
      | Inl error \<Rightarrow>
          if policy ctx = Strict \<or> \<not> caught error then Inl error
          else ebind (depart (short (length records)) ctx) (\<lambda>ctx'. Inr ((records, ctx'), r)))"

text \<open>The record readers under \<^verbatim>\<open>read_counted\<close> fail only with \<^verbatim>\<open>OutOfInput\<close>.\<close>

definition read_counted ::
  "bit_reader \<Rightarrow> decode_context \<Rightarrow> u16 \<Rightarrow> nat \<Rightarrow> 'a rd
     \<Rightarrow> decode_error + ('a list \<times> bool list) \<times> decode_context" where
  "read_counted r ctx message_number declared read =
     ebind (counted_loop (\<lambda>_. True) (RecordsShort message_number declared) read declared ctx [] r)
       (\<lambda>((records, ctx1), r1).
         let rest = fst (br_rest r1)
         in if length records < declared then Inr ((records, rest), ctx1)
            else if is_departing_tail rest
            then ebind (depart (TrailingBits message_number rest) ctx1)
                   (\<lambda>ctx2. Inr ((records, rest), ctx2))
            else Inr ((records, []), ctx1))"

text \<open>
  The count of the header against the records, with the name the refusal gives
  the records; \<^verbatim>\<open>check_count\<close> gives them the name \<^verbatim>\<open>header record\<close>.
\<close>

definition check_count_of ::
  "string \<Rightarrow> u16 \<Rightarrow> nat \<Rightarrow> nat \<Rightarrow> rtcm_policy \<Rightarrow> rtcm_encode_error + bool \<times> rtcm_departure list" where
  "check_count_of field message_number declared records pol =
     (if declared > records \<and> pol = Lenient
      then Inr (True, [RecordsShort message_number declared records])
      else if declared \<noteq> records
      then Inl (CountMismatch message_number field declared records)
      else Inr (False, []))"

definition check_count ::
  "u16 \<Rightarrow> nat \<Rightarrow> nat \<Rightarrow> rtcm_policy \<Rightarrow> rtcm_encode_error + bool \<times> rtcm_departure list" where
  "check_count = check_count_of ''header record''"

definition write_tail ::
  "field_writer \<Rightarrow> bool \<Rightarrow> bool list \<Rightarrow> rtcm_policy
     \<Rightarrow> rtcm_encode_error + field_writer \<times> rtcm_departure list" where
  "write_tail w short bits pol =
     (if short then Inr (fw_flags bits w, []) else write_trailing w bits pol)"

text \<open>The writers of the records, each with its index.\<close>

fun w_records :: "(nat \<Rightarrow> 'a \<Rightarrow> wr list) \<Rightarrow> nat \<Rightarrow> 'a list \<Rightarrow> wr list" where
  "w_records f i [] = []"
| "w_records f i (x # xs) = f i x @ w_records f (Suc i) xs"

subsection \<open>Facts about counted records\<close>

lemma sync_counted_loop:
  assumes "\<And>i x. x \<in> set xs \<Longrightarrow> sync record (f i x) x"
  shows "sync (counted_loop caught short record (length xs) ctx records)
           (w_records f i xs) (records @ xs, ctx)"
  using assms
proof (induction xs arbitrary: records i)
  case Nil
  then show ?case by (auto simp: sync_def reads_def intro!: exI [of _ "[]"])
next
  case (Cons x xs)
  let ?loop = "counted_loop caught short record"
  show ?case
    unfolding sync_def
  proof (intro allI impI)
    fix w w' assume "w_all (w_records f i (x # xs)) w = Inr w'"
    then obtain w1 where w1: "w_all (f i x) w = Inr w1"
      and w': "w_all (w_records f (Suc i) xs) w1 = Inr w'"
      by (auto simp: w_all_append)
    have "sync record (f i x) x" using Cons.prems by simp
    with w1 obtain b1 where b1: "w1 = fw_put b1 w" "reads record x b1"
      unfolding sync_def by blast
    have "sync (?loop (length xs) ctx (records @ [x])) (w_records f (Suc i) xs)
            ((records @ [x]) @ xs, ctx)"
      using Cons.prems by (intro Cons.IH) simp
    with w' obtain b2 where b2: "w' = fw_put b2 w1"
      "reads (?loop (length xs) ctx (records @ [x])) (records @ x # xs, ctx) b2"
      unfolding sync_def by force
    have "reads (?loop (length (x # xs)) ctx records) (records @ x # xs, ctx) (b1 @ b2)"
      using b1(2) b2(2) by (simp add: reads_def)
    then show "\<exists>bs. w' = fw_put bs w \<and>
        reads (?loop (length (x # xs)) ctx records) (records @ x # xs, ctx) bs"
      using b1(1) b2(1) by (intro exI [of _ "b1 @ b2"]) simp
  qed
qed

text \<open>
  What the loop has read when it stops: whole records, and either all that were
  declared or, under the lenient policy, fewer, with the departure recorded.
\<close>

definition counted_end ::
  "(nat \<Rightarrow> rtcm_departure) \<Rightarrow> decode_context \<Rightarrow> nat \<Rightarrow> nat \<Rightarrow> nat \<Rightarrow> decode_context \<Rightarrow> bool" where
  "counted_end short ctx before count left ctx' \<longleftrightarrow>
     (if count = left then ctx' = ctx
      else count < left \<and> policy ctx = Lenient
        \<and> ctx' = ctx\<lparr>departures :=
             departures ctx @ [short (before + count)]\<rparr>)"

lemma deco_counted_loop:
  assumes rec: "deco record (\<lambda>x bs. P x \<and> (\<forall>i. writes (f i x) bs))"
  shows "deco (counted_loop caught short record left ctx records)
     (\<lambda>(all, ctx') bs. \<exists>xs. all = records @ xs \<and> (\<forall>x\<in>set xs. P x)
        \<and> (\<forall>i. writes (w_records f i xs) bs)
        \<and> counted_end short ctx (length records) (length xs) left ctx')"
proof (induction left arbitrary: records)
  case 0
  then show ?case by (auto simp: deco_def w_exec counted_end_def)
next
  case (Suc left)
  show ?case (is "deco _ (\<lambda>(all, ctx') bs. ?Q all ctx' bs)")
    unfolding deco_def
  proof (intro allI impI)
    fix r r'' and p :: "'a list \<times> decode_context"
    obtain all ctx' where p: "p = (all, ctx')" by (cases p)
    assume run: "counted_loop caught short record (Suc left) ctx records r = Inr (p, r'')"
    have "\<exists>bs. rest_bits r = bs @ rest_bits r'' \<and> r'' = adv (length bs) r \<and> ?Q all ctx' bs"
    proof (cases "record r")
      case (Inl e)
      with run p show ?thesis
        by (intro exI [of _ "[]"]) (auto simp: depart_Inr w_exec counted_end_def split: if_splits)
    next
      case (Inr q)
      obtain x r' where q: "q = (x, r')" by (cases q)
      from decoD [OF rec, of r x r'] Inr q obtain b1 where
        b1: "rest_bits r = b1 @ rest_bits r'" "r' = adv (length b1) r"
        and x: "P x" "\<And>i. writes (f i x) b1"
        by blast
      from run Inr q p
      have "counted_loop caught short record left ctx (records @ [x]) r' = Inr ((all, ctx'), r'')"
        by simp
      from decoD [OF Suc.IH this] obtain b2 xs where
        b2: "rest_bits r' = b2 @ rest_bits r''" "r'' = adv (length b2) r'"
        and xs: "all = (records @ [x]) @ xs" "\<forall>x\<in>set xs. P x" "\<And>i. writes (w_records f i xs) b2"
        and st: "counted_end short ctx (length (records @ [x])) (length xs) left ctx'"
        by (simp only: prod.case) blast
      have "?Q all ctx' (b1 @ b2)"
        using x xs st
        by (intro exI [of _ "x # xs"]) (auto simp: counted_end_def intro: writes_append)
      moreover have "rest_bits r = (b1 @ b2) @ rest_bits r''" "r'' = adv (length (b1 @ b2)) r"
        using b1 b2 by (simp_all only: append_assoc length_append adv_adv)
      ultimately show ?thesis by blast
    qed
    then show "\<exists>bs. rest_bits r = bs @ rest_bits r'' \<and> r'' = adv (length bs) r \<and>
      (case p of (all, ctx') \<Rightarrow> ?Q all ctx') bs"
      by (simp only: p prod.case)
  qed
qed

subsection \<open>The contract of a counted message\<close>

text \<open>
  \<open>header\<close> reads the message up to its records and gives it with none of them;
  \<open>record\<close> reads one record, \<open>declared\<close> is the count the header states, and
  \<open>with_records\<close> puts the records and the kept bits in.
\<close>

locale counted_codec =
  fixes header :: "'m rd"
    and record_of :: "'m \<Rightarrow> 'a rd"
    and number :: "'m \<Rightarrow> u16"
    and declared :: "'m \<Rightarrow> nat"
    and records :: "'m \<Rightarrow> 'a list"
    and tail :: "'m \<Rightarrow> bool list"
    and with_records :: "'a list \<Rightarrow> bool list \<Rightarrow> 'm \<Rightarrow> 'm"
    and check :: "'m \<Rightarrow> rtcm_encode_error + unit"
    and count_name :: string
    and hfields :: "'m \<Rightarrow> wr list"
    and rfields :: "'m \<Rightarrow> nat \<Rightarrow> 'a \<Rightarrow> wr list"
    and header_ok :: "'m \<Rightarrow> bool"
    and record_ok :: "'m \<Rightarrow> 'a \<Rightarrow> bool"
    and decode :: "u8 list \<Rightarrow> decode_context \<Rightarrow> decode_error + 'm \<times> decode_context"
    and encode :: "rtcm_policy \<Rightarrow> 'm \<Rightarrow> rtcm_encode_error + u8 list \<times> rtcm_departure list"
  assumes decode_eq: "decode body ctx =
      ebind (header (br_new body)) (\<lambda>(h, r).
      ebind (read_counted r ctx (number h) (declared h) (record_of h)) (\<lambda>((xs, bits), ctx').
      Inr (with_records xs bits h, ctx')))"
    and encode_eq: "encode pol m =
      ebind (check m) (\<lambda>_.
      ebind (check_count_of count_name (number m) (declared m) (length (records m)) pol) (\<lambda>(short, before).
      ebind (w_all (hfields m @ w_records (rfields m) 0 (records m)) (fw_new (number m))) (\<lambda>w.
      ebind (write_tail w short (tail m) pol) (\<lambda>(w', after).
      Inr (fw_into_bytes w', before @ after)))))"
    and with_same: "with_records (records m) (tail m) m = m"
    and with_with: "with_records xs bits (with_records ys cs m) = with_records xs bits m"
    and with_get: "records (with_records xs bits m) = xs" "tail (with_records xs bits m) = bits"
    and with_number: "number (with_records xs bits m) = number m"
    and with_declared: "declared (with_records xs bits m) = declared m"
    and with_record: "record_of (with_records xs bits m) = record_of m"
    and with_hfields: "hfields (with_records xs bits m) = hfields m"
    and with_rfields: "rfields (with_records xs bits m) = rfields m"
    and header_back: "check m = Inr () \<Longrightarrow> sync header (hfields m) (with_records [] [] m)"
    and record_back: "check m = Inr () \<Longrightarrow> x \<in> set (records m) \<Longrightarrow>
      sync (record_of m) (rfields m i x) x"
    and header_consumed: "deco header (\<lambda>h bs. header_ok h \<and> writes (hfields h) bs
      \<and> fits_u 12 (number h) \<and> (\<exists>cs. bs = to_bits 12 (ucast (number h)) @ cs))"
    and record_consumed: "header_ok h \<Longrightarrow>
      deco (record_of h) (\<lambda>x bs. record_ok h x \<and> (\<forall>i. writes (rfields h i x) bs))"
    and check_ok: "header_ok h \<Longrightarrow> \<forall>x\<in>set xs. record_ok h x \<Longrightarrow>
      check (with_records xs bits h) = Inr ()"
begin

lemma strict_encode:
  assumes "encode Strict m = Inr (body, ds)"
  shows "ds = [] \<and> tail m = [] \<and> encode Lenient m = Inr (body, []) \<and> length (records m) = declared m"
  using assms
  by (auto simp: encode_eq check_count_of_def write_tail_def write_trailing_def Let_def
      split: if_splits)

lemma encode_decode:
  assumes "decode body (ctx_new pol) = Inr (m, ctx')"
  shows "encode pol m = Inr (body, departures ctx')" and "policy ctx' = pol"
    and "message_number_classified body = Inr (number m)"
proof -
  from assms obtain h r xs bits where
    h: "header (br_new body) = Inr (h, r)"
    and c: "read_counted r (ctx_new pol) (number h) (declared h) (record_of h) = Inr ((xs, bits), ctx')"
    and m: "m = with_records xs bits h"
    by (auto simp: decode_eq)
  from c obtain ctx1 r1 where
    loop: "counted_loop (\<lambda>_. True) (RecordsShort (number h) (declared h)) (record_of h) (declared h) (ctx_new pol) [] r
             = Inr ((xs, ctx1), r1)"
    and fin: "(if length xs < declared h then Inr ((xs, rest_bits r1), ctx1)
       else if is_departing_tail (rest_bits r1)
       then ebind (depart (TrailingBits (number h) (rest_bits r1)) ctx1)
              (\<lambda>ctx2. Inr ((xs, rest_bits r1), ctx2))
       else Inr ((xs, []), ctx1)) = Inr ((xs, bits), ctx')"
    by (auto simp: read_counted_def br_rest_eq Let_def split: if_splits)
  from decoD [OF header_consumed h] obtain b1 where
    b1: "bits_of_bytes body = b1 @ rest_bits r" "header_ok h" "writes (hfields h) b1"
    "fits_u 12 (number h)" "\<exists>cs. b1 = to_bits 12 (ucast (number h)) @ cs"
    by (simp only: rest_bits_new) blast
  from decoD [OF deco_counted_loop [OF record_consumed [OF b1(2)]] loop] obtain b2 where
    b2: "rest_bits r = b2 @ rest_bits r1" "\<forall>x\<in>set xs. record_ok h x"
    "\<And>i. writes (w_records (rfields h) i xs) b2"
    "counted_end (RecordsShort (number h) (declared h)) (ctx_new pol) 0 (length xs) (declared h) ctx1"
    by (simp only: prod.case append_Nil list.size) blast
  have body: "bits_of_bytes body = (b1 @ b2) @ rest_bits r1"
    using b1(1) b2(1) by simp
  have ck: "check m = Inr ()"
    unfolding m by (rule check_ok [OF b1(2) b2(2)])
  have w: "w_all (hfields m @ w_records (rfields m) 0 (records m)) (fw_new (number m))
      = Inr (fw_put (b1 @ b2) (fw_new (number h)))"
    using writes_append [OF b1(3) b2(3)]
    by (simp add: m with_hfields with_rfields with_get with_number writes_def)
  have "encode pol m = Inr (body, departures ctx') \<and> policy ctx' = pol"
  proof (cases "length xs = declared h")
    case False
    with b2(4) have lt: "length xs < declared h" "pol = Lenient"
      "ctx1 = \<lparr>policy = pol, departures = [RecordsShort (number h) (declared h) (length xs)]\<rparr>"
      by (auto simp: counted_end_def ctx_new_def)
    with fin have "bits = rest_bits r1" "ctx' = ctx1" by simp_all
    with lt w body pack_whole [OF body] ck show ?thesis
      by (simp add: encode_eq check_count_of_def write_tail_def m with_get with_declared with_number
          fw_flags_put)
  next
    case True
    with b2(4) have ctx1: "ctx1 = ctx_new pol" by (simp add: counted_end_def)
    have cc: "check_count_of count_name (number m) (declared m) (length (records m)) pol = Inr (False, [])"
      using True by (simp add: check_count_of_def m with_get with_declared)
    show ?thesis
    proof (cases "is_departing_tail (rest_bits r1)")
      case tl: True
      with fin True ctx1 have "bits = rest_bits r1" "pol = Lenient"
        "ctx' = \<lparr>policy = pol, departures = [TrailingBits (number h) (rest_bits r1)]\<rparr>"
        by (auto simp: depart_Inr ctx_new_def)
      with close_body_departing [OF body tl, of "number h"] w ck cc show ?thesis
        by (auto simp: encode_eq write_tail_def close_body_def m with_get)
    next
      case tl: False
      with fin True ctx1 have "bits = []" "ctx' = ctx_new pol" by simp_all
      with close_body_quiet [OF body tl, of "number h" pol] w ck cc show ?thesis
        by (auto simp: encode_eq write_tail_def close_body_def m with_get)
    qed
  qed
  then show "encode pol m = Inr (body, departures ctx')" and "policy ctx' = pol"
    by simp_all
  show "message_number_classified body = Inr (number m)"
    using b1 by (auto simp: m with_number intro: message_number_of_bits)
qed

lemma decode_encode:
  assumes "encode pol m = Inr (body, ds)" and "length (records m) = declared m"
  shows "\<exists>n. decode body (ctx_new pol)
           = Inr (with_records (records m) (kept_tail n (tail m)) m, \<lparr>policy = pol, departures = ds\<rparr>)"
proof -
  let ?h = "with_records [] [] m"
  from assms obtain w w' after where
    c: "check m = Inr ()" and w: "w_all (hfields m @ w_records (rfields m) 0 (records m))
      (fw_new (number m)) = Inr w"
    and wt: "write_trailing w (tail m) pol = Inr (w', ds)" and b: "body = fw_into_bytes w'"
    by (auto simp: encode_eq check_count_of_def write_tail_def)
  then have cl: "close_body w (tail m) pol = Inr (body, ds)" by (simp add: close_body_def)
  from w obtain w1 where w1: "w_all (hfields m) (fw_new (number m)) = Inr w1"
    and w2: "w_all (w_records (rfields m) 0 (records m)) w1 = Inr w"
    by (auto simp: w_all_append)
  from header_back [OF c] w1 obtain b1 where
    b1: "w1 = fw_put b1 (fw_new (number m))" "reads header ?h b1"
    unfolding sync_def by blast
  have "sync (counted_loop (\<lambda>_. True) (RecordsShort (number m) (declared m)) (record_of m) (length (records m))
          (ctx_new pol) []) (w_records (rfields m) 0 (records m)) ([] @ records m, ctx_new pol)"
    by (rule sync_counted_loop) (rule record_back [OF c])
  with w2 obtain b2 where b2: "w = fw_put b2 w1"
    "reads (counted_loop (\<lambda>_. True) (RecordsShort (number m) (declared m)) (record_of m) (declared m) (ctx_new pol) [])
       (records m, ctx_new pol) b2"
    unfolding sync_def assms(2) append_Nil by blast
  have "w = fw_put (b1 @ b2) (fw_new (number m))" using b1(1) b2(1) by simp
  from cl [unfolded this, THEN close_body_put] obtain rest where
    body: "bits_of_bytes body = b1 @ b2 @ rest" and
    tl: "if is_departing_tail rest
         then pol = Lenient \<and> kept_tail (length (b1 @ b2)) (tail m) = rest
              \<and> ds = [TrailingBits (number m) rest]
         else tail m = [] \<and> ds = []"
    by auto
  let ?r = "adv (length b1) (br_new body)"
  have h: "header (br_new body) = Inr (?h, ?r)"
    using b1(2) body by (simp add: reads_def)
  have l: "counted_loop (\<lambda>_. True) (RecordsShort (number m) (declared m)) (record_of m) (declared m) (ctx_new pol) [] ?r
      = Inr ((records m, ctx_new pol), adv (length b2) ?r)"
    using b2(2) body by (simp add: reads_def)
  have "read_counted ?r (ctx_new pol) (number m) (declared m) (record_of m)
      = Inr ((records m, kept_tail (length (b1 @ b2)) (tail m)), \<lparr>policy = pol, departures = ds\<rparr>)"
    unfolding read_counted_def l ebind_simps prod.case br_rest_eq Let_def
    using tl assms(2) body by (auto simp: depart_def ctx_new_def kept_tail_def split: if_splits)
  then have "decode body (ctx_new pol)
      = Inr (with_records (records m) (kept_tail (length (b1 @ b2)) (tail m)) m,
             \<lparr>policy = pol, departures = ds\<rparr>)"
    by (simp add: decode_eq h with_number with_declared with_record with_with)
  then show ?thesis by blast
qed

end

end
