(* ===== verification/Rtcm_Network.thy ===== *)
theory Rtcm_Network
  imports Rtcm_Counted
begin

text \<open>
  System parameters (\<^verbatim>\<open>rtcm/system.rs\<close>, 1013) and the network RTK messages
  (\<^verbatim>\<open>rtcm/network.rs\<close>): auxiliary stations 1014, correction differences 1015 to 1017
  and 1037 to 1039, residuals 1030 and 1031, physical reference stations 1032 and
  FKP gradients 1034 and 1035.  The messages that count their records interpret
  \<open>counted_codec\<close>, the others \<open>plain_codec\<close>.
\<close>

section \<open>System parameters, 1013\<close>

record message_announcement =
  ma_message_number :: u16
  ma_synchronous :: bool
  ma_interval :: u16

record system_parameters =
  sp_reference_station_id :: u16
  sp_mjd :: u16
  sp_seconds_of_day :: u32
  sp_announcement_count :: u8
  sp_leap_seconds :: u8
  sp_announcements :: "message_announcement list"
  sp_trailing_bits :: "bool list"

definition system_header :: "system_parameters rd" where
  "system_header =
     rbind (rd_as 12) (\<lambda>message_number :: u16.
     if message_number \<noteq> 1013
     then parse_error (''message '' @ dec_u message_number @ '' is not system parameters 1013'')
     else
     rbind (rd_as 12) (\<lambda>reference_station_id.
     rbind (rd_as 16) (\<lambda>mjd.
     rbind (rd_as 17) (\<lambda>seconds_of_day.
     rbind (rd_as 5) (\<lambda>announcement_count.
     rbind (rd_as 8) (\<lambda>leap_seconds.
     rreturn \<lparr>sp_reference_station_id = reference_station_id,
              sp_mjd = mjd,
              sp_seconds_of_day = seconds_of_day,
              sp_announcement_count = announcement_count,
              sp_leap_seconds = leap_seconds,
              sp_announcements = [],
              sp_trailing_bits = []\<rparr>))))))"

definition announcement_read :: "message_announcement rd" where
  "announcement_read =
     rbind (rd_as 12) (\<lambda>message_number.
     rbind rd_flag (\<lambda>synchronous.
     rbind (rd_as 16) (\<lambda>interval.
     rreturn \<lparr>ma_message_number = message_number,
              ma_synchronous = synchronous,
              ma_interval = interval\<rparr>)))"

definition system_decode_inner ::
  "u8 list \<Rightarrow> decode_context \<Rightarrow> decode_error + system_parameters \<times> decode_context" where
  "system_decode_inner body ctx =
     ebind (system_header (br_new body)) (\<lambda>(m, r).
     ebind (read_counted r ctx 1013 (unat (sp_announcement_count m)) announcement_read)
       (\<lambda>((announcements, trailing_bits), ctx').
     Inr (m\<lparr>sp_announcements := announcements, sp_trailing_bits := trailing_bits\<rparr>, ctx')))"

definition system_hfields :: "system_parameters \<Rightarrow> wr list" where
  "system_hfields m =
     [w_u ''message number'' (1013 :: u16) 12,
      w_u ''reference station ID'' (sp_reference_station_id m) 12,
      w_u ''MJD'' (sp_mjd m) 16,
      w_u ''seconds of day'' (sp_seconds_of_day m) 17,
      w_u ''announcement count'' (sp_announcement_count m) 5,
      w_u ''leap seconds'' (sp_leap_seconds m) 8]"

definition announcement_fields :: "nat \<Rightarrow> message_announcement \<Rightarrow> wr list" where
  "announcement_fields index a =
     [w_u (''announcement '' @ dec index @ '' message number'') (ma_message_number a) 12,
      w_flag (ma_synchronous a),
      w_u (''announcement '' @ dec index @ '' interval'') (ma_interval a) 16]"

definition system_encode_with_policy ::
  "rtcm_policy \<Rightarrow> system_parameters \<Rightarrow> rtcm_encode_error + u8 list \<times> rtcm_departure list" where
  "system_encode_with_policy pol m =
     ebind (check_count 1013 (unat (sp_announcement_count m)) (length (sp_announcements m)) pol)
       (\<lambda>(short, departures).
     ebind (w_all (system_hfields m @ w_records announcement_fields 0 (sp_announcements m))
              (fw_new 1013)) (\<lambda>w.
     ebind (write_tail w short (sp_trailing_bits m) pol) (\<lambda>(w', after).
     Inr (fw_into_bytes w', departures @ after))))"

interpretation system: counted_codec system_header "\<lambda>_. announcement_read" "\<lambda>_. 1013"
  "\<lambda>m. unat (sp_announcement_count m)" sp_announcements sp_trailing_bits
  "\<lambda>xs bits m. m\<lparr>sp_announcements := xs, sp_trailing_bits := bits\<rparr>" "\<lambda>_. Inr ()"
  "''header record''" system_hfields "\<lambda>_. announcement_fields" "\<lambda>_. True" "\<lambda>_ _. True"
  system_decode_inner system_encode_with_policy
proof unfold_locales
  show "sync system_header (system_hfields m) (m\<lparr>sp_announcements := [], sp_trailing_bits := []\<rparr>)" for m
    unfolding system_header_def system_hfields_def by (cases m) (auto intro!: sync_intros)
  show "sync announcement_read (announcement_fields i x) x" for i x
    unfolding announcement_read_def announcement_fields_def by (cases x) (auto intro!: sync_intros)
  show "deco system_header (\<lambda>h bs. True \<and> writes (system_hfields h) bs \<and> fits_u 12 (1013 :: u16)
      \<and> (\<exists>cs. bs = to_bits 12 (ucast (1013 :: u16)) @ cs))"
    unfolding system_header_def by (intro deco_intros) (auto simp: system_hfields_def w_exec)
  show "deco announcement_read (\<lambda>x bs. True \<and> (\<forall>i. writes (announcement_fields i x) bs))"
    unfolding announcement_read_def by (intro deco_intros) (auto simp: announcement_fields_def w_exec)
qed (simp_all add: system_decode_inner_def system_encode_with_policy_def check_count_def system_hfields_def)

section \<open>Network auxiliary station data, 1014\<close>

record network_auxiliary_station =
  na_network_id :: u8
  na_subnetwork_id :: u8
  na_auxiliary_station_count :: u8
  na_master_station_id :: u16
  na_auxiliary_station_id :: u16
  na_delta_latitude :: int
  na_delta_longitude :: int
  na_delta_height :: int
  na_trailing_bits :: "bool list"

definition auxiliary_read :: "network_auxiliary_station rd" where
  "auxiliary_read =
     rbind (rd_as 12) (\<lambda>message_number :: u16.
     if message_number \<noteq> 1014
     then parse_error (''message '' @ dec_u message_number @
                       '' is not network auxiliary station data 1014'')
     else
     rbind (rd_as 8) (\<lambda>network_id.
     rbind (rd_as 4) (\<lambda>subnetwork_id.
     rbind (rd_as 5) (\<lambda>auxiliary_station_count.
     rbind (rd_as 12) (\<lambda>master_station_id.
     rbind (rd_as 12) (\<lambda>auxiliary_station_id.
     rbind (rd_i32 20) (\<lambda>delta_latitude.
     rbind (rd_i32 21) (\<lambda>delta_longitude.
     rbind (rd_i32 23) (\<lambda>delta_height.
     rreturn \<lparr>na_network_id = network_id,
              na_subnetwork_id = subnetwork_id,
              na_auxiliary_station_count = auxiliary_station_count,
              na_master_station_id = master_station_id,
              na_auxiliary_station_id = auxiliary_station_id,
              na_delta_latitude = delta_latitude,
              na_delta_longitude = delta_longitude,
              na_delta_height = delta_height,
              na_trailing_bits = []\<rparr>)))))))))"

definition auxiliary_fields :: "network_auxiliary_station \<Rightarrow> wr list" where
  "auxiliary_fields m =
     [w_u ''message number'' (1014 :: u16) 12,
      w_u ''network ID'' (na_network_id m) 8,
      w_u ''subnetwork ID'' (na_subnetwork_id m) 4,
      w_u ''auxiliary station count'' (na_auxiliary_station_count m) 5,
      w_u ''master station ID'' (na_master_station_id m) 12,
      w_u ''auxiliary station ID'' (na_auxiliary_station_id m) 12,
      fw_i ''delta latitude'' (na_delta_latitude m) 20,
      fw_i ''delta longitude'' (na_delta_longitude m) 21,
      fw_i ''delta height'' (na_delta_height m) 23]"

definition auxiliary_encode_with_policy ::
  "rtcm_policy \<Rightarrow> network_auxiliary_station \<Rightarrow> rtcm_encode_error + u8 list \<times> rtcm_departure list" where
  "auxiliary_encode_with_policy pol m =
     ebind (w_all (auxiliary_fields m) (fw_new 1014)) (\<lambda>w.
     close_body w (na_trailing_bits m) pol)"

lemma auxiliary_sync: "sync auxiliary_read (auxiliary_fields m) (m\<lparr>na_trailing_bits := []\<rparr>)"
  unfolding auxiliary_read_def auxiliary_fields_def
  by (cases m) (auto intro!: sync_intros)

lemma auxiliary_consumed: "deco auxiliary_read (\<lambda>m bs.
    na_trailing_bits m = [] \<and> writes (auxiliary_fields m) bs
      \<and> (\<exists>cs. bs = to_bits 12 (ucast (1014 :: u16)) @ cs))"
  unfolding auxiliary_read_def
  by (intro deco_intros) (auto simp: auxiliary_fields_def w_exec)

interpretation auxiliary: plain_codec auxiliary_read "\<lambda>_. 1014" "\<lambda>_. Inr ()" auxiliary_fields
   na_trailing_bits "\<lambda>bits m. m\<lparr>na_trailing_bits := bits\<rparr>" auxiliary_encode_with_policy
proof unfold_locales
qed (rule deco_mono [OF auxiliary_consumed] auxiliary_sync
  | simp add: auxiliary_encode_with_policy_def auxiliary_fields_def)+

section \<open>Correction differences, 1015 to 1017 and 1037 to 1039\<close>

record difference_layout =
  dl_glonass :: bool
  dl_geometric :: bool
  dl_ionospheric :: bool

definition layout_of :: "u16 \<Rightarrow> difference_layout option" where
  "layout_of message_number =
     map_option (\<lambda>(glonass, index).
       \<lparr>dl_glonass = glonass, dl_geometric = index \<ge> 1, dl_ionospheric = index \<noteq> 1\<rparr>)
       (if 1015 \<le> message_number \<and> message_number \<le> 1017 then Some (False, message_number - 1015)
        else if 1037 \<le> message_number \<and> message_number \<le> 1039
        then Some (True, message_number - 1037)
        else None)"

record network_correction_difference =
  cd_satellite_id :: u8
  cd_ambiguity_status :: u8
  cd_non_sync_count :: u8
  cd_geometric :: "int option"
  cd_iod :: "u8 option"
  cd_ionospheric :: "int option"

record network_correction_differences =
  nc_message_number :: u16
  nc_network_id :: u8
  nc_subnetwork_id :: u8
  nc_epoch_time :: u32
  nc_multiple_message :: bool
  nc_master_station_id :: u16
  nc_auxiliary_station_id :: u16
  nc_satellite_count :: u8
  nc_satellites :: "network_correction_difference list"
  nc_trailing_bits :: "bool list"

definition differences_header :: "network_correction_differences rd" where
  "differences_header =
     rbind (rd_as 12) (\<lambda>message_number :: u16.
     case layout_of message_number of
       None \<Rightarrow> parse_error (''message '' @ dec_u message_number @
         '' is not a correction-difference message 1015-1017/1037-1039'')
     | Some layout \<Rightarrow>
     rbind (rd_as 8) (\<lambda>network_id.
     rbind (rd_as 4) (\<lambda>subnetwork_id.
     rbind (rd_as (if dl_glonass layout then 20 else 23)) (\<lambda>epoch_time.
     rbind rd_flag (\<lambda>multiple_message.
     rbind (rd_as 12) (\<lambda>master_station_id.
     rbind (rd_as 12) (\<lambda>auxiliary_station_id.
     rbind (rd_as 4) (\<lambda>satellite_count.
     rreturn \<lparr>nc_message_number = message_number,
              nc_network_id = network_id,
              nc_subnetwork_id = subnetwork_id,
              nc_epoch_time = epoch_time,
              nc_multiple_message = multiple_message,
              nc_master_station_id = master_station_id,
              nc_auxiliary_station_id = auxiliary_station_id,
              nc_satellite_count = satellite_count,
              nc_satellites = [],
              nc_trailing_bits = []\<rparr>))))))))"

definition difference_read :: "difference_layout \<Rightarrow> network_correction_difference rd" where
  "difference_read layout =
     rbind (rd_as 6) (\<lambda>satellite_id.
     rbind (rd_as 2) (\<lambda>ambiguity_status.
     rbind (rd_as 3) (\<lambda>non_sync_count.
     rbind (rd_opt (dl_geometric layout) (rd_i32 17)) (\<lambda>geometric.
     rbind (rd_opt (dl_geometric layout) (rd_as 8)) (\<lambda>iod.
     rbind (rd_opt (dl_ionospheric layout) (rd_i32 17)) (\<lambda>ionospheric.
     rreturn \<lparr>cd_satellite_id = satellite_id,
              cd_ambiguity_status = ambiguity_status,
              cd_non_sync_count = non_sync_count,
              cd_geometric = geometric,
              cd_iod = iod,
              cd_ionospheric = ionospheric\<rparr>))))))"

text \<open>The header has found a layout for its message number, which the records are read with.\<close>

definition layout_in :: "network_correction_differences \<Rightarrow> difference_layout" where
  "layout_in m = the (layout_of (nc_message_number m))"

definition differences_decode_inner ::
  "u8 list \<Rightarrow> decode_context
     \<Rightarrow> decode_error + network_correction_differences \<times> decode_context" where
  "differences_decode_inner body ctx =
     ebind (differences_header (br_new body)) (\<lambda>(m, r).
     ebind (read_counted r ctx (nc_message_number m) (unat (nc_satellite_count m))
              (difference_read (layout_in m)))
       (\<lambda>((satellites, trailing_bits), ctx').
     Inr (m\<lparr>nc_satellites := satellites, nc_trailing_bits := trailing_bits\<rparr>, ctx')))"

fun check_difference ::
  "u16 \<Rightarrow> u8 \<Rightarrow> (string \<times> bool \<times> bool) list \<Rightarrow> rtcm_encode_error + unit" where
  "check_difference number satellite [] = Inr ()"
| "check_difference number satellite ((what, present, carried) # rest) =
     (if present \<noteq> carried
      then Inl (SatelliteFieldPresence number (RkNetwork ''network correction-difference message'')
                  satellite what carried)
      else check_difference number satellite rest)"

fun check_differences ::
  "u16 \<Rightarrow> difference_layout \<Rightarrow> network_correction_difference list \<Rightarrow> rtcm_encode_error + unit" where
  "check_differences number layout [] = Inr ()"
| "check_differences number layout (s # rest) =
     ebind (check_difference number (cd_satellite_id s)
       [(''geometric difference'', cd_geometric s \<noteq> None, dl_geometric layout),
        (''IOD'', cd_iod s \<noteq> None, dl_geometric layout),
        (''ionospheric difference'', cd_ionospheric s \<noteq> None, dl_ionospheric layout)])
     (\<lambda>_. check_differences number layout rest)"

definition differences_check :: "network_correction_differences \<Rightarrow> rtcm_encode_error + unit" where
  "differences_check m =
     (let number = nc_message_number m
      in case layout_of number of
           None \<Rightarrow> Inl (MessageNumber number
             (RkNetwork ''network correction-difference message 1015-1017/1037-1039''))
         | Some layout \<Rightarrow> check_differences number layout (nc_satellites m))"

definition differences_hfields :: "network_correction_differences \<Rightarrow> wr list" where
  "differences_hfields m =
     [w_u ''message number'' (nc_message_number m) 12,
      w_u ''network ID'' (nc_network_id m) 8,
      w_u ''subnetwork ID'' (nc_subnetwork_id m) 4,
      w_u ''epoch time'' (nc_epoch_time m) (if dl_glonass (layout_in m) then 20 else 23),
      w_flag (nc_multiple_message m),
      w_u ''master station ID'' (nc_master_station_id m) 12,
      w_u ''auxiliary station ID'' (nc_auxiliary_station_id m) 12,
      w_u ''satellite count'' (nc_satellite_count m) 4]"

definition sat_field :: "u8 \<Rightarrow> string \<Rightarrow> string" where
  "sat_field sat what = ''satellite '' @ dec_u sat @ what"

definition difference_fields :: "nat \<Rightarrow> network_correction_difference \<Rightarrow> wr list" where
  "difference_fields index s =
     (let sat = cd_satellite_id s
      in [w_u ''satellite ID'' sat 6,
          w_u (sat_field sat '' ambiguity status'') (cd_ambiguity_status s) 2,
          w_u (sat_field sat '' non-sync count'') (cd_non_sync_count s) 3] @
         (case (cd_geometric s, cd_iod s) of
            (Some geometric, Some iod) \<Rightarrow>
              [fw_i (sat_field sat '' geometric difference'') geometric 17,
               w_u (sat_field sat '' IOD'') iod 8]
          | _ \<Rightarrow> []) @
         w_opt (\<lambda>ionospheric. fw_i (sat_field sat '' ionospheric difference'') ionospheric 17)
           (cd_ionospheric s))"

definition differences_encode_with_policy ::
  "rtcm_policy \<Rightarrow> network_correction_differences
     \<Rightarrow> rtcm_encode_error + u8 list \<times> rtcm_departure list" where
  "differences_encode_with_policy pol m =
     ebind (differences_check m) (\<lambda>_.
     ebind (check_count (nc_message_number m) (unat (nc_satellite_count m))
              (length (nc_satellites m)) pol) (\<lambda>(short, departures).
     ebind (w_all (differences_hfields m @ w_records difference_fields 0 (nc_satellites m))
              (fw_new (nc_message_number m))) (\<lambda>w.
     ebind (write_tail w short (nc_trailing_bits m) pol) (\<lambda>(w', after).
     Inr (fw_into_bytes w', departures @ after)))))"

definition difference_ok :: "difference_layout \<Rightarrow> network_correction_difference \<Rightarrow> bool" where
  "difference_ok layout s \<longleftrightarrow>
     (cd_geometric s \<noteq> None) = dl_geometric layout \<and> (cd_iod s \<noteq> None) = dl_geometric layout
     \<and> (cd_ionospheric s \<noteq> None) = dl_ionospheric layout"

lemma check_differences_ok:
  "check_differences number layout ss = Inr () \<longleftrightarrow> (\<forall>s\<in>set ss. difference_ok layout s)"
  by (induction ss) (auto simp: difference_ok_def)

lemma differences_check_ok:
  "differences_check m = Inr () \<longleftrightarrow>
     layout_of (nc_message_number m) = Some (layout_in m)
       \<and> (\<forall>s\<in>set (nc_satellites m). difference_ok (layout_in m) s)"
  by (auto simp: differences_check_def check_differences_ok layout_in_def Let_def split: option.splits)

lemma difference_sync:
  "difference_ok layout x \<Longrightarrow> sync (difference_read layout) (difference_fields i x) x"
  unfolding difference_read_def difference_fields_def difference_ok_def rbind_opt Let_def
  by (cases x) (auto intro!: sync_intros split: option.splits)

lemma difference_consumed:
  "deco (difference_read layout)
     (\<lambda>x bs. difference_ok layout x \<and> (\<forall>i. writes (difference_fields i x) bs))"
  unfolding difference_read_def rbind_opt
  by (intro deco_intros) (auto simp: difference_fields_def difference_ok_def w_exec)

lemma differences_header_sync:
  "differences_check m = Inr () \<Longrightarrow>
     sync differences_header (differences_hfields m)
       (m\<lparr>nc_satellites := [], nc_trailing_bits := []\<rparr>)"
  unfolding differences_header_def differences_hfields_def differences_check_ok
  by (cases m) (auto intro!: sync_intros)

lemma differences_header_consumed:
  "deco differences_header (\<lambda>h bs. layout_of (nc_message_number h) = Some (layout_in h)
      \<and> writes (differences_hfields h) bs \<and> fits_u 12 (nc_message_number h)
      \<and> (\<exists>cs. bs = to_bits 12 (ucast (nc_message_number h)) @ cs))"
  unfolding differences_header_def
  by (intro deco_intros) (auto intro!: deco_intros simp: differences_hfields_def layout_in_def w_exec split: option.splits)

interpretation differences: counted_codec differences_header
  "\<lambda>m. difference_read (layout_in m)" nc_message_number
  "\<lambda>m. unat (nc_satellite_count m)" nc_satellites nc_trailing_bits
  "\<lambda>xs bits m. m\<lparr>nc_satellites := xs, nc_trailing_bits := bits\<rparr>" differences_check
  "''header record''" differences_hfields "\<lambda>_. difference_fields"
  "\<lambda>m. layout_of (nc_message_number m) = Some (layout_in m)" "\<lambda>m. difference_ok (layout_in m)"
  differences_decode_inner differences_encode_with_policy
proof unfold_locales
  show "sync (difference_read (layout_in m)) (difference_fields i x) x"
    if "differences_check m = Inr ()" "x \<in> set (nc_satellites m)" for m i x
    using that by (auto simp: differences_check_ok intro: difference_sync)
qed (rule differences_header_consumed difference_consumed | erule differences_header_sync
  | simp add: differences_decode_inner_def differences_encode_with_policy_def check_count_def differences_hfields_def
      layout_in_def differences_check_ok)+

section \<open>Network residuals, 1030 and 1031\<close>

record network_residual =
  rs_satellite_id :: u8
  rs_s_oc :: u8
  rs_s_od :: u16
  rs_s_oh :: u8
  rs_s_lc :: u16
  rs_s_ld :: u16

record network_residuals =
  nr_message_number :: u16
  nr_epoch_time :: u32
  nr_reference_station_id :: u16
  nr_reference_station_count :: u8
  nr_satellite_count :: u8
  nr_satellites :: "network_residual list"
  nr_trailing_bits :: "bool list"

definition residuals_epoch_bits :: "u16 \<Rightarrow> nat option" where
  "residuals_epoch_bits message_number =
     (if message_number = 1030 then Some 20 else if message_number = 1031 then Some 17 else None)"

definition residuals_header :: "network_residuals rd" where
  "residuals_header =
     rbind (rd_as 12) (\<lambda>message_number :: u16.
     case residuals_epoch_bits message_number of
       None \<Rightarrow> parse_error (''message '' @ dec_u message_number @
         '' is not a network RTK residual message 1030/1031'')
     | Some epoch_bits \<Rightarrow>
     rbind (rd_as epoch_bits) (\<lambda>epoch_time.
     rbind (rd_as 12) (\<lambda>reference_station_id.
     rbind (rd_as 7) (\<lambda>reference_station_count.
     rbind (rd_as 5) (\<lambda>satellite_count.
     rreturn \<lparr>nr_message_number = message_number,
              nr_epoch_time = epoch_time,
              nr_reference_station_id = reference_station_id,
              nr_reference_station_count = reference_station_count,
              nr_satellite_count = satellite_count,
              nr_satellites = [],
              nr_trailing_bits = []\<rparr>)))))"

definition residual_read :: "network_residual rd" where
  "residual_read =
     rbind (rd_as 6) (\<lambda>satellite_id.
     rbind (rd_as 8) (\<lambda>s_oc.
     rbind (rd_as 9) (\<lambda>s_od.
     rbind (rd_as 6) (\<lambda>s_oh.
     rbind (rd_as 10) (\<lambda>s_lc.
     rbind (rd_as 10) (\<lambda>s_ld.
     rreturn \<lparr>rs_satellite_id = satellite_id,
              rs_s_oc = s_oc,
              rs_s_od = s_od,
              rs_s_oh = s_oh,
              rs_s_lc = s_lc,
              rs_s_ld = s_ld\<rparr>))))))"

definition residuals_decode_inner ::
  "u8 list \<Rightarrow> decode_context \<Rightarrow> decode_error + network_residuals \<times> decode_context" where
  "residuals_decode_inner body ctx =
     ebind (residuals_header (br_new body)) (\<lambda>(m, r).
     ebind (read_counted r ctx (nr_message_number m) (unat (nr_satellite_count m)) residual_read)
       (\<lambda>((satellites, trailing_bits), ctx').
     Inr (m\<lparr>nr_satellites := satellites, nr_trailing_bits := trailing_bits\<rparr>, ctx')))"

definition residuals_check :: "network_residuals \<Rightarrow> rtcm_encode_error + nat" where
  "residuals_check m =
     (case residuals_epoch_bits (nr_message_number m) of
        None \<Rightarrow> Inl (MessageNumber (nr_message_number m)
          (RkNetwork ''network RTK residual message 1030/1031''))
      | Some epoch_bits \<Rightarrow> Inr epoch_bits)"

definition residuals_hfields :: "nat \<Rightarrow> network_residuals \<Rightarrow> wr list" where
  "residuals_hfields epoch_bits m =
     [w_u ''message number'' (nr_message_number m) 12,
      w_u ''epoch time'' (nr_epoch_time m) epoch_bits,
      w_u ''reference station ID'' (nr_reference_station_id m) 12,
      w_u ''reference station count'' (nr_reference_station_count m) 7,
      w_u ''satellite count'' (nr_satellite_count m) 5]"

definition residual_fields :: "nat \<Rightarrow> network_residual \<Rightarrow> wr list" where
  "residual_fields index s =
     (let sat = rs_satellite_id s
      in [w_u ''satellite ID'' sat 6,
          w_u (sat_field sat '' s_oc'') (rs_s_oc s) 8,
          w_u (sat_field sat '' s_od'') (rs_s_od s) 9,
          w_u (sat_field sat '' s_oh'') (rs_s_oh s) 6,
          w_u (sat_field sat '' s_lc'') (rs_s_lc s) 10,
          w_u (sat_field sat '' s_ld'') (rs_s_ld s) 10])"

definition residuals_encode_with_policy ::
  "rtcm_policy \<Rightarrow> network_residuals \<Rightarrow> rtcm_encode_error + u8 list \<times> rtcm_departure list" where
  "residuals_encode_with_policy pol m =
     ebind (residuals_check m) (\<lambda>epoch_bits.
     ebind (check_count (nr_message_number m) (unat (nr_satellite_count m))
              (length (nr_satellites m)) pol) (\<lambda>(short, departures).
     ebind (w_all (residuals_hfields epoch_bits m @ w_records residual_fields 0 (nr_satellites m))
              (fw_new (nr_message_number m))) (\<lambda>w.
     ebind (write_tail w short (nr_trailing_bits m) pol) (\<lambda>(w', after).
     Inr (fw_into_bytes w', departures @ after)))))"

lemma residuals_epoch_bits_cases:
  "residuals_epoch_bits n = Some e \<Longrightarrow> (n = 1030 \<and> e = 20) \<or> (n = 1031 \<and> e = 17)"
  by (auto simp: residuals_epoch_bits_def split: if_splits)

lemma residuals_header_sync:
  assumes "residuals_epoch_bits (nr_message_number m) = Some e"
  shows "sync residuals_header (residuals_hfields e m) (m\<lparr>nr_satellites := [], nr_trailing_bits := []\<rparr>)"
  using assms residuals_epoch_bits_cases [OF assms]
  unfolding residuals_header_def residuals_hfields_def by (cases m) (auto intro!: sync_intros)

lemma residuals_header_consumed:
  "deco residuals_header (\<lambda>h bs. \<exists>e. residuals_epoch_bits (nr_message_number h) = Some e
      \<and> writes (residuals_hfields e h) bs \<and> fits_u 12 (nr_message_number h)
      \<and> (\<exists>cs. bs = to_bits 12 (ucast (nr_message_number h)) @ cs))"
  unfolding residuals_header_def
  by (intro deco_intros)
    (auto intro!: deco_intros dest!: residuals_epoch_bits_cases simp: residuals_hfields_def
      residuals_epoch_bits_def w_exec split: option.splits)

interpretation residuals: counted_codec residuals_header
  "\<lambda>_. residual_read" nr_message_number
  "\<lambda>m. unat (nr_satellite_count m)" nr_satellites nr_trailing_bits
  "\<lambda>xs bits m. m\<lparr>nr_satellites := xs, nr_trailing_bits := bits\<rparr>"
  "\<lambda>m. ebind (residuals_check m) (\<lambda>_. Inr ())" "''header record''"
  "\<lambda>m. residuals_hfields (the (residuals_epoch_bits (nr_message_number m))) m" "\<lambda>_. residual_fields"
  "\<lambda>m. residuals_epoch_bits (nr_message_number m) \<noteq> None" "\<lambda>_ _. True"
  residuals_decode_inner residuals_encode_with_policy
proof unfold_locales
  show "sync residuals_header (residuals_hfields (the (residuals_epoch_bits (nr_message_number m))) m)
      (m\<lparr>nr_satellites := [], nr_trailing_bits := []\<rparr>)"
    if "ebind (residuals_check m) (\<lambda>_. Inr ()) = Inr ()" for m
    using that by (auto simp: residuals_check_def intro: residuals_header_sync split: option.splits)
  show "sync residual_read (residual_fields i x) x" for i x
    unfolding residual_read_def residual_fields_def Let_def by (cases x) (auto intro!: sync_intros)
  show "deco residual_read (\<lambda>x bs. True \<and> (\<forall>i. writes (residual_fields i x) bs))"
    unfolding residual_read_def by (intro deco_intros) (auto simp: residual_fields_def w_exec)
qed (rule deco_mono [OF residuals_header_consumed]
  | auto simp: residuals_decode_inner_def residuals_encode_with_policy_def check_count_def residuals_hfields_def
      residuals_check_def split: option.splits)+

section \<open>Physical reference station position, 1032\<close>

record physical_reference_station =
  pr_non_physical_station_id :: u16
  pr_physical_station_id :: u16
  pr_itrf_realization_year :: u8
  pr_ecef_x :: int
  pr_ecef_y :: int
  pr_ecef_z :: int
  pr_trailing_bits :: "bool list"

definition physical_read :: "physical_reference_station rd" where
  "physical_read =
     rbind (rd_as 12) (\<lambda>message_number :: u16.
     if message_number \<noteq> 1032
     then parse_error (''message '' @ dec_u message_number @
                       '' is not a physical reference station position 1032'')
     else
     rbind (rd_as 12) (\<lambda>non_physical_station_id.
     rbind (rd_as 12) (\<lambda>physical_station_id.
     rbind (rd_as 6) (\<lambda>itrf_realization_year.
     rbind (rd_i 38) (\<lambda>ecef_x.
     rbind (rd_i 38) (\<lambda>ecef_y.
     rbind (rd_i 38) (\<lambda>ecef_z.
     rreturn \<lparr>pr_non_physical_station_id = non_physical_station_id,
              pr_physical_station_id = physical_station_id,
              pr_itrf_realization_year = itrf_realization_year,
              pr_ecef_x = ecef_x,
              pr_ecef_y = ecef_y,
              pr_ecef_z = ecef_z,
              pr_trailing_bits = []\<rparr>)))))))"

definition physical_fields :: "physical_reference_station \<Rightarrow> wr list" where
  "physical_fields m =
     [w_u ''message number'' (1032 :: u16) 12,
      w_u ''non-physical station ID'' (pr_non_physical_station_id m) 12,
      w_u ''physical station ID'' (pr_physical_station_id m) 12,
      w_u ''ITRF realization year'' (pr_itrf_realization_year m) 6,
      fw_i ''ECEF X'' (pr_ecef_x m) 38,
      fw_i ''ECEF Y'' (pr_ecef_y m) 38,
      fw_i ''ECEF Z'' (pr_ecef_z m) 38]"

definition physical_encode_with_policy ::
  "rtcm_policy \<Rightarrow> physical_reference_station \<Rightarrow> rtcm_encode_error + u8 list \<times> rtcm_departure list" where
  "physical_encode_with_policy pol m =
     ebind (w_all (physical_fields m) (fw_new 1032)) (\<lambda>w.
     close_body w (pr_trailing_bits m) pol)"

lemma physical_sync: "sync physical_read (physical_fields m) (m\<lparr>pr_trailing_bits := []\<rparr>)"
  unfolding physical_read_def physical_fields_def
  by (cases m) (auto intro!: sync_intros)

lemma physical_consumed: "deco physical_read (\<lambda>m bs.
    pr_trailing_bits m = [] \<and> writes (physical_fields m) bs
      \<and> (\<exists>cs. bs = to_bits 12 (ucast (1032 :: u16)) @ cs))"
  unfolding physical_read_def
  by (intro deco_intros) (auto simp: physical_fields_def w_exec)

interpretation physical: plain_codec physical_read "\<lambda>_. 1032" "\<lambda>_. Inr ()" physical_fields
   pr_trailing_bits "\<lambda>bits m. m\<lparr>pr_trailing_bits := bits\<rparr>" physical_encode_with_policy
proof unfold_locales
qed (rule deco_mono [OF physical_consumed] physical_sync
  | simp add: physical_encode_with_policy_def physical_fields_def)+

section \<open>FKP gradients, 1034 and 1035\<close>

record fkp_gradient =
  fg_satellite_id :: u8
  fg_iod :: u8
  fg_geometric_north :: int
  fg_geometric_east :: int
  fg_ionospheric_north :: int
  fg_ionospheric_east :: int

record fkp_gradients =
  fk_message_number :: u16
  fk_reference_station_id :: u16
  fk_epoch_time :: u32
  fk_satellite_count :: u8
  fk_satellites :: "fkp_gradient list"
  fk_trailing_bits :: "bool list"

definition fkp_epoch_bits :: "u16 \<Rightarrow> nat option" where
  "fkp_epoch_bits message_number =
     (if message_number = 1034 then Some 20 else if message_number = 1035 then Some 17 else None)"

definition fkp_header :: "fkp_gradients rd" where
  "fkp_header =
     rbind (rd_as 12) (\<lambda>message_number :: u16.
     case fkp_epoch_bits message_number of
       None \<Rightarrow> parse_error (''message '' @ dec_u message_number @
         '' is not an FKP gradient message 1034/1035'')
     | Some epoch_bits \<Rightarrow>
     rbind (rd_as 12) (\<lambda>reference_station_id.
     rbind (rd_as epoch_bits) (\<lambda>epoch_time.
     rbind (rd_as 5) (\<lambda>satellite_count.
     rreturn \<lparr>fk_message_number = message_number,
              fk_reference_station_id = reference_station_id,
              fk_epoch_time = epoch_time,
              fk_satellite_count = satellite_count,
              fk_satellites = [],
              fk_trailing_bits = []\<rparr>))))"

definition gradient_read :: "fkp_gradient rd" where
  "gradient_read =
     rbind (rd_as 6) (\<lambda>satellite_id.
     rbind (rd_as 8) (\<lambda>iod.
     rbind (rd_i16 12) (\<lambda>geometric_north.
     rbind (rd_i16 12) (\<lambda>geometric_east.
     rbind (rd_i16 14) (\<lambda>ionospheric_north.
     rbind (rd_i16 14) (\<lambda>ionospheric_east.
     rreturn \<lparr>fg_satellite_id = satellite_id,
              fg_iod = iod,
              fg_geometric_north = geometric_north,
              fg_geometric_east = geometric_east,
              fg_ionospheric_north = ionospheric_north,
              fg_ionospheric_east = ionospheric_east\<rparr>))))))"

definition fkp_decode_inner ::
  "u8 list \<Rightarrow> decode_context \<Rightarrow> decode_error + fkp_gradients \<times> decode_context" where
  "fkp_decode_inner body ctx =
     ebind (fkp_header (br_new body)) (\<lambda>(m, r).
     ebind (read_counted r ctx (fk_message_number m) (unat (fk_satellite_count m)) gradient_read)
       (\<lambda>((satellites, trailing_bits), ctx').
     Inr (m\<lparr>fk_satellites := satellites, fk_trailing_bits := trailing_bits\<rparr>, ctx')))"

definition fkp_check :: "fkp_gradients \<Rightarrow> rtcm_encode_error + nat" where
  "fkp_check m =
     (case fkp_epoch_bits (fk_message_number m) of
        None \<Rightarrow> Inl (MessageNumber (fk_message_number m)
          (RkNetwork ''FKP gradient message 1034/1035''))
      | Some epoch_bits \<Rightarrow> Inr epoch_bits)"

definition fkp_hfields :: "nat \<Rightarrow> fkp_gradients \<Rightarrow> wr list" where
  "fkp_hfields epoch_bits m =
     [w_u ''message number'' (fk_message_number m) 12,
      w_u ''reference station ID'' (fk_reference_station_id m) 12,
      w_u ''epoch time'' (fk_epoch_time m) epoch_bits,
      w_u ''satellite count'' (fk_satellite_count m) 5]"

definition gradient_fields :: "nat \<Rightarrow> fkp_gradient \<Rightarrow> wr list" where
  "gradient_fields index s =
     (let sat = fg_satellite_id s
      in [w_u ''satellite ID'' sat 6,
          w_u (sat_field sat '' IOD'') (fg_iod s) 8,
          fw_i (sat_field sat '' geometric gradient north'') (fg_geometric_north s) 12,
          fw_i (sat_field sat '' geometric gradient east'') (fg_geometric_east s) 12,
          fw_i (sat_field sat '' ionospheric gradient north'') (fg_ionospheric_north s) 14,
          fw_i (sat_field sat '' ionospheric gradient east'') (fg_ionospheric_east s) 14])"

definition fkp_encode_with_policy ::
  "rtcm_policy \<Rightarrow> fkp_gradients \<Rightarrow> rtcm_encode_error + u8 list \<times> rtcm_departure list" where
  "fkp_encode_with_policy pol m =
     ebind (fkp_check m) (\<lambda>epoch_bits.
     ebind (check_count (fk_message_number m) (unat (fk_satellite_count m))
              (length (fk_satellites m)) pol) (\<lambda>(short, departures).
     ebind (w_all (fkp_hfields epoch_bits m @ w_records gradient_fields 0 (fk_satellites m))
              (fw_new (fk_message_number m))) (\<lambda>w.
     ebind (write_tail w short (fk_trailing_bits m) pol) (\<lambda>(w', after).
     Inr (fw_into_bytes w', departures @ after)))))"

lemma fkp_epoch_bits_cases:
  "fkp_epoch_bits n = Some e \<Longrightarrow> (n = 1034 \<and> e = 20) \<or> (n = 1035 \<and> e = 17)"
  by (auto simp: fkp_epoch_bits_def split: if_splits)

lemma fkp_header_sync:
  assumes "fkp_epoch_bits (fk_message_number m) = Some e"
  shows "sync fkp_header (fkp_hfields e m) (m\<lparr>fk_satellites := [], fk_trailing_bits := []\<rparr>)"
  using assms fkp_epoch_bits_cases [OF assms]
  unfolding fkp_header_def fkp_hfields_def by (cases m) (auto intro!: sync_intros)

lemma fkp_header_consumed:
  "deco fkp_header (\<lambda>h bs. \<exists>e. fkp_epoch_bits (fk_message_number h) = Some e
      \<and> writes (fkp_hfields e h) bs \<and> fits_u 12 (fk_message_number h)
      \<and> (\<exists>cs. bs = to_bits 12 (ucast (fk_message_number h)) @ cs))"
  unfolding fkp_header_def
  by (intro deco_intros)
    (auto intro!: deco_intros dest!: fkp_epoch_bits_cases simp: fkp_hfields_def
      fkp_epoch_bits_def w_exec split: option.splits)

interpretation fkp: counted_codec fkp_header
  "\<lambda>_. gradient_read" fk_message_number
  "\<lambda>m. unat (fk_satellite_count m)" fk_satellites fk_trailing_bits
  "\<lambda>xs bits m. m\<lparr>fk_satellites := xs, fk_trailing_bits := bits\<rparr>"
  "\<lambda>m. ebind (fkp_check m) (\<lambda>_. Inr ())" "''header record''"
  "\<lambda>m. fkp_hfields (the (fkp_epoch_bits (fk_message_number m))) m" "\<lambda>_. gradient_fields"
  "\<lambda>m. fkp_epoch_bits (fk_message_number m) \<noteq> None" "\<lambda>_ _. True"
  fkp_decode_inner fkp_encode_with_policy
proof unfold_locales
  show "sync fkp_header (fkp_hfields (the (fkp_epoch_bits (fk_message_number m))) m)
      (m\<lparr>fk_satellites := [], fk_trailing_bits := []\<rparr>)"
    if "ebind (fkp_check m) (\<lambda>_. Inr ()) = Inr ()" for m
    using that by (auto simp: fkp_check_def intro: fkp_header_sync split: option.splits)
  show "sync gradient_read (gradient_fields i x) x" for i x
    unfolding gradient_read_def gradient_fields_def Let_def by (cases x) (auto intro!: sync_intros)
  show "deco gradient_read (\<lambda>x bs. True \<and> (\<forall>i. writes (gradient_fields i x) bs))"
    unfolding gradient_read_def by (intro deco_intros) (auto simp: gradient_fields_def w_exec)
qed (rule deco_mono [OF fkp_header_consumed]
  | auto simp: fkp_decode_inner_def fkp_encode_with_policy_def check_count_def fkp_hfields_def
      fkp_check_def split: option.splits)+

end
