(* ===== verification/Rtcm_Legacy.thy ===== *)
theory Rtcm_Legacy
  imports Rtcm_Network
begin

text \<open>
  The legacy GPS (1001 to 1004) and GLONASS (1009 to 1012) observation messages
  of \<^verbatim>\<open>rtcm/legacy.rs\<close>: the layout a message number names, one record per
  satellite with the parts that layout carries, and the interpretation of the
  counted-message contract.
\<close>

section \<open>Layouts\<close>

record legacy_layout =
  ly_system :: gnss_system
  ly_extended :: bool
  ly_l2 :: bool

definition legacy_layout_of :: "u16 \<Rightarrow> legacy_layout option" where
  "legacy_layout_of message_number =
     map_option (\<lambda>(system, index).
       \<lparr>ly_system = system, ly_extended = index mod 2 = 1, ly_l2 = index \<ge> 2\<rparr>)
       (if 1001 \<le> message_number \<and> message_number \<le> 1004 then Some (Gps, message_number - 1001)
        else if 1009 \<le> message_number \<and> message_number \<le> 1012
        then Some (Glonass, message_number - 1009)
        else None)"

definition ly_glonass :: "legacy_layout \<Rightarrow> bool" where
  "ly_glonass layout \<longleftrightarrow> ly_system layout = Glonass"

definition epoch_bits :: "legacy_layout \<Rightarrow> nat" where
  "epoch_bits layout = (if ly_glonass layout then 27 else 30)"

definition pseudorange_bits :: "legacy_layout \<Rightarrow> nat" where
  "pseudorange_bits layout = (if ly_glonass layout then 25 else 24)"

definition ambiguity_bits :: "legacy_layout \<Rightarrow> nat" where
  "ambiguity_bits layout = (if ly_glonass layout then 7 else 8)"

definition is_legacy_observation :: "u16 \<Rightarrow> bool" where
  "is_legacy_observation message_number \<longleftrightarrow> legacy_layout_of message_number \<noteq> None"

section \<open>Messages\<close>

record legacy_l1 =
  l1_code_indicator :: bool
  l1_pseudorange :: u32
  l1_phase_range_minus_pseudorange :: int
  l1_lock_time_indicator :: u8
  l1_pseudorange_modulus_ambiguity :: "u8 option"
  l1_cnr :: "u8 option"

record legacy_l2 =
  l2_code_indicator :: u8
  l2_pseudorange_difference :: int
  l2_phase_range_minus_l1_pseudorange :: int
  l2_lock_time_indicator :: u8
  l2_cnr :: "u8 option"

record legacy_satellite =
  ls_satellite_id :: u8
  ls_frequency_channel :: "u8 option"
  ls_l1 :: legacy_l1
  ls_l2 :: "legacy_l2 option"

record legacy_observations =
  lo_message_number :: u16
  lo_reference_station_id :: u16
  lo_epoch_time :: u32
  lo_synchronous_gnss :: bool
  lo_satellite_count :: u8
  lo_divergence_free_smoothing :: bool
  lo_smoothing_interval :: u8
  lo_satellites :: "legacy_satellite list"
  lo_trailing_bits :: "bool list"

definition legacy_system :: "legacy_observations \<Rightarrow> gnss_system option" where
  "legacy_system m = map_option ly_system (legacy_layout_of (lo_message_number m))"

definition read_l2 :: "legacy_layout \<Rightarrow> legacy_l2 rd" where
  "read_l2 layout =
     rbind (rd_as 2) (\<lambda>code_indicator.
     rbind (rd_i16 14) (\<lambda>pseudorange_difference.
     rbind (rd_i32 20) (\<lambda>phase_range_minus_l1_pseudorange.
     rbind (rd_as 7) (\<lambda>lock_time_indicator.
     rbind (rd_opt (ly_extended layout) (rd_as 8)) (\<lambda>cnr.
     rreturn \<lparr>l2_code_indicator = code_indicator,
              l2_pseudorange_difference = pseudorange_difference,
              l2_phase_range_minus_l1_pseudorange = phase_range_minus_l1_pseudorange,
              l2_lock_time_indicator = lock_time_indicator,
              l2_cnr = cnr\<rparr>)))))"

definition read_satellite :: "legacy_layout \<Rightarrow> legacy_satellite rd" where
  "read_satellite layout =
     rbind (rd_as 6) (\<lambda>satellite_id.
     rbind rd_flag (\<lambda>code_indicator.
     rbind (rd_opt (ly_glonass layout) (rd_as 5)) (\<lambda>frequency_channel.
     rbind (rd_as (pseudorange_bits layout)) (\<lambda>pseudorange.
     rbind (rd_i32 20) (\<lambda>phase_range_minus_pseudorange.
     rbind (rd_as 7) (\<lambda>lock_time_indicator.
     rbind (rd_opt (ly_extended layout) (rd_as (ambiguity_bits layout))) (\<lambda>ambiguity.
     rbind (rd_opt (ly_extended layout) (rd_as 8)) (\<lambda>cnr.
     rbind (rd_opt (ly_l2 layout) (read_l2 layout)) (\<lambda>l2.
     rreturn \<lparr>ls_satellite_id = satellite_id,
              ls_frequency_channel = frequency_channel,
              ls_l1 = \<lparr>l1_code_indicator = code_indicator,
                       l1_pseudorange = pseudorange,
                       l1_phase_range_minus_pseudorange = phase_range_minus_pseudorange,
                       l1_lock_time_indicator = lock_time_indicator,
                       l1_pseudorange_modulus_ambiguity = ambiguity,
                       l1_cnr = cnr\<rparr>,
              ls_l2 = l2\<rparr>)))))))))"

definition legacy_header :: "legacy_observations rd" where
  "legacy_header =
     rbind (rd_as 12) (\<lambda>message_number :: u16.
     case legacy_layout_of message_number of
       None \<Rightarrow> parse_error (''message '' @ dec_u message_number @
         '' is not a legacy observation message 1001-1004/1009-1012'')
     | Some layout \<Rightarrow>
     rbind (rd_as 12) (\<lambda>reference_station_id.
     rbind (rd_as (epoch_bits layout)) (\<lambda>epoch_time.
     rbind rd_flag (\<lambda>synchronous_gnss.
     rbind (rd_as 5) (\<lambda>satellite_count.
     rbind rd_flag (\<lambda>divergence_free_smoothing.
     rbind (rd_as 3) (\<lambda>smoothing_interval.
     rreturn \<lparr>lo_message_number = message_number,
              lo_reference_station_id = reference_station_id,
              lo_epoch_time = epoch_time,
              lo_synchronous_gnss = synchronous_gnss,
              lo_satellite_count = satellite_count,
              lo_divergence_free_smoothing = divergence_free_smoothing,
              lo_smoothing_interval = smoothing_interval,
              lo_satellites = [],
              lo_trailing_bits = []\<rparr>)))))))"

text \<open>The layout the header has found for its message number.\<close>

definition legacy_layout_in :: "legacy_observations \<Rightarrow> legacy_layout" where
  "legacy_layout_in m = the (legacy_layout_of (lo_message_number m))"

text \<open>The record loop and the tail of \<^verbatim>\<open>decode_inner\<close> are those of \<^verbatim>\<open>read_counted\<close>, written out.\<close>

definition legacy_decode_inner ::
  "u8 list \<Rightarrow> decode_context \<Rightarrow> decode_error + legacy_observations \<times> decode_context" where
  "legacy_decode_inner body ctx =
     ebind (legacy_header (br_new body)) (\<lambda>(m, r).
     ebind (read_counted r ctx (lo_message_number m) (unat (lo_satellite_count m))
              (read_satellite (legacy_layout_in m)))
       (\<lambda>((satellites, trailing_bits), ctx').
     Inr (m\<lparr>lo_satellites := satellites, lo_trailing_bits := trailing_bits\<rparr>, ctx')))"

definition check_part ::
  "u16 \<Rightarrow> u8 \<Rightarrow> string \<Rightarrow> bool \<Rightarrow> bool \<Rightarrow> rtcm_encode_error + unit" where
  "check_part number satellite field present carried =
     (if present = carried then Inr ()
      else Inl (SatelliteFieldPresence number RkLegacyObservations satellite field carried))"

fun check_parts ::
  "u16 \<Rightarrow> legacy_layout \<Rightarrow> legacy_satellite list \<Rightarrow> rtcm_encode_error + unit" where
  "check_parts number layout [] = Inr ()"
| "check_parts number layout (s # rest) =
     ebind (check_part number (ls_satellite_id s) ''GLONASS frequency channel''
              (ls_frequency_channel s \<noteq> None) (ly_glonass layout)) (\<lambda>_.
     ebind (check_part number (ls_satellite_id s) ''L1 pseudorange modulus ambiguity''
              (l1_pseudorange_modulus_ambiguity (ls_l1 s) \<noteq> None) (ly_extended layout)) (\<lambda>_.
     ebind (check_part number (ls_satellite_id s) ''L1 CNR''
              (l1_cnr (ls_l1 s) \<noteq> None) (ly_extended layout)) (\<lambda>_.
     ebind (check_part number (ls_satellite_id s) ''L2 observables''
              (ls_l2 s \<noteq> None) (ly_l2 layout)) (\<lambda>_.
     ebind (case ls_l2 s of
              None \<Rightarrow> Inr ()
            | Some l2 \<Rightarrow> check_part number (ls_satellite_id s) ''L2 CNR''
                (l2_cnr l2 \<noteq> None) (ly_extended layout)) (\<lambda>_.
     check_parts number layout rest)))))"

definition legacy_check :: "legacy_observations \<Rightarrow> rtcm_encode_error + unit" where
  "legacy_check m =
     (case legacy_layout_of (lo_message_number m) of
        None \<Rightarrow> Inl (MessageNumber (lo_message_number m) RkLegacyObservations)
      | Some layout \<Rightarrow> check_parts (lo_message_number m) layout (lo_satellites m))"

definition legacy_hfields :: "legacy_observations \<Rightarrow> wr list" where
  "legacy_hfields m =
     [w_u ''message number'' (lo_message_number m) 12,
      w_u ''reference station ID'' (lo_reference_station_id m) 12,
      w_u ''epoch time'' (lo_epoch_time m) (epoch_bits (legacy_layout_in m)),
      w_flag (lo_synchronous_gnss m),
      w_u ''satellite count'' (lo_satellite_count m) 5,
      w_flag (lo_divergence_free_smoothing m),
      w_u ''smoothing interval'' (lo_smoothing_interval m) 3]"

definition write_l2 :: "u8 \<Rightarrow> legacy_l2 \<Rightarrow> wr list" where
  "write_l2 sat l2 =
     [w_u (sat_field sat '' L2 code indicator'') (l2_code_indicator l2) 2,
      fw_i (sat_field sat '' L2-L1 pseudorange difference'') (l2_pseudorange_difference l2) 14,
      fw_i (sat_field sat '' L2 phase range minus L1 pseudorange'')
        (l2_phase_range_minus_l1_pseudorange l2) 20,
      w_u (sat_field sat '' L2 lock-time indicator'') (l2_lock_time_indicator l2) 7] @
     w_opt (\<lambda>cnr. w_u (sat_field sat '' L2 CNR'') cnr 8) (l2_cnr l2)"

definition write_satellite :: "legacy_layout \<Rightarrow> nat \<Rightarrow> legacy_satellite \<Rightarrow> wr list" where
  "write_satellite layout index s =
     (let sat = ls_satellite_id s; l1 = ls_l1 s
      in [w_u ''satellite ID'' sat 6,
          w_flag (l1_code_indicator l1)] @
         w_opt (\<lambda>channel. w_u (sat_field sat '' frequency channel'') channel 5)
           (ls_frequency_channel s) @
         [w_u (sat_field sat '' L1 pseudorange'') (l1_pseudorange l1) (pseudorange_bits layout),
          fw_i (sat_field sat '' L1 phase range minus pseudorange'')
            (l1_phase_range_minus_pseudorange l1) 20,
          w_u (sat_field sat '' L1 lock-time indicator'') (l1_lock_time_indicator l1) 7] @
         w_opt (\<lambda>ambiguity. w_u (sat_field sat '' L1 pseudorange modulus ambiguity'') ambiguity
                  (ambiguity_bits layout)) (l1_pseudorange_modulus_ambiguity l1) @
         w_opt (\<lambda>cnr. w_u (sat_field sat '' L1 CNR'') cnr 8) (l1_cnr l1) @
         (case ls_l2 s of None \<Rightarrow> [] | Some l2 \<Rightarrow> write_l2 sat l2))"

definition legacy_encode_with_policy ::
  "rtcm_policy \<Rightarrow> legacy_observations \<Rightarrow> rtcm_encode_error + u8 list \<times> rtcm_departure list" where
  "legacy_encode_with_policy pol m =
     ebind (legacy_check m) (\<lambda>_.
     ebind (check_count_of ''satellite record'' (lo_message_number m) (unat (lo_satellite_count m))
              (length (lo_satellites m)) pol) (\<lambda>(short, departures).
     ebind (w_all (legacy_hfields m @
                   w_records (write_satellite (legacy_layout_in m)) 0 (lo_satellites m))
              (fw_new (lo_message_number m))) (\<lambda>w.
     ebind (write_tail w short (lo_trailing_bits m) pol) (\<lambda>(w', after).
     Inr (fw_into_bytes w', departures @ after)))))"

section \<open>The message contract\<close>

definition legacy_satellite_ok :: "legacy_layout \<Rightarrow> legacy_satellite \<Rightarrow> bool" where
  "legacy_satellite_ok layout s \<longleftrightarrow>
     (ls_frequency_channel s \<noteq> None) = ly_glonass layout
     \<and> (l1_pseudorange_modulus_ambiguity (ls_l1 s) \<noteq> None) = ly_extended layout
     \<and> (l1_cnr (ls_l1 s) \<noteq> None) = ly_extended layout
     \<and> (ls_l2 s \<noteq> None) = ly_l2 layout
     \<and> (\<forall>l2. ls_l2 s = Some l2 \<longrightarrow> (l2_cnr l2 \<noteq> None) = ly_extended layout)"

lemma check_parts_ok:
  "check_parts number layout ss = Inr () \<longleftrightarrow> (\<forall>s\<in>set ss. legacy_satellite_ok layout s)"
proof (induction ss)
  case (Cons s ss)
  have "check_part number i f p c = Inr u \<longleftrightarrow> p = c" for i f p c u
    by (simp add: check_part_def)
  then show ?case
    using Cons by (cases "ls_l2 s") (auto simp: legacy_satellite_ok_def)
qed simp

lemma legacy_check_ok:
  "legacy_check m = Inr () \<longleftrightarrow>
     legacy_layout_of (lo_message_number m) = Some (legacy_layout_in m)
       \<and> (\<forall>s\<in>set (lo_satellites m). legacy_satellite_ok (legacy_layout_in m) s)"
  by (auto simp: legacy_check_def check_parts_ok legacy_layout_in_def split: option.splits)

lemma legacy_widths [simp]:
  "epoch_bits layout \<le> 32" "pseudorange_bits layout \<le> 32" "ambiguity_bits layout \<le> 8"
  "epoch_bits layout \<le> 64" "pseudorange_bits layout \<le> 64" "ambiguity_bits layout \<le> 64"
  by (simp_all add: epoch_bits_def pseudorange_bits_def ambiguity_bits_def)

lemma legacy_l2_sync:
  assumes "(l2_cnr l2 \<noteq> None) = ly_extended layout"
  shows "sync (read_l2 layout) (write_l2 sat l2) l2"
  using assms unfolding read_l2_def write_l2_def rbind_opt
  by (cases l2) (auto intro!: sync_intros)

lemma legacy_satellite_sync:
  assumes "legacy_satellite_ok layout x"
  shows "sync (read_satellite layout) (write_satellite layout i x) x"
proof -
  have l2: "sync (rbind (read_l2 layout) k) (write_l2 sat l2) y"
    if "(l2_cnr l2 \<noteq> None) = ly_extended layout" "sync (k l2) [] y"
    for k :: "legacy_l2 \<Rightarrow> legacy_satellite rd" and sat l2 y
    using sync_bind [OF legacy_l2_sync [OF that(1)], where bs = "[]"] that(2) by simp
  obtain sat ch l1 l2 where x: "x = \<lparr>ls_satellite_id = sat, ls_frequency_channel = ch, ls_l1 = l1, ls_l2 = l2\<rparr>"
    by (cases x) 
  show ?thesis
    using assms
    unfolding read_satellite_def write_satellite_def legacy_satellite_ok_def rbind_opt Let_def x
    by (cases l1) (auto intro!: sync_intros l2 split: option.splits)
qed

lemma legacy_l2_consumed:
  "deco (read_l2 layout) (\<lambda>x bs. (l2_cnr x \<noteq> None) = ly_extended layout
     \<and> (\<forall>sat. writes (write_l2 sat x) bs))"
  unfolding read_l2_def rbind_opt
  by (intro deco_intros) (auto simp: write_l2_def w_exec)

lemma legacy_satellite_consumed:
  "deco (read_satellite layout)
     (\<lambda>x bs. legacy_satellite_ok layout x \<and> (\<forall>i. writes (write_satellite layout i x) bs))"
  unfolding read_satellite_def rbind_opt
  by (intro deco_intros deco_bind [OF legacy_l2_consumed])
    (simp_all add: write_satellite_def legacy_satellite_ok_def w_exec Let_def)

lemma legacy_header_sync:
  "legacy_check m = Inr () \<Longrightarrow>
     sync legacy_header (legacy_hfields m) (m\<lparr>lo_satellites := [], lo_trailing_bits := []\<rparr>)"
  unfolding legacy_header_def legacy_hfields_def legacy_check_ok
  by (cases m) (auto intro!: sync_intros)

lemma legacy_header_consumed:
  "deco legacy_header (\<lambda>h bs. legacy_layout_of (lo_message_number h) = Some (legacy_layout_in h)
      \<and> writes (legacy_hfields h) bs \<and> fits_u 12 (lo_message_number h)
      \<and> (\<exists>cs. bs = to_bits 12 (ucast (lo_message_number h)) @ cs))"
  unfolding legacy_header_def
  by (intro deco_intros)
    (auto intro!: deco_intros simp: legacy_hfields_def legacy_layout_in_def w_exec
      split: option.splits)

interpretation legacy: counted_codec legacy_header
  "\<lambda>m. read_satellite (legacy_layout_in m)" lo_message_number
  "\<lambda>m. unat (lo_satellite_count m)" lo_satellites lo_trailing_bits
  "\<lambda>xs bits m. m\<lparr>lo_satellites := xs, lo_trailing_bits := bits\<rparr>" legacy_check
  "''satellite record''" legacy_hfields "\<lambda>m. write_satellite (legacy_layout_in m)"
  "\<lambda>m. legacy_layout_of (lo_message_number m) = Some (legacy_layout_in m)"
  "\<lambda>m. legacy_satellite_ok (legacy_layout_in m)"
  legacy_decode_inner legacy_encode_with_policy
proof unfold_locales
  show "sync (read_satellite (legacy_layout_in m)) (write_satellite (legacy_layout_in m) i x) x"
    if "legacy_check m = Inr ()" "x \<in> set (lo_satellites m)" for m i x
    using that by (auto simp: legacy_check_ok intro: legacy_satellite_sync)
qed (rule legacy_header_consumed legacy_satellite_consumed | erule legacy_header_sync
  | simp add: legacy_decode_inner_def legacy_encode_with_policy_def legacy_hfields_def
      legacy_layout_in_def legacy_check_ok)+

end
