(* ===== verification/Rtcm_Ephemeris.thy ===== *)
theory Rtcm_Ephemeris
  imports Rtcm_Context
begin

text \<open>
  The broadcast ephemeris messages of \<^verbatim>\<open>rtcm/ephemeris.rs\<close>: GPS 1019, Galileo F/NAV
  1045 and I/NAV 1046, BeiDou 1042, QZSS 1044, NavIC 1041 and GLONASS 1020.  Every
  field is kept as the transmitted integer.  The GLONASS message states its orbit
  in sign-and-magnitude fields, whose negative zeros are kept in a mask.
\<close>

unbundle bit_operations_syntax

section \<open>The satellite field\<close>

definition raw_satellite_field :: "u8 \<Rightarrow> nat \<Rightarrow> string \<Rightarrow> u16 \<Rightarrow> rtcm_encode_error + unit" where
  "raw_satellite_field satellite_id field_bits field message_number =
     (let widest = push_bit field_bits (1 :: u16) - 1
      in if ucast satellite_id > widest
         then Inl (SatelliteIdOutOfRange message_number field satellite_id field_bits)
         else Inr ())"

lemma raw_satellite_field_ok:
  assumes "fits_u n v" and "n < 16"
  shows "raw_satellite_field v n f k = Inr ()"
proof -
  have lt: "(2::nat) ^ n < 2 ^ LENGTH(16)"
    using assms(2) by (intro power_strict_increasing) auto
  have two: "unat (push_bit n (1 :: u16)) = 2 ^ n"
    using lt unfolding unsigned_push_bit_eq
    by (simp only: unsigned_1 push_bit_eq_mult mult_1 take_bit_nat_eq_self_iff)
  then have "unat (push_bit n (1 :: u16) - 1) = 2 ^ n - 1"
    by (subst unat_sub) (simp_all add: word_le_nat_alt)
  moreover have "unat (ucast v :: u16) = unat v"
  proof -
    have "unat v < 2 ^ LENGTH(8)" by (rule unsigned_less)
    then show ?thesis by (simp add: unsigned_ucast_eq take_bit_nat_eq_self_iff)
  qed
  ultimately have "(ucast v :: u16) \<le> push_bit n 1 - 1"
    using assms(1) by (simp add: word_le_nat_alt fits_u_def)
  then show ?thesis by (simp add: raw_satellite_field_def Let_def not_less)
qed

section \<open>GPS, 1019\<close>

record gps_ephemeris =
  ge_satellite_id :: u8
  ge_week_number :: u16
  ge_sv_accuracy :: u8
  ge_code_on_l2 :: u8
  ge_idot :: int
  ge_iode :: u8
  ge_t_oc :: u16
  ge_a_f2 :: int
  ge_a_f1 :: int
  ge_a_f0 :: int
  ge_iodc :: u16
  ge_c_rs :: int
  ge_delta_n :: int
  ge_m0 :: int
  ge_c_uc :: int
  ge_eccentricity :: u64
  ge_c_us :: int
  ge_sqrt_a :: u64
  ge_t_oe :: u16
  ge_c_ic :: int
  ge_omega0 :: int
  ge_c_is :: int
  ge_i0 :: int
  ge_c_rc :: int
  ge_omega :: int
  ge_omega_dot :: int
  ge_t_gd :: int
  ge_sv_health :: u8
  ge_l2_p_data_flag :: bool
  ge_fit_interval :: bool
  ge_trailing_bits :: "bool list"

definition gps_read :: "gps_ephemeris rd" where
  "gps_read =
     rbind (rd_as 12) (\<lambda>message_number :: u16.
     if message_number \<noteq> 1019
     then parse_error (''message '' @ dec_u message_number @ '' is not GPS ephemeris 1019'')
     else
     rbind (rd_as 6) (\<lambda>satellite_id.
     rbind (rd_as 10) (\<lambda>week_number.
     rbind (rd_as 4) (\<lambda>sv_accuracy.
     rbind (rd_as 2) (\<lambda>code_on_l2.
     rbind (rd_i32 14) (\<lambda>idot.
     rbind (rd_as 8) (\<lambda>iode.
     rbind (rd_as 16) (\<lambda>t_oc.
     rbind (rd_i16 8) (\<lambda>a_f2.
     rbind (rd_i32 16) (\<lambda>a_f1.
     rbind (rd_i32 22) (\<lambda>a_f0.
     rbind (rd_as 10) (\<lambda>iodc.
     rbind (rd_i32 16) (\<lambda>c_rs.
     rbind (rd_i32 16) (\<lambda>delta_n.
     rbind (rd_i 32) (\<lambda>m0.
     rbind (rd_i32 16) (\<lambda>c_uc.
     rbind (rd_u 32) (\<lambda>eccentricity.
     rbind (rd_i32 16) (\<lambda>c_us.
     rbind (rd_u 32) (\<lambda>sqrt_a.
     rbind (rd_as 16) (\<lambda>t_oe.
     rbind (rd_i32 16) (\<lambda>c_ic.
     rbind (rd_i 32) (\<lambda>omega0.
     rbind (rd_i32 16) (\<lambda>c_is.
     rbind (rd_i 32) (\<lambda>i0.
     rbind (rd_i32 16) (\<lambda>c_rc.
     rbind (rd_i 32) (\<lambda>omega.
     rbind (rd_i32 24) (\<lambda>omega_dot.
     rbind (rd_i16 8) (\<lambda>t_gd.
     rbind (rd_as 6) (\<lambda>sv_health.
     rbind rd_flag (\<lambda>l2_p_data_flag.
     rbind rd_flag (\<lambda>fit_interval.
     rreturn \<lparr>ge_satellite_id = satellite_id,
              ge_week_number = week_number,
              ge_sv_accuracy = sv_accuracy,
              ge_code_on_l2 = code_on_l2,
              ge_idot = idot,
              ge_iode = iode,
              ge_t_oc = t_oc,
              ge_a_f2 = a_f2,
              ge_a_f1 = a_f1,
              ge_a_f0 = a_f0,
              ge_iodc = iodc,
              ge_c_rs = c_rs,
              ge_delta_n = delta_n,
              ge_m0 = m0,
              ge_c_uc = c_uc,
              ge_eccentricity = eccentricity,
              ge_c_us = c_us,
              ge_sqrt_a = sqrt_a,
              ge_t_oe = t_oe,
              ge_c_ic = c_ic,
              ge_omega0 = omega0,
              ge_c_is = c_is,
              ge_i0 = i0,
              ge_c_rc = c_rc,
              ge_omega = omega,
              ge_omega_dot = omega_dot,
              ge_t_gd = t_gd,
              ge_sv_health = sv_health,
              ge_l2_p_data_flag = l2_p_data_flag,
              ge_fit_interval = fit_interval,
              ge_trailing_bits = []\<rparr>)))))))))))))))))))))))))))))))"

definition gps_check :: "gps_ephemeris \<Rightarrow> rtcm_encode_error + unit" where
  "gps_check m =
     raw_satellite_field (ge_satellite_id m) 6 ''GPS PRN'' 1019"

definition gps_fields :: "gps_ephemeris \<Rightarrow> wr list" where
  "gps_fields m =
     [w_u ''message number'' (1019 :: u16) 12,
      w_u ''satellite_id'' (ge_satellite_id m) 6,
      w_u ''week_number'' (ge_week_number m) 10,
      w_u ''sv_accuracy'' (ge_sv_accuracy m) 4,
      w_u ''code_on_l2'' (ge_code_on_l2 m) 2,
      fw_i ''idot'' (ge_idot m) 14,
      w_u ''iode'' (ge_iode m) 8,
      w_u ''t_oc'' (ge_t_oc m) 16,
      fw_i ''a_f2'' (ge_a_f2 m) 8,
      fw_i ''a_f1'' (ge_a_f1 m) 16,
      fw_i ''a_f0'' (ge_a_f0 m) 22,
      w_u ''iodc'' (ge_iodc m) 10,
      fw_i ''c_rs'' (ge_c_rs m) 16,
      fw_i ''delta_n'' (ge_delta_n m) 16,
      fw_i ''m0'' (ge_m0 m) 32,
      fw_i ''c_uc'' (ge_c_uc m) 16,
      w_u ''eccentricity'' (ge_eccentricity m) 32,
      fw_i ''c_us'' (ge_c_us m) 16,
      w_u ''sqrt_a'' (ge_sqrt_a m) 32,
      w_u ''t_oe'' (ge_t_oe m) 16,
      fw_i ''c_ic'' (ge_c_ic m) 16,
      fw_i ''omega0'' (ge_omega0 m) 32,
      fw_i ''c_is'' (ge_c_is m) 16,
      fw_i ''i0'' (ge_i0 m) 32,
      fw_i ''c_rc'' (ge_c_rc m) 16,
      fw_i ''omega'' (ge_omega m) 32,
      fw_i ''omega_dot'' (ge_omega_dot m) 24,
      fw_i ''t_gd'' (ge_t_gd m) 8,
      w_u ''sv_health'' (ge_sv_health m) 6,
      w_flag (ge_l2_p_data_flag m),
      w_flag (ge_fit_interval m)]"

definition gps_encode_with_policy ::
  "rtcm_policy \<Rightarrow> gps_ephemeris \<Rightarrow> rtcm_encode_error + u8 list \<times> rtcm_departure list" where
  "gps_encode_with_policy pol m =
     ebind (gps_check m) (\<lambda>_.
     ebind (w_all (gps_fields m) (fw_new 1019)) (\<lambda>w.
     close_body w (ge_trailing_bits m) pol))"

lemma gps_sync:
  "gps_check m = Inr () \<Longrightarrow> sync gps_read (gps_fields m) (m\<lparr>ge_trailing_bits := []\<rparr>)"
  unfolding gps_read_def gps_fields_def
  by (cases m) (auto intro!: sync_intros)

lemma gps_consumed: "deco gps_read (\<lambda>m bs.
    gps_check m = Inr () \<and> ge_trailing_bits m = [] \<and> fits_u 12 (1019 :: u16)
      \<and> writes (gps_fields m) bs \<and> (\<exists>cs. bs = to_bits 12 (ucast (1019 :: u16)) @ cs))"
  unfolding gps_read_def
  by (intro deco_intros)
    (simp_all add: gps_check_def gps_fields_def w_exec raw_satellite_field_ok)

interpretation gps: plain_codec gps_read "\<lambda>_. 1019" gps_check gps_fields
   ge_trailing_bits "\<lambda>bits m. m\<lparr>ge_trailing_bits := bits\<rparr>" gps_encode_with_policy
  by unfold_locales (rule gps_consumed | erule gps_sync
    | simp add: gps_encode_with_policy_def gps_check_def gps_fields_def)+

section \<open>Galileo F/NAV, 1045\<close>

record galileo_fnav_ephemeris =
  gf_satellite_id :: u8
  gf_week_number :: u16
  gf_iod_nav :: u16
  gf_sisa :: u8
  gf_idot :: int
  gf_t_oc :: u16
  gf_a_f2 :: int
  gf_a_f1 :: int
  gf_a_f0 :: int
  gf_c_rs :: int
  gf_delta_n :: int
  gf_m0 :: int
  gf_c_uc :: int
  gf_eccentricity :: u64
  gf_c_us :: int
  gf_sqrt_a :: u64
  gf_t_oe :: u16
  gf_c_ic :: int
  gf_omega0 :: int
  gf_c_is :: int
  gf_i0 :: int
  gf_c_rc :: int
  gf_omega :: int
  gf_omega_dot :: int
  gf_bgd_e5a_e1 :: int
  gf_e5a_signal_health :: u8
  gf_e5a_data_validity :: bool
  gf_reserved :: u8
  gf_trailing_bits :: "bool list"

definition fnav_read :: "galileo_fnav_ephemeris rd" where
  "fnav_read =
     rbind (rd_as 12) (\<lambda>message_number :: u16.
     if message_number \<noteq> 1045
     then parse_error (''message '' @ dec_u message_number @ '' is not Galileo F/NAV ephemeris 1045'')
     else
     rbind (rd_as 6) (\<lambda>satellite_id.
     rbind (rd_as 12) (\<lambda>week_number.
     rbind (rd_as 10) (\<lambda>iod_nav.
     rbind (rd_as 8) (\<lambda>sisa.
     rbind (rd_i32 14) (\<lambda>idot.
     rbind (rd_as 14) (\<lambda>t_oc.
     rbind (rd_i16 6) (\<lambda>a_f2.
     rbind (rd_i32 21) (\<lambda>a_f1.
     rbind (rd_i 31) (\<lambda>a_f0.
     rbind (rd_i32 16) (\<lambda>c_rs.
     rbind (rd_i32 16) (\<lambda>delta_n.
     rbind (rd_i 32) (\<lambda>m0.
     rbind (rd_i32 16) (\<lambda>c_uc.
     rbind (rd_u 32) (\<lambda>eccentricity.
     rbind (rd_i32 16) (\<lambda>c_us.
     rbind (rd_u 32) (\<lambda>sqrt_a.
     rbind (rd_as 14) (\<lambda>t_oe.
     rbind (rd_i32 16) (\<lambda>c_ic.
     rbind (rd_i 32) (\<lambda>omega0.
     rbind (rd_i32 16) (\<lambda>c_is.
     rbind (rd_i 32) (\<lambda>i0.
     rbind (rd_i32 16) (\<lambda>c_rc.
     rbind (rd_i 32) (\<lambda>omega.
     rbind (rd_i32 24) (\<lambda>omega_dot.
     rbind (rd_i16 10) (\<lambda>bgd_e5a_e1.
     rbind (rd_as 2) (\<lambda>e5a_signal_health.
     rbind rd_flag (\<lambda>e5a_data_validity.
     rbind (rd_as 7) (\<lambda>reserved.
     rreturn \<lparr>gf_satellite_id = satellite_id,
              gf_week_number = week_number,
              gf_iod_nav = iod_nav,
              gf_sisa = sisa,
              gf_idot = idot,
              gf_t_oc = t_oc,
              gf_a_f2 = a_f2,
              gf_a_f1 = a_f1,
              gf_a_f0 = a_f0,
              gf_c_rs = c_rs,
              gf_delta_n = delta_n,
              gf_m0 = m0,
              gf_c_uc = c_uc,
              gf_eccentricity = eccentricity,
              gf_c_us = c_us,
              gf_sqrt_a = sqrt_a,
              gf_t_oe = t_oe,
              gf_c_ic = c_ic,
              gf_omega0 = omega0,
              gf_c_is = c_is,
              gf_i0 = i0,
              gf_c_rc = c_rc,
              gf_omega = omega,
              gf_omega_dot = omega_dot,
              gf_bgd_e5a_e1 = bgd_e5a_e1,
              gf_e5a_signal_health = e5a_signal_health,
              gf_e5a_data_validity = e5a_data_validity,
              gf_reserved = reserved,
              gf_trailing_bits = []\<rparr>)))))))))))))))))))))))))))))"

definition fnav_check :: "galileo_fnav_ephemeris \<Rightarrow> rtcm_encode_error + unit" where
  "fnav_check m =
     raw_satellite_field (gf_satellite_id m) 6 ''Galileo SVID'' 1045"

definition fnav_fields :: "galileo_fnav_ephemeris \<Rightarrow> wr list" where
  "fnav_fields m =
     [w_u ''message number'' (1045 :: u16) 12,
      w_u ''satellite_id'' (gf_satellite_id m) 6,
      w_u ''week_number'' (gf_week_number m) 12,
      w_u ''iod_nav'' (gf_iod_nav m) 10,
      w_u ''sisa'' (gf_sisa m) 8,
      fw_i ''idot'' (gf_idot m) 14,
      w_u ''t_oc'' (gf_t_oc m) 14,
      fw_i ''a_f2'' (gf_a_f2 m) 6,
      fw_i ''a_f1'' (gf_a_f1 m) 21,
      fw_i ''a_f0'' (gf_a_f0 m) 31,
      fw_i ''c_rs'' (gf_c_rs m) 16,
      fw_i ''delta_n'' (gf_delta_n m) 16,
      fw_i ''m0'' (gf_m0 m) 32,
      fw_i ''c_uc'' (gf_c_uc m) 16,
      w_u ''eccentricity'' (gf_eccentricity m) 32,
      fw_i ''c_us'' (gf_c_us m) 16,
      w_u ''sqrt_a'' (gf_sqrt_a m) 32,
      w_u ''t_oe'' (gf_t_oe m) 14,
      fw_i ''c_ic'' (gf_c_ic m) 16,
      fw_i ''omega0'' (gf_omega0 m) 32,
      fw_i ''c_is'' (gf_c_is m) 16,
      fw_i ''i0'' (gf_i0 m) 32,
      fw_i ''c_rc'' (gf_c_rc m) 16,
      fw_i ''omega'' (gf_omega m) 32,
      fw_i ''omega_dot'' (gf_omega_dot m) 24,
      fw_i ''bgd_e5a_e1'' (gf_bgd_e5a_e1 m) 10,
      w_u ''e5a_signal_health'' (gf_e5a_signal_health m) 2,
      w_flag (gf_e5a_data_validity m),
      w_u ''reserved'' (gf_reserved m) 7]"

definition fnav_encode_with_policy ::
  "rtcm_policy \<Rightarrow> galileo_fnav_ephemeris \<Rightarrow> rtcm_encode_error + u8 list \<times> rtcm_departure list" where
  "fnav_encode_with_policy pol m =
     ebind (fnav_check m) (\<lambda>_.
     ebind (w_all (fnav_fields m) (fw_new 1045)) (\<lambda>w.
     close_body w (gf_trailing_bits m) pol))"

lemma fnav_sync:
  "fnav_check m = Inr () \<Longrightarrow> sync fnav_read (fnav_fields m) (m\<lparr>gf_trailing_bits := []\<rparr>)"
  unfolding fnav_read_def fnav_fields_def
  by (cases m) (auto intro!: sync_intros)

lemma fnav_consumed: "deco fnav_read (\<lambda>m bs.
    fnav_check m = Inr () \<and> gf_trailing_bits m = [] \<and> fits_u 12 (1045 :: u16)
      \<and> writes (fnav_fields m) bs \<and> (\<exists>cs. bs = to_bits 12 (ucast (1045 :: u16)) @ cs))"
  unfolding fnav_read_def
  by (intro deco_intros)
    (simp_all add: fnav_check_def fnav_fields_def w_exec raw_satellite_field_ok)

interpretation fnav: plain_codec fnav_read "\<lambda>_. 1045" fnav_check fnav_fields
   gf_trailing_bits "\<lambda>bits m. m\<lparr>gf_trailing_bits := bits\<rparr>" fnav_encode_with_policy
  by unfold_locales (rule fnav_consumed | erule fnav_sync
    | simp add: fnav_encode_with_policy_def fnav_check_def fnav_fields_def)+

section \<open>Galileo I/NAV, 1046\<close>

record galileo_inav_ephemeris =
  gi_satellite_id :: u8
  gi_week_number :: u16
  gi_iod_nav :: u16
  gi_sisa_index :: u8
  gi_idot :: int
  gi_t_oc :: u16
  gi_a_f2 :: int
  gi_a_f1 :: int
  gi_a_f0 :: int
  gi_c_rs :: int
  gi_delta_n :: int
  gi_m0 :: int
  gi_c_uc :: int
  gi_eccentricity :: u64
  gi_c_us :: int
  gi_sqrt_a :: u64
  gi_t_oe :: u16
  gi_c_ic :: int
  gi_omega0 :: int
  gi_c_is :: int
  gi_i0 :: int
  gi_c_rc :: int
  gi_omega :: int
  gi_omega_dot :: int
  gi_bgd_e5a_e1 :: int
  gi_bgd_e5b_e1 :: int
  gi_e5b_signal_health :: u8
  gi_e5b_data_validity :: bool
  gi_e1b_signal_health :: u8
  gi_e1b_data_validity :: bool
  gi_reserved :: u8
  gi_trailing_bits :: "bool list"

definition inav_read :: "galileo_inav_ephemeris rd" where
  "inav_read =
     rbind (rd_as 12) (\<lambda>message_number :: u16.
     if message_number \<noteq> 1046
     then parse_error (''message '' @ dec_u message_number @ '' is not Galileo I/NAV ephemeris 1046'')
     else
     rbind (rd_as 6) (\<lambda>satellite_id.
     rbind (rd_as 12) (\<lambda>week_number.
     rbind (rd_as 10) (\<lambda>iod_nav.
     rbind (rd_as 8) (\<lambda>sisa_index.
     rbind (rd_i32 14) (\<lambda>idot.
     rbind (rd_as 14) (\<lambda>t_oc.
     rbind (rd_i16 6) (\<lambda>a_f2.
     rbind (rd_i32 21) (\<lambda>a_f1.
     rbind (rd_i 31) (\<lambda>a_f0.
     rbind (rd_i32 16) (\<lambda>c_rs.
     rbind (rd_i32 16) (\<lambda>delta_n.
     rbind (rd_i 32) (\<lambda>m0.
     rbind (rd_i32 16) (\<lambda>c_uc.
     rbind (rd_u 32) (\<lambda>eccentricity.
     rbind (rd_i32 16) (\<lambda>c_us.
     rbind (rd_u 32) (\<lambda>sqrt_a.
     rbind (rd_as 14) (\<lambda>t_oe.
     rbind (rd_i32 16) (\<lambda>c_ic.
     rbind (rd_i 32) (\<lambda>omega0.
     rbind (rd_i32 16) (\<lambda>c_is.
     rbind (rd_i 32) (\<lambda>i0.
     rbind (rd_i32 16) (\<lambda>c_rc.
     rbind (rd_i 32) (\<lambda>omega.
     rbind (rd_i32 24) (\<lambda>omega_dot.
     rbind (rd_i16 10) (\<lambda>bgd_e5a_e1.
     rbind (rd_i16 10) (\<lambda>bgd_e5b_e1.
     rbind (rd_as 2) (\<lambda>e5b_signal_health.
     rbind rd_flag (\<lambda>e5b_data_validity.
     rbind (rd_as 2) (\<lambda>e1b_signal_health.
     rbind rd_flag (\<lambda>e1b_data_validity.
     rbind (rd_as 2) (\<lambda>reserved.
     rreturn \<lparr>gi_satellite_id = satellite_id,
              gi_week_number = week_number,
              gi_iod_nav = iod_nav,
              gi_sisa_index = sisa_index,
              gi_idot = idot,
              gi_t_oc = t_oc,
              gi_a_f2 = a_f2,
              gi_a_f1 = a_f1,
              gi_a_f0 = a_f0,
              gi_c_rs = c_rs,
              gi_delta_n = delta_n,
              gi_m0 = m0,
              gi_c_uc = c_uc,
              gi_eccentricity = eccentricity,
              gi_c_us = c_us,
              gi_sqrt_a = sqrt_a,
              gi_t_oe = t_oe,
              gi_c_ic = c_ic,
              gi_omega0 = omega0,
              gi_c_is = c_is,
              gi_i0 = i0,
              gi_c_rc = c_rc,
              gi_omega = omega,
              gi_omega_dot = omega_dot,
              gi_bgd_e5a_e1 = bgd_e5a_e1,
              gi_bgd_e5b_e1 = bgd_e5b_e1,
              gi_e5b_signal_health = e5b_signal_health,
              gi_e5b_data_validity = e5b_data_validity,
              gi_e1b_signal_health = e1b_signal_health,
              gi_e1b_data_validity = e1b_data_validity,
              gi_reserved = reserved,
              gi_trailing_bits = []\<rparr>))))))))))))))))))))))))))))))))"

definition inav_check :: "galileo_inav_ephemeris \<Rightarrow> rtcm_encode_error + unit" where
  "inav_check m =
     raw_satellite_field (gi_satellite_id m) 6 ''Galileo SVID'' 1046"

definition inav_fields :: "galileo_inav_ephemeris \<Rightarrow> wr list" where
  "inav_fields m =
     [w_u ''message number'' (1046 :: u16) 12,
      w_u ''satellite_id'' (gi_satellite_id m) 6,
      w_u ''week_number'' (gi_week_number m) 12,
      w_u ''iod_nav'' (gi_iod_nav m) 10,
      w_u ''sisa_index'' (gi_sisa_index m) 8,
      fw_i ''idot'' (gi_idot m) 14,
      w_u ''t_oc'' (gi_t_oc m) 14,
      fw_i ''a_f2'' (gi_a_f2 m) 6,
      fw_i ''a_f1'' (gi_a_f1 m) 21,
      fw_i ''a_f0'' (gi_a_f0 m) 31,
      fw_i ''c_rs'' (gi_c_rs m) 16,
      fw_i ''delta_n'' (gi_delta_n m) 16,
      fw_i ''m0'' (gi_m0 m) 32,
      fw_i ''c_uc'' (gi_c_uc m) 16,
      w_u ''eccentricity'' (gi_eccentricity m) 32,
      fw_i ''c_us'' (gi_c_us m) 16,
      w_u ''sqrt_a'' (gi_sqrt_a m) 32,
      w_u ''t_oe'' (gi_t_oe m) 14,
      fw_i ''c_ic'' (gi_c_ic m) 16,
      fw_i ''omega0'' (gi_omega0 m) 32,
      fw_i ''c_is'' (gi_c_is m) 16,
      fw_i ''i0'' (gi_i0 m) 32,
      fw_i ''c_rc'' (gi_c_rc m) 16,
      fw_i ''omega'' (gi_omega m) 32,
      fw_i ''omega_dot'' (gi_omega_dot m) 24,
      fw_i ''bgd_e5a_e1'' (gi_bgd_e5a_e1 m) 10,
      fw_i ''bgd_e5b_e1'' (gi_bgd_e5b_e1 m) 10,
      w_u ''e5b_signal_health'' (gi_e5b_signal_health m) 2,
      w_flag (gi_e5b_data_validity m),
      w_u ''e1b_signal_health'' (gi_e1b_signal_health m) 2,
      w_flag (gi_e1b_data_validity m),
      w_u ''reserved'' (gi_reserved m) 2]"

definition inav_encode_with_policy ::
  "rtcm_policy \<Rightarrow> galileo_inav_ephemeris \<Rightarrow> rtcm_encode_error + u8 list \<times> rtcm_departure list" where
  "inav_encode_with_policy pol m =
     ebind (inav_check m) (\<lambda>_.
     ebind (w_all (inav_fields m) (fw_new 1046)) (\<lambda>w.
     close_body w (gi_trailing_bits m) pol))"

lemma inav_sync:
  "inav_check m = Inr () \<Longrightarrow> sync inav_read (inav_fields m) (m\<lparr>gi_trailing_bits := []\<rparr>)"
  unfolding inav_read_def inav_fields_def
  by (cases m) (auto intro!: sync_intros)

lemma inav_consumed: "deco inav_read (\<lambda>m bs.
    inav_check m = Inr () \<and> gi_trailing_bits m = [] \<and> fits_u 12 (1046 :: u16)
      \<and> writes (inav_fields m) bs \<and> (\<exists>cs. bs = to_bits 12 (ucast (1046 :: u16)) @ cs))"
  unfolding inav_read_def
  by (intro deco_intros)
    (simp_all add: inav_check_def inav_fields_def w_exec raw_satellite_field_ok)

interpretation inav: plain_codec inav_read "\<lambda>_. 1046" inav_check inav_fields
   gi_trailing_bits "\<lambda>bits m. m\<lparr>gi_trailing_bits := bits\<rparr>" inav_encode_with_policy
  by unfold_locales (rule inav_consumed | erule inav_sync
    | simp add: inav_encode_with_policy_def inav_check_def inav_fields_def)+

section \<open>BeiDou, 1042\<close>

record beidou_ephemeris =
  be_satellite_id :: u8
  be_week_number :: u16
  be_sv_urai :: u8
  be_idot :: int
  be_aode :: u8
  be_t_oc :: u32
  be_a_f2 :: int
  be_a_f1 :: int
  be_a_f0 :: int
  be_aodc :: u8
  be_c_rs :: int
  be_delta_n :: int
  be_m0 :: int
  be_c_uc :: int
  be_eccentricity :: u64
  be_c_us :: int
  be_sqrt_a :: u64
  be_t_oe :: u32
  be_c_ic :: int
  be_omega0 :: int
  be_c_is :: int
  be_i0 :: int
  be_c_rc :: int
  be_omega :: int
  be_omega_dot :: int
  be_t_gd1 :: int
  be_t_gd2 :: int
  be_sv_health :: bool
  be_trailing_bits :: "bool list"

definition beidou_read :: "beidou_ephemeris rd" where
  "beidou_read =
     rbind (rd_as 12) (\<lambda>message_number :: u16.
     if message_number \<noteq> 1042
     then parse_error (''message '' @ dec_u message_number @ '' is not BeiDou ephemeris 1042'')
     else
     rbind (rd_as 6) (\<lambda>satellite_id.
     rbind (rd_as 13) (\<lambda>week_number.
     rbind (rd_as 4) (\<lambda>sv_urai.
     rbind (rd_i32 14) (\<lambda>idot.
     rbind (rd_as 5) (\<lambda>aode.
     rbind (rd_as 17) (\<lambda>t_oc.
     rbind (rd_i16 11) (\<lambda>a_f2.
     rbind (rd_i32 22) (\<lambda>a_f1.
     rbind (rd_i32 24) (\<lambda>a_f0.
     rbind (rd_as 5) (\<lambda>aodc.
     rbind (rd_i32 18) (\<lambda>c_rs.
     rbind (rd_i32 16) (\<lambda>delta_n.
     rbind (rd_i 32) (\<lambda>m0.
     rbind (rd_i32 18) (\<lambda>c_uc.
     rbind (rd_u 32) (\<lambda>eccentricity.
     rbind (rd_i32 18) (\<lambda>c_us.
     rbind (rd_u 32) (\<lambda>sqrt_a.
     rbind (rd_as 17) (\<lambda>t_oe.
     rbind (rd_i32 18) (\<lambda>c_ic.
     rbind (rd_i 32) (\<lambda>omega0.
     rbind (rd_i32 18) (\<lambda>c_is.
     rbind (rd_i 32) (\<lambda>i0.
     rbind (rd_i32 18) (\<lambda>c_rc.
     rbind (rd_i 32) (\<lambda>omega.
     rbind (rd_i32 24) (\<lambda>omega_dot.
     rbind (rd_i16 10) (\<lambda>t_gd1.
     rbind (rd_i16 10) (\<lambda>t_gd2.
     rbind rd_flag (\<lambda>sv_health.
     rreturn \<lparr>be_satellite_id = satellite_id,
              be_week_number = week_number,
              be_sv_urai = sv_urai,
              be_idot = idot,
              be_aode = aode,
              be_t_oc = t_oc,
              be_a_f2 = a_f2,
              be_a_f1 = a_f1,
              be_a_f0 = a_f0,
              be_aodc = aodc,
              be_c_rs = c_rs,
              be_delta_n = delta_n,
              be_m0 = m0,
              be_c_uc = c_uc,
              be_eccentricity = eccentricity,
              be_c_us = c_us,
              be_sqrt_a = sqrt_a,
              be_t_oe = t_oe,
              be_c_ic = c_ic,
              be_omega0 = omega0,
              be_c_is = c_is,
              be_i0 = i0,
              be_c_rc = c_rc,
              be_omega = omega,
              be_omega_dot = omega_dot,
              be_t_gd1 = t_gd1,
              be_t_gd2 = t_gd2,
              be_sv_health = sv_health,
              be_trailing_bits = []\<rparr>)))))))))))))))))))))))))))))"

definition beidou_check :: "beidou_ephemeris \<Rightarrow> rtcm_encode_error + unit" where
  "beidou_check m =
     raw_satellite_field (be_satellite_id m) 6 ''BeiDou satellite ID'' 1042"

definition beidou_fields :: "beidou_ephemeris \<Rightarrow> wr list" where
  "beidou_fields m =
     [w_u ''message number'' (1042 :: u16) 12,
      w_u ''satellite_id'' (be_satellite_id m) 6,
      w_u ''week_number'' (be_week_number m) 13,
      w_u ''sv_urai'' (be_sv_urai m) 4,
      fw_i ''idot'' (be_idot m) 14,
      w_u ''aode'' (be_aode m) 5,
      w_u ''t_oc'' (be_t_oc m) 17,
      fw_i ''a_f2'' (be_a_f2 m) 11,
      fw_i ''a_f1'' (be_a_f1 m) 22,
      fw_i ''a_f0'' (be_a_f0 m) 24,
      w_u ''aodc'' (be_aodc m) 5,
      fw_i ''c_rs'' (be_c_rs m) 18,
      fw_i ''delta_n'' (be_delta_n m) 16,
      fw_i ''m0'' (be_m0 m) 32,
      fw_i ''c_uc'' (be_c_uc m) 18,
      w_u ''eccentricity'' (be_eccentricity m) 32,
      fw_i ''c_us'' (be_c_us m) 18,
      w_u ''sqrt_a'' (be_sqrt_a m) 32,
      w_u ''t_oe'' (be_t_oe m) 17,
      fw_i ''c_ic'' (be_c_ic m) 18,
      fw_i ''omega0'' (be_omega0 m) 32,
      fw_i ''c_is'' (be_c_is m) 18,
      fw_i ''i0'' (be_i0 m) 32,
      fw_i ''c_rc'' (be_c_rc m) 18,
      fw_i ''omega'' (be_omega m) 32,
      fw_i ''omega_dot'' (be_omega_dot m) 24,
      fw_i ''t_gd1'' (be_t_gd1 m) 10,
      fw_i ''t_gd2'' (be_t_gd2 m) 10,
      w_flag (be_sv_health m)]"

definition beidou_encode_with_policy ::
  "rtcm_policy \<Rightarrow> beidou_ephemeris \<Rightarrow> rtcm_encode_error + u8 list \<times> rtcm_departure list" where
  "beidou_encode_with_policy pol m =
     ebind (beidou_check m) (\<lambda>_.
     ebind (w_all (beidou_fields m) (fw_new 1042)) (\<lambda>w.
     close_body w (be_trailing_bits m) pol))"

lemma beidou_sync:
  "beidou_check m = Inr () \<Longrightarrow> sync beidou_read (beidou_fields m) (m\<lparr>be_trailing_bits := []\<rparr>)"
  unfolding beidou_read_def beidou_fields_def
  by (cases m) (auto intro!: sync_intros)

lemma beidou_consumed: "deco beidou_read (\<lambda>m bs.
    beidou_check m = Inr () \<and> be_trailing_bits m = [] \<and> fits_u 12 (1042 :: u16)
      \<and> writes (beidou_fields m) bs \<and> (\<exists>cs. bs = to_bits 12 (ucast (1042 :: u16)) @ cs))"
  unfolding beidou_read_def
  by (intro deco_intros)
    (simp_all add: beidou_check_def beidou_fields_def w_exec raw_satellite_field_ok)

interpretation beidou: plain_codec beidou_read "\<lambda>_. 1042" beidou_check beidou_fields
   be_trailing_bits "\<lambda>bits m. m\<lparr>be_trailing_bits := bits\<rparr>" beidou_encode_with_policy
  by unfold_locales (rule beidou_consumed | erule beidou_sync
    | simp add: beidou_encode_with_policy_def beidou_check_def beidou_fields_def)+

section \<open>QZSS, 1044\<close>

record qzss_ephemeris =
  qe_satellite_id :: u8
  qe_t_oc :: u16
  qe_a_f2 :: int
  qe_a_f1 :: int
  qe_a_f0 :: int
  qe_iode :: u8
  qe_c_rs :: int
  qe_delta_n :: int
  qe_m0 :: int
  qe_c_uc :: int
  qe_eccentricity :: u64
  qe_c_us :: int
  qe_sqrt_a :: u64
  qe_t_oe :: u16
  qe_c_ic :: int
  qe_omega0 :: int
  qe_c_is :: int
  qe_i0 :: int
  qe_c_rc :: int
  qe_omega :: int
  qe_omega_dot :: int
  qe_idot :: int
  qe_codes_on_l2 :: u8
  qe_week_number :: u16
  qe_ura :: u8
  qe_sv_health :: u8
  qe_t_gd :: int
  qe_iodc :: u16
  qe_fit_interval :: bool
  qe_trailing_bits :: "bool list"

definition qzss_read :: "qzss_ephemeris rd" where
  "qzss_read =
     rbind (rd_as 12) (\<lambda>message_number :: u16.
     if message_number \<noteq> 1044
     then parse_error (''message '' @ dec_u message_number @ '' is not QZSS ephemeris 1044'')
     else
     rbind (rd_as 4) (\<lambda>satellite_id.
     rbind (rd_as 16) (\<lambda>t_oc.
     rbind (rd_i16 8) (\<lambda>a_f2.
     rbind (rd_i32 16) (\<lambda>a_f1.
     rbind (rd_i32 22) (\<lambda>a_f0.
     rbind (rd_as 8) (\<lambda>iode.
     rbind (rd_i32 16) (\<lambda>c_rs.
     rbind (rd_i32 16) (\<lambda>delta_n.
     rbind (rd_i 32) (\<lambda>m0.
     rbind (rd_i32 16) (\<lambda>c_uc.
     rbind (rd_u 32) (\<lambda>eccentricity.
     rbind (rd_i32 16) (\<lambda>c_us.
     rbind (rd_u 32) (\<lambda>sqrt_a.
     rbind (rd_as 16) (\<lambda>t_oe.
     rbind (rd_i32 16) (\<lambda>c_ic.
     rbind (rd_i 32) (\<lambda>omega0.
     rbind (rd_i32 16) (\<lambda>c_is.
     rbind (rd_i 32) (\<lambda>i0.
     rbind (rd_i32 16) (\<lambda>c_rc.
     rbind (rd_i 32) (\<lambda>omega.
     rbind (rd_i32 24) (\<lambda>omega_dot.
     rbind (rd_i32 14) (\<lambda>idot.
     rbind (rd_as 2) (\<lambda>codes_on_l2.
     rbind (rd_as 10) (\<lambda>week_number.
     rbind (rd_as 4) (\<lambda>ura.
     rbind (rd_as 6) (\<lambda>sv_health.
     rbind (rd_i16 8) (\<lambda>t_gd.
     rbind (rd_as 10) (\<lambda>iodc.
     rbind rd_flag (\<lambda>fit_interval.
     rreturn \<lparr>qe_satellite_id = satellite_id,
              qe_t_oc = t_oc,
              qe_a_f2 = a_f2,
              qe_a_f1 = a_f1,
              qe_a_f0 = a_f0,
              qe_iode = iode,
              qe_c_rs = c_rs,
              qe_delta_n = delta_n,
              qe_m0 = m0,
              qe_c_uc = c_uc,
              qe_eccentricity = eccentricity,
              qe_c_us = c_us,
              qe_sqrt_a = sqrt_a,
              qe_t_oe = t_oe,
              qe_c_ic = c_ic,
              qe_omega0 = omega0,
              qe_c_is = c_is,
              qe_i0 = i0,
              qe_c_rc = c_rc,
              qe_omega = omega,
              qe_omega_dot = omega_dot,
              qe_idot = idot,
              qe_codes_on_l2 = codes_on_l2,
              qe_week_number = week_number,
              qe_ura = ura,
              qe_sv_health = sv_health,
              qe_t_gd = t_gd,
              qe_iodc = iodc,
              qe_fit_interval = fit_interval,
              qe_trailing_bits = []\<rparr>))))))))))))))))))))))))))))))"

definition qzss_check :: "qzss_ephemeris \<Rightarrow> rtcm_encode_error + unit" where
  "qzss_check m =
     raw_satellite_field (qe_satellite_id m) 4 ''QZSS satellite ID'' 1044"

definition qzss_fields :: "qzss_ephemeris \<Rightarrow> wr list" where
  "qzss_fields m =
     [w_u ''message number'' (1044 :: u16) 12,
      w_u ''satellite_id'' (qe_satellite_id m) 4,
      w_u ''t_oc'' (qe_t_oc m) 16,
      fw_i ''a_f2'' (qe_a_f2 m) 8,
      fw_i ''a_f1'' (qe_a_f1 m) 16,
      fw_i ''a_f0'' (qe_a_f0 m) 22,
      w_u ''iode'' (qe_iode m) 8,
      fw_i ''c_rs'' (qe_c_rs m) 16,
      fw_i ''delta_n'' (qe_delta_n m) 16,
      fw_i ''m0'' (qe_m0 m) 32,
      fw_i ''c_uc'' (qe_c_uc m) 16,
      w_u ''eccentricity'' (qe_eccentricity m) 32,
      fw_i ''c_us'' (qe_c_us m) 16,
      w_u ''sqrt_a'' (qe_sqrt_a m) 32,
      w_u ''t_oe'' (qe_t_oe m) 16,
      fw_i ''c_ic'' (qe_c_ic m) 16,
      fw_i ''omega0'' (qe_omega0 m) 32,
      fw_i ''c_is'' (qe_c_is m) 16,
      fw_i ''i0'' (qe_i0 m) 32,
      fw_i ''c_rc'' (qe_c_rc m) 16,
      fw_i ''omega'' (qe_omega m) 32,
      fw_i ''omega_dot'' (qe_omega_dot m) 24,
      fw_i ''idot'' (qe_idot m) 14,
      w_u ''codes_on_l2'' (qe_codes_on_l2 m) 2,
      w_u ''week_number'' (qe_week_number m) 10,
      w_u ''ura'' (qe_ura m) 4,
      w_u ''sv_health'' (qe_sv_health m) 6,
      fw_i ''t_gd'' (qe_t_gd m) 8,
      w_u ''iodc'' (qe_iodc m) 10,
      w_flag (qe_fit_interval m)]"

definition qzss_encode_with_policy ::
  "rtcm_policy \<Rightarrow> qzss_ephemeris \<Rightarrow> rtcm_encode_error + u8 list \<times> rtcm_departure list" where
  "qzss_encode_with_policy pol m =
     ebind (qzss_check m) (\<lambda>_.
     ebind (w_all (qzss_fields m) (fw_new 1044)) (\<lambda>w.
     close_body w (qe_trailing_bits m) pol))"

lemma qzss_sync:
  "qzss_check m = Inr () \<Longrightarrow> sync qzss_read (qzss_fields m) (m\<lparr>qe_trailing_bits := []\<rparr>)"
  unfolding qzss_read_def qzss_fields_def
  by (cases m) (auto intro!: sync_intros)

lemma qzss_consumed: "deco qzss_read (\<lambda>m bs.
    qzss_check m = Inr () \<and> qe_trailing_bits m = [] \<and> fits_u 12 (1044 :: u16)
      \<and> writes (qzss_fields m) bs \<and> (\<exists>cs. bs = to_bits 12 (ucast (1044 :: u16)) @ cs))"
  unfolding qzss_read_def
  by (intro deco_intros)
    (simp_all add: qzss_check_def qzss_fields_def w_exec raw_satellite_field_ok)

interpretation qzss: plain_codec qzss_read "\<lambda>_. 1044" qzss_check qzss_fields
   qe_trailing_bits "\<lambda>bits m. m\<lparr>qe_trailing_bits := bits\<rparr>" qzss_encode_with_policy
  by unfold_locales (rule qzss_consumed | erule qzss_sync
    | simp add: qzss_encode_with_policy_def qzss_check_def qzss_fields_def)+

section \<open>NavIC, 1041\<close>

record navic_ephemeris =
  ne_satellite_id :: u8
  ne_week_number :: u16
  ne_a_f0 :: int
  ne_a_f1 :: int
  ne_a_f2 :: int
  ne_ura :: u8
  ne_t_oc :: u16
  ne_t_gd :: int
  ne_delta_n :: int
  ne_iodec :: u8
  ne_reserved :: u16
  ne_l5_flag :: bool
  ne_s_flag :: bool
  ne_c_uc :: int
  ne_c_us :: int
  ne_c_ic :: int
  ne_c_is :: int
  ne_c_rc :: int
  ne_c_rs :: int
  ne_idot :: int
  ne_m0 :: int
  ne_t_oe :: u16
  ne_eccentricity :: u64
  ne_sqrt_a :: u64
  ne_omega0 :: int
  ne_omega :: int
  ne_omega_dot :: int
  ne_i0 :: int
  ne_spare_df544 :: u8
  ne_spare_df545 :: u8
  ne_trailing_bits :: "bool list"

definition navic_read :: "navic_ephemeris rd" where
  "navic_read =
     rbind (rd_as 12) (\<lambda>message_number :: u16.
     if message_number \<noteq> 1041
     then parse_error (''message '' @ dec_u message_number @ '' is not NavIC ephemeris 1041'')
     else
     rbind (rd_as 6) (\<lambda>satellite_id.
     rbind (rd_as 10) (\<lambda>week_number.
     rbind (rd_i32 22) (\<lambda>a_f0.
     rbind (rd_i32 16) (\<lambda>a_f1.
     rbind (rd_i16 8) (\<lambda>a_f2.
     rbind (rd_as 4) (\<lambda>ura.
     rbind (rd_as 16) (\<lambda>t_oc.
     rbind (rd_i16 8) (\<lambda>t_gd.
     rbind (rd_i32 22) (\<lambda>delta_n.
     rbind (rd_as 8) (\<lambda>iodec.
     rbind (rd_as 10) (\<lambda>reserved.
     rbind rd_flag (\<lambda>l5_flag.
     rbind rd_flag (\<lambda>s_flag.
     rbind (rd_i32 15) (\<lambda>c_uc.
     rbind (rd_i32 15) (\<lambda>c_us.
     rbind (rd_i32 15) (\<lambda>c_ic.
     rbind (rd_i32 15) (\<lambda>c_is.
     rbind (rd_i32 15) (\<lambda>c_rc.
     rbind (rd_i32 15) (\<lambda>c_rs.
     rbind (rd_i32 14) (\<lambda>idot.
     rbind (rd_i 32) (\<lambda>m0.
     rbind (rd_as 16) (\<lambda>t_oe.
     rbind (rd_u 32) (\<lambda>eccentricity.
     rbind (rd_u 32) (\<lambda>sqrt_a.
     rbind (rd_i 32) (\<lambda>omega0.
     rbind (rd_i 32) (\<lambda>omega.
     rbind (rd_i32 22) (\<lambda>omega_dot.
     rbind (rd_i 32) (\<lambda>i0.
     rbind (rd_as 2) (\<lambda>spare_df544.
     rbind (rd_as 2) (\<lambda>spare_df545.
     rreturn \<lparr>ne_satellite_id = satellite_id,
              ne_week_number = week_number,
              ne_a_f0 = a_f0,
              ne_a_f1 = a_f1,
              ne_a_f2 = a_f2,
              ne_ura = ura,
              ne_t_oc = t_oc,
              ne_t_gd = t_gd,
              ne_delta_n = delta_n,
              ne_iodec = iodec,
              ne_reserved = reserved,
              ne_l5_flag = l5_flag,
              ne_s_flag = s_flag,
              ne_c_uc = c_uc,
              ne_c_us = c_us,
              ne_c_ic = c_ic,
              ne_c_is = c_is,
              ne_c_rc = c_rc,
              ne_c_rs = c_rs,
              ne_idot = idot,
              ne_m0 = m0,
              ne_t_oe = t_oe,
              ne_eccentricity = eccentricity,
              ne_sqrt_a = sqrt_a,
              ne_omega0 = omega0,
              ne_omega = omega,
              ne_omega_dot = omega_dot,
              ne_i0 = i0,
              ne_spare_df544 = spare_df544,
              ne_spare_df545 = spare_df545,
              ne_trailing_bits = []\<rparr>)))))))))))))))))))))))))))))))"

definition navic_check :: "navic_ephemeris \<Rightarrow> rtcm_encode_error + unit" where
  "navic_check m =
     raw_satellite_field (ne_satellite_id m) 6 ''NavIC PRN'' 1041"

definition navic_fields :: "navic_ephemeris \<Rightarrow> wr list" where
  "navic_fields m =
     [w_u ''message number'' (1041 :: u16) 12,
      w_u ''satellite_id'' (ne_satellite_id m) 6,
      w_u ''week_number'' (ne_week_number m) 10,
      fw_i ''a_f0'' (ne_a_f0 m) 22,
      fw_i ''a_f1'' (ne_a_f1 m) 16,
      fw_i ''a_f2'' (ne_a_f2 m) 8,
      w_u ''ura'' (ne_ura m) 4,
      w_u ''t_oc'' (ne_t_oc m) 16,
      fw_i ''t_gd'' (ne_t_gd m) 8,
      fw_i ''delta_n'' (ne_delta_n m) 22,
      w_u ''iodec'' (ne_iodec m) 8,
      w_u ''reserved'' (ne_reserved m) 10,
      w_flag (ne_l5_flag m),
      w_flag (ne_s_flag m),
      fw_i ''c_uc'' (ne_c_uc m) 15,
      fw_i ''c_us'' (ne_c_us m) 15,
      fw_i ''c_ic'' (ne_c_ic m) 15,
      fw_i ''c_is'' (ne_c_is m) 15,
      fw_i ''c_rc'' (ne_c_rc m) 15,
      fw_i ''c_rs'' (ne_c_rs m) 15,
      fw_i ''idot'' (ne_idot m) 14,
      fw_i ''m0'' (ne_m0 m) 32,
      w_u ''t_oe'' (ne_t_oe m) 16,
      w_u ''eccentricity'' (ne_eccentricity m) 32,
      w_u ''sqrt_a'' (ne_sqrt_a m) 32,
      fw_i ''omega0'' (ne_omega0 m) 32,
      fw_i ''omega'' (ne_omega m) 32,
      fw_i ''omega_dot'' (ne_omega_dot m) 22,
      fw_i ''i0'' (ne_i0 m) 32,
      w_u ''spare_df544'' (ne_spare_df544 m) 2,
      w_u ''spare_df545'' (ne_spare_df545 m) 2]"

definition navic_encode_with_policy ::
  "rtcm_policy \<Rightarrow> navic_ephemeris \<Rightarrow> rtcm_encode_error + u8 list \<times> rtcm_departure list" where
  "navic_encode_with_policy pol m =
     ebind (navic_check m) (\<lambda>_.
     ebind (w_all (navic_fields m) (fw_new 1041)) (\<lambda>w.
     close_body w (ne_trailing_bits m) pol))"

lemma navic_sync:
  "navic_check m = Inr () \<Longrightarrow> sync navic_read (navic_fields m) (m\<lparr>ne_trailing_bits := []\<rparr>)"
  unfolding navic_read_def navic_fields_def
  by (cases m) (auto intro!: sync_intros)

lemma navic_consumed: "deco navic_read (\<lambda>m bs.
    navic_check m = Inr () \<and> ne_trailing_bits m = [] \<and> fits_u 12 (1041 :: u16)
      \<and> writes (navic_fields m) bs \<and> (\<exists>cs. bs = to_bits 12 (ucast (1041 :: u16)) @ cs))"
  unfolding navic_read_def
  by (intro deco_intros)
    (simp_all add: navic_check_def navic_fields_def w_exec raw_satellite_field_ok)

interpretation navic: plain_codec navic_read "\<lambda>_. 1041" navic_check navic_fields
   ne_trailing_bits "\<lambda>bits m. m\<lparr>ne_trailing_bits := bits\<rparr>" navic_encode_with_policy
  by unfold_locales (rule navic_consumed | erule navic_sync
    | simp add: navic_encode_with_policy_def navic_check_def navic_fields_def)+

section \<open>Negative zeros of the GLONASS message\<close>

text \<open>The bits of \<^verbatim>\<open>negative_zero\<close>, one per sign-magnitude field.\<close>

definition nz_bit :: "nat \<Rightarrow> u16" where
  "nz_bit k = push_bit k 1"

abbreviation (input) NEGATIVE_ZERO_XN_DOT :: u16 where
  "NEGATIVE_ZERO_XN_DOT \<equiv> nz_bit 0"

abbreviation (input) NEGATIVE_ZERO_XN :: u16 where
  "NEGATIVE_ZERO_XN \<equiv> nz_bit 1"

abbreviation (input) NEGATIVE_ZERO_XN_DOT_DOT :: u16 where
  "NEGATIVE_ZERO_XN_DOT_DOT \<equiv> nz_bit 2"

abbreviation (input) NEGATIVE_ZERO_YN_DOT :: u16 where
  "NEGATIVE_ZERO_YN_DOT \<equiv> nz_bit 3"

abbreviation (input) NEGATIVE_ZERO_YN :: u16 where
  "NEGATIVE_ZERO_YN \<equiv> nz_bit 4"

abbreviation (input) NEGATIVE_ZERO_YN_DOT_DOT :: u16 where
  "NEGATIVE_ZERO_YN_DOT_DOT \<equiv> nz_bit 5"

abbreviation (input) NEGATIVE_ZERO_ZN_DOT :: u16 where
  "NEGATIVE_ZERO_ZN_DOT \<equiv> nz_bit 6"

abbreviation (input) NEGATIVE_ZERO_ZN :: u16 where
  "NEGATIVE_ZERO_ZN \<equiv> nz_bit 7"

abbreviation (input) NEGATIVE_ZERO_ZN_DOT_DOT :: u16 where
  "NEGATIVE_ZERO_ZN_DOT_DOT \<equiv> nz_bit 8"

abbreviation (input) NEGATIVE_ZERO_GAMMA_N :: u16 where
  "NEGATIVE_ZERO_GAMMA_N \<equiv> nz_bit 9"

abbreviation (input) NEGATIVE_ZERO_TAU_N :: u16 where
  "NEGATIVE_ZERO_TAU_N \<equiv> nz_bit 10"

abbreviation (input) NEGATIVE_ZERO_DELTA_TAU_N :: u16 where
  "NEGATIVE_ZERO_DELTA_TAU_N \<equiv> nz_bit 11"

abbreviation (input) NEGATIVE_ZERO_TAU_C :: u16 where
  "NEGATIVE_ZERO_TAU_C \<equiv> nz_bit 12"

abbreviation (input) NEGATIVE_ZERO_M_TAU_GPS :: u16 where
  "NEGATIVE_ZERO_M_TAU_GPS \<equiv> nz_bit 13"

definition NEGATIVE_ZERO_FIELDS :: u16 where
  "NEGATIVE_ZERO_FIELDS = push_bit 14 1 - 1"

text \<open>The closure \<^verbatim>\<open>ism\<close> of the reader: a field, and the mask with its bit set for a negative zero.\<close>

definition nz_mark :: "bool \<Rightarrow> u16 \<Rightarrow> u16 \<Rightarrow> u16" where
  "nz_mark is_negative_zero field negative_zero =
     (if is_negative_zero then negative_zero OR field else negative_zero)"

definition rd_ism_field :: "(int \<Rightarrow> int) \<Rightarrow> nat \<Rightarrow> u16 \<Rightarrow> u16 \<Rightarrow> (int \<times> u16) rd" where
  "rd_ism_field cast bits field negative_zero =
     rbind (rd_ism_signed_zero bits) (\<lambda>(v, is_nz).
     rreturn (cast v, nz_mark is_nz field negative_zero))"

lemma fits_ism_i: "fits_ism n v z \<Longrightarrow> fits_i n v"
  by (auto simp: fits_ism_def fits_i_def)

lemma rbind_ism_field:
  "rbind (rd_ism_field cast n f acc) k =
     rbind (rd_ism_signed_zero n) (\<lambda>(v, z). k (cast v, nz_mark z f acc))"
  by (simp add: rd_ism_field_def rbind_assoc split_def)

lemma sync_ism_field:
  assumes "\<And>v z. fits_ism n v z \<Longrightarrow> cast v = v" and "0 < n" and "n < 64"
    and "fits_ism n x z \<Longrightarrow> sync (k (x, nz_mark z f acc)) as y"
  shows "sync (rbind (rd_ism_field cast n f acc) k) (fw_ism lbl x n z # as) y"
  unfolding rbind_ism_field using assms by (intro sync_ism) simp_all

lemma deco_ism_field:
  assumes "\<And>v z. fits_ism n v z \<Longrightarrow> cast v = v" and "0 < n" and "n < 64"
    and "\<And>x z. fits_ism n x z \<Longrightarrow>
      deco (k (x, nz_mark z f acc)) (\<lambda>y cs. Q y (to_bits_ism n x z @ cs))"
  shows "deco (rbind (rd_ism_field cast n f acc) k) Q"
  unfolding rbind_ism_field using assms by (intro deco_ism) simp_all

lemma ism_casts:
  "0 < n \<Longrightarrow> n \<le> 8 \<Longrightarrow> fits_ism n v z \<Longrightarrow> as_i8 v = v"
  "0 < n \<Longrightarrow> n \<le> 16 \<Longrightarrow> fits_ism n v z \<Longrightarrow> as_i16 v = v"
  "0 < n \<Longrightarrow> n \<le> 32 \<Longrightarrow> fits_ism n v z \<Longrightarrow> as_i32 v = v"
  "0 < n \<Longrightarrow> n \<le> 64 \<Longrightarrow> fits_ism n v z \<Longrightarrow> as_i64 v = v"
  using fits_ism_i [of n v z] by (auto intro: as_i8_fits as_i16_fits as_i32_fits as_i64_fits)

lemma sync_ism_casts:
  "0 < n \<Longrightarrow> n \<le> 8 \<Longrightarrow> (fits_ism n x z \<Longrightarrow> sync (k (x, nz_mark z f acc)) as y) \<Longrightarrow>
     sync (rbind (rd_ism_field as_i8 n f acc) k) (fw_ism lbl x n z # as) y"
  "0 < n \<Longrightarrow> n \<le> 16 \<Longrightarrow> (fits_ism n x z \<Longrightarrow> sync (k (x, nz_mark z f acc)) as y) \<Longrightarrow>
     sync (rbind (rd_ism_field as_i16 n f acc) k) (fw_ism lbl x n z # as) y"
  "0 < n \<Longrightarrow> n \<le> 32 \<Longrightarrow> (fits_ism n x z \<Longrightarrow> sync (k (x, nz_mark z f acc)) as y) \<Longrightarrow>
     sync (rbind (rd_ism_field as_i32 n f acc) k) (fw_ism lbl x n z # as) y"
  "0 < n \<Longrightarrow> n \<le> 63 \<Longrightarrow> (fits_ism n x z \<Longrightarrow> sync (k (x, nz_mark z f acc)) as y) \<Longrightarrow>
     sync (rbind (rd_ism_field as_i64 n f acc) k) (fw_ism lbl x n z # as) y"
  by (rule sync_ism_field; simp add: ism_casts)+

lemma deco_ism_casts:
  "0 < n \<Longrightarrow> n \<le> 8 \<Longrightarrow>
     (\<And>x z. fits_ism n x z \<Longrightarrow>
       deco (k x (nz_mark z f acc)) (\<lambda>y cs. Q y (to_bits_ism n x z @ cs))) \<Longrightarrow>
     deco (rbind (rd_ism_field as_i8 n f acc) (\<lambda>(x, nz). k x nz)) Q"
  "0 < n \<Longrightarrow> n \<le> 16 \<Longrightarrow>
     (\<And>x z. fits_ism n x z \<Longrightarrow>
       deco (k x (nz_mark z f acc)) (\<lambda>y cs. Q y (to_bits_ism n x z @ cs))) \<Longrightarrow>
     deco (rbind (rd_ism_field as_i16 n f acc) (\<lambda>(x, nz). k x nz)) Q"
  "0 < n \<Longrightarrow> n \<le> 32 \<Longrightarrow>
     (\<And>x z. fits_ism n x z \<Longrightarrow>
       deco (k x (nz_mark z f acc)) (\<lambda>y cs. Q y (to_bits_ism n x z @ cs))) \<Longrightarrow>
     deco (rbind (rd_ism_field as_i32 n f acc) (\<lambda>(x, nz). k x nz)) Q"
  "0 < n \<Longrightarrow> n \<le> 63 \<Longrightarrow>
     (\<And>x z. fits_ism n x z \<Longrightarrow>
       deco (k x (nz_mark z f acc)) (\<lambda>y cs. Q y (to_bits_ism n x z @ cs))) \<Longrightarrow>
     deco (rbind (rd_ism_field as_i64 n f acc) (\<lambda>(x, nz). k x nz)) Q"
  by (rule deco_ism_field; simp add: ism_casts)+

lemma bit_nz_mark: "bit (nz_mark z (nz_bit k) acc) j \<longleftrightarrow> bit acc j \<or> z \<and> j = k \<and> k < 16"
  by (auto simp: nz_mark_def nz_bit_def push_bit_eq_mult bit_or_iff bit_exp_iff)

lemma and_nz_bit: "v AND nz_bit k \<noteq> 0 \<longleftrightarrow> bit v k"
  by (simp add: nz_bit_def push_bit_eq_mult and_exp_eq_0_iff_not_bit)

lemma nz_mark_take_bit: "k < 16 \<Longrightarrow> nz_mark (bit v k) (nz_bit k) (take_bit k v) = take_bit (Suc k) v"
  by (rule bit_word_eqI) (auto simp: bit_nz_mark bit_simps less_Suc_eq)

lemma nz_mark_first: "nz_mark (bit v 0) (nz_bit 0) 0 = take_bit (Suc 0) v"
  using nz_mark_take_bit [of 0 v] by simp

lemma nz_mark_second: "nz_mark (bit v (Suc 0)) (nz_bit (Suc 0)) (take_bit (Suc 0) v) = take_bit 2 v"
  using nz_mark_take_bit [of "Suc 0" v] by (simp add: numeral_2_eq_2 del: take_bit_Suc_0)

lemma take_bit_nz_mark:
  "k < n \<Longrightarrow> take_bit n (nz_mark z (nz_bit k) acc) = nz_mark z (nz_bit k) (take_bit n acc)"
  by (rule bit_word_eqI) (auto simp: bit_nz_mark bit_simps)

lemma and_not_fields: "v AND NOT NEGATIVE_ZERO_FIELDS = 0 \<longleftrightarrow> take_bit 14 v = v"
proof -
  have m: "NEGATIVE_ZERO_FIELDS = mask 14"
    by (simp add: NEGATIVE_ZERO_FIELDS_def mask_eq_exp_minus_1)
  have "v = take_bit 14 v OR (v AND NOT (mask 14))"
    by (rule bit_word_eqI) (auto simp: bit_simps)
  moreover have "take_bit 14 v AND NOT (mask 14) = 0"
    by (rule bit_word_eqI) (auto simp: bit_simps)
  ultimately show ?thesis unfolding m by (metis or.right_neutral)
qed

section \<open>GLONASS, 1020\<close>

record glonass_ephemeris =
  gl_satellite_id :: u8
  gl_frequency_channel :: u8
  gl_almanac_health :: bool
  gl_almanac_health_availability :: bool
  gl_p1 :: u8
  gl_t_k :: u16
  gl_b_n_msb :: bool
  gl_p2 :: bool
  gl_t_b :: u8
  gl_xn_dot :: int
  gl_xn :: int
  gl_xn_dot_dot :: int
  gl_yn_dot :: int
  gl_yn :: int
  gl_yn_dot_dot :: int
  gl_zn_dot :: int
  gl_zn :: int
  gl_zn_dot_dot :: int
  gl_p3 :: bool
  gl_gamma_n :: int
  gl_m_p :: u8
  gl_m_l_n_third :: bool
  gl_tau_n :: int
  gl_delta_tau_n :: int
  gl_e_n :: u8
  gl_m_p4 :: bool
  gl_m_f_t :: u8
  gl_m_n_t :: u16
  gl_m_m :: u8
  gl_additional_data_available :: bool
  gl_n_a :: u16
  gl_tau_c :: int
  gl_m_n4 :: u8
  gl_m_tau_gps :: int
  gl_m_l_n_fifth :: bool
  gl_reserved :: u8
  gl_negative_zero :: u16
  gl_trailing_bits :: "bool list"

definition glonass_read :: "glonass_ephemeris rd" where
  "glonass_read =
     rbind (rd_as 12) (\<lambda>message_number :: u16.
     if message_number \<noteq> 1020
     then parse_error (''message '' @ dec_u message_number @ '' is not GLONASS ephemeris 1020'')
     else
     rbind (rd_as 6) (\<lambda>satellite_id.
     rbind (rd_as 5) (\<lambda>frequency_channel.
     rbind rd_flag (\<lambda>almanac_health.
     rbind rd_flag (\<lambda>almanac_health_availability.
     rbind (rd_as 2) (\<lambda>p1.
     rbind (rd_as 12) (\<lambda>t_k.
     rbind rd_flag (\<lambda>b_n_msb.
     rbind rd_flag (\<lambda>p2.
     rbind (rd_as 7) (\<lambda>t_b.
     rbind (rd_ism_field as_i32 24 NEGATIVE_ZERO_XN_DOT 0) (\<lambda>(xn_dot, nz1).
     rbind (rd_ism_field as_i32 27 NEGATIVE_ZERO_XN nz1) (\<lambda>(xn, nz2).
     rbind (rd_ism_field as_i8 5 NEGATIVE_ZERO_XN_DOT_DOT nz2) (\<lambda>(xn_dot_dot, nz3).
     rbind (rd_ism_field as_i32 24 NEGATIVE_ZERO_YN_DOT nz3) (\<lambda>(yn_dot, nz4).
     rbind (rd_ism_field as_i32 27 NEGATIVE_ZERO_YN nz4) (\<lambda>(yn, nz5).
     rbind (rd_ism_field as_i8 5 NEGATIVE_ZERO_YN_DOT_DOT nz5) (\<lambda>(yn_dot_dot, nz6).
     rbind (rd_ism_field as_i32 24 NEGATIVE_ZERO_ZN_DOT nz6) (\<lambda>(zn_dot, nz7).
     rbind (rd_ism_field as_i32 27 NEGATIVE_ZERO_ZN nz7) (\<lambda>(zn, nz8).
     rbind (rd_ism_field as_i8 5 NEGATIVE_ZERO_ZN_DOT_DOT nz8) (\<lambda>(zn_dot_dot, nz9).
     rbind rd_flag (\<lambda>p3.
     rbind (rd_ism_field as_i16 11 NEGATIVE_ZERO_GAMMA_N nz9) (\<lambda>(gamma_n, nz10).
     rbind (rd_as 2) (\<lambda>m_p.
     rbind rd_flag (\<lambda>m_l_n_third.
     rbind (rd_ism_field as_i32 22 NEGATIVE_ZERO_TAU_N nz10) (\<lambda>(tau_n, nz11).
     rbind (rd_ism_field as_i8 5 NEGATIVE_ZERO_DELTA_TAU_N nz11) (\<lambda>(delta_tau_n, nz12).
     rbind (rd_as 5) (\<lambda>e_n.
     rbind rd_flag (\<lambda>m_p4.
     rbind (rd_as 4) (\<lambda>m_f_t.
     rbind (rd_as 11) (\<lambda>m_n_t.
     rbind (rd_as 2) (\<lambda>m_m.
     rbind rd_flag (\<lambda>additional_data_available.
     rbind (rd_as 11) (\<lambda>n_a.
     rbind (rd_ism_field as_i64 32 NEGATIVE_ZERO_TAU_C nz12) (\<lambda>(tau_c, nz13).
     rbind (rd_as 5) (\<lambda>m_n4.
     rbind (rd_ism_field as_i32 22 NEGATIVE_ZERO_M_TAU_GPS nz13) (\<lambda>(m_tau_gps, nz14).
     rbind rd_flag (\<lambda>m_l_n_fifth.
     rbind (rd_as 7) (\<lambda>reserved.
     rreturn \<lparr>gl_satellite_id = satellite_id,
              gl_frequency_channel = frequency_channel,
              gl_almanac_health = almanac_health,
              gl_almanac_health_availability = almanac_health_availability,
              gl_p1 = p1,
              gl_t_k = t_k,
              gl_b_n_msb = b_n_msb,
              gl_p2 = p2,
              gl_t_b = t_b,
              gl_xn_dot = xn_dot,
              gl_xn = xn,
              gl_xn_dot_dot = xn_dot_dot,
              gl_yn_dot = yn_dot,
              gl_yn = yn,
              gl_yn_dot_dot = yn_dot_dot,
              gl_zn_dot = zn_dot,
              gl_zn = zn,
              gl_zn_dot_dot = zn_dot_dot,
              gl_p3 = p3,
              gl_gamma_n = gamma_n,
              gl_m_p = m_p,
              gl_m_l_n_third = m_l_n_third,
              gl_tau_n = tau_n,
              gl_delta_tau_n = delta_tau_n,
              gl_e_n = e_n,
              gl_m_p4 = m_p4,
              gl_m_f_t = m_f_t,
              gl_m_n_t = m_n_t,
              gl_m_m = m_m,
              gl_additional_data_available = additional_data_available,
              gl_n_a = n_a,
              gl_tau_c = tau_c,
              gl_m_n4 = m_n4,
              gl_m_tau_gps = m_tau_gps,
              gl_m_l_n_fifth = m_l_n_fifth,
              gl_reserved = reserved,
              gl_negative_zero = nz14,
              gl_trailing_bits = []\<rparr>)))))))))))))))))))))))))))))))))))))"

definition is_negative_zero :: "glonass_ephemeris \<Rightarrow> u16 \<Rightarrow> bool" where
  "is_negative_zero m field \<longleftrightarrow> gl_negative_zero m AND field \<noteq> 0"

definition glonass_check :: "glonass_ephemeris \<Rightarrow> rtcm_encode_error + unit" where
  "glonass_check m =
     ebind (raw_satellite_field (gl_satellite_id m) 6 ''GLONASS slot'' 1020) (\<lambda>_.
       if gl_negative_zero m AND NOT NEGATIVE_ZERO_FIELDS \<noteq> 0
       then Inl (NegativeZeroMask 1020 (gl_negative_zero m))
       else Inr ())"

definition glonass_fields :: "glonass_ephemeris \<Rightarrow> wr list" where
  "glonass_fields m =
     [w_u ''message number'' (1020 :: u16) 12,
      w_u ''satellite_id'' (gl_satellite_id m) 6,
      w_u ''frequency_channel'' (gl_frequency_channel m) 5,
      w_flag (gl_almanac_health m),
      w_flag (gl_almanac_health_availability m),
      w_u ''p1'' (gl_p1 m) 2,
      w_u ''t_k'' (gl_t_k m) 12,
      w_flag (gl_b_n_msb m),
      w_flag (gl_p2 m),
      w_u ''t_b'' (gl_t_b m) 7,
      fw_ism ''xn_dot'' (gl_xn_dot m) 24 (is_negative_zero m NEGATIVE_ZERO_XN_DOT),
      fw_ism ''xn'' (gl_xn m) 27 (is_negative_zero m NEGATIVE_ZERO_XN),
      fw_ism ''xn_dot_dot'' (gl_xn_dot_dot m) 5 (is_negative_zero m NEGATIVE_ZERO_XN_DOT_DOT),
      fw_ism ''yn_dot'' (gl_yn_dot m) 24 (is_negative_zero m NEGATIVE_ZERO_YN_DOT),
      fw_ism ''yn'' (gl_yn m) 27 (is_negative_zero m NEGATIVE_ZERO_YN),
      fw_ism ''yn_dot_dot'' (gl_yn_dot_dot m) 5 (is_negative_zero m NEGATIVE_ZERO_YN_DOT_DOT),
      fw_ism ''zn_dot'' (gl_zn_dot m) 24 (is_negative_zero m NEGATIVE_ZERO_ZN_DOT),
      fw_ism ''zn'' (gl_zn m) 27 (is_negative_zero m NEGATIVE_ZERO_ZN),
      fw_ism ''zn_dot_dot'' (gl_zn_dot_dot m) 5 (is_negative_zero m NEGATIVE_ZERO_ZN_DOT_DOT),
      w_flag (gl_p3 m),
      fw_ism ''gamma_n'' (gl_gamma_n m) 11 (is_negative_zero m NEGATIVE_ZERO_GAMMA_N),
      w_u ''m_p'' (gl_m_p m) 2,
      w_flag (gl_m_l_n_third m),
      fw_ism ''tau_n'' (gl_tau_n m) 22 (is_negative_zero m NEGATIVE_ZERO_TAU_N),
      fw_ism ''delta_tau_n'' (gl_delta_tau_n m) 5 (is_negative_zero m NEGATIVE_ZERO_DELTA_TAU_N),
      w_u ''e_n'' (gl_e_n m) 5,
      w_flag (gl_m_p4 m),
      w_u ''m_f_t'' (gl_m_f_t m) 4,
      w_u ''m_n_t'' (gl_m_n_t m) 11,
      w_u ''m_m'' (gl_m_m m) 2,
      w_flag (gl_additional_data_available m),
      w_u ''n_a'' (gl_n_a m) 11,
      fw_ism ''tau_c'' (gl_tau_c m) 32 (is_negative_zero m NEGATIVE_ZERO_TAU_C),
      w_u ''m_n4'' (gl_m_n4 m) 5,
      fw_ism ''m_tau_gps'' (gl_m_tau_gps m) 22 (is_negative_zero m NEGATIVE_ZERO_M_TAU_GPS),
      w_flag (gl_m_l_n_fifth m),
      w_u ''reserved'' (gl_reserved m) 7]"

definition glonass_encode_with_policy ::
  "rtcm_policy \<Rightarrow> glonass_ephemeris \<Rightarrow> rtcm_encode_error + u8 list \<times> rtcm_departure list" where
  "glonass_encode_with_policy pol m =
     ebind (glonass_check m) (\<lambda>_.
     ebind (w_all (glonass_fields m) (fw_new 1020)) (\<lambda>w.
     close_body w (gl_trailing_bits m) pol))"

lemma glonass_sync:
  assumes "glonass_check m = Inr ()"
  shows "sync glonass_read (glonass_fields m) (m\<lparr>gl_trailing_bits := []\<rparr>)"
proof -
  have nz: "take_bit 14 (gl_negative_zero m) = gl_negative_zero m"
    using assms by (auto simp: glonass_check_def and_not_fields split: if_splits)
  show ?thesis
    unfolding glonass_read_def glonass_fields_def is_negative_zero_def and_nz_bit
    using nz
    by (cases m) (auto intro!: sync_intros sync_ism_casts simp: nz_mark_first nz_mark_second nz_mark_take_bit
      simp del: take_bit_Suc_0)
qed

lemma glonass_consumed: "deco glonass_read (\<lambda>m bs.
    glonass_check m = Inr () \<and> gl_trailing_bits m = [] \<and> fits_u 12 (1020 :: u16)
      \<and> writes (glonass_fields m) bs \<and> (\<exists>cs. bs = to_bits 12 (ucast (1020 :: u16)) @ cs))"
  unfolding glonass_read_def
  by (intro deco_intros deco_ism_casts)
    (simp_all add: glonass_check_def glonass_fields_def is_negative_zero_def and_nz_bit bit_nz_mark
      take_bit_nz_mark and_not_fields w_exec raw_satellite_field_ok)

interpretation glonass: plain_codec glonass_read "\<lambda>_. 1020" glonass_check glonass_fields
   gl_trailing_bits "\<lambda>bits m. m\<lparr>gl_trailing_bits := bits\<rparr>" glonass_encode_with_policy
  by unfold_locales (rule glonass_consumed | erule glonass_sync
    | simp add: glonass_encode_with_policy_def glonass_check_def glonass_fields_def is_negative_zero_def)+

end
