(* ===== verification/Rtcm_Msm.thy ===== *)
theory Rtcm_Msm
  imports Rtcm_Context
begin

text \<open>
  The Multiple Signal Messages of \<^verbatim>\<open>rtcm/msm.rs\<close>, MSM1 to MSM7 of seven
  constellations: what each kind carries, the satellite, signal and cell masks,
  the column-wise decoder, the checks of the encoder and its field writers.  The
  round trips are proved in \<open>Rtcm_Msm_Codec\<close>.
\<close>

unbundle bit_operations_syntax

section \<open>Message numbers and kinds\<close>

definition MSM_ROUGH_PHASE_RANGE_RATE_INVALID :: int where
  "MSM_ROUGH_PHASE_RANGE_RATE_INVALID = - (2 ^ 13)"

definition MSM_FINE_PHASE_RANGE_RATE_INVALID :: int where
  "MSM_FINE_PHASE_RANGE_RATE_INVALID = - (2 ^ 14)"

definition MSM_MAX_CELLS :: nat where
  "MSM_MAX_CELLS = 64"

definition kind_from_number :: "u8 \<Rightarrow> msm_kind option" where
  "kind_from_number number =
     (if number = 1 then Some Msm1 else if number = 2 then Some Msm2
      else if number = 3 then Some Msm3 else if number = 4 then Some Msm4
      else if number = 5 then Some Msm5 else if number = 6 then Some Msm6
      else if number = 7 then Some Msm7 else None)"

definition kind_number :: "msm_kind \<Rightarrow> u8" where
  "kind_number kind =
     (case kind of Msm1 \<Rightarrow> 1 | Msm2 \<Rightarrow> 2 | Msm3 \<Rightarrow> 3 | Msm4 \<Rightarrow> 4 | Msm5 \<Rightarrow> 5 | Msm6 \<Rightarrow> 6 | Msm7 \<Rightarrow> 7)"

definition carries_rough_range_ms :: "msm_kind \<Rightarrow> bool" where
  "carries_rough_range_ms kind \<longleftrightarrow> kind = Msm4 \<or> kind = Msm5 \<or> kind = Msm6 \<or> kind = Msm7"

definition carries_phase_range_rate :: "msm_kind \<Rightarrow> bool" where
  "carries_phase_range_rate kind \<longleftrightarrow> kind = Msm5 \<or> kind = Msm7"

definition carries_pseudorange :: "msm_kind \<Rightarrow> bool" where
  "carries_pseudorange kind \<longleftrightarrow> kind \<noteq> Msm2"

definition carries_phase_range :: "msm_kind \<Rightarrow> bool" where
  "carries_phase_range kind \<longleftrightarrow> kind \<noteq> Msm1"

definition carries_cnr :: "msm_kind \<Rightarrow> bool" where
  "carries_cnr kind = carries_rough_range_ms kind"

definition is_extended_resolution :: "msm_kind \<Rightarrow> bool" where
  "is_extended_resolution kind \<longleftrightarrow> kind = Msm6 \<or> kind = Msm7"

record signal_widths =
  sw_pseudorange :: nat
  sw_phase_range :: nat
  sw_lock_time :: nat
  sw_cnr :: nat

definition signal_widths_of :: "msm_kind \<Rightarrow> signal_widths" where
  "signal_widths_of kind =
     (if is_extended_resolution kind
      then \<lparr>sw_pseudorange = 20, sw_phase_range = 24, sw_lock_time = 10, sw_cnr = 10\<rparr>
      else \<lparr>sw_pseudorange = 15, sw_phase_range = 22, sw_lock_time = 4, sw_cnr = 6\<rparr>)"

definition msm_kind_of :: "u16 \<Rightarrow> (gnss_system \<times> msm_kind) option" where
  "msm_kind_of message_number =
     (if \<not> (1071 \<le> message_number \<and> message_number \<le> 1137) then None
      else
        let group = (message_number - 1071) div 10;
            system = (if group = 0 then Some Gps else if group = 1 then Some Glonass
                      else if group = 2 then Some Galileo else if group = 3 then Some Sbas
                      else if group = 4 then Some Qzss else if group = 5 then Some BeiDou
                      else if group = 6 then Some Navic else None)
        in case system of
             None \<Rightarrow> None
           | Some system \<Rightarrow>
               map_option (Pair system) (kind_from_number (ucast (message_number mod 10))))"

definition is_supported_msm :: "u16 \<Rightarrow> bool" where
  "is_supported_msm message_number \<longleftrightarrow> msm_kind_of message_number \<noteq> None"

section \<open>Messages\<close>

record msm_header =
  mh_reference_station_id :: u16
  mh_epoch_time :: u32
  mh_multiple_message :: bool
  mh_iods :: u8
  mh_reserved :: u8
  mh_clock_steering :: u8
  mh_external_clock :: u8
  mh_divergence_free_smoothing :: bool
  mh_smoothing_interval :: u8

record msm_satellite =
  ms_id :: u8
  ms_rough_range_ms :: "u8 option"
  ms_rough_range_mod1 :: u16
  ms_extended_info :: "u8 option"
  ms_rough_phase_range_rate_m_s :: "int option"

record msm_signal =
  sg_satellite_id :: u8
  sg_signal_id :: u8
  sg_fine_pseudorange :: "int option"
  sg_fine_phase_range :: "int option"
  sg_lock_time_indicator :: "u16 option"
  sg_half_cycle_ambiguity :: "bool option"
  sg_cnr :: "u16 option"
  sg_fine_phase_range_rate :: "int option"

record msm_message =
  mm_message_number :: u16
  mm_system :: gnss_system
  mm_kind :: msm_kind
  mm_header :: msm_header
  mm_signal_mask :: u32
  mm_satellites :: "msm_satellite list"
  mm_signals :: "msm_signal list"
  mm_trailing_bits :: "bool list"

section \<open>Masks and cells\<close>

text \<open>The 1-based positions of the set bits of an \<open>n\<close>-bit mask, from its most significant bit.\<close>

definition mask_ids :: "'a::len word \<Rightarrow> nat \<Rightarrow> u8 list" where
  "mask_ids msk n =
     map (\<lambda>i. word_of_nat (i + 1)) (filter (\<lambda>i. drop_bit (n - 1 - i) msk AND 1 = 1) [0..<n])"

definition set_bits :: "u64 \<Rightarrow> nat \<Rightarrow> u8 list" where
  "set_bits msk n = mask_ids msk n"

definition set_bits_u32 :: "u32 \<Rightarrow> u8 list" where
  "set_bits_u32 msk = mask_ids msk 32"

definition active_cells :: "u8 list \<Rightarrow> u8 list \<Rightarrow> bool list \<Rightarrow> (u8 \<times> u8) list" where
  "active_cells sat_ids sig_ids cell_present =
     concat (map (\<lambda>(si, sat).
       concat (map (\<lambda>(gi, sig).
         if cell_present ! (si * length sig_ids + gi) then [(sat, sig)] else [])
         (enumerate 0 sig_ids)))
       (enumerate 0 sat_ids))"

definition read_if :: "bool \<Rightarrow> nat \<Rightarrow> 'a rd \<Rightarrow> 'a option list rd" where
  "read_if carried n f =
     (if carried then rbind (rd_vec n f) (\<lambda>v. rreturn (map Some v))
      else rreturn (replicate n None))"

definition opt_filter :: "('a \<Rightarrow> bool) \<Rightarrow> 'a option \<Rightarrow> 'a option" where
  "opt_filter P v = (case v of Some x \<Rightarrow> if P x then Some x else None | None \<Rightarrow> None)"

section \<open>Decoding\<close>

definition msm_header_read :: "msm_header rd" where
  "msm_header_read =
     rbind (rd_as 12) (\<lambda>reference_station_id.
     rbind (rd_as 30) (\<lambda>epoch_time.
     rbind rd_flag (\<lambda>multiple_message.
     rbind (rd_as 3) (\<lambda>iods.
     rbind (rd_as 7) (\<lambda>reserved.
     rbind (rd_as 2) (\<lambda>clock_steering.
     rbind (rd_as 2) (\<lambda>external_clock.
     rbind rd_flag (\<lambda>divergence_free_smoothing.
     rbind (rd_as 3) (\<lambda>smoothing_interval.
     rreturn \<lparr>mh_reference_station_id = reference_station_id,
              mh_epoch_time = epoch_time,
              mh_multiple_message = multiple_message,
              mh_iods = iods,
              mh_reserved = reserved,
              mh_clock_steering = clock_steering,
              mh_external_clock = external_clock,
              mh_divergence_free_smoothing = divergence_free_smoothing,
              mh_smoothing_interval = smoothing_interval\<rparr>)))))))))"

text \<open>The satellite block, column by column, and the satellites it states.\<close>

definition msm_satellites_read :: "msm_kind \<Rightarrow> u8 list \<Rightarrow> msm_satellite list rd" where
  "msm_satellites_read kind sat_ids =
     (let nsat = length sat_ids in
     rbind (read_if (carries_rough_range_ms kind) nsat (rd_as 8)) (\<lambda>rough_range_ms.
     rbind (read_if (carries_phase_range_rate kind) nsat (rd_as 4)) (\<lambda>extended_info.
     rbind (rd_vec nsat (rd_as 10)) (\<lambda>rough_range_mod1.
     rbind (read_if (carries_phase_range_rate kind) nsat (rd_i16 14)) (\<lambda>rough_prr.
     rreturn (map (\<lambda>s. \<lparr>ms_id = sat_ids ! s,
                         ms_rough_range_ms = rough_range_ms ! s,
                         ms_rough_range_mod1 = rough_range_mod1 ! s,
                         ms_extended_info = extended_info ! s,
                         ms_rough_phase_range_rate_m_s =
                           opt_filter (\<lambda>raw. raw \<noteq> MSM_ROUGH_PHASE_RANGE_RATE_INVALID)
                             (rough_prr ! s)\<rparr>) [0..<nsat]))))))"

text \<open>The signal block over the active cells.\<close>

definition msm_signals_read :: "msm_kind \<Rightarrow> (u8 \<times> u8) list \<Rightarrow> msm_signal list rd" where
  "msm_signals_read kind cells =
     (let ncell = length cells; widths = signal_widths_of kind; phase = carries_phase_range kind in
     rbind (read_if (carries_pseudorange kind) ncell (rd_i32 (sw_pseudorange widths))) (\<lambda>fine_pr.
     rbind (read_if phase ncell (rd_i32 (sw_phase_range widths))) (\<lambda>fine_ph.
     rbind (read_if phase ncell (rd_as (sw_lock_time widths))) (\<lambda>lock.
     rbind (read_if phase ncell rd_flag) (\<lambda>half.
     rbind (read_if (carries_cnr kind) ncell (rd_as (sw_cnr widths))) (\<lambda>cnr.
     rbind (read_if (carries_phase_range_rate kind) ncell (rd_i16 15)) (\<lambda>fine_prr.
     rreturn (map (\<lambda>(c, (sat, sig)).
                \<lparr>sg_satellite_id = sat,
                 sg_signal_id = sig,
                 sg_fine_pseudorange = fine_pr ! c,
                 sg_fine_phase_range = fine_ph ! c,
                 sg_lock_time_indicator = lock ! c,
                 sg_half_cycle_ambiguity = half ! c,
                 sg_cnr = cnr ! c,
                 sg_fine_phase_range_rate =
                   opt_filter (\<lambda>raw. raw \<noteq> MSM_FINE_PHASE_RANGE_RATE_INVALID) (fine_prr ! c)\<rparr>)
              (enumerate 0 cells)))))))))"

definition over_64 :: "u16 \<Rightarrow> nat \<Rightarrow> decode_context \<Rightarrow> decode_error + decode_context" where
  "over_64 message_number cells ctx =
     (if cells > MSM_MAX_CELLS then depart (MsmCellMaskOver64 message_number cells) ctx
      else Inr ctx)"

definition msm_read :: "decode_context \<Rightarrow> (msm_message \<times> decode_context) rd" where
  "msm_read ctx =
     rbind (rd_as 12) (\<lambda>message_number :: u16.
     case msm_kind_of message_number of
       None \<Rightarrow> parse_error (''message '' @ dec_u message_number @ '' is not an MSM type'')
     | Some (system, kind) \<Rightarrow>
     rbind msm_header_read (\<lambda>header.
     rbind (rd_u 64) (\<lambda>satellite_mask.
     rbind (rd_as 32) (\<lambda>signal_mask :: u32.
     let sat_ids = set_bits satellite_mask 64; sig_ids = set_bits_u32 signal_mask;
         nsat = length sat_ids; nsig = length sig_ids in
     rbind (rlift (over_64 message_number (nsat * nsig) ctx)) (\<lambda>ctx'.
     rbind (rd_vec (nsat * nsig) rd_flag) (\<lambda>cell_present.
     rbind (msm_satellites_read kind sat_ids) (\<lambda>satellites.
     rbind (msm_signals_read kind (active_cells sat_ids sig_ids cell_present)) (\<lambda>signals.
     rreturn (\<lparr>mm_message_number = message_number,
               mm_system = system,
               mm_kind = kind,
               mm_header = header,
               mm_signal_mask = signal_mask,
               mm_satellites = satellites,
               mm_signals = signals,
               mm_trailing_bits = []\<rparr>, ctx')))))))))"

section \<open>Encoding\<close>

fun check_mask_satellites :: "u16 \<Rightarrow> u8 list \<Rightarrow> msm_satellite list \<Rightarrow> rtcm_encode_error + u8 list" where
  "check_mask_satellites number sat_ids [] = Inr sat_ids"
| "check_mask_satellites number sat_ids (s # rest) =
     (if \<not> (1 \<le> ms_id s \<and> ms_id s \<le> 64)
      then Inl (MsmMask number (SatelliteOutsideMask (ms_id s)))
      else if ms_id s \<in> set sat_ids
      then Inl (MsmMask number (SatelliteListedTwice (ms_id s)))
      else check_mask_satellites number (ms_id s # sat_ids) rest)"

fun check_mask_signals ::
  "u16 \<Rightarrow> u32 \<Rightarrow> u8 list \<Rightarrow> (u8 \<times> u8) list \<Rightarrow> msm_signal list \<Rightarrow> rtcm_encode_error + unit" where
  "check_mask_signals number msk sat_ids cells [] = Inr ()"
| "check_mask_signals number msk sat_ids cells (s # rest) =
     (if \<not> (1 \<le> sg_signal_id s \<and> sg_signal_id s \<le> 32)
      then Inl (MsmMask number (SignalOutsideMask (sg_signal_id s)))
      else if msk AND push_bit (32 - unat (sg_signal_id s)) 1 = 0
      then Inl (MsmMask number (SignalNotInMask (sg_signal_id s) msk))
      else if sg_satellite_id s \<notin> set sat_ids
      then Inl (MsmMask number (SignalSatelliteNotListed (sg_signal_id s) (sg_satellite_id s)))
      else if (sg_satellite_id s, sg_signal_id s) \<in> set cells
      then Inl (MsmMask number (CellListedTwice (sg_satellite_id s) (sg_signal_id s)))
      else check_mask_signals number msk sat_ids
             ((sg_satellite_id s, sg_signal_id s) # cells) rest)"

definition check_masks :: "msm_message \<Rightarrow> rtcm_encode_error + unit" where
  "check_masks m =
     ebind (check_mask_satellites (mm_message_number m) [] (mm_satellites m)) (\<lambda>sat_ids.
     check_mask_signals (mm_message_number m) (mm_signal_mask m) sat_ids [] (mm_signals m))"

definition check_carried ::
  "msm_message \<Rightarrow> string \<Rightarrow> bool \<Rightarrow> bool \<Rightarrow> rtcm_encode_error + unit" where
  "check_carried m field present carried =
     (if present \<noteq> carried
      then Inl (FieldPresence (mm_message_number m) (RkMsm (mm_system m) (mm_kind m)) field carried)
      else Inr ())"

definition check_rate ::
  "msm_message \<Rightarrow> u8 \<Rightarrow> u8 option \<Rightarrow> msm_optional_field \<Rightarrow> int \<Rightarrow> int option
     \<Rightarrow> rtcm_encode_error + unit" where
  "check_rate m sat sig field invalid v =
     (case v of
        None \<Rightarrow> Inr ()
      | Some x \<Rightarrow>
          if \<not> carries_phase_range_rate (mm_kind m)
          then Inl (MsmOptional (mm_message_number m) (mm_kind m) sat sig field NotCarried)
          else if x = invalid
          then Inl (MsmOptional (mm_message_number m) (mm_kind m) sat sig field (InvalidValue invalid))
          else Inr ())"

definition check_satellite :: "msm_message \<Rightarrow> msm_satellite \<Rightarrow> rtcm_encode_error + unit" where
  "check_satellite m s =
     (let kind = mm_kind m; rate = carries_phase_range_rate kind in
      ebind (check_carried m ''rough range'' (ms_rough_range_ms s \<noteq> None)
               (carries_rough_range_ms kind)) (\<lambda>_.
      ebind (if rate \<and> ms_extended_info s = None
             then Inl (MsmOptional (mm_message_number m) kind (ms_id s) None ExtendedInfo Missing)
             else if \<not> rate \<and> ms_extended_info s \<noteq> None
             then Inl (MsmOptional (mm_message_number m) kind (ms_id s) None ExtendedInfo NotCarried)
             else Inr ()) (\<lambda>_.
      check_rate m (ms_id s) None RoughPhaseRangeRate MSM_ROUGH_PHASE_RANGE_RATE_INVALID
        (ms_rough_phase_range_rate_m_s s))))"

definition check_signal :: "msm_message \<Rightarrow> msm_signal \<Rightarrow> rtcm_encode_error + unit" where
  "check_signal m s =
     (let kind = mm_kind m in
      ebind (check_carried m ''fine pseudorange'' (sg_fine_pseudorange s \<noteq> None)
               (carries_pseudorange kind)) (\<lambda>_.
      ebind (check_carried m ''fine phase range'' (sg_fine_phase_range s \<noteq> None)
               (carries_phase_range kind)) (\<lambda>_.
      ebind (check_carried m ''lock-time indicator'' (sg_lock_time_indicator s \<noteq> None)
               (carries_phase_range kind)) (\<lambda>_.
      ebind (check_carried m ''half-cycle ambiguity indicator'' (sg_half_cycle_ambiguity s \<noteq> None)
               (carries_phase_range kind)) (\<lambda>_.
      ebind (check_carried m ''CNR'' (sg_cnr s \<noteq> None) (carries_cnr kind)) (\<lambda>_.
      check_rate m (sg_satellite_id s) (Some (sg_signal_id s)) FinePhaseRangeRate
        MSM_FINE_PHASE_RANGE_RATE_INVALID (sg_fine_phase_range_rate s)))))))"

fun check_each :: "('a \<Rightarrow> 'e + unit) \<Rightarrow> 'a list \<Rightarrow> 'e + unit" where
  "check_each f [] = Inr ()"
| "check_each f (x # xs) = ebind (f x) (\<lambda>_. check_each f xs)"

definition check_optional_fields :: "msm_message \<Rightarrow> rtcm_encode_error + unit" where
  "check_optional_fields m =
     ebind (check_each (check_satellite m) (mm_satellites m)) (\<lambda>_.
     check_each (check_signal m) (mm_signals m))"

text \<open>The sorted satellites, the masks, and the cells in the order they are written.\<close>

definition msm_sat_ids :: "msm_message \<Rightarrow> u8 list" where
  "msm_sat_ids m = sort (map ms_id (mm_satellites m))"

definition msm_satellite_mask :: "u8 list \<Rightarrow> u64" where
  "msm_satellite_mask sat_ids = foldl (\<lambda>msk sat. msk OR push_bit (64 - unat sat) 1) 0 sat_ids"

definition msm_cells :: "msm_message \<Rightarrow> msm_signal option list" where
  "msm_cells m =
     map (\<lambda>(sat, sig). find (\<lambda>s. sg_satellite_id s = sat \<and> sg_signal_id s = sig) (mm_signals m))
       (List.product (msm_sat_ids m) (set_bits_u32 (mm_signal_mask m)))"

definition opt_list :: "'a option \<Rightarrow> 'a list" where
  "opt_list v = (case v of None \<Rightarrow> [] | Some x \<Rightarrow> [x])"

definition msm_ordered :: "msm_message \<Rightarrow> msm_signal list" where
  "msm_ordered m = concat (map opt_list (msm_cells m))"

text \<open>
  \<^verbatim>\<open>sort_unstable_by_key\<close>: the ids have been checked to be distinct, so the order is
  the one of a stable sort.
\<close>

definition msm_sorted_satellites :: "msm_message \<Rightarrow> msm_satellite list" where
  "msm_sorted_satellites m = sort_key ms_id (mm_satellites m)"

definition msm_check :: "rtcm_policy \<Rightarrow> msm_message \<Rightarrow> rtcm_encode_error + rtcm_departure list" where
  "msm_check pol m =
     (let number = mm_message_number m in
      if msm_kind_of number \<noteq> Some (mm_system m, mm_kind m)
      then Inl (MessageNumber number (RkMsm (mm_system m) (mm_kind m)))
      else
      ebind (check_masks m) (\<lambda>_.
      ebind (check_optional_fields m) (\<lambda>_.
      let cells = length (msm_sat_ids m) * length (set_bits_u32 (mm_signal_mask m)) in
      if cells > MSM_MAX_CELLS
      then (case pol of
              Strict \<Rightarrow> Inl (StrictDeparture (MsmCellMaskOver64 number cells))
            | Lenient \<Rightarrow> Inr [MsmCellMaskOver64 number cells])
      else Inr [])))"

definition msm_header_fields :: "msm_header \<Rightarrow> wr list" where
  "msm_header_fields h =
     [w_u ''reference station ID'' (mh_reference_station_id h) 12,
      w_u ''epoch time'' (mh_epoch_time h) 30,
      w_flag (mh_multiple_message h),
      w_u ''IODS'' (mh_iods h) 3,
      w_u ''reserved'' (mh_reserved h) 7,
      w_u ''clock steering indicator'' (mh_clock_steering h) 2,
      w_u ''external clock indicator'' (mh_external_clock h) 2,
      w_flag (mh_divergence_free_smoothing h),
      w_u ''smoothing interval'' (mh_smoothing_interval h) 3]"

definition msm_sat_name :: "msm_satellite \<Rightarrow> string \<Rightarrow> string" where
  "msm_sat_name s what = ''satellite '' @ dec_u (ms_id s) @ what"

definition cell_name :: "msm_signal \<Rightarrow> string \<Rightarrow> string" where
  "cell_name s field =
     ''satellite '' @ dec_u (sg_satellite_id s) @ '' signal '' @ dec_u (sg_signal_id s) @ '' '' @ field"

definition unwrap_or :: "'a \<Rightarrow> 'a option \<Rightarrow> 'a" where
  "unwrap_or d v = (case v of None \<Rightarrow> d | Some x \<Rightarrow> x)"

definition msm_satellite_fields :: "msm_kind \<Rightarrow> msm_satellite list \<Rightarrow> wr list" where
  "msm_satellite_fields kind satellites =
     concat (map (\<lambda>s. w_opt (\<lambda>v. w_u (msm_sat_name s '' rough range'') v 8)
       (ms_rough_range_ms s)) satellites) @
     concat (map (\<lambda>s. w_opt (\<lambda>v. w_u (msm_sat_name s '' extended info'') v 4)
       (ms_extended_info s)) satellites) @
     concat (map (\<lambda>s. [w_u (msm_sat_name s '' rough range modulo 1 ms'')
       (ms_rough_range_mod1 s) 10]) satellites) @
     (if carries_phase_range_rate kind
      then concat (map (\<lambda>s. [fw_i (msm_sat_name s '' rough phase-range rate'')
             (unwrap_or MSM_ROUGH_PHASE_RANGE_RATE_INVALID (ms_rough_phase_range_rate_m_s s)) 14])
             satellites)
      else [])"

definition msm_signal_fields :: "msm_kind \<Rightarrow> msm_signal list \<Rightarrow> wr list" where
  "msm_signal_fields kind ordered =
     (let widths = signal_widths_of kind in
     concat (map (\<lambda>s. w_opt (\<lambda>v. fw_i (cell_name s ''fine pseudorange'') v (sw_pseudorange widths))
       (sg_fine_pseudorange s)) ordered) @
     concat (map (\<lambda>s. w_opt (\<lambda>v. fw_i (cell_name s ''fine phase range'') v (sw_phase_range widths))
       (sg_fine_phase_range s)) ordered) @
     concat (map (\<lambda>s. w_opt (\<lambda>v. w_u (cell_name s ''lock-time indicator'') v (sw_lock_time widths))
       (sg_lock_time_indicator s)) ordered) @
     concat (map (\<lambda>s. w_opt w_flag (sg_half_cycle_ambiguity s)) ordered) @
     concat (map (\<lambda>s. w_opt (\<lambda>v. w_u (cell_name s ''CNR'') v (sw_cnr widths)) (sg_cnr s)) ordered) @
     (if carries_phase_range_rate kind
      then concat (map (\<lambda>s. [fw_i (cell_name s ''fine phase-range rate'')
             (unwrap_or MSM_FINE_PHASE_RANGE_RATE_INVALID (sg_fine_phase_range_rate s)) 15]) ordered)
      else []))"

definition msm_fields :: "msm_message \<Rightarrow> wr list" where
  "msm_fields m =
     w_u ''message number'' (mm_message_number m) 12 # msm_header_fields (mm_header m) @
     [w_u ''satellite mask'' (msm_satellite_mask (msm_sat_ids m)) 64,
      w_u ''signal mask'' (mm_signal_mask m) 32] @
     map (\<lambda>cell. w_flag (cell \<noteq> None)) (msm_cells m) @
     msm_satellite_fields (mm_kind m) (msm_sorted_satellites m) @
     msm_signal_fields (mm_kind m) (msm_ordered m)"

definition msm_encode_with_policy ::
  "rtcm_policy \<Rightarrow> msm_message \<Rightarrow> rtcm_encode_error + u8 list \<times> rtcm_departure list" where
  "msm_encode_with_policy pol m =
     ebind (msm_check pol m) (\<lambda>departures.
     ebind (w_all (msm_fields m) (fw_new (mm_message_number m))) (\<lambda>w.
     ebind (close_body w (mm_trailing_bits m) pol) (\<lambda>(body, after).
     Inr (body, departures @ after))))"

definition msm_signal_mask_of :: "msm_signal list \<Rightarrow> u32" where
  "msm_signal_mask_of signals =
     foldl (\<lambda>msk s. msk OR push_bit (32 - unat (sg_signal_id s)) 1) 0
       (filter (\<lambda>s. 1 \<le> sg_signal_id s \<and> sg_signal_id s \<le> 32) signals)"

end
