(* ===== verification/Rtcm_Msm_Codec.thy ===== *)
theory Rtcm_Msm_Codec
  imports Rtcm_Msm
begin

text \<open>
  The round trips of the Multiple Signal Messages: a mask and the list of ids it
  states are inverse to each other, a block of columns reads back what was
  written, the encoder's checks are exactly what a decoded message satisfies, and
  so \<open>msm_read\<close> and \<open>msm_encode_with_policy\<close> meet the contract \<open>body_codec\<close>.
  The wire states satellites and cells in mask order, so a message given in any
  other order comes back in the order \<open>msm_norm\<close> gives it.
\<close>

unbundle bit_operations_syntax

section \<open>Masks\<close>

definition mask_of :: "nat \<Rightarrow> u8 list \<Rightarrow> 'a::len word" where
  "mask_of n ids = foldl (\<lambda>msk i. msk OR push_bit (n - unat i) 1) 0 ids"

lemma drop_bit_and_1: "drop_bit k w AND 1 = 1 \<longleftrightarrow> bit w k" for w :: "'a::len word"
  by (simp add: bit_iff_odd_drop_bit and_one_eq odd_iff_mod_2_eq_one)

lemma unat_word_of_nat_u8: "i < 256 \<Longrightarrow> unat (word_of_nat i :: u8) = i"
  by (simp add: unat_of_nat)

lemma set_mask_ids:
  assumes "n < 256"
  shows "x \<in> set (mask_ids msk n) \<longleftrightarrow> 1 \<le> unat x \<and> unat x \<le> n \<and> bit msk (n - unat x)"
proof
  assume "x \<in> set (mask_ids msk n)"
  then obtain i where "x = word_of_nat (i + 1)" "i < n" "bit msk (n - 1 - i)"
    by (auto simp: mask_ids_def drop_bit_and_1)
  then show "1 \<le> unat x \<and> unat x \<le> n \<and> bit msk (n - unat x)"
    using assms unat_word_of_nat_u8 [of "i + 1"] by simp
next
  assume x: "1 \<le> unat x \<and> unat x \<le> n \<and> bit msk (n - unat x)"
  have "x = word_of_nat ((unat x - 1) + 1)" using x by simp
  with x show "x \<in> set (mask_ids msk n)"
    unfolding mask_ids_def set_map set_filter drop_bit_and_1
    by (intro image_eqI [of _ _ "unat x - 1"]) auto
qed

lemma mask_ids_sorted:
  assumes "n < 256"
  shows "sorted (mask_ids msk n)" and "distinct (mask_ids msk n)"
proof -
  have m: "1 + word_of_nat i < (1 + word_of_nat j :: u8)" if "i < j" "j < n" for i j
    using that assms unat_word_of_nat_u8 [of "i + 1"] unat_word_of_nat_u8 [of "j + 1"]
    by (simp add: word_less_nat_alt)
  have "sorted_wrt (<) (filter (\<lambda>i. drop_bit (n - 1 - i) msk AND 1 = 1) [0..<n])"
    by (intro sorted_wrt_filter) (simp add: strict_sorted_iff)
  then have "sorted_wrt (<) (mask_ids msk n)"
    unfolding mask_ids_def sorted_wrt_map
    by (rule sorted_wrt_mono_rel [rotated]) (use m in auto)
  then show "sorted (mask_ids msk n)" and "distinct (mask_ids msk n)"
    by (simp_all add: strict_sorted_iff)
qed

lemma bit_mask_of:
  "bit (mask_of n ids :: 'a::len word) k \<longleftrightarrow> k < LENGTH('a) \<and> (\<exists>i\<in>set ids. n - unat i = k)"
proof -
  have "bit (foldl (\<lambda>msk i. msk OR push_bit (n - unat i) 1) m ids :: 'a word) k \<longleftrightarrow>
      bit m k \<or> k < LENGTH('a) \<and> (\<exists>i\<in>set ids. n - unat i = k)" for m
    by (induction ids arbitrary: m) (auto simp: bit_or_iff push_bit_eq_mult bit_exp_iff)
  then show ?thesis by (simp add: mask_of_def)
qed

lemma mask_of_mask_ids:
  assumes "LENGTH('a) = n" and "n < 256"
  shows "mask_of n (mask_ids msk n) = (msk :: 'a::len word)"
proof (rule bit_word_eqI)
  fix k assume k: "k < LENGTH('a)"
  show "bit (mask_of n (mask_ids msk n) :: 'a word) k = bit msk k"
  proof
    assume "bit (mask_of n (mask_ids msk n) :: 'a word) k"
    then show "bit msk k" by (auto simp: bit_mask_of set_mask_ids assms(2))
  next
    assume b: "bit msk k"
    let ?x = "word_of_nat (n - k) :: u8"
    have "unat ?x = n - k" using assms by (intro unat_word_of_nat_u8) simp
    with b k assms have "?x \<in> set (mask_ids msk n)" "n - unat ?x = k"
      by (auto simp: set_mask_ids)
    then show "bit (mask_of n (mask_ids msk n) :: 'a word) k" using k by (auto simp: bit_mask_of)
  qed
qed

lemma mask_ids_mask_of:
  assumes "LENGTH('a) = n" and "n < 256" and "distinct ids"
    and "\<forall>i\<in>set ids. 1 \<le> unat i \<and> unat i \<le> n"
  shows "mask_ids (mask_of n ids :: 'a::len word) n = sort ids"
proof (rule sorted_distinct_set_unique)
  show "set (mask_ids (mask_of n ids :: 'a word) n) = set (sort ids)"
  proof (rule set_eqI)
    fix x
    have "x \<in> set (mask_ids (mask_of n ids :: 'a word) n)
        \<longleftrightarrow> 1 \<le> unat x \<and> unat x \<le> n \<and> (\<exists>i\<in>set ids. n - unat i = n - unat x)"
      using assms(1,2) by (auto simp: set_mask_ids bit_mask_of)
    also have "\<dots> \<longleftrightarrow> x \<in> set ids"
    proof -
      have "n - unat i = n - unat x \<longleftrightarrow> i = x" if "i \<in> set ids" "1 \<le> unat x" "unat x \<le> n" for i
        using assms(4) that by (auto simp: word_unat_eq_iff)
      then show ?thesis using assms(4) by auto
    qed
    finally show "x \<in> set (mask_ids (mask_of n ids :: 'a word) n) \<longleftrightarrow> x \<in> set (sort ids)" by simp
  qed
qed (use mask_ids_sorted [OF assms(2)] assms(3) in simp_all)

lemma msm_satellite_mask_eq: "msm_satellite_mask ids = mask_of 64 ids"
  by (simp add: msm_satellite_mask_def mask_of_def)

section \<open>Cells\<close>

lemma cells_row:
  "off + k + length sigs \<le> length bs \<Longrightarrow>
   concat (map (\<lambda>(gi, sig). if bs ! (off + gi) then [f sig] else []) (enumerate k sigs))
     = map fst (filter snd (zip (map f sigs) (drop (off + k) bs)))"
proof (induction sigs arbitrary: k)
  case (Cons s sigs)
  have "drop (off + k) bs = bs ! (off + k) # drop (off + Suc k) bs"
    using Cons.prems by (simp add: Cons_nth_drop_Suc)
  with Cons.IH [of "Suc k"] Cons.prems show ?case by simp
qed simp

lemma zip_take_len: "length xs \<le> n \<Longrightarrow> zip xs (take n ys) = zip xs ys"
proof (induction xs arbitrary: n ys)
  case (Cons x xs)
  then show ?case by (cases n; cases ys) auto
qed simp

lemma cells_rows:
  "(k + length sats) * length sigs \<le> length bs \<Longrightarrow>
   concat (map (\<lambda>(si, sat). concat (map (\<lambda>(gi, sig).
       if bs ! (si * length sigs + gi) then [(sat, sig)] else []) (enumerate 0 sigs))) (enumerate k sats))
     = map fst (filter snd (zip (List.product sats sigs) (drop (k * length sigs) bs)))"
proof (induction sats arbitrary: k)
  case (Cons s sats)
  let ?n = "length sigs"
  have "zip (List.product (s # sats) sigs) (drop (k * ?n) bs)
      = zip (map (Pair s) sigs) (drop (k * ?n) bs) @ zip (List.product sats sigs) (drop (Suc k * ?n) bs)"
    by (simp add: zip_append1 zip_take_len)
  moreover have "concat (map (\<lambda>(gi, sig). if bs ! (k * ?n + gi) then [(s, sig)] else []) (enumerate 0 sigs))
      = map fst (filter snd (zip (map (Pair s) sigs) (drop (k * ?n) bs)))"
    using cells_row [of "k * ?n" 0 sigs bs "Pair s"] Cons.prems by (simp add: algebra_simps)
  moreover have "(Suc k + length sats) * ?n \<le> length bs" using Cons.prems by simp
  ultimately show ?case using Cons.IH [of "Suc k"] by simp
qed simp

lemma active_cells_eq:
  assumes "length bs = length sats * length sigs"
  shows "active_cells sats sigs bs = map fst (filter snd (zip (List.product sats sigs) bs))"
  using cells_rows [of 0 sats sigs bs] assms by (simp add: active_cells_def)

text \<open>Cells found by their key are the cells themselves, in the order of the keys.\<close>

lemma find_key:
  "distinct ps \<Longrightarrow> length bs = length ps \<Longrightarrow> map key xs = map fst (filter snd (zip ps bs)) \<Longrightarrow>
     map (\<lambda>p. find (\<lambda>x. key x = p) xs \<noteq> None) ps = bs
     \<and> concat (map (\<lambda>p. opt_list (find (\<lambda>x. key x = p) xs)) ps) = xs"
proof (induction ps arbitrary: bs xs)
  case (Cons p ps)
  obtain b bs' where bs: "bs = b # bs'" using Cons.prems(2) by (cases bs) auto
  show ?case
  proof (cases b)
    case True
    then obtain x xs' where xs: "xs = x # xs'" and x: "key x = p"
      and k: "map key xs' = map fst (filter snd (zip ps bs'))"
      using Cons.prems(3) bs by auto
    have skip: "find (\<lambda>x. key x = q) xs = find (\<lambda>x. key x = q) xs'" if "q \<in> set ps" for q
      using that Cons.prems(1) x xs by auto
    have eq: "map (\<lambda>p. find (\<lambda>x. key x = p) xs \<noteq> None) ps = map (\<lambda>p. find (\<lambda>x. key x = p) xs' \<noteq> None) ps"
      "map (\<lambda>p. opt_list (find (\<lambda>x. key x = p) xs)) ps = map (\<lambda>p. opt_list (find (\<lambda>x. key x = p) xs')) ps"
      by (auto simp: skip)
    have ih: "map (\<lambda>p. find (\<lambda>x. key x = p) xs' \<noteq> None) ps = bs'"
      "concat (map (\<lambda>p. opt_list (find (\<lambda>x. key x = p) xs')) ps) = xs'"
      using Cons.IH [of bs' xs'] Cons.prems(1,2) k bs by simp_all
    have a: "map (\<lambda>p. find (\<lambda>x. key x = p) xs \<noteq> None) ps = bs'"
      and b: "concat (map (\<lambda>p. opt_list (find (\<lambda>x. key x = p) xs)) ps) = xs'"
      by (simp_all only: eq ih)
    have fp: "find (\<lambda>x. key x = p) xs = Some x" using x xs by simp
    show ?thesis
      unfolding list.map concat.simps fp a b by (simp add: opt_list_def bs True xs)
  next
    case False
    have k: "map key xs = map fst (filter snd (zip ps bs'))"
      using Cons.prems(3) bs False by simp
    have "set (map key xs) \<subseteq> set ps"
      unfolding k by (auto dest: set_zip_leftD)
    with Cons.prems(1) have "find (\<lambda>x. key x = p) xs = None"
      by (auto simp: find_None_iff)
    then show ?thesis
      using Cons.IH [of bs' xs] Cons.prems(1,2) k bs False by (simp add: opt_list_def)
  qed
qed simp

lemma find_SomeD: "find P xs = Some x \<Longrightarrow> x \<in> set xs \<and> P x"
  by (induction xs) (auto split: if_splits)

lemma keys_found:
  "map key (concat (map (\<lambda>p. opt_list (find (\<lambda>x. key x = p) xs)) ps))
     = map fst (filter snd (zip ps (map (\<lambda>p. find (\<lambda>x. key x = p) xs \<noteq> None) ps)))"
proof (induction ps)
  case (Cons p ps)
  then show ?case
    by (cases "find (\<lambda>x. key x = p) xs") (auto simp: opt_list_def dest!: find_SomeD)
qed simp

lemma set_found: "set (concat (map (\<lambda>p. opt_list (find (\<lambda>x. key x = p) xs)) ps)) \<subseteq> set xs"
  by (auto simp: opt_list_def dest: find_SomeD [OF sym] split: option.splits)

section \<open>Columns\<close>

lemma sync_read_if:
  assumes "\<And>x v. x \<in> set xs \<Longrightarrow> col x = Some v \<Longrightarrow> sync f [wv x v] v"
    and "\<forall>x\<in>set xs. (col x \<noteq> None) = carried" and "n = length xs"
  shows "sync (read_if carried n f) (concat (map (\<lambda>x. w_opt (wv x) (col x)) xs)) (map col xs)"
proof (cases carried)
  case True
  have vec: "sync (rd_vec n f) (concat (map (\<lambda>x. w_opt (wv x) (col x)) xs)) (map (\<lambda>x. the (col x)) xs)"
    using assms True by (intro sync_vec) fastforce+
  have eq: "map Some (map (\<lambda>x. the (col x)) xs) = map col xs"
    using assms(2) True by auto
  have "sync (rbind (rd_vec n f) (\<lambda>v. rreturn (map Some v)))
      (concat (map (\<lambda>x. w_opt (wv x) (col x)) xs) @ []) (map col xs)"
    by (rule sync_bind [OF vec]) (rule sync_return [OF eq])
  then show ?thesis using True by (simp add: read_if_def)
next
  case False
  have c: "concat (map (\<lambda>x. w_opt (wv x) (col x)) xs) = []"
    using assms(2) False by auto
  have "map col xs = map (\<lambda>_. None) xs"
    using assms(2) False by simp
  then have r: "replicate n None = map col xs"
    by (simp add: assms(3) map_replicate_const)
  show ?thesis
    unfolding read_if_def if_not_P [OF False] c by (rule sync_return [OF r])
qed

lemma concat_map_Nil: "concat (map (\<lambda>_. []) xs) = []"
  by simp

lemma sync_read_rate:
  assumes "\<And>x v. sync f [wv x v] v" and "n = length xs"
  shows "sync (read_if carried n f)
     (if carried then concat (map (\<lambda>x. [wv x (val x)]) xs) else [])
     (map (\<lambda>x. if carried then Some (val x) else None) xs)"
  using sync_read_if [of xs "\<lambda>x. if carried then Some (val x) else None" f wv carried n] assms
  by (cases carried) (simp_all add: concat_map_Nil)

definition wcol :: "(string \<Rightarrow> 'v \<Rightarrow> wr list) \<Rightarrow> 'v list \<Rightarrow> bool list \<Rightarrow> bool" where
  "wcol f vs bs \<longleftrightarrow> (\<forall>nms. length nms = length vs \<longrightarrow> writes (concat (map2 f nms vs)) bs)"

lemma wcol_writes:
  assumes "wcol f (map col xs) bs"
  shows "writes (concat (map (\<lambda>x. f (nm x) (col x)) xs)) bs"
proof -
  have "map2 f (map nm xs) (map col xs) = map (\<lambda>x. f (nm x) (col x)) xs"
    by (simp add: zip_map_map comp_def zip_same_conv_map)
  moreover from assms [unfolded wcol_def, rule_format, of "map nm xs"]
  have "writes (concat (map2 f (map nm xs) (map col xs))) bs" by (simp only: length_map)
  ultimately show ?thesis by (simp only:)
qed

lemma deco_vec_col:
  assumes "deco f (\<lambda>v bs. P v \<and> (\<forall>nm. writes (wv nm v) bs))"
  shows "deco (rd_vec n f) (\<lambda>vs bs. length vs = n \<and> (\<forall>v\<in>set vs. P v) \<and> wcol wv vs bs)"
proof (induction n)
  case 0
  show ?case by (auto intro!: deco_intros simp: wcol_def w_exec)
next
  case (Suc n)
  have step: "wcol wv (v # vs) (bs @ cs)" if "\<forall>nm. writes (wv nm v) bs" "wcol wv vs cs" for v vs bs cs
    unfolding wcol_def
  proof (intro allI impI)
    fix nms :: "string list" assume "length nms = length (v # vs)"
    then obtain nm nms' where "nms = nm # nms'" "length nms' = length vs" by (cases nms) auto
    with that show "writes (concat (map2 wv nms (v # vs))) (bs @ cs)"
      by (auto simp: wcol_def intro: writes_append)
  qed
  show ?case
    unfolding rd_vec.simps
    by (rule deco_bind [OF assms], rule deco_bind [OF Suc.IH], rule deco_return) (auto intro: step)
qed

lemma deco_read_if:
  assumes "deco f (\<lambda>v bs. P v \<and> (\<forall>nm. writes [wv nm v] bs))"
  shows "deco (read_if carried n f) (\<lambda>vs bs. length vs = n
     \<and> (\<forall>v\<in>set vs. (v \<noteq> None) = carried \<and> (\<forall>x. v = Some x \<longrightarrow> P x))
     \<and> wcol (\<lambda>nm. w_opt (wv nm)) vs bs)"
proof (cases carried)
  case True
  have some: "wcol (\<lambda>nm. w_opt (wv nm)) (map Some vs) bs" if "wcol (\<lambda>nm v. [wv nm v]) vs bs" for vs bs
    using that by (simp add: wcol_def zip_map2 comp_def split_def)
  show ?thesis
    unfolding read_if_def if_P [OF True]
    by (rule deco_bind [OF deco_vec_col [OF assms]], rule deco_return) (auto simp: some True)
next
  case False
  have "concat (map2 (\<lambda>nm. w_opt (wv nm)) nms (replicate n None)) = []" if "length nms = n" for nms
    using that by (auto simp: set_zip)
  then have "writes (concat (map2 (\<lambda>nm. w_opt (wv nm)) nms (replicate n None))) []"
    if "length nms = n" for nms
    using that by (simp only: writes_Nil)
  then have "wcol (\<lambda>nm. w_opt (wv nm)) (replicate n None) []"
    unfolding wcol_def length_replicate by blast
  then show ?thesis
    unfolding read_if_def if_not_P [OF False]
    by (intro deco_return) (auto simp: False)
qed

section \<open>What the checks say\<close>

definition sig_key :: "msm_signal \<Rightarrow> u8 \<times> u8" where
  "sig_key s = (sg_satellite_id s, sg_signal_id s)"

definition sat_ok :: "msm_kind \<Rightarrow> msm_satellite \<Rightarrow> bool" where
  "sat_ok kind s \<longleftrightarrow>
     (ms_rough_range_ms s \<noteq> None) = carries_rough_range_ms kind
     \<and> (ms_extended_info s \<noteq> None) = carries_phase_range_rate kind
     \<and> (\<forall>x. ms_rough_phase_range_rate_m_s s = Some x \<longrightarrow>
          carries_phase_range_rate kind \<and> x \<noteq> MSM_ROUGH_PHASE_RANGE_RATE_INVALID)"

definition sig_ok :: "msm_kind \<Rightarrow> msm_signal \<Rightarrow> bool" where
  "sig_ok kind s \<longleftrightarrow>
     (sg_fine_pseudorange s \<noteq> None) = carries_pseudorange kind
     \<and> (sg_fine_phase_range s \<noteq> None) = carries_phase_range kind
     \<and> (sg_lock_time_indicator s \<noteq> None) = carries_phase_range kind
     \<and> (sg_half_cycle_ambiguity s \<noteq> None) = carries_phase_range kind
     \<and> (sg_cnr s \<noteq> None) = carries_cnr kind
     \<and> (\<forall>x. sg_fine_phase_range_rate s = Some x \<longrightarrow>
          carries_phase_range_rate kind \<and> x \<noteq> MSM_FINE_PHASE_RANGE_RATE_INVALID)"

definition masks_ok :: "msm_message \<Rightarrow> bool" where
  "masks_ok m \<longleftrightarrow>
     (\<forall>s\<in>set (mm_satellites m). 1 \<le> ms_id s \<and> ms_id s \<le> 64)
     \<and> distinct (map ms_id (mm_satellites m))
     \<and> (\<forall>s\<in>set (mm_signals m). 1 \<le> sg_signal_id s \<and> sg_signal_id s \<le> 32
          \<and> bit (mm_signal_mask m) (32 - unat (sg_signal_id s))
          \<and> sg_satellite_id s \<in> ms_id ` set (mm_satellites m))
     \<and> distinct (map sig_key (mm_signals m))"

lemma check_mask_satellites_ok:
  "check_mask_satellites number seen ss = Inr r \<longleftrightarrow>
     (\<forall>s\<in>set ss. 1 \<le> ms_id s \<and> ms_id s \<le> 64 \<and> ms_id s \<notin> set seen)
     \<and> distinct (map ms_id ss) \<and> r = rev (map ms_id ss) @ seen"
  by (induction ss arbitrary: seen) (auto simp: image_iff)

lemma check_mask_signals_ok:
  "check_mask_signals number msk ids cells ss = Inr () \<longleftrightarrow>
     (\<forall>s\<in>set ss. 1 \<le> sg_signal_id s \<and> sg_signal_id s \<le> 32
        \<and> bit msk (32 - unat (sg_signal_id s)) \<and> sg_satellite_id s \<in> set ids
        \<and> sig_key s \<notin> set cells) \<and> distinct (map sig_key ss)"
proof (induction ss arbitrary: cells)
  case (Cons s ss)
  have "msk AND push_bit k 1 = 0 \<longleftrightarrow> \<not> bit msk k" for k
    by (simp add: push_bit_eq_mult and_exp_eq_0_iff_not_bit)
  then show ?case using Cons.IH by (auto simp: sig_key_def image_iff)
qed simp

lemma check_masks_ok: "check_masks m = Inr () \<longleftrightarrow> masks_ok m"
  by (auto simp: check_masks_def masks_ok_def check_mask_satellites_ok check_mask_signals_ok)

lemma check_each_ok: "check_each f xs = Inr () \<longleftrightarrow> (\<forall>x\<in>set xs. f x = Inr ())"
  by (induction xs) auto

lemma check_satellite_ok: "check_satellite m s = Inr () \<longleftrightarrow> sat_ok (mm_kind m) s"
  by (auto simp: check_satellite_def sat_ok_def check_carried_def check_rate_def Let_def
      split: option.splits if_splits)

lemma check_signal_ok: "check_signal m s = Inr () \<longleftrightarrow> sig_ok (mm_kind m) s"
  by (auto simp: check_signal_def sig_ok_def check_carried_def check_rate_def Let_def
      split: option.splits if_splits)

lemma check_optional_fields_ok:
  "check_optional_fields m = Inr () \<longleftrightarrow>
     (\<forall>s\<in>set (mm_satellites m). sat_ok (mm_kind m) s)
     \<and> (\<forall>s\<in>set (mm_signals m). sig_ok (mm_kind m) s)"
  by (simp add: check_optional_fields_def check_each_ok check_satellite_ok check_signal_ok)

section \<open>The satellite block\<close>

text \<open>A phase-range rate as the wire states it: the invalid value where there is none.\<close>

definition wire_rate :: "msm_kind \<Rightarrow> int \<Rightarrow> int option \<Rightarrow> int option" where
  "wire_rate kind invalid v =
     (if carries_phase_range_rate kind then Some (unwrap_or invalid v) else None)"

lemma opt_filter_wire_rate:
  "(\<forall>x. v = Some x \<longrightarrow> carries_phase_range_rate kind \<and> x \<noteq> invalid) \<Longrightarrow>
     opt_filter (\<lambda>raw. raw \<noteq> invalid) (wire_rate kind invalid v) = v"
  by (cases v) (auto simp: wire_rate_def opt_filter_def unwrap_or_def)

lemma wire_rate_opt_filter:
  "(v \<noteq> None) = carries_phase_range_rate kind \<Longrightarrow>
     wire_rate kind invalid (opt_filter (\<lambda>raw. raw \<noteq> invalid) v) = v"
  by (cases v) (auto simp: wire_rate_def opt_filter_def unwrap_or_def)

lemma opt_filter_Some: "opt_filter P v = Some x \<longleftrightarrow> v = Some x \<and> P x"
  by (cases v) (auto simp: opt_filter_def)

lemma nth_carried: "\<forall>v\<in>set vs. (v \<noteq> None) = c \<Longrightarrow> i < length vs \<Longrightarrow> vs ! i = Some x \<Longrightarrow> c"
  using nth_mem [of i vs] by force

lemma concat_wire_rate:
  "concat (map (\<lambda>s. w_opt (wv s) (wire_rate kind invalid (col s))) xs) =
     (if carries_phase_range_rate kind
      then concat (map (\<lambda>s. [wv s (unwrap_or invalid (col s))]) xs) else [])"
  by (simp add: wire_rate_def)

lemma sync_wire_rate:
  assumes "\<And>x v. sync f [wv x v] v" and "n = length xs"
  shows "sync (read_if (carries_phase_range_rate kind) n f)
     (if carries_phase_range_rate kind
      then concat (map (\<lambda>s. [wv s (unwrap_or invalid (col s))]) xs) else [])
     (map (\<lambda>s. wire_rate kind invalid (col s)) xs)"
  unfolding concat_wire_rate [symmetric]
  by (rule sync_read_if) (use assms in \<open>auto simp: wire_rate_def\<close>)

lemma sat_rebuild:
  "sat_ok kind s \<Longrightarrow>
     \<lparr>ms_id = ms_id s,
      ms_rough_range_ms = ms_rough_range_ms s,
      ms_rough_range_mod1 = ms_rough_range_mod1 s,
      ms_extended_info = ms_extended_info s,
      ms_rough_phase_range_rate_m_s =
        opt_filter (\<lambda>raw. raw \<noteq> MSM_ROUGH_PHASE_RANGE_RATE_INVALID)
          (wire_rate kind MSM_ROUGH_PHASE_RANGE_RATE_INVALID (ms_rough_phase_range_rate_m_s s))\<rparr> = s"
  by (cases s) (auto simp: sat_ok_def opt_filter_wire_rate)

lemma single_syncs:
  "n \<le> LENGTH('a) \<Longrightarrow> LENGTH('a) \<le> 64 \<Longrightarrow> sync (rd_as n) [w_u f v n] (v :: 'a::len word)"
  "0 < n \<Longrightarrow> n \<le> 16 \<Longrightarrow> sync (rd_i16 n) [fw_i f i n] i"
  "0 < n \<Longrightarrow> n \<le> 32 \<Longrightarrow> sync (rd_i32 n) [fw_i f i n] i"
  "sync rd_flag [w_flag b] b"
  by (rule sync_single, rule sync_intros; auto intro: sync_return)+

lemma msm_satellites_sync:
  assumes ok: "\<forall>s\<in>set ss. sat_ok kind s"
  shows "sync (msm_satellites_read kind (map ms_id ss)) (msm_satellite_fields kind ss) ss"
proof -
  have c1: "sync (read_if (carries_rough_range_ms kind) (length ss) (rd_as 8))
      (concat (map (\<lambda>s. w_opt (\<lambda>v. w_u (msm_sat_name s '' rough range'') v 8)
         (ms_rough_range_ms s)) ss)) (map ms_rough_range_ms ss)"
    by (rule sync_read_if) (use ok in \<open>auto simp: sat_ok_def intro: single_syncs\<close>)
  have c2: "sync (read_if (carries_phase_range_rate kind) (length ss) (rd_as 4))
      (concat (map (\<lambda>s. w_opt (\<lambda>v. w_u (msm_sat_name s '' extended info'') v 4)
         (ms_extended_info s)) ss)) (map ms_extended_info ss)"
    by (rule sync_read_if) (use ok in \<open>auto simp: sat_ok_def intro: single_syncs\<close>)
  have c3: "sync (rd_vec (length ss) (rd_as 10))
      (concat (map (\<lambda>s. [w_u (msm_sat_name s '' rough range modulo 1 ms'')
         (ms_rough_range_mod1 s) 10]) ss)) (map ms_rough_range_mod1 ss)"
    by (rule sync_vec) (auto intro: single_syncs)
  note c4 = sync_wire_rate [of "rd_i16 14" "\<lambda>s v. fw_i (msm_sat_name s '' rough phase-range rate'') v 14"
      "length ss" ss kind MSM_ROUGH_PHASE_RANGE_RATE_INVALID ms_rough_phase_range_rate_m_s,
      OF single_syncs(2) refl]
  have eq: "map (\<lambda>i. \<lparr>ms_id = map ms_id ss ! i,
                       ms_rough_range_ms = map ms_rough_range_ms ss ! i,
                       ms_rough_range_mod1 = map ms_rough_range_mod1 ss ! i,
                       ms_extended_info = map ms_extended_info ss ! i,
                       ms_rough_phase_range_rate_m_s =
                         opt_filter (\<lambda>raw. raw \<noteq> MSM_ROUGH_PHASE_RANGE_RATE_INVALID)
                           (map (\<lambda>s. wire_rate kind MSM_ROUGH_PHASE_RANGE_RATE_INVALID
                              (ms_rough_phase_range_rate_m_s s)) ss ! i)\<rparr>)
              [0..<length ss] = ss"
    using ok by (intro nth_equalityI) (simp_all add: sat_rebuild)
  show ?thesis
    unfolding msm_satellites_read_def msm_satellite_fields_def Let_def length_map
    by (rule sync_bind [OF c1], rule sync_bind [OF c2], rule sync_bind [OF c3],
      rule sync_bind [OF c4, where bs = "[]", simplified]) (simp_all add: sync_return eq)
qed


lemma single_decos:
  "n \<le> LENGTH('a) \<Longrightarrow> LENGTH('a) \<le> 64 \<Longrightarrow>
     deco (rd_as n) (\<lambda>v bs. True \<and> (\<forall>nm. writes [w_u nm (v :: 'a::len word) n] bs))"
  "0 < n \<Longrightarrow> n \<le> 16 \<Longrightarrow> deco (rd_i16 n) (\<lambda>v bs. True \<and> (\<forall>nm. writes [fw_i nm v n] bs))"
  "0 < n \<Longrightarrow> n \<le> 32 \<Longrightarrow> deco (rd_i32 n) (\<lambda>v bs. True \<and> (\<forall>nm. writes [fw_i nm v n] bs))"
  "deco rd_flag (\<lambda>v bs. True \<and> (\<forall>nm :: string. writes [w_flag v] bs))"
  by (rule deco_single, (rule deco_intros)+; simp add: w_exec)+

lemma nth_column:
  assumes "length vs = n"
  shows "map (\<lambda>i. vs ! i) [0..<n] = vs"
  using map_nth [of vs] assms by simp

lemma wire_rate_column:
  assumes "length vs = n" and "\<forall>v\<in>set vs. (v \<noteq> None) = carries_phase_range_rate kind"
  shows "map (\<lambda>i. wire_rate kind invalid (opt_filter (\<lambda>raw. raw \<noteq> invalid) (vs ! i))) [0..<n] = vs"
  using assms by (intro nth_equalityI) (simp_all add: wire_rate_opt_filter)

lemma wcol_wire_rate:
  assumes "wcol (\<lambda>nm. w_opt (wv nm)) (map (\<lambda>s. wire_rate kind invalid (col s)) xs) bs"
  shows "writes (if carries_phase_range_rate kind
      then concat (map (\<lambda>s. [wv (nm s) (unwrap_or invalid (col s))]) xs) else []) bs"
  using wcol_writes [OF assms, of nm] by (simp only: concat_wire_rate)

lemma msm_satellite_columns:
  fixes ids rr ext md prr kind
  defines "ss \<equiv> map (\<lambda>s. \<lparr>ms_id = ids ! s, ms_rough_range_ms = rr ! s, ms_rough_range_mod1 = md ! s,
                 ms_extended_info = ext ! s,
                 ms_rough_phase_range_rate_m_s =
                   opt_filter (\<lambda>raw. raw \<noteq> MSM_ROUGH_PHASE_RANGE_RATE_INVALID) (prr ! s)\<rparr>)
              [0..<length ids]"
  assumes rr: "length rr = length ids" "\<forall>v\<in>set rr. (v \<noteq> None) = carries_rough_range_ms kind"
      "wcol (\<lambda>nm. w_opt (\<lambda>v. w_u nm v 8)) rr b1"
    and ext: "length ext = length ids" "\<forall>v\<in>set ext. (v \<noteq> None) = carries_phase_range_rate kind"
      "wcol (\<lambda>nm. w_opt (\<lambda>v. w_u nm v 4)) ext b2"
    and md: "length md = length ids" "wcol (\<lambda>nm v. [w_u nm v 10]) md b3"
    and prr: "length prr = length ids" "\<forall>v\<in>set prr. (v \<noteq> None) = carries_phase_range_rate kind"
      "wcol (\<lambda>nm. w_opt (\<lambda>v. fw_i nm v 14)) prr b4"
  shows "map ms_id ss = ids \<and> (\<forall>s\<in>set ss. sat_ok kind s)
     \<and> writes (msm_satellite_fields kind ss) (b1 @ b2 @ b3 @ b4)"
proof (intro conjI)
  have cols: "map ms_rough_range_ms ss = rr" "map ms_extended_info ss = ext"
    "map ms_rough_range_mod1 ss = md"
    "map (\<lambda>s. wire_rate kind MSM_ROUGH_PHASE_RANGE_RATE_INVALID (ms_rough_phase_range_rate_m_s s)) ss = prr"
    using rr(1) ext(1) md(1) prr(1,2)
    by (simp_all add: ss_def comp_def nth_column wire_rate_column)
  show "map ms_id ss = ids" by (simp add: ss_def comp_def nth_column)
  show "\<forall>s\<in>set ss. sat_ok kind s"
    using rr(1,2) ext(1,2) prr(1) nth_carried [OF prr(2)]
    by (auto simp: ss_def sat_ok_def opt_filter_Some)
  show "writes (msm_satellite_fields kind ss) (b1 @ b2 @ b3 @ b4)"
    unfolding msm_satellite_fields_def
    by (intro writes_append wcol_writes wcol_wire_rate; simp only: cols rr(3) ext(3) md(2) prr(3))
qed

lemma msm_satellites_consumed:
  "deco (msm_satellites_read kind ids) (\<lambda>ss bs.
     map ms_id ss = ids \<and> (\<forall>s\<in>set ss. sat_ok kind s) \<and> writes (msm_satellite_fields kind ss) bs)"
proof -
  note c1 = deco_read_if [OF single_decos(1) [where 'a = 8 and n = 8], simplified]
    and c2 = deco_read_if [OF single_decos(1) [where 'a = 8 and n = 4], simplified]
    and c3 = deco_vec_col [OF single_decos(1) [where 'a = 16 and n = 10], simplified]
    and c4 = deco_read_if [OF single_decos(2) [where n = 14], simplified]
  show ?thesis
    unfolding msm_satellites_read_def Let_def
    apply (rule deco_bind [OF c1], rule deco_bind [OF c2], rule deco_bind [OF c3],
      rule deco_bind [OF c4], rule deco_return)
    unfolding append_Nil2
    by (rule msm_satellite_columns) auto
qed

section \<open>The signal block\<close>

lemma sig_rebuild:
  "sig_ok kind s \<Longrightarrow>
     \<lparr>sg_satellite_id = sg_satellite_id s,
      sg_signal_id = sg_signal_id s,
      sg_fine_pseudorange = sg_fine_pseudorange s,
      sg_fine_phase_range = sg_fine_phase_range s,
      sg_lock_time_indicator = sg_lock_time_indicator s,
      sg_half_cycle_ambiguity = sg_half_cycle_ambiguity s,
      sg_cnr = sg_cnr s,
      sg_fine_phase_range_rate =
        opt_filter (\<lambda>raw. raw \<noteq> MSM_FINE_PHASE_RANGE_RATE_INVALID)
          (wire_rate kind MSM_FINE_PHASE_RANGE_RATE_INVALID (sg_fine_phase_range_rate s))\<rparr> = s"
  by (cases s) (auto simp: sig_ok_def opt_filter_wire_rate)

lemma signal_width_bounds [simp]:
  "0 < sw_pseudorange (signal_widths_of kind)" "sw_pseudorange (signal_widths_of kind) \<le> 32"
  "0 < sw_phase_range (signal_widths_of kind)" "sw_phase_range (signal_widths_of kind) \<le> 32"
  "sw_lock_time (signal_widths_of kind) \<le> 16" "sw_cnr (signal_widths_of kind) \<le> 16"
  by (simp_all add: signal_widths_of_def)

lemma msm_signals_sync:
  assumes ok: "\<forall>s\<in>set ss. sig_ok kind s"
  shows "sync (msm_signals_read kind (map sig_key ss)) (msm_signal_fields kind ss) ss"
proof -
  let ?w = "signal_widths_of kind"
  have c1: "sync (read_if (carries_pseudorange kind) (length ss) (rd_i32 (sw_pseudorange ?w)))
      (concat (map (\<lambda>s. w_opt (\<lambda>v. fw_i (cell_name s ''fine pseudorange'') v (sw_pseudorange ?w))
         (sg_fine_pseudorange s)) ss)) (map sg_fine_pseudorange ss)"
    by (rule sync_read_if) (use ok in \<open>auto simp: sig_ok_def intro: single_syncs\<close>)
  have c2: "sync (read_if (carries_phase_range kind) (length ss) (rd_i32 (sw_phase_range ?w)))
      (concat (map (\<lambda>s. w_opt (\<lambda>v. fw_i (cell_name s ''fine phase range'') v (sw_phase_range ?w))
         (sg_fine_phase_range s)) ss)) (map sg_fine_phase_range ss)"
    by (rule sync_read_if) (use ok in \<open>auto simp: sig_ok_def intro: single_syncs\<close>)
  have c3: "sync (read_if (carries_phase_range kind) (length ss) (rd_as (sw_lock_time ?w)))
      (concat (map (\<lambda>s. w_opt (\<lambda>v. w_u (cell_name s ''lock-time indicator'') v (sw_lock_time ?w))
         (sg_lock_time_indicator s)) ss)) (map sg_lock_time_indicator ss)"
    by (rule sync_read_if) (use ok in \<open>auto simp: sig_ok_def intro: single_syncs\<close>)
  have c4: "sync (read_if (carries_phase_range kind) (length ss) rd_flag)
      (concat (map (\<lambda>s. w_opt w_flag (sg_half_cycle_ambiguity s)) ss)) (map sg_half_cycle_ambiguity ss)"
    by (rule sync_read_if) (use ok in \<open>auto simp: sig_ok_def intro: single_syncs\<close>)
  have c5: "sync (read_if (carries_cnr kind) (length ss) (rd_as (sw_cnr ?w)))
      (concat (map (\<lambda>s. w_opt (\<lambda>v. w_u (cell_name s ''CNR'') v (sw_cnr ?w)) (sg_cnr s)) ss))
      (map sg_cnr ss)"
    by (rule sync_read_if) (use ok in \<open>auto simp: sig_ok_def intro: single_syncs\<close>)
  note c6 = sync_wire_rate [of "rd_i16 15" "\<lambda>s v. fw_i (cell_name s ''fine phase-range rate'') v 15"
      "length ss" ss kind MSM_FINE_PHASE_RANGE_RATE_INVALID sg_fine_phase_range_rate,
      OF single_syncs(2) refl]
  have eq: "map (\<lambda>(c, (sat, sig)).
                \<lparr>sg_satellite_id = sat,
                 sg_signal_id = sig,
                 sg_fine_pseudorange = map sg_fine_pseudorange ss ! c,
                 sg_fine_phase_range = map sg_fine_phase_range ss ! c,
                 sg_lock_time_indicator = map sg_lock_time_indicator ss ! c,
                 sg_half_cycle_ambiguity = map sg_half_cycle_ambiguity ss ! c,
                 sg_cnr = map sg_cnr ss ! c,
                 sg_fine_phase_range_rate =
                   opt_filter (\<lambda>raw. raw \<noteq> MSM_FINE_PHASE_RANGE_RATE_INVALID)
                     (map (\<lambda>s. wire_rate kind MSM_FINE_PHASE_RANGE_RATE_INVALID
                        (sg_fine_phase_range_rate s)) ss ! c)\<rparr>)
              (enumerate 0 (map sig_key ss)) = ss"
    using ok by (intro nth_equalityI) (simp_all add: nth_enumerate_eq sig_key_def sig_rebuild)
  show ?thesis
    unfolding msm_signals_read_def msm_signal_fields_def Let_def length_map
    by (rule sync_bind [OF c1], rule sync_bind [OF c2], rule sync_bind [OF c3], rule sync_bind [OF c4],
      rule sync_bind [OF c5], rule sync_bind [OF c6, where bs = "[]", simplified])
      (simp_all add: sync_return eq)
qed

lemma enumerate_column:
  assumes "length vs = length cells"
  shows "map (\<lambda>x. f (vs ! fst x)) (enumerate 0 cells) = map f vs"
  using assms by (intro nth_equalityI) (simp_all add: nth_enumerate_eq)

lemma wire_rate_enumerate:
  assumes "length vs = length cells" and "\<forall>v\<in>set vs. (v \<noteq> None) = carries_phase_range_rate kind"
  shows "map (\<lambda>x. wire_rate kind invalid (opt_filter (\<lambda>raw. raw \<noteq> invalid) (vs ! fst x)))
           (enumerate 0 cells) = vs"
  using assms by (intro nth_equalityI) (simp_all add: nth_enumerate_eq wire_rate_opt_filter)

lemma msm_signal_columns:
  fixes cells pr ph lk hf cn prr kind
  defines "ss \<equiv> map (\<lambda>(c, (sat, sig)).
                \<lparr>sg_satellite_id = sat, sg_signal_id = sig, sg_fine_pseudorange = pr ! c,
                 sg_fine_phase_range = ph ! c, sg_lock_time_indicator = lk ! c,
                 sg_half_cycle_ambiguity = hf ! c, sg_cnr = cn ! c,
                 sg_fine_phase_range_rate =
                   opt_filter (\<lambda>raw. raw \<noteq> MSM_FINE_PHASE_RANGE_RATE_INVALID) (prr ! c)\<rparr>)
              (enumerate 0 cells)"
    and "w \<equiv> signal_widths_of kind"
  assumes pr: "length pr = length cells" "\<forall>v\<in>set pr. (v \<noteq> None) = carries_pseudorange kind"
      "wcol (\<lambda>nm. w_opt (\<lambda>v. fw_i nm v (sw_pseudorange w))) pr b1"
    and ph: "length ph = length cells" "\<forall>v\<in>set ph. (v \<noteq> None) = carries_phase_range kind"
      "wcol (\<lambda>nm. w_opt (\<lambda>v. fw_i nm v (sw_phase_range w))) ph b2"
    and lk: "length lk = length cells" "\<forall>v\<in>set lk. (v \<noteq> None) = carries_phase_range kind"
      "wcol (\<lambda>nm. w_opt (\<lambda>v. w_u nm v (sw_lock_time w))) lk b3"
    and hf: "length hf = length cells" "\<forall>v\<in>set hf. (v \<noteq> None) = carries_phase_range kind"
      "wcol (\<lambda>nm. w_opt w_flag) hf b4"
    and cn: "length cn = length cells" "\<forall>v\<in>set cn. (v \<noteq> None) = carries_cnr kind"
      "wcol (\<lambda>nm. w_opt (\<lambda>v. w_u nm v (sw_cnr w))) cn b5"
    and prr: "length prr = length cells" "\<forall>v\<in>set prr. (v \<noteq> None) = carries_phase_range_rate kind"
      "wcol (\<lambda>nm. w_opt (\<lambda>v. fw_i nm v 15)) prr b6"
  shows "map sig_key ss = cells \<and> (\<forall>s\<in>set ss. sig_ok kind s)
     \<and> writes (msm_signal_fields kind ss) (b1 @ b2 @ b3 @ b4 @ b5 @ b6)"
proof (intro conjI)
  have cols: "map sg_fine_pseudorange ss = pr" "map sg_fine_phase_range ss = ph"
    "map sg_lock_time_indicator ss = lk" "map sg_half_cycle_ambiguity ss = hf" "map sg_cnr ss = cn"
    "map (\<lambda>s. wire_rate kind MSM_FINE_PHASE_RANGE_RATE_INVALID (sg_fine_phase_range_rate s)) ss = prr"
    using pr(1) ph(1) lk(1) hf(1) cn(1) prr(1,2)
      enumerate_column [of _ cells "\<lambda>x. x"] wire_rate_enumerate [of prr cells kind]
    by (simp_all add: ss_def comp_def split_def)
  show "map sig_key ss = cells"
    by (simp add: ss_def comp_def split_def sig_key_def)
  have nth: "sig_ok kind (ss ! i)" if i: "i < length cells" for i
  proof -
    obtain sat sig where c: "cells ! i = (sat, sig)" by fastforce
    have "pr ! i \<in> set pr" "ph ! i \<in> set ph" "lk ! i \<in> set lk" "hf ! i \<in> set hf"
      "cn ! i \<in> set cn" "prr ! i \<in> set prr"
      using i pr(1) ph(1) lk(1) hf(1) cn(1) prr(1) by simp_all
    note mem = this
    note v = pr(2) [rule_format, OF mem(1)] ph(2) [rule_format, OF mem(2)]
      lk(2) [rule_format, OF mem(3)] hf(2) [rule_format, OF mem(4)]
      cn(2) [rule_format, OF mem(5)] prr(2) [rule_format, OF mem(6)]
    have "ss ! i = \<lparr>sg_satellite_id = sat, sg_signal_id = sig, sg_fine_pseudorange = pr ! i,
                 sg_fine_phase_range = ph ! i, sg_lock_time_indicator = lk ! i,
                 sg_half_cycle_ambiguity = hf ! i, sg_cnr = cn ! i,
                 sg_fine_phase_range_rate =
                   opt_filter (\<lambda>raw. raw \<noteq> MSM_FINE_PHASE_RANGE_RATE_INVALID) (prr ! i)\<rparr>"
      using i c by (simp add: ss_def nth_enumerate_eq)
    then show ?thesis
      using v unfolding sig_ok_def by (auto simp: opt_filter_Some)
  qed
  show "\<forall>s\<in>set ss. sig_ok kind s"
    using nth by (simp add: all_set_conv_all_nth ss_def)
  show "writes (msm_signal_fields kind ss) (b1 @ b2 @ b3 @ b4 @ b5 @ b6)"
    unfolding msm_signal_fields_def Let_def w_def [symmetric]
    by (intro writes_append wcol_writes [where nm = "\<lambda>s. cell_name s _"] wcol_wire_rate wcol_writes [where f = "\<lambda>_. w_opt w_flag"];
      simp only: cols pr(3) ph(3) lk(3) hf(3) cn(3) prr(3))
qed

lemma msm_signals_consumed:
  "deco (msm_signals_read kind cells) (\<lambda>ss bs.
     map sig_key ss = cells \<and> (\<forall>s\<in>set ss. sig_ok kind s) \<and> writes (msm_signal_fields kind ss) bs)"
proof -
  let ?w = "signal_widths_of kind"
  note c1 = deco_read_if [OF single_decos(3) [where n = "sw_pseudorange ?w"], simplified]
    and c2 = deco_read_if [OF single_decos(3) [where n = "sw_phase_range ?w"], simplified]
    and c3 = deco_read_if [OF single_decos(1) [where 'a = 16 and n = "sw_lock_time ?w"], simplified]
    and c4 = deco_read_if [OF single_decos(4), simplified]
    and c5 = deco_read_if [OF single_decos(1) [where 'a = 16 and n = "sw_cnr ?w"], simplified]
    and c6 = deco_read_if [OF single_decos(2) [where n = 15], simplified]
  show ?thesis
    unfolding msm_signals_read_def Let_def
    apply (rule deco_bind [OF c1], rule deco_bind [OF c2], rule deco_bind [OF c3],
      rule deco_bind [OF c4], rule deco_bind [OF c5], rule deco_bind [OF c6], rule deco_return)
    unfolding append_Nil2
    by (rule msm_signal_columns) auto
qed

section \<open>The message contract\<close>

definition msm_norm :: "msm_message \<Rightarrow> msm_message" where
  "msm_norm m = m\<lparr>mm_satellites := msm_sorted_satellites m, mm_signals := msm_ordered m\<rparr>"

definition msm_keys :: "msm_message \<Rightarrow> (u8 \<times> u8) list" where
  "msm_keys m = List.product (msm_sat_ids m) (set_bits_u32 (mm_signal_mask m))"

lemma msm_cells_eq: "msm_cells m = map (\<lambda>p. find (\<lambda>x. sig_key x = p) (mm_signals m)) (msm_keys m)"
  by (auto simp: msm_cells_def msm_keys_def sig_key_def split_def prod_eq_iff)

lemma msm_ordered_eq:
  "msm_ordered m = concat (map (\<lambda>p. opt_list (find (\<lambda>x. sig_key x = p) (mm_signals m))) (msm_keys m))"
  by (simp add: msm_ordered_def msm_cells_eq comp_def)

lemma insort_key_map: "map f (insort_key f x xs) = insort (f x) (map f xs)"
  by (induction xs) auto

lemma map_sort_key_eq: "map f (sort_key f xs) = sort (map f xs)"
  by (induction xs) (simp_all add: insort_key_map)

lemma msm_sorted_ids: "map ms_id (msm_sorted_satellites m) = msm_sat_ids m"
  unfolding msm_sorted_satellites_def msm_sat_ids_def
  by (rule map_sort_key_eq)

lemma u8_range: "1 \<le> (x :: u8) \<and> x \<le> 64 \<longleftrightarrow> 1 \<le> unat x \<and> unat x \<le> 64"
  "1 \<le> (x :: u8) \<and> x \<le> 32 \<longleftrightarrow> 1 \<le> unat x \<and> unat x \<le> 32"
  by (simp_all add: word_le_nat_alt)

lemma msm_mask_back:
  assumes "masks_ok m"
  shows "set_bits (msm_satellite_mask (msm_sat_ids m)) 64 = msm_sat_ids m"
proof -
  have "\<forall>i\<in>set (msm_sat_ids m). 1 \<le> unat i \<and> unat i \<le> 64"
    using assms by (auto simp: masks_ok_def msm_sat_ids_def u8_range)
  moreover have "distinct (msm_sat_ids m)" using assms by (simp add: masks_ok_def msm_sat_ids_def)
  ultimately have "mask_ids (mask_of 64 (msm_sat_ids m) :: u64) 64 = sort (msm_sat_ids m)"
    by (intro mask_ids_mask_of) simp_all
  then show ?thesis by (simp add: set_bits_def msm_satellite_mask_eq msm_sat_ids_def sorted_sort_id)
qed

lemma msm_cells_back:
  "active_cells (msm_sat_ids m) (set_bits_u32 (mm_signal_mask m)) (map (\<lambda>c. c \<noteq> None) (msm_cells m))
     = map sig_key (msm_ordered m)"
proof -
  have "length (map (\<lambda>c. c \<noteq> None) (msm_cells m))
      = length (msm_sat_ids m) * length (set_bits_u32 (mm_signal_mask m))"
    by (simp add: msm_cells_def)
  from active_cells_eq [OF this] show ?thesis
    unfolding msm_ordered_eq keys_found msm_cells_eq map_map comp_def msm_keys_def .
qed

lemma sync_flags:
  assumes "n = length cs"
  shows "sync (rd_vec n rd_flag) (map (\<lambda>c. w_flag (f c)) cs) (map f cs)"
  using sync_vec [of cs rd_flag "\<lambda>c. [w_flag (f c)]" f n] assms
  by (simp add: single_syncs(4) concat_map_singleton)

lemma sync_header:
  assumes "sync (k h) as y"
  shows "sync (rbind msm_header_read k) (msm_header_fields h @ as) y"
proof (rule sync_bind)
  show "sync (k h) as y" by (rule assms)
  show "sync msm_header_read (msm_header_fields h) h"
    unfolding msm_header_read_def msm_header_fields_def by (cases h) (auto intro!: sync_intros)
qed

lemma msm_check_ok:
  "msm_check pol m = Inr before \<longleftrightarrow>
     msm_kind_of (mm_message_number m) = Some (mm_system m, mm_kind m) \<and> masks_ok m
     \<and> (\<forall>s\<in>set (mm_satellites m). sat_ok (mm_kind m) s)
     \<and> (\<forall>s\<in>set (mm_signals m). sig_ok (mm_kind m) s)
     \<and> (let cells = length (msm_sat_ids m) * length (set_bits_u32 (mm_signal_mask m))
        in if cells > MSM_MAX_CELLS
           then pol = Lenient \<and> before = [MsmCellMaskOver64 (mm_message_number m) cells]
           else before = [])"
  by (auto simp: msm_check_def Let_def check_masks_ok check_optional_fields_ok
      split: if_splits rtcm_policy.splits)

lemma over_64_ok:
  assumes "let cells = n in if cells > MSM_MAX_CELLS
           then policy ctx = Lenient \<and> before = [MsmCellMaskOver64 k cells] else before = []"
  shows "over_64 k n ctx = Inr (ctx\<lparr>departures := departures ctx @ before\<rparr>)"
  using assms by (auto simp: over_64_def depart_def Let_def split: if_splits)

lemma msm_sync:
  assumes "msm_check (policy ctx) m = Inr before"
  shows "sync (msm_read ctx) (msm_fields m)
     ((msm_norm m)\<lparr>mm_trailing_bits := []\<rparr>, ctx\<lparr>departures := departures ctx @ before\<rparr>)"
proof -
  note ok = assms [unfolded msm_check_ok]
  have masks: "masks_ok m" using ok by simp
  let ?ids = "msm_sat_ids m" and ?sigs = "set_bits_u32 (mm_signal_mask m)"
  let ?ctx = "ctx\<lparr>departures := departures ctx @ before\<rparr>"
  have over: "over_64 (mm_message_number m) (length ?ids * length ?sigs) ctx = Inr ?ctx"
    using ok by (intro over_64_ok) simp
  have flags: "sync (rd_vec (length ?ids * length ?sigs) rd_flag)
      (map (\<lambda>cell. w_flag (cell \<noteq> None)) (msm_cells m)) (map (\<lambda>cell. cell \<noteq> None) (msm_cells m))"
    by (rule sync_flags) (simp add: msm_cells_def)
  have sats: "sync (msm_satellites_read (mm_kind m) ?ids)
      (msm_satellite_fields (mm_kind m) (msm_sorted_satellites m)) (msm_sorted_satellites m)"
    unfolding msm_sorted_ids [symmetric]
    using ok by (intro msm_satellites_sync) (simp add: msm_sorted_satellites_def)
  have "\<forall>s\<in>set (msm_ordered m). sig_ok (mm_kind m) s"
    unfolding msm_ordered_eq using ok set_found [of sig_key "mm_signals m" "msm_keys m"] by blast
  then have sigs: "sync (msm_signals_read (mm_kind m) (active_cells ?ids ?sigs
        (map (\<lambda>cell. cell \<noteq> None) (msm_cells m))))
      (msm_signal_fields (mm_kind m) (msm_ordered m)) (msm_ordered m)"
    unfolding msm_cells_back by (rule msm_signals_sync)
  show ?thesis
    unfolding msm_read_def msm_fields_def
    apply (rule sync_as, simp, simp)
    apply (simp only: ok option.case prod.case)
    apply (rule sync_header)
    apply (simp only: append_Cons append_Nil)
    apply (rule sync_u, simp, rule sync_as, simp, simp)
    apply (simp only: Let_def msm_mask_back [OF masks] over)
    apply (rule sync_lift, rule sync_bind [OF flags], rule sync_bind [OF sats],
      rule sync_bind_end [OF sigs])
    by (cases m) (simp add: sync_return msm_norm_def)
qed


lemma deco_header:
  assumes "\<And>h bs. writes (msm_header_fields h) bs \<Longrightarrow> deco (k h) (\<lambda>y cs. Q y (bs @ cs))"
  shows "deco (rbind msm_header_read k) Q"
proof (rule deco_bind)
  show "deco msm_header_read (\<lambda>h bs. writes (msm_header_fields h) bs)"
    unfolding msm_header_read_def
    by (intro deco_intros) (simp_all add: msm_header_fields_def w_exec)
qed (rule assms)

text \<open>A message read from its masks and columns writes those masks and columns.\<close>

lemma msm_decoded:
  fixes n sys kind h smask gmask flags sats sigs
  defines "m \<equiv> \<lparr>mm_message_number = n, mm_system = sys, mm_kind = kind, mm_header = h,
      mm_signal_mask = gmask, mm_satellites = sats, mm_signals = sigs, mm_trailing_bits = []\<rparr>"
  assumes ids: "map ms_id sats = set_bits smask 64"
    and len: "length flags = length (set_bits smask 64) * length (set_bits_u32 gmask)"
    and keys: "map sig_key sigs = active_cells (set_bits smask 64) (set_bits_u32 gmask) flags"
  shows "msm_sat_ids m = set_bits smask 64" and "msm_sorted_satellites m = sats"
    and "msm_satellite_mask (msm_sat_ids m) = smask"
    and "map (\<lambda>c. c \<noteq> None) (msm_cells m) = flags" and "msm_ordered m = sigs" and "masks_ok m"
proof -
  let ?ids = "set_bits smask 64" and ?sigs = "set_bits_u32 gmask"
  note srt = mask_ids_sorted [of 64 smask, folded set_bits_def, simplified]
    and srt32 = mask_ids_sorted [of 32 gmask, folded set_bits_u32_def, simplified]
  show si: "msm_sat_ids m = ?ids" by (simp add: msm_sat_ids_def m_def ids sorted_sort_id srt)
  show "msm_sorted_satellites m = sats"
    using srt(1) by (simp add: msm_sorted_satellites_def m_def sort_key_id_if_sorted ids)
  show "msm_satellite_mask (msm_sat_ids m) = smask"
    unfolding si by (simp add: msm_satellite_mask_eq set_bits_def mask_of_mask_ids)
  have ks: "msm_keys m = List.product ?ids ?sigs" by (simp add: msm_keys_def si) (simp add: m_def)
  have dist: "distinct (List.product ?ids ?sigs)" by (intro distinct_product srt(2) srt32(2))
  have f: "map sig_key sigs = map fst (filter snd (zip (List.product ?ids ?sigs) flags))"
    using keys active_cells_eq [OF len] by simp
  note found = find_key [OF dist _ f] len
  have ms: "mm_signals m = sigs" by (simp add: m_def)
  show "map (\<lambda>c. c \<noteq> None) (msm_cells m) = flags"
    unfolding msm_cells_eq map_map comp_def ks ms using found by simp
  show "msm_ordered m = sigs" unfolding msm_ordered_eq ks ms using found by simp
  have sub: "set (map sig_key sigs) \<subseteq> set ?ids \<times> set ?sigs"
    unfolding f by (auto dest: set_zip_leftD)
  have dk: "distinct (map sig_key sigs)"
    unfolding f by (metis dist distinct_map_filter length_product len map_fst_zip)
  show "masks_ok m"
    unfolding masks_ok_def
  proof (intro conjI ballI)
    fix s assume "s \<in> set (mm_satellites m)"
    then have "ms_id s \<in> set ?ids" unfolding ids [symmetric] by (simp add: m_def)
    then show "1 \<le> ms_id s" "ms_id s \<le> 64"
      by (simp_all add: set_bits_def set_mask_ids word_le_nat_alt)
  next
    fix s assume "s \<in> set (mm_signals m)"
    then have k: "sg_satellite_id s \<in> set ?ids" "sg_signal_id s \<in> set ?sigs"
      using sub by (auto simp: ms sig_key_def)
    then show "1 \<le> sg_signal_id s" "sg_signal_id s \<le> 32"
      "bit (mm_signal_mask m) (32 - unat (sg_signal_id s))"
      by (simp_all add: set_bits_u32_def set_mask_ids word_le_nat_alt m_def)
    show "sg_satellite_id s \<in> ms_id ` set (mm_satellites m)"
      using k(1) unfolding ids [symmetric] by (simp add: m_def)
  next
    show "distinct (map ms_id (mm_satellites m))" using srt(2) by (simp add: m_def ids)
    show "distinct (map sig_key (mm_signals m))" using dk by (simp add: ms)
  qed
qed

lemma over_64_Inr:
  "over_64 k n ctx = Inr ctx' \<longleftrightarrow>
     (\<exists>before. ctx' = ctx\<lparr>departures := departures ctx @ before\<rparr>
        \<and> (if n > MSM_MAX_CELLS
            then policy ctx = Lenient \<and> before = [MsmCellMaskOver64 k n] else before = []))"
  by (auto simp: over_64_def depart_Inr)

lemma msm_written:
  fixes n sys kind h smask gmask flags sats sigs
  defines "m \<equiv> \<lparr>mm_message_number = n, mm_system = sys, mm_kind = kind, mm_header = h,
      mm_signal_mask = gmask, mm_satellites = sats, mm_signals = sigs, mm_trailing_bits = []\<rparr>"
  assumes kind: "msm_kind_of n = Some (sys, kind)"
    and n: "fits_u 12 n" and h: "writes (msm_header_fields h) b1"
    and over: "over_64 n (length (set_bits smask 64) * length (set_bits_u32 gmask)) ctx = Inr ctx'"
    and ids: "map ms_id sats = set_bits smask 64" "\<forall>s\<in>set sats. sat_ok kind s"
      "writes (msm_satellite_fields kind sats) b2"
    and len: "length flags = length (set_bits smask 64) * length (set_bits_u32 gmask)"
    and keys: "map sig_key sigs = active_cells (set_bits smask 64) (set_bits_u32 gmask) flags"
      "\<forall>s\<in>set sigs. sig_ok kind s" "writes (msm_signal_fields kind sigs) b3"
  shows "\<exists>before. msm_check (policy ctx) m = Inr before
        \<and> ctx' = ctx\<lparr>departures := departures ctx @ before\<rparr>
        \<and> writes (msm_fields m) (to_bits 12 (ucast n) @ b1 @ to_bits 64 smask
            @ to_bits 32 (ucast gmask) @ flags @ b2 @ b3)"
proof -
  note d = msm_decoded [OF ids(1) len keys(1), of n sys kind h, folded m_def]
  from over obtain before where b: "ctx' = ctx\<lparr>departures := departures ctx @ before\<rparr>"
    "if length (set_bits smask 64) * length (set_bits_u32 gmask) > MSM_MAX_CELLS
     then policy ctx = Lenient \<and> before = [MsmCellMaskOver64 n
         (length (set_bits smask 64) * length (set_bits_u32 gmask))] else before = []"
    unfolding over_64_Inr by blast
  have sel: "mm_message_number m = n" "mm_system m = sys" "mm_kind m = kind" "mm_header m = h"
    "mm_signal_mask m = gmask" "mm_satellites m = sats" "mm_signals m = sigs"
    by (simp_all add: m_def)
  have c: "msm_check (policy ctx) m = Inr before"
    unfolding msm_check_ok Let_def sel d(1) using kind d(6) ids(2) keys(2) b(2) by simp
  have fl: "map (\<lambda>cell. w_flag (cell \<noteq> None)) (msm_cells m) = map w_flag flags"
    unfolding d(4) [symmetric] by simp
  have "writes (msm_fields m) (to_bits 12 (ucast n) @ b1 @ (to_bits 64 (ucast smask)
            @ to_bits 32 (ucast gmask) @ []) @ flags @ b2 @ b3)"
    unfolding msm_fields_def d(2,3,5) fl sel
    by (intro writes_u writes_append h ids(3) keys(3) writes_flags writes_Nil n) simp_all
  then show ?thesis using c b(1) by simp
qed

lemma msm_consumed:
  "deco (msm_read ctx) (\<lambda>(m, ctx') bs.
      \<exists>before. msm_check (policy ctx) m = Inr before
        \<and> ctx' = ctx\<lparr>departures := departures ctx @ before\<rparr>
        \<and> writes (msm_fields m) bs \<and> mm_trailing_bits m = []
        \<and> fits_u 12 (mm_message_number m)
        \<and> (\<exists>cs. bs = to_bits 12 (ucast (mm_message_number m)) @ cs))"
  unfolding msm_read_def
  apply (rule deco_as, simp, simp)
  subgoal for n
    apply (cases "msm_kind_of n")
     apply (simp add: deco_parse_error)
    apply (clarsimp simp only: option.case prod.case split_paired_all)
    apply (rule deco_header, rule deco_u, simp, rule deco_as, simp, simp)
    unfolding Let_def
    apply (rule deco_lift, rule deco_bind [OF deco_flags], rule deco_bind [OF msm_satellites_consumed],
      rule deco_bind [OF msm_signals_consumed], rule deco_return)
    apply (elim conjE)
    apply (drule (10) msm_written)
    apply simp
    done
  done

lemma msm_tail_irrelevant:
  "check_masks (m\<lparr>mm_trailing_bits := bits\<rparr>) = check_masks m"
  "check_satellite (m\<lparr>mm_trailing_bits := bits\<rparr>) = check_satellite m"
  "check_signal (m\<lparr>mm_trailing_bits := bits\<rparr>) = check_signal m"
  "msm_sat_ids (m\<lparr>mm_trailing_bits := bits\<rparr>) = msm_sat_ids m"
  "msm_cells (m\<lparr>mm_trailing_bits := bits\<rparr>) = msm_cells m"
  "msm_sorted_satellites (m\<lparr>mm_trailing_bits := bits\<rparr>) = msm_sorted_satellites m"
  by (simp_all add: check_masks_def check_satellite_def check_signal_def check_carried_def
      check_rate_def msm_sat_ids_def msm_cells_def msm_sorted_satellites_def fun_eq_iff Let_def
      split: option.split)

interpretation msm: body_codec msm_read mm_message_number msm_check msm_fields mm_trailing_bits
  "\<lambda>bits m. m\<lparr>mm_trailing_bits := bits\<rparr>" msm_norm msm_encode_with_policy
proof unfold_locales
  show "msm_encode_with_policy pol m = Inr (body, ds) \<longleftrightarrow>
      (\<exists>before w after. msm_check pol m = Inr before
        \<and> w_all (msm_fields m) (fw_new (mm_message_number m)) = Inr w
        \<and> close_body w (mm_trailing_bits m) pol = Inr (body, after) \<and> ds = before @ after)"
    for pol m body ds by (auto simp: msm_encode_with_policy_def)
  show "msm_check pol (m\<lparr>mm_trailing_bits := bits\<rparr>) = msm_check pol m" for pol m bits
    by (simp add: msm_check_def check_optional_fields_def msm_tail_irrelevant Let_def)
  show "before = [] \<and> msm_check Lenient m = Inr []" if "msm_check Strict m = Inr before" for m before
    using that by (auto simp: msm_check_def Let_def split: if_splits)
  show "msm_fields (m\<lparr>mm_trailing_bits := bits\<rparr>) = msm_fields m" for m bits
    by (simp add: msm_fields_def msm_ordered_def msm_tail_irrelevant)
qed (rule msm_consumed | erule msm_sync | simp add: msm_norm_def)+

end
