(* ===== verification/Rtcm_Transformation.thy ===== *)
theory Rtcm_Transformation
  imports Rtcm_Station
begin

text \<open>
  The coordinate transformation messages of \<^verbatim>\<open>rtcm/transformation.rs\<close>: the Helmert
  and Molodenski-Badekas parameters 1021 and 1022, the residual grids 1023 and
  1024, whose sixteen points are a Rust array, and the projections 1025 to 1027,
  whose parameters are an enum that names the message number.
\<close>

unbundle bit_operations_syntax

section \<open>Counted names\<close>

definition read_name :: "nat \<Rightarrow> rust_string rd" where
  "read_name count_bits =
     rbind (rd_usize count_bits) (\<lambda>count.
     rd_vec count (rbind (rd_as 8) (\<lambda>byte :: u8. rreturn (ucast byte))))"

definition write_name :: "string \<Rightarrow> rust_string \<Rightarrow> nat \<Rightarrow> wr" where
  "write_name field name count_bits w =
     ebind (latin1_bytes field name) (\<lambda>bytes.
       w_all (w_len (field @ '' character count'') (length bytes) count_bits
              # map (\<lambda>byte. w_u field byte 8) bytes) w)"

lemma read_name_bytes:
  "read_name n = rbind (rd_usize n) (\<lambda>count.
     rbind (rd_vec count (rd_as 8)) (\<lambda>bytes :: u8 list. rreturn (map ucast bytes)))"
  by (simp add: read_name_def rd_vec_map)

lemma sync_name [sync_intros]:
  assumes "n < 64" and "sync (k s) as y"
  shows "sync (rbind (read_name n) k) (write_name f s n # as) y"
proof (cases "latin1_bytes f s")
  case (Inl e)
  then show ?thesis by (simp add: sync_def write_name_def)
next
  case (Inr bytes)
  then have s: "s = map ucast bytes" by (simp add: latin1_bytes_Inr)
  let ?as = "w_len (f @ '' character count'') (length bytes) n
              # map (\<lambda>byte. w_u f byte 8) bytes @ []"
  have "sync (read_name n) ?as s"
    unfolding read_name_bytes s
    by (intro sync_usize sync_bind [OF sync_bytes] sync_return) (simp_all add: assms(1))
  then have "sync (rbind (read_name n) k) (?as @ as) y"
    using assms(2) by (rule sync_bind)
  moreover have "w_all (?as @ as) = w_all (write_name f s n # as)"
    by (rule ext) (simp add: write_name_def Inr w_all_append ebind_def split: sum.splits)
  ultimately show ?thesis by (simp only: sync_def)
qed

lemma deco_name [deco_intros]:
  assumes "n < 64" and "\<And>s bs. (\<And>f w. write_name f s n w = Inr (fw_put bs w)) \<Longrightarrow>
             deco (k s) (\<lambda>y cs. Q y (bs @ cs))"
  shows "deco (rbind (read_name n) k) Q"
proof (rule deco_bind)
  show "deco (read_name n) (\<lambda>s bs. \<forall>f w. write_name f s n w = Inr (fw_put bs w))"
    unfolding read_name_bytes
    by (intro deco_usize deco_bind [OF deco_bytes] deco_return)
      (auto simp: write_name_def latin1_bytes_Inr [THEN iffD2, OF refl] w_bytes_eq w_len_eq assms(1))
qed (auto intro: assms(2))

section \<open>Helmert and Molodenski-Badekas transformations, 1021 and 1022\<close>

record rotation_point =
  rp_x :: int
  rp_y :: int
  rp_z :: int

record helmert_transformation =
  ht_message_number :: u16
  ht_source_name :: rust_string
  ht_target_name :: rust_string
  ht_system_id :: u8
  ht_utilized_messages :: u16
  ht_plate_number :: u8
  ht_computation_indicator :: u8
  ht_height_indicator :: u8
  ht_validity_latitude :: int
  ht_validity_longitude :: int
  ht_validity_extension_latitude :: u16
  ht_validity_extension_longitude :: u16
  ht_dx :: int
  ht_dy :: int
  ht_dz :: int
  ht_r1 :: int
  ht_r2 :: int
  ht_r3 :: int
  ht_ds :: int
  ht_rotation_point :: "rotation_point option"
  ht_add_as :: u32
  ht_add_bs :: u32
  ht_add_at :: u32
  ht_add_bt :: u32
  ht_horizontal_quality :: u8
  ht_vertical_quality :: u8
  ht_trailing_bits :: "bool list"

definition rotation_point_read :: "rotation_point rd" where
  "rotation_point_read =
     rbind (rd_i 35) (\<lambda>x.
     rbind (rd_i 35) (\<lambda>y.
     rbind (rd_i 35) (\<lambda>z.
     rreturn \<lparr>rp_x = x, rp_y = y, rp_z = z\<rparr>)))"

definition helmert_read :: "helmert_transformation rd" where
  "helmert_read =
     rbind (rd_as 12) (\<lambda>message_number :: u16.
     if \<not> (message_number = 1021 \<or> message_number = 1022)
     then parse_error (''message '' @ dec_u message_number @
                       '' is not a Helmert transformation message 1021/1022'')
     else
     rbind (read_name 5) (\<lambda>source_name.
     rbind (read_name 5) (\<lambda>target_name.
     rbind (rd_as 8) (\<lambda>system_id.
     rbind (rd_as 10) (\<lambda>utilized_messages.
     rbind (rd_as 5) (\<lambda>plate_number.
     rbind (rd_as 4) (\<lambda>computation_indicator.
     rbind (rd_as 2) (\<lambda>height_indicator.
     rbind (rd_i32 19) (\<lambda>validity_latitude.
     rbind (rd_i32 20) (\<lambda>validity_longitude.
     rbind (rd_as 14) (\<lambda>validity_extension_latitude.
     rbind (rd_as 14) (\<lambda>validity_extension_longitude.
     rbind (rd_i32 23) (\<lambda>dx.
     rbind (rd_i32 23) (\<lambda>dy.
     rbind (rd_i32 23) (\<lambda>dz.
     rbind (rd_i32 32) (\<lambda>r1.
     rbind (rd_i32 32) (\<lambda>r2.
     rbind (rd_i32 32) (\<lambda>r3.
     rbind (rd_i32 25) (\<lambda>ds.
     rbind (rd_opt (message_number = 1022) rotation_point_read) (\<lambda>rotation_point.
     rbind (rd_as 24) (\<lambda>add_as.
     rbind (rd_as 25) (\<lambda>add_bs.
     rbind (rd_as 24) (\<lambda>add_at.
     rbind (rd_as 25) (\<lambda>add_bt.
     rbind (rd_as 3) (\<lambda>horizontal_quality.
     rbind (rd_as 3) (\<lambda>vertical_quality.
     rreturn \<lparr>ht_message_number = message_number,
              ht_source_name = source_name,
              ht_target_name = target_name,
              ht_system_id = system_id,
              ht_utilized_messages = utilized_messages,
              ht_plate_number = plate_number,
              ht_computation_indicator = computation_indicator,
              ht_height_indicator = height_indicator,
              ht_validity_latitude = validity_latitude,
              ht_validity_longitude = validity_longitude,
              ht_validity_extension_latitude = validity_extension_latitude,
              ht_validity_extension_longitude = validity_extension_longitude,
              ht_dx = dx,
              ht_dy = dy,
              ht_dz = dz,
              ht_r1 = r1,
              ht_r2 = r2,
              ht_r3 = r3,
              ht_ds = ds,
              ht_rotation_point = rotation_point,
              ht_add_as = add_as,
              ht_add_bs = add_bs,
              ht_add_at = add_at,
              ht_add_bt = add_bt,
              ht_horizontal_quality = horizontal_quality,
              ht_vertical_quality = vertical_quality,
              ht_trailing_bits = []\<rparr>))))))))))))))))))))))))))"

definition helmert_family :: rtcm_record_kind where
  "helmert_family = RkTransformation ''Helmert transformation message 1021/1022''"

definition helmert_check :: "helmert_transformation \<Rightarrow> rtcm_encode_error + unit" where
  "helmert_check m =
     (let number = ht_message_number m; present = ht_rotation_point m \<noteq> None
      in if number = 1021 \<and> \<not> present \<or> number = 1022 \<and> present then Inr ()
         else if number = 1021
         then Inl (FieldPresence number helmert_family ''rotation point'' False)
         else if number = 1022
         then Inl (FieldPresence number helmert_family ''rotation point'' True)
         else Inl (MessageNumber number helmert_family))"

definition rotation_point_fields :: "rotation_point \<Rightarrow> wr list" where
  "rotation_point_fields point =
     [fw_i ''XP'' (rp_x point) 35, fw_i ''YP'' (rp_y point) 35, fw_i ''ZP'' (rp_z point) 35]"

definition helmert_fields :: "helmert_transformation \<Rightarrow> wr list" where
  "helmert_fields m =
     [w_u ''message number'' (ht_message_number m) 12,
      write_name ''source name'' (ht_source_name m) 5,
      write_name ''target name'' (ht_target_name m) 5,
      w_u ''system identification number'' (ht_system_id m) 8,
      w_u ''utilized transformation message indicator'' (ht_utilized_messages m) 10,
      w_u ''plate number'' (ht_plate_number m) 5,
      w_u ''computation indicator'' (ht_computation_indicator m) 4,
      w_u ''height indicator'' (ht_height_indicator m) 2,
      fw_i ''validity latitude'' (ht_validity_latitude m) 19,
      fw_i ''validity longitude'' (ht_validity_longitude m) 20,
      w_u ''validity extension latitude'' (ht_validity_extension_latitude m) 14,
      w_u ''validity extension longitude'' (ht_validity_extension_longitude m) 14,
      fw_i ''dX'' (ht_dx m) 23,
      fw_i ''dY'' (ht_dy m) 23,
      fw_i ''dZ'' (ht_dz m) 23,
      fw_i ''R1'' (ht_r1 m) 32,
      fw_i ''R2'' (ht_r2 m) 32,
      fw_i ''R3'' (ht_r3 m) 32,
      fw_i ''dS'' (ht_ds m) 25] @
     (case ht_rotation_point m of None \<Rightarrow> [] | Some point \<Rightarrow> rotation_point_fields point) @
     [w_u ''add aS'' (ht_add_as m) 24,
      w_u ''add bS'' (ht_add_bs m) 25,
      w_u ''add aT'' (ht_add_at m) 24,
      w_u ''add bT'' (ht_add_bt m) 25,
      w_u ''horizontal quality indicator'' (ht_horizontal_quality m) 3,
      w_u ''vertical quality indicator'' (ht_vertical_quality m) 3]"

definition helmert_encode_with_policy ::
  "rtcm_policy \<Rightarrow> helmert_transformation \<Rightarrow> rtcm_encode_error + u8 list \<times> rtcm_departure list" where
  "helmert_encode_with_policy pol m =
     ebind (helmert_check m) (\<lambda>_.
     ebind (w_all (helmert_fields m) (fw_new (ht_message_number m))) (\<lambda>w.
     close_body w (ht_trailing_bits m) pol))"

lemma helmert_sync: "helmert_check m = Inr () \<Longrightarrow>
   sync helmert_read (helmert_fields m) (m\<lparr>ht_trailing_bits := []\<rparr>)"
  unfolding helmert_read_def helmert_fields_def helmert_check_def Let_def rbind_opt
    rotation_point_read_def rotation_point_fields_def rbind_assoc rbind_return
  by (cases m) (auto intro!: sync_intros split: if_splits)

lemma helmert_consumed: "deco helmert_read (\<lambda>m bs.
    helmert_check m = Inr () \<and> ht_trailing_bits m = [] \<and> fits_u 12 (ht_message_number m)
      \<and> writes (helmert_fields m) bs \<and> (\<exists>cs. bs = to_bits 12 (ucast (ht_message_number m)) @ cs))"
  unfolding helmert_read_def rbind_opt rotation_point_read_def rbind_assoc rbind_return
  by (intro deco_intros)
    (auto simp: helmert_check_def helmert_fields_def rotation_point_fields_def w_exec)

interpretation helmert: plain_codec helmert_read ht_message_number
   helmert_check helmert_fields ht_trailing_bits
   "\<lambda>bits m. m\<lparr>ht_trailing_bits := bits\<rparr>" helmert_encode_with_policy
  by unfold_locales (rule helmert_consumed | erule helmert_sync
    | simp add: helmert_encode_with_policy_def helmert_check_def helmert_fields_def)+

section \<open>Residual grids, 1023 and 1024\<close>

definition RESIDUAL_GRID_POINTS :: nat where
  "RESIDUAL_GRID_POINTS = 16"

record grid_residual =
  gr_horizontal_1 :: int
  gr_horizontal_2 :: int
  gr_height :: int

text \<open>
  \<^verbatim>\<open>[GridResidual; RESIDUAL_GRID_POINTS]\<close>: the lists of that length.  \<open>points_of\<close>
  overwrites the default array of the decoder with the residuals it reads.
\<close>

definition default_residual :: grid_residual where
  "default_residual = \<lparr>gr_horizontal_1 = 0, gr_horizontal_2 = 0, gr_height = 0\<rparr>"

typedef residual_array = "{xs :: grid_residual list. length xs = RESIDUAL_GRID_POINTS}"
  by (rule exI [of _ "replicate RESIDUAL_GRID_POINTS default_residual"]) simp

setup_lifting type_definition_residual_array

lift_definition points :: "residual_array \<Rightarrow> grid_residual list" is "\<lambda>xs. xs" .

lift_definition points_of :: "grid_residual list \<Rightarrow> residual_array" is
  "\<lambda>xs. take RESIDUAL_GRID_POINTS (xs @ replicate RESIDUAL_GRID_POINTS default_residual)"
  by simp

lemma length_points [simp]: "length (points a) = RESIDUAL_GRID_POINTS"
  by transfer simp

lemma points_of_points [simp]: "points_of (points a) = a"
  by transfer simp

lemma points_points_of: "length xs = RESIDUAL_GRID_POINTS \<Longrightarrow> points (points_of xs) = xs"
  by transfer simp

instantiation residual_array :: equal
begin

definition equal_residual_array :: "residual_array \<Rightarrow> residual_array \<Rightarrow> bool" where
  "equal_residual_array a b \<longleftrightarrow> points a = points b"

instance
  by standard (metis equal_residual_array_def points_of_points)

end

record residual_grid =
  rg_message_number :: u16
  rg_system_id :: u8
  rg_horizontal_shift :: bool
  rg_vertical_shift :: bool
  rg_origin_1 :: int
  rg_origin_2 :: int
  rg_extension_1 :: u16
  rg_extension_2 :: u16
  rg_mean_offset_1 :: int
  rg_mean_offset_2 :: int
  rg_mean_height_offset :: int
  rg_residuals :: residual_array
  rg_horizontal_interpolation :: u8
  rg_vertical_interpolation :: u8
  rg_horizontal_quality :: u8
  rg_vertical_quality :: u8
  rg_mjd :: u16
  rg_trailing_bits :: "bool list"

record grid_layout =
  gl_origin_1 :: nat
  gl_origin_2 :: nat
  gl_origin_2_signed :: bool
  gl_mean_offset :: nat

definition grid_layout_of :: "u16 \<Rightarrow> grid_layout option" where
  "grid_layout_of message_number =
     (if message_number = 1023
      then Some \<lparr>gl_origin_1 = 21, gl_origin_2 = 22, gl_origin_2_signed = True, gl_mean_offset = 8\<rparr>
      else if message_number = 1024
      then Some \<lparr>gl_origin_1 = 25, gl_origin_2 = 26, gl_origin_2_signed = False, gl_mean_offset = 10\<rparr>
      else None)"

text \<open>\<^verbatim>\<open>r.u(n)? as i32\<close>, and writing an \<^verbatim>\<open>i32\<close> through \<^verbatim>\<open>u64::try_from\<close>.\<close>

definition rd_u_i32 :: "nat \<Rightarrow> int rd" where
  "rd_u_i32 n = rbind (rd_u n) (\<lambda>v. rreturn (as_i32 (uint v)))"

definition w_easting :: "u16 \<Rightarrow> string \<Rightarrow> int \<Rightarrow> nat \<Rightarrow> wr" where
  "w_easting number field v n w =
     (if 0 \<le> v \<and> v < 2 ^ 64 then fw_u field (word_of_int v) n w
      else Inl (FieldOutOfRange number field v n Unsigned))"

definition grid_residual_read :: "grid_residual rd" where
  "grid_residual_read =
     rbind (rd_i16 9) (\<lambda>horizontal_1.
     rbind (rd_i16 9) (\<lambda>horizontal_2.
     rbind (rd_i16 9) (\<lambda>height.
     rreturn \<lparr>gr_horizontal_1 = horizontal_1, gr_horizontal_2 = horizontal_2,
              gr_height = height\<rparr>)))"

definition grid_read :: "residual_grid rd" where
  "grid_read =
     rbind (rd_as 12) (\<lambda>message_number :: u16.
     case grid_layout_of message_number of
       None \<Rightarrow> parse_error (''message '' @ dec_u message_number @
                           '' is not a residual grid message 1023/1024'')
     | Some layout \<Rightarrow>
     rbind (rd_as 8) (\<lambda>system_id.
     rbind rd_flag (\<lambda>horizontal_shift.
     rbind rd_flag (\<lambda>vertical_shift.
     rbind (rd_i32 (gl_origin_1 layout)) (\<lambda>origin_1.
     rbind (if gl_origin_2_signed layout then rd_i32 (gl_origin_2 layout)
            else rd_u_i32 (gl_origin_2 layout)) (\<lambda>origin_2.
     rbind (rd_as 12) (\<lambda>extension_1.
     rbind (rd_as 12) (\<lambda>extension_2.
     rbind (rd_i16 (gl_mean_offset layout)) (\<lambda>mean_offset_1.
     rbind (rd_i16 (gl_mean_offset layout)) (\<lambda>mean_offset_2.
     rbind (rd_i16 15) (\<lambda>mean_height_offset.
     rbind (rd_vec RESIDUAL_GRID_POINTS grid_residual_read) (\<lambda>residuals.
     rbind (rd_as 2) (\<lambda>horizontal_interpolation.
     rbind (rd_as 2) (\<lambda>vertical_interpolation.
     rbind (rd_as 3) (\<lambda>horizontal_quality.
     rbind (rd_as 3) (\<lambda>vertical_quality.
     rbind (rd_as 16) (\<lambda>mjd.
     rreturn \<lparr>rg_message_number = message_number,
              rg_system_id = system_id,
              rg_horizontal_shift = horizontal_shift,
              rg_vertical_shift = vertical_shift,
              rg_origin_1 = origin_1,
              rg_origin_2 = origin_2,
              rg_extension_1 = extension_1,
              rg_extension_2 = extension_2,
              rg_mean_offset_1 = mean_offset_1,
              rg_mean_offset_2 = mean_offset_2,
              rg_mean_height_offset = mean_height_offset,
              rg_residuals = points_of residuals,
              rg_horizontal_interpolation = horizontal_interpolation,
              rg_vertical_interpolation = vertical_interpolation,
              rg_horizontal_quality = horizontal_quality,
              rg_vertical_quality = vertical_quality,
              rg_mjd = mjd,
              rg_trailing_bits = []\<rparr>)))))))))))))))))"

definition grid_check :: "residual_grid \<Rightarrow> rtcm_encode_error + grid_layout" where
  "grid_check m =
     (case grid_layout_of (rg_message_number m) of
        None \<Rightarrow> Inl (MessageNumber (rg_message_number m)
                       (RkTransformation ''residual grid message 1023/1024''))
      | Some layout \<Rightarrow> Inr layout)"

definition grid_residual_fields :: "nat \<Rightarrow> grid_residual \<Rightarrow> wr list" where
  "grid_residual_fields index residual =
     [fw_i (''grid point '' @ dec index @ '' residual 1'') (gr_horizontal_1 residual) 9,
      fw_i (''grid point '' @ dec index @ '' residual 2'') (gr_horizontal_2 residual) 9,
      fw_i (''grid point '' @ dec index @ '' height residual'') (gr_height residual) 9]"

definition grid_fields :: "grid_layout \<Rightarrow> residual_grid \<Rightarrow> wr list" where
  "grid_fields layout m =
     [w_u ''message number'' (rg_message_number m) 12,
      w_u ''system identification number'' (rg_system_id m) 8,
      w_flag (rg_horizontal_shift m),
      w_flag (rg_vertical_shift m),
      fw_i ''grid origin 1'' (rg_origin_1 m) (gl_origin_1 layout),
      (if gl_origin_2_signed layout
       then fw_i ''grid origin 2'' (rg_origin_2 m) (gl_origin_2 layout)
       else w_easting (rg_message_number m) ''grid origin 2'' (rg_origin_2 m) (gl_origin_2 layout)),
      w_u ''grid extension 1'' (rg_extension_1 m) 12,
      w_u ''grid extension 2'' (rg_extension_2 m) 12,
      fw_i ''mean offset 1'' (rg_mean_offset_1 m) (gl_mean_offset layout),
      fw_i ''mean offset 2'' (rg_mean_offset_2 m) (gl_mean_offset layout),
      fw_i ''mean height offset'' (rg_mean_height_offset m) 15] @
     concat (map (\<lambda>(index, residual). grid_residual_fields index residual)
       (enumerate 0 (points (rg_residuals m)))) @
     [w_u ''horizontal interpolation indicator'' (rg_horizontal_interpolation m) 2,
      w_u ''vertical interpolation indicator'' (rg_vertical_interpolation m) 2,
      w_u ''horizontal grid quality indicator'' (rg_horizontal_quality m) 3,
      w_u ''vertical grid quality indicator'' (rg_vertical_quality m) 3,
      w_u ''MJD'' (rg_mjd m) 16]"

definition grid_encode_with_policy ::
  "rtcm_policy \<Rightarrow> residual_grid \<Rightarrow> rtcm_encode_error + u8 list \<times> rtcm_departure list" where
  "grid_encode_with_policy pol m =
     ebind (grid_check m) (\<lambda>layout.
     ebind (w_all (grid_fields layout m) (fw_new (rg_message_number m))) (\<lambda>w.
     close_body w (rg_trailing_bits m) pol))"


subsection \<open>The contract of the grids\<close>

lemma easting_wide:
  assumes "n \<le> 31" and "fits_u n (v :: u64)"
  shows "as_i32 (uint v) = uint v" and "0 \<le> uint v" and "uint v < 2 ^ 64"
proof -
  have "unat v < 2 ^ n" using assms(2) by (simp add: fits_u_def)
  also have "(2::nat) ^ n \<le> 2 ^ 31" using assms(1) by (intro power_increasing) auto
  finally have "unat v < 2 ^ 31" .
  then have "int (unat v) < int (2 ^ 31)" by (simp only: of_nat_less_iff)
  then have b: "uint v < 2 ^ 31" by simp
  then have "fits_i 32 (uint v)" by (auto simp: fits_i_def intro: order_trans [OF _ uint_ge_0])
  then show "as_i32 (uint v) = uint v" by (rule as_i32_fits) simp_all
  show "0 \<le> uint v" "uint v < 2 ^ 64" using b by simp_all
qed

lemma sync_easting:
  assumes "n \<le> 31" and "sync (k v) as y"
  shows "sync (rbind (rd_u_i32 n) k) (w_easting number f v n # as) y"
proof (cases "0 \<le> v \<and> v < 2 ^ 64")
  case True
  then have v: "uint (word_of_int v :: u64) = v" by (simp add: word_of_int_inverse)
  have "sync (rbind (rd_u n) (\<lambda>u. k (as_i32 (uint u)))) (w_u f (word_of_int v :: u64) n # as) y"
    using assms easting_wide [of n "word_of_int v"] by (intro sync_u) (simp_all add: v)
  moreover have "w_easting number f v n = w_u f (word_of_int v :: u64) n"
    using True by (auto simp: w_easting_def w_u_def)
  ultimately show ?thesis by (simp add: rd_u_i32_def rbind_assoc)
next
  case False
  have "w_easting number f v n w = Inl (FieldOutOfRange number f v n Unsigned)" for w
    unfolding w_easting_def if_not_P [OF False] by (rule refl)
  then show ?thesis by (simp add: sync_def)
qed

lemma deco_easting:
  assumes "n \<le> 31" and "\<And>v bs. (\<And>number f w. w_easting number f v n w = Inr (fw_put bs w)) \<Longrightarrow>
             deco (k v) (\<lambda>y cs. Q y (bs @ cs))"
  shows "deco (rbind (rd_u_i32 n) k) Q"
  unfolding rd_u_i32_def rbind_assoc rbind_return
proof (rule deco_u)
  fix u :: u64 assume u: "fits_u n u"
  note e = easting_wide [OF assms(1) u]
  have "w_easting number f (uint u) n w = Inr (fw_put (to_bits n u) w)" for number f w
    using assms(1) e(2,3) u w_u_eq [of n f u w] by (simp add: w_easting_def w_u_def)
  then show "deco (k (as_i32 (uint u))) (\<lambda>y cs. Q y (to_bits n u @ cs))"
    unfolding e(1) by (rule assms(2))
qed (use assms(1) in simp)

text \<open>The points, each under its own name.\<close>

lemma residuals_sync:
  assumes "sync (k xs) as y" and "n = length xs"
  shows "sync (rbind (rd_vec n grid_residual_read) k)
     (concat (map (\<lambda>(index, residual). grid_residual_fields index residual) (enumerate i xs)) @ as) y"
proof -
  have one: "sync grid_residual_read (grid_residual_fields j x) x" for j x
    unfolding grid_residual_read_def grid_residual_fields_def
    by (cases x) (auto intro!: sync_intros)
  have "sync (rd_vec (length (enumerate i xs)) grid_residual_read)
     (concat (map (\<lambda>(index, residual). grid_residual_fields index residual) (enumerate i xs)))
     (map snd (enumerate i xs))"
    by (intro sync_vec) (auto simp: one)
  then have vec: "sync (rd_vec (length xs) grid_residual_read)
     (concat (map (\<lambda>(index, residual). grid_residual_fields index residual) (enumerate i xs))) xs"
    by simp
  show ?thesis unfolding assms(2) by (rule sync_bind [OF vec]) (rule assms(1))
qed

lemma residuals_consumed:
  "deco (rd_vec n grid_residual_read) (\<lambda>xs bs. length xs = n \<and> (\<forall>i.
     writes (concat (map (\<lambda>(index, residual). grid_residual_fields index residual) (enumerate i xs))) bs))"
proof (induction n)
  case 0
  show ?case by (auto intro!: deco_intros simp: w_exec)
next
  case (Suc n)
  have "deco grid_residual_read (\<lambda>x bs. \<forall>i. writes (grid_residual_fields i x) bs)"
    unfolding grid_residual_read_def
    by (intro deco_intros) (simp_all add: grid_residual_fields_def w_exec)
  note one = this
  show ?case
    unfolding rd_vec.simps
    by (rule deco_bind [OF one], rule deco_bind [OF Suc.IH], rule deco_return)
      (auto intro: writes_append)
qed

lemma grid_layout_cases:
  assumes "grid_layout_of n = Some layout"
  obtains "n = 1023" "gl_origin_1 layout = 21" "gl_origin_2 layout = 22" "gl_origin_2_signed layout"
      "gl_mean_offset layout = 8"
    | "n = 1024" "gl_origin_1 layout = 25" "gl_origin_2 layout = 26" "\<not> gl_origin_2_signed layout"
      "gl_mean_offset layout = 10"
  using assms by (auto simp: grid_layout_of_def split: if_splits)

lemma grid_sync:
  assumes "grid_check m = Inr layout"
  shows "sync grid_read (grid_fields layout m) (m\<lparr>rg_trailing_bits := []\<rparr>)"
proof -
  from assms have l: "grid_layout_of (rg_message_number m) = Some layout"
    by (auto simp: grid_check_def split: option.splits)
  show ?thesis
    unfolding grid_read_def grid_fields_def append_Cons append_Nil
    apply (rule sync_as, simp, simp)
    apply (simp only: l option.case)
    apply (rule grid_layout_cases [OF l]; simp only: if_True if_False)
    by (cases m; simp; (intro sync_intros sync_easting residuals_sync; simp))+
qed

lemma grid_consumed: "deco grid_read (\<lambda>m bs.
    \<exists>layout. grid_check m = Inr layout \<and> rg_trailing_bits m = []
      \<and> fits_u 12 (rg_message_number m) \<and> writes (grid_fields layout m) bs
      \<and> (\<exists>cs. bs = to_bits 12 (ucast (rg_message_number m)) @ cs))"
  unfolding grid_read_def
  apply (rule deco_as, simp, simp)
  subgoal for n
    apply (cases "grid_layout_of n")
     apply (simp add: deco_parse_error)
    apply (simp only: option.case)
    apply (erule grid_layout_cases; simp only: if_True if_False)
     apply (intro deco_intros deco_bind [OF residuals_consumed]; simp)
     apply (auto simp: grid_check_def grid_layout_of_def grid_fields_def w_exec points_points_of)[1]
    apply (intro deco_intros deco_easting deco_bind [OF residuals_consumed]; simp)
    apply (auto simp: grid_check_def grid_layout_of_def grid_fields_def w_exec points_points_of)[1]
    done
  done

interpretation grid: plain_codec grid_read rg_message_number
   "\<lambda>m. ebind (grid_check m) (\<lambda>_. Inr ())"
   "\<lambda>m. case grid_check m of Inl _ \<Rightarrow> [] | Inr layout \<Rightarrow> grid_fields layout m" rg_trailing_bits
   "\<lambda>bits m. m\<lparr>rg_trailing_bits := bits\<rparr>" grid_encode_with_policy
proof unfold_locales
  show "deco grid_read (\<lambda>m bs. ebind (grid_check m) (\<lambda>_. Inr ()) = Inr () \<and> rg_trailing_bits m = []
      \<and> fits_u 12 (rg_message_number m)
      \<and> writes (case grid_check m of Inl _ \<Rightarrow> [] | Inr layout \<Rightarrow> grid_fields layout m) bs
      \<and> (\<exists>cs. bs = to_bits 12 (ucast (rg_message_number m)) @ cs))"
    by (rule deco_mono [OF grid_consumed]) auto
  show "sync grid_read (case grid_check m of Inl _ \<Rightarrow> [] | Inr layout \<Rightarrow> grid_fields layout m)
      (m\<lparr>rg_trailing_bits := []\<rparr>)" if "ebind (grid_check m) (\<lambda>_. Inr ()) = Inr ()" for m
    using that by (auto intro: grid_sync)
qed (auto simp: grid_encode_with_policy_def grid_check_def grid_fields_def
    split: option.splits)

section \<open>Projections, 1025 to 1027\<close>

text \<open>The arguments of each constructor are the named fields of the variant in their order.\<close>

datatype (plugins only: code) projection_parameters =
    NaturalOrigin int int u32 u64 int
  | LambertConicConformal int int int int u64 int
  | ObliqueMercator bool int int u64 int u32 u64 int

record projection =
  pj_system_id :: u8
  pj_projection_type :: u8
  pj_parameters :: projection_parameters
  pj_trailing_bits :: "bool list"

definition projection_message_number :: "projection \<Rightarrow> u16" where
  "projection_message_number p =
     (case pj_parameters p of
        NaturalOrigin _ _ _ _ _ \<Rightarrow> 1025
      | LambertConicConformal _ _ _ _ _ _ \<Rightarrow> 1026
      | ObliqueMercator _ _ _ _ _ _ _ _ \<Rightarrow> 1027)"

definition projection_parameters_read :: "u16 \<Rightarrow> projection_parameters rd" where
  "projection_parameters_read message_number =
     (if message_number = 1025 then
        rbind (rd_i 34) (\<lambda>latitude.
        rbind (rd_i 35) (\<lambda>longitude.
        rbind (rd_as 30) (\<lambda>add_scale.
        rbind (rd_u 36) (\<lambda>false_easting.
        rbind (rd_i 35) (\<lambda>false_northing.
        rreturn (NaturalOrigin latitude longitude add_scale false_easting false_northing))))))
     else if message_number = 1026 then
        rbind (rd_i 34) (\<lambda>latitude.
        rbind (rd_i 35) (\<lambda>longitude.
        rbind (rd_i 34) (\<lambda>standard_parallel_1.
        rbind (rd_i 34) (\<lambda>standard_parallel_2.
        rbind (rd_u 36) (\<lambda>false_easting.
        rbind (rd_i 35) (\<lambda>false_northing.
        rreturn (LambertConicConformal latitude longitude standard_parallel_1 standard_parallel_2 false_easting false_northing)))))))
     else
        rbind rd_flag (\<lambda>rectification.
        rbind (rd_i 34) (\<lambda>latitude.
        rbind (rd_i 35) (\<lambda>longitude.
        rbind (rd_u 35) (\<lambda>azimuth.
        rbind (rd_i32 26) (\<lambda>rectified_to_skew.
        rbind (rd_as 30) (\<lambda>add_scale.
        rbind (rd_u 36) (\<lambda>easting.
        rbind (rd_i 35) (\<lambda>northing.
        rreturn (ObliqueMercator rectification latitude longitude azimuth rectified_to_skew add_scale easting northing))))))))))"

definition projection_read :: "projection rd" where
  "projection_read =
     rbind (rd_as 12) (\<lambda>message_number :: u16.
     if \<not> (1025 \<le> message_number \<and> message_number \<le> 1027)
     then parse_error (''message '' @ dec_u message_number @
                       '' is not a projection message 1025-1027'')
     else
     rbind (rd_as 8) (\<lambda>system_id.
     rbind (rd_as 6) (\<lambda>projection_type.
     rbind (projection_parameters_read message_number) (\<lambda>parameters.
     rreturn \<lparr>pj_system_id = system_id,
              pj_projection_type = projection_type,
              pj_parameters = parameters,
              pj_trailing_bits = []\<rparr>))))"

definition projection_parameters_fields :: "projection_parameters \<Rightarrow> wr list" where
  "projection_parameters_fields parameters =
     (case parameters of
        NaturalOrigin latitude longitude add_scale false_easting false_northing \<Rightarrow>
          [fw_i ''LaNO'' latitude 34,
           fw_i ''LoNO'' longitude 35,
           w_u ''add SNO'' add_scale 30,
           w_u ''FE'' false_easting 36,
           fw_i ''FN'' false_northing 35]
      | LambertConicConformal latitude longitude standard_parallel_1 standard_parallel_2 false_easting false_northing \<Rightarrow>
          [fw_i ''LaFO'' latitude 34,
           fw_i ''LoFO'' longitude 35,
           fw_i ''LaSP1'' standard_parallel_1 34,
           fw_i ''LaSP2'' standard_parallel_2 34,
           w_u ''EFO'' false_easting 36,
           fw_i ''NFO'' false_northing 35]
      | ObliqueMercator rectification latitude longitude azimuth rectified_to_skew add_scale easting northing \<Rightarrow>
          [w_flag rectification,
           fw_i ''LaPC'' latitude 34,
           fw_i ''LoPC'' longitude 35,
           w_u ''AzIL'' azimuth 35,
           fw_i ''Diff ARSG'' rectified_to_skew 26,
           w_u ''add SIL'' add_scale 30,
           w_u ''EPC'' easting 36,
           fw_i ''NPC'' northing 35])"

definition projection_fields :: "projection \<Rightarrow> wr list" where
  "projection_fields p =
     [w_u ''message number'' (projection_message_number p) 12,
      w_u ''system identification number'' (pj_system_id p) 8,
      w_u ''projection type'' (pj_projection_type p) 6] @
     projection_parameters_fields (pj_parameters p)"

definition projection_encode_with_policy ::
  "rtcm_policy \<Rightarrow> projection \<Rightarrow> rtcm_encode_error + u8 list \<times> rtcm_departure list" where
  "projection_encode_with_policy pol p =
     ebind (w_all (projection_fields p) (fw_new (projection_message_number p))) (\<lambda>w.
     close_body w (pj_trailing_bits p) pol)"

lemma projection_sync: "sync projection_read (projection_fields p) (p\<lparr>pj_trailing_bits := []\<rparr>)"
  unfolding projection_read_def projection_fields_def projection_parameters_read_def
    projection_parameters_fields_def projection_message_number_def
  by (cases p, cases "pj_parameters p") (auto simp: rbind_assoc intro!: sync_intros)

lemma projection_consumed: "deco projection_read (\<lambda>p bs.
    pj_trailing_bits p = [] \<and> fits_u 12 (projection_message_number p)
      \<and> writes (projection_fields p) bs
      \<and> (\<exists>cs. bs = to_bits 12 (ucast (projection_message_number p)) @ cs))"
proof -
  have range: "(1025 \<le> n \<and> n \<le> 1027) \<longleftrightarrow> n = 1025 \<or> n = 1026 \<or> n = 1027" for n :: u16
    by (auto simp: word_le_nat_alt word_unat_eq_iff)
  show ?thesis
    unfolding projection_read_def range projection_parameters_read_def if_distrib [of "\<lambda>m. rbind m _"]
      rbind_assoc rbind_return
    by (intro deco_intros)
      (auto simp: projection_fields_def projection_parameters_fields_def
        projection_message_number_def w_exec)
qed

interpretation projection: plain_codec projection_read projection_message_number "\<lambda>_. Inr ()"
   projection_fields pj_trailing_bits "\<lambda>bits p. p\<lparr>pj_trailing_bits := bits\<rparr>"
   projection_encode_with_policy
proof unfold_locales
qed (rule deco_mono [OF projection_consumed] projection_sync
  | simp add: projection_encode_with_policy_def projection_fields_def projection_message_number_def)+

end
