(* ===== verification/Rtcm_Ssr.thy ===== *)
theory Rtcm_Ssr
  imports Rtcm_Counted
begin

text \<open>
  The SSR and IGS SSR satellite messages of \<^verbatim>\<open>rtcm/ssr.rs\<close>: orbit, clock, combined,
  code-bias, phase-bias, URA and high-rate clock corrections of six
  constellations.  This theory holds the message numbers and subtypes, the field
  widths, the decoder and the encoder with its checks; the round trips are proved
  in \<open>Rtcm_Ssr_Codec\<close>.
\<close>

section \<open>Message numbers and kinds\<close>

definition IGS_SSR_MESSAGE_NUMBER :: u16 where
  "IGS_SSR_MESSAGE_NUMBER = 4076"

definition SATELLITE_COUNT_BITS :: nat where
  "SATELLITE_COUNT_BITS = 6"

text \<open>The arms of \<^verbatim>\<open>ssr_kind\<close> in their order.\<close>

definition ssr_kinds :: "(u16 \<times> gnss_system \<times> ssr_kind) list" where
  "ssr_kinds =
     [(1057, Gps, SsrOrbit), (1058, Gps, SsrClock), (1059, Gps, SsrCodeBias),
      (1060, Gps, SsrCombinedOrbitClock), (1061, Gps, SsrUra), (1062, Gps, SsrHighRateClock),
      (1063, Glonass, SsrOrbit), (1064, Glonass, SsrClock), (1065, Glonass, SsrCodeBias),
      (1066, Glonass, SsrCombinedOrbitClock), (1067, Glonass, SsrUra),
      (1068, Glonass, SsrHighRateClock), (1265, Gps, SsrPhaseBias),
      (1240, Galileo, SsrOrbit), (1241, Galileo, SsrClock), (1242, Galileo, SsrCodeBias),
      (1243, Galileo, SsrCombinedOrbitClock), (1244, Galileo, SsrUra),
      (1245, Galileo, SsrHighRateClock), (1267, Galileo, SsrPhaseBias),
      (1246, Qzss, SsrOrbit), (1247, Qzss, SsrClock), (1248, Qzss, SsrCodeBias),
      (1249, Qzss, SsrCombinedOrbitClock), (1250, Qzss, SsrUra), (1251, Qzss, SsrHighRateClock),
      (1268, Qzss, SsrPhaseBias),
      (1258, BeiDou, SsrOrbit), (1259, BeiDou, SsrClock), (1260, BeiDou, SsrCodeBias),
      (1261, BeiDou, SsrCombinedOrbitClock), (1262, BeiDou, SsrUra),
      (1263, BeiDou, SsrHighRateClock), (1270, BeiDou, SsrPhaseBias),
      (1266, Glonass, SsrPhaseBias),
      (1252, Sbas, SsrOrbit), (1253, Sbas, SsrClock), (1254, Sbas, SsrCodeBias),
      (1255, Sbas, SsrCombinedOrbitClock), (1256, Sbas, SsrUra), (1257, Sbas, SsrHighRateClock),
      (1269, Sbas, SsrPhaseBias)]"

definition ssr_kind_of :: "u16 \<Rightarrow> (gnss_system \<times> ssr_kind) option" where
  "ssr_kind_of message_number = map_of ssr_kinds message_number"

definition is_supported_ssr :: "u16 \<Rightarrow> bool" where
  "is_supported_ssr message_number \<longleftrightarrow> ssr_kind_of message_number \<noteq> None"

definition IGS_SSR_SYSTEMS :: "(gnss_system \<times> u8) list" where
  "IGS_SSR_SYSTEMS =
     [(Gps, 20), (Glonass, 40), (Galileo, 60), (Qzss, 80), (BeiDou, 100), (Sbas, 120)]"

definition IGS_SSR_KINDS :: "(ssr_kind \<times> u8) list" where
  "IGS_SSR_KINDS =
     [(SsrOrbit, 1), (SsrClock, 2), (SsrCombinedOrbitClock, 3), (SsrHighRateClock, 4),
      (SsrCodeBias, 5), (SsrPhaseBias, 6), (SsrUra, 7)]"

definition igs_ssr_kind :: "u8 \<Rightarrow> (gnss_system \<times> ssr_kind) option" where
  "igs_ssr_kind subtype =
     (case find (\<lambda>(_, offset). subtype > offset \<and> subtype \<le> offset + 7) IGS_SSR_SYSTEMS of
        None \<Rightarrow> None
      | Some (system, offset) \<Rightarrow>
          let digit = subtype - offset
          in case find (\<lambda>(_, d). d = digit) IGS_SSR_KINDS of
               None \<Rightarrow> None
             | Some (kind, _) \<Rightarrow> Some (system, kind))"

definition igs_ssr_subtype_of :: "gnss_system \<Rightarrow> ssr_kind \<Rightarrow> u8 option" where
  "igs_ssr_subtype_of system kind =
     (case find (\<lambda>(s, _). s = system) IGS_SSR_SYSTEMS of
        None \<Rightarrow> None
      | Some (_, offset) \<Rightarrow>
          case find (\<lambda>(k, _). k = kind) IGS_SSR_KINDS of
            None \<Rightarrow> None
          | Some (_, digit) \<Rightarrow> Some (offset + digit))"

definition igs_ssr_identity :: "u8 list \<Rightarrow> decode_error + u8 \<times> u8" where
  "igs_ssr_identity body =
     ebind (rbind (rd_u 12) (\<lambda>_.
            rbind (rd_as 3) (\<lambda>version.
            rbind (rd_as 8) (\<lambda>subtype.
            rreturn (version, subtype)))) (br_new body)) (\<lambda>(identity, r). Inr identity)"

section \<open>Messages\<close>

record ssr_header =
  sh_epoch_time_s :: u32
  sh_update_interval :: u8
  sh_multiple_message :: bool
  sh_iod_ssr :: u8
  sh_provider_id :: u16
  sh_solution_id :: u8
  sh_satellite_reference_datum :: "bool option"
  sh_dispersive_bias_consistency :: "bool option"
  sh_mw_consistency :: "bool option"
  sh_satellite_count :: u8

record ssr_orbit_record =
  so_satellite_id :: u8
  so_iode :: u32
  so_iod_crc :: "u32 option"
  so_delta_radial :: int
  so_delta_along :: int
  so_delta_cross :: int
  so_dot_delta_radial :: int
  so_dot_delta_along :: int
  so_dot_delta_cross :: int

record ssr_clock_record =
  sc_satellite_id :: u8
  sc_c0 :: int
  sc_c1 :: int
  sc_c2 :: int

record ssr_code_bias_record =
  cb_satellite_id :: u8
  cb_biases :: "(u8 \<times> int) list"

record ssr_phase_bias_signal =
  ps_signal_id :: u8
  ps_integer_indicator :: u8
  ps_wide_lane_integer_indicator :: u8
  ps_discontinuity_counter :: u8
  ps_bias :: int

record ssr_phase_bias_record =
  pb_satellite_id :: u8
  pb_yaw_angle :: u16
  pb_yaw_rate :: int
  pb_biases :: "ssr_phase_bias_signal list"

record ssr_message =
  sm_message_number :: u16
  sm_igs_ssr_version :: "u8 option"
  sm_system :: gnss_system
  sm_kind :: ssr_kind
  sm_header :: ssr_header
  sm_orbit :: "ssr_orbit_record list"
  sm_clock :: "ssr_clock_record list"
  sm_code_bias :: "ssr_code_bias_record list"
  sm_phase_bias :: "ssr_phase_bias_record list"
  sm_ura :: "(u8 \<times> u8) list"
  sm_padding_bits :: "bool list"

section \<open>Field widths\<close>

definition is_native_qzss_ssr :: "u16 \<Rightarrow> bool" where
  "is_native_qzss_ssr message_number \<longleftrightarrow>
     1246 \<le> message_number \<and> message_number \<le> 1251 \<or> message_number = 1268"

definition satellite_id_bits :: "gnss_system \<Rightarrow> u16 \<Rightarrow> nat" where
  "satellite_id_bits system message_number =
     (if system = Glonass then 5
      else if system = Qzss \<and> is_native_qzss_ssr message_number then 4
      else 6)"

definition iode_bits :: "gnss_system \<Rightarrow> nat" where
  "iode_bits system =
     (if system = Galileo then 10 else if system = BeiDou then 18
      else if system = Sbas then 9 else 8)"

definition epoch_time_bits :: "gnss_system \<Rightarrow> nat" where
  "epoch_time_bits system = (if system = Glonass then 17 else 20)"

record ssr_layout =
  sl_igs :: bool
  sl_epoch_bits :: nat
  sl_satellite_bits :: nat
  sl_iode_bits :: nat
  sl_iod_crc :: bool

definition ssr_layout_new :: "gnss_system \<Rightarrow> u16 \<Rightarrow> ssr_layout" where
  "ssr_layout_new system message_number =
     (if message_number = IGS_SSR_MESSAGE_NUMBER
      then \<lparr>sl_igs = True, sl_epoch_bits = 20, sl_satellite_bits = 6, sl_iode_bits = 8,
            sl_iod_crc = False\<rparr>
      else \<lparr>sl_igs = False, sl_epoch_bits = epoch_time_bits system,
            sl_satellite_bits = satellite_id_bits system message_number,
            sl_iode_bits = iode_bits system, sl_iod_crc = (system = Sbas)\<rparr>)"

section \<open>Decoding\<close>

definition carries_datum :: "ssr_kind \<Rightarrow> bool" where
  "carries_datum kind \<longleftrightarrow> kind = SsrOrbit \<or> kind = SsrCombinedOrbitClock"

text \<open>
  RTCM SSR puts the satellite reference datum before the IOD SSR, IGS SSR after
  the solution ID.
\<close>

definition ssr_read_header :: "ssr_layout \<Rightarrow> ssr_kind \<Rightarrow> ssr_header rd" where
  "ssr_read_header layout kind =
     rbind (rd_as (sl_epoch_bits layout)) (\<lambda>epoch_time_s.
     rbind (rd_as 4) (\<lambda>update_interval.
     rbind rd_flag (\<lambda>multiple_message.
     rbind (rd_opt (carries_datum kind \<and> \<not> sl_igs layout) rd_flag) (\<lambda>datum_before.
     rbind (rd_as 4) (\<lambda>iod_ssr.
     rbind (rd_as 16) (\<lambda>provider_id.
     rbind (rd_as 4) (\<lambda>solution_id.
     rbind (rd_opt (carries_datum kind \<and> sl_igs layout) rd_flag) (\<lambda>datum_after.
     rbind (rd_opt (kind = SsrPhaseBias) rd_flag) (\<lambda>dispersive_bias_consistency.
     rbind (rd_opt (kind = SsrPhaseBias) rd_flag) (\<lambda>mw_consistency.
     rbind (rd_as SATELLITE_COUNT_BITS) (\<lambda>satellite_count.
     rreturn \<lparr>sh_epoch_time_s = epoch_time_s,
              sh_update_interval = update_interval,
              sh_multiple_message = multiple_message,
              sh_iod_ssr = iod_ssr,
              sh_provider_id = provider_id,
              sh_solution_id = solution_id,
              sh_satellite_reference_datum =
                (if carries_datum kind \<and> sl_igs layout then datum_after else datum_before),
              sh_dispersive_bias_consistency = dispersive_bias_consistency,
              sh_mw_consistency = mw_consistency,
              sh_satellite_count = satellite_count\<rparr>)))))))))))"

definition read_orbit_record :: "ssr_layout \<Rightarrow> ssr_orbit_record rd" where
  "read_orbit_record layout =
     rbind (rd_as (sl_satellite_bits layout)) (\<lambda>satellite_id.
     rbind (rd_as (sl_iode_bits layout)) (\<lambda>iode.
     rbind (rd_opt (sl_iod_crc layout) (rd_as 24)) (\<lambda>iod_crc.
     rbind (rd_i32 22) (\<lambda>delta_radial.
     rbind (rd_i32 20) (\<lambda>delta_along.
     rbind (rd_i32 20) (\<lambda>delta_cross.
     rbind (rd_i32 21) (\<lambda>dot_delta_radial.
     rbind (rd_i32 19) (\<lambda>dot_delta_along.
     rbind (rd_i32 19) (\<lambda>dot_delta_cross.
     rreturn \<lparr>so_satellite_id = satellite_id, so_iode = iode, so_iod_crc = iod_crc,
              so_delta_radial = delta_radial, so_delta_along = delta_along,
              so_delta_cross = delta_cross, so_dot_delta_radial = dot_delta_radial,
              so_dot_delta_along = dot_delta_along, so_dot_delta_cross = dot_delta_cross\<rparr>)))))))))"

text \<open>The three clock terms that follow a satellite field.\<close>

definition read_clock_terms :: "u8 \<Rightarrow> ssr_clock_record rd" where
  "read_clock_terms satellite_id =
     rbind (rd_i32 22) (\<lambda>c0.
     rbind (rd_i32 21) (\<lambda>c1.
     rbind (rd_i32 27) (\<lambda>c2.
     rreturn \<lparr>sc_satellite_id = satellite_id, sc_c0 = c0, sc_c1 = c1, sc_c2 = c2\<rparr>)))"

definition read_clock_record :: "nat \<Rightarrow> ssr_clock_record rd" where
  "read_clock_record sat_bits = rbind (rd_as sat_bits) read_clock_terms"

definition read_combined :: "ssr_layout \<Rightarrow> (ssr_orbit_record \<times> ssr_clock_record) rd" where
  "read_combined layout =
     rbind (read_orbit_record layout) (\<lambda>rec.
     rbind (read_clock_terms (so_satellite_id rec)) (\<lambda>clock.
     rreturn (rec, clock)))"

definition read_ura :: "nat \<Rightarrow> (u8 \<times> u8) rd" where
  "read_ura sat_bits =
     rbind (rd_as sat_bits) (\<lambda>satellite_id.
     rbind (rd_as 6) (\<lambda>index.
     rreturn (satellite_id, index)))"

definition read_high_rate_clock :: "nat \<Rightarrow> ssr_clock_record rd" where
  "read_high_rate_clock sat_bits =
     rbind (rd_as sat_bits) (\<lambda>satellite_id.
     rbind (rd_i32 22) (\<lambda>c0.
     rreturn \<lparr>sc_satellite_id = satellite_id, sc_c0 = c0, sc_c1 = 0, sc_c2 = 0\<rparr>))"

definition read_code_bias :: "(u8 \<times> int) rd" where
  "read_code_bias =
     rbind (rd_as 5) (\<lambda>signal_id.
     rbind (rd_i16 14) (\<lambda>bias.
     rreturn (signal_id, bias)))"

definition read_code_bias_record :: "nat \<Rightarrow> ssr_code_bias_record rd" where
  "read_code_bias_record sat_bits =
     rbind (rd_as sat_bits) (\<lambda>satellite_id.
     rbind (rd_usize 5) (\<lambda>count.
     rbind (rd_vec count read_code_bias) (\<lambda>biases.
     rreturn \<lparr>cb_satellite_id = satellite_id, cb_biases = biases\<rparr>)))"

definition read_phase_bias :: "ssr_phase_bias_signal rd" where
  "read_phase_bias =
     rbind (rd_as 5) (\<lambda>signal_id.
     rbind (rd_as 1) (\<lambda>integer_indicator.
     rbind (rd_as 2) (\<lambda>wide_lane_integer_indicator.
     rbind (rd_as 4) (\<lambda>discontinuity_counter.
     rbind (rd_i32 20) (\<lambda>bias.
     rreturn \<lparr>ps_signal_id = signal_id, ps_integer_indicator = integer_indicator,
              ps_wide_lane_integer_indicator = wide_lane_integer_indicator,
              ps_discontinuity_counter = discontinuity_counter, ps_bias = bias\<rparr>)))))"

definition read_phase_bias_record :: "nat \<Rightarrow> ssr_phase_bias_record rd" where
  "read_phase_bias_record sat_bits =
     rbind (rd_as sat_bits) (\<lambda>satellite_id.
     rbind (rd_usize 5) (\<lambda>count.
     rbind (rd_as 9) (\<lambda>yaw_angle.
     rbind (rd_i8 8) (\<lambda>yaw_rate.
     rbind (rd_vec count read_phase_bias) (\<lambda>biases.
     rreturn \<lparr>pb_satellite_id = satellite_id, pb_yaw_angle = yaw_angle, pb_yaw_rate = yaw_rate,
              pb_biases = biases\<rparr>)))))"

definition is_out_of_input :: "decode_error \<Rightarrow> bool" where
  "is_out_of_input e = (case e of OutOfInput _ \<Rightarrow> True | _ \<Rightarrow> False)"

definition read_records ::
  "decode_context \<Rightarrow> u16 \<Rightarrow> nat \<Rightarrow> 'a rd \<Rightarrow> ('a list \<times> decode_context) rd" where
  "read_records ctx message_number count read =
     counted_loop is_out_of_input (SsrRecordsShort message_number count) read count ctx []"

text \<open>
  \<open>ssr_read_head\<close> reads up to the records and gives the message without any;
  \<open>ssr_read_lists\<close> is the \<^verbatim>\<open>match kind\<close> that reads them.
\<close>

definition ssr_read_identity :: "u16 \<Rightarrow> (gnss_system \<times> ssr_kind \<times> u8 option) rd" where
  "ssr_read_identity message_number =
     (if message_number = IGS_SSR_MESSAGE_NUMBER then
        rbind (rd_as 3) (\<lambda>version.
        rbind (rd_as 8) (\<lambda>subtype.
        case igs_ssr_kind subtype of
          None \<Rightarrow> parse_error (''IGS SSR message number '' @ dec_u subtype @
                              '' is not a satellite correction message'')
        | Some (system, kind) \<Rightarrow> rreturn (system, kind, Some version)))
      else
        case ssr_kind_of message_number of
          None \<Rightarrow> parse_error (''message '' @ dec_u message_number @
                              '' is not a supported RTCM SSR Phase A type'')
        | Some (system, kind) \<Rightarrow> rreturn (system, kind, None))"

definition ssr_read_head :: "ssr_message rd" where
  "ssr_read_head =
     rbind (rd_as 12) (\<lambda>message_number.
     rbind (ssr_read_identity message_number) (\<lambda>(system, kind, igs_ssr_version).
     rbind (ssr_read_header (ssr_layout_new system message_number) kind) (\<lambda>header.
     rreturn \<lparr>sm_message_number = message_number,
              sm_igs_ssr_version = igs_ssr_version,
              sm_system = system,
              sm_kind = kind,
              sm_header = header,
              sm_orbit = [], sm_clock = [], sm_code_bias = [], sm_phase_bias = [], sm_ura = [],
              sm_padding_bits = []\<rparr>)))"

definition ssr_read_lists ::
  "ssr_message \<Rightarrow> decode_context \<Rightarrow> (ssr_message \<times> decode_context) rd" where
  "ssr_read_lists h ctx =
     (let layout = ssr_layout_new (sm_system h) (sm_message_number h);
          sat_bits = sl_satellite_bits layout; number = sm_message_number h;
          count = unat (sh_satellite_count (sm_header h))
      in case sm_kind h of
           SsrOrbit \<Rightarrow>
             rbind (read_records ctx number count (read_orbit_record layout)) (\<lambda>(orbit, ctx').
             rreturn (h\<lparr>sm_orbit := orbit\<rparr>, ctx'))
         | SsrClock \<Rightarrow>
             rbind (read_records ctx number count (read_clock_record sat_bits)) (\<lambda>(clock, ctx').
             rreturn (h\<lparr>sm_clock := clock\<rparr>, ctx'))
         | SsrCombinedOrbitClock \<Rightarrow>
             rbind (read_records ctx number count (read_combined layout)) (\<lambda>(pairs, ctx').
             rreturn (h\<lparr>sm_orbit := map fst pairs, sm_clock := map snd pairs\<rparr>, ctx'))
         | SsrUra \<Rightarrow>
             rbind (read_records ctx number count (read_ura sat_bits)) (\<lambda>(ura, ctx').
             rreturn (h\<lparr>sm_ura := ura\<rparr>, ctx'))
         | SsrHighRateClock \<Rightarrow>
             rbind (read_records ctx number count (read_high_rate_clock sat_bits)) (\<lambda>(clock, ctx').
             rreturn (h\<lparr>sm_clock := clock\<rparr>, ctx'))
         | SsrCodeBias \<Rightarrow>
             rbind (read_records ctx number count (read_code_bias_record sat_bits)) (\<lambda>(code_bias, ctx').
             rreturn (h\<lparr>sm_code_bias := code_bias\<rparr>, ctx'))
         | SsrPhaseBias \<Rightarrow>
             rbind (read_records ctx number count (read_phase_bias_record sat_bits)) (\<lambda>(phase_bias, ctx').
             rreturn (h\<lparr>sm_phase_bias := phase_bias\<rparr>, ctx')))"

definition ssr_record_count :: "ssr_message \<Rightarrow> nat" where
  "ssr_record_count m =
     max (max (max (max (length (sm_orbit m)) (length (sm_clock m))) (length (sm_code_bias m)))
       (length (sm_phase_bias m))) (length (sm_ura m))"

definition ssr_decode_inner :: "u8 list \<Rightarrow> decode_context \<Rightarrow> decode_error + ssr_message \<times> decode_context" where
  "ssr_decode_inner body ctx =
     ebind (ssr_read_head (br_new body)) (\<lambda>(h, r).
     ebind (ssr_read_lists h ctx r) (\<lambda>((m, ctx1), r1).
       let padding_bits = fst (br_rest r1)
       in ebind (if ssr_record_count m = unat (sh_satellite_count (sm_header h))
                    \<and> is_departing_tail padding_bits
                 then depart (TrailingBits (sm_message_number h) padding_bits) ctx1
                 else Inr ctx1) (\<lambda>ctx2.
          Inr (m\<lparr>sm_padding_bits := padding_bits\<rparr>, ctx2))))"

section \<open>Encoding\<close>

definition ssr_record :: "ssr_message \<Rightarrow> rtcm_record_kind" where
  "ssr_record m = RkSsr (sm_system m) (sm_kind m)"

definition igs_ssr_subtype :: "ssr_message \<Rightarrow> u8 option" where
  "igs_ssr_subtype m =
     (if sm_message_number m = IGS_SSR_MESSAGE_NUMBER
      then igs_ssr_subtype_of (sm_system m) (sm_kind m) else None)"

definition ssr_check_identity :: "ssr_message \<Rightarrow> rtcm_encode_error + unit" where
  "ssr_check_identity m =
     (let number = sm_message_number m
      in if number = IGS_SSR_MESSAGE_NUMBER
         then if sm_igs_ssr_version m = None
              then Inl (FieldPresence number (ssr_record m) ''IGS SSR version'' True)
              else if igs_ssr_subtype m = None then Inl (MessageNumber number (ssr_record m))
              else Inr ()
         else if sm_igs_ssr_version m \<noteq> None
              then Inl (FieldPresence number (ssr_record m) ''IGS SSR version'' False)
              else if ssr_kind_of number \<noteq> Some (sm_system m, sm_kind m)
              then Inl (MessageNumber number (ssr_record m))
              else Inr ())"

definition satellite_fields :: "ssr_message \<Rightarrow> u8 list" where
  "satellite_fields m =
     (case sm_kind m of
        SsrOrbit \<Rightarrow> map so_satellite_id (sm_orbit m)
      | SsrClock \<Rightarrow> map sc_satellite_id (sm_clock m)
      | SsrHighRateClock \<Rightarrow> map sc_satellite_id (sm_clock m)
      | SsrCombinedOrbitClock \<Rightarrow>
          map (\<lambda>(orbit, _). so_satellite_id orbit) (zip (sm_orbit m) (sm_clock m))
      | SsrUra \<Rightarrow> map fst (sm_ura m)
      | SsrCodeBias \<Rightarrow> map cb_satellite_id (sm_code_bias m)
      | SsrPhaseBias \<Rightarrow> map pb_satellite_id (sm_phase_bias m))"

definition check_written ::
  "ssr_message \<Rightarrow> string \<Rightarrow> nat \<Rightarrow> bool \<Rightarrow> rtcm_encode_error + unit" where
  "check_written m name len writes_them =
     (if len > 0 \<and> \<not> writes_them
      then Inl (SsrRecordsNotCarried (sm_message_number m) (sm_kind m) name len)
      else Inr ())"

fun check_combined ::
  "u16 \<Rightarrow> nat \<Rightarrow> (ssr_orbit_record \<times> ssr_clock_record) list \<Rightarrow> rtcm_encode_error + unit" where
  "check_combined number index [] = Inr ()"
| "check_combined number index ((orbit, clock) # rest) =
     (if so_satellite_id orbit \<noteq> sc_satellite_id clock
      then Inl (SsrCombinedSatelliteMismatch number index (so_satellite_id orbit) (sc_satellite_id clock))
      else check_combined number (Suc index) rest)"

definition check_lists :: "rtcm_policy \<Rightarrow> ssr_message \<Rightarrow> rtcm_encode_error + rtcm_departure list" where
  "check_lists pol m =
     (let number = sm_message_number m; kind = sm_kind m in
      ebind (check_written m ''orbit'' (length (sm_orbit m))
               (kind = SsrOrbit \<or> kind = SsrCombinedOrbitClock)) (\<lambda>_.
      ebind (check_written m ''clock'' (length (sm_clock m))
               (kind = SsrClock \<or> kind = SsrCombinedOrbitClock \<or> kind = SsrHighRateClock)) (\<lambda>_.
      ebind (check_written m ''code-bias'' (length (sm_code_bias m)) (kind = SsrCodeBias)) (\<lambda>_.
      ebind (check_written m ''phase-bias'' (length (sm_phase_bias m)) (kind = SsrPhaseBias)) (\<lambda>_.
      ebind (check_written m ''URA'' (length (sm_ura m)) (kind = SsrUra)) (\<lambda>_.
      ebind (if kind = SsrCombinedOrbitClock
             then if length (sm_orbit m) \<noteq> length (sm_clock m)
                  then Inl (SsrCombinedRecordCounts number (length (sm_orbit m)) (length (sm_clock m)))
                  else check_combined number 0 (zip (sm_orbit m) (sm_clock m))
             else Inr ()) (\<lambda>_.
      ebind (if kind = SsrHighRateClock
             then (case find (\<lambda>rec. sc_c1 rec \<noteq> 0 \<or> sc_c2 rec \<noteq> 0) (sm_clock m) of
                     None \<Rightarrow> Inr ()
                   | Some rec \<Rightarrow>
                       Inl (SsrHighRateClockTerms number (sc_satellite_id rec) (sc_c1 rec) (sc_c2 rec)))
             else Inr ()) (\<lambda>_.
      let records = length (satellite_fields m);
          declared = unat (sh_satellite_count (sm_header m))
      in if declared > records \<and> pol = Lenient
         then Inr [SsrRecordsShort number declared records]
         else if declared \<noteq> records then Inl (SsrSatelliteCount number declared records)
         else Inr []))))))))"

fun check_flags ::
  "ssr_message \<Rightarrow> (string \<times> bool \<times> bool) list \<Rightarrow> rtcm_encode_error + unit" where
  "check_flags m [] = Inr ()"
| "check_flags m ((name, present, carried) # rest) =
     (if present \<noteq> carried
      then Inl (FieldPresence (sm_message_number m) (ssr_record m) name carried)
      else check_flags m rest)"

definition check_header_flags :: "ssr_message \<Rightarrow> rtcm_encode_error + unit" where
  "check_header_flags m =
     (let h = sm_header m; phase = (sm_kind m = SsrPhaseBias)
      in check_flags m
           [(''satellite reference datum'', sh_satellite_reference_datum h \<noteq> None,
             carries_datum (sm_kind m)),
            (''dispersive bias consistency indicator'', sh_dispersive_bias_consistency h \<noteq> None, phase),
            (''MW consistency indicator'', sh_mw_consistency h \<noteq> None, phase)])"

definition check_satellite_width :: "ssr_message \<Rightarrow> rtcm_encode_error + unit" where
  "check_satellite_width m =
     (let sat_bits = sl_satellite_bits (ssr_layout_new (sm_system m) (sm_message_number m));
          widest = 2 ^ sat_bits - 1
      in case find (\<lambda>id. unat id > widest) (satellite_fields m) of
           None \<Rightarrow> Inr ()
         | Some satellite_id \<Rightarrow>
             Inl (SsrSatelliteIdOutOfRange (sm_message_number m) satellite_id sat_bits))"

definition ssr_check :: "rtcm_policy \<Rightarrow> ssr_message \<Rightarrow> rtcm_encode_error + rtcm_departure list" where
  "ssr_check pol m =
     ebind (ssr_check_identity m) (\<lambda>_.
     ebind (check_lists pol m) (\<lambda>departures.
     ebind (check_header_flags m) (\<lambda>_.
     ebind (check_satellite_width m) (\<lambda>_.
     Inr departures))))"

definition ssr_write_header :: "ssr_layout \<Rightarrow> ssr_header \<Rightarrow> ssr_kind \<Rightarrow> wr list" where
  "ssr_write_header layout header kind =
     [w_u ''epoch time'' (sh_epoch_time_s header) (sl_epoch_bits layout),
      w_u ''update interval'' (sh_update_interval header) 4,
      w_flag (sh_multiple_message header)] @
     (if \<not> sl_igs layout then w_opt w_flag (sh_satellite_reference_datum header) else []) @
     [w_u ''IOD SSR'' (sh_iod_ssr header) 4,
      w_u ''provider ID'' (sh_provider_id header) 16,
      w_u ''solution ID'' (sh_solution_id header) 4] @
     (if sl_igs layout then w_opt w_flag (sh_satellite_reference_datum header) else []) @
     (if kind = SsrPhaseBias
      then [w_flag (sh_dispersive_bias_consistency header = Some True),
            w_flag (sh_mw_consistency header = Some True)]
      else []) @
     [w_u ''satellite count'' (sh_satellite_count header) SATELLITE_COUNT_BITS]"

definition ssr_field :: "u8 \<Rightarrow> string \<Rightarrow> string" where
  "ssr_field satellite_id what = ''satellite '' @ dec_u satellite_id @ what"

definition write_iod_crc :: "ssr_layout \<Rightarrow> rtcm_record_kind \<Rightarrow> ssr_orbit_record \<Rightarrow> wr" where
  "write_iod_crc layout record rec w =
     (let sat = so_satellite_id rec
      in case (sl_iod_crc layout, so_iod_crc rec) of
           (True, Some crc) \<Rightarrow> w_u (ssr_field sat '' IOD CRC'') crc 24 w
         | (False, None) \<Rightarrow> Inr w
         | (True, None) \<Rightarrow>
             Inl (SatelliteFieldPresence (fw_message_number w) record sat ''IOD CRC'' True)
         | (False, Some _) \<Rightarrow>
             Inl (SatelliteFieldPresence (fw_message_number w) record sat ''IOD CRC'' False))"

definition write_orbit_record :: "ssr_layout \<Rightarrow> rtcm_record_kind \<Rightarrow> ssr_orbit_record \<Rightarrow> wr list" where
  "write_orbit_record layout record rec =
     (let sat = so_satellite_id rec in
     [w_u ''satellite id'' sat (sl_satellite_bits layout),
      w_u (ssr_field sat '' IODE'') (so_iode rec) (sl_iode_bits layout),
      write_iod_crc layout record rec,
      fw_i (ssr_field sat '' radial delta'') (so_delta_radial rec) 22,
      fw_i (ssr_field sat '' along-track delta'') (so_delta_along rec) 20,
      fw_i (ssr_field sat '' cross-track delta'') (so_delta_cross rec) 20,
      fw_i (ssr_field sat '' radial delta rate'') (so_dot_delta_radial rec) 21,
      fw_i (ssr_field sat '' along-track delta rate'') (so_dot_delta_along rec) 19,
      fw_i (ssr_field sat '' cross-track delta rate'') (so_dot_delta_cross rec) 19])"

definition write_clock_terms :: "ssr_clock_record \<Rightarrow> wr list" where
  "write_clock_terms rec =
     (let sat = sc_satellite_id rec in
     [fw_i (ssr_field sat '' clock C0'') (sc_c0 rec) 22,
      fw_i (ssr_field sat '' clock C1'') (sc_c1 rec) 21,
      fw_i (ssr_field sat '' clock C2'') (sc_c2 rec) 27])"

definition write_clock_record :: "nat \<Rightarrow> ssr_clock_record \<Rightarrow> wr list" where
  "write_clock_record sat_bits rec =
     w_u ''satellite id'' (sc_satellite_id rec) sat_bits # write_clock_terms rec"

definition write_ura :: "nat \<Rightarrow> u8 \<times> u8 \<Rightarrow> wr list" where
  "write_ura sat_bits rec =
     (case rec of (satellite_id, index) \<Rightarrow>
       [w_u ''satellite id'' satellite_id sat_bits,
        w_u (ssr_field satellite_id '' URA'') index 6])"

definition write_high_rate_clock :: "nat \<Rightarrow> ssr_clock_record \<Rightarrow> wr list" where
  "write_high_rate_clock sat_bits rec =
     [w_u ''satellite id'' (sc_satellite_id rec) sat_bits,
      fw_i (ssr_field (sc_satellite_id rec) '' high-rate clock'') (sc_c0 rec) 22]"

definition ssr_signal_field :: "u8 \<Rightarrow> u8 \<Rightarrow> string \<Rightarrow> string" where
  "ssr_signal_field satellite_id signal what =
     ''satellite '' @ dec_u satellite_id @ '' signal '' @ dec_u signal @ what"

definition write_code_bias :: "u8 \<Rightarrow> u8 \<times> int \<Rightarrow> wr list" where
  "write_code_bias sat b =
     (case b of (signal_id, bias) \<Rightarrow>
       [w_u (ssr_field sat '' code-bias signal ID'') signal_id 5,
        fw_i (ssr_signal_field sat signal_id '' code bias'') bias 14])"

definition write_code_bias_record :: "nat \<Rightarrow> ssr_code_bias_record \<Rightarrow> wr list" where
  "write_code_bias_record sat_bits rec =
     (let sat = cb_satellite_id rec in
     [w_u ''satellite id'' sat sat_bits,
      w_len (ssr_field sat '' code-bias count'') (length (cb_biases rec)) 5] @
     concat (map (write_code_bias sat) (cb_biases rec)))"

definition write_phase_bias :: "u8 \<Rightarrow> ssr_phase_bias_signal \<Rightarrow> wr list" where
  "write_phase_bias sat b =
     (let signal = ps_signal_id b in
     [w_u (ssr_field sat '' phase-bias signal ID'') signal 5,
      w_u (ssr_signal_field sat signal '' integer indicator'') (ps_integer_indicator b) 1,
      w_u (ssr_signal_field sat signal '' wide-lane integer indicator'')
        (ps_wide_lane_integer_indicator b) 2,
      w_u (ssr_signal_field sat signal '' discontinuity counter'') (ps_discontinuity_counter b) 4,
      fw_i (ssr_signal_field sat signal '' phase bias'') (ps_bias b) 20])"

definition write_phase_bias_record :: "nat \<Rightarrow> ssr_phase_bias_record \<Rightarrow> wr list" where
  "write_phase_bias_record sat_bits rec =
     (let sat = pb_satellite_id rec in
     [w_u ''satellite id'' sat sat_bits,
      w_len (ssr_field sat '' phase-bias count'') (length (pb_biases rec)) 5,
      w_u (ssr_field sat '' yaw angle'') (pb_yaw_angle rec) 9,
      fw_i (ssr_field sat '' yaw rate'') (pb_yaw_rate rec) 8] @
     concat (map (write_phase_bias sat) (pb_biases rec)))"

definition ssr_head_fields :: "ssr_message \<Rightarrow> wr list" where
  "ssr_head_fields m =
     w_u ''message number'' (sm_message_number m) 12 #
     (case (sm_igs_ssr_version m, igs_ssr_subtype m) of
        (Some version, Some subtype) \<Rightarrow>
          [w_u ''IGS SSR version'' version 3, w_u ''IGS SSR message number'' subtype 8]
      | _ \<Rightarrow> []) @
     ssr_write_header (ssr_layout_new (sm_system m) (sm_message_number m)) (sm_header m) (sm_kind m)"

definition ssr_record_fields :: "ssr_message \<Rightarrow> wr list" where
  "ssr_record_fields m =
     (let layout = ssr_layout_new (sm_system m) (sm_message_number m);
          sat_bits = sl_satellite_bits layout
      in case sm_kind m of
           SsrOrbit \<Rightarrow> concat (map (write_orbit_record layout (ssr_record m)) (sm_orbit m))
         | SsrClock \<Rightarrow> concat (map (write_clock_record sat_bits) (sm_clock m))
         | SsrCombinedOrbitClock \<Rightarrow>
             concat (map (\<lambda>(orbit, clock).
               write_orbit_record layout (ssr_record m) orbit @ write_clock_terms clock)
               (zip (sm_orbit m) (sm_clock m)))
         | SsrUra \<Rightarrow> concat (map (write_ura sat_bits) (sm_ura m))
         | SsrHighRateClock \<Rightarrow> concat (map (write_high_rate_clock sat_bits) (sm_clock m))
         | SsrCodeBias \<Rightarrow> concat (map (write_code_bias_record sat_bits) (sm_code_bias m))
         | SsrPhaseBias \<Rightarrow> concat (map (write_phase_bias_record sat_bits) (sm_phase_bias m)))"

definition ssr_close ::
  "field_writer \<Rightarrow> bool list \<Rightarrow> rtcm_departure list \<Rightarrow> rtcm_policy
     \<Rightarrow> rtcm_encode_error + u8 list \<times> rtcm_departure list" where
  "ssr_close w padding_bits before pol =
     (let pad = (8 - (fw_bit_len w + length padding_bits) mod 8) mod 8;
          tail = padding_bits @ replicate pad False;
          departure = TrailingBits (fw_message_number w) tail
      in ebind (if before = [] \<and> is_departing_tail tail
                then (case pol of
                        Strict \<Rightarrow> Inl (StrictDeparture departure)
                      | Lenient \<Rightarrow> Inr [departure])
                else Inr before) (\<lambda>reported.
         Inr (fw_into_bytes (fw_flags padding_bits w), reported)))"

definition ssr_encode_with_policy ::
  "rtcm_policy \<Rightarrow> ssr_message \<Rightarrow> rtcm_encode_error + u8 list \<times> rtcm_departure list" where
  "ssr_encode_with_policy pol m =
     ebind (ssr_check pol m) (\<lambda>departures.
     ebind (w_all (ssr_head_fields m @ ssr_record_fields m) (fw_new (sm_message_number m))) (\<lambda>w.
     ssr_close w (sm_padding_bits m) departures pol))"

end
