(* ===== verification/Rtcm_Ssr_Codec.thy ===== *)
theory Rtcm_Ssr_Codec
  imports Rtcm_Ssr
begin

text \<open>
  The round trips of the SSR messages: each kind of record reads back what its
  writer wrote, the head of a message determines the layout its records are read
  in, and the encoder's checks are exactly what a decoded message satisfies.  The
  bits after the last record are always kept, so both directions are proved here
  rather than through \<open>body_codec\<close>.
\<close>

section \<open>Records\<close>

lemma ssr_layout_bounds [simp]:
  "sl_epoch_bits (ssr_layout_new sys n) \<le> 32" "sl_satellite_bits (ssr_layout_new sys n) \<le> 8"
  "sl_iode_bits (ssr_layout_new sys n) \<le> 32"
  by (simp_all add: ssr_layout_new_def epoch_time_bits_def satellite_id_bits_def iode_bits_def)

lemma sync_iod_crc [sync_intros]:
  assumes "sync (k (so_iod_crc rec)) as y"
  shows "sync (rbind (rd_opt (sl_iod_crc layout) (rd_as 24)) k) (write_iod_crc layout record rec # as) y"
proof (cases "sl_iod_crc layout"; cases "so_iod_crc rec")
  assume "sl_iod_crc layout" "so_iod_crc rec = None"
  then show ?thesis by (simp add: sync_def write_iod_crc_def)
next
  assume "\<not> sl_iod_crc layout" "so_iod_crc rec = None"
  then show ?thesis using assms by (simp add: sync_def write_iod_crc_def rbind_opt)
next
  fix c assume "\<not> sl_iod_crc layout" "so_iod_crc rec = Some c"
  then show ?thesis by (simp add: sync_def write_iod_crc_def)
next
  fix c assume c: "sl_iod_crc layout" "so_iod_crc rec = Some c"
  have "write_iod_crc layout record rec = w_u (ssr_field (so_satellite_id rec) '' IOD CRC'') c 24"
    using c by (intro ext) (simp add: write_iod_crc_def)
  with c assms show ?thesis by (simp add: rbind_opt sync_as)
qed

lemma orbit_sync:
  assumes "sl_satellite_bits layout \<le> 8" and "sl_iode_bits layout \<le> 32"
  shows "sync (read_orbit_record layout) (write_orbit_record layout record rec) rec"
  unfolding read_orbit_record_def write_orbit_record_def Let_def
  using assms by (intro sync_intros) simp_all

lemma orbit_consumed:
  assumes "sl_satellite_bits layout \<le> 8" and "sl_iode_bits layout \<le> 32"
  shows "deco (read_orbit_record layout) (\<lambda>rec bs. fits_u (sl_satellite_bits layout) (so_satellite_id rec)
     \<and> (\<forall>record. writes (write_orbit_record layout record rec) bs))"
  unfolding read_orbit_record_def rbind_opt
  using assms by (intro deco_intros) (simp_all add: write_orbit_record_def write_iod_crc_def w_exec)

lemma clock_terms_sync:
  "sat = sc_satellite_id rec \<Longrightarrow> sync (read_clock_terms sat) (write_clock_terms rec) rec"
  unfolding read_clock_terms_def write_clock_terms_def Let_def
  by (intro sync_intros) simp_all

lemma clock_terms_consumed:
  "deco (read_clock_terms sat) (\<lambda>rec bs. sc_satellite_id rec = sat \<and> writes (write_clock_terms rec) bs)"
  unfolding read_clock_terms_def
  by (intro deco_intros) (simp_all add: write_clock_terms_def w_exec)

lemma clock_sync: "n \<le> 8 \<Longrightarrow> sync (read_clock_record n) (write_clock_record n rec) rec"
  unfolding read_clock_record_def write_clock_record_def
  by (intro sync_as clock_terms_sync) simp_all

lemma clock_consumed:
  assumes "n \<le> 8"
  shows "deco (read_clock_record n) (\<lambda>rec bs. fits_u n (sc_satellite_id rec)
     \<and> writes (write_clock_record n rec) bs)"
  unfolding read_clock_record_def
proof (rule deco_as)
  fix sat :: u8 assume "fits_u n sat"
  then show "deco (read_clock_terms sat) (\<lambda>rec cs. fits_u n (sc_satellite_id rec)
      \<and> writes (write_clock_record n rec) (to_bits n (ucast sat) @ cs))"
    using assms by (intro deco_mono [OF clock_terms_consumed]) (auto simp: write_clock_record_def intro: writes_u)
qed (use assms in simp_all)

lemma combined_sync:
  assumes "sl_satellite_bits layout \<le> 8" and "sl_iode_bits layout \<le> 32"
    and "so_satellite_id orbit = sc_satellite_id clock"
  shows "sync (read_combined layout) (write_orbit_record layout record orbit @ write_clock_terms clock)
     (orbit, clock)"
  unfolding read_combined_def
  by (rule sync_bind [OF orbit_sync [OF assms(1,2)]],
    rule sync_bind_end [OF clock_terms_sync [OF assms(3)]]) (simp add: sync_return)

lemma combined_consumed:
  assumes "sl_satellite_bits layout \<le> 8" and "sl_iode_bits layout \<le> 32"
  shows "deco (read_combined layout) (\<lambda>(orbit, clock) bs. fits_u (sl_satellite_bits layout) (so_satellite_id orbit)
     \<and> sc_satellite_id clock = so_satellite_id orbit
     \<and> (\<forall>record. writes (write_orbit_record layout record orbit @ write_clock_terms clock) bs))"
  unfolding read_combined_def
  by (rule deco_bind [OF orbit_consumed [OF assms]], rule deco_bind [OF clock_terms_consumed],
    rule deco_return) (auto intro: writes_append)

lemma ura_sync: "n \<le> 8 \<Longrightarrow> sync (read_ura n) (write_ura n rec) rec"
  unfolding read_ura_def write_ura_def by (cases rec) (auto intro!: sync_intros)

lemma ura_consumed:
  "n \<le> 8 \<Longrightarrow> deco (read_ura n) (\<lambda>rec bs. fits_u n (fst rec) \<and> writes (write_ura n rec) bs)"
  unfolding read_ura_def by (intro deco_intros) (simp_all add: write_ura_def w_exec)

lemma high_rate_sync:
  "n \<le> 8 \<Longrightarrow> sc_c1 rec = 0 \<Longrightarrow> sc_c2 rec = 0 \<Longrightarrow>
     sync (read_high_rate_clock n) (write_high_rate_clock n rec) rec"
  unfolding read_high_rate_clock_def write_high_rate_clock_def
  by (intro sync_intros) simp_all

lemma high_rate_consumed:
  "n \<le> 8 \<Longrightarrow> deco (read_high_rate_clock n) (\<lambda>rec bs. (fits_u n (sc_satellite_id rec)
     \<and> sc_c1 rec = 0 \<and> sc_c2 rec = 0) \<and> writes (write_high_rate_clock n rec) bs)"
  unfolding read_high_rate_clock_def
  by (intro deco_intros) (simp_all add: write_high_rate_clock_def w_exec)

lemma code_bias_sync: "n \<le> 8 \<Longrightarrow> sync (read_code_bias_record n) (write_code_bias_record n rec) rec"
proof -
  have one: "sync read_code_bias (write_code_bias sat b) b" for sat b
    unfolding read_code_bias_def write_code_bias_def by (cases b) (auto intro!: sync_intros)
  show ?thesis if "n \<le> 8"
    unfolding read_code_bias_record_def write_code_bias_record_def Let_def append_Cons append_Nil
    using that by (intro sync_intros sync_bind_vec_end one) simp_all
qed

lemma code_bias_consumed:
  assumes "n \<le> 8"
  shows "deco (read_code_bias_record n) (\<lambda>rec bs. fits_u n (cb_satellite_id rec)
     \<and> writes (write_code_bias_record n rec) bs)"
proof -
  have one: "deco read_code_bias (\<lambda>b bs. True \<and> writes (write_code_bias sat b) bs)" for sat
    unfolding read_code_bias_def by (intro deco_intros) (simp_all add: write_code_bias_def w_exec)
  show ?thesis
    unfolding read_code_bias_record_def
    apply (rule deco_as, use assms in simp, simp)
    subgoal for sat
      apply (rule deco_usize, simp)
      apply (rule deco_bind_vec [OF one [of sat]], rule deco_return)
      using assms by (auto simp: write_code_bias_record_def intro!: writes_u writes_len)
    done
qed

lemma phase_bias_sync: "n \<le> 8 \<Longrightarrow> sync (read_phase_bias_record n) (write_phase_bias_record n rec) rec"
proof -
  have one: "sync read_phase_bias (write_phase_bias sat b) b" for sat b
    unfolding read_phase_bias_def write_phase_bias_def Let_def by (intro sync_intros) simp_all
  show ?thesis if "n \<le> 8"
    unfolding read_phase_bias_record_def write_phase_bias_record_def Let_def append_Cons append_Nil
    using that by (intro sync_intros sync_bind_vec_end one) simp_all
qed

lemma phase_bias_consumed:
  assumes "n \<le> 8"
  shows "deco (read_phase_bias_record n) (\<lambda>rec bs. fits_u n (pb_satellite_id rec)
     \<and> writes (write_phase_bias_record n rec) bs)"
proof -
  have one: "deco read_phase_bias (\<lambda>b bs. True \<and> writes (write_phase_bias sat b) bs)" for sat
    unfolding read_phase_bias_def by (intro deco_intros) (simp_all add: write_phase_bias_def w_exec)
  show ?thesis
    unfolding read_phase_bias_record_def
    apply (rule deco_as, use assms in simp, simp)
    subgoal for sat
      apply (rule deco_usize, simp, rule deco_as, simp, simp, rule deco_i8, simp, simp)
      apply (rule deco_bind_vec [OF one [of sat]], rule deco_return)
      using assms by (auto simp: write_phase_bias_record_def intro!: writes_u writes_len writes_i)
    done
qed

section \<open>Lists of records\<close>

lemma w_records_concat: "w_records (\<lambda>_. f) i xs = concat (map f xs)"
  by (induction xs arbitrary: i) simp_all

lemma records_sync:
  assumes "\<And>x. x \<in> set xs \<Longrightarrow> sync rd (f x) x" and "count = length xs"
  shows "sync (read_records ctx number count rd) (concat (map f xs)) (xs, ctx)"
  using sync_counted_loop [of xs rd "\<lambda>_. f" is_out_of_input _ ctx "[]" 0] assms
  by (simp add: read_records_def w_records_concat)

lemma records_consumed:
  assumes "deco rd (\<lambda>x bs. P x \<and> writes (f x) bs)"
  shows "deco (read_records ctx number count rd) (\<lambda>(xs, ctx') bs. (\<forall>x\<in>set xs. P x)
     \<and> writes (concat (map f xs)) bs
     \<and> counted_end (SsrRecordsShort number count) ctx 0 (length xs) count ctx')"
proof -
  from assms have "deco rd (\<lambda>x bs. P x \<and> (\<forall>i :: nat. writes (f x) bs))" by simp
  from deco_counted_loop [OF this, of is_out_of_input _ count ctx "[]"] show ?thesis
    unfolding read_records_def by (simp add: w_records_concat)
qed

section \<open>The head of a message\<close>

lemma igs_kind_of_subtype: "igs_ssr_subtype_of sys kind = Some st \<Longrightarrow> igs_ssr_kind st = Some (sys, kind)"
  by (cases sys; cases kind)
    (auto simp: igs_ssr_subtype_of_def igs_ssr_kind_def IGS_SSR_SYSTEMS_def IGS_SSR_KINDS_def)

lemma igs_subtype_of_kind:
  assumes "igs_ssr_kind st = Some (sys, kind)"
  shows "igs_ssr_subtype_of sys kind = Some st"
proof -
  have "st = offset + (st - offset)" for offset by simp
  with assms show ?thesis
    by (auto simp: igs_ssr_subtype_of_def igs_ssr_kind_def IGS_SSR_SYSTEMS_def IGS_SSR_KINDS_def
        Let_def split: if_splits option.splits)
qed

definition flags_ok :: "ssr_kind \<Rightarrow> ssr_header \<Rightarrow> bool" where
  "flags_ok kind h \<longleftrightarrow> (sh_satellite_reference_datum h \<noteq> None) = carries_datum kind
     \<and> (sh_dispersive_bias_consistency h \<noteq> None) = (kind = SsrPhaseBias)
     \<and> (sh_mw_consistency h \<noteq> None) = (kind = SsrPhaseBias)"

lemma check_header_flags_ok: "check_header_flags m = Inr () \<longleftrightarrow> flags_ok (sm_kind m) (sm_header m)"
  by (auto simp: check_header_flags_def flags_ok_def Let_def)

lemma ssr_header_sync:
  assumes "flags_ok kind h" and "sl_epoch_bits layout \<le> 32"
  shows "sync (ssr_read_header layout kind) (ssr_write_header layout h kind) h"
  using assms unfolding ssr_read_header_def ssr_write_header_def flags_ok_def rbind_opt SATELLITE_COUNT_BITS_def
  by (cases h) (auto simp: carries_datum_def intro!: sync_intros split: if_splits)

lemma ssr_header_consumed:
  assumes "sl_epoch_bits layout \<le> 32"
  shows "deco (ssr_read_header layout kind) (\<lambda>h bs. flags_ok kind h
     \<and> writes (ssr_write_header layout h kind) bs)"
  unfolding ssr_read_header_def rbind_opt SATELLITE_COUNT_BITS_def
  using assms
  by (intro deco_intros) (auto simp: flags_ok_def ssr_write_header_def SATELLITE_COUNT_BITS_def w_exec carries_datum_def)

text \<open>A message without its records and padding.\<close>

definition ssr_head :: "ssr_message \<Rightarrow> ssr_message" where
  "ssr_head m = m\<lparr>sm_orbit := [], sm_clock := [], sm_code_bias := [], sm_phase_bias := [],
      sm_ura := [], sm_padding_bits := []\<rparr>"

lemma ssr_head_simps [simp]:
  "sm_message_number (ssr_head m) = sm_message_number m"
  "sm_igs_ssr_version (ssr_head m) = sm_igs_ssr_version m"
  "sm_system (ssr_head m) = sm_system m" "sm_kind (ssr_head m) = sm_kind m"
  "sm_header (ssr_head m) = sm_header m" "ssr_head (ssr_head m) = ssr_head m"
  by (simp_all add: ssr_head_def)

lemma ssr_head_sync:
  assumes "ssr_check_identity m = Inr ()" and "flags_ok (sm_kind m) (sm_header m)"
  shows "sync ssr_read_head (ssr_head_fields m) (ssr_head m)"
proof -
  let ?L = "ssr_layout_new (sm_system m) (sm_message_number m)"
  have hd: "sync (rbind (ssr_read_header ?L (sm_kind m)) (\<lambda>header.
     rreturn \<lparr>sm_message_number = sm_message_number m, sm_igs_ssr_version = sm_igs_ssr_version m,
              sm_system = sm_system m, sm_kind = sm_kind m, sm_header = header,
              sm_orbit = [], sm_clock = [], sm_code_bias = [], sm_phase_bias = [], sm_ura = [],
              sm_padding_bits = []\<rparr>)) (ssr_write_header ?L (sm_header m) (sm_kind m)) (ssr_head m)"
    by (rule sync_bind_end [OF ssr_header_sync [OF assms(2)]]) (simp_all add: sync_return ssr_head_def)
  show ?thesis
  proof (cases "sm_message_number m = IGS_SSR_MESSAGE_NUMBER")
    case True
    with assms(1) obtain version subtype where v: "sm_igs_ssr_version m = Some version"
      and s: "igs_ssr_subtype m = Some subtype"
      by (auto simp: ssr_check_identity_def Let_def split: if_splits)
    from s True have k: "igs_ssr_kind subtype = Some (sm_system m, sm_kind m)"
      by (auto simp: igs_ssr_subtype_def intro: igs_kind_of_subtype split: if_splits)
    show ?thesis
      unfolding ssr_read_head_def ssr_head_fields_def ssr_read_identity_def True
      apply (rule sync_as, simp, simp)
      apply (simp only: simp_thms if_True rbind_assoc v s prod.case option.case append_Cons append_Nil)
      apply (rule sync_as, simp, simp, rule sync_as, simp, simp)
      using hd by (simp add: k v True)
  next
    case False
    with assms(1) have v: "sm_igs_ssr_version m = None"
      and k: "ssr_kind_of (sm_message_number m) = Some (sm_system m, sm_kind m)"
      by (auto simp: ssr_check_identity_def Let_def split: if_splits)
    show ?thesis
      unfolding ssr_read_head_def ssr_head_fields_def ssr_read_identity_def
      apply (rule sync_as, simp, simp)
      using hd by (simp add: k v False)
  qed
qed

lemma ssr_head_consumed:
  "deco ssr_read_head (\<lambda>h bs. ssr_check_identity h = Inr () \<and> flags_ok (sm_kind h) (sm_header h)
     \<and> writes (ssr_head_fields h) bs \<and> ssr_head h = h \<and> fits_u 12 (sm_message_number h)
     \<and> (\<exists>cs. bs = to_bits 12 (ucast (sm_message_number h)) @ cs))"
  (is "deco _ ?Q")
proof -
  have hd: "deco (rbind (ssr_read_header (ssr_layout_new sys n) kind) (\<lambda>header.
     rreturn \<lparr>sm_message_number = n, sm_igs_ssr_version = v,
              sm_system = sys, sm_kind = kind, sm_header = header,
              sm_orbit = [], sm_clock = [], sm_code_bias = [], sm_phase_bias = [], sm_ura = [],
              sm_padding_bits = []\<rparr>)) (\<lambda>h cs. ?Q h (to_bits 12 (ucast n) @ bs @ cs))"
    if "fits_u 12 n" and "\<And>h cs. sm_message_number h = n \<Longrightarrow> sm_igs_ssr_version h = v \<Longrightarrow>
        sm_system h = sys \<Longrightarrow> sm_kind h = kind \<Longrightarrow>
        writes (ssr_write_header (ssr_layout_new sys n) (sm_header h) kind) cs \<Longrightarrow>
        ssr_check_identity h = Inr () \<and> writes (ssr_head_fields h) (to_bits 12 (ucast n) @ bs @ cs)"
    for n v sys kind bs
    by (rule deco_bind [OF ssr_header_consumed], simp, rule deco_return)
      (use that in \<open>auto simp: ssr_head_def\<close>)
  show ?thesis
    unfolding ssr_read_head_def
    apply (rule deco_as, simp, simp)
    subgoal for n
      unfolding ssr_read_identity_def
      apply (cases "n = IGS_SSR_MESSAGE_NUMBER")
       apply (simp only: simp_thms if_True rbind_assoc)
       apply (rule deco_as, simp, simp, rule deco_as, simp, simp)
      subgoal for version subtype
        apply (cases "igs_ssr_kind subtype")
         apply (simp add: deco_bind_fail)
        apply (clarsimp simp only: option.case prod.case rbind_return split_paired_all)
        apply (rule hd [of _ "Some version" _ _ "to_bits 3 (ucast version) @ to_bits 8 (ucast subtype)",
            unfolded append_assoc], simp)
        apply (auto simp: ssr_check_identity_def Let_def igs_ssr_subtype_def igs_subtype_of_kind
            ssr_head_fields_def intro!: writes_u)
        done
      apply (cases "ssr_kind_of n")
       apply (simp add: deco_bind_fail)
      apply (clarsimp simp only: option.case prod.case rbind_return if_False)
      apply (rule hd [of _ None _ _ "[]", unfolded append_Nil], simp)
      apply (auto simp: ssr_check_identity_def Let_def ssr_head_fields_def intro!: writes_u)
      done
    done
qed

section \<open>What the list checks say\<close>

definition lists_ok :: "ssr_message \<Rightarrow> bool" where
  "lists_ok m \<longleftrightarrow>
     (sm_orbit m \<noteq> [] \<longrightarrow> sm_kind m = SsrOrbit \<or> sm_kind m = SsrCombinedOrbitClock)
     \<and> (sm_clock m \<noteq> [] \<longrightarrow> sm_kind m = SsrClock \<or> sm_kind m = SsrCombinedOrbitClock
          \<or> sm_kind m = SsrHighRateClock)
     \<and> (sm_code_bias m \<noteq> [] \<longrightarrow> sm_kind m = SsrCodeBias)
     \<and> (sm_phase_bias m \<noteq> [] \<longrightarrow> sm_kind m = SsrPhaseBias)
     \<and> (sm_ura m \<noteq> [] \<longrightarrow> sm_kind m = SsrUra)
     \<and> (sm_kind m = SsrCombinedOrbitClock \<longrightarrow>
          map so_satellite_id (sm_orbit m) = map sc_satellite_id (sm_clock m))
     \<and> (sm_kind m = SsrHighRateClock \<longrightarrow> (\<forall>rec\<in>set (sm_clock m). sc_c1 rec = 0 \<and> sc_c2 rec = 0))"

lemma case_find_ok:
  "(case find P xs of None \<Rightarrow> Inr () | Some x \<Rightarrow> Inl (f x)) = Inr () \<longleftrightarrow> (\<forall>x\<in>set xs. \<not> P x)"
proof (cases "find P xs")
  case None
  then have "\<forall>x\<in>set xs. \<not> P x" by (auto simp: find_None_iff)
  with None show ?thesis by auto
next
  case (Some x)
  then have "x \<in> set xs \<and> P x" by (auto simp: find_Some_iff)
  with Some show ?thesis by auto
qed

lemma check_combined_ok:
  "check_combined n i ps = Inr () \<longleftrightarrow> (\<forall>(orbit, clock)\<in>set ps. so_satellite_id orbit = sc_satellite_id clock)"
  by (induction ps arbitrary: i) (auto split: if_splits)

lemma zip_ids:
  "length xs = length ys \<Longrightarrow> (\<forall>(x, y)\<in>set (zip xs ys). f x = g y) \<longleftrightarrow> map f xs = map g ys"
  by (induction xs ys rule: list_induct2) auto

lemma check_lists_ok:
  "check_lists pol m = Inr ds \<longleftrightarrow> lists_ok m \<and>
     (let records = length (satellite_fields m); declared = unat (sh_satellite_count (sm_header m))
      in if declared > records \<and> pol = Lenient
         then ds = [SsrRecordsShort (sm_message_number m) declared records]
         else declared = records \<and> ds = [])"
proof -
  have comb: "(if length (sm_orbit m) \<noteq> length (sm_clock m)
       then Inl (SsrCombinedRecordCounts (sm_message_number m) (length (sm_orbit m)) (length (sm_clock m)))
       else check_combined (sm_message_number m) 0 (zip (sm_orbit m) (sm_clock m))) = Inr () \<longleftrightarrow>
     map so_satellite_id (sm_orbit m) = map sc_satellite_id (sm_clock m)"
    using zip_ids [of "sm_orbit m" "sm_clock m" so_satellite_id sc_satellite_id]
    by (auto simp: check_combined_ok dest: map_eq_imp_length_eq)
  show ?thesis
    unfolding check_lists_def lists_ok_def Let_def ebind_eq_Inr check_written_def
    using comb
    by (auto simp: case_find_ok split: if_splits)
qed

lemma record_count_ok:
  assumes "lists_ok m"
  shows "ssr_record_count m = length (satellite_fields m)"
proof -
  have "sm_kind m = SsrCombinedOrbitClock \<Longrightarrow> length (sm_orbit m) = length (sm_clock m)"
    using assms by (auto simp: lists_ok_def dest: map_eq_imp_length_eq)
  with assms show ?thesis
    by (cases "sm_kind m") (auto simp: ssr_record_count_def satellite_fields_def lists_ok_def)
qed

lemma check_satellite_width_ok:
  "check_satellite_width m = Inr () \<longleftrightarrow>
     (\<forall>sat\<in>set (satellite_fields m).
        fits_u (sl_satellite_bits (ssr_layout_new (sm_system m) (sm_message_number m))) sat)"
proof -
  have "(unat sat \<le> 2 ^ n - Suc 0) = fits_u n sat" for sat :: u8 and n
  proof -
    have "0 < (2::nat) ^ n" by simp
    then show ?thesis unfolding fits_u_def by linarith
  qed
  then show ?thesis
    by (simp add: check_satellite_width_def Let_def case_find_ok not_less)
qed

section \<open>The records of a message\<close>

lemma ssr_lists_sync:
  assumes ok: "lists_ok m" and count: "unat (sh_satellite_count (sm_header m)) = length (satellite_fields m)"
  shows "sync (ssr_read_lists (ssr_head m) ctx) (ssr_record_fields m) (m\<lparr>sm_padding_bits := []\<rparr>, ctx)"
proof -
  let ?L = "ssr_layout_new (sm_system m) (sm_message_number m)"
  let ?n = "sl_satellite_bits ?L" and ?c = "unat (sh_satellite_count (sm_header m))"
  have fin: ?thesis
    if "ssr_read_lists (ssr_head m) ctx
        = rbind (read_records ctx (sm_message_number m) ?c rd) (\<lambda>(xs, ctx'). rreturn (f xs, ctx'))"
      and "ssr_record_fields m = concat (map w xs)" and "f xs = m\<lparr>sm_padding_bits := []\<rparr>"
      and "?c = length xs" and "\<And>x. x \<in> set xs \<Longrightarrow> sync rd (w x) x"
    for rd f w and xs :: "'x list"
    unfolding that(1,2)
    by (rule sync_bind_end [OF records_sync [OF that(5,4)]]) (simp_all add: that(3) sync_return)
  note defs = ssr_read_lists_def ssr_record_fields_def Let_def satellite_fields_def ssr_head_def
    ssr_record_def
  show ?thesis
  proof (cases "sm_kind m")
    case SsrOrbit
    with ok count show ?thesis
      by (intro fin [of "(read_orbit_record ?L)" "\<lambda>xs. (ssr_head m)\<lparr>sm_orbit := xs\<rparr>" "(write_orbit_record ?L (ssr_record m))" "sm_orbit m"])
        (simp_all add: defs lists_ok_def orbit_sync)
  next
    case SsrClock
    with ok count show ?thesis
      by (intro fin [of "(read_clock_record ?n)" "\<lambda>xs. (ssr_head m)\<lparr>sm_clock := xs\<rparr>" "(write_clock_record ?n)" "sm_clock m"])
        (simp_all add: defs lists_ok_def clock_sync)
  next
    case SsrUra
    with ok count show ?thesis
      by (intro fin [of "(read_ura ?n)" "\<lambda>xs. (ssr_head m)\<lparr>sm_ura := xs\<rparr>" "(write_ura ?n)" "sm_ura m"])
        (simp_all add: defs lists_ok_def ura_sync)
  next
    case SsrHighRateClock
    with ok count show ?thesis
      by (intro fin [of "(read_high_rate_clock ?n)" "\<lambda>xs. (ssr_head m)\<lparr>sm_clock := xs\<rparr>" "(write_high_rate_clock ?n)" "sm_clock m"])
        (simp_all add: defs lists_ok_def high_rate_sync)
  next
    case SsrCodeBias
    with ok count show ?thesis
      by (intro fin [of "(read_code_bias_record ?n)" "\<lambda>xs. (ssr_head m)\<lparr>sm_code_bias := xs\<rparr>" "(write_code_bias_record ?n)" "sm_code_bias m"])
        (simp_all add: defs lists_ok_def code_bias_sync)
  next
    case SsrPhaseBias
    with ok count show ?thesis
      by (intro fin [of "(read_phase_bias_record ?n)" "\<lambda>xs. (ssr_head m)\<lparr>sm_phase_bias := xs\<rparr>" "(write_phase_bias_record ?n)" "sm_phase_bias m"])
        (simp_all add: defs lists_ok_def phase_bias_sync)
  next
    case SsrCombinedOrbitClock
    from ok SsrCombinedOrbitClock have ids: "map so_satellite_id (sm_orbit m) = map sc_satellite_id (sm_clock m)"
      by (simp add: lists_ok_def)
    then have len: "length (sm_orbit m) = length (sm_clock m)" by (rule map_eq_imp_length_eq)
    have pair: "so_satellite_id orbit = sc_satellite_id clock"
      if "(orbit, clock) \<in> set (zip (sm_orbit m) (sm_clock m))" for orbit clock
      using zip_ids [OF len, of so_satellite_id sc_satellite_id] ids that by auto
    show ?thesis
      by (rule fin [of "read_combined ?L"
            "\<lambda>pairs. (ssr_head m)\<lparr>sm_orbit := map fst pairs, sm_clock := map snd pairs\<rparr>"
            "\<lambda>(orbit, clock). write_orbit_record ?L (ssr_record m) orbit @ write_clock_terms clock"
            "zip (sm_orbit m) (sm_clock m)"])
        (use ok count SsrCombinedOrbitClock in \<open>auto simp: defs lists_ok_def len pair combined_sync\<close>)
  qed
qed

lemma ssr_lists_consumed:
  assumes hd: "ssr_head h = h"
  shows "deco (ssr_read_lists h ctx) (\<lambda>(m, ctx') bs. ssr_head m = h \<and> lists_ok m
     \<and> check_satellite_width m = Inr () \<and> writes (ssr_record_fields m) bs
     \<and> counted_end (SsrRecordsShort (sm_message_number h) (unat (sh_satellite_count (sm_header h))))
         ctx 0 (length (satellite_fields m)) (unat (sh_satellite_count (sm_header h))) ctx')"
  (is "deco _ ?Q")
proof -
  let ?L = "ssr_layout_new (sm_system h) (sm_message_number h)"
  let ?n = "sl_satellite_bits ?L" and ?c = "unat (sh_satellite_count (sm_header h))"
  have fin: ?thesis
    if "ssr_read_lists h ctx
        = rbind (read_records ctx (sm_message_number h) ?c rd) (\<lambda>(xs, ctx'). rreturn (f xs, ctx'))"
      and "deco rd (\<lambda>x bs. P x \<and> writes (w x) bs)"
      and "\<And>xs. \<forall>x\<in>set xs. P x \<Longrightarrow> ssr_head (f xs) = h \<and> lists_ok (f xs)
             \<and> check_satellite_width (f xs) = Inr () \<and> ssr_record_fields (f xs) = concat (map w xs)
             \<and> length (satellite_fields (f xs)) = length xs"
    for rd f w and P :: "'x \<Rightarrow> bool"
    unfolding that(1)
    by (rule deco_bind [OF records_consumed [OF that(2)]])
      (auto intro!: deco_return simp: that(3))
  note defs = ssr_read_lists_def ssr_record_fields_def Let_def satellite_fields_def
    ssr_record_def lists_ok_def check_satellite_width_ok
  have e: "sm_orbit h = []" "sm_clock h = []" "sm_code_bias h = []" "sm_phase_bias h = []" "sm_ura h = []"
    "sm_padding_bits h = []"
    by (subst hd [symmetric], simp add: ssr_head_def)+
  have same: "ssr_head (h\<lparr>sm_orbit := xs\<rparr>) = h" "ssr_head (h\<lparr>sm_clock := ys\<rparr>) = h"
    "ssr_head (h\<lparr>sm_orbit := xs, sm_clock := ys\<rparr>) = h"
    "ssr_head (h\<lparr>sm_code_bias := cs\<rparr>) = h" "ssr_head (h\<lparr>sm_phase_bias := ps\<rparr>) = h"
    "ssr_head (h\<lparr>sm_ura := us\<rparr>) = h" for xs ys cs ps us
    using hd by (simp_all add: ssr_head_def)
  show ?thesis
  proof (cases "sm_kind h")
    case SsrOrbit
    show ?thesis
      by (rule fin [of "(read_orbit_record ?L)" "\<lambda>xs. h\<lparr>sm_orbit := xs\<rparr>" "\<lambda>x. fits_u ?n (so_satellite_id x)" "(write_orbit_record ?L (ssr_record h))"])
        (use SsrOrbit in \<open>auto simp: defs e same intro!: deco_mono [OF orbit_consumed]\<close>)
  next
    case SsrClock
    show ?thesis
      by (rule fin [of "(read_clock_record ?n)" "\<lambda>xs. h\<lparr>sm_clock := xs\<rparr>" "\<lambda>x. fits_u ?n (sc_satellite_id x)" "(write_clock_record ?n)"])
        (use SsrClock in \<open>auto simp: defs e same intro!: deco_mono [OF clock_consumed]\<close>)
  next
    case SsrUra
    show ?thesis
      by (rule fin [of "(read_ura ?n)" "\<lambda>xs. h\<lparr>sm_ura := xs\<rparr>" "\<lambda>x. fits_u ?n (fst x)" "(write_ura ?n)"])
        (use SsrUra in \<open>auto simp: defs e same intro!: deco_mono [OF ura_consumed]\<close>)
  next
    case SsrHighRateClock
    show ?thesis
      by (rule fin [of "(read_high_rate_clock ?n)" "\<lambda>xs. h\<lparr>sm_clock := xs\<rparr>" "\<lambda>x. fits_u ?n (sc_satellite_id x) \<and> sc_c1 x = 0 \<and> sc_c2 x = 0" "(write_high_rate_clock ?n)"])
        (use SsrHighRateClock in \<open>auto simp: defs e same intro!: deco_mono [OF high_rate_consumed]\<close>)
  next
    case SsrCodeBias
    show ?thesis
      by (rule fin [of "(read_code_bias_record ?n)" "\<lambda>xs. h\<lparr>sm_code_bias := xs\<rparr>" "\<lambda>x. fits_u ?n (cb_satellite_id x)" "(write_code_bias_record ?n)"])
        (use SsrCodeBias in \<open>auto simp: defs e same intro!: deco_mono [OF code_bias_consumed]\<close>)
  next
    case SsrPhaseBias
    show ?thesis
      by (rule fin [of "(read_phase_bias_record ?n)" "\<lambda>xs. h\<lparr>sm_phase_bias := xs\<rparr>" "\<lambda>x. fits_u ?n (pb_satellite_id x)" "(write_phase_bias_record ?n)"])
        (use SsrPhaseBias in \<open>auto simp: defs e same intro!: deco_mono [OF phase_bias_consumed]\<close>)
  next
    case SsrCombinedOrbitClock
    have "deco (read_combined ?L) (\<lambda>x bs. (fits_u ?n (so_satellite_id (fst x))
        \<and> so_satellite_id (fst x) = sc_satellite_id (snd x))
        \<and> writes (case x of (orbit, clock) \<Rightarrow> write_orbit_record ?L (ssr_record h) orbit @ write_clock_terms clock) bs)"
      by (rule deco_mono [OF combined_consumed]) auto
    then show ?thesis
      by (rule fin [rotated, where f = "\<lambda>pairs. h\<lparr>sm_orbit := map fst pairs, sm_clock := map snd pairs\<rparr>"])
        (use SsrCombinedOrbitClock in \<open>auto simp: defs e same zip_map_fst_snd\<close>)
  qed
qed

section \<open>Both directions\<close>

lemma ssr_head_irrelevant:
  "ssr_check_identity (ssr_head m) = ssr_check_identity m"
  "ssr_head_fields (ssr_head m) = ssr_head_fields m"
proof -
  have "igs_ssr_subtype (ssr_head m) = igs_ssr_subtype m" "ssr_record (ssr_head m) = ssr_record m"
    by (simp_all add: igs_ssr_subtype_def ssr_record_def)
  then show "ssr_check_identity (ssr_head m) = ssr_check_identity m"
    "ssr_head_fields (ssr_head m) = ssr_head_fields m"
    unfolding ssr_check_identity_def ssr_head_fields_def Let_def ssr_head_simps by (simp_all only:)
qed

lemma ssr_padding_irrelevant:
  "ssr_head (m\<lparr>sm_padding_bits := p\<rparr>) = ssr_head m"
  "lists_ok (m\<lparr>sm_padding_bits := p\<rparr>) = lists_ok m"
  "satellite_fields (m\<lparr>sm_padding_bits := p\<rparr>) = satellite_fields m"
  "check_satellite_width (m\<lparr>sm_padding_bits := p\<rparr>) = check_satellite_width m"
  "ssr_record_fields (m\<lparr>sm_padding_bits := p\<rparr>) = ssr_record_fields m"
proof -
  show sf: "satellite_fields (m\<lparr>sm_padding_bits := p\<rparr>) = satellite_fields m"
    by (simp add: satellite_fields_def split: ssr_kind.split)
  show "check_satellite_width (m\<lparr>sm_padding_bits := p\<rparr>) = check_satellite_width m"
    by (simp add: check_satellite_width_def sf Let_def split: option.split)
qed (simp_all add: ssr_head_def lists_ok_def ssr_record_fields_def ssr_record_def Let_def
    split: ssr_kind.split)

lemma ssr_check_ok:
  "ssr_check pol m = Inr ds \<longleftrightarrow> ssr_check_identity (ssr_head m) = Inr () \<and> check_lists pol m = Inr ds
     \<and> flags_ok (sm_kind m) (sm_header m) \<and> check_satellite_width m = Inr ()"
  by (auto simp: ssr_check_def check_header_flags_ok ssr_head_irrelevant)

lemma ssr_close_put:
  "ssr_close (fw_put bs (fw_new n)) padding before pol =
     (let tail = padding @ replicate (pad_len (length bs + length padding)) False
      in if before = [] \<and> is_departing_tail tail
         then (case pol of Strict \<Rightarrow> Inl (StrictDeparture (TrailingBits n tail))
               | Lenient \<Rightarrow> Inr (pack (bs @ padding), [TrailingBits n tail]))
         else Inr (pack (bs @ padding), before))"
  by (simp add: ssr_close_def Let_def fw_flags_put pad_len_def split: rtcm_policy.split)

text \<open>The bits after the records, aligned to a byte after \<open>n\<close> bits of fields.\<close>

definition padded :: "nat \<Rightarrow> bool list \<Rightarrow> bool list" where
  "padded n bits = bits @ replicate (pad_len (n + length bits)) False"

lemma ssr_encode_decode:
  assumes "ssr_decode_inner body (ctx_new pol) = Inr (m, ctx')"
  shows "ssr_encode_with_policy pol m = Inr (body, departures ctx')" and "policy ctx' = pol"
    and "message_number_classified body = Inr (sm_message_number m)"
proof -
  let ?ctx = "ctx_new pol"
  from assms obtain h r m0 ctx1 r1 where
    h: "ssr_read_head (br_new body) = Inr (h, r)" and l: "ssr_read_lists h ?ctx r = Inr ((m0, ctx1), r1)"
    and m: "m = m0\<lparr>sm_padding_bits := rest_bits r1\<rparr>"
    and d: "(if ssr_record_count m0 = unat (sh_satellite_count (sm_header h)) \<and> is_departing_tail (rest_bits r1)
       then depart (TrailingBits (sm_message_number h) (rest_bits r1)) ctx1 else Inr ctx1) = Inr ctx'"
    by (auto simp: ssr_decode_inner_def Let_def br_rest_eq)
  from decoD [OF ssr_head_consumed h] obtain b1 where
    b1: "bits_of_bytes body = b1 @ rest_bits r" "ssr_check_identity h = Inr ()"
      "flags_ok (sm_kind h) (sm_header h)" "writes (ssr_head_fields h) b1" "ssr_head h = h"
      "fits_u 12 (sm_message_number h)" "\<exists>cs. b1 = to_bits 12 (ucast (sm_message_number h)) @ cs"
    by (simp only: rest_bits_new) blast
  let ?n = "sm_message_number h" and ?c = "unat (sh_satellite_count (sm_header h))"
  from decoD [OF ssr_lists_consumed [OF b1(5)] l] obtain b2 where
    b2: "rest_bits r = b2 @ rest_bits r1" "ssr_head m0 = h" "lists_ok m0"
      "check_satellite_width m0 = Inr ()" "writes (ssr_record_fields m0) b2"
      "counted_end (SsrRecordsShort ?n ?c) ?ctx 0 (length (satellite_fields m0)) ?c ctx1"
    by (simp only: prod.case) blast
  have hd: "ssr_head m = h" by (simp add: m ssr_padding_irrelevant b2(2))
  have sel: "sm_message_number m = ?n" "sm_kind m = sm_kind h" "sm_header m = sm_header h"
    unfolding hd [symmetric] by simp_all
  have body: "bits_of_bytes body = (b1 @ b2) @ rest_bits r1" using b1(1) b2(1) by simp
  have w: "w_all (ssr_head_fields m @ ssr_record_fields m) (fw_new (sm_message_number m))
      = Inr (fw_put (b1 @ b2) (fw_new ?n))"
  proof -
    have "ssr_head_fields m = ssr_head_fields h" using ssr_head_irrelevant(2) [of m] by (simp add: hd)
    moreover have "ssr_record_fields m = ssr_record_fields m0" by (simp add: m ssr_padding_irrelevant)
    ultimately show ?thesis using writes_append [OF b1(4) b2(5)] by (simp add: writes_def sel)
  qed
  have al: "pad_len (length (b1 @ b2) + length (rest_bits r1)) = 0"
    using whole_length [OF body] by (simp add: add.assoc)
  have ck: "ssr_check pol m = Inr ds" if "check_lists pol m = Inr ds" for ds
    unfolding ssr_check_ok hd sel using b1(2,3) b2(4) that by (simp add: m ssr_padding_irrelevant)
  have cl: "check_lists pol m = Inr (departures ctx1)" and pol1: "policy ctx1 = pol"
    using b2(3,6) unfolding check_lists_ok sel
    by (auto simp: m ssr_padding_irrelevant counted_end_def ctx_new_def split: if_splits)
  have cnt: "ssr_record_count m0 = ?c \<longleftrightarrow> departures ctx1 = []"
    using b2(6) unfolding record_count_ok [OF b2(3)] by (auto simp: counted_end_def split: if_splits)
  have "ssr_close (fw_put (b1 @ b2) (fw_new ?n)) (sm_padding_bits m) (departures ctx1) pol
      = Inr (body, departures ctx') \<and> policy ctx' = pol"
    using d pol1 pack_whole [OF body] al unfolding ssr_close_put cnt m
    by (auto simp: depart_Inr split: if_splits rtcm_policy.splits)
  with ck [OF cl] w show "ssr_encode_with_policy pol m = Inr (body, departures ctx')" and "policy ctx' = pol"
    by (simp_all add: ssr_encode_with_policy_def)
  show "message_number_classified body = Inr (sm_message_number m)"
    using b1(1,6,7) by (auto simp: sel intro: message_number_of_bits)
qed

lemma ssr_strict_encode:
  assumes "ssr_encode_with_policy Strict m = Inr (body, ds)"
  shows "ds = [] \<and> ssr_encode_with_policy Lenient m = Inr (body, [])
    \<and> length (satellite_fields m) = unat (sh_satellite_count (sm_header m))"
proof -
  from assms obtain before w where ck: "ssr_check Strict m = Inr before"
    and w: "w_all (ssr_head_fields m @ ssr_record_fields m) (fw_new (sm_message_number m)) = Inr w"
    and cl: "ssr_close w (sm_padding_bits m) before Strict = Inr (body, ds)"
    by (auto simp: ssr_encode_with_policy_def)
  have c: "before = []" "ssr_check Lenient m = Inr []"
    "length (satellite_fields m) = unat (sh_satellite_count (sm_header m))"
    using ck unfolding ssr_check_ok check_lists_ok by auto
  moreover have "ds = []" "ssr_close w (sm_padding_bits m) [] Lenient = Inr (body, [])"
    using cl c(1) by (auto simp: ssr_close_def Let_def split: if_splits)
  ultimately show ?thesis using w by (simp add: ssr_encode_with_policy_def)
qed

text \<open>The kept bits are read back aligned after the bits \<open>bs\<close> the fields take.\<close>

lemma ssr_decode_encode:
  assumes enc: "ssr_encode_with_policy pol m = Inr (body, ds)"
    and cnt: "length (satellite_fields m) = unat (sh_satellite_count (sm_header m))"
  shows "\<exists>bs. w_all (ssr_head_fields m @ ssr_record_fields m) (fw_new (sm_message_number m))
       = Inr (fw_put bs (fw_new (sm_message_number m)))
     \<and> ssr_decode_inner body (ctx_new pol)
     = Inr (m\<lparr>sm_padding_bits := padded (length bs) (sm_padding_bits m)\<rparr>, \<lparr>policy = pol, departures = ds\<rparr>)"
proof -
  let ?ctx = "ctx_new pol" and ?n = "sm_message_number m" and ?p = "sm_padding_bits m"
  from enc obtain before w where ck: "ssr_check pol m = Inr before"
    and w: "w_all (ssr_head_fields m @ ssr_record_fields m) (fw_new ?n) = Inr w"
    and cl: "ssr_close w ?p before pol = Inr (body, ds)"
    by (auto simp: ssr_encode_with_policy_def)
  note c = ck [unfolded ssr_check_ok ssr_head_irrelevant check_lists_ok Let_def]
  have ok: "lists_ok m" "before = []" using c cnt by auto
  from w obtain w1 where w1: "w_all (ssr_head_fields m) (fw_new ?n) = Inr w1"
    and w2: "w_all (ssr_record_fields m) w1 = Inr w"
    by (auto simp: w_all_append)
  have "sync ssr_read_head (ssr_head_fields m) (ssr_head m)"
    using c by (intro ssr_head_sync) simp_all
  with w1 obtain b1 where b1: "w1 = fw_put b1 (fw_new ?n)" "reads ssr_read_head (ssr_head m) b1"
    unfolding sync_def by blast
  from ssr_lists_sync [OF ok(1) cnt [symmetric], of ?ctx] w2 obtain b2 where b2: "w = fw_put b2 w1"
    "reads (ssr_read_lists (ssr_head m) ?ctx) (m\<lparr>sm_padding_bits := []\<rparr>, ?ctx) b2"
    unfolding sync_def by blast
  have w': "w = fw_put (b1 @ b2) (fw_new ?n)" using b1(1) b2(1) by simp
  let ?k = "pad_len (length (b1 @ b2) + length ?p)"
  let ?rest = "?p @ replicate ?k False"
  have body: "body = pack ((b1 @ b2) @ ?p)" and tl: "if is_departing_tail ?rest
      then pol = Lenient \<and> ds = [TrailingBits ?n ?rest] else ds = []"
    using cl unfolding w' ok(2) ssr_close_put
    by (auto simp: Let_def split: if_splits rtcm_policy.splits)
  have bits: "bits_of_bytes body = b1 @ b2 @ ?rest"
    unfolding body bits_of_bytes_pack by (simp add: add.assoc)
  let ?r = "adv (length b1) (br_new body)"
  have h: "ssr_read_head (br_new body) = Inr (ssr_head m, ?r)"
    using b1(2) bits by (simp add: reads_def)
  have l: "ssr_read_lists (ssr_head m) ?ctx ?r
      = Inr ((m\<lparr>sm_padding_bits := []\<rparr>, ?ctx), adv (length b2) ?r)"
    using b2(2) bits by (simp add: reads_def)
  have rc: "ssr_record_count (m\<lparr>sm_padding_bits := []\<rparr>) = unat (sh_satellite_count (sm_header m))"
    using record_count_ok [OF ok(1)] cnt by (simp add: ssr_record_count_def)
  have "ssr_decode_inner body ?ctx
      = Inr (m\<lparr>sm_padding_bits := ?rest\<rparr>, \<lparr>policy = pol, departures = ds\<rparr>)"
    unfolding ssr_decode_inner_def h l ebind_simps prod.case br_rest_eq Let_def
    using tl rc bits by (auto simp: depart_def ctx_new_def split: if_splits)
  with w w' show ?thesis by (auto simp: padded_def)
qed

end
