(* ===== verification/Rtcm_Vtec.thy ===== *)
theory Rtcm_Vtec
  imports Rtcm_Ssr
begin

text \<open>
  The ionosphere VTEC messages of \<^verbatim>\<open>rtcm/vtec.rs\<close>: RTCM 1264 and IGS SSR 4076
  subtype 201, one to four layers of spherical-harmonics coefficients.  The encoder
  checks a layer right before it writes it, after the fields of the header and of
  the layers before it; \<open>vtec_write_layers\<close> keeps that order.  The evaluation of the
  model in floating point is not part of this theory.
\<close>

section \<open>Messages\<close>

definition RTCM_VTEC_MESSAGE_NUMBER :: u16 where
  "RTCM_VTEC_MESSAGE_NUMBER = 1264"

definition IGS_SSR_VTEC_SUBTYPE :: u8 where
  "IGS_SSR_VTEC_SUBTYPE = 201"

record ssr_vtec_layer =
  vl_height :: u8
  vl_degree :: u8
  vl_order :: u8
  vl_cosine :: "int list"
  vl_sine :: "int list"

record ssr_vtec_message =
  vm_message_number :: u16
  vm_igs_ssr_version :: "u8 option"
  vm_epoch_time_s :: u32
  vm_update_interval :: u8
  vm_multiple_message :: bool
  vm_iod_ssr :: u8
  vm_provider_id :: u16
  vm_solution_id :: u8
  vm_quality_indicator :: u16
  vm_layers :: "ssr_vtec_layer list"
  vm_trailing_bits :: "bool list"

text \<open>\<^verbatim>\<open>saturating_sub\<close> is subtraction on the naturals.\<close>

definition coefficient_counts :: "u8 \<Rightarrow> u8 \<Rightarrow> nat \<times> nat" where
  "coefficient_counts degree order =
     (let n = unat degree;
          terms = (\<lambda>m. (n + 1) - m);
          cosine = sum_list (map terms [0..<unat order + 1]);
          sine = sum_list (map terms [1..<unat order + 1])
      in (cosine, sine))"

definition is_rtcm_vtec :: "u16 \<Rightarrow> bool" where
  "is_rtcm_vtec message_number \<longleftrightarrow> message_number = RTCM_VTEC_MESSAGE_NUMBER"

section \<open>Decoding\<close>

definition vtec_order_check ::
  "u16 \<Rightarrow> nat \<Rightarrow> u8 \<Rightarrow> u8 \<Rightarrow> decode_context \<Rightarrow> decode_error + decode_context" where
  "vtec_order_check message_number layer_index degree order ctx =
     (if order > degree then depart (OrderExceedsDegree message_number layer_index degree order) ctx
      else Inr ctx)"

definition vtec_layer_read ::
  "u16 \<Rightarrow> nat \<Rightarrow> decode_context \<Rightarrow> (ssr_vtec_layer \<times> decode_context) rd" where
  "vtec_layer_read message_number layer_index ctx =
     rbind (rd_as 8) (\<lambda>height.
     rbind (rd_as 4) (\<lambda>degree_less_1 :: u8.
     rbind (rd_as 4) (\<lambda>order_less_1 :: u8.
     let degree = degree_less_1 + 1; order = order_less_1 + 1 in
     rbind (rlift (vtec_order_check message_number layer_index degree order ctx)) (\<lambda>ctx'.
     let (cosines, sines) = coefficient_counts degree order in
     rbind (rd_vec cosines (rd_i16 16)) (\<lambda>cosine.
     rbind (rd_vec sines (rd_i16 16)) (\<lambda>sine.
     rreturn (\<lparr>vl_height = height, vl_degree = degree, vl_order = order, vl_cosine = cosine,
               vl_sine = sine\<rparr>, ctx')))))))"

fun vtec_layers_read ::
  "u16 \<Rightarrow> nat \<Rightarrow> nat \<Rightarrow> decode_context \<Rightarrow> (ssr_vtec_layer list \<times> decode_context) rd" where
  "vtec_layers_read message_number layer_index 0 ctx = rreturn ([], ctx)"
| "vtec_layers_read message_number layer_index (Suc left) ctx =
     rbind (vtec_layer_read message_number layer_index ctx) (\<lambda>(layer, ctx1).
     rbind (vtec_layers_read message_number (Suc layer_index) left ctx1) (\<lambda>(layers, ctx2).
     rreturn (layer # layers, ctx2)))"

definition vtec_read_version :: "u16 \<Rightarrow> u8 option rd" where
  "vtec_read_version message_number =
     (if message_number = RTCM_VTEC_MESSAGE_NUMBER then rreturn None
      else if message_number = IGS_SSR_MESSAGE_NUMBER then
        rbind (rd_as 3) (\<lambda>version.
        rbind (rd_as 8) (\<lambda>subtype.
        if subtype \<noteq> IGS_SSR_VTEC_SUBTYPE
        then parse_error (''IGS SSR message number '' @ dec_u subtype @
                          '' is not the VTEC message 201'')
        else rreturn (Some version)))
      else parse_error (''message '' @ dec_u message_number @
                        '' is not an SSR VTEC message 1264/4076''))"

definition vtec_read :: "decode_context \<Rightarrow> (ssr_vtec_message \<times> decode_context) rd" where
  "vtec_read ctx =
     rbind (rd_as 12) (\<lambda>message_number.
     rbind (vtec_read_version message_number) (\<lambda>igs_ssr_version.
     rbind (rd_as 20) (\<lambda>epoch_time_s.
     rbind (rd_as 4) (\<lambda>update_interval.
     rbind rd_flag (\<lambda>multiple_message.
     rbind (rd_as 4) (\<lambda>iod_ssr.
     rbind (rd_as 16) (\<lambda>provider_id.
     rbind (rd_as 4) (\<lambda>solution_id.
     rbind (rd_as 9) (\<lambda>quality_indicator.
     rbind (rd_usize 2) (\<lambda>layers_less_1.
     rbind (vtec_layers_read message_number 0 (layers_less_1 + 1) ctx) (\<lambda>(layers, ctx').
     rreturn (\<lparr>vm_message_number = message_number,
               vm_igs_ssr_version = igs_ssr_version,
               vm_epoch_time_s = epoch_time_s,
               vm_update_interval = update_interval,
               vm_multiple_message = multiple_message,
               vm_iod_ssr = iod_ssr,
               vm_provider_id = provider_id,
               vm_solution_id = solution_id,
               vm_quality_indicator = quality_indicator,
               vm_layers = layers,
               vm_trailing_bits = []\<rparr>, ctx'))))))))))))"

section \<open>Encoding\<close>

definition vtec_check_identity :: "ssr_vtec_message \<Rightarrow> rtcm_encode_error + unit" where
  "vtec_check_identity m =
     (let number = vm_message_number m; present = vm_igs_ssr_version m \<noteq> None
      in if number = RTCM_VTEC_MESSAGE_NUMBER \<and> \<not> present
            \<or> number = IGS_SSR_MESSAGE_NUMBER \<and> present then Inr ()
         else if number = RTCM_VTEC_MESSAGE_NUMBER
         then Inl (FieldPresence number (RkSsrVtec number) ''IGS SSR version'' False)
         else if number = IGS_SSR_MESSAGE_NUMBER
         then Inl (FieldPresence number (RkSsrVtec number) ''IGS SSR version'' True)
         else Inl (MessageNumber number (RkSsrVtec number)))"

definition vtec_check_layer_count :: "ssr_vtec_message \<Rightarrow> rtcm_encode_error + unit" where
  "vtec_check_layer_count m =
     (if \<not> (1 \<le> length (vm_layers m) \<and> length (vm_layers m) \<le> 4)
      then Inl (ValueOutOfRange (vm_message_number m) ''VTEC layer count''
                  (int (length (vm_layers m))) 1 4)
      else Inr ())"

definition vtec_check_range :: "u16 \<Rightarrow> nat \<Rightarrow> string \<Rightarrow> u8 \<Rightarrow> rtcm_encode_error + unit" where
  "vtec_check_range number index name v =
     (if \<not> (1 \<le> v \<and> v \<le> 16)
      then Inl (ValueOutOfRange number (''VTEC layer '' @ dec index @ '' '' @ name) (uint v) 1 16)
      else Inr ())"

definition vtec_check_length :: "u16 \<Rightarrow> string \<Rightarrow> nat \<Rightarrow> nat \<Rightarrow> rtcm_encode_error + unit" where
  "vtec_check_length number field held count =
     (if held \<noteq> count then Inl (CountMismatch number field count held) else Inr ())"

definition vtec_check_layer ::
  "rtcm_policy \<Rightarrow> u16 \<Rightarrow> nat \<Rightarrow> ssr_vtec_layer \<Rightarrow> rtcm_encode_error + rtcm_departure list" where
  "vtec_check_layer pol number index layer =
     ebind (vtec_check_range number index ''degree'' (vl_degree layer)) (\<lambda>_.
     ebind (vtec_check_range number index ''order'' (vl_order layer)) (\<lambda>_.
     let departure = OrderExceedsDegree number index (vl_degree layer) (vl_order layer) in
     ebind (if vl_order layer > vl_degree layer
            then if pol = Strict then Inl (StrictDeparture departure) else Inr [departure]
            else Inr []) (\<lambda>found.
     let (cosines, sines) = coefficient_counts (vl_degree layer) (vl_order layer) in
     ebind (vtec_check_length number ''VTEC cosine coefficient'' (length (vl_cosine layer)) cosines) (\<lambda>_.
     ebind (vtec_check_length number ''VTEC sine coefficient'' (length (vl_sine layer)) sines) (\<lambda>_.
     Inr found)))))"

definition vtec_layer_fields :: "nat \<Rightarrow> ssr_vtec_layer \<Rightarrow> wr list" where
  "vtec_layer_fields index layer =
     [w_u (''layer '' @ dec index @ '' height'') (vl_height layer) 8,
      w_u (''layer '' @ dec index @ '' degree'') (vl_degree layer - 1) 4,
      w_u (''layer '' @ dec index @ '' order'') (vl_order layer - 1) 4] @
     map (\<lambda>c. fw_i (''layer '' @ dec index @ '' coefficient'') c 16) (vl_cosine layer @ vl_sine layer)"

fun vtec_write_layers ::
  "rtcm_policy \<Rightarrow> u16 \<Rightarrow> nat \<Rightarrow> ssr_vtec_layer list \<Rightarrow> field_writer
     \<Rightarrow> rtcm_encode_error + field_writer \<times> rtcm_departure list" where
  "vtec_write_layers pol number index [] w = Inr (w, [])"
| "vtec_write_layers pol number index (layer # layers) w =
     ebind (vtec_check_layer pol number index layer) (\<lambda>found.
     ebind (w_all (vtec_layer_fields index layer) w) (\<lambda>w1.
     ebind (vtec_write_layers pol number (Suc index) layers w1) (\<lambda>(w2, later).
     Inr (w2, found @ later))))"

definition vtec_header_fields :: "ssr_vtec_message \<Rightarrow> wr list" where
  "vtec_header_fields m =
     w_u ''message number'' (vm_message_number m) 12 #
     (case vm_igs_ssr_version m of
        None \<Rightarrow> []
      | Some version \<Rightarrow>
          [w_u ''IGS SSR version'' version 3,
           w_u ''IGS SSR message number'' IGS_SSR_VTEC_SUBTYPE 8]) @
     [w_u ''epoch time'' (vm_epoch_time_s m) 20,
      w_u ''update interval'' (vm_update_interval m) 4,
      w_flag (vm_multiple_message m),
      w_u ''IOD SSR'' (vm_iod_ssr m) 4,
      w_u ''provider ID'' (vm_provider_id m) 16,
      w_u ''solution ID'' (vm_solution_id m) 4,
      w_u ''VTEC quality indicator'' (vm_quality_indicator m) 9,
      w_len ''number of layers'' (length (vm_layers m) - 1) 2]"

definition vtec_encode_with_policy ::
  "rtcm_policy \<Rightarrow> ssr_vtec_message \<Rightarrow> rtcm_encode_error + u8 list \<times> rtcm_departure list" where
  "vtec_encode_with_policy pol m =
     (let number = vm_message_number m in
     ebind (vtec_check_identity m) (\<lambda>_.
     ebind (vtec_check_layer_count m) (\<lambda>_.
     ebind (w_all (vtec_header_fields m) (fw_new number)) (\<lambda>w.
     ebind (vtec_write_layers pol number 0 (vm_layers m) w) (\<lambda>(w', before).
     ebind (close_body w' (vm_trailing_bits m) pol) (\<lambda>(body, after).
     Inr (body, before @ after)))))))"

section \<open>Layers\<close>

fun vtec_check_layers ::
  "rtcm_policy \<Rightarrow> u16 \<Rightarrow> nat \<Rightarrow> ssr_vtec_layer list \<Rightarrow> rtcm_encode_error + rtcm_departure list" where
  "vtec_check_layers pol number index [] = Inr []"
| "vtec_check_layers pol number index (layer # layers) =
     ebind (vtec_check_layer pol number index layer) (\<lambda>found.
     ebind (vtec_check_layers pol number (Suc index) layers) (\<lambda>later. Inr (found @ later)))"

lemma coefficient_row_sum:
  "2 * sum_list (map (\<lambda>m. (n + 1) - m) [0..<k + 1]) + (n - min k n) * (n - min k n + 1) = (n + 1) * (n + 2)"
proof (induction k)
  case (Suc k)
  show ?case
  proof (cases "k < n")
    case True
    then obtain d where d: "n = Suc k + d" using less_iff_Suc_add by auto
    with Suc show ?thesis by (simp add: algebra_simps)
  next
    case False
    with Suc show ?thesis by simp
  qed
qed simp

lemma coefficient_counts_closed:
  assumes "coefficient_counts degree order = (cosine, sine)"
  shows "2 * cosine + (unat degree - min (unat order) (unat degree)) * (unat degree - min (unat order) (unat degree) + 1)
      = (unat degree + 1) * (unat degree + 2) \<and> cosine = sine + (unat degree + 1)"
proof -
  have "[0..<unat order + 1] = 0 # [1..<unat order + 1]" by (simp add: upt_conv_Cons del: upt_Suc)
  then have "cosine = sine + (unat degree + 1)"
    using assms by (auto simp: coefficient_counts_def Let_def simp del: upt_Suc)
  moreover have "cosine = sum_list (map (\<lambda>m. (unat degree + 1) - m) [0..<unat order + 1])"
    using assms by (simp add: coefficient_counts_def Let_def)
  ultimately show ?thesis using coefficient_row_sum [of "unat degree" "unat order"] by (simp only: simp_thms)
qed

lemma vtec_write_layers_iff:
  "vtec_write_layers pol n i ls w = Inr (w', ds) \<longleftrightarrow>
     vtec_check_layers pol n i ls = Inr ds \<and> w_all (w_records vtec_layer_fields i ls) w = Inr w'"
  by (induction ls arbitrary: i w w' ds) (auto simp: w_all_append)

lemma vtec_check_layer_ok:
  "vtec_check_layer pol n i l = Inr ds \<longleftrightarrow>
     1 \<le> vl_degree l \<and> vl_degree l \<le> 16 \<and> 1 \<le> vl_order l \<and> vl_order l \<le> 16
     \<and> (length (vl_cosine l), length (vl_sine l)) = coefficient_counts (vl_degree l) (vl_order l)
     \<and> (if vl_order l > vl_degree l
        then pol = Lenient \<and> ds = [OrderExceedsDegree n i (vl_degree l) (vl_order l)]
        else ds = [])"
  by (cases pol) (auto simp: vtec_check_layer_def vtec_check_range_def vtec_check_length_def Let_def
      split_def prod_eq_iff split: if_splits)

lemma vtec_order_check_Inr:
  "vtec_order_check n i degree order ctx = Inr ctx' \<longleftrightarrow>
     (\<exists>ds. ctx' = ctx\<lparr>departures := departures ctx @ ds\<rparr> \<and>
        (if order > degree
         then policy ctx = Lenient \<and> ds = [OrderExceedsDegree n i degree order] else ds = []))"
  by (auto simp: vtec_order_check_def depart_Inr)

lemma minus_1_plus_1: "1 \<le> (x :: u8) \<Longrightarrow> x \<le> 16 \<Longrightarrow> fits_u 4 (x - 1)"
  by (simp add: fits_u_def unat_sub word_le_nat_alt)

lemma plus_1_range:
  assumes "fits_u 4 (x :: u8)"
  shows "1 \<le> x + 1 \<and> x + 1 \<le> 16"
proof -
  have "unat x < 16" using assms by (simp add: fits_u_def)
  then have "unat (x + 1) = unat x + 1" by (simp add: unat_word_ariths)
  then show ?thesis using \<open>unat x < 16\<close> by (simp add: word_le_nat_alt)
qed

lemma coefficients_sync:
  "sync (rd_vec (length xs) (rd_i16 16)) (map (\<lambda>c. fw_i f c 16) xs) xs"
proof -
  have "sync (rd_i16 16) [fw_i f x 16] x" for x
    by (rule sync_single, rule sync_i16) (simp_all add: sync_return)
  then show ?thesis
    using sync_vec [of xs "rd_i16 16" "\<lambda>c. [fw_i f c 16]" "\<lambda>x. x" "length xs"]
    by (simp add: concat_map_singleton)
qed

lemma coefficients_consumed:
  "deco (rd_vec n (rd_i16 16)) (\<lambda>xs bs. length xs = n \<and> (\<forall>f. writes (map (\<lambda>c. fw_i f c 16) xs) bs))"
proof (induction n)
  case 0
  show ?case by (auto intro!: deco_intros simp: w_exec)
next
  case (Suc n)
  have "deco (rd_i16 16) (\<lambda>x bs. \<forall>f. writes [fw_i f x 16] bs)"
    by (rule deco_single, rule deco_i16) (auto intro!: deco_return simp: w_exec)
  from this Suc.IH show ?case
    unfolding rd_vec.simps
    by (elim deco_bind) (auto intro!: deco_return writes_step)
qed

lemma vtec_layer_sync:
  assumes "vtec_check_layer (policy ctx) n i l = Inr ds"
  shows "sync (vtec_layer_read n i ctx) (vtec_layer_fields i l)
     (l, ctx\<lparr>departures := departures ctx @ ds\<rparr>)"
proof -
  note ok = assms [unfolded vtec_check_layer_ok]
  let ?ctx = "ctx\<lparr>departures := departures ctx @ ds\<rparr>"
  have o: "vtec_order_check n i (vl_degree l) (vl_order l) ctx = Inr ?ctx"
    unfolding vtec_order_check_Inr by (rule exI [of _ ds]) (use ok in simp)
  have cc: "coefficient_counts (vl_degree l) (vl_order l) = (length (vl_cosine l), length (vl_sine l))"
    using ok by simp
  show ?thesis
    unfolding vtec_layer_read_def vtec_layer_fields_def map_append append_Cons append_Nil
    apply (rule sync_as, simp, simp, rule sync_as, simp, simp, rule sync_as, simp, simp)
    apply (simp add: o cc)
    apply (rule sync_lift)
    apply (rule sync_bind [OF coefficients_sync], rule sync_bind_end [OF coefficients_sync])
    by (simp add: sync_return)
qed

lemma vtec_layers_sync:
  "vtec_check_layers (policy ctx) n i ls = Inr ds \<Longrightarrow>
     sync (vtec_layers_read n i (length ls) ctx) (w_records vtec_layer_fields i ls)
       (ls, ctx\<lparr>departures := departures ctx @ ds\<rparr>)"
proof (induction ls arbitrary: i ctx ds)
  case Nil
  then show ?case by (simp add: sync_return)
next
  case (Cons l ls)
  then obtain d1 d2 where d: "vtec_check_layer (policy ctx) n i l = Inr d1"
    "vtec_check_layers (policy ctx) n (Suc i) ls = Inr d2" "ds = d1 @ d2"
    by auto
  let ?c1 = "ctx\<lparr>departures := departures ctx @ d1\<rparr>"
  note s1 = vtec_layer_sync [OF d(1)]
    and s2 = Cons.IH [of ?c1 "Suc i" d2, simplified, OF d(2)]
  show ?case
    unfolding w_records.simps list.size add_0_right add_Suc_right vtec_layers_read.simps
    by (rule sync_bind [OF s1], unfold prod.case, rule sync_bind_end [OF s2]) (simp add: sync_return d(3))
qed

lemma vtec_layer_consumed:
  "deco (vtec_layer_read n i ctx) (\<lambda>(l, ctx') bs. \<exists>ds. vtec_check_layer (policy ctx) n i l = Inr ds
     \<and> ctx' = ctx\<lparr>departures := departures ctx @ ds\<rparr> \<and> writes (vtec_layer_fields i l) bs)"
  unfolding vtec_layer_read_def Let_def
  apply (rule deco_as, simp, simp, rule deco_as, simp, simp, rule deco_as, simp, simp)
  apply (rule deco_lift)
  apply (simp only: split_def)
  apply (rule deco_bind [OF coefficients_consumed], rule deco_bind [OF coefficients_consumed], rule deco_return)
  apply (simp only: prod.case vtec_order_check_Inr)
  apply (elim exE conjE)
  subgoal for height d ord ctx' cos b1 sin b2 ds
    apply (rule exI [of _ ds])
    using plus_1_range [of d] plus_1_range [of ord]
    apply (auto simp: vtec_check_layer_ok vtec_layer_fields_def intro!: writes_u writes_append)
    done
  done


lemma vtec_layers_consumed:
  "deco (vtec_layers_read n i left ctx) (\<lambda>(ls, ctx') bs. length ls = left
     \<and> (\<exists>ds. vtec_check_layers (policy ctx) n i ls = Inr ds
        \<and> ctx' = ctx\<lparr>departures := departures ctx @ ds\<rparr>)
     \<and> writes (w_records vtec_layer_fields i ls) bs)"
proof (induction left arbitrary: i ctx)
  case 0
  show ?case by (auto intro!: deco_intros simp: w_exec)
next
  case (Suc left)
  show ?case
    unfolding vtec_layers_read.simps
    apply (rule deco_bind [OF vtec_layer_consumed])
    apply (clarsimp simp only: prod.case)
    apply (rule deco_bind [OF Suc.IH])
    apply (clarsimp simp only: prod.case)
    apply (rule deco_return)
    by (auto intro: writes_append)
qed

section \<open>The message contract\<close>

definition vtec_check :: "rtcm_policy \<Rightarrow> ssr_vtec_message \<Rightarrow> rtcm_encode_error + rtcm_departure list" where
  "vtec_check pol m =
     ebind (vtec_check_identity m) (\<lambda>_.
     ebind (vtec_check_layer_count m) (\<lambda>_.
     vtec_check_layers pol (vm_message_number m) 0 (vm_layers m)))"

definition vtec_fields :: "ssr_vtec_message \<Rightarrow> wr list" where
  "vtec_fields m = vtec_header_fields m @ w_records vtec_layer_fields 0 (vm_layers m)"

lemma vtec_check_ok:
  "vtec_check pol m = Inr ds \<longleftrightarrow>
     (vm_message_number m = RTCM_VTEC_MESSAGE_NUMBER \<and> vm_igs_ssr_version m = None
      \<or> vm_message_number m = IGS_SSR_MESSAGE_NUMBER \<and> vm_igs_ssr_version m \<noteq> None)
     \<and> 1 \<le> length (vm_layers m) \<and> length (vm_layers m) \<le> 4
     \<and> vtec_check_layers pol (vm_message_number m) 0 (vm_layers m) = Inr ds"
  by (auto simp: vtec_check_def vtec_check_identity_def vtec_check_layer_count_def Let_def
      split: if_splits)

lemma vtec_numbers [simp]: "RTCM_VTEC_MESSAGE_NUMBER \<noteq> IGS_SSR_MESSAGE_NUMBER"
  "IGS_SSR_MESSAGE_NUMBER \<noteq> RTCM_VTEC_MESSAGE_NUMBER"
  by (simp_all add: RTCM_VTEC_MESSAGE_NUMBER_def IGS_SSR_MESSAGE_NUMBER_def)

lemma vtec_version_sync:
  assumes "vm_message_number m = RTCM_VTEC_MESSAGE_NUMBER \<and> vm_igs_ssr_version m = None
      \<or> vm_message_number m = IGS_SSR_MESSAGE_NUMBER \<and> vm_igs_ssr_version m \<noteq> None"
  shows "sync (vtec_read_version (vm_message_number m)) (case vm_igs_ssr_version m of
        None \<Rightarrow> []
      | Some version \<Rightarrow>
          [w_u ''IGS SSR version'' version 3,
           w_u ''IGS SSR message number'' IGS_SSR_VTEC_SUBTYPE 8]) (vm_igs_ssr_version m)"
  using assms unfolding vtec_read_version_def by (auto intro!: sync_intros)

lemma vtec_version_consumed:
  "deco (vtec_read_version n) (\<lambda>v bs. (n = RTCM_VTEC_MESSAGE_NUMBER \<and> v = None
      \<or> n = IGS_SSR_MESSAGE_NUMBER \<and> v \<noteq> None) \<and> writes (case v of
        None \<Rightarrow> []
      | Some version \<Rightarrow>
          [w_u ''IGS SSR version'' version 3,
           w_u ''IGS SSR message number'' IGS_SSR_VTEC_SUBTYPE 8]) bs)"
  unfolding vtec_read_version_def by (intro deco_intros) (simp_all add: w_exec)

lemma vtec_sync:
  assumes "vtec_check (policy ctx) m = Inr before"
  shows "sync (vtec_read ctx) (vtec_fields m)
     (m\<lparr>vm_trailing_bits := []\<rparr>, ctx\<lparr>departures := departures ctx @ before\<rparr>)"
proof -
  note ok = assms [unfolded vtec_check_ok]
  have "1 \<le> length (vm_layers m)" using ok by blast
  then have len: "length (vm_layers m) - 1 + 1 = length (vm_layers m)" by simp
  note ver = vtec_version_sync [OF conjunct1 [OF ok]]
    and lay = vtec_layers_sync [of ctx "vm_message_number m" 0 "vm_layers m" before]
  show ?thesis
    unfolding vtec_read_def vtec_fields_def vtec_header_fields_def append_Cons append_assoc append_Nil
    apply (rule sync_as, simp, simp)
    apply (rule sync_bind [OF ver])
    apply (rule sync_as, simp, simp, rule sync_as, simp, simp, rule sync_flag, rule sync_as, simp, simp,
      rule sync_as, simp, simp, rule sync_as, simp, simp, rule sync_as, simp, simp, rule sync_usize, simp)
    unfolding len
    apply (rule sync_bind_end [OF lay])
    using ok apply simp
    by (cases m) (simp add: sync_return)
qed

lemma vtec_consumed:
  "deco (vtec_read ctx) (\<lambda>(m, ctx') bs.
      \<exists>before. vtec_check (policy ctx) m = Inr before
        \<and> ctx' = ctx\<lparr>departures := departures ctx @ before\<rparr>
        \<and> writes (vtec_fields m) bs \<and> vm_trailing_bits m = []
        \<and> fits_u 12 (vm_message_number m)
        \<and> (\<exists>cs. bs = to_bits 12 (ucast (vm_message_number m)) @ cs))"
  unfolding vtec_read_def
  apply (rule deco_as, simp, simp)
  apply (rule deco_bind [OF vtec_version_consumed])
  apply (rule deco_as, simp, simp, rule deco_as, simp, simp, rule deco_flag, rule deco_as, simp, simp,
      rule deco_as, simp, simp, rule deco_as, simp, simp, rule deco_as, simp, simp, rule deco_usize, simp)
  apply (rule deco_bind [OF vtec_layers_consumed])
  apply (clarsimp simp only: prod.case)
  apply (rule deco_return)
  apply (simp add: vtec_check_ok vtec_fields_def vtec_header_fields_def)
  apply (intro conjI writes_u writes_append writes_flag writes_len; (simp; fail)?)
  done

lemma vtec_check_layers_strict:
  "vtec_check_layers Strict number index layers = Inr ds \<Longrightarrow>
     ds = [] \<and> vtec_check_layers Lenient number index layers = Inr []"
  by (induction layers arbitrary: index ds)
    (auto simp: vtec_check_layer_def Let_def split: if_splits prod.splits)

interpretation vtec: body_codec vtec_read vm_message_number vtec_check vtec_fields vm_trailing_bits
  "\<lambda>bits m. m\<lparr>vm_trailing_bits := bits\<rparr>" "\<lambda>m. m" vtec_encode_with_policy
proof unfold_locales
  show "vtec_encode_with_policy pol m = Inr (body, ds) \<longleftrightarrow>
      (\<exists>before w after. vtec_check pol m = Inr before
        \<and> w_all (vtec_fields m) (fw_new (vm_message_number m)) = Inr w
        \<and> close_body w (vm_trailing_bits m) pol = Inr (body, after) \<and> ds = before @ after)"
    for pol m body ds
    by (auto simp: vtec_encode_with_policy_def vtec_check_def vtec_fields_def w_all_append
        vtec_write_layers_iff Let_def)
  show "before = [] \<and> vtec_check Lenient m = Inr []" if "vtec_check Strict m = Inr before" for m before
    using that by (auto simp: vtec_check_def dest: vtec_check_layers_strict)
qed (rule vtec_consumed | erule vtec_sync
  | simp add: vtec_check_def vtec_check_identity_def vtec_check_layer_count_def vtec_fields_def
      vtec_header_fields_def Let_def)+

end
