(* ===== verification/Rtcm_Crc.thy ===== *)
theory Rtcm_Crc
  imports Rtcm_Bits
begin

text \<open>
  The CRC-24Q checksum of \<^verbatim>\<open>rtcm/crc.rs\<close>.  The register is a 32-bit word of which the
  low 24 bits are used.  The theory shows that the byte-wise and the bit-wise
  routine are the same polynomial division, that the checksum is linear, that
  data followed by its own checksum leaves the register zero, and that every
  nonzero error spanning at most 24 bits changes the checksum.
\<close>

unbundle bit_operations_syntax

section \<open>The checksum\<close>

definition POLYNOMIAL :: u32 where
  "POLYNOMIAL = 0x01864CFB"

definition TOP_BIT :: u32 where
  "TOP_BIT = 0x01000000"

definition MASK_24 :: u32 where
  "MASK_24 = 0x00FFFFFF"

text \<open>The body of the inner loops: one shift of the register and its reduction.\<close>

definition crc_shift :: "u32 \<Rightarrow> u32" where
  "crc_shift crc =
     (let shifted = push_bit 1 crc
      in if shifted AND TOP_BIT \<noteq> 0 then shifted XOR POLYNOMIAL else shifted)"

definition crc_byte :: "u32 \<Rightarrow> u8 \<Rightarrow> u32" where
  "crc_byte crc byte = (crc_shift ^^ 8) (crc XOR push_bit 16 (ucast byte))"

text \<open>The loop unrolled, which is how a concrete byte is evaluated.\<close>

lemma crc_byte_steps [code]:
  "crc_byte crc byte =
     crc_shift (crc_shift (crc_shift (crc_shift (crc_shift (crc_shift (crc_shift (crc_shift
       (crc XOR push_bit 16 (ucast byte)))))))))"
  by (simp add: crc_byte_def eval_nat_numeral)

definition crc24q_with_init :: "u32 \<Rightarrow> u8 list \<Rightarrow> u32" where
  "crc24q_with_init init data = foldl crc_byte (init AND MASK_24) data AND MASK_24"

definition crc24q :: "u8 list \<Rightarrow> u32" where
  "crc24q data = crc24q_with_init 0 data"

definition crc_bit :: "u8 list \<Rightarrow> u32 \<Rightarrow> nat \<Rightarrow> u32" where
  "crc_bit data crc i =
     (let byte = data ! (i div 8);
          b = drop_bit (7 - i mod 8) byte AND 1
      in crc_shift (crc XOR push_bit 23 (ucast b)))"

definition crc24q_bits :: "u8 list \<Rightarrow> nat \<Rightarrow> u32" where
  "crc24q_bits data nbits = foldl (crc_bit data) 0 [0..<nbits] AND MASK_24"

section \<open>The register as a linear map\<close>

lemma bit_shl: "bit (push_bit 1 (s :: u32)) k \<longleftrightarrow> 0 < k \<and> k < 32 \<and> bit s (k - 1)"
  unfolding bit_push_bit_iff by auto

lemma shifted_top: "push_bit 1 (s :: u32) AND TOP_BIT \<noteq> 0 \<longleftrightarrow> bit s 23"
proof -
  have "TOP_BIT = 2 ^ 24" by (simp add: TOP_BIT_def)
  then have "push_bit 1 s AND TOP_BIT = 0 \<longleftrightarrow> \<not> bit (push_bit 1 s) 24"
    using and_exp_eq_0_iff_not_bit [of "push_bit 1 s" 24] by (simp only:)
  then show ?thesis by (simp only: bit_shl) simp
qed

lemma bit_crc_shift:
  "bit (crc_shift s) k \<longleftrightarrow>
     (0 < k \<and> k < 32 \<and> bit s (k - 1)) \<noteq> (bit s 23 \<and> bit POLYNOMIAL k)"
  unfolding crc_shift_def Let_def shifted_top by (simp only: bit_shl bit_xor_iff split: if_split) auto

lemma crc_shift_xor: "crc_shift (a XOR b) = crc_shift a XOR crc_shift b"
  by (rule bit_word_eqI) (auto simp: bit_crc_shift bit_xor_iff)

lemma crc_shift_pow_xor: "(crc_shift ^^ n) (a XOR b) = (crc_shift ^^ n) a XOR (crc_shift ^^ n) b"
  by (induction n arbitrary: a b) (simp_all add: crc_shift_xor funpow_swap1)

text \<open>A register of 24 bits.\<close>

definition reg24 :: "u32 \<Rightarrow> bool" where
  "reg24 s \<longleftrightarrow> (\<forall>k\<ge>24. \<not> bit s k)"

lemma poly_bits: "bit POLYNOMIAL 24" "bit POLYNOMIAL 0" "k > 24 \<Longrightarrow> \<not> bit POLYNOMIAL k"
proof -
  show "bit POLYNOMIAL 24" "bit POLYNOMIAL 0" by (simp_all add: POLYNOMIAL_def)
  have "take_bit 25 POLYNOMIAL = POLYNOMIAL" by (simp add: POLYNOMIAL_def)
  then show "k > 24 \<Longrightarrow> \<not> bit POLYNOMIAL k"
    by (metis bit_take_bit_iff not_less_eq numeral_nat(2) order_less_irrefl eval_nat_numeral(3) less_antisym)
qed

lemma mask24: "MASK_24 = mask 24"
  by (simp add: MASK_24_def mask_eq_exp_minus_1)

lemma reg24_mask: "reg24 s \<Longrightarrow> s AND MASK_24 = s"
  unfolding mask24 reg24_def by (rule bit_word_eqI) (auto simp: bit_simps not_less [symmetric])

lemma reg24_simps [simp]:
  "reg24 0" "reg24 (a AND MASK_24)"
  "reg24 a \<Longrightarrow> reg24 b \<Longrightarrow> reg24 (a XOR b)"
  by (auto simp: reg24_def mask24 bit_simps)

lemma reg24_shift:
  assumes "reg24 s"
  shows "reg24 (crc_shift s)"
  unfolding reg24_def
proof (intro allI impI)
  fix k :: nat assume k: "24 \<le> k"
  show "\<not> bit (crc_shift s) k"
  proof (cases "k = 24")
    case True
    then show ?thesis using poly_bits(1) by (simp add: bit_crc_shift)
  next
    case False
    with k assms have "\<not> bit s (k - 1)" "\<not> bit POLYNOMIAL k"
      using poly_bits(3) [of k] by (auto simp: reg24_def)
    then show ?thesis by (simp add: bit_crc_shift)
  qed
qed

lemma reg24_pow: "reg24 s \<Longrightarrow> reg24 ((crc_shift ^^ n) s)"
  by (induction n) (simp_all add: reg24_shift)

lemma crc_shift_zero [simp]: "crc_shift 0 = 0"
  by (rule bit_word_eqI) (simp add: bit_crc_shift)

lemma crc_shift_pow_zero [simp]: "(crc_shift ^^ n) 0 = 0"
  by (induction n) simp_all

text \<open>The polynomial has a constant term, so no register but zero is shifted to zero.\<close>

lemma crc_shift_nonzero:
  assumes "reg24 s" and "crc_shift s = 0"
  shows "s = 0"
proof -
  have z: "\<not> bit (crc_shift s) k" for k using assms(2) by simp
  have top: "\<not> bit s 23"
    using z [of 0] poly_bits(2) by (simp add: bit_crc_shift)
  show "s = 0"
  proof (rule bit_word_eqI)
    fix k assume "k < LENGTH(32)"
    show "bit s k = bit 0 k"
      using z [of "Suc k"] top assms(1) by (cases "k < 24") (auto simp: bit_crc_shift reg24_def)
  qed
qed

lemma crc_shift_pow_nonzero: "reg24 s \<Longrightarrow> (crc_shift ^^ n) s = 0 \<Longrightarrow> s = 0"
proof (induction n)
  case (Suc n)
  then show ?case using crc_shift_nonzero [OF reg24_pow [OF Suc.prems(1)]] by simp
qed simp


section \<open>Feeding bits\<close>

text \<open>
  The register after a bit string, one bit at a time, and the same bits entered
  at once at the top of the register.
\<close>

definition feed1 :: "u32 \<Rightarrow> bool \<Rightarrow> u32" where
  "feed1 s b = crc_shift (s XOR push_bit 23 (of_bool b))"

definition feed :: "bool list \<Rightarrow> u32 \<Rightarrow> u32" where
  "feed bs s = foldl feed1 s bs"

fun enter :: "bool list \<Rightarrow> u32" where
  "enter [] = 0"
| "enter (b # bs) = push_bit 23 (of_bool b) XOR drop_bit 1 (enter bs)"

lemma feed_simps [simp]:
  "feed [] s = s" "feed (b # bs) s = feed bs (feed1 s b)" "feed (bs @ cs) s = feed cs (feed bs s)"
  by (simp_all add: feed_def)

lemma bit_top: "bit (push_bit 23 (of_bool b :: u32)) k \<longleftrightarrow> k = 23 \<and> b"
proof (cases b)
  case True
  have "push_bit 23 (1 :: u32) = 2 ^ 23" by simp
  with True show ?thesis by (simp only: of_bool_eq bit_exp_iff) auto
qed simp

lemma bit_enter: "bit (enter bs) k \<longleftrightarrow> k \<le> 23 \<and> 23 - k < length bs \<and> bs ! (23 - k)"
proof (induction bs arbitrary: k)
  case (Cons b bs)
  have "bit (drop_bit 1 (enter bs)) k \<longleftrightarrow> k < 23 \<and> 23 - Suc k < length bs \<and> bs ! (23 - Suc k)"
    by (simp only: bit_drop_bit_eq o_apply Cons.IH) auto
  then show ?case
    by (cases "k = 23") (auto simp only: enter.simps bit_xor_iff bit_top, auto simp: Suc_diff_Suc nth_Cons' diff_Suc split: nat.splits)
qed simp

lemma reg24_enter: "reg24 (enter bs)"
  by (simp add: reg24_def bit_enter)

lemma crc_shift_drop:
  assumes "length bs \<le> 23"
  shows "crc_shift (drop_bit 1 (enter bs)) = enter bs"
proof (rule bit_word_eqI)
  fix k assume "k < LENGTH(32)"
  have d: "bit (drop_bit 1 (enter bs)) j = bit (enter bs) (Suc j)" for j
    by (simp only: bit_drop_bit_eq o_apply) simp
  show "bit (crc_shift (drop_bit 1 (enter bs))) k = bit (enter bs) k"
    using assms by (cases k) (auto simp only: bit_crc_shift d, auto simp: bit_enter)
qed

lemma feed_enter: "length bs \<le> 24 \<Longrightarrow> feed bs s = (crc_shift ^^ length bs) (s XOR enter bs)"
proof (induction bs arbitrary: s)
  case (Cons b bs)
  have "feed (b # bs) s
      = (crc_shift ^^ length bs) (crc_shift (s XOR push_bit 23 (of_bool b)) XOR enter bs)"
    using Cons by (simp add: feed1_def)
  also have "\<dots> = (crc_shift ^^ length bs)
      (crc_shift ((s XOR push_bit 23 (of_bool b)) XOR drop_bit 1 (enter bs)))"
    using Cons.prems crc_shift_drop [of bs] by (simp only: crc_shift_xor list.size simp_thms)
  also have "\<dots> = (crc_shift ^^ length (b # bs)) (s XOR enter (b # bs))"
    by (simp only: enter.simps xor.assoc funpow_swap1 length_Cons funpow.simps o_apply)
  finally show ?case .
qed simp


lemma enter_byte: "enter (byte_bits b) = push_bit 16 (ucast b)"
proof (rule bit_word_eqI)
  fix k assume k: "k < LENGTH(32)"
  have "bit (enter (byte_bits b)) k \<longleftrightarrow> 16 \<le> k \<and> k \<le> 23 \<and> bit b (k - 16)"
    by (auto simp: bit_enter byte_bits_nth)
  moreover have "bit (push_bit 16 (ucast b :: u32)) k \<longleftrightarrow> 16 \<le> k \<and> k \<le> 23 \<and> bit b (k - 16)"
    using k bit_imp_le_length [of b "k - 16"] by (auto simp: bit_push_bit_iff bit_ucast_iff)
  ultimately show "bit (enter (byte_bits b)) k = bit (push_bit 16 (ucast b :: u32)) k"
    by (simp only:)
qed

lemma crc_byte_feed: "crc_byte s b = feed (byte_bits b) s"
  by (simp add: crc_byte_def feed_enter enter_byte)

lemma crc_bytes_feed: "foldl crc_byte s data = feed (bits_of_bytes data) s"
  by (induction data arbitrary: s) (simp_all add: crc_byte_feed)

lemma reg24_feed: "reg24 s \<Longrightarrow> reg24 (feed bs s)"
proof (induction bs arbitrary: s)
  case (Cons b bs)
  have "reg24 (feed1 s b)"
    unfolding feed1_def using Cons.prems by (intro reg24_shift reg24_simps) (auto simp: reg24_def bit_top)
  then show ?case using Cons.IH by simp
qed simp

lemma crc24q_init_feed:
  assumes "reg24 init"
  shows "crc24q_with_init init data = feed (bits_of_bytes data) init"
  using assms by (simp add: crc24q_with_init_def crc_bytes_feed reg24_mask reg24_feed)

lemma crc24q_feed: "crc24q data = feed (bits_of_bytes data) 0"
  by (simp add: crc24q_def crc24q_init_feed)

lemma crc_bit_feed:
  assumes "i < 8 * length data"
  shows "crc_bit data s i = feed1 s (bits_of_bytes data ! i)"
proof -
  let ?b = "bit (data ! (i div 8)) (7 - i mod 8)"
  have "drop_bit (7 - i mod 8) (data ! (i div 8)) AND 1 = of_bool ?b"
    by (rule bit_word_eqI) (auto simp: bit_simps)
  then have "(ucast (drop_bit (7 - i mod 8) (data ! (i div 8)) AND 1) :: u32) = of_bool ?b"
    by simp
  then show ?thesis
    using assms by (simp only: crc_bit_def Let_def feed1_def bits_of_bytes_nth)
qed

lemma crc24q_bits_feed:
  assumes "n \<le> 8 * length data"
  shows "crc24q_bits data n = feed (take n (bits_of_bytes data)) 0"
proof -
  have "foldl (crc_bit data) 0 [0..<n] = feed (take n (bits_of_bytes data)) 0"
    using assms
  proof (induction n)
    case (Suc n)
    then show ?case by (simp add: take_Suc_conv_app_nth crc_bit_feed)
  qed simp
  then show ?thesis by (simp add: crc24q_bits_def reg24_mask reg24_feed)
qed

section \<open>Linearity and error detection\<close>

fun xor_bits :: "bool list \<Rightarrow> bool list \<Rightarrow> bool list" where
  "xor_bits (a # as) (b # bs) = (a \<noteq> b) # xor_bits as bs"
| "xor_bits _ _ = []"

lemma feed1_xor: "feed1 (s XOR t) (a \<noteq> b) = feed1 s a XOR feed1 t b"
proof -
  have "push_bit 23 (of_bool (a \<noteq> b) :: u32) = push_bit 23 (of_bool a) XOR push_bit 23 (of_bool b)"
    by (cases a; cases b) simp_all
  then have "(s XOR t) XOR push_bit 23 (of_bool (a \<noteq> b))
      = (s XOR push_bit 23 (of_bool a)) XOR (t XOR push_bit 23 (of_bool b))"
    by (simp only: ac_simps)
  then show ?thesis unfolding feed1_def by (simp only: crc_shift_xor)
qed

lemma feed_xor:
  "length as = length bs \<Longrightarrow> feed (xor_bits as bs) (s XOR t) = feed as s XOR feed bs t"
proof (induction as bs arbitrary: s t rule: list_induct2)
  case (Cons a as b bs)
  then show ?case by (simp only: xor_bits.simps feed_simps feed1_xor)
qed simp

lemma feed_zeros: "feed (replicate n False) s = (crc_shift ^^ n) s"
  by (induction n arbitrary: s) (simp_all add: feed1_def funpow_swap1)

lemma enter_zero:
  assumes "enter bs = 0" and "length bs \<le> 24"
  shows "\<not> list_ex (\<lambda>b. b) bs"
proof
  assume "list_ex (\<lambda>b. b) bs"
  then obtain i where i: "i < length bs" "bs ! i" by (auto simp: list_ex_length)
  with assms(2) have "bit (enter bs) (23 - i)" by (simp add: bit_enter)
  with assms(1) show False by simp
qed

text \<open>
  A nonzero error that spans at most 24 bits leaves the register nonzero.
\<close>

lemma feed_burst:
  assumes "length burst \<le> 24" and "list_ex (\<lambda>b. b) burst"
  shows "feed (replicate i False @ burst @ replicate j False) 0 \<noteq> 0"
proof
  assume "feed (replicate i False @ burst @ replicate j False) 0 = 0"
  then have "(crc_shift ^^ j) ((crc_shift ^^ length burst) (enter burst)) = 0"
    using assms(1) by (simp add: feed_zeros feed_enter)
  then have "enter burst = 0"
    using crc_shift_pow_nonzero [OF reg24_enter, of "j + length burst" burst]
    by (simp add: funpow_add)
  with enter_zero [OF this assms(1)] assms(2) show False by simp
qed

lemma crc24q_burst:
  assumes "length a = length b"
    and "xor_bits (bits_of_bytes a) (bits_of_bytes b) = replicate i False @ burst @ replicate j False"
    and "length burst \<le> 24" and "list_ex (\<lambda>b. b) burst"
  shows "crc24q a \<noteq> crc24q b"
proof
  assume "crc24q a = crc24q b"
  moreover have "feed (xor_bits (bits_of_bytes a) (bits_of_bytes b)) (0 XOR 0) = crc24q a XOR crc24q b"
    unfolding crc24q_feed using assms(1) by (intro feed_xor) simp
  ultimately have "feed (replicate i False @ burst @ replicate j False) 0 = 0"
    unfolding assms(2) by simp
  with feed_burst [OF assms(3,4)] show False by blast
qed

text \<open>Appending the checksum to the data leaves the register zero.\<close>

definition crc_tail :: "u32 \<Rightarrow> u8 list" where
  "crc_tail crc = [ucast (drop_bit 16 crc), ucast (drop_bit 8 crc), ucast crc]"

lemma enter_crc_tail:
  assumes "reg24 s"
  shows "enter (bits_of_bytes (crc_tail s)) = s"
proof (rule bit_word_eqI)
  fix k assume "k < LENGTH(32)"
  have nth: "bits_of_bytes (crc_tail s) ! i = bit s (23 - i)" if "i < 24" for i
  proof -
    have "bit (crc_tail s ! d) (7 - m) = bit s (23 - (8 * d + m))" if "d < 3" "m < 8" for d m
    proof -
      have "d = 0 \<or> d = 1 \<or> d = 2" using that(1) by auto
      then show ?thesis
        using that(2) by (elim disjE) (auto simp: crc_tail_def bit_ucast_iff bit_drop_bit_eq)
    qed
    from this [of "i div 8" "i mod 8"] show ?thesis
      using that bits_of_bytes_nth [of i "crc_tail s"]
      by (simp add: crc_tail_def less_mult_imp_div_less)
  qed
  show "bit (enter (bits_of_bytes (crc_tail s))) k = bit s k"
  proof (cases "k \<le> 23")
    case True
    moreover have "length (bits_of_bytes (crc_tail s)) = 24" by (simp add: crc_tail_def)
    ultimately show ?thesis using nth [of "23 - k"] by (simp only: bit_enter) auto
  next
    case False
    then show ?thesis using assms by (simp add: bit_enter reg24_def)
  qed
qed

text \<open>The checksum a frame carries, as its decoder reads it from three bytes.\<close>

definition framed_crc :: "u8 \<Rightarrow> u8 \<Rightarrow> u8 \<Rightarrow> u32" where
  "framed_crc b0 b1 b2 = push_bit 16 (ucast b0) OR push_bit 8 (ucast b1) OR ucast b2"

lemma framed_crc_enter: "framed_crc b0 b1 b2 = enter (bits_of_bytes [b0, b1, b2])"
proof (rule bit_word_eqI)
  fix k assume k: "k < LENGTH(32)"
  let ?bs = "bits_of_bytes [b0, b1, b2]"
  have b: "bit b j \<Longrightarrow> j < 8" for b :: u8 and j
    using bit_imp_le_length [of b j] by simp
  have nth: "?bs ! (23 - k) = (if 16 \<le> k then bit b0 (k - 16) else if 8 \<le> k then bit b1 (k - 8)
               else bit b2 k)" if "k \<le> 23"
    using that by (auto simp: nth_append byte_bits_nth not_le)
  show "bit (framed_crc b0 b1 b2) k = bit (enter ?bs) k"
  proof (cases "k \<le> 23")
    case True
    with nth k b show ?thesis
      unfolding framed_crc_def bit_enter bit_or_iff bit_push_bit_iff bit_ucast_iff
      by (auto dest: b)
  next
    case False
    with k b show ?thesis
      unfolding framed_crc_def bit_enter bit_or_iff bit_push_bit_iff bit_ucast_iff
      by (auto dest: b)
  qed
qed

lemma framed_crc_tail:
  assumes "reg24 s"
  shows "framed_crc (ucast (drop_bit 16 s)) (ucast (drop_bit 8 s)) (ucast s) = s"
  using enter_crc_tail [OF assms] by (simp only: framed_crc_enter crc_tail_def)

lemma xor_eq_0: "a XOR b = 0 \<longleftrightarrow> a = (b :: u32)"
proof
  assume "a XOR b = 0"
  then have "(a XOR b) XOR b = b" by simp
  then show "a = b" by (simp only: xor.assoc xor_self_eq xor.right_neutral)
qed simp

lemma crc24q_codeword:
  "crc24q (data @ [b0, b1, b2]) = 0 \<longleftrightarrow> crc24q data = framed_crc b0 b1 b2"
proof -
  let ?t = "bits_of_bytes [b0, b1, b2]" and ?s = "crc24q data"
  have r: "reg24 ?s" by (simp add: crc24q_feed reg24_feed)
  have "crc24q (data @ [b0, b1, b2]) = feed ?t ?s"
    by (simp add: crc24q_feed)
  also have "\<dots> = (crc_shift ^^ length ?t) (?s XOR enter ?t)"
    by (rule feed_enter) simp
  finally have "crc24q (data @ [b0, b1, b2]) = 0 \<longleftrightarrow> ?s XOR enter ?t = 0"
    using crc_shift_pow_nonzero [of "?s XOR enter ?t" "length ?t"] reg24_simps(3) [OF r reg24_enter]
      crc_shift_pow_zero [of "length ?t"]
    by metis
  also have "\<dots> \<longleftrightarrow> ?s = enter ?t"
    by (rule xor_eq_0)
  finally show ?thesis by (simp only: framed_crc_enter)
qed

end
