(* ===== verification/Rtcm_Framing.thy ===== *)
theory Rtcm_Framing
  imports Rtcm_Crc
begin

text \<open>
  The RTCM 3 transport frame of \<^verbatim>\<open>rtcm/framing.rs\<close>: encoding and decoding of one
  frame, and the scanner that finds the frames of a byte buffer.  The scanner is
  the loop of \<^verbatim>\<open>Iterator::next\<close>; it ends because every step moves the position on.
  The theory shows the two round trips of a frame, that a frame damaged by a
  short burst is refused, and that the scanner accounts for every byte.
\<close>

unbundle bit_operations_syntax

section \<open>Frames\<close>

definition PREAMBLE :: u8 where
  "PREAMBLE = 0xD3"

definition MAX_BODY_LEN :: nat where
  "MAX_BODY_LEN = 0x3FF"

definition FRAME_OVERHEAD :: nat where
  "FRAME_OVERHEAD = 6"

definition MAX_RESERVED :: u8 where
  "MAX_RESERVED = 0x3F"

record decoded_frame =
  df_body :: "u8 list"
  df_frame_len :: nat
  df_reserved :: u8

definition frame_header :: "nat \<Rightarrow> u8 \<Rightarrow> u8 list" where
  "frame_header n reserved =
     (let len = word_of_nat n :: u16
      in [PREAMBLE, push_bit 2 reserved OR (ucast (drop_bit 8 len) AND 0x03), ucast (len AND 0xFF)])"

definition encode_frame_with_reserved :: "u8 list \<Rightarrow> u8 \<Rightarrow> rtcm_encode_error + u8 list" where
  "encode_frame_with_reserved body reserved =
     (if length body > MAX_BODY_LEN then Inl (FrameBodyTooLong (length body))
      else if reserved > MAX_RESERVED then Inl (FrameReservedOutOfRange reserved)
      else
        let out = frame_header (length body) reserved @ body
        in Inr (out @ crc_tail (crc24q out)))"

definition encode_frame :: "u8 list \<Rightarrow> rtcm_encode_error + u8 list" where
  "encode_frame body = encode_frame_with_reserved body 0"

text \<open>The body length the two bytes after the preamble declare.\<close>

definition declared_len :: "u8 list \<Rightarrow> nat" where
  "declared_len bytes = push_bit 8 (unat (bytes ! 1 AND 0x03)) OR unat (bytes ! 2)"

definition frame_crcs :: "u8 list \<Rightarrow> nat \<Rightarrow> u32 \<times> u32" where
  "frame_crcs bytes len =
     (crc24q (take (3 + len) bytes),
      framed_crc (bytes ! (3 + len)) (bytes ! (3 + len + 1)) (bytes ! (3 + len + 2)))"

definition decode_frame :: "u8 list \<Rightarrow> rust_error + decoded_frame" where
  "decode_frame bytes =
     (if length bytes < FRAME_OVERHEAD
      then Inl (Parse (''RTCM frame too short: '' @ dec (length bytes) @
                       '' bytes, need at least '' @ dec FRAME_OVERHEAD))
      else if bytes ! 0 \<noteq> PREAMBLE
      then Inl (Parse (''RTCM frame missing 0xD3 preamble (found '' @
                       hex_alt 4 (unat (bytes ! 0)) @ '')''))
      else
        let len = declared_len bytes; total = 3 + len + 3
        in if length bytes < total
           then Inl (Parse (''RTCM frame truncated: declares '' @ dec len @
                            ''-byte body needing '' @ dec total @ '' bytes, have '' @
                            dec (length bytes)))
           else
             let (crc_computed, crc_framed) = frame_crcs bytes len
             in if crc_computed \<noteq> crc_framed
                then Inl (Parse (''RTCM CRC-24Q mismatch: computed '' @
                                 hex_alt 8 (unat crc_computed) @ '', frame carries '' @
                                 hex_alt 8 (unat crc_framed)))
                else Inr \<lparr>df_body = take len (drop 3 bytes),
                          df_frame_len = total,
                          df_reserved = drop_bit 2 (bytes ! 1)\<rparr>)"

definition frame_fails_crc :: "u8 list \<Rightarrow> bool" where
  "frame_fails_crc bytes =
     (if length bytes < FRAME_OVERHEAD \<or> bytes ! 0 \<noteq> PREAMBLE then False
      else
        let len = declared_len bytes; total = 3 + len + 3
        in if length bytes < total then False
           else let (computed, framed) = frame_crcs bytes len in computed \<noteq> framed)"

section \<open>Headers\<close>

lemma header_masks: "(3 :: u8) = mask 2" "(0xFF :: u16) = mask 8"
  by (simp_all add: mask_eq_exp_minus_1)

lemma bit_less_1024: "n \<le> MAX_BODY_LEN \<Longrightarrow> bit n k \<Longrightarrow> k < 10"
proof (rule ccontr)
  assume n: "n \<le> MAX_BODY_LEN" and b: "bit n k" and "\<not> k < 10"
  then have "(2::nat) ^ 10 \<le> 2 ^ k" by (intro power_increasing) auto
  with n have "n < 2 ^ k" by (simp add: MAX_BODY_LEN_def)
  then have "take_bit k n = n" by (simp add: take_bit_nat_eq_self_iff)
  with b show False by (metis bit_take_bit_iff order_less_irrefl)
qed

lemma declared_len_header:
  assumes "n \<le> MAX_BODY_LEN"
  shows "declared_len (frame_header n reserved @ rest) = n"
proof (rule bit_eqI)
  fix k
  show "bit (declared_len (frame_header n reserved @ rest)) k = bit n k"
    using bit_less_1024 [OF assms, of k]
    unfolding declared_len_def frame_header_def Let_def header_masks
    by (auto simp: bit_or_iff bit_push_bit_iff bit_unsigned_iff bit_and_iff bit_mask_iff
        bit_drop_bit_eq bit_of_nat_iff)
qed


lemma reserved_header:
  assumes "reserved \<le> MAX_RESERVED"
  shows "drop_bit 2 ((frame_header n reserved @ rest) ! 1) = reserved"
proof (rule bit_word_eqI)
  fix k assume k: "k < LENGTH(8)"
  have "fits_u 6 reserved" using assms by (simp add: fits_u_def MAX_RESERVED_def word_le_nat_alt)
  then have "take_bit 6 reserved = reserved" by (simp add: take_bit_eq_iff_fits)
  then have "bit reserved k \<Longrightarrow> k < 6" by (metis bit_take_bit_iff)
  with k show "bit (drop_bit 2 ((frame_header n reserved @ rest) ! 1)) k = bit reserved k"
    unfolding frame_header_def Let_def header_masks
    by (auto simp: bit_or_iff bit_push_bit_iff bit_and_iff bit_mask_iff bit_drop_bit_eq)
qed

lemma frame_header_length [simp]: "length (frame_header n reserved) = 3"
  by (simp add: frame_header_def Let_def)

lemma frame_header_preamble [simp]: "(frame_header n reserved @ rest) ! 0 = PREAMBLE"
  by (simp add: frame_header_def Let_def)

lemma declared_len_le: "declared_len bytes \<le> MAX_BODY_LEN"
proof -
  have "bit (declared_len bytes) k \<Longrightarrow> k < 10" for k
    unfolding declared_len_def header_masks
    by (auto simp: bit_or_iff bit_push_bit_iff bit_unsigned_iff bit_and_iff bit_mask_iff
        dest: bit_imp_le_length)
  then have "take_bit 10 (declared_len bytes) = declared_len bytes"
    by (intro bit_eqI) (auto simp: bit_take_bit_iff)
  then have "declared_len bytes < 2 ^ 10"
    by (simp add: take_bit_nat_eq_self_iff)
  then show ?thesis by (simp add: MAX_BODY_LEN_def)
qed

text \<open>The header of a frame is determined by what its decoder reads from it.\<close>

lemma header_of_bytes:
  assumes "3 \<le> length bytes" and "bytes ! 0 = PREAMBLE"
  shows "frame_header (declared_len bytes) (drop_bit 2 (bytes ! 1)) = take 3 bytes"
    and "drop_bit 2 (bytes ! 1) \<le> MAX_RESERVED"
proof -
  have l8: "bit (b :: u8) j \<Longrightarrow> j < 8" for b j
    by (drule bit_imp_le_length) simp
  let ?len = "word_of_nat (declared_len bytes) :: u16"
  have len: "bit ?len k \<longleftrightarrow> k < 16 \<and> (8 \<le> k \<and> k < 10 \<and> bit (bytes ! 1) (k - 8) \<or> bit (bytes ! 2) k)"
    for k
    unfolding declared_len_def header_masks
    by (auto simp: bit_of_nat_iff bit_or_iff bit_push_bit_iff bit_unsigned_iff bit_and_iff
        bit_mask_iff dest: l8)
  have h1: "push_bit 2 (drop_bit 2 (bytes ! 1)) OR (ucast (drop_bit 8 ?len) AND 3) = bytes ! 1"
    unfolding header_masks
  proof (rule bit_word_eqI)
    fix k assume "k < LENGTH(8)"
    moreover have "2 \<le> k \<Longrightarrow> Suc (Suc (k - 2)) = k" by simp
    ultimately show "bit (push_bit 2 (drop_bit 2 (bytes ! 1)) OR (ucast (drop_bit 8 ?len) AND mask 2)) k
        = bit (bytes ! 1) k"
      by (cases "k < 2") (auto simp: bit_or_iff bit_push_bit_iff bit_and_iff bit_mask_iff bit_drop_bit_eq
          bit_ucast_iff len dest: l8)
  qed
  have h2: "ucast (?len AND 0xFF) = bytes ! 2"
    unfolding header_masks
    by (rule bit_word_eqI) (auto simp: bit_ucast_iff bit_and_iff bit_mask_iff len dest: l8)
  have "take 3 bytes = [bytes ! 0, bytes ! 1, bytes ! 2]"
    using assms(1) by (cases bytes; cases "tl bytes"; cases "tl (tl bytes)") auto
  then show "frame_header (declared_len bytes) (drop_bit 2 (bytes ! 1)) = take 3 bytes"
    using assms(2) h1 h2 by (simp add: frame_header_def Let_def)
  have "unat (drop_bit 2 (bytes ! 1)) = unat (bytes ! 1) div 4"
    by (simp only: unat_drop_bit_eq) (simp add: drop_bit_eq_div)
  moreover have "unat (bytes ! 1) < 2 ^ LENGTH(8)" by (rule unsigned_less)
  ultimately show "drop_bit 2 (bytes ! 1) \<le> MAX_RESERVED"
    by (simp add: MAX_RESERVED_def word_le_nat_alt)
qed

section \<open>Round trips of a frame\<close>

lemma enter_inj:
  assumes "enter as = enter bs" and "length as = length bs" and "length bs \<le> 24"
  shows "as = bs"
proof (rule nth_equalityI)
  fix i assume "i < length as"
  moreover from this have "23 - (23 - i) = i" using assms(2,3) by simp
  ultimately show "as ! i = bs ! i"
    using arg_cong [OF assms(1), of "\<lambda>w. bit w (23 - i)"] assms(2) by (simp add: bit_enter)
qed (rule assms(2))

lemma crc_tail_framed: "crc_tail (framed_crc b0 b1 b2) = [b0, b1, b2]"
proof -
  let ?s = "framed_crc b0 b1 b2"
  have "enter (bits_of_bytes (crc_tail ?s)) = enter (bits_of_bytes [b0, b1, b2])"
    using enter_crc_tail [of ?s] by (simp only: framed_crc_enter reg24_enter)
  then have "bits_of_bytes (crc_tail ?s) = bits_of_bytes [b0, b1, b2]"
    by (rule enter_inj) (simp_all add: crc_tail_def)
  then show ?thesis by (rule bits_of_bytes_inj)
qed

lemma reg24_crc24q: "reg24 (crc24q data)"
  by (simp add: crc24q_feed reg24_feed)

lemma frame_crcs_append:
  assumes "length out = 3 + len"
  shows "frame_crcs (out @ [b0, b1, b2] @ rest) len = (crc24q out, framed_crc b0 b1 b2)"
  using assms by (simp add: frame_crcs_def nth_append)

lemma decode_frame_encode:
  assumes "encode_frame_with_reserved body reserved = Inr frame"
  shows "decode_frame (frame @ rest)
      = Inr \<lparr>df_body = body, df_frame_len = length frame, df_reserved = reserved\<rparr>"
    and "length frame = length body + FRAME_OVERHEAD"
proof -
  let ?out = "frame_header (length body) reserved @ body"
  from assms have le: "length body \<le> MAX_BODY_LEN" "reserved \<le> MAX_RESERVED"
    and frame: "frame = ?out @ crc_tail (crc24q ?out)"
    by (auto simp: encode_frame_with_reserved_def Let_def not_less split: if_splits)
  from frame show len: "length frame = length body + FRAME_OVERHEAD"
    by (simp add: crc_tail_def FRAME_OVERHEAD_def)
  let ?all = "frame_header (length body) reserved @ body @ crc_tail (crc24q ?out) @ rest"
  have d: "declared_len ?all = length body" by (rule declared_len_header [OF le(1)])
  have c: "frame_crcs ?all (length body) = (crc24q ?out, crc24q ?out)"
    using frame_crcs_append [of ?out "length body"] framed_crc_tail [OF reg24_crc24q]
    by (simp add: crc_tail_def)
  have r: "drop_bit 2 (?all ! 1) = reserved" by (rule reserved_header [OF le(2)])
  have p: "?all ! 0 = PREAMBLE" by (rule frame_header_preamble)
  have n: "\<not> length ?all < FRAME_OVERHEAD" "\<not> length ?all < 3 + length body + 3"
    by (simp_all add: crc_tail_def FRAME_OVERHEAD_def)
  have "decode_frame ?all
      = Inr \<lparr>df_body = body, df_frame_len = 3 + length body + 3, df_reserved = reserved\<rparr>"
    unfolding decode_frame_def Let_def d c r p using n by simp
  then show "decode_frame (frame @ rest)
      = Inr \<lparr>df_body = body, df_frame_len = length frame, df_reserved = reserved\<rparr>"
    using len by (simp add: frame FRAME_OVERHEAD_def)
qed

lemma decode_frame_Inr:
  assumes "decode_frame bytes = Inr f"
  shows "df_frame_len f = length (df_body f) + FRAME_OVERHEAD"
    and "df_frame_len f \<le> length bytes" and "bytes ! 0 = PREAMBLE"
    and "encode_frame_with_reserved (df_body f) (df_reserved f) = Inr (take (df_frame_len f) bytes)"
proof -
  let ?n = "declared_len bytes"
  from assms have len: "3 + ?n + 3 \<le> length bytes" and p: "bytes ! 0 = PREAMBLE"
    and crc: "fst (frame_crcs bytes ?n) = snd (frame_crcs bytes ?n)"
    and f: "f = \<lparr>df_body = take ?n (drop 3 bytes), df_frame_len = 3 + ?n + 3,
                df_reserved = drop_bit 2 (bytes ! 1)\<rparr>"
    by (auto simp: decode_frame_def Let_def split: if_splits prod.splits)
  have b: "length (df_body f) = ?n" using len by (simp add: f)
  then show "df_frame_len f = length (df_body f) + FRAME_OVERHEAD"
    by (simp add: f FRAME_OVERHEAD_def)
  show "df_frame_len f \<le> length bytes" using len by (simp add: f)
  show "bytes ! 0 = PREAMBLE" by (rule p)
  have h: "frame_header ?n (drop_bit 2 (bytes ! 1)) = take 3 bytes"
    "drop_bit 2 (bytes ! 1) \<le> MAX_RESERVED"
    using header_of_bytes [of bytes] len p by auto
  have out: "frame_header ?n (df_reserved f) @ df_body f = take (3 + ?n) bytes"
    using h(1) by (simp add: f take_add)
  let ?k = "3 + ?n"
  have tail: "take (?k + 3) bytes = take ?k bytes @ [bytes ! ?k, bytes ! (?k + 1), bytes ! (?k + 2)]"
    using len by (simp add: take_Suc_conv_app_nth numeral_3_eq_3)
  have "crc24q (take ?k bytes) = framed_crc (bytes ! ?k) (bytes ! (?k + 1)) (bytes ! (?k + 2))"
    using crc by (simp only: frame_crcs_def fst_conv snd_conv)
  then have "crc_tail (crc24q (take ?k bytes)) = [bytes ! ?k, bytes ! (?k + 1), bytes ! (?k + 2)]"
    by (simp only: crc_tail_framed)
  with out tail b h(2) declared_len_le [of bytes]
  show "encode_frame_with_reserved (df_body f) (df_reserved f) = Inr (take (df_frame_len f) bytes)"
    by (simp add: encode_frame_with_reserved_def Let_def f)
qed


text \<open>A frame whose header is intact and that differs by a short burst is not accepted.\<close>

lemma decode_frame_zero:
  assumes "decode_frame bytes = Inr f"
  shows "crc24q (take (3 + declared_len bytes + 3) bytes) = 0"
proof -
  let ?k = "3 + declared_len bytes"
  from assms have len: "?k + 3 \<le> length bytes"
    and crc: "crc24q (take ?k bytes) = framed_crc (bytes ! ?k) (bytes ! (?k + 1)) (bytes ! (?k + 2))"
    by (auto simp: decode_frame_def Let_def frame_crcs_def split: if_splits)
  have "take (?k + 3) bytes = take ?k bytes @ [bytes ! ?k, bytes ! (?k + 1), bytes ! (?k + 2)]"
    using len by (simp add: take_Suc_conv_app_nth numeral_3_eq_3)
  then show ?thesis using crc by (simp only: crc24q_codeword)
qed

lemma burst_rejected:
  assumes frame: "encode_frame_with_reserved body reserved = Inr frame"
    and header: "take 3 bad = take 3 frame" and len: "length bad = length frame"
    and burst: "xor_bits (bits_of_bytes frame) (bits_of_bytes bad)
                  = replicate i False @ burst @ replicate j False"
      "length burst \<le> 24" "list_ex (\<lambda>b. b) burst"
  shows "\<exists>e. decode_frame bad = Inl e"
proof (rule ccontr)
  assume "\<nexists>e. decode_frame bad = Inl e"
  then obtain f where f: "decode_frame bad = Inr f" by (cases "decode_frame bad") auto
  from decode_frame_encode(1) [OF frame, of "[]"] decode_frame_encode(2) [OF frame] have d: "decode_frame frame = Inr
      \<lparr>df_body = body, df_frame_len = length frame, df_reserved = reserved\<rparr>"
    and n: "length frame = length body + FRAME_OVERHEAD" by simp_all
  have "bad ! 1 = take 3 bad ! 1" "bad ! 2 = take 3 bad ! 2"
    "frame ! 1 = take 3 frame ! 1" "frame ! 2 = take 3 frame ! 2" by simp_all
  then have same: "declared_len bad = declared_len frame"
    using header by (simp only: declared_len_def)
  have l: "3 + declared_len frame + 3 = length frame"
    using d by (auto simp: decode_frame_def Let_def split: if_splits prod.splits)
  have "crc24q bad = 0"
    using decode_frame_zero [OF f] same l len by simp
  moreover have "crc24q frame = 0"
    using decode_frame_zero [OF d] l by simp
  ultimately show False
    using crc24q_burst [OF len [symmetric] burst] by simp
qed

section \<open>The scanner\<close>

record frame_scanner =
  fs_bytes :: "u8 list"
  fs_pos :: nat
  fs_resync_bytes :: nat
  fs_crc_failures :: nat

definition scanner_new :: "u8 list \<Rightarrow> frame_scanner" where
  "scanner_new bytes = \<lparr>fs_bytes = bytes, fs_pos = 0, fs_resync_bytes = 0, fs_crc_failures = 0\<rparr>"

text \<open>One step past a byte that starts no frame.\<close>

definition scanner_skip :: "frame_scanner \<Rightarrow> frame_scanner" where
  "scanner_skip s = s\<lparr>fs_pos := fs_pos s + 1, fs_resync_bytes := fs_resync_bytes s + 1\<rparr>"

function scanner_next :: "frame_scanner \<Rightarrow> decoded_frame option \<times> frame_scanner" where
  "scanner_next s =
     (if fs_pos s < length (fs_bytes s)
      then
        if fs_bytes s ! fs_pos s \<noteq> PREAMBLE then scanner_next (scanner_skip s)
        else
          let here = drop (fs_pos s) (fs_bytes s)
          in case decode_frame here of
               Inr frame \<Rightarrow> (Some frame, s\<lparr>fs_pos := fs_pos s + df_frame_len frame\<rparr>)
             | Inl _ \<Rightarrow>
                 let s' = (if frame_fails_crc here
                           then s\<lparr>fs_crc_failures := fs_crc_failures s + 1\<rparr> else s)
                 in scanner_next (scanner_skip s')
      else (None, s))"
  by pat_completeness auto
termination
  by (relation "measure (\<lambda>s. length (fs_bytes s) - fs_pos s)")
    (auto simp: scanner_skip_def split: if_splits)

declare scanner_next.simps [simp del]

text \<open>
  What one call of the scanner does: it passes over some bytes, counted in
  \<^verbatim>\<open>resync_bytes\<close>, and stops behind a frame that decodes or at the end.
\<close>

definition scanned :: "frame_scanner \<Rightarrow> decoded_frame option \<Rightarrow> frame_scanner \<Rightarrow> bool" where
  "scanned s r s' \<longleftrightarrow>
     fs_bytes s' = fs_bytes s \<and> fs_pos s' \<le> length (fs_bytes s)
     \<and> (\<exists>skipped. fs_resync_bytes s' = fs_resync_bytes s + skipped
         \<and> (case r of
              None \<Rightarrow> fs_pos s' = fs_pos s + skipped \<and> fs_pos s' = length (fs_bytes s)
            | Some f \<Rightarrow> fs_pos s' = fs_pos s + skipped + df_frame_len f \<and> 0 < df_frame_len f
                \<and> decode_frame (drop (fs_pos s + skipped) (fs_bytes s)) = Inr f))"

lemma scanned_skip:
  assumes "scanned (scanner_skip t) r s'" and "fs_bytes t = fs_bytes s" and "fs_pos t = fs_pos s"
    and "fs_resync_bytes t = fs_resync_bytes s"
  shows "scanned s r s'"
proof (cases r)
  case None
  from assms(1) None obtain k where "fs_resync_bytes s' = Suc (fs_resync_bytes t + k)"
    "fs_pos s' = Suc (fs_pos t + k)" "fs_pos s' = length (fs_bytes t)" "fs_bytes s' = fs_bytes t"
    by (auto simp: scanned_def scanner_skip_def)
  with None assms(2-) show ?thesis
    unfolding scanned_def by (auto intro!: exI [of _ "Suc k"])
next
  case (Some f)
  from assms(1) Some obtain k where "fs_resync_bytes s' = Suc (fs_resync_bytes t + k)"
    "fs_pos s' = Suc (fs_pos t + k + df_frame_len f)" "0 < df_frame_len f"
    "decode_frame (drop (Suc (fs_pos t + k)) (fs_bytes t)) = Inr f"
    "fs_pos s' \<le> length (fs_bytes t)" "fs_bytes s' = fs_bytes t"
    by (auto simp: scanned_def scanner_skip_def)
  with Some assms(2-) show ?thesis
    unfolding scanned_def by (auto intro!: exI [of _ "Suc k"])
qed

lemma scanner_next_scanned:
  "fs_pos s \<le> length (fs_bytes s) \<Longrightarrow> scanner_next s = (r, s') \<Longrightarrow> scanned s r s'"
proof (induction s rule: scanner_next.induct)
  case (1 s)
  let ?here = "drop (fs_pos s) (fs_bytes s)"
  let ?t = "if frame_fails_crc ?here then s\<lparr>fs_crc_failures := fs_crc_failures s + 1\<rparr> else s"
  show ?case
  proof (cases "fs_pos s < length (fs_bytes s)")
    case False
    with "1.prems" show ?thesis
      by (auto simp: scanner_next.simps [of s] scanned_def)
  next
    case in_range: True
    show ?thesis
    proof (cases "fs_bytes s ! fs_pos s = PREAMBLE")
      case False
      then have "scanner_next (scanner_skip s) = (r, s')"
        using "1.prems" in_range by (simp add: scanner_next.simps [of s])
      with False in_range have "scanned (scanner_skip s) r s'"
        by (intro "1.IH"(1)) (auto simp: scanner_skip_def)
      then show ?thesis by (rule scanned_skip) simp_all
    next
      case pre: True
      show ?thesis
      proof (cases "decode_frame ?here")
        case (Inr f)
        with "1.prems" in_range pre have "r = Some f" "s' = s\<lparr>fs_pos := fs_pos s + df_frame_len f\<rparr>"
          by (auto simp: scanner_next.simps [of s])
        with decode_frame_Inr(1,2) [OF Inr] Inr in_range show ?thesis
          unfolding scanned_def
          by (intro conjI exI [of _ 0]) (auto simp: FRAME_OVERHEAD_def)
      next
        case (Inl e)
        then have "scanner_next (scanner_skip ?t) = (r, s')"
          using "1.prems" in_range pre by (simp add: scanner_next.simps [of s] Let_def)
        with in_range pre Inl have "scanned (scanner_skip ?t) r s'"
          by (intro "1.IH"(2)) (auto simp: scanner_skip_def)
        then show ?thesis by (rule scanned_skip) simp_all
      qed
    qed
  qed
qed

text \<open>The frames a \<^verbatim>\<open>for\<close> loop over the scanner sees, and the scanner after it.\<close>

lemma scanner_next_Some:
  assumes "scanner_next s = (Some f, s')"
  shows "fs_pos s < length (fs_bytes s)" and "fs_bytes s' = fs_bytes s" and "fs_pos s < fs_pos s'"
proof -
  show lt: "fs_pos s < length (fs_bytes s)"
    using assms by (rule contrapos_pp) (simp add: scanner_next.simps [of s])
  with scanner_next_scanned [OF _ assms] show "fs_bytes s' = fs_bytes s" "fs_pos s < fs_pos s'"
    by (auto simp: scanned_def)
qed

function scan_all :: "frame_scanner \<Rightarrow> decoded_frame list \<times> frame_scanner" where
  "scan_all s =
     (case scanner_next s of
        (None, s') \<Rightarrow> ([], s')
      | (Some f, s') \<Rightarrow> (let (fs, s'') = scan_all s' in (f # fs, s'')))"
  by pat_completeness auto
termination
proof (relation "measure (\<lambda>s. length (fs_bytes s) - fs_pos s)", goal_cases)
  case (2 s r t f)
  with scanner_next_Some [of s f t] show ?case by auto
qed simp

declare scan_all.simps [simp del]

lemma scan_all_accounts:
  "scan_all s = (fs, s') \<Longrightarrow> fs_pos s \<le> length (fs_bytes s) \<Longrightarrow>
     \<exists>skipped. fs_resync_bytes s' = fs_resync_bytes s + skipped
       \<and> fs_pos s + sum_list (map df_frame_len fs) + skipped = length (fs_bytes s)"
proof (induction s arbitrary: fs s' rule: scan_all.induct)
  case (1 s)
  obtain r t where n: "scanner_next s = (r, t)" by fastforce
  note sc = scanner_next_scanned [OF "1.prems"(2) n]
  show ?case
  proof (cases r)
    case None
    with n "1.prems" sc show ?thesis by (auto simp: scan_all.simps [of s] scanned_def)
  next
    case (Some f)
    with n "1.prems" obtain fs' where rest: "scan_all t = (fs', s')" and fs: "fs = f # fs'"
      by (auto simp: scan_all.simps [of s] split: prod.splits)
    have "fs_pos t \<le> length (fs_bytes t)" using sc by (auto simp: scanned_def)
    from "1.IH" [OF n [symmetric] Some rest this] sc Some fs show ?thesis
      by (auto simp: scanned_def)
  qed
qed

text \<open>Every frame the loop sees is a frame of the buffer, in order and without overlap.\<close>

fun frames_in :: "u8 list \<Rightarrow> nat \<Rightarrow> decoded_frame list \<Rightarrow> bool" where
  "frames_in bytes pos [] \<longleftrightarrow> True"
| "frames_in bytes pos (f # fs) \<longleftrightarrow>
     (\<exists>at. pos \<le> at \<and> decode_frame (drop at bytes) = Inr f
        \<and> frames_in bytes (at + df_frame_len f) fs)"

lemma scan_all_frames_in:
  "scan_all s = (fs, s') \<Longrightarrow> fs_pos s \<le> length (fs_bytes s) \<Longrightarrow> frames_in (fs_bytes s) (fs_pos s) fs"
proof (induction s arbitrary: fs s' rule: scan_all.induct)
  case (1 s)
  obtain r t where n: "scanner_next s = (r, t)" by fastforce
  note sc = scanner_next_scanned [OF "1.prems"(2) n]
  show ?case
  proof (cases r)
    case None
    with n "1.prems" show ?thesis by (auto simp: scan_all.simps [of s])
  next
    case (Some f)
    with n "1.prems" obtain fs' where rest: "scan_all t = (fs', s')" and fs: "fs = f # fs'"
      by (auto simp: scan_all.simps [of s] split: prod.splits)
    have "fs_pos t \<le> length (fs_bytes t)" using sc by (auto simp: scanned_def)
    from "1.IH" [OF n [symmetric] Some rest this] sc Some fs show ?thesis
      by (auto simp: scanned_def intro: exI [of _ "fs_pos s + _"])
  qed
qed

text \<open>A buffer of whole frames: every frame is seen and no byte is passed over.\<close>

definition framed_with :: "u8 list \<times> u8 \<Rightarrow> u8 list \<Rightarrow> bool" where
  "framed_with m frame \<longleftrightarrow> encode_frame_with_reserved (fst m) (snd m) = Inr frame"

definition as_decoded :: "u8 list \<times> u8 \<Rightarrow> decoded_frame" where
  "as_decoded m = \<lparr>df_body = fst m, df_frame_len = length (fst m) + FRAME_OVERHEAD,
                   df_reserved = snd m\<rparr>"

lemma scanner_next_frame:
  assumes "framed_with m frame" and "drop (fs_pos s) (fs_bytes s) = frame @ rest"
  shows "scanner_next s = (Some (as_decoded m), s\<lparr>fs_pos := fs_pos s + length frame\<rparr>)"
proof -
  note d = decode_frame_encode [OF assms(1) [unfolded framed_with_def]]
  have "0 < length frame" using d(2) by (simp add: FRAME_OVERHEAD_def)
  then have lt: "fs_pos s < length (fs_bytes s)"
    using arg_cong [OF assms(2), of length] by (auto simp: not_less intro: ccontr)
  have "fs_bytes s ! fs_pos s = (frame @ rest) ! 0"
    using lt assms(2) by (metis hd_drop_conv_nth hd_conv_nth Cons_nth_drop_Suc list.distinct(1))
  also have "\<dots> = PREAMBLE" using decode_frame_Inr(3) [OF d(1)] .
  finally show ?thesis
    using lt d by (simp add: scanner_next.simps [of s] assms(2) as_decoded_def)
qed

lemma scan_all_frames:
  assumes "list_all2 framed_with ms frames" and "drop (fs_pos s) (fs_bytes s) = concat frames"
    and "fs_pos s \<le> length (fs_bytes s)"
  shows "scan_all s = (map as_decoded ms, s\<lparr>fs_pos := length (fs_bytes s)\<rparr>)"
  using assms
proof (induction ms frames arbitrary: s rule: list_all2_induct)
  case Nil
  then have "fs_pos s = length (fs_bytes s)" by simp
  then show ?case by (simp add: scan_all.simps [of s] scanner_next.simps [of s])
next
  case (Cons m ms frame frames)
  let ?t = "s\<lparr>fs_pos := fs_pos s + length frame\<rparr>"
  have n: "scanner_next s = (Some (as_decoded m), ?t)"
    using Cons.hyps(1) Cons.prems(1) by (intro scanner_next_frame [of _ _ _ "concat frames"]) simp_all
  have "drop (fs_pos ?t) (fs_bytes ?t) = concat frames"
    using Cons.prems(1) by (simp add: add.commute flip: drop_drop)
  moreover have "fs_pos ?t \<le> length (fs_bytes ?t)"
    using arg_cong [OF Cons.prems(1), of length] Cons.prems(2) by simp
  ultimately have "scan_all ?t = (map as_decoded ms, ?t\<lparr>fs_pos := length (fs_bytes ?t)\<rparr>)"
    by (rule Cons.IH)
  then show ?case by (simp add: scan_all.simps [of s] n)
qed

end
