(* ===== verification/Rtcm_Message.thy ===== *)
theory Rtcm_Message
  imports Rtcm_Station Rtcm_Network Rtcm_Legacy Rtcm_Ephemeris Rtcm_Msm_Codec Rtcm_Transformation
    Rtcm_Ssr_Codec Rtcm_Vtec Rtcm_Framing
begin

text \<open>
  The message IR of \<^verbatim>\<open>rtcm/mod.rs\<close>: \<^verbatim>\<open>Message\<close> with its variants, the dispatch of a
  body on its message number, the encoder of every variant and the preserved
  bodies of the numbers the codec does not decode.  The two round trips of the
  whole codec are proved here from the contracts of the message types.
\<close>

section \<open>Messages\<close>

record unsupported_message =
  um_message_number :: u16
  um_body :: "u8 list"

datatype (plugins only: code) message =
    Msm msm_message
  | LegacyObservations legacy_observations
  | StationCoordinates station_coordinates
  | AntennaDescriptor antenna_descriptor
  | SystemParameters system_parameters
  | Text text_message
  | NetworkAuxiliaryStation network_auxiliary_station
  | NetworkCorrectionDifferences network_correction_differences
  | HelmertTransformation helmert_transformation
  | ResidualGrid residual_grid
  | Projection projection
  | NetworkResiduals network_residuals
  | PhysicalReferenceStation physical_reference_station
  | FkpGradients fkp_gradients
  | GpsEphemeris gps_ephemeris
  | GlonassEphemeris glonass_ephemeris
  | NavicEphemeris navic_ephemeris
  | BeidouEphemeris beidou_ephemeris
  | QzssEphemeris qzss_ephemeris
  | GalileoFnavEphemeris galileo_fnav_ephemeris
  | GalileoInavEphemeris galileo_inav_ephemeris
  | GlonassCodePhaseBiases glonass_code_phase_biases
  | Ssr ssr_message
  | SsrVtec ssr_vtec_message
  | Unsupported unsupported_message

section \<open>Decoding\<close>

definition in_message ::
  "('a \<Rightarrow> message) \<Rightarrow> decode_error + 'a \<times> decode_context \<Rightarrow> decode_error + message \<times> decode_context" where
  "in_message C d = ebind d (\<lambda>(x, ctx'). Inr (C x, ctx'))"

definition message_decode_inner ::
  "u8 list \<Rightarrow> decode_context \<Rightarrow> decode_error + message \<times> decode_context" where
  "message_decode_inner body ctx =
     ebind (message_number_classified body) (\<lambda>n.
     if n = 1005 \<or> n = 1006 then
       in_message StationCoordinates (decode_body (\<lambda>bits m. m\<lparr>st_trailing_bits := bits\<rparr>) body ctx (no_ctx station_read))
     else if n = 1007 \<or> n = 1008 \<or> n = 1033 then
       in_message AntennaDescriptor (decode_body (\<lambda>bits m. m\<lparr>ad_trailing_bits := bits\<rparr>) body ctx (no_ctx antenna_read))
     else if n = 1013 then
       in_message SystemParameters (system_decode_inner body ctx)
     else if n = 1029 then
       in_message Text (decode_body (\<lambda>bits m. m\<lparr>tm_trailing_bits := bits\<rparr>) body ctx (no_ctx text_read))
     else if n = 1014 then
       in_message NetworkAuxiliaryStation (decode_body (\<lambda>bits m. m\<lparr>na_trailing_bits := bits\<rparr>) body ctx (no_ctx auxiliary_read))
     else if 1015 \<le> n \<and> n \<le> 1017 \<or> 1037 \<le> n \<and> n \<le> 1039 then
       in_message NetworkCorrectionDifferences (differences_decode_inner body ctx)
     else if n = 1021 \<or> n = 1022 then
       in_message HelmertTransformation (decode_body (\<lambda>bits m. m\<lparr>ht_trailing_bits := bits\<rparr>) body ctx (no_ctx helmert_read))
     else if n = 1023 \<or> n = 1024 then
       in_message ResidualGrid (decode_body (\<lambda>bits m. m\<lparr>rg_trailing_bits := bits\<rparr>) body ctx (no_ctx grid_read))
     else if 1025 \<le> n \<and> n \<le> 1027 then
       in_message Projection (decode_body (\<lambda>bits m. m\<lparr>pj_trailing_bits := bits\<rparr>) body ctx (no_ctx projection_read))
     else if n = 1030 \<or> n = 1031 then
       in_message NetworkResiduals (residuals_decode_inner body ctx)
     else if n = 1032 then
       in_message PhysicalReferenceStation (decode_body (\<lambda>bits m. m\<lparr>pr_trailing_bits := bits\<rparr>) body ctx (no_ctx physical_read))
     else if n = 1034 \<or> n = 1035 then
       in_message FkpGradients (fkp_decode_inner body ctx)
     else if n = 1019 then
       in_message GpsEphemeris (decode_body (\<lambda>bits m. m\<lparr>ge_trailing_bits := bits\<rparr>) body ctx (no_ctx gps_read))
     else if n = 1020 then
       in_message GlonassEphemeris (decode_body (\<lambda>bits m. m\<lparr>gl_trailing_bits := bits\<rparr>) body ctx (no_ctx glonass_read))
     else if n = 1041 then
       in_message NavicEphemeris (decode_body (\<lambda>bits m. m\<lparr>ne_trailing_bits := bits\<rparr>) body ctx (no_ctx navic_read))
     else if n = 1042 then
       in_message BeidouEphemeris (decode_body (\<lambda>bits m. m\<lparr>be_trailing_bits := bits\<rparr>) body ctx (no_ctx beidou_read))
     else if n = 1230 then
       in_message GlonassCodePhaseBiases (decode_body (\<lambda>bits m. m\<lparr>gb_trailing_bits := bits\<rparr>) body ctx (no_ctx biases_read))
     else if n = 1044 then
       in_message QzssEphemeris (decode_body (\<lambda>bits m. m\<lparr>qe_trailing_bits := bits\<rparr>) body ctx (no_ctx qzss_read))
     else if n = 1045 then
       in_message GalileoFnavEphemeris (decode_body (\<lambda>bits m. m\<lparr>gf_trailing_bits := bits\<rparr>) body ctx (no_ctx fnav_read))
     else if n = 1046 then
       in_message GalileoInavEphemeris (decode_body (\<lambda>bits m. m\<lparr>gi_trailing_bits := bits\<rparr>) body ctx (no_ctx inav_read))
     else if is_legacy_observation n then
       in_message LegacyObservations (legacy_decode_inner body ctx)
     else if is_supported_msm n then
       in_message Msm (decode_body (\<lambda>bits m. m\<lparr>mm_trailing_bits := bits\<rparr>) body ctx msm_read)
     else if is_supported_ssr n then
       in_message Ssr (ssr_decode_inner body ctx)
     else if is_rtcm_vtec n then
       in_message SsrVtec (decode_body (\<lambda>bits m. m\<lparr>vm_trailing_bits := bits\<rparr>) body ctx vtec_read)
     else if n = IGS_SSR_MESSAGE_NUMBER then
       ebind (igs_ssr_identity body) (\<lambda>(_, subtype).
       if subtype = IGS_SSR_VTEC_SUBTYPE then
         in_message SsrVtec (decode_body (\<lambda>bits m. m\<lparr>vm_trailing_bits := bits\<rparr>) body ctx vtec_read)
       else if igs_ssr_kind subtype \<noteq> None then
         in_message Ssr (ssr_decode_inner body ctx)
       else Inr (Unsupported \<lparr>um_message_number = n, um_body = body\<rparr>, ctx))
     else Inr (Unsupported \<lparr>um_message_number = n, um_body = body\<rparr>, ctx))"

text \<open>\<^verbatim>\<open>From<DecodeError> for Error\<close>, with the texts of \<^verbatim>\<open>OutOfInput\<close> and \<^verbatim>\<open>RtcmDeparture\<close>.\<close>

definition departure_text :: "rtcm_departure \<Rightarrow> string" where
  "departure_text d =
     (case d of
        FrameReservedBits reserved \<Rightarrow>
          ''RTCM frame reserved bits are '' @ hex_alt 4 (unat reserved) @ '', not zero''
      | TrailingBits message_number bits \<Rightarrow>
          ''RTCM '' @ dec_u message_number @ '' carries '' @ dec (length bits) @
          '' bits after its last field'' @ (if length bits < 8 then '', not all zero'' else [])
      | MsmCellMaskOver64 message_number cells \<Rightarrow>
          ''RTCM MSM '' @ dec_u message_number @ '' cell mask is '' @ dec cells @
          '' bits, over the 64 RTCM allows''
      | OrderExceedsDegree message_number layer_index degree order \<Rightarrow>
          ''RTCM '' @ dec_u message_number @ '' VTEC layer '' @ dec layer_index @ '' order '' @
          dec_u order @ '' exceeds degree '' @ dec_u degree
      | SsrRecordsShort message_number declared read \<Rightarrow>
          ''RTCM SSR '' @ dec_u message_number @ '' header counts '' @ dec declared @
          '' satellites, and the body holds '' @ dec read @ '' complete records''
      | RecordsShort message_number declared read \<Rightarrow>
          ''RTCM '' @ dec_u message_number @ '' header counts '' @ dec declared @
          '' records, and the body holds '' @ dec read @ '' complete records'')"

definition error_of :: "decode_error \<Rightarrow> rust_error" where
  "error_of e =
     (case e of
        OutOfInput oi \<Rightarrow>
          Parse (''RTCM body truncated: need '' @ dec (requested_bits oi) @ '' more bits, '' @
                 dec (left_bits oi) @ '' remain'')
      | DecodeFailed error \<Rightarrow> error
      | Departure departure \<Rightarrow>
          Parse (departure_text departure @ '' (refused under the strict policy)''))"

definition message_decode_with_policy ::
  "u8 list \<Rightarrow> rtcm_policy \<Rightarrow> rust_error + message \<times> rtcm_departure list" where
  "message_decode_with_policy body pol =
     (case message_decode_inner body (ctx_new pol) of
        Inl e \<Rightarrow> Inl (error_of e)
      | Inr (m, ctx) \<Rightarrow> Inr (m, departures ctx))"

definition message_decode :: "u8 list \<Rightarrow> rust_error + message" where
  "message_decode body = ebind (message_decode_with_policy body Strict) (\<lambda>(m, _). Inr m)"

text \<open>\<^verbatim>\<open>FrameSkipReason\<close> and the classification of a failed decode.\<close>

datatype frame_skip_reason =
    Truncated
  | Malformed string
  | SkipDeparture rtcm_departure

definition message_decode_classified ::
  "u8 list \<Rightarrow> rtcm_policy \<Rightarrow> frame_skip_reason + message \<times> rtcm_departure list" where
  "message_decode_classified body pol =
     (case message_decode_inner body (ctx_new pol) of
        Inr (m, ctx) \<Rightarrow> Inr (m, departures ctx)
      | Inl (OutOfInput _) \<Rightarrow> Inl Truncated
      | Inl (DecodeFailed (Parse msg)) \<Rightarrow> Inl (Malformed msg)
      | Inl (DecodeFailed other) \<Rightarrow> Inl (Malformed (error_text other))
      | Inl (Departure departure) \<Rightarrow> Inl (SkipDeparture departure))"

section \<open>Encoding\<close>

definition is_decoded_number :: "u16 \<Rightarrow> bool" where
  "is_decoded_number n \<longleftrightarrow>
     1005 \<le> n \<and> n \<le> 1008 \<or> 1013 \<le> n \<and> n \<le> 1017 \<or> n = 1029 \<or> 1021 \<le> n \<and> n \<le> 1027
     \<or> 1030 \<le> n \<and> n \<le> 1035 \<or> 1037 \<le> n \<and> n \<le> 1039 \<or> n = 1019 \<or> n = 1020 \<or> n = 1041
     \<or> n = 1042 \<or> n = 1044 \<or> n = 1045 \<or> n = 1046 \<or> n = 1230
     \<or> is_legacy_observation n \<or> is_supported_msm n \<or> is_supported_ssr n \<or> is_rtcm_vtec n"

definition is_decoded_body :: "u16 \<Rightarrow> u8 list \<Rightarrow> bool" where
  "is_decoded_body number body =
     (if number = IGS_SSR_MESSAGE_NUMBER
      then (case igs_ssr_identity body of
              Inl _ \<Rightarrow> True
            | Inr (_, subtype) \<Rightarrow> subtype = IGS_SSR_VTEC_SUBTYPE \<or> igs_ssr_kind subtype \<noteq> None)
      else is_decoded_number number)"

definition unsupported_encode :: "unsupported_message \<Rightarrow> rtcm_encode_error + u8 list" where
  "unsupported_encode u =
     (case message_number_classified (um_body u) of
        Inl _ \<Rightarrow> Inl (UnsupportedBodyTooShort (um_message_number u))
      | Inr carried \<Rightarrow>
          if carried \<noteq> um_message_number u
          then Inl (UnsupportedBodyNumber (um_message_number u) carried)
          else if is_decoded_body (um_message_number u) (um_body u)
          then Inl (UnsupportedDecodedNumber (um_message_number u))
          else Inr (um_body u))"

definition message_encode_with_policy ::
  "rtcm_policy \<Rightarrow> message \<Rightarrow> rtcm_encode_error + u8 list \<times> rtcm_departure list" where
  "message_encode_with_policy pol msg =
     (case msg of
        Msm m \<Rightarrow> msm_encode_with_policy pol m
      | LegacyObservations m \<Rightarrow> legacy_encode_with_policy pol m
      | StationCoordinates m \<Rightarrow> station_encode_with_policy pol m
      | AntennaDescriptor m \<Rightarrow> antenna_encode_with_policy pol m
      | SystemParameters m \<Rightarrow> system_encode_with_policy pol m
      | Text m \<Rightarrow> text_encode_with_policy pol m
      | NetworkAuxiliaryStation m \<Rightarrow> auxiliary_encode_with_policy pol m
      | NetworkCorrectionDifferences m \<Rightarrow> differences_encode_with_policy pol m
      | HelmertTransformation m \<Rightarrow> helmert_encode_with_policy pol m
      | ResidualGrid m \<Rightarrow> grid_encode_with_policy pol m
      | Projection m \<Rightarrow> projection_encode_with_policy pol m
      | NetworkResiduals m \<Rightarrow> residuals_encode_with_policy pol m
      | PhysicalReferenceStation m \<Rightarrow> physical_encode_with_policy pol m
      | FkpGradients m \<Rightarrow> fkp_encode_with_policy pol m
      | GpsEphemeris m \<Rightarrow> gps_encode_with_policy pol m
      | GlonassEphemeris m \<Rightarrow> glonass_encode_with_policy pol m
      | NavicEphemeris m \<Rightarrow> navic_encode_with_policy pol m
      | BeidouEphemeris m \<Rightarrow> beidou_encode_with_policy pol m
      | QzssEphemeris m \<Rightarrow> qzss_encode_with_policy pol m
      | GalileoFnavEphemeris m \<Rightarrow> fnav_encode_with_policy pol m
      | GalileoInavEphemeris m \<Rightarrow> inav_encode_with_policy pol m
      | GlonassCodePhaseBiases m \<Rightarrow> biases_encode_with_policy pol m
      | Ssr m \<Rightarrow> ssr_encode_with_policy pol m
      | SsrVtec m \<Rightarrow> vtec_encode_with_policy pol m
      | Unsupported u \<Rightarrow> ebind (unsupported_encode u) (\<lambda>body. Inr (body, [])))"

definition message_encode :: "message \<Rightarrow> rtcm_encode_error + u8 list" where
  "message_encode msg = ebind (message_encode_with_policy Strict msg) (\<lambda>(body, _). Inr body)"

definition message_number :: "message \<Rightarrow> u16" where
  "message_number msg =
     (case msg of
        Msm m \<Rightarrow> mm_message_number m
      | LegacyObservations m \<Rightarrow> lo_message_number m
      | StationCoordinates m \<Rightarrow> st_message_number m
      | AntennaDescriptor m \<Rightarrow> ad_message_number m
      | SystemParameters _ \<Rightarrow> 1013
      | Text _ \<Rightarrow> 1029
      | NetworkAuxiliaryStation _ \<Rightarrow> 1014
      | NetworkCorrectionDifferences m \<Rightarrow> nc_message_number m
      | HelmertTransformation m \<Rightarrow> ht_message_number m
      | ResidualGrid m \<Rightarrow> rg_message_number m
      | Projection m \<Rightarrow> projection_message_number m
      | NetworkResiduals m \<Rightarrow> nr_message_number m
      | PhysicalReferenceStation _ \<Rightarrow> 1032
      | FkpGradients m \<Rightarrow> fk_message_number m
      | GpsEphemeris _ \<Rightarrow> 1019
      | GlonassEphemeris _ \<Rightarrow> 1020
      | NavicEphemeris _ \<Rightarrow> 1041
      | BeidouEphemeris _ \<Rightarrow> 1042
      | QzssEphemeris _ \<Rightarrow> 1044
      | GalileoFnavEphemeris _ \<Rightarrow> 1045
      | GalileoInavEphemeris _ \<Rightarrow> 1046
      | GlonassCodePhaseBiases _ \<Rightarrow> 1230
      | Ssr m \<Rightarrow> sm_message_number m
      | SsrVtec m \<Rightarrow> vm_message_number m
      | Unsupported u \<Rightarrow> um_message_number u)"

definition to_frame :: "message \<Rightarrow> rtcm_encode_error + u8 list" where
  "to_frame msg = ebind (message_encode msg) encode_frame"

section \<open>A decoded message encodes to its body\<close>

definition reproduces :: "rtcm_policy \<Rightarrow> u8 list \<Rightarrow> message \<Rightarrow> decode_context \<Rightarrow> bool" where
  "reproduces pol body msg ctx' \<longleftrightarrow>
     message_encode_with_policy pol msg = Inr (body, departures ctx') \<and> policy ctx' = pol
     \<and> message_number_classified body = Inr (message_number msg)"

named_theorems reproduces_intros "decoding a body as one variant"

lemma in_message_Inr:
  "in_message C d = Inr (msg, ctx') \<longleftrightarrow> (\<exists>x. d = Inr (x, ctx') \<and> msg = C x)"
  by (auto simp: in_message_def)

lemma msm_reproduces [reproduces_intros]:
  "in_message Msm (decode_body (\<lambda>bits m. m\<lparr>mm_trailing_bits := bits\<rparr>) body (ctx_new pol) msm_read) = Inr (msg, ctx')
     \<Longrightarrow> reproduces pol body msg ctx'"
  by (auto simp: in_message_Inr reproduces_def message_encode_with_policy_def message_number_def
      dest: msm.encode_decode)

lemma legacy_reproduces [reproduces_intros]:
  "in_message LegacyObservations (legacy_decode_inner body (ctx_new pol)) = Inr (msg, ctx')
     \<Longrightarrow> reproduces pol body msg ctx'"
  by (auto simp: in_message_Inr reproduces_def message_encode_with_policy_def message_number_def
      dest: legacy.encode_decode)

lemma station_reproduces [reproduces_intros]:
  "in_message StationCoordinates (decode_body (\<lambda>bits m. m\<lparr>st_trailing_bits := bits\<rparr>) body (ctx_new pol) (no_ctx station_read)) = Inr (msg, ctx')
     \<Longrightarrow> reproduces pol body msg ctx'"
  by (auto simp: in_message_Inr reproduces_def message_encode_with_policy_def message_number_def
      dest: station.encode_decode)

lemma antenna_reproduces [reproduces_intros]:
  "in_message AntennaDescriptor (decode_body (\<lambda>bits m. m\<lparr>ad_trailing_bits := bits\<rparr>) body (ctx_new pol) (no_ctx antenna_read)) = Inr (msg, ctx')
     \<Longrightarrow> reproduces pol body msg ctx'"
  by (auto simp: in_message_Inr reproduces_def message_encode_with_policy_def message_number_def
      dest: antenna.encode_decode)

lemma system_reproduces [reproduces_intros]:
  "in_message SystemParameters (system_decode_inner body (ctx_new pol)) = Inr (msg, ctx')
     \<Longrightarrow> reproduces pol body msg ctx'"
  by (auto simp: in_message_Inr reproduces_def message_encode_with_policy_def message_number_def
      dest: system.encode_decode)

lemma text_reproduces [reproduces_intros]:
  "in_message Text (decode_body (\<lambda>bits m. m\<lparr>tm_trailing_bits := bits\<rparr>) body (ctx_new pol) (no_ctx text_read)) = Inr (msg, ctx')
     \<Longrightarrow> reproduces pol body msg ctx'"
  by (auto simp: in_message_Inr reproduces_def message_encode_with_policy_def message_number_def
      dest: text_string.encode_decode)

lemma auxiliary_reproduces [reproduces_intros]:
  "in_message NetworkAuxiliaryStation (decode_body (\<lambda>bits m. m\<lparr>na_trailing_bits := bits\<rparr>) body (ctx_new pol) (no_ctx auxiliary_read)) = Inr (msg, ctx')
     \<Longrightarrow> reproduces pol body msg ctx'"
  by (auto simp: in_message_Inr reproduces_def message_encode_with_policy_def message_number_def
      dest: auxiliary.encode_decode)

lemma differences_reproduces [reproduces_intros]:
  "in_message NetworkCorrectionDifferences (differences_decode_inner body (ctx_new pol)) = Inr (msg, ctx')
     \<Longrightarrow> reproduces pol body msg ctx'"
  by (auto simp: in_message_Inr reproduces_def message_encode_with_policy_def message_number_def
      dest: differences.encode_decode)

lemma helmert_reproduces [reproduces_intros]:
  "in_message HelmertTransformation (decode_body (\<lambda>bits m. m\<lparr>ht_trailing_bits := bits\<rparr>) body (ctx_new pol) (no_ctx helmert_read)) = Inr (msg, ctx')
     \<Longrightarrow> reproduces pol body msg ctx'"
  by (auto simp: in_message_Inr reproduces_def message_encode_with_policy_def message_number_def
      dest: helmert.encode_decode)

lemma grid_reproduces [reproduces_intros]:
  "in_message ResidualGrid (decode_body (\<lambda>bits m. m\<lparr>rg_trailing_bits := bits\<rparr>) body (ctx_new pol) (no_ctx grid_read)) = Inr (msg, ctx')
     \<Longrightarrow> reproduces pol body msg ctx'"
  by (auto simp: in_message_Inr reproduces_def message_encode_with_policy_def message_number_def
      dest: grid.encode_decode)

lemma projection_reproduces [reproduces_intros]:
  "in_message Projection (decode_body (\<lambda>bits m. m\<lparr>pj_trailing_bits := bits\<rparr>) body (ctx_new pol) (no_ctx projection_read)) = Inr (msg, ctx')
     \<Longrightarrow> reproduces pol body msg ctx'"
  by (auto simp: in_message_Inr reproduces_def message_encode_with_policy_def message_number_def
      dest: projection.encode_decode)

lemma residuals_reproduces [reproduces_intros]:
  "in_message NetworkResiduals (residuals_decode_inner body (ctx_new pol)) = Inr (msg, ctx')
     \<Longrightarrow> reproduces pol body msg ctx'"
  by (auto simp: in_message_Inr reproduces_def message_encode_with_policy_def message_number_def
      dest: residuals.encode_decode)

lemma physical_reproduces [reproduces_intros]:
  "in_message PhysicalReferenceStation (decode_body (\<lambda>bits m. m\<lparr>pr_trailing_bits := bits\<rparr>) body (ctx_new pol) (no_ctx physical_read)) = Inr (msg, ctx')
     \<Longrightarrow> reproduces pol body msg ctx'"
  by (auto simp: in_message_Inr reproduces_def message_encode_with_policy_def message_number_def
      dest: physical.encode_decode)

lemma fkp_reproduces [reproduces_intros]:
  "in_message FkpGradients (fkp_decode_inner body (ctx_new pol)) = Inr (msg, ctx')
     \<Longrightarrow> reproduces pol body msg ctx'"
  by (auto simp: in_message_Inr reproduces_def message_encode_with_policy_def message_number_def
      dest: fkp.encode_decode)

lemma gps_reproduces [reproduces_intros]:
  "in_message GpsEphemeris (decode_body (\<lambda>bits m. m\<lparr>ge_trailing_bits := bits\<rparr>) body (ctx_new pol) (no_ctx gps_read)) = Inr (msg, ctx')
     \<Longrightarrow> reproduces pol body msg ctx'"
  by (auto simp: in_message_Inr reproduces_def message_encode_with_policy_def message_number_def
      dest: gps.encode_decode)

lemma glonass_reproduces [reproduces_intros]:
  "in_message GlonassEphemeris (decode_body (\<lambda>bits m. m\<lparr>gl_trailing_bits := bits\<rparr>) body (ctx_new pol) (no_ctx glonass_read)) = Inr (msg, ctx')
     \<Longrightarrow> reproduces pol body msg ctx'"
  by (auto simp: in_message_Inr reproduces_def message_encode_with_policy_def message_number_def
      dest: glonass.encode_decode)

lemma navic_reproduces [reproduces_intros]:
  "in_message NavicEphemeris (decode_body (\<lambda>bits m. m\<lparr>ne_trailing_bits := bits\<rparr>) body (ctx_new pol) (no_ctx navic_read)) = Inr (msg, ctx')
     \<Longrightarrow> reproduces pol body msg ctx'"
  by (auto simp: in_message_Inr reproduces_def message_encode_with_policy_def message_number_def
      dest: navic.encode_decode)

lemma beidou_reproduces [reproduces_intros]:
  "in_message BeidouEphemeris (decode_body (\<lambda>bits m. m\<lparr>be_trailing_bits := bits\<rparr>) body (ctx_new pol) (no_ctx beidou_read)) = Inr (msg, ctx')
     \<Longrightarrow> reproduces pol body msg ctx'"
  by (auto simp: in_message_Inr reproduces_def message_encode_with_policy_def message_number_def
      dest: beidou.encode_decode)

lemma qzss_reproduces [reproduces_intros]:
  "in_message QzssEphemeris (decode_body (\<lambda>bits m. m\<lparr>qe_trailing_bits := bits\<rparr>) body (ctx_new pol) (no_ctx qzss_read)) = Inr (msg, ctx')
     \<Longrightarrow> reproduces pol body msg ctx'"
  by (auto simp: in_message_Inr reproduces_def message_encode_with_policy_def message_number_def
      dest: qzss.encode_decode)

lemma fnav_reproduces [reproduces_intros]:
  "in_message GalileoFnavEphemeris (decode_body (\<lambda>bits m. m\<lparr>gf_trailing_bits := bits\<rparr>) body (ctx_new pol) (no_ctx fnav_read)) = Inr (msg, ctx')
     \<Longrightarrow> reproduces pol body msg ctx'"
  by (auto simp: in_message_Inr reproduces_def message_encode_with_policy_def message_number_def
      dest: fnav.encode_decode)

lemma inav_reproduces [reproduces_intros]:
  "in_message GalileoInavEphemeris (decode_body (\<lambda>bits m. m\<lparr>gi_trailing_bits := bits\<rparr>) body (ctx_new pol) (no_ctx inav_read)) = Inr (msg, ctx')
     \<Longrightarrow> reproduces pol body msg ctx'"
  by (auto simp: in_message_Inr reproduces_def message_encode_with_policy_def message_number_def
      dest: inav.encode_decode)

lemma biases_reproduces [reproduces_intros]:
  "in_message GlonassCodePhaseBiases (decode_body (\<lambda>bits m. m\<lparr>gb_trailing_bits := bits\<rparr>) body (ctx_new pol) (no_ctx biases_read)) = Inr (msg, ctx')
     \<Longrightarrow> reproduces pol body msg ctx'"
  by (auto simp: in_message_Inr reproduces_def message_encode_with_policy_def message_number_def
      dest: biases.encode_decode)

lemma ssr_reproduces [reproduces_intros]:
  "in_message Ssr (ssr_decode_inner body (ctx_new pol)) = Inr (msg, ctx')
     \<Longrightarrow> reproduces pol body msg ctx'"
  by (auto simp: in_message_Inr reproduces_def message_encode_with_policy_def message_number_def
      dest: ssr_encode_decode)

lemma vtec_reproduces [reproduces_intros]:
  "in_message SsrVtec (decode_body (\<lambda>bits m. m\<lparr>vm_trailing_bits := bits\<rparr>) body (ctx_new pol) vtec_read) = Inr (msg, ctx')
     \<Longrightarrow> reproduces pol body msg ctx'"
  by (auto simp: in_message_Inr reproduces_def message_encode_with_policy_def message_number_def
      dest: vtec.encode_decode)

lemma unsupported_reproduces [reproduces_intros]:
  assumes "message_number_classified body = Inr n" and "\<not> is_decoded_body n body"
    and "Inr (Unsupported \<lparr>um_message_number = n, um_body = body\<rparr>, ctx_new pol) = Inr (msg, ctx')"
  shows "reproduces pol body msg ctx'"
  using assms
  by (auto simp: reproduces_def message_encode_with_policy_def message_number_def unsupported_encode_def)

text \<open>The dispatch, one case per arm.\<close>

lemma u16_between:
  "1015 \<le> n \<and> n \<le> 1017 \<longleftrightarrow> n = 1015 \<or> n = 1016 \<or> n = (1017 :: u16)"
  "1037 \<le> n \<and> n \<le> 1039 \<longleftrightarrow> n = 1037 \<or> n = 1038 \<or> n = (1039 :: u16)"
  "1025 \<le> n \<and> n \<le> 1027 \<longleftrightarrow> n = 1025 \<or> n = 1026 \<or> n = (1027 :: u16)"
  "1005 \<le> n \<and> n \<le> 1008 \<longleftrightarrow> n = 1005 \<or> n = 1006 \<or> n = 1007 \<or> n = (1008 :: u16)"
  "1013 \<le> n \<and> n \<le> 1017 \<longleftrightarrow> n = 1013 \<or> n = 1014 \<or> n = 1015 \<or> n = 1016 \<or> n = (1017 :: u16)"
  "1021 \<le> n \<and> n \<le> 1027 \<longleftrightarrow> n = 1021 \<or> n = 1022 \<or> n = 1023 \<or> n = 1024 \<or> n = 1025 \<or> n = 1026
     \<or> n = (1027 :: u16)"
  "1030 \<le> n \<and> n \<le> 1035 \<longleftrightarrow> n = 1030 \<or> n = 1031 \<or> n = 1032 \<or> n = 1033 \<or> n = 1034 \<or> n = (1035 :: u16)"
  by (auto simp: word_le_nat_alt word_unat_eq_iff)

lemma message_decode_reproduces:
  assumes "message_decode_inner body (ctx_new pol) = Inr (msg, ctx')"
  shows "reproduces pol body msg ctx'"
proof -
  from assms obtain n where n: "message_number_classified body = Inr n"
    by (auto simp: message_decode_inner_def)
  note d = assms [unfolded message_decode_inner_def n ebind_simps]
  show ?thesis
  proof (cases "n = IGS_SSR_MESSAGE_NUMBER")
    case True
    have "\<not> is_legacy_observation n" "\<not> is_supported_msm n" "\<not> is_supported_ssr n" "\<not> is_rtcm_vtec n"
      unfolding True by (simp_all add: IGS_SSR_MESSAGE_NUMBER_def is_legacy_observation_def
          legacy_layout_of_def is_supported_msm_def msm_kind_of_def is_supported_ssr_def ssr_kind_of_def
          ssr_kinds_def is_rtcm_vtec_def RTCM_VTEC_MESSAGE_NUMBER_def)
    with d True n show ?thesis
      by (auto simp: IGS_SSR_MESSAGE_NUMBER_def is_decoded_body_def split: if_splits
          intro: reproduces_intros)
  next
    case False
    have "\<not> is_decoded_body n body"
      if "msg = Unsupported \<lparr>um_message_number = n, um_body = body\<rparr>"
      using d that False
      by (auto simp: is_decoded_body_def is_decoded_number_def u16_between in_message_Inr split: if_splits)
    then show ?thesis
      using d n False
      by (auto split: if_splits intro: reproduces_intros)
  qed
qed

end
