(* ===== verification/Rtcm_Message_Codec.thy ===== *)
theory Rtcm_Message_Codec
  imports Rtcm_Message
begin

text \<open>
  The second round trip of the message IR of \<^verbatim>\<open>rtcm/mod.rs\<close>: what
  \<^verbatim>\<open>Message::encode_with_policy\<close> writes, \<^verbatim>\<open>Message::decode_with_policy\<close> reads back.
  The dispatch of \<^verbatim>\<open>decode_inner\<close> is solved once per arm; each variant then rests on
  the contract its theory proves.
\<close>

section \<open>An encoded message decodes back\<close>

text \<open>
  A message is read back with its kept bits aligned to a byte, an MSM in mask
  order.  \<open>n\<close> is the number of field bits before the kept ones.
\<close>

definition message_as_read :: "nat \<Rightarrow> message \<Rightarrow> message" where
  "message_as_read n msg =
     (case msg of
        Msm m \<Rightarrow> Msm ((msm_norm m)\<lparr>mm_trailing_bits := kept_tail n (mm_trailing_bits m)\<rparr>)
      | LegacyObservations m \<Rightarrow> LegacyObservations (m\<lparr>lo_trailing_bits := kept_tail n (lo_trailing_bits m)\<rparr>)
      | StationCoordinates m \<Rightarrow> StationCoordinates (m\<lparr>st_trailing_bits := kept_tail n (st_trailing_bits m)\<rparr>)
      | AntennaDescriptor m \<Rightarrow> AntennaDescriptor (m\<lparr>ad_trailing_bits := kept_tail n (ad_trailing_bits m)\<rparr>)
      | SystemParameters m \<Rightarrow> SystemParameters (m\<lparr>sp_trailing_bits := kept_tail n (sp_trailing_bits m)\<rparr>)
      | Text m \<Rightarrow> Text (m\<lparr>tm_trailing_bits := kept_tail n (tm_trailing_bits m)\<rparr>)
      | NetworkAuxiliaryStation m \<Rightarrow> NetworkAuxiliaryStation (m\<lparr>na_trailing_bits := kept_tail n (na_trailing_bits m)\<rparr>)
      | NetworkCorrectionDifferences m \<Rightarrow> NetworkCorrectionDifferences (m\<lparr>nc_trailing_bits := kept_tail n (nc_trailing_bits m)\<rparr>)
      | HelmertTransformation m \<Rightarrow> HelmertTransformation (m\<lparr>ht_trailing_bits := kept_tail n (ht_trailing_bits m)\<rparr>)
      | ResidualGrid m \<Rightarrow> ResidualGrid (m\<lparr>rg_trailing_bits := kept_tail n (rg_trailing_bits m)\<rparr>)
      | Projection m \<Rightarrow> Projection (m\<lparr>pj_trailing_bits := kept_tail n (pj_trailing_bits m)\<rparr>)
      | NetworkResiduals m \<Rightarrow> NetworkResiduals (m\<lparr>nr_trailing_bits := kept_tail n (nr_trailing_bits m)\<rparr>)
      | PhysicalReferenceStation m \<Rightarrow> PhysicalReferenceStation (m\<lparr>pr_trailing_bits := kept_tail n (pr_trailing_bits m)\<rparr>)
      | FkpGradients m \<Rightarrow> FkpGradients (m\<lparr>fk_trailing_bits := kept_tail n (fk_trailing_bits m)\<rparr>)
      | GpsEphemeris m \<Rightarrow> GpsEphemeris (m\<lparr>ge_trailing_bits := kept_tail n (ge_trailing_bits m)\<rparr>)
      | GlonassEphemeris m \<Rightarrow> GlonassEphemeris (m\<lparr>gl_trailing_bits := kept_tail n (gl_trailing_bits m)\<rparr>)
      | NavicEphemeris m \<Rightarrow> NavicEphemeris (m\<lparr>ne_trailing_bits := kept_tail n (ne_trailing_bits m)\<rparr>)
      | BeidouEphemeris m \<Rightarrow> BeidouEphemeris (m\<lparr>be_trailing_bits := kept_tail n (be_trailing_bits m)\<rparr>)
      | QzssEphemeris m \<Rightarrow> QzssEphemeris (m\<lparr>qe_trailing_bits := kept_tail n (qe_trailing_bits m)\<rparr>)
      | GalileoFnavEphemeris m \<Rightarrow> GalileoFnavEphemeris (m\<lparr>gf_trailing_bits := kept_tail n (gf_trailing_bits m)\<rparr>)
      | GalileoInavEphemeris m \<Rightarrow> GalileoInavEphemeris (m\<lparr>gi_trailing_bits := kept_tail n (gi_trailing_bits m)\<rparr>)
      | GlonassCodePhaseBiases m \<Rightarrow> GlonassCodePhaseBiases (m\<lparr>gb_trailing_bits := kept_tail n (gb_trailing_bits m)\<rparr>)
      | Ssr m \<Rightarrow> Ssr (m\<lparr>sm_padding_bits := padded n (sm_padding_bits m)\<rparr>)
      | SsrVtec m \<Rightarrow> SsrVtec (m\<lparr>vm_trailing_bits := kept_tail n (vm_trailing_bits m)\<rparr>)
      | Unsupported u \<Rightarrow> Unsupported u)"

text \<open>
  The header of a counted message states the records it holds.  The strict encoder
  refuses any other message; the lenient one writes a larger count, and then the
  kept bits can be read as a further record.
\<close>

definition records_complete :: "message \<Rightarrow> bool" where
  "records_complete msg \<longleftrightarrow>
     (case msg of
        LegacyObservations m \<Rightarrow> length (lo_satellites m) = unat (lo_satellite_count m)
      | SystemParameters m \<Rightarrow> length (sp_announcements m) = unat (sp_announcement_count m)
      | NetworkCorrectionDifferences m \<Rightarrow> length (nc_satellites m) = unat (nc_satellite_count m)
      | NetworkResiduals m \<Rightarrow> length (nr_satellites m) = unat (nr_satellite_count m)
      | FkpGradients m \<Rightarrow> length (fk_satellites m) = unat (fk_satellite_count m)
      | Ssr m \<Rightarrow> length (satellite_fields m) = unat (sh_satellite_count (sm_header m))
      | _ \<Rightarrow> True)"

definition reads_back :: "rtcm_policy \<Rightarrow> u8 list \<Rightarrow> message \<Rightarrow> rtcm_departure list \<Rightarrow> bool" where
  "reads_back pol body msg ds \<longleftrightarrow>
     (\<exists>n. message_decode_inner body (ctx_new pol)
        = Inr (message_as_read n msg, \<lparr>policy = pol, departures = ds\<rparr>))"

named_theorems reads_back_intros "encoding one variant"

text \<open>The message numbers of the arms that are not literals.\<close>

lemma legacy_between:
  "1001 \<le> n \<and> n \<le> 1004 \<longleftrightarrow> n = 1001 \<or> n = 1002 \<or> n = 1003 \<or> n = (1004 :: u16)"
  "1009 \<le> n \<and> n \<le> 1012 \<longleftrightarrow> n = 1009 \<or> n = 1010 \<or> n = 1011 \<or> n = (1012 :: u16)"
  by (auto simp: word_le_nat_alt word_unat_eq_iff)

lemma legacy_number:
  "is_legacy_observation n \<longleftrightarrow> n = 1001 \<or> n = 1002 \<or> n = 1003 \<or> n = 1004 \<or> n = 1009 \<or> n = 1010
     \<or> n = 1011 \<or> n = 1012"
  by (auto simp: is_legacy_observation_def legacy_layout_of_def legacy_between)

text \<open>The numbers with an arm of their own are none of the others.\<close>

definition literal_number :: "u16 \<Rightarrow> bool" where
  "literal_number n \<longleftrightarrow> n \<in> {1005, 1006, 1007, 1008, 1033, 1013, 1029, 1014, 1015, 1016,
     1017, 1037, 1038, 1039, 1021, 1022, 1023, 1024, 1025, 1026, 1027, 1030,
     1031, 1032, 1034, 1035, 1019, 1020, 1041, 1042, 1230, 1044, 1045, 1046}"

lemma literal_apart:
  "is_supported_msm n \<Longrightarrow> \<not> literal_number n" "is_supported_ssr n \<Longrightarrow> \<not> literal_number n"
  "is_legacy_observation n \<Longrightarrow> \<not> literal_number n" "is_rtcm_vtec n \<Longrightarrow> \<not> literal_number n"
  by (auto simp: literal_number_def is_supported_msm_def msm_kind_of_def is_supported_ssr_def
      ssr_kind_of_def ssr_kinds_def legacy_number is_rtcm_vtec_def RTCM_VTEC_MESSAGE_NUMBER_def)

lemma ssr_number: "is_supported_ssr n \<Longrightarrow> n \<in> fst ` set ssr_kinds"
  by (auto simp: is_supported_ssr_def ssr_kind_of_def map_of_eq_None_iff)

lemma ssr_apart:
  assumes "is_supported_ssr n"
  shows "\<not> is_supported_msm n" and "\<not> is_legacy_observation n"
  using ssr_number [OF assms]
  by (auto simp: ssr_kinds_def is_supported_msm_def msm_kind_of_def legacy_number)

lemma msm_not_legacy: "is_supported_msm n \<Longrightarrow> \<not> is_legacy_observation n"
  by (auto simp: legacy_number is_supported_msm_def msm_kind_of_def)

lemma vtec_apart:
  assumes "is_rtcm_vtec n"
  shows "\<not> is_supported_msm n" and "\<not> is_legacy_observation n" and "\<not> is_supported_ssr n"
  using assms
  by (simp_all add: is_rtcm_vtec_def RTCM_VTEC_MESSAGE_NUMBER_def legacy_number is_supported_msm_def
      msm_kind_of_def is_supported_ssr_def ssr_kind_of_def ssr_kinds_def)

subsection \<open>The arm of each number\<close>

text \<open>Past the literal numbers, the dispatch is on the four families and the IGS body.\<close>

lemma family_dispatch:
  assumes "message_number_classified body = Inr n" and "\<not> literal_number n"
  shows "message_decode_inner body ctx =
    (if is_legacy_observation n then in_message LegacyObservations (legacy_decode_inner body ctx)
     else if is_supported_msm n then
       in_message Msm (decode_body (\<lambda>bits m. m\<lparr>mm_trailing_bits := bits\<rparr>) body ctx msm_read)
     else if is_supported_ssr n then in_message Ssr (ssr_decode_inner body ctx)
     else if is_rtcm_vtec n then
       in_message SsrVtec (decode_body (\<lambda>bits m. m\<lparr>vm_trailing_bits := bits\<rparr>) body ctx vtec_read)
     else if n = IGS_SSR_MESSAGE_NUMBER then
       ebind (igs_ssr_identity body) (\<lambda>(_, subtype).
       if subtype = IGS_SSR_VTEC_SUBTYPE then
         in_message SsrVtec (decode_body (\<lambda>bits m. m\<lparr>vm_trailing_bits := bits\<rparr>) body ctx vtec_read)
       else if igs_ssr_kind subtype \<noteq> None then in_message Ssr (ssr_decode_inner body ctx)
       else Inr (Unsupported \<lparr>um_message_number = n, um_body = body\<rparr>, ctx))
     else Inr (Unsupported \<lparr>um_message_number = n, um_body = body\<rparr>, ctx))"
proof -
  from assms(2) have "n \<noteq> 1005 \<and> n \<noteq> 1006 \<and> n \<noteq> 1007 \<and> n \<noteq> 1008 \<and> n \<noteq> 1033 \<and> n \<noteq> 1013 \<and> n \<noteq> 1029 \<and> n \<noteq> 1014 \<and>
     n \<noteq> 1015 \<and> n \<noteq> 1016 \<and> n \<noteq> 1017 \<and> n \<noteq> 1037 \<and> n \<noteq> 1038 \<and> n \<noteq> 1039 \<and> n \<noteq> 1021 \<and> n \<noteq> 1022 \<and>
     n \<noteq> 1023 \<and> n \<noteq> 1024 \<and> n \<noteq> 1025 \<and> n \<noteq> 1026 \<and> n \<noteq> 1027 \<and> n \<noteq> 1030 \<and> n \<noteq> 1031 \<and> n \<noteq> 1032 \<and>
     n \<noteq> 1034 \<and> n \<noteq> 1035 \<and> n \<noteq> 1019 \<and> n \<noteq> 1020 \<and> n \<noteq> 1041 \<and> n \<noteq> 1042 \<and> n \<noteq> 1230 \<and> n \<noteq> 1044 \<and>
     n \<noteq> 1045 \<and> n \<noteq> 1046"
    by (simp add: literal_number_def)
  then show ?thesis
    unfolding message_decode_inner_def assms(1) ebind_simps u16_between by (simp only: simp_thms if_False)
qed

lemma msm_dispatch:
  "message_number_classified body = Inr n \<Longrightarrow> is_supported_msm n \<Longrightarrow> message_decode_inner body ctx =
     in_message Msm (decode_body (\<lambda>bits m. m\<lparr>mm_trailing_bits := bits\<rparr>) body ctx msm_read)"
  by (simp add: family_dispatch literal_apart msm_not_legacy)

lemma legacy_dispatch:
  "message_number_classified body = Inr n \<Longrightarrow> is_legacy_observation n \<Longrightarrow> message_decode_inner body ctx =
     in_message LegacyObservations (legacy_decode_inner body ctx)"
  by (simp add: family_dispatch literal_apart)

lemma station_dispatch:
  "message_number_classified body = Inr n \<Longrightarrow> n = 1005 \<or> n = 1006 \<Longrightarrow>
     message_decode_inner body ctx = in_message StationCoordinates (decode_body (\<lambda>bits m. m\<lparr>st_trailing_bits := bits\<rparr>) body ctx (no_ctx station_read))"
  by (elim disjE; simp add: message_decode_inner_def)

lemma antenna_dispatch:
  "message_number_classified body = Inr n \<Longrightarrow> n = 1007 \<or> n = 1008 \<or> n = 1033 \<Longrightarrow>
     message_decode_inner body ctx = in_message AntennaDescriptor (decode_body (\<lambda>bits m. m\<lparr>ad_trailing_bits := bits\<rparr>) body ctx (no_ctx antenna_read))"
  by (elim disjE; simp add: message_decode_inner_def)

lemma system_dispatch:
  "message_number_classified body = Inr 1013 \<Longrightarrow>
     message_decode_inner body ctx = in_message SystemParameters (system_decode_inner body ctx)"
  by (simp add: message_decode_inner_def)

lemma text_dispatch:
  "message_number_classified body = Inr 1029 \<Longrightarrow>
     message_decode_inner body ctx = in_message Text (decode_body (\<lambda>bits m. m\<lparr>tm_trailing_bits := bits\<rparr>) body ctx (no_ctx text_read))"
  by (simp add: message_decode_inner_def)

lemma auxiliary_dispatch:
  "message_number_classified body = Inr 1014 \<Longrightarrow>
     message_decode_inner body ctx = in_message NetworkAuxiliaryStation (decode_body (\<lambda>bits m. m\<lparr>na_trailing_bits := bits\<rparr>) body ctx (no_ctx auxiliary_read))"
  by (simp add: message_decode_inner_def)

lemma differences_dispatch:
  "message_number_classified body = Inr n \<Longrightarrow> n = 1015 \<or> n = 1016 \<or> n = 1017 \<or> n = 1037 \<or> n = 1038 \<or> n = 1039 \<Longrightarrow>
     message_decode_inner body ctx = in_message NetworkCorrectionDifferences (differences_decode_inner body ctx)"
  by (elim disjE; simp add: message_decode_inner_def)

lemma helmert_dispatch:
  "message_number_classified body = Inr n \<Longrightarrow> n = 1021 \<or> n = 1022 \<Longrightarrow>
     message_decode_inner body ctx = in_message HelmertTransformation (decode_body (\<lambda>bits m. m\<lparr>ht_trailing_bits := bits\<rparr>) body ctx (no_ctx helmert_read))"
  by (elim disjE; simp add: message_decode_inner_def)

lemma grid_dispatch:
  "message_number_classified body = Inr n \<Longrightarrow> n = 1023 \<or> n = 1024 \<Longrightarrow>
     message_decode_inner body ctx = in_message ResidualGrid (decode_body (\<lambda>bits m. m\<lparr>rg_trailing_bits := bits\<rparr>) body ctx (no_ctx grid_read))"
  by (elim disjE; simp add: message_decode_inner_def)

lemma projection_dispatch:
  "message_number_classified body = Inr n \<Longrightarrow> n = 1025 \<or> n = 1026 \<or> n = 1027 \<Longrightarrow>
     message_decode_inner body ctx = in_message Projection (decode_body (\<lambda>bits m. m\<lparr>pj_trailing_bits := bits\<rparr>) body ctx (no_ctx projection_read))"
  by (elim disjE; simp add: message_decode_inner_def)

lemma residuals_dispatch:
  "message_number_classified body = Inr n \<Longrightarrow> n = 1030 \<or> n = 1031 \<Longrightarrow>
     message_decode_inner body ctx = in_message NetworkResiduals (residuals_decode_inner body ctx)"
  by (elim disjE; simp add: message_decode_inner_def)

lemma physical_dispatch:
  "message_number_classified body = Inr 1032 \<Longrightarrow>
     message_decode_inner body ctx = in_message PhysicalReferenceStation (decode_body (\<lambda>bits m. m\<lparr>pr_trailing_bits := bits\<rparr>) body ctx (no_ctx physical_read))"
  by (simp add: message_decode_inner_def)

lemma fkp_dispatch:
  "message_number_classified body = Inr n \<Longrightarrow> n = 1034 \<or> n = 1035 \<Longrightarrow>
     message_decode_inner body ctx = in_message FkpGradients (fkp_decode_inner body ctx)"
  by (elim disjE; simp add: message_decode_inner_def)

lemma gps_dispatch:
  "message_number_classified body = Inr 1019 \<Longrightarrow>
     message_decode_inner body ctx = in_message GpsEphemeris (decode_body (\<lambda>bits m. m\<lparr>ge_trailing_bits := bits\<rparr>) body ctx (no_ctx gps_read))"
  by (simp add: message_decode_inner_def)

lemma glonass_dispatch:
  "message_number_classified body = Inr 1020 \<Longrightarrow>
     message_decode_inner body ctx = in_message GlonassEphemeris (decode_body (\<lambda>bits m. m\<lparr>gl_trailing_bits := bits\<rparr>) body ctx (no_ctx glonass_read))"
  by (simp add: message_decode_inner_def)

lemma navic_dispatch:
  "message_number_classified body = Inr 1041 \<Longrightarrow>
     message_decode_inner body ctx = in_message NavicEphemeris (decode_body (\<lambda>bits m. m\<lparr>ne_trailing_bits := bits\<rparr>) body ctx (no_ctx navic_read))"
  by (simp add: message_decode_inner_def)

lemma beidou_dispatch:
  "message_number_classified body = Inr 1042 \<Longrightarrow>
     message_decode_inner body ctx = in_message BeidouEphemeris (decode_body (\<lambda>bits m. m\<lparr>be_trailing_bits := bits\<rparr>) body ctx (no_ctx beidou_read))"
  by (simp add: message_decode_inner_def)

lemma qzss_dispatch:
  "message_number_classified body = Inr 1044 \<Longrightarrow>
     message_decode_inner body ctx = in_message QzssEphemeris (decode_body (\<lambda>bits m. m\<lparr>qe_trailing_bits := bits\<rparr>) body ctx (no_ctx qzss_read))"
  by (simp add: message_decode_inner_def)

lemma fnav_dispatch:
  "message_number_classified body = Inr 1045 \<Longrightarrow>
     message_decode_inner body ctx = in_message GalileoFnavEphemeris (decode_body (\<lambda>bits m. m\<lparr>gf_trailing_bits := bits\<rparr>) body ctx (no_ctx fnav_read))"
  by (simp add: message_decode_inner_def)

lemma inav_dispatch:
  "message_number_classified body = Inr 1046 \<Longrightarrow>
     message_decode_inner body ctx = in_message GalileoInavEphemeris (decode_body (\<lambda>bits m. m\<lparr>gi_trailing_bits := bits\<rparr>) body ctx (no_ctx inav_read))"
  by (simp add: message_decode_inner_def)

lemma biases_dispatch:
  "message_number_classified body = Inr 1230 \<Longrightarrow>
     message_decode_inner body ctx = in_message GlonassCodePhaseBiases (decode_body (\<lambda>bits m. m\<lparr>gb_trailing_bits := bits\<rparr>) body ctx (no_ctx biases_read))"
  by (simp add: message_decode_inner_def)

subsection \<open>Reading each variant back\<close>

lemma reads_backI:
  assumes "message_decode_inner body (ctx_new pol) = in_message C d"
    and "d = Inr (x, \<lparr>policy = pol, departures = ds\<rparr>)" and "C x = message_as_read n msg"
  shows "reads_back pol body msg ds"
  using assms(3) by (auto simp: reads_back_def assms(1,2) in_message_def)

lemma msm_reads_back [reads_back_intros]:
  assumes "msm_encode_with_policy pol m = Inr (body, ds)"
  shows "reads_back pol body (Msm m) ds"
proof -
  have k: "is_supported_msm (mm_message_number m)"
    using assms(1) by (auto simp: msm_encode_with_policy_def msm_check_def is_supported_msm_def Let_def split: if_splits option.splits)
  from msm.decode_encode [OF assms] obtain n where d:
    "decode_body (\<lambda>bits m. m\<lparr>mm_trailing_bits := bits\<rparr>) body (ctx_new pol) msm_read
       = Inr ((msm_norm m)\<lparr>mm_trailing_bits := kept_tail n (mm_trailing_bits m)\<rparr>, \<lparr>policy = pol, departures = ds\<rparr>)" ..
  show ?thesis
    using k by (intro reads_backI [OF msm_dispatch [OF msm.encode_decode(3) [OF d]] d])
      (simp_all add: message_as_read_def msm_norm_def)
qed

lemma legacy_reads_back [reads_back_intros]:
  assumes "legacy_encode_with_policy pol m = Inr (body, ds)"
    and "length (lo_satellites m) = unat (lo_satellite_count m)"
  shows "reads_back pol body (LegacyObservations m) ds"
proof -
  have k: "is_legacy_observation (lo_message_number m)"
    using assms(1) by (auto simp: legacy_encode_with_policy_def legacy_check_def is_legacy_observation_def Let_def split: if_splits option.splits)
  from legacy.decode_encode [OF assms] obtain n where d:
    "legacy_decode_inner body (ctx_new pol)
       = Inr (m\<lparr>lo_satellites := lo_satellites m, lo_trailing_bits := kept_tail n (lo_trailing_bits m)\<rparr>, \<lparr>policy = pol, departures = ds\<rparr>)" ..
  show ?thesis
    using k by (intro reads_backI [OF legacy_dispatch [OF legacy.encode_decode(3) [OF d]] d])
      (simp_all add: message_as_read_def)
qed

lemma station_reads_back [reads_back_intros]:
  assumes "station_encode_with_policy pol m = Inr (body, ds)"
  shows "reads_back pol body (StationCoordinates m) ds"
proof -
  have k: "st_message_number m = 1005 \<or> st_message_number m = 1006"
    using assms(1) by (auto simp: station_encode_with_policy_def station_check_def Let_def split: if_splits option.splits)
  from station.plain_decode_encode [OF assms] obtain n where d:
    "decode_body (\<lambda>bits m. m\<lparr>st_trailing_bits := bits\<rparr>) body (ctx_new pol) (no_ctx station_read)
       = Inr (m\<lparr>st_trailing_bits := kept_tail n (st_trailing_bits m)\<rparr>, \<lparr>policy = pol, departures = ds\<rparr>)" ..
  show ?thesis
    using k by (intro reads_backI [OF station_dispatch [OF station.encode_decode(3) [OF d]] d])
      (simp_all add: message_as_read_def)
qed

lemma antenna_reads_back [reads_back_intros]:
  assumes "antenna_encode_with_policy pol m = Inr (body, ds)"
  shows "reads_back pol body (AntennaDescriptor m) ds"
proof -
  have k: "ad_message_number m = 1007 \<or> ad_message_number m = 1008 \<or> ad_message_number m = 1033"
    using assms(1) by (auto simp: antenna_encode_with_policy_def antenna_check_def Let_def split: if_splits option.splits)
  from antenna.plain_decode_encode [OF assms] obtain n where d:
    "decode_body (\<lambda>bits m. m\<lparr>ad_trailing_bits := bits\<rparr>) body (ctx_new pol) (no_ctx antenna_read)
       = Inr (m\<lparr>ad_trailing_bits := kept_tail n (ad_trailing_bits m)\<rparr>, \<lparr>policy = pol, departures = ds\<rparr>)" ..
  show ?thesis
    using k by (intro reads_backI [OF antenna_dispatch [OF antenna.encode_decode(3) [OF d]] d])
      (simp_all add: message_as_read_def)
qed

lemma system_reads_back [reads_back_intros]:
  assumes "system_encode_with_policy pol m = Inr (body, ds)"
    and "length (sp_announcements m) = unat (sp_announcement_count m)"
  shows "reads_back pol body (SystemParameters m) ds"
proof -
  from system.decode_encode [OF assms] obtain n where d:
    "system_decode_inner body (ctx_new pol)
       = Inr (m\<lparr>sp_announcements := sp_announcements m, sp_trailing_bits := kept_tail n (sp_trailing_bits m)\<rparr>, \<lparr>policy = pol, departures = ds\<rparr>)" ..
  show ?thesis
    by (rule reads_backI [OF system_dispatch [OF system.encode_decode(3) [OF d]] d])
      (simp add: message_as_read_def)
qed

lemma text_reads_back [reads_back_intros]:
  assumes "text_encode_with_policy pol m = Inr (body, ds)"
  shows "reads_back pol body (Text m) ds"
proof -
  from text_string.plain_decode_encode [OF assms] obtain n where d:
    "decode_body (\<lambda>bits m. m\<lparr>tm_trailing_bits := bits\<rparr>) body (ctx_new pol) (no_ctx text_read)
       = Inr (m\<lparr>tm_trailing_bits := kept_tail n (tm_trailing_bits m)\<rparr>, \<lparr>policy = pol, departures = ds\<rparr>)" ..
  show ?thesis
    by (rule reads_backI [OF text_dispatch [OF text_string.encode_decode(3) [OF d]] d])
      (simp add: message_as_read_def)
qed

lemma auxiliary_reads_back [reads_back_intros]:
  assumes "auxiliary_encode_with_policy pol m = Inr (body, ds)"
  shows "reads_back pol body (NetworkAuxiliaryStation m) ds"
proof -
  from auxiliary.plain_decode_encode [OF assms] obtain n where d:
    "decode_body (\<lambda>bits m. m\<lparr>na_trailing_bits := bits\<rparr>) body (ctx_new pol) (no_ctx auxiliary_read)
       = Inr (m\<lparr>na_trailing_bits := kept_tail n (na_trailing_bits m)\<rparr>, \<lparr>policy = pol, departures = ds\<rparr>)" ..
  show ?thesis
    by (rule reads_backI [OF auxiliary_dispatch [OF auxiliary.encode_decode(3) [OF d]] d])
      (simp add: message_as_read_def)
qed

lemma differences_reads_back [reads_back_intros]:
  assumes "differences_encode_with_policy pol m = Inr (body, ds)"
    and "length (nc_satellites m) = unat (nc_satellite_count m)"
  shows "reads_back pol body (NetworkCorrectionDifferences m) ds"
proof -
  have k: "nc_message_number m = 1015 \<or> nc_message_number m = 1016 \<or> nc_message_number m = 1017 \<or> nc_message_number m = 1037 \<or> nc_message_number m = 1038 \<or> nc_message_number m = 1039"
    using assms(1) by (auto simp: differences_encode_with_policy_def differences_check_def layout_of_def u16_between Let_def split: if_splits option.splits)
  from differences.decode_encode [OF assms] obtain n where d:
    "differences_decode_inner body (ctx_new pol)
       = Inr (m\<lparr>nc_satellites := nc_satellites m, nc_trailing_bits := kept_tail n (nc_trailing_bits m)\<rparr>, \<lparr>policy = pol, departures = ds\<rparr>)" ..
  show ?thesis
    using k by (intro reads_backI [OF differences_dispatch [OF differences.encode_decode(3) [OF d]] d])
      (simp_all add: message_as_read_def)
qed

lemma helmert_reads_back [reads_back_intros]:
  assumes "helmert_encode_with_policy pol m = Inr (body, ds)"
  shows "reads_back pol body (HelmertTransformation m) ds"
proof -
  have k: "ht_message_number m = 1021 \<or> ht_message_number m = 1022"
    using assms(1) by (auto simp: helmert_encode_with_policy_def helmert_check_def Let_def split: if_splits option.splits)
  from helmert.plain_decode_encode [OF assms] obtain n where d:
    "decode_body (\<lambda>bits m. m\<lparr>ht_trailing_bits := bits\<rparr>) body (ctx_new pol) (no_ctx helmert_read)
       = Inr (m\<lparr>ht_trailing_bits := kept_tail n (ht_trailing_bits m)\<rparr>, \<lparr>policy = pol, departures = ds\<rparr>)" ..
  show ?thesis
    using k by (intro reads_backI [OF helmert_dispatch [OF helmert.encode_decode(3) [OF d]] d])
      (simp_all add: message_as_read_def)
qed

lemma grid_reads_back [reads_back_intros]:
  assumes "grid_encode_with_policy pol m = Inr (body, ds)"
  shows "reads_back pol body (ResidualGrid m) ds"
proof -
  have k: "rg_message_number m = 1023 \<or> rg_message_number m = 1024"
    using assms(1) by (auto simp: grid_encode_with_policy_def grid_check_def grid_layout_of_def split: if_splits option.splits)
  from grid.plain_decode_encode [OF assms] obtain n where d:
    "decode_body (\<lambda>bits m. m\<lparr>rg_trailing_bits := bits\<rparr>) body (ctx_new pol) (no_ctx grid_read)
       = Inr (m\<lparr>rg_trailing_bits := kept_tail n (rg_trailing_bits m)\<rparr>, \<lparr>policy = pol, departures = ds\<rparr>)" ..
  show ?thesis
    using k by (intro reads_backI [OF grid_dispatch [OF grid.encode_decode(3) [OF d]] d])
      (simp_all add: message_as_read_def)
qed

lemma projection_reads_back [reads_back_intros]:
  assumes "projection_encode_with_policy pol m = Inr (body, ds)"
  shows "reads_back pol body (Projection m) ds"
proof -
  have k: "projection_message_number x = 1025 \<or> projection_message_number x = 1026 \<or> projection_message_number x = 1027"
    for x by (simp add: projection_message_number_def split: projection_parameters.split)
  from projection.plain_decode_encode [OF assms] obtain n where d:
    "decode_body (\<lambda>bits m. m\<lparr>pj_trailing_bits := bits\<rparr>) body (ctx_new pol) (no_ctx projection_read)
       = Inr (m\<lparr>pj_trailing_bits := kept_tail n (pj_trailing_bits m)\<rparr>, \<lparr>policy = pol, departures = ds\<rparr>)" ..
  show ?thesis
    by (rule reads_backI [OF projection_dispatch [OF projection.encode_decode(3) [OF d] k] d])
      (simp add: message_as_read_def)
qed

lemma residuals_reads_back [reads_back_intros]:
  assumes "residuals_encode_with_policy pol m = Inr (body, ds)"
    and "length (nr_satellites m) = unat (nr_satellite_count m)"
  shows "reads_back pol body (NetworkResiduals m) ds"
proof -
  have k: "nr_message_number m = 1030 \<or> nr_message_number m = 1031"
    using assms(1) by (auto simp: residuals_encode_with_policy_def residuals_check_def residuals_epoch_bits_def split: if_splits option.splits)
  from residuals.decode_encode [OF assms] obtain n where d:
    "residuals_decode_inner body (ctx_new pol)
       = Inr (m\<lparr>nr_satellites := nr_satellites m, nr_trailing_bits := kept_tail n (nr_trailing_bits m)\<rparr>, \<lparr>policy = pol, departures = ds\<rparr>)" ..
  show ?thesis
    using k by (intro reads_backI [OF residuals_dispatch [OF residuals.encode_decode(3) [OF d]] d])
      (simp_all add: message_as_read_def)
qed

lemma physical_reads_back [reads_back_intros]:
  assumes "physical_encode_with_policy pol m = Inr (body, ds)"
  shows "reads_back pol body (PhysicalReferenceStation m) ds"
proof -
  from physical.plain_decode_encode [OF assms] obtain n where d:
    "decode_body (\<lambda>bits m. m\<lparr>pr_trailing_bits := bits\<rparr>) body (ctx_new pol) (no_ctx physical_read)
       = Inr (m\<lparr>pr_trailing_bits := kept_tail n (pr_trailing_bits m)\<rparr>, \<lparr>policy = pol, departures = ds\<rparr>)" ..
  show ?thesis
    by (rule reads_backI [OF physical_dispatch [OF physical.encode_decode(3) [OF d]] d])
      (simp add: message_as_read_def)
qed

lemma fkp_reads_back [reads_back_intros]:
  assumes "fkp_encode_with_policy pol m = Inr (body, ds)"
    and "length (fk_satellites m) = unat (fk_satellite_count m)"
  shows "reads_back pol body (FkpGradients m) ds"
proof -
  have k: "fk_message_number m = 1034 \<or> fk_message_number m = 1035"
    using assms(1) by (auto simp: fkp_encode_with_policy_def fkp_check_def fkp_epoch_bits_def split: if_splits option.splits)
  from fkp.decode_encode [OF assms] obtain n where d:
    "fkp_decode_inner body (ctx_new pol)
       = Inr (m\<lparr>fk_satellites := fk_satellites m, fk_trailing_bits := kept_tail n (fk_trailing_bits m)\<rparr>, \<lparr>policy = pol, departures = ds\<rparr>)" ..
  show ?thesis
    using k by (intro reads_backI [OF fkp_dispatch [OF fkp.encode_decode(3) [OF d]] d])
      (simp_all add: message_as_read_def)
qed

lemma gps_reads_back [reads_back_intros]:
  assumes "gps_encode_with_policy pol m = Inr (body, ds)"
  shows "reads_back pol body (GpsEphemeris m) ds"
proof -
  from gps.plain_decode_encode [OF assms] obtain n where d:
    "decode_body (\<lambda>bits m. m\<lparr>ge_trailing_bits := bits\<rparr>) body (ctx_new pol) (no_ctx gps_read)
       = Inr (m\<lparr>ge_trailing_bits := kept_tail n (ge_trailing_bits m)\<rparr>, \<lparr>policy = pol, departures = ds\<rparr>)" ..
  show ?thesis
    by (rule reads_backI [OF gps_dispatch [OF gps.encode_decode(3) [OF d]] d])
      (simp add: message_as_read_def)
qed

lemma glonass_reads_back [reads_back_intros]:
  assumes "glonass_encode_with_policy pol m = Inr (body, ds)"
  shows "reads_back pol body (GlonassEphemeris m) ds"
proof -
  from glonass.plain_decode_encode [OF assms] obtain n where d:
    "decode_body (\<lambda>bits m. m\<lparr>gl_trailing_bits := bits\<rparr>) body (ctx_new pol) (no_ctx glonass_read)
       = Inr (m\<lparr>gl_trailing_bits := kept_tail n (gl_trailing_bits m)\<rparr>, \<lparr>policy = pol, departures = ds\<rparr>)" ..
  show ?thesis
    by (rule reads_backI [OF glonass_dispatch [OF glonass.encode_decode(3) [OF d]] d])
      (simp add: message_as_read_def)
qed

lemma navic_reads_back [reads_back_intros]:
  assumes "navic_encode_with_policy pol m = Inr (body, ds)"
  shows "reads_back pol body (NavicEphemeris m) ds"
proof -
  from navic.plain_decode_encode [OF assms] obtain n where d:
    "decode_body (\<lambda>bits m. m\<lparr>ne_trailing_bits := bits\<rparr>) body (ctx_new pol) (no_ctx navic_read)
       = Inr (m\<lparr>ne_trailing_bits := kept_tail n (ne_trailing_bits m)\<rparr>, \<lparr>policy = pol, departures = ds\<rparr>)" ..
  show ?thesis
    by (rule reads_backI [OF navic_dispatch [OF navic.encode_decode(3) [OF d]] d])
      (simp add: message_as_read_def)
qed

lemma beidou_reads_back [reads_back_intros]:
  assumes "beidou_encode_with_policy pol m = Inr (body, ds)"
  shows "reads_back pol body (BeidouEphemeris m) ds"
proof -
  from beidou.plain_decode_encode [OF assms] obtain n where d:
    "decode_body (\<lambda>bits m. m\<lparr>be_trailing_bits := bits\<rparr>) body (ctx_new pol) (no_ctx beidou_read)
       = Inr (m\<lparr>be_trailing_bits := kept_tail n (be_trailing_bits m)\<rparr>, \<lparr>policy = pol, departures = ds\<rparr>)" ..
  show ?thesis
    by (rule reads_backI [OF beidou_dispatch [OF beidou.encode_decode(3) [OF d]] d])
      (simp add: message_as_read_def)
qed

lemma qzss_reads_back [reads_back_intros]:
  assumes "qzss_encode_with_policy pol m = Inr (body, ds)"
  shows "reads_back pol body (QzssEphemeris m) ds"
proof -
  from qzss.plain_decode_encode [OF assms] obtain n where d:
    "decode_body (\<lambda>bits m. m\<lparr>qe_trailing_bits := bits\<rparr>) body (ctx_new pol) (no_ctx qzss_read)
       = Inr (m\<lparr>qe_trailing_bits := kept_tail n (qe_trailing_bits m)\<rparr>, \<lparr>policy = pol, departures = ds\<rparr>)" ..
  show ?thesis
    by (rule reads_backI [OF qzss_dispatch [OF qzss.encode_decode(3) [OF d]] d])
      (simp add: message_as_read_def)
qed

lemma fnav_reads_back [reads_back_intros]:
  assumes "fnav_encode_with_policy pol m = Inr (body, ds)"
  shows "reads_back pol body (GalileoFnavEphemeris m) ds"
proof -
  from fnav.plain_decode_encode [OF assms] obtain n where d:
    "decode_body (\<lambda>bits m. m\<lparr>gf_trailing_bits := bits\<rparr>) body (ctx_new pol) (no_ctx fnav_read)
       = Inr (m\<lparr>gf_trailing_bits := kept_tail n (gf_trailing_bits m)\<rparr>, \<lparr>policy = pol, departures = ds\<rparr>)" ..
  show ?thesis
    by (rule reads_backI [OF fnav_dispatch [OF fnav.encode_decode(3) [OF d]] d])
      (simp add: message_as_read_def)
qed

lemma inav_reads_back [reads_back_intros]:
  assumes "inav_encode_with_policy pol m = Inr (body, ds)"
  shows "reads_back pol body (GalileoInavEphemeris m) ds"
proof -
  from inav.plain_decode_encode [OF assms] obtain n where d:
    "decode_body (\<lambda>bits m. m\<lparr>gi_trailing_bits := bits\<rparr>) body (ctx_new pol) (no_ctx inav_read)
       = Inr (m\<lparr>gi_trailing_bits := kept_tail n (gi_trailing_bits m)\<rparr>, \<lparr>policy = pol, departures = ds\<rparr>)" ..
  show ?thesis
    by (rule reads_backI [OF inav_dispatch [OF inav.encode_decode(3) [OF d]] d])
      (simp add: message_as_read_def)
qed

lemma biases_reads_back [reads_back_intros]:
  assumes "biases_encode_with_policy pol m = Inr (body, ds)"
  shows "reads_back pol body (GlonassCodePhaseBiases m) ds"
proof -
  from biases.plain_decode_encode [OF assms] obtain n where d:
    "decode_body (\<lambda>bits m. m\<lparr>gb_trailing_bits := bits\<rparr>) body (ctx_new pol) (no_ctx biases_read)
       = Inr (m\<lparr>gb_trailing_bits := kept_tail n (gb_trailing_bits m)\<rparr>, \<lparr>policy = pol, departures = ds\<rparr>)" ..
  show ?thesis
    by (rule reads_backI [OF biases_dispatch [OF biases.encode_decode(3) [OF d]] d])
      (simp add: message_as_read_def)
qed

subsection \<open>The SSR messages\<close>

lemma igs_number:
  "\<not> literal_number IGS_SSR_MESSAGE_NUMBER"
  "\<not> is_legacy_observation IGS_SSR_MESSAGE_NUMBER" "\<not> is_supported_msm IGS_SSR_MESSAGE_NUMBER"
  "\<not> is_supported_ssr IGS_SSR_MESSAGE_NUMBER" "\<not> is_rtcm_vtec IGS_SSR_MESSAGE_NUMBER"
  by (simp_all add: IGS_SSR_MESSAGE_NUMBER_def literal_number_def is_legacy_observation_def
      legacy_layout_of_def is_supported_msm_def msm_kind_of_def is_supported_ssr_def ssr_kind_of_def
      ssr_kinds_def is_rtcm_vtec_def RTCM_VTEC_MESSAGE_NUMBER_def)

lemma vtec_subtype_no_kind: "igs_ssr_kind IGS_SSR_VTEC_SUBTYPE = None"
  by (simp add: igs_ssr_kind_def IGS_SSR_SYSTEMS_def IGS_SSR_VTEC_SUBTYPE_def)

lemma rbind_Inr:
  "rbind m k r = Inr (y, r') \<longleftrightarrow> (\<exists>x r1. m r = Inr (x, r1) \<and> k x r1 = Inr (y, r'))"
  by (auto simp: rbind_def)

lemmas identity_simps = rbind_Inr rreturn_def parse_error_def rfail_def rd_as_def igs_ssr_identity_def rbind_def

lemma ssr_read_arm:
  assumes "ssr_read_head (br_new body) = Inr (h, r)"
  shows "is_supported_ssr (sm_message_number h) \<or> sm_message_number h = IGS_SSR_MESSAGE_NUMBER
     \<and> (\<exists>v st k. igs_ssr_identity body = Inr (v, st) \<and> igs_ssr_kind st = Some k)"
  using assms
  by (auto simp: ssr_read_head_def ssr_read_identity_def is_supported_ssr_def identity_simps
      split: if_splits option.splits)

lemma vtec_read_arm:
  assumes "vtec_read ctx (br_new body) = Inr ((m, ctx'), r)"
  shows "vm_message_number m = RTCM_VTEC_MESSAGE_NUMBER \<or> vm_message_number m = IGS_SSR_MESSAGE_NUMBER
     \<and> (\<exists>v. igs_ssr_identity body = Inr (v, IGS_SSR_VTEC_SUBTYPE))"
  using assms
  by (auto simp: vtec_read_def vtec_read_version_def identity_simps split: if_splits)

lemma ssr_dispatch:
  assumes n: "message_number_classified body = Inr (sm_message_number m)"
    and d: "ssr_decode_inner body ctx = Inr (m, ctx')"
  shows "message_decode_inner body ctx = in_message Ssr (ssr_decode_inner body ctx)"
proof -
  from d obtain h r m0 ctx1 r1 where h: "ssr_read_head (br_new body) = Inr (h, r)"
    and l: "ssr_read_lists h ctx r = Inr ((m0, ctx1), r1)"
    and m: "sm_message_number m = sm_message_number m0"
    by (auto simp: ssr_decode_inner_def Let_def)
  from l have "sm_message_number m0 = sm_message_number h"
    by (auto simp: ssr_read_lists_def Let_def rbind_Inr rreturn_def split: ssr_kind.splits)
  then have "sm_message_number h = sm_message_number m" using m by simp
  with ssr_read_arm [OF h] consider "is_supported_ssr (sm_message_number m)"
    | v st k where "sm_message_number m = IGS_SSR_MESSAGE_NUMBER" "igs_ssr_identity body = Inr (v, st)"
        "igs_ssr_kind st = Some k"
    by auto
  then show ?thesis
  proof cases
    case 1
    then show ?thesis by (simp add: family_dispatch [OF n] literal_apart ssr_apart)
  next
    case 2
    then have "st \<noteq> IGS_SSR_VTEC_SUBTYPE" using vtec_subtype_no_kind by auto
    with 2 show ?thesis by (simp add: family_dispatch [OF n] igs_number)
  qed
qed

lemma vtec_dispatch:
  assumes n: "message_number_classified body = Inr (vm_message_number m)"
    and d: "decode_body (\<lambda>bits m. m\<lparr>vm_trailing_bits := bits\<rparr>) body ctx vtec_read = Inr (m, ctx')"
  shows "message_decode_inner body ctx
     = in_message SsrVtec (decode_body (\<lambda>bits m. m\<lparr>vm_trailing_bits := bits\<rparr>) body ctx vtec_read)"
proof -
  from d obtain m0 ctx1 r where "vtec_read ctx (br_new body) = Inr ((m0, ctx1), r)"
    and "vm_message_number m0 = vm_message_number m"
    by (auto simp: decode_body_def)
  with vtec_read_arm consider "is_rtcm_vtec (vm_message_number m)"
    | v where "vm_message_number m = IGS_SSR_MESSAGE_NUMBER" "igs_ssr_identity body = Inr (v, IGS_SSR_VTEC_SUBTYPE)"
    by (fastforce simp: is_rtcm_vtec_def)
  then show ?thesis
  proof cases
    case 1
    then show ?thesis by (simp add: family_dispatch [OF n] literal_apart vtec_apart)
  next
    case 2
    then show ?thesis by (simp add: family_dispatch [OF n] igs_number)
  qed
qed

lemma ssr_reads_back [reads_back_intros]:
  assumes "ssr_encode_with_policy pol m = Inr (body, ds)"
    and "length (satellite_fields m) = unat (sh_satellite_count (sm_header m))"
  shows "reads_back pol body (Ssr m) ds"
proof -
  from ssr_decode_encode [OF assms] obtain n where d: "ssr_decode_inner body (ctx_new pol)
     = Inr (m\<lparr>sm_padding_bits := padded n (sm_padding_bits m)\<rparr>, \<lparr>policy = pol, departures = ds\<rparr>)"
    by blast
  show ?thesis
    by (rule reads_backI [OF ssr_dispatch [OF ssr_encode_decode(3) [OF d] d] d])
      (simp add: message_as_read_def)
qed

lemma vtec_reads_back [reads_back_intros]:
  assumes "vtec_encode_with_policy pol m = Inr (body, ds)"
  shows "reads_back pol body (SsrVtec m) ds"
proof -
  from vtec.decode_encode [OF assms] obtain n where d:
    "decode_body (\<lambda>bits m. m\<lparr>vm_trailing_bits := bits\<rparr>) body (ctx_new pol) vtec_read
     = Inr (m\<lparr>vm_trailing_bits := kept_tail n (vm_trailing_bits m)\<rparr>, \<lparr>policy = pol, departures = ds\<rparr>)" ..
  show ?thesis
    by (rule reads_backI [OF vtec_dispatch [OF vtec.encode_decode(3) [OF d] d] d])
      (simp add: message_as_read_def)
qed

subsection \<open>Preserved bodies and the whole codec\<close>

lemma decoded_number_literal:
  "is_decoded_number n \<longleftrightarrow> literal_number n \<or> is_legacy_observation n \<or> is_supported_msm n
     \<or> is_supported_ssr n \<or> is_rtcm_vtec n"
  unfolding is_decoded_number_def literal_number_def u16_between by auto

text \<open>A body is preserved, whatever the policy, exactly when \<^verbatim>\<open>is_decoded_body\<close> says so.\<close>

lemma unsupported_dispatch:
  assumes "message_number_classified body = Inr n" and "\<not> is_decoded_body n body"
  shows "message_decode_inner body ctx = Inr (Unsupported \<lparr>um_message_number = n, um_body = body\<rparr>, ctx)"
proof (cases "n = IGS_SSR_MESSAGE_NUMBER")
  case True
  with assms(2) obtain v st where "igs_ssr_identity body = Inr (v, st)" "st \<noteq> IGS_SSR_VTEC_SUBTYPE"
    "igs_ssr_kind st = None"
    by (auto simp: is_decoded_body_def simp del: not_None_eq split: sum.splits)
  then show ?thesis using assms(1) by (simp add: True family_dispatch igs_number)
next
  case False
  then show ?thesis using assms
    by (simp add: family_dispatch is_decoded_body_def decoded_number_literal)
qed

lemma unsupported_reads_back [reads_back_intros]:
  assumes "unsupported_encode u = Inr body"
  shows "reads_back pol body (Unsupported u) []"
  using assms
  by (auto simp: unsupported_encode_def reads_back_def message_as_read_def unsupported_dispatch
      ctx_new_def split: sum.splits if_splits)

lemma message_encode_reads_back:
  assumes "message_encode_with_policy pol msg = Inr (body, ds)" and "records_complete msg"
  shows "reads_back pol body msg ds"
  using assms
  by (cases msg) (auto simp: message_encode_with_policy_def records_complete_def intro: reads_back_intros)

section \<open>The two policies\<close>

text \<open>
  A strict encoding has no departure, states as many records as it holds and is what
  the lenient encoder writes; a body the strict decoder accepts is read the same by
  the lenient one.
\<close>

named_theorems strict_encodes "what the strict encoder of one variant writes"

lemmas [strict_encodes] = msm.strict_encode legacy.strict_encode station.strict_encode
  antenna.strict_encode system.strict_encode text_string.strict_encode auxiliary.strict_encode
  differences.strict_encode helmert.strict_encode grid.strict_encode projection.strict_encode
  residuals.strict_encode physical.strict_encode fkp.strict_encode gps.strict_encode
  glonass.strict_encode navic.strict_encode beidou.strict_encode qzss.strict_encode
  fnav.strict_encode inav.strict_encode biases.strict_encode vtec.strict_encode ssr_strict_encode

lemma message_strict_encode:
  assumes "message_encode_with_policy Strict msg = Inr (body, ds)"
  shows "ds = [] \<and> message_encode_with_policy Lenient msg = Inr (body, []) \<and> records_complete msg"
  using assms
  by (cases msg) (auto simp: message_encode_with_policy_def records_complete_def dest: strict_encodes)

lemma kept_tail_Nil [simp]: "kept_tail n [] = []"
  by (simp add: kept_tail_def)

lemma message_as_read_strict:
  "message_encode_with_policy Strict msg = Inr (body, ds) \<Longrightarrow> (\<And>m. msg \<noteq> Ssr m) \<Longrightarrow>
     message_as_read n msg = message_as_read n' msg"
proof (induction msg)
  case (Ssr m)
  then show ?case by blast
next
  case (Unsupported u)
  show ?case by (simp add: message_as_read_def)
qed (simp only: message_encode_with_policy_def message_as_read_def message.case,
     drule strict_encodes, simp)+

lemma ssr_policies:
  assumes "ssr_encode_with_policy Strict m = Inr (body, [])"
    and "ssr_encode_with_policy Lenient m = Inr (body, [])"
    and "length (satellite_fields m) = unat (sh_satellite_count (sm_header m))"
  shows "\<exists>m'. message_decode_inner body (ctx_new Strict) = Inr (Ssr m', ctx_new Strict)
    \<and> message_decode_inner body (ctx_new Lenient) = Inr (Ssr m', ctx_new Lenient)"
proof -
  let ?w = "w_all (ssr_head_fields m @ ssr_record_fields m) (fw_new (sm_message_number m))"
  let ?put = "\<lambda>bs. fw_put bs (fw_new (sm_message_number m))"
  let ?m = "\<lambda>bs. m\<lparr>sm_padding_bits := padded (length bs) (sm_padding_bits m)\<rparr>"
  have rd: "\<exists>bs. ?w = Inr (?put bs) \<and> message_decode_inner body (ctx_new pol) = Inr (Ssr (?m bs), ctx_new pol)"
    if enc: "ssr_encode_with_policy pol m = Inr (body, [])" for pol
  proof -
    from ssr_decode_encode [OF enc assms(3)] obtain bs where w: "?w = Inr (?put bs)"
      and d: "ssr_decode_inner body (ctx_new pol) = Inr (?m bs, \<lparr>policy = pol, departures = []\<rparr>)" by blast
    from ssr_dispatch [OF ssr_encode_decode(3) [OF d] d] w d show ?thesis
      by (auto simp: in_message_def ctx_new_def)
  qed
  from rd [OF assms(1)] rd [OF assms(2)] obtain bs bs' where
    w: "?w = Inr (?put bs)" "?w = Inr (?put bs')"
    and s: "message_decode_inner body (ctx_new Strict) = Inr (Ssr (?m bs), ctx_new Strict)"
    and l: "message_decode_inner body (ctx_new Lenient) = Inr (Ssr (?m bs'), ctx_new Lenient)"
    by blast
  from w have "fw_bit_len (?put bs) = fw_bit_len (?put bs')" by simp
  then have "length bs = length bs'" by (simp only: fw_put_new)
  with s l show ?thesis by auto
qed

lemma strict_decode_lenient:
  assumes "message_decode_inner body (ctx_new Strict) = Inr (msg, ctx')"
  shows "departures ctx' = [] \<and> message_decode_inner body (ctx_new Lenient) = Inr (msg, ctx_new Lenient)"
proof -
  have e: "message_encode_with_policy Strict msg = Inr (body, departures ctx')"
    using message_decode_reproduces [OF assms] by (simp add: reproduces_def)
  note s = message_strict_encode [OF e]
  have l: "message_encode_with_policy Lenient msg = Inr (body, [])" using s by simp
  show ?thesis
  proof (cases "\<exists>m. msg = Ssr m")
    case True
    then obtain m where m: "msg = Ssr m" by blast
    then have c: "length (satellite_fields m) = unat (sh_satellite_count (sm_header m))"
      using s by (simp add: records_complete_def)
    have "\<exists>m'. message_decode_inner body (ctx_new Strict) = Inr (Ssr m', ctx_new Strict)
        \<and> message_decode_inner body (ctx_new Lenient) = Inr (Ssr m', ctx_new Lenient)"
      using e l s c by (intro ssr_policies [of m]) (simp_all add: m message_encode_with_policy_def)
    with assms s show ?thesis by auto
  next
    case False
    from message_encode_reads_back [OF e] message_encode_reads_back [OF l] s obtain n n' where
      "message_decode_inner body (ctx_new Strict) = Inr (message_as_read n msg, \<lparr>policy = Strict, departures = []\<rparr>)"
      "message_decode_inner body (ctx_new Lenient) = Inr (message_as_read n' msg, \<lparr>policy = Lenient, departures = []\<rparr>)"
      by (auto simp: reads_back_def)
    moreover from False have "message_as_read n' msg = message_as_read n msg"
      by (intro message_as_read_strict [OF e]) blast
    ultimately show ?thesis using assms by (auto simp: ctx_new_def)
  qed
qed

end
