(* ===== verification/Rtcm_Stream.thy ===== *)
theory Rtcm_Stream
  imports Rtcm_Message_Codec
begin

text \<open>
  The byte streams of \<^verbatim>\<open>rtcm/mod.rs\<close>: \<^verbatim>\<open>read_frame\<close>, \<^verbatim>\<open>decode_stream_with_policy\<close>,
  \<^verbatim>\<open>decode_messages\<close> and the \<^verbatim>\<open>SsrStreamAssembler\<close> with its carry buffer.
\<close>

section \<open>Diagnostics\<close>

record frame_skip =
  sk_offset :: nat
  sk_message_number :: "u16 option"
  sk_reason :: frame_skip_reason

record stream_departure =
  sd_offset :: nat
  sd_departure :: rtcm_departure

record stream_diagnostics =
  resync_bytes :: nat
  crc_failures :: nat
  skipped_frames :: "frame_skip list"
  stream_departures :: "stream_departure list"

definition diagnostics_default :: stream_diagnostics where
  "diagnostics_default =
     \<lparr>resync_bytes = 0, crc_failures = 0, skipped_frames = [], stream_departures = []\<rparr>"

definition is_clean :: "stream_diagnostics \<Rightarrow> bool" where
  "is_clean d \<longleftrightarrow> resync_bytes d = 0 \<and> crc_failures d = 0 \<and> skipped_frames d = []
     \<and> stream_departures d = []"

text \<open>\<^verbatim>\<open>Display for FrameSkip\<close> and \<^verbatim>\<open>FrameSkip::to_error\<close>.\<close>

definition frame_skip_text :: "frame_skip \<Rightarrow> string" where
  "frame_skip_text s =
     ''RTCM frame at byte '' @ dec (sk_offset s) @ '' (message '' @
     (case sk_message_number s of Some number \<Rightarrow> dec_u number | None \<Rightarrow> ''unknown'') @
     '') was not decoded: '' @
     (case sk_reason s of
        Truncated \<Rightarrow> ''body truncated''
      | Malformed msg \<Rightarrow> msg
      | SkipDeparture departure \<Rightarrow>
          departure_text departure @ '' (refused under the strict policy)'')"

definition to_error :: "frame_skip \<Rightarrow> rust_error" where
  "to_error s = Parse (frame_skip_text s)"

section \<open>One frame\<close>

definition body_number :: "u8 list \<Rightarrow> u16 option" where
  "body_number body = (case message_number_classified body of Inl _ \<Rightarrow> None | Inr n \<Rightarrow> Some n)"

definition skip_frame ::
  "decoded_frame \<Rightarrow> nat \<Rightarrow> frame_skip_reason \<Rightarrow> stream_diagnostics \<Rightarrow> stream_diagnostics" where
  "skip_frame frame offset reason d =
     d\<lparr>skipped_frames := skipped_frames d @
        [\<lparr>sk_offset = offset, sk_message_number = body_number (df_body frame), sk_reason = reason\<rparr>]\<rparr>"

text \<open>The message handed to \<^verbatim>\<open>emit\<close>, if any, and the diagnostics after the frame.\<close>

definition read_frame ::
  "decoded_frame \<Rightarrow> nat \<Rightarrow> rtcm_policy \<Rightarrow> stream_diagnostics
     \<Rightarrow> message option \<times> stream_diagnostics" where
  "read_frame frame offset pol d =
     (let departure = FrameReservedBits (df_reserved frame)
      in if df_reserved frame \<noteq> 0 \<and> pol = Strict
         then (None, skip_frame frame offset (SkipDeparture departure) d)
         else
           let found = (if df_reserved frame \<noteq> 0 then [departure] else [])
           in case message_decode_classified (df_body frame) pol of
                Inr (message, body_departures) \<Rightarrow>
                  (Some message,
                   d\<lparr>stream_departures := stream_departures d @
                      map (\<lambda>x. \<lparr>sd_offset = offset, sd_departure = x\<rparr>) (found @ body_departures)\<rparr>)
              | Inl kind \<Rightarrow> (None, skip_frame frame offset kind d))"

section \<open>A whole stream\<close>

record rtcm_stream =
  messages :: "message list"
  diagnostics :: stream_diagnostics

text \<open>\<^verbatim>\<open>iter().position(..)\<close> of the preamble.\<close>

fun preamble_position :: "u8 list \<Rightarrow> nat option" where
  "preamble_position [] = None"
| "preamble_position (b # bs) = (if b = PREAMBLE then Some 0 else map_option Suc (preamble_position bs))"

lemma preamble_position_Some:
  "preamble_position bs = Some rel \<Longrightarrow> rel < length bs \<and> bs ! rel = PREAMBLE"
  by (induction bs arbitrary: rel) (auto split: if_splits)

function stream_loop :: "u8 list \<Rightarrow> rtcm_policy \<Rightarrow> nat \<Rightarrow> rtcm_stream \<Rightarrow> rtcm_stream" where
  "stream_loop bytes pol pos s =
     (if pos < length bytes then
        case preamble_position (drop pos bytes) of
          None \<Rightarrow>
            s\<lparr>diagnostics := (diagnostics s)\<lparr>resync_bytes := resync_bytes (diagnostics s) + (length bytes - pos)\<rparr>\<rparr>
        | Some rel \<Rightarrow>
            let d = (diagnostics s)\<lparr>resync_bytes := resync_bytes (diagnostics s) + rel\<rparr>;
                at = pos + rel
            in case decode_frame (drop at bytes) of
                 Inr frame \<Rightarrow>
                   (let (emitted, d') = read_frame frame at pol d
                    in stream_loop bytes pol (at + df_frame_len frame)
                         (s\<lparr>messages := messages s @ (case emitted of None \<Rightarrow> [] | Some m \<Rightarrow> [m]),
                            diagnostics := d'\<rparr>))
               | Inl _ \<Rightarrow>
                   (let d' = (if frame_fails_crc (drop at bytes) then d\<lparr>crc_failures := crc_failures d + 1\<rparr> else d)
                    in stream_loop bytes pol (at + 1)
                         (s\<lparr>diagnostics := d'\<lparr>resync_bytes := resync_bytes d' + 1\<rparr>\<rparr>))
      else s)"
  by pat_completeness auto
termination
  by (relation "measure (\<lambda>(bytes, pol, pos, s). length bytes - pos)")
    (auto dest!: preamble_position_Some decode_frame_Inr(1) simp: FRAME_OVERHEAD_def)

declare stream_loop.simps [simp del]

definition decode_stream_with_policy :: "u8 list \<Rightarrow> rtcm_policy \<Rightarrow> rtcm_stream" where
  "decode_stream_with_policy bytes pol =
     stream_loop bytes pol 0 \<lparr>messages = [], diagnostics = diagnostics_default\<rparr>"

definition decode_stream :: "u8 list \<Rightarrow> rtcm_stream" where
  "decode_stream bytes = decode_stream_with_policy bytes Strict"

definition decode_messages :: "u8 list \<Rightarrow> rust_error + message list" where
  "decode_messages bytes =
     (let stream = decode_stream bytes; d = diagnostics stream
      in case skipped_frames d of
           skip # _ \<Rightarrow>
             Inl (Parse (frame_skip_text skip @ ''; '' @ dec (length (skipped_frames d)) @
                         '' frames skipped''))
         | [] \<Rightarrow>
             if resync_bytes d > 0
             then Inl (Parse (''RTCM stream has '' @ dec (resync_bytes d) @
                              '' bytes outside CRC-valid frames ('' @ dec (crc_failures d) @
                              '' CRC-24Q failures)''))
             else Inr (messages stream))"

section \<open>The assembler\<close>

record ssr_stream_assembler =
  as_buf :: "u8 list"
  as_policy :: rtcm_policy
  as_drained :: nat
  as_diagnostics :: stream_diagnostics

definition assembler_with_policy :: "rtcm_policy \<Rightarrow> ssr_stream_assembler" where
  "assembler_with_policy pol =
     \<lparr>as_buf = [], as_policy = pol, as_drained = 0, as_diagnostics = diagnostics_default\<rparr>"

definition assembler_new :: ssr_stream_assembler where
  "assembler_new = assembler_with_policy Strict"

definition decode_frame_message ::
  "rtcm_policy \<Rightarrow> stream_diagnostics \<Rightarrow> decoded_frame \<Rightarrow> nat
     \<Rightarrow> (rust_error + message) \<times> stream_diagnostics" where
  "decode_frame_message pol d frame offset =
     (let skipped = length (skipped_frames d); (decoded, d') = read_frame frame offset pol d
      in (case decoded of
            Some message \<Rightarrow> Inr message
          | None \<Rightarrow> Inl (to_error (skipped_frames d' ! skipped)), d'))"

text \<open>
  The loop of \<^verbatim>\<open>push\<close>: the position it stops at, the diagnostics and the results.
  \<open>drained\<close> is the offset of the first byte of \<open>buf\<close> in the stream.
\<close>

function push_loop ::
  "u8 list \<Rightarrow> rtcm_policy \<Rightarrow> nat \<Rightarrow> nat \<Rightarrow> stream_diagnostics \<Rightarrow> (rust_error + message) list
     \<Rightarrow> nat \<times> stream_diagnostics \<times> (rust_error + message) list" where
  "push_loop buf pol drained pos d out =
     (if pos < length buf then
        case preamble_position (drop pos buf) of
          None \<Rightarrow> (length buf, d\<lparr>resync_bytes := resync_bytes d + (length buf - pos)\<rparr>, out)
        | Some rel \<Rightarrow>
            let d1 = d\<lparr>resync_bytes := resync_bytes d + rel\<rparr>; at = pos + rel
            in if length buf - at < FRAME_OVERHEAD then (at, d1, out)
               else
                 let frame_len = 3 + declared_len (drop at buf) + 3
                 in if length buf - at < frame_len then (at, d1, out)
                    else case decode_frame (take frame_len (drop at buf)) of
                           Inr frame \<Rightarrow>
                             (let (r, d2) = decode_frame_message pol d1 frame (drained + at)
                              in push_loop buf pol drained (at + df_frame_len frame) d2 (out @ [r]))
                         | Inl _ \<Rightarrow>
                             push_loop buf pol drained (at + 1)
                               (d1\<lparr>crc_failures := crc_failures d1 + 1,
                                   resync_bytes := resync_bytes d1 + 1\<rparr>) out
      else (pos, d, out))"
  by pat_completeness auto
termination
  by (relation "measure (\<lambda>(buf, pol, drained, pos, d, out). length buf - pos)")
    (auto dest!: preamble_position_Some decode_frame_Inr(1) simp: FRAME_OVERHEAD_def)

declare push_loop.simps [simp del]

definition push ::
  "u8 list \<Rightarrow> ssr_stream_assembler \<Rightarrow> (rust_error + message) list \<times> ssr_stream_assembler" where
  "push chunk a =
     (let buf = as_buf a @ chunk;
          (pos, d, out) = push_loop buf (as_policy a) (as_drained a) 0 (as_diagnostics a) []
      in (out, a\<lparr>as_buf := drop pos buf, as_drained := as_drained a + pos, as_diagnostics := d\<rparr>))"

function finish_loop ::
  "u8 list \<Rightarrow> rtcm_policy \<Rightarrow> nat \<Rightarrow> nat \<Rightarrow> stream_diagnostics \<Rightarrow> (rust_error + message) list
     \<Rightarrow> stream_diagnostics \<times> (rust_error + message) list" where
  "finish_loop buf pol drained pos d out =
     (if pos < length buf then
        case preamble_position (drop pos buf) of
          None \<Rightarrow> (d\<lparr>resync_bytes := resync_bytes d + (length buf - pos)\<rparr>, out)
        | Some rel \<Rightarrow>
            let d1 = d\<lparr>resync_bytes := resync_bytes d + rel\<rparr>; at = pos + rel
            in case decode_frame (drop at buf) of
                 Inr frame \<Rightarrow>
                   (let (r, d2) = decode_frame_message pol d1 frame (drained + at)
                    in finish_loop buf pol drained (at + df_frame_len frame) d2 (out @ [r]))
               | Inl _ \<Rightarrow>
                   (let d2 = (if frame_fails_crc (drop at buf) then d1\<lparr>crc_failures := crc_failures d1 + 1\<rparr> else d1)
                    in finish_loop buf pol drained (at + 1) (d2\<lparr>resync_bytes := resync_bytes d2 + 1\<rparr>) out)
      else (d, out))"
  by pat_completeness auto
termination
  by (relation "measure (\<lambda>(buf, pol, drained, pos, d, out). length buf - pos)")
    (auto dest!: preamble_position_Some decode_frame_Inr(1) simp: FRAME_OVERHEAD_def)

declare finish_loop.simps [simp del]

definition assembler_finish ::
  "ssr_stream_assembler \<Rightarrow> (rust_error + message) list \<times> ssr_stream_assembler" where
  "assembler_finish a =
     (let buf = as_buf a; (d, out) = finish_loop buf (as_policy a) (as_drained a) 0 (as_diagnostics a) []
      in (out, a\<lparr>as_buf := [], as_drained := as_drained a + length buf, as_diagnostics := d\<rparr>))"

definition retained_len :: "ssr_stream_assembler \<Rightarrow> nat" where
  "retained_len a = length (as_buf a)"

section \<open>Scanning byte by byte\<close>

text \<open>
  The abstract scan: a byte that starts no frame is passed over alone, a frame is
  taken whole.  The scan is over any state that takes frames and passes bytes.
\<close>

function drain ::
  "(decoded_frame \<Rightarrow> nat \<Rightarrow> 's \<Rightarrow> 's) \<Rightarrow> (nat \<Rightarrow> nat \<Rightarrow> 's \<Rightarrow> 's) \<Rightarrow> u8 list \<Rightarrow> nat \<Rightarrow> 's \<Rightarrow> 's" where
  "drain take_frame pass [] off s = s"
| "drain take_frame pass (b # bs) off s =
     (if b \<noteq> PREAMBLE then drain take_frame pass bs (off + 1) (pass 1 0 s)
      else case decode_frame (b # bs) of
             Inr f \<Rightarrow> drain take_frame pass (drop (df_frame_len f) (b # bs)) (off + df_frame_len f)
                         (take_frame f off s)
           | Inl _ \<Rightarrow> drain take_frame pass bs (off + 1)
                         (pass 1 (if frame_fails_crc (b # bs) then 1 else 0) s))"
  by pat_completeness auto
termination
  by (relation "measure (\<lambda>(t, p, bs, off, s). length bs)")
    (auto dest!: decode_frame_Inr(1) simp: FRAME_OVERHEAD_def)

declare drain.simps(2) [simp del]

lemma drain_other: "b \<noteq> PREAMBLE \<Longrightarrow> drain t p (b # bs) off s = drain t p bs (off + 1) (p 1 0 s)"
  by (simp add: drain.simps)

lemma drain_frame:
  "decode_frame bs = Inr f \<Longrightarrow>
     drain t p bs off s = drain t p (drop (df_frame_len f) bs) (off + df_frame_len f) (t f off s)"
  using decode_frame_Inr(1,2,3) [of bs f]
  by (cases bs) (auto simp: drain.simps FRAME_OVERHEAD_def)

lemma drain_refused:
  "decode_frame (PREAMBLE # bs) = Inl e \<Longrightarrow>
     drain t p (PREAMBLE # bs) off s
       = drain t p bs (off + 1) (p 1 (if frame_fails_crc (PREAMBLE # bs) then 1 else 0) s)"
  by (simp add: drain.simps)

text \<open>A map between states that commutes with taking and passing commutes with the scan.\<close>

lemma drain_commute:
  assumes "\<And>f off s. h (t f off s) = t' f off (h s)" and "\<And>a c s. h (p a c s) = p' a c (h s)"
  shows "h (drain t p bs off s) = drain t' p' bs off (h s)"
  using assms
  by (induction t p bs off s rule: drain.induct) (auto simp: drain.simps split: sum.split)

text \<open>A state the scan preserves.\<close>

lemma drain_invariant:
  assumes "I s" and "\<And>f off s. I s \<Longrightarrow> I (t f off s)" and "\<And>a c s. I s \<Longrightarrow> I (p a c s)"
  shows "I (drain t p bs off s)"
  using assms
  by (induction t p bs off s rule: drain.induct) (auto simp: drain.simps split: sum.split)

text \<open>
  The loops of the source jump to the next preamble and keep a position.  A loop
  over a state that counts passed bytes is the abstract scan of the bytes from its
  position on.
\<close>

locale scan_loop =
  fixes take_frame :: "decoded_frame \<Rightarrow> nat \<Rightarrow> 's \<Rightarrow> 's"
    and pass :: "nat \<Rightarrow> nat \<Rightarrow> 's \<Rightarrow> 's"
    and base :: nat
    and loop :: "u8 list \<Rightarrow> nat \<Rightarrow> 's \<Rightarrow> 's"
  assumes pass_0: "pass 0 0 s = s"
    and pass_pass: "pass a c (pass a' c' s) = pass (a' + a) (c' + c) s"
    and loop_eq: "loop bytes pos s =
      (if pos < length bytes then
         case preamble_position (drop pos bytes) of
           None \<Rightarrow> pass (length bytes - pos) 0 s
         | Some rel \<Rightarrow>
             case decode_frame (drop (pos + rel) bytes) of
               Inr f \<Rightarrow> loop bytes (pos + rel + df_frame_len f)
                          (take_frame f (base + (pos + rel)) (pass rel 0 s))
             | Inl _ \<Rightarrow> loop bytes (pos + rel + 1)
                          (pass 1 (if frame_fails_crc (drop (pos + rel) bytes) then 1 else 0)
                             (pass rel 0 s))
       else s)"
begin

lemma drain_passes:
  "PREAMBLE \<notin> set bs \<Longrightarrow> drain take_frame pass (bs @ later) off s
     = drain take_frame pass later (off + length bs) (pass (length bs) 0 s)"
  by (induction bs arbitrary: off s) (auto simp: drain_other pass_0 pass_pass)

lemma drain_to_preamble:
  assumes "preamble_position bs = Some rel"
  shows "drain take_frame pass (bs @ later) off s
     = drain take_frame pass (drop rel bs @ later) (off + rel) (pass rel 0 s)"
  using assms
proof (induction bs arbitrary: rel off s)
  case (Cons b bs)
  show ?case
  proof (cases "b = PREAMBLE")
    case True
    with Cons.prems show ?thesis by (simp add: pass_0)
  next
    case False
    with Cons.prems obtain k where k: "preamble_position bs = Some k" and rel: "rel = Suc k" by auto
    from False Cons.IH [OF k] show ?thesis by (simp add: drain_other pass_pass rel)
  qed
qed simp

lemma no_preamble: "preamble_position bs = None \<longleftrightarrow> PREAMBLE \<notin> set bs"
  by (induction bs) auto

lemma loop_drain:
  "pos \<le> length bytes \<Longrightarrow> loop bytes pos s = drain take_frame pass (drop pos bytes) (base + pos) s"
proof (induction "length bytes - pos" arbitrary: pos s rule: less_induct)
  case less
  show ?case
  proof (cases "pos < length bytes")
    case False
    with less.prems show ?thesis by (subst loop_eq) simp
  next
    case lt: True
    show ?thesis
    proof (cases "preamble_position (drop pos bytes)")
      case None
      then have "PREAMBLE \<notin> set (drop pos bytes)" by (simp add: no_preamble)
      with None lt drain_passes [of "drop pos bytes" "[]"] show ?thesis
        by (simp add: loop_eq [of bytes pos])
    next
      case (Some rel)
      let ?at = "pos + rel"
      have at: "?at < length bytes" "bytes ! ?at = PREAMBLE"
        using preamble_position_Some [OF Some] lt by (simp_all add: less_diff_conv add.commute)
      have d: "drain take_frame pass (drop pos bytes) (base + pos) s
          = drain take_frame pass (drop ?at bytes) (base + ?at) (pass rel 0 s)"
        using drain_to_preamble [OF Some, of "[]"] by (simp add: add.commute add.left_commute)
      have c: "drop ?at bytes = PREAMBLE # drop (?at + 1) bytes"
        using at by (metis Cons_nth_drop_Suc Suc_eq_plus1)
      show ?thesis
      proof (cases "decode_frame (drop ?at bytes)")
        case (Inr f)
        with decode_frame_Inr(1,2) [OF Inr] at(1) lt
        have "loop bytes (?at + df_frame_len f) t
            = drain take_frame pass (drop (?at + df_frame_len f) bytes) (base + (?at + df_frame_len f)) t" for t
          by (intro less.hyps) (auto simp: FRAME_OVERHEAD_def)
        with Inr lt Some show ?thesis
          unfolding d drain_frame [OF Inr] by (simp add: loop_eq [of bytes pos] ac_simps)
      next
        case (Inl e)
        with at(1) have "loop bytes (?at + 1) t
            = drain take_frame pass (drop (?at + 1) bytes) (base + (?at + 1)) t" for t
          by (intro less.hyps) auto
        with Inl lt Some show ?thesis
          unfolding d by (simp add: loop_eq [of bytes pos] c drain_refused)
      qed
    qed
  qed
qed

end

section \<open>The loops of the source\<close>

definition stream_take :: "rtcm_policy \<Rightarrow> decoded_frame \<Rightarrow> nat \<Rightarrow> rtcm_stream \<Rightarrow> rtcm_stream" where
  "stream_take pol f off s =
     (let (emitted, d) = read_frame f off pol (diagnostics s)
      in s\<lparr>messages := messages s @ (case emitted of None \<Rightarrow> [] | Some m \<Rightarrow> [m]), diagnostics := d\<rparr>)"

definition diag_pass :: "nat \<Rightarrow> nat \<Rightarrow> stream_diagnostics \<Rightarrow> stream_diagnostics" where
  "diag_pass a c d = d\<lparr>crc_failures := crc_failures d + c, resync_bytes := resync_bytes d + a\<rparr>"

definition stream_pass :: "nat \<Rightarrow> nat \<Rightarrow> rtcm_stream \<Rightarrow> rtcm_stream" where
  "stream_pass a c s = s\<lparr>diagnostics := diag_pass a c (diagnostics s)\<rparr>"

definition asm_take ::
  "rtcm_policy \<Rightarrow> decoded_frame \<Rightarrow> nat \<Rightarrow> stream_diagnostics \<times> (rust_error + message) list
     \<Rightarrow> stream_diagnostics \<times> (rust_error + message) list" where
  "asm_take pol f off s =
     (let (r, d) = decode_frame_message pol (fst s) f off in (d, snd s @ [r]))"

definition asm_pass ::
  "nat \<Rightarrow> nat \<Rightarrow> stream_diagnostics \<times> (rust_error + message) list
     \<Rightarrow> stream_diagnostics \<times> (rust_error + message) list" where
  "asm_pass a c s = (diag_pass a c (fst s), snd s)"

lemma diag_pass_simps [simp]:
  "diag_pass 0 0 d = d" "diag_pass a c (diag_pass a' c' d) = diag_pass (a' + a) (c' + c) d"
  "skipped_frames (diag_pass a c d) = skipped_frames d"
  "stream_departures (diag_pass a c d) = stream_departures d"
  "resync_bytes (diag_pass a c d) = resync_bytes d + a"
  "crc_failures (diag_pass a c d) = crc_failures d + c"
  by (simp_all add: diag_pass_def)

interpretation stream: scan_loop "stream_take pol" stream_pass 0 "\<lambda>bytes. stream_loop bytes pol"
  for pol
proof (unfold_locales, goal_cases)
  case (3 bytes pos s)
  show ?case
    by (subst stream_loop.simps)
      (simp add: stream_take_def stream_pass_def diag_pass_def case_prod_unfold Let_def
        split: option.split sum.split)
qed (simp_all add: stream_pass_def)

interpretation finish: scan_loop "asm_take pol" asm_pass drained
  "\<lambda>buf pos s. finish_loop buf pol drained pos (fst s) (snd s)" for pol drained
proof (unfold_locales, goal_cases)
  case (3 bytes pos s)
  show ?case
    by (subst finish_loop.simps)
      (simp add: asm_take_def asm_pass_def diag_pass_def case_prod_unfold Let_def
        split: option.split sum.split)
qed (simp_all add: asm_pass_def)

text \<open>The assembler's results against the messages of a stream.\<close>

definition decoded_only :: "(rust_error + message) list \<Rightarrow> message list" where
  "decoded_only rs = concat (map (\<lambda>r. case r of Inl _ \<Rightarrow> [] | Inr m \<Rightarrow> [m]) rs)"

definition as_stream :: "stream_diagnostics \<times> (rust_error + message) list \<Rightarrow> rtcm_stream" where
  "as_stream s = \<lparr>messages = decoded_only (snd s), diagnostics = fst s\<rparr>"

lemma as_stream_drain:
  "as_stream (drain (asm_take pol) asm_pass bs off s) = drain (stream_take pol) stream_pass bs off (as_stream s)"
  by (rule drain_commute)
    (auto simp: as_stream_def asm_take_def asm_pass_def stream_take_def stream_pass_def
      decode_frame_message_def decoded_only_def Let_def split: prod.split option.split)

lemma drain_out:
  "drain (asm_take pol) asm_pass bs off (d, out @ out')
     = (let (d', o') = drain (asm_take pol) asm_pass bs off (d, out') in (d', out @ o'))"
  using drain_commute [of "\<lambda>s. (fst s, out @ snd s)" "asm_take pol" "asm_take pol" asm_pass asm_pass bs off "(d, out')"]
  by (auto simp: asm_take_def asm_pass_def split: prod.split)

section \<open>Chunks\<close>

text \<open>Only the declared frame is looked at, so a complete frame decodes the same in a longer buffer.\<close>

lemma declared_len_append: "3 \<le> length bs \<Longrightarrow> declared_len (bs @ later) = declared_len bs"
  by (simp add: declared_len_def nth_append)

lemma frame_crcs_prefix:
  assumes "len + 6 \<le> length bs"
  shows "frame_crcs (bs @ later) len = frame_crcs bs len"
  using assms by (simp add: frame_crcs_def nth_append)

lemma decode_frame_prefix:
  assumes "FRAME_OVERHEAD \<le> length bs" and "3 + declared_len bs + 3 \<le> length bs" and "bs ! 0 = PREAMBLE"
  shows "(\<exists>e. decode_frame (bs @ later) = Inl e) \<and> frame_fails_crc (bs @ later)
       \<and> (\<exists>e. decode_frame bs = Inl e)
    \<or> (\<exists>f. decode_frame (bs @ later) = Inr f \<and> decode_frame bs = Inr f)"
proof -
  let ?n = "declared_len bs"
  have "declared_len (bs @ later) = ?n" "frame_crcs (bs @ later) ?n = frame_crcs bs ?n"
    "(bs @ later) ! 0 = PREAMBLE" "(bs @ later) ! 1 = bs ! 1"
    using assms by (auto simp: declared_len_append frame_crcs_prefix nth_append FRAME_OVERHEAD_def)
  then show ?thesis
    using assms by (auto simp: decode_frame_def frame_fails_crc_def Let_def FRAME_OVERHEAD_def split: prod.split)
qed

text \<open>
  From position \<open>pos\<close> with state \<open>s\<close> the scan can go on at \<open>pos'\<close> with \<open>s'\<close>, whatever
  bytes come later.
\<close>

definition resumes ::
  "rtcm_policy \<Rightarrow> u8 list \<Rightarrow> nat \<Rightarrow> nat \<Rightarrow> stream_diagnostics \<times> (rust_error + message) list
     \<Rightarrow> nat \<Rightarrow> stream_diagnostics \<times> (rust_error + message) list \<Rightarrow> bool" where
  "resumes pol buf drained pos s pos' s' \<longleftrightarrow> pos \<le> pos' \<and> pos' \<le> length buf \<and>
     (\<forall>later. drain (asm_take pol) asm_pass (drop pos buf @ later) (drained + pos) s
        = drain (asm_take pol) asm_pass (drop pos' buf @ later) (drained + pos') s')"

lemma resumes_refl: "pos \<le> length buf \<Longrightarrow> resumes pol buf drained pos s pos s"
  by (simp add: resumes_def)

lemma resumes_trans [trans]:
  "resumes pol buf drained p s p' s' \<Longrightarrow> resumes pol buf drained p' s' p'' s'' \<Longrightarrow>
     resumes pol buf drained p s p'' s''"
  by (auto simp: resumes_def)

lemma resumes_none:
  assumes "preamble_position (drop pos buf) = None" and "pos \<le> length buf"
  shows "resumes pol buf drained pos s (length buf) (asm_pass (length buf - pos) 0 s)"
proof -
  have "PREAMBLE \<notin> set (drop pos buf)" using assms(1) by (simp add: finish.no_preamble)
  from finish.drain_passes [OF this] assms(2) show ?thesis by (simp add: resumes_def)
qed

lemma resumes_preamble:
  assumes "preamble_position (drop pos buf) = Some rel"
  shows "resumes pol buf drained pos s (pos + rel) (asm_pass rel 0 s)"
    and "pos + rel < length buf" and "buf ! (pos + rel) = PREAMBLE"
proof -
  note p = preamble_position_Some [OF assms]
  then show at: "pos + rel < length buf" by (simp add: less_diff_conv add.commute)
  with p show "buf ! (pos + rel) = PREAMBLE" by simp
  show "resumes pol buf drained pos s (pos + rel) (asm_pass rel 0 s)"
    using finish.drain_to_preamble [OF assms] at by (simp add: resumes_def ac_simps)
qed

lemma resumes_whole:
  assumes "pos < length buf" and "buf ! pos = PREAMBLE"
    and "FRAME_OVERHEAD \<le> length buf - pos" and "3 + declared_len (drop pos buf) + 3 \<le> length buf - pos"
  shows "case decode_frame (take (3 + declared_len (drop pos buf) + 3) (drop pos buf)) of
           Inr f \<Rightarrow> resumes pol buf drained pos s (pos + df_frame_len f) (asm_take pol f (drained + pos) s)
             \<and> 0 < df_frame_len f
         | Inl _ \<Rightarrow> resumes pol buf drained pos s (pos + 1) (asm_pass 1 1 s)"
proof -
  let ?bs = "drop pos buf"
  let ?len = "3 + declared_len ?bs + 3"
  have ov: "FRAME_OVERHEAD \<le> length (take ?len ?bs)" "length (take ?len ?bs) = ?len"
    using assms by (auto simp: FRAME_OVERHEAD_def)
  have dl: "declared_len (take ?len ?bs) = declared_len ?bs" by (simp add: declared_len_def)
  have "take ?len ?bs ! 0 = PREAMBLE" using assms by simp
  note pre = decode_frame_prefix [OF ov(1) _ this, of "drop ?len ?bs @ later" for later, unfolded dl ov(2),
      OF order_refl, unfolded append_assoc [symmetric] append_take_drop_id]
  show ?thesis
  proof (cases "decode_frame (take ?len ?bs)")
    case (Inr f)
    then have f: "decode_frame (?bs @ later) = Inr f" for later using pre [of later] by auto
    have "df_frame_len f \<le> length ?bs" "0 < df_frame_len f"
      using decode_frame_Inr(1,2) [OF Inr] by (auto simp: FRAME_OVERHEAD_def)
    with Inr assms(1) show ?thesis by (simp add: resumes_def drain_frame [OF f] ac_simps)
  next
    case (Inl e)
    have c: "?bs @ later = PREAMBLE # drop (pos + 1) buf @ later" for later
      using assms(1,2) by (metis Cons_nth_drop_Suc Suc_eq_plus1 append_Cons)
    have "\<exists>e. decode_frame (PREAMBLE # drop (pos + 1) buf @ later) = Inl e
        \<and> frame_fails_crc (PREAMBLE # drop (pos + 1) buf @ later)" for later
      using pre [of later] Inl unfolding c by auto
    then have "drain (asm_take pol) asm_pass (?bs @ later) (drained + pos) s
        = drain (asm_take pol) asm_pass (drop (pos + 1) buf @ later) (drained + (pos + 1)) (asm_pass 1 1 s)"
      for later unfolding c using drain_refused by fastforce
    with Inl assms(1) show ?thesis by (simp add: resumes_def)
  qed
qed

text \<open>\<^verbatim>\<open>push\<close> stops where the scan can go on, with less than one frame left.\<close>

lemma push_loop_resumes:
  assumes "push_loop buf pol drained pos d out = (pos', d', out')" and "pos \<le> length buf"
  shows "resumes pol buf drained pos (d, out) pos' (d', out')
    \<and> length buf - pos' < MAX_BODY_LEN + FRAME_OVERHEAD"
  using assms
proof (induction "length buf - pos" arbitrary: pos d out rule: less_induct)
  case less
  show ?case
  proof (cases "preamble_position (drop pos buf)")
    case None
    with less.prems resumes_none [OF None less.prems(2), of pol drained "(d, out)"] show ?thesis
      by (auto simp: push_loop.simps [of buf pol drained pos] asm_pass_def diag_pass_def MAX_BODY_LEN_def
          FRAME_OVERHEAD_def resumes_refl split: if_splits)
  next
    case (Some rel)
    note pre = resumes_preamble [OF Some]
    let ?at = "pos + rel" and ?d = "diag_pass rel 0 d"
    let ?len = "3 + declared_len (drop ?at buf) + 3"
    have lt: "pos < length buf" using pre(2) by simp
    have d1: "d\<lparr>resync_bytes := resync_bytes d + rel\<rparr> = ?d" by (simp add: diag_pass_def)
    have first: "resumes pol buf drained pos (d, out) ?at (?d, out)"
      using pre(1) [of pol drained "(d, out)"] by (simp add: asm_pass_def)
    note unfolded = less.prems(1) [unfolded push_loop.simps [of buf pol drained pos] Let_def d1]
    show ?thesis
    proof (cases "length buf - ?at < FRAME_OVERHEAD \<or> length buf - ?at < ?len")
      case True
      with unfolded lt Some first declared_len_le [of "drop ?at buf"] show ?thesis
        by (auto simp: FRAME_OVERHEAD_def d1 split: if_splits)
    next
      case whole: False
      let ?r = "\<lambda>f. decode_frame_message pol ?d f (drained + ?at)"
      from resumes_whole [OF pre(2,3), of pol drained "(?d, out)"] whole
      have step: "case decode_frame (take ?len (drop ?at buf)) of
           Inr f \<Rightarrow> resumes pol buf drained ?at (?d, out) (?at + df_frame_len f)
               (snd (?r f), out @ [fst (?r f)]) \<and> 0 < df_frame_len f
         | Inl _ \<Rightarrow> resumes pol buf drained ?at (?d, out) (?at + 1) (diag_pass 1 1 ?d, out)"
        by (auto simp: asm_take_def asm_pass_def case_prod_unfold Let_def split: sum.splits)
      show ?thesis
      proof (cases "decode_frame (take ?len (drop ?at buf))")
        case (Inr f)
        from unfolded lt Some whole Inr
        have go: "push_loop buf pol drained (?at + df_frame_len f) (snd (?r f)) (out @ [fst (?r f)]) = (pos', d', out')"
          by (simp add: case_prod_unfold d1)
        have st: "resumes pol buf drained ?at (?d, out) (?at + df_frame_len f) (snd (?r f), out @ [fst (?r f)])"
          and "0 < df_frame_len f" using step Inr by simp_all
        then have p: "?at + df_frame_len f \<le> length buf" "length buf - (?at + df_frame_len f) < length buf - pos"
          using lt by (auto simp: resumes_def)
        from less.hyps [OF p(2) go p(1)] resumes_trans [OF first st] show ?thesis
          by (blast intro: resumes_trans)
      next
        case (Inl e)
        with unfolded lt Some whole
        have go: "push_loop buf pol drained (?at + 1) (diag_pass 1 1 ?d) out = (pos', d', out')"
          by (simp add: diag_pass_def)
        have st: "resumes pol buf drained ?at (?d, out) (?at + 1) (diag_pass 1 1 ?d, out)"
          using step Inl by simp
        then have p: "?at + 1 \<le> length buf" "length buf - (?at + 1) < length buf - pos"
          using lt by (auto simp: resumes_def)
        from less.hyps [OF p(2) go p(1)] resumes_trans [OF first st] show ?thesis
          by (blast intro: resumes_trans)
      qed
    qed
  qed
qed

fun push_all ::
  "u8 list list \<Rightarrow> ssr_stream_assembler \<Rightarrow> (rust_error + message) list \<times> ssr_stream_assembler" where
  "push_all [] a = ([], a)"
| "push_all (chunk # chunks) a =
     (let (out, a1) = push chunk a; (rest, a2) = push_all chunks a1 in (out @ rest, a2))"

definition assembled ::
  "u8 list list \<Rightarrow> ssr_stream_assembler \<Rightarrow> (rust_error + message) list \<times> ssr_stream_assembler" where
  "assembled chunks a =
     (let (out, a1) = push_all chunks a; (rest, a2) = assembler_finish a1 in (out @ rest, a2))"

text \<open>What the assembler holds is a scan that can be resumed with the bytes still to come.\<close>

definition pending :: "u8 list \<Rightarrow> ssr_stream_assembler \<Rightarrow> stream_diagnostics \<times> (rust_error + message) list" where
  "pending later a = drain (asm_take (as_policy a)) asm_pass (as_buf a @ later) (as_drained a) (as_diagnostics a, [])"

lemma push_pending:
  assumes "push chunk a = (out, a')"
  shows "pending (chunk @ later) a = (let (d, rs) = pending later a' in (d, out @ rs))"
    and "as_policy a' = as_policy a" and "retained_len a' < MAX_BODY_LEN + FRAME_OVERHEAD"
    and "as_drained a' + length (as_buf a') = as_drained a + length (as_buf a) + length chunk"
proof -
  let ?buf = "as_buf a @ chunk"
  obtain pos d where l: "push_loop ?buf (as_policy a) (as_drained a) 0 (as_diagnostics a) [] = (pos, d, out)"
    and a': "a' = a\<lparr>as_buf := drop pos ?buf, as_drained := as_drained a + pos, as_diagnostics := d\<rparr>"
    using assms by (auto simp: push_def Let_def split: prod.splits)
  from push_loop_resumes [OF l]
  have r: "resumes (as_policy a) ?buf (as_drained a) 0 (as_diagnostics a, []) pos (d, out)"
    and n: "length ?buf - pos < MAX_BODY_LEN + FRAME_OVERHEAD" by simp_all
  show "pending (chunk @ later) a = (let (d, rs) = pending later a' in (d, out @ rs))"
    using r drain_out [of "as_policy a" "drop pos ?buf @ later" "as_drained a + pos" d out "[]"]
    by (simp add: pending_def resumes_def a')
  show "as_policy a' = as_policy a" by (simp add: a')
  show "retained_len a' < MAX_BODY_LEN + FRAME_OVERHEAD" using n by (simp add: retained_len_def a')
  show "as_drained a' + length (as_buf a') = as_drained a + length (as_buf a) + length chunk"
    using r by (auto simp: a' resumes_def)
qed

lemma push_all_pending:
  "push_all chunks a = (out, a') \<Longrightarrow>
     pending (concat chunks @ later) a = (let (d, rs) = pending later a' in (d, out @ rs))
     \<and> as_policy a' = as_policy a
     \<and> as_drained a' + length (as_buf a') = as_drained a + length (as_buf a) + length (concat chunks)"
proof (induction chunks arbitrary: a out)
  case (Cons chunk chunks)
  from Cons.prems obtain o1 a1 o2 where p: "push chunk a = (o1, a1)" and q: "push_all chunks a1 = (o2, a')"
    and out: "out = o1 @ o2" by (auto simp: Let_def split: prod.splits)
  from push_pending [OF p] Cons.IH [OF q] show ?case
    by (simp add: out case_prod_unfold Let_def)
qed (simp add: case_prod_unfold)

lemma finish_pending:
  assumes "assembler_finish a = (out, a')"
  shows "pending [] a = (as_diagnostics a', out)" and "as_buf a' = []"
    and "as_drained a' = as_drained a + length (as_buf a)"
  using assms finish.loop_drain [of 0 "as_buf a" "as_policy a" "as_drained a" "(as_diagnostics a, [])"]
  by (auto simp: assembler_finish_def pending_def Let_def split: prod.splits)

lemma stream_drain:
  "decode_stream_with_policy bytes pol
     = drain (stream_take pol) stream_pass bytes 0 \<lparr>messages = [], diagnostics = diagnostics_default\<rparr>"
  using stream.loop_drain [of 0 bytes pol] by (simp add: decode_stream_with_policy_def)

lemma assembled_stream:
  assumes "assembled chunks (assembler_with_policy pol) = (out, a)"
  shows "\<lparr>messages = decoded_only out, diagnostics = as_diagnostics a\<rparr>
           = decode_stream_with_policy (concat chunks) pol"
    and "as_buf a = []" and "as_drained a = length (concat chunks)"
proof -
  let ?a = "assembler_with_policy pol"
  from assms obtain o1 a1 o2 where p: "push_all chunks ?a = (o1, a1)" and f: "assembler_finish a1 = (o2, a)"
    and out: "out = o1 @ o2" by (auto simp: assembled_def Let_def split: prod.splits)
  note q = push_all_pending [OF p, of "[]"] and r = finish_pending [OF f]
  have "pending (concat chunks) ?a = (as_diagnostics a, out)" using q r(1) by (simp add: out)
  then have "as_stream (drain (asm_take pol) asm_pass (concat chunks) 0 (diagnostics_default, []))
      = as_stream (as_diagnostics a, out)"
    by (simp add: pending_def assembler_with_policy_def)
  then show "\<lparr>messages = decoded_only out, diagnostics = as_diagnostics a\<rparr>
           = decode_stream_with_policy (concat chunks) pol"
    unfolding as_stream_drain stream_drain by (simp add: as_stream_def decoded_only_def)
  show "as_buf a = []" by (rule r(2))
  show "as_drained a = length (concat chunks)" using q r(3) by (simp add: assembler_with_policy_def)
qed

section \<open>Whole streams of messages\<close>

text \<open>Nothing counted is ever taken back.\<close>

lemma drain_mono:
  "resync_bytes (diagnostics s) \<le> resync_bytes (diagnostics (drain (stream_take pol) stream_pass bs off s))
   \<and> prefix (skipped_frames (diagnostics s))
       (skipped_frames (diagnostics (drain (stream_take pol) stream_pass bs off s)))"
  by (rule drain_invariant)
    (auto simp: stream_take_def stream_pass_def read_frame_def skip_frame_def Let_def
      split: sum.split prod.split)

lemma prefix_of_Nil: "prefix (xs @ [x]) [] \<longleftrightarrow> False"
  by simp

lemma stream_take_strict:
  assumes "skipped_frames (diagnostics (stream_take Strict f off s)) = []"
  shows "\<exists>m ds. message_decode_inner (df_body f) (ctx_new Strict) = Inr (m, ds) \<and> df_reserved f = 0
    \<and> messages (stream_take Strict f off s) = messages s @ [m]"
  using assms
  by (auto simp: stream_take_def read_frame_def skip_frame_def message_decode_classified_def Let_def
      split: sum.splits if_splits prod.splits decode_error.splits rust_error.splits)

lemma decoded_to_frame:
  assumes "decode_frame bytes = Inr f" and "message_decode_inner (df_body f) (ctx_new Strict) = Inr (m, ctx')"
    and "df_reserved f = 0"
  shows "to_frame m = Inr (take (df_frame_len f) bytes)"
  using message_decode_reproduces [OF assms(2)] decode_frame_Inr(4) [OF assms(1)] assms(3)
  by (simp add: reproduces_def to_frame_def message_encode_def encode_frame_def)

lemma drain_clean:
  assumes "r = drain (stream_take Strict) stream_pass bs off s"
    and "resync_bytes (diagnostics r) = 0" and "skipped_frames (diagnostics r) = []"
  shows "\<exists>ms frames. messages r = messages s @ ms \<and> concat frames = bs
    \<and> list_all2 (\<lambda>m frame. to_frame m = Inr frame) ms frames"
  using assms
proof (induction "length bs" arbitrary: bs off s rule: less_induct)
  case less
  let ?drain = "drain (stream_take Strict) stream_pass"
  show ?case
  proof (cases "decode_frame bs")
    case (Inr f)
    let ?s = "stream_take Strict f off s" and ?rest = "drop (df_frame_len f) bs"
    have r: "r = ?drain ?rest (off + df_frame_len f) ?s"
      using less.prems(1) by (simp add: drain_frame [OF Inr])
    have "skipped_frames (diagnostics ?s) = []"
      using drain_mono [of ?s Strict ?rest "off + df_frame_len f"] less.prems(3) r by simp
    from stream_take_strict [OF this] obtain m ctx' where
      m: "message_decode_inner (df_body f) (ctx_new Strict) = Inr (m, ctx')" "df_reserved f = 0"
      "messages ?s = messages s @ [m]" by blast
    have "length ?rest < length bs"
      using decode_frame_Inr(1,2) [OF Inr] by (auto simp: FRAME_OVERHEAD_def)
    from less.hyps [OF this r less.prems(2,3)] obtain ms frames where
      "messages r = messages ?s @ ms" "concat frames = ?rest"
      "list_all2 (\<lambda>m frame. to_frame m = Inr frame) ms frames" by blast
    with m(3) decoded_to_frame [OF Inr m(1,2)] show ?thesis
      by (intro exI [of _ "m # ms"] exI [of _ "take (df_frame_len f) bs # frames"]) simp
  next
    case (Inl e)
    show ?thesis
    proof (cases bs)
      case Nil
      with less.prems(1) show ?thesis by (intro exI [of _ "[]"]) simp
    next
      case (Cons b rest)
      with Inl less.prems(1) obtain c where "r = ?drain rest (off + 1) (stream_pass 1 c s)"
        by (cases "b = PREAMBLE") (auto simp: drain_other drain_refused)
      with drain_mono [of "stream_pass 1 c s" Strict rest "off + 1"] less.prems(2)
      show ?thesis by (simp add: stream_pass_def)
    qed
  qed
qed

lemma decode_messages_Inr:
  "decode_messages bytes = Inr ms \<longleftrightarrow>
     (let s = decode_stream_with_policy bytes Strict
      in skipped_frames (diagnostics s) = [] \<and> resync_bytes (diagnostics s) = 0 \<and> messages s = ms)"
  by (auto simp: decode_messages_def decode_stream_def Let_def split: list.splits)

lemma decode_messages_frames:
  assumes "decode_messages bytes = Inr ms"
  shows "\<exists>frames. concat frames = bytes \<and> list_all2 (\<lambda>m frame. to_frame m = Inr frame) ms frames"
  using assms drain_clean [of _ bytes 0 "\<lparr>messages = [], diagnostics = diagnostics_default\<rparr>"]
  by (auto simp: decode_messages_Inr stream_drain Let_def)

text \<open>The frames of messages that encode are read back, one message per frame.\<close>

lemma to_frame_taken:
  assumes "to_frame m = Inr frame"
  shows "\<exists>f n. (\<forall>rest. decode_frame (frame @ rest) = Inr f) \<and> df_frame_len f = length frame
    \<and> (\<forall>off s. stream_take Strict f off s = s\<lparr>messages := messages s @ [message_as_read n m]\<rparr>)"
proof -
  from assms obtain body ds where e: "message_encode_with_policy Strict m = Inr (body, ds)"
    and fr: "encode_frame_with_reserved body 0 = Inr frame"
    by (auto simp: to_frame_def message_encode_def encode_frame_def)
  note s = message_strict_encode [OF e]
  from message_encode_reads_back [OF e] s obtain n where
    d: "message_decode_inner body (ctx_new Strict) = Inr (message_as_read n m, \<lparr>policy = Strict, departures = []\<rparr>)"
    by (auto simp: reads_back_def)
  let ?f = "\<lparr>df_body = body, df_frame_len = length frame, df_reserved = 0\<rparr>"
  have "stream_take Strict ?f off s = s\<lparr>messages := messages s @ [message_as_read n m]\<rparr>" for off s
    by (simp add: stream_take_def read_frame_def message_decode_classified_def d)
  with decode_frame_encode(1) [OF fr] show ?thesis
    by (intro exI [of _ ?f] exI [of _ n]) simp
qed

lemma drain_frames:
  assumes "list_all2 (\<lambda>m frame. to_frame m = Inr frame) ms frames"
  shows "\<exists>ns. length ns = length ms \<and> (\<forall>off s. drain (stream_take Strict) stream_pass (concat frames) off s
    = s\<lparr>messages := messages s @ map2 message_as_read ns ms\<rparr>)"
  using assms
proof (induction rule: list_all2_induct)
  case (Cons m ms frame frames)
  from to_frame_taken [OF Cons.hyps(1)] obtain f n where
    f: "\<And>rest. decode_frame (frame @ rest) = Inr f" "df_frame_len f = length frame"
    "\<And>off s. stream_take Strict f off s = s\<lparr>messages := messages s @ [message_as_read n m]\<rparr>" by blast
  from Cons.IH obtain ns where "length ns = length ms"
    "\<And>off s. drain (stream_take Strict) stream_pass (concat frames) off s
      = s\<lparr>messages := messages s @ map2 message_as_read ns ms\<rparr>" by blast
  with f show ?case
    by (intro exI [of _ "n # ns"]) (simp add: drain_frame [OF f(1)])
qed (intro exI [of _ "[]"], simp)

lemma frames_decode_messages:
  assumes "list_all2 (\<lambda>m frame. to_frame m = Inr frame) ms frames"
  shows "\<exists>ns. length ns = length ms \<and> decode_messages (concat frames) = Inr (map2 message_as_read ns ms)"
  using drain_frames [OF assms]
  by (auto simp: decode_messages_Inr stream_drain Let_def diagnostics_default_def)

section \<open>The frame scanner\<close>

definition scan_take ::
  "decoded_frame \<Rightarrow> nat \<Rightarrow> decoded_frame list \<times> nat \<times> nat \<Rightarrow> decoded_frame list \<times> nat \<times> nat" where
  "scan_take f off s = (fst s @ [f], snd s)"

definition scan_pass ::
  "nat \<Rightarrow> nat \<Rightarrow> decoded_frame list \<times> nat \<times> nat \<Rightarrow> decoded_frame list \<times> nat \<times> nat" where
  "scan_pass a c s = (fst s, fst (snd s) + a, snd (snd s) + c)"

lemma scan_drain_frames:
  "drain scan_take scan_pass bs off (fs @ fs', r, c)
     = (let (gs, r', c') = drain scan_take scan_pass bs off (fs', r, c) in (fs @ gs, r', c'))"
  using drain_commute [of "\<lambda>s. (fs @ fst s, snd s)" scan_take scan_take scan_pass scan_pass bs off "(fs', r, c)"]
  by (auto simp: scan_take_def scan_pass_def split: prod.split)

lemma scan_all_drain:
  assumes "fs_pos s \<le> length (fs_bytes s)"
  shows "scan_all s =
    (let (frames, r, c) = drain scan_take scan_pass (drop (fs_pos s) (fs_bytes s)) (fs_pos s)
        ([], fs_resync_bytes s, fs_crc_failures s)
     in (frames, s\<lparr>fs_pos := length (fs_bytes s), fs_resync_bytes := r, fs_crc_failures := c\<rparr>))"
  using assms
proof (induction "length (fs_bytes s) - fs_pos s" arbitrary: s rule: less_induct)
  case less
  let ?here = "drop (fs_pos s) (fs_bytes s)"
  show ?case
  proof (cases "fs_pos s < length (fs_bytes s)")
    case False
    with less.prems show ?thesis
      by (simp add: scan_all.simps [of s] scanner_next.simps [of s])
  next
    case lt: True
    then have c: "?here = fs_bytes s ! fs_pos s # drop (fs_pos s + 1) (fs_bytes s)"
      by (metis Cons_nth_drop_Suc Suc_eq_plus1)
    show ?thesis
    proof (cases "decode_frame ?here")
      case (Inr f)
      let ?t = "s\<lparr>fs_pos := fs_pos s + df_frame_len f\<rparr>"
      have len: "0 < df_frame_len f" "df_frame_len f \<le> length ?here"
        using decode_frame_Inr(1,2) [OF Inr] by (auto simp: FRAME_OVERHEAD_def)
      have "scanner_next s = (Some f, ?t)"
        using lt Inr decode_frame_Inr(3) [OF Inr] by (simp add: scanner_next.simps [of s])
      then have "scan_all s = (let (fs, s'') = scan_all ?t in (f # fs, s''))"
        by (simp add: scan_all.simps [of s])
      moreover have "drain scan_take scan_pass ?here (fs_pos s) ([], r, c)
          = (let (gs, r', c') = drain scan_take scan_pass (drop (fs_pos ?t) (fs_bytes ?t)) (fs_pos ?t) ([], r, c)
             in (f # gs, r', c'))" for r c
        using scan_drain_frames [of _ _ "[f]" "[]"]
        by (simp add: drain_frame [OF Inr] scan_take_def add.commute)
      ultimately show ?thesis
        using less.hyps [of ?t] len lt by (simp add: case_prod_unfold Let_def)
    next
      case (Inl e)
      let ?t = "if fs_bytes s ! fs_pos s = PREAMBLE \<and> frame_fails_crc ?here
                then s\<lparr>fs_crc_failures := fs_crc_failures s + 1\<rparr> else s"
      have "scanner_next s = scanner_next (scanner_skip ?t)"
        using lt Inl by (simp add: scanner_next.simps [of s] Let_def)
      then have "scan_all s = scan_all (scanner_skip ?t)"
        by (simp add: scan_all.simps [of s] scan_all.simps [of "scanner_skip ?t"])
      moreover have "drain scan_take scan_pass ?here (fs_pos s) ([], fs_resync_bytes s, fs_crc_failures s)
          = drain scan_take scan_pass (drop (fs_pos s + 1) (fs_bytes s)) (fs_pos s + 1)
              ([], fs_resync_bytes (scanner_skip ?t), fs_crc_failures (scanner_skip ?t))"
        using Inl unfolding c
        by (cases "fs_bytes s ! fs_pos s = PREAMBLE")
          (auto simp: drain_other drain_refused scan_pass_def scanner_skip_def)
      moreover have "fs_bytes (scanner_skip ?t) = fs_bytes s" "fs_pos (scanner_skip ?t) = fs_pos s + 1"
        "(scanner_skip ?t)\<lparr>fs_pos := p, fs_resync_bytes := r, fs_crc_failures := n\<rparr>
          = s\<lparr>fs_pos := p, fs_resync_bytes := r, fs_crc_failures := n\<rparr>" for p r n
        by (cases s; simp add: scanner_skip_def)+
      ultimately show ?thesis
        using less.hyps [of "scanner_skip ?t"] lt by (simp add: case_prod_unfold Let_def)
    qed
  qed
qed

text \<open>The stream decoder sees the frames of the scanner and counts what it counts.\<close>

lemma stream_scans:
  assumes "scan_all (scanner_new bytes) = (frames, s)"
  shows "resync_bytes (diagnostics (decode_stream_with_policy bytes pol)) = fs_resync_bytes s"
    and "crc_failures (diagnostics (decode_stream_with_policy bytes pol)) = fs_crc_failures s"
    and "length (messages (decode_stream_with_policy bytes pol))
       + length (skipped_frames (diagnostics (decode_stream_with_policy bytes pol))) = length frames"
proof -
  let ?h = "\<lambda>st. (resync_bytes (diagnostics st), crc_failures (diagnostics st),
      length (messages st) + length (skipped_frames (diagnostics st)))"
  let ?t = "\<lambda>f off (r, c, n). (r, c, n + 1)" and ?p = "\<lambda>a b (r, c, n). (r + a, c + b, n)"
  let ?k = "\<lambda>(fs, r, c). (r, c, length fs)"
  obtain r c where d: "drain scan_take scan_pass bytes 0 ([], 0, 0) = (frames, r, c)"
    and s: "fs_resync_bytes s = r" "fs_crc_failures s = c"
    using assms scan_all_drain [of "scanner_new bytes"]
    by (auto simp: scanner_new_def Let_def split: prod.splits)
  have "?h (decode_stream_with_policy bytes pol) = drain ?t ?p bytes 0 (0, 0, 0)"
    unfolding stream_drain
    by (subst drain_commute [of ?h _ ?t _ ?p])
      (auto simp: stream_take_def stream_pass_def read_frame_def skip_frame_def diagnostics_default_def
        Let_def split: sum.split prod.split)
  also have "\<dots> = ?k (drain scan_take scan_pass bytes 0 ([], 0, 0))"
    by (subst drain_commute [of ?k _ ?t _ ?p]) (auto simp: scan_take_def scan_pass_def split: prod.split)
  finally show "resync_bytes (diagnostics (decode_stream_with_policy bytes pol)) = fs_resync_bytes s"
    and "crc_failures (diagnostics (decode_stream_with_policy bytes pol)) = fs_crc_failures s"
    and "length (messages (decode_stream_with_policy bytes pol))
       + length (skipped_frames (diagnostics (decode_stream_with_policy bytes pol))) = length frames"
    by (simp_all add: d s)
qed

end
