(* ===== verification/Rtcm_Lli.thy ===== *)
theory Rtcm_Lli
  imports Rtcm_Msm
begin

text \<open>
  The lock times of \<^verbatim>\<open>rtcm/lli.rs\<close>: the minimum lock times of DF402 and DF407, the elapsed
  time between MSM epochs, the RINEX loss-of-lock digit, the per-signal tracker and the RINEX codes
  of the signal masks. Integers keep the widths of the source.
\<close>

section \<open>The model\<close>

definition WEEK_MS :: u64 where
  "WEEK_MS = 604800000"

definition DAY_MS :: u64 where
  "DAY_MS = 86400000"

definition GLONASS_DAY_UNKNOWN :: u32 where
  "GLONASS_DAY_UNKNOWN = 7"

definition GLONASS_DAY_SHIFT :: nat where
  "GLONASS_DAY_SHIFT = 27"

definition GLONASS_MS_MASK :: u32 where
  "GLONASS_MS_MASK = push_bit GLONASS_DAY_SHIFT 1 - 1"

definition LLI_LOSS_OF_LOCK :: u8 where
  "LLI_LOSS_OF_LOCK = 1"

definition LLI_HALF_CYCLE :: u8 where
  "LLI_HALF_CYCLE = 2"

record previous_lock =
  pl_min_lock_time_ms :: "u32 option"
  pl_elapsed_ms :: u64

record cell_lli =
  cl_satellite_id :: u8
  cl_signal_id :: u8
  cl_lli :: u8
  cl_min_lock_time_ms :: "u32 option"

record cell_key =
  ck_system :: gnss_system
  ck_satellite_id :: u8
  ck_signal_id :: u8

record cell_state =
  cs_raw_epoch_time :: u32
  cs_min_lock_time_ms :: "u32 option"

record lock_time_tracker =
  lt_cells :: "cell_key \<Rightarrow> cell_state option"

definition tracker_new :: lock_time_tracker where
  "tracker_new = \<lparr>lt_cells = Map.empty\<rparr>"

definition df402_minimum_lock_time_ms :: "u16 \<Rightarrow> u32 option" where
  "df402_minimum_lock_time_ms indicator =
     (if indicator = 0 then Some 0
      else if indicator \<le> 15 then Some (push_bit (unat indicator + 4) 1)
      else None)"

definition df407_minimum_lock_time_ms :: "u16 \<Rightarrow> u32 option" where
  "df407_minimum_lock_time_ms indicator =
     (let n = ucast indicator :: u32 in
      if n \<le> 63 then Some n
      else if n \<le> 703 then
        (let segment = (n - 64) div 32;
             start = 64 + segment * 32;
             scale = push_bit (unat (segment + 1)) 1;
             start_value = scale * start - scale * 32 * (segment + 1)
         in Some (start_value + scale * (n - start)))
      else if n = 704 then Some 67108864
      else None)"

definition minimum_lock_time_ms :: "msm_kind \<Rightarrow> u16 \<Rightarrow> u32 option" where
  "minimum_lock_time_ms kind indicator =
     (case kind of
        Msm1 \<Rightarrow> None
      | Msm2 \<Rightarrow> df402_minimum_lock_time_ms indicator
      | Msm3 \<Rightarrow> df402_minimum_lock_time_ms indicator
      | Msm4 \<Rightarrow> df402_minimum_lock_time_ms indicator
      | Msm5 \<Rightarrow> df402_minimum_lock_time_ms indicator
      | Msm6 \<Rightarrow> df407_minimum_lock_time_ms indicator
      | Msm7 \<Rightarrow> df407_minimum_lock_time_ms indicator)"

definition signal_minimum_lock_time_ms :: "msm_signal \<Rightarrow> msm_kind \<Rightarrow> u32 option" where
  "signal_minimum_lock_time_ms signal kind =
     (case sg_lock_time_indicator signal of
        None \<Rightarrow> None
      | Some indicator \<Rightarrow> minimum_lock_time_ms kind indicator)"

definition derive_lli :: "previous_lock option \<Rightarrow> u32 option \<Rightarrow> bool \<Rightarrow> u8" where
  "derive_lli previous current_min_lock_ms half_cycle_ambiguity =
     (let lli = (if half_cycle_ambiguity then LLI_HALF_CYCLE else 0) in
      case previous of
        None \<Rightarrow> lli
      | Some prev \<Rightarrow>
          (case current_min_lock_ms of
             None \<Rightarrow> lli OR LLI_LOSS_OF_LOCK
           | Some current \<Rightarrow>
               (let decreased = (case pl_min_lock_time_ms prev of
                                   None \<Rightarrow> False
                                 | Some previous_min \<Rightarrow> current < previous_min);
                    uncovered_gap = (ucast current :: u64) < pl_elapsed_ms prev
                in if decreased \<or> uncovered_gap then lli OR LLI_LOSS_OF_LOCK else lli)))"

definition modulo_elapsed_ms :: "u64 \<Rightarrow> u64 \<Rightarrow> u64 \<Rightarrow> u64" where
  "modulo_elapsed_ms previous current modulus =
     (current + modulus - (previous mod modulus)) mod modulus"

definition msm_epoch_dt_ms :: "gnss_system \<Rightarrow> u32 \<Rightarrow> u32 \<Rightarrow> u64" where
  "msm_epoch_dt_ms sys previous current =
     (if sys = Glonass then
        (let prev_day = drop_bit GLONASS_DAY_SHIFT previous;
             now_day = drop_bit GLONASS_DAY_SHIFT current;
             prev_ms = ucast (previous AND GLONASS_MS_MASK);
             now_ms = ucast (current AND GLONASS_MS_MASK)
         in if prev_day = GLONASS_DAY_UNKNOWN \<or> now_day = GLONASS_DAY_UNKNOWN
            then modulo_elapsed_ms prev_ms now_ms DAY_MS
            else modulo_elapsed_ms (ucast prev_day * DAY_MS + prev_ms) (ucast now_day * DAY_MS + now_ms) WEEK_MS)
      else modulo_elapsed_ms (ucast previous) (ucast current) WEEK_MS)"

text \<open>One turn of the loop of \<open>observe\<close> over the signals of a message.\<close>

definition observe_signal ::
  "msm_message \<Rightarrow> msm_signal \<Rightarrow> lock_time_tracker \<times> cell_lli list \<Rightarrow> lock_time_tracker \<times> cell_lli list" where
  "observe_signal msg signal st =
     (case st of (tracker, out) \<Rightarrow>
      case sg_half_cycle_ambiguity signal of
        None \<Rightarrow> (tracker, out)
      | Some half_cycle_ambiguity \<Rightarrow>
          (let key = \<lparr>ck_system = mm_system msg, ck_satellite_id = sg_satellite_id signal,
                      ck_signal_id = sg_signal_id signal\<rparr>;
               min_lock_time_ms = signal_minimum_lock_time_ms signal (mm_kind msg);
               previous = map_option (\<lambda>state.
                   \<lparr>pl_min_lock_time_ms = cs_min_lock_time_ms state,
                    pl_elapsed_ms = msm_epoch_dt_ms (mm_system msg) (cs_raw_epoch_time state)
                                      (mh_epoch_time (mm_header msg))\<rparr>)
                 (lt_cells tracker key);
               lli = derive_lli previous min_lock_time_ms half_cycle_ambiguity;
               out' = out @ [\<lparr>cl_satellite_id = sg_satellite_id signal,
                              cl_signal_id = sg_signal_id signal,
                              cl_lli = lli, cl_min_lock_time_ms = min_lock_time_ms\<rparr>]
           in if (case previous of None \<Rightarrow> True | Some prev \<Rightarrow> pl_elapsed_ms prev \<noteq> 0)
              then (tracker\<lparr>lt_cells := (lt_cells tracker)(key \<mapsto>
                      \<lparr>cs_raw_epoch_time = mh_epoch_time (mm_header msg),
                       cs_min_lock_time_ms = min_lock_time_ms\<rparr>)\<rparr>, out')
              else (tracker, out')))"

definition observe :: "lock_time_tracker \<Rightarrow> msm_message \<Rightarrow> lock_time_tracker \<times> cell_lli list" where
  "observe tracker msg = fold (observe_signal msg) (mm_signals msg) (tracker, [])"

definition tracker_reset :: "lock_time_tracker \<Rightarrow> lock_time_tracker" where
  "tracker_reset tracker = tracker\<lparr>lt_cells := Map.empty\<rparr>"

definition GPS_SIGNALS :: "string option list" where
  "GPS_SIGNALS = [
     None,
     None, Some ''1C'', Some ''1P'', Some ''1W'', None, None, None,
     Some ''2C'', Some ''2P'', Some ''2W'', None, None, None, None,
     Some ''2S'', Some ''2L'', Some ''2X'', None, None, None, None,
     Some ''5I'', Some ''5Q'', Some ''5X'', None, None, None, None, None,
     Some ''1S'', Some ''1L'', Some ''1X'']"

definition GLONASS_SIGNALS :: "string option list" where
  "GLONASS_SIGNALS = [
     None,
     None, Some ''1C'', Some ''1P'', None, None, None, None,
     Some ''2C'', Some ''2P'', None, None, None, None, Some ''3I'',
     Some ''3Q'', Some ''3X'', None, Some ''4A'', Some ''4B'', Some ''4X'', None,
     Some ''6A'', Some ''6B'', Some ''6X'', None, None, None, None, None,
     None, None, None]"

definition GALILEO_SIGNALS :: "string option list" where
  "GALILEO_SIGNALS = [
     None,
     None, Some ''1C'', Some ''1A'', Some ''1B'', Some ''1X'', Some ''1Z'', None,
     Some ''6C'', Some ''6A'', Some ''6B'', Some ''6X'', Some ''6Z'', None,
     Some ''7I'', Some ''7Q'', Some ''7X'', None, Some ''8I'', Some ''8Q'', Some ''8X'', None,
     Some ''5I'', Some ''5Q'', Some ''5X'', None, None, None, None, None,
     None, None, None]"

definition SBAS_SIGNALS :: "string option list" where
  "SBAS_SIGNALS = [
     None,
     None, Some ''1C'', None, None, None, None, None,
     None, None, None, None, None, None, None,
     None, None, None, None, None, None, None,
     Some ''5I'', Some ''5Q'', Some ''5X'', None, None, None, None, None,
     None, None, None]"

definition QZSS_SIGNALS :: "string option list" where
  "QZSS_SIGNALS = [
     None,
     None, Some ''1C'', None, None, Some ''1E'', Some ''1Z'', Some ''1B'',
     None, Some ''6S'', Some ''6L'', Some ''6X'', Some ''6E'', Some ''6Z'', None,
     Some ''2S'', Some ''2L'', Some ''2X'', None, None, None, None,
     Some ''5I'', Some ''5Q'', Some ''5X'', Some ''5D'', Some ''5P'', Some ''5Z'', None, None,
     Some ''1S'', Some ''1L'', Some ''1X'']"

definition BEIDOU_SIGNALS :: "string option list" where
  "BEIDOU_SIGNALS = [
     None,
     None, Some ''2I'', Some ''2Q'', Some ''2X'', Some ''1S'', Some ''1L'', Some ''1Z'',
     Some ''6I'', Some ''6Q'', Some ''6X'', Some ''6D'', Some ''6P'', Some ''6Z'', Some ''7I'',
     Some ''7Q'', Some ''7X'', None, Some ''8D'', Some ''8P'', Some ''8X'', None,
     Some ''5D'', Some ''5P'', Some ''5X'', Some ''7D'', Some ''7P'', Some ''7Z'', None, None,
     Some ''1D'', Some ''1P'', Some ''1X'']"

definition NAVIC_SIGNALS :: "string option list" where
  "NAVIC_SIGNALS = [
     None,
     None, Some ''1D'', Some ''1P'', Some ''1X'', None, None, None,
     Some ''9A'', Some ''9B'', Some ''9C'', Some ''9X'', None, None, None,
     None, None, None, None, None, None, None,
     Some ''5A'', Some ''5B'', Some ''5C'', Some ''5X'', None, None, None, None,
     None, None, None]"

definition signal_table :: "gnss_system \<Rightarrow> string option list" where
  "signal_table sys =
     (case sys of
        Gps \<Rightarrow> GPS_SIGNALS
      | Glonass \<Rightarrow> GLONASS_SIGNALS
      | Galileo \<Rightarrow> GALILEO_SIGNALS
      | Sbas \<Rightarrow> SBAS_SIGNALS
      | Qzss \<Rightarrow> QZSS_SIGNALS
      | BeiDou \<Rightarrow> BEIDOU_SIGNALS
      | Navic \<Rightarrow> NAVIC_SIGNALS)"

definition msm_signal_rinex_code :: "gnss_system \<Rightarrow> u8 \<Rightarrow> string option" where
  "msm_signal_rinex_code sys signal_id =
     (let table = signal_table sys in
      if unat signal_id < length table then table ! unat signal_id else None)"

section \<open>Lock times\<close>

text \<open>DF402 and DF407 in unbounded arithmetic: no step of the source wraps.\<close>

definition lock_time_spec :: "nat \<Rightarrow> nat option" where
  "lock_time_spec n =
     (if n < 64 then Some n
      else if n \<le> 704 then Some (2 ^ (n div 32 - 1) * (n - 32 * (n div 32 - 1)))
      else None)"

lemma unat_u16_u32 [simp]: "unat (ucast (i :: u16) :: u32) = unat i"
  using unsigned_less [of i, where ?'a = nat] by (simp add: unsigned_ucast_eq take_bit_nat_eq_self)

lemma lock_segment:
  fixes n :: nat
  assumes "64 \<le> n" and "n \<le> 703"
  obtains k where "k < 20" "n div 32 = k + 2" "64 + 32 * k \<le> n" "n < 96 + 32 * k"
  by (rule that [of "n div 32 - 2"]) (use assms in auto)

lemma df407_segment:
  assumes "64 \<le> unat i" and "unat i \<le> 703"
  shows "df407_minimum_lock_time_ms i = Some (of_nat (2 ^ (unat i div 32 - 1) * (unat i - 32 * (unat i div 32 - 1))))"
proof -
  let ?n = "unat i" and ?w = "ucast i :: u32"
  from lock_segment [OF assms] obtain k where
    k: "k < 20" "?n div 32 = k + 2" "64 + 32 * k \<le> ?n" "?n < 96 + 32 * k" by blast
  have w: "?w = of_nat ?n"
    by (metis of_nat_unat ucast_id unat_u16_u32)
  have le: "(64::u32) \<le> ?w" "\<not> ?w \<le> 63" "?w \<le> 703"
    using assms by (simp_all add: word_le_nat_alt)
  have "unat ((?w - 64) div 32) = k"
    using k le(1) by (simp add: unat_div unat_sub)
  then have seg: "(?w - 64) div 32 = of_nat k" by (metis of_nat_unat ucast_id)
  have scale: "unat (of_nat k + 1 :: u32) = k + 1"
    using k(1) by (simp add: unat_word_ariths unat_of_nat)
  have "?w - 32 * (of_nat k + 1) = of_nat (?n - 32 * (k + 1))"
    unfolding w by (subst of_nat_diff) (use k(3) in simp_all)
  moreover have "s * (64 + q * 32) - s * 32 * (q + 1) + s * (?w - (64 + q * 32)) = s * (?w - 32 * (q + 1))" for s q
    by (simp add: algebra_simps)
  ultimately have "2 ^ (k + 1) * (64 + of_nat k * 32) - 2 ^ (k + 1) * 32 * (of_nat k + 1)
      + 2 ^ (k + 1) * (?w - (64 + of_nat k * 32)) = of_nat (2 ^ (k + 1) * (?n - 32 * (k + 1)))"
    by (simp only: of_nat_mult of_nat_power of_nat_numeral)
  with le k(2) show ?thesis
    by (simp add: df407_minimum_lock_time_ms_def seg scale push_bit_eq_mult del: of_nat_mult of_nat_power)
qed

lemma df407_spec:
  "map_option unat (df407_minimum_lock_time_ms i) = lock_time_spec (unat i)"
proof -
  let ?n = "unat i"
  consider "?n < 64" | "64 \<le> ?n" "?n \<le> 703" | "?n = 704" | "704 < ?n" by linarith
  then show ?thesis
  proof cases
    case 2
    from lock_segment [OF this] obtain k where
      k: "k < 20" "?n div 32 = k + 2" "64 + 32 * k \<le> ?n" "?n < 96 + 32 * k" by blast
    have "(2::nat) ^ (k + 1) \<le> 2 ^ 20" using k(1) by (intro power_increasing) auto
    then have "2 ^ (k + 1) * (?n - 32 * (k + 1)) \<le> 2 ^ 20 * (64::nat)"
      by (rule mult_le_mono) (use k in auto)
    then have "unat (of_nat (2 ^ (k + 1) * (?n - 32 * (k + 1))) :: u32) = 2 ^ (k + 1) * (?n - 32 * (k + 1))"
      by (simp add: unat_of_nat del: of_nat_mult)
    with 2 k(2) show ?thesis
      by (simp add: df407_segment lock_time_spec_def del: of_nat_mult)
  next
    case 3
    then have "i = 704" by (metis of_nat_numeral of_nat_unat ucast_id)
    with 3 show ?thesis by (simp add: df407_minimum_lock_time_ms_def lock_time_spec_def)
  qed (auto simp: df407_minimum_lock_time_ms_def lock_time_spec_def word_le_nat_alt Let_def
      dest: arg_cong [where f = unat])
qed

lemma lock_time_spec_mono:
  assumes "a < b" and "b \<le> 704"
  shows "the (lock_time_spec a) < the (lock_time_spec b)"
proof -
  have step: "the (lock_time_spec n) < the (lock_time_spec (Suc n))" if "n < 704" for n
  proof (cases "n < 63")
    case False
    consider "Suc n div 32 = n div 32" | "Suc n div 32 = Suc (n div 32)" "n = 32 * (n div 32) + 31"
      using div_Suc [of n 32] mod_Suc [of n 32] mult_div_mod_eq [of 32 n]
      by (cases "Suc (n mod 32) = 32") auto
    then show ?thesis
    proof cases
      case 1
      with False that show ?thesis by (auto simp: lock_time_spec_def)
    next
      case 2
      with False have "0 < n div 32" by linarith
      then obtain r where r: "n div 32 = Suc r" using gr0_conv_Suc by blast
      with 2 have n: "n = 32 * r + 63" by simp
      have "Suc n div 32 = r + 2" using 2(1) r by simp
      with r False that show ?thesis by (auto simp: lock_time_spec_def n)
    qed
  qed (auto simp: lock_time_spec_def)
  show ?thesis using assms
  proof (induction b)
    case (Suc b)
    with step [of b] show ?case by (cases "a = b") auto
  qed simp
qed

lemma df402_spec:
  "df402_minimum_lock_time_ms i = Some v \<longleftrightarrow> i \<le> 15 \<and> unat v = (if i = 0 then 0 else 2 ^ (unat i + 4))"
proof -
  have "unat (push_bit (unat i + 4) 1 :: u32) = 2 ^ (unat i + 4)" if "i \<le> 15"
    using that power_strict_increasing [of "unat i + 4" 32 "2::nat"] unat_of_nat [of "2 ^ (unat i + 4)", where 'a = 32] by (simp add: word_le_nat_alt push_bit_eq_mult)
  then show ?thesis
    by (auto simp: df402_minimum_lock_time_ms_def unat_eq_0 intro!: unsigned_word_eqI [where 'a = nat])
qed

lemma df402_values:
  "map_option unat (df402_minimum_lock_time_ms i) =
     (if unat i = 0 then Some 0 else if unat i \<le> 15 then Some (2 ^ (unat i + 4)) else None)"
  using df402_spec [of i "push_bit (unat i + 4) 1"]
  by (auto simp: df402_minimum_lock_time_ms_def unat_eq_0 word_le_nat_alt split: if_splits)

lemma df407_less_iff:
  assumes "df407_minimum_lock_time_ms a = Some s" and "df407_minimum_lock_time_ms b = Some t"
  shows "s < t \<longleftrightarrow> a < b"
proof -
  have v: "the (lock_time_spec (unat i)) = unat v" "unat i \<le> 704"
    if "df407_minimum_lock_time_ms i = Some v" for i v
    using df407_spec [of i] that by (auto simp: lock_time_spec_def split: if_splits)
  have less: "unat s < unat t" if "unat a < unat b"
    using lock_time_spec_mono [OF that] v assms by simp
  have greater: "unat t < unat s" if "unat b < unat a"
    using lock_time_spec_mono [OF that] v assms by simp
  have same: "s = t" if "unat a = unat b"
    using that assms by (simp add: word_unat_eq_iff [of a b, symmetric])
  from less greater same show ?thesis
    unfolding word_less_nat_alt by (metis less_asym' linorder_neqE_nat order_less_irrefl)
qed

section \<open>Epochs\<close>

text \<open>The time of week of a raw MSM epoch, and its time of day for GLONASS.\<close>

definition day_unknown :: "u32 \<Rightarrow> bool" where
  "day_unknown raw \<longleftrightarrow> drop_bit GLONASS_DAY_SHIFT raw = GLONASS_DAY_UNKNOWN"

definition ms_of_day :: "u32 \<Rightarrow> nat" where
  "ms_of_day raw = unat raw mod 2 ^ 27"

definition ms_of_week :: "gnss_system \<Rightarrow> u32 \<Rightarrow> nat" where
  "ms_of_week sys raw =
     (if sys = Glonass then unat raw div 2 ^ 27 * 86400000 + ms_of_day raw else unat raw)"

definition advances :: "nat \<Rightarrow> nat \<Rightarrow> nat \<Rightarrow> nat \<Rightarrow> bool" where
  "advances m dt previous current \<longleftrightarrow> dt < m \<and> (previous + dt) mod m = current mod m"

lemma modulo_elapsed_advances:
  assumes "unat current < 2 ^ 63" and "0 < unat m" and "unat m < 2 ^ 63"
  shows "advances (unat m) (unat (modulo_elapsed_ms previous current m)) (unat previous) (unat current)"
proof -
  let ?c = "unat current" and ?m = "unat m" and ?p = "unat previous"
  have r: "unat (previous mod m) = ?p mod ?m" by (rule unat_mod)
  have "unat (current + m) = ?c + ?m" using assms by (subst unat_add_lem [THEN iffD1]) auto
  moreover have "?p mod ?m \<le> ?c + ?m" using assms(2) by (meson mod_less_divisor less_imp_le trans_le_add2)
  ultimately have "unat (current + m - previous mod m) = ?c + ?m - ?p mod ?m"
    by (subst unat_sub) (simp_all add: word_le_nat_alt r)
  then have "unat (modulo_elapsed_ms previous current m) = (?c + ?m - ?p mod ?m) mod ?m"
    by (simp add: modulo_elapsed_ms_def unat_mod)
  moreover have "(?p + (?c + ?m - ?p mod ?m) mod ?m) mod ?m = (?p mod ?m + (?c + ?m - ?p mod ?m)) mod ?m"
    by presburger
  ultimately show ?thesis using assms(2) \<open>?p mod ?m \<le> ?c + ?m\<close> by (simp add: advances_def)
qed

lemma unat_u32_u64 [simp]: "unat (ucast (i :: u32) :: u64) = unat i"
  using unsigned_less [of i, where ?'a = nat] by (simp add: unsigned_ucast_eq take_bit_nat_eq_self)

lemma glonass_parts:
  fixes raw :: u32
  shows "unat (drop_bit GLONASS_DAY_SHIFT raw) = unat raw div 2 ^ 27"
    and "unat (raw AND GLONASS_MS_MASK) = ms_of_day raw"
  using take_bit_eq_mask [of 27 "unat raw"]
  by (simp_all add: GLONASS_DAY_SHIFT_def GLONASS_MS_MASK_def ms_of_day_def drop_bit_eq_div unat_div
      push_bit_eq_mult unsigned_and_eq take_bit_eq_mod mask_eq_exp_minus_1)

lemma glonass_week:
  fixes raw :: u32
  shows "unat (ucast (drop_bit GLONASS_DAY_SHIFT raw) * DAY_MS + ucast (raw AND GLONASS_MS_MASK)) = ms_of_week Glonass raw"
    and "ms_of_week Glonass raw < 2 ^ 32"
proof -
  have "unat raw div 2 ^ 27 < 2 ^ 5" using unsigned_less [of raw, where ?'a = nat] by (simp add: less_mult_imp_div_less)
  moreover have "ms_of_day raw < 2 ^ 27" by (simp add: ms_of_day_def)
  ultimately show "ms_of_week Glonass raw < 2 ^ 32" by (simp add: ms_of_week_def)
  then show "unat (ucast (drop_bit GLONASS_DAY_SHIFT raw) * DAY_MS + ucast (raw AND GLONASS_MS_MASK)) = ms_of_week Glonass raw"
    by (simp add: unat_word_ariths glonass_parts DAY_MS_def ms_of_week_def)
qed

lemma epoch_advances:
  "advances (if sys = Glonass \<and> (day_unknown previous \<or> day_unknown current) then 86400000 else 604800000)
     (unat (msm_epoch_dt_ms sys previous current))
     (if sys = Glonass \<and> (day_unknown previous \<or> day_unknown current) then ms_of_day previous else ms_of_week sys previous)
     (if sys = Glonass \<and> (day_unknown previous \<or> day_unknown current) then ms_of_day current else ms_of_week sys current)"
proof -
  have w: "unat WEEK_MS = 604800000" "unat DAY_MS = 86400000" by (simp_all add: WEEK_MS_def DAY_MS_def)
  have lt: "unat (raw::u32) < 2 ^ 63" for raw using unsigned_less [of raw, where ?'a = nat] by simp
  have d: "ms_of_day raw < 2 ^ 63" for raw by (simp add: ms_of_day_def less_trans [OF mod_less_divisor])
  have g: "ms_of_week Glonass raw < 2 ^ 63" for raw using glonass_week(2) [of raw] by simp
  show ?thesis
    using modulo_elapsed_advances [of "ucast current" WEEK_MS "ucast previous"] lt [of current]
      modulo_elapsed_advances [of "ucast (current AND GLONASS_MS_MASK)" DAY_MS "ucast (previous AND GLONASS_MS_MASK)"] d [of current]
      modulo_elapsed_advances [of "ucast (drop_bit GLONASS_DAY_SHIFT current) * DAY_MS + ucast (current AND GLONASS_MS_MASK)"
        WEEK_MS "ucast (drop_bit GLONASS_DAY_SHIFT previous) * DAY_MS + ucast (previous AND GLONASS_MS_MASK)"] g [of current]
    by (cases "sys = Glonass")
      (simp_all add: msm_epoch_dt_ms_def day_unknown_def w glonass_parts glonass_week(1) Let_def, simp add: ms_of_week_def)
qed

lemma advances_same: "advances m dt t t \<Longrightarrow> dt = 0"
  using mod_eq_dvd_iff_nat [of t "t + dt" m] by (auto simp: advances_def dest: dvd_imp_le)

lemma epoch_dt_same [simp]: "msm_epoch_dt_ms sys raw raw = 0"
  using advances_same [OF epoch_advances [of sys raw raw, simplified]] epoch_advances [of sys raw raw]
  by (simp add: unat_eq_0 split: if_splits)

section \<open>Loss of lock\<close>

text \<open>When loss of lock is possible: the rules the derivation implements.\<close>

definition lock_may_be_lost :: "previous_lock option \<Rightarrow> u32 option \<Rightarrow> bool" where
  "lock_may_be_lost previous current \<longleftrightarrow>
     (\<exists>p. previous = Some p \<and>
        (\<forall>c. current = Some c \<longrightarrow>
           (\<exists>q. pl_min_lock_time_ms p = Some q \<and> c < q) \<or> unat c < unat (pl_elapsed_ms p)))"

lemma derive_lli_bits:
  "bit (derive_lli previous current half) k \<longleftrightarrow>
     k = 0 \<and> lock_may_be_lost previous current \<or> k = 1 \<and> half"
proof -
  have "bit (LLI_HALF_CYCLE OR LLI_LOSS_OF_LOCK) k \<longleftrightarrow> k = 0 \<or> k = 1"
    "bit LLI_HALF_CYCLE k \<longleftrightarrow> k = 1" "bit LLI_LOSS_OF_LOCK k \<longleftrightarrow> k = 0"
    unfolding LLI_HALF_CYCLE_def LLI_LOSS_OF_LOCK_def bit_or_iff by (auto simp: bit_1_iff bit_2_iff)
  then show ?thesis
    by (auto simp: derive_lli_def lock_may_be_lost_def Let_def word_less_nat_alt split: option.splits)
qed

section \<open>The tracker\<close>

definition signal_key :: "msm_message \<Rightarrow> msm_signal \<Rightarrow> cell_key" where
  "signal_key msg signal = \<lparr>ck_system = mm_system msg, ck_satellite_id = sg_satellite_id signal,
     ck_signal_id = sg_signal_id signal\<rparr>"

definition has_phase :: "msm_signal \<Rightarrow> bool" where
  "has_phase signal \<longleftrightarrow> sg_half_cycle_ambiguity signal \<noteq> None"

definition previous_of :: "lock_time_tracker \<Rightarrow> msm_message \<Rightarrow> msm_signal \<Rightarrow> previous_lock option" where
  "previous_of tracker msg signal = map_option (\<lambda>state.
     \<lparr>pl_min_lock_time_ms = cs_min_lock_time_ms state,
      pl_elapsed_ms = msm_epoch_dt_ms (mm_system msg) (cs_raw_epoch_time state) (mh_epoch_time (mm_header msg))\<rparr>)
     (lt_cells tracker (signal_key msg signal))"

definition cell_out :: "lock_time_tracker \<Rightarrow> msm_message \<Rightarrow> msm_signal \<Rightarrow> cell_lli" where
  "cell_out tracker msg signal =
     \<lparr>cl_satellite_id = sg_satellite_id signal, cl_signal_id = sg_signal_id signal,
      cl_lli = derive_lli (previous_of tracker msg signal) (signal_minimum_lock_time_ms signal (mm_kind msg))
                 (the (sg_half_cycle_ambiguity signal)),
      cl_min_lock_time_ms = signal_minimum_lock_time_ms signal (mm_kind msg)\<rparr>"

definition cell_next :: "lock_time_tracker \<Rightarrow> msm_message \<Rightarrow> msm_signal \<Rightarrow> cell_state option" where
  "cell_next tracker msg signal =
     (case previous_of tracker msg signal of
        Some prev \<Rightarrow> if pl_elapsed_ms prev = 0 then lt_cells tracker (signal_key msg signal)
                     else Some \<lparr>cs_raw_epoch_time = mh_epoch_time (mm_header msg),
                                cs_min_lock_time_ms = signal_minimum_lock_time_ms signal (mm_kind msg)\<rparr>
      | None \<Rightarrow> Some \<lparr>cs_raw_epoch_time = mh_epoch_time (mm_header msg),
                      cs_min_lock_time_ms = signal_minimum_lock_time_ms signal (mm_kind msg)\<rparr>)"

lemma observe_signal_eq:
  "observe_signal msg signal (tracker, out) =
     (if has_phase signal
      then (tracker\<lparr>lt_cells := (lt_cells tracker)(signal_key msg signal := cell_next tracker msg signal)\<rparr>,
            out @ [cell_out tracker msg signal])
      else (tracker, out))"
  by (cases tracker)
    (auto simp: observe_signal_def has_phase_def cell_next_def cell_out_def previous_of_def signal_key_def
      Let_def fun_eq_iff split: option.splits)

lemma previous_of_other:
  "signal_key msg s \<noteq> k \<Longrightarrow>
     previous_of (tracker\<lparr>lt_cells := (lt_cells tracker)(k := v)\<rparr>) msg s = previous_of tracker msg s"
  by (simp add: previous_of_def)

lemma cells_other:
  assumes "signal_key msg s \<noteq> k"
  shows "cell_out (tracker\<lparr>lt_cells := (lt_cells tracker)(k := v)\<rparr>) msg s = cell_out tracker msg s"
    and "cell_next (tracker\<lparr>lt_cells := (lt_cells tracker)(k := v)\<rparr>) msg s = cell_next tracker msg s"
  using assms by (simp_all add: cell_out_def cell_next_def previous_of_other split: option.splits)

text \<open>On a message with one signal per cell every cell is read and written against the tracker before it.\<close>

lemma observe_fold:
  assumes "distinct (map (signal_key msg) ss)"
  shows "fold (observe_signal msg) ss (tracker, out) =
    (tracker\<lparr>lt_cells := \<lambda>k. case find (\<lambda>s. has_phase s \<and> signal_key msg s = k) ss of
        None \<Rightarrow> lt_cells tracker k | Some s \<Rightarrow> cell_next tracker msg s\<rparr>,
     out @ map (cell_out tracker msg) (filter has_phase ss))"
  using assms
proof (induction ss arbitrary: tracker out)
  case (Cons s ss)
  let ?t = "tracker\<lparr>lt_cells := (lt_cells tracker)(signal_key msg s := cell_next tracker msg s)\<rparr>"
  from Cons.prems have fresh: "signal_key msg s' \<noteq> signal_key msg s" if "s' \<in> set ss" for s'
    using that by (metis distinct.simps(2) image_eqI list.set_map list.simps(9))
  then have "map (cell_out ?t msg) (filter has_phase ss) = map (cell_out tracker msg) (filter has_phase ss)"
    by (intro map_cong) (auto simp: cells_other)
  moreover have "find (\<lambda>s'. has_phase s' \<and> signal_key msg s' = signal_key msg s) ss = None"
    using fresh by (auto simp: find_None_iff)
  moreover have "cell_next ?t msg s' = cell_next tracker msg s'"
    if "find (\<lambda>s'. has_phase s' \<and> signal_key msg s' = k) ss = Some s'" for k s'
    using that fresh by (intro cells_other) (auto simp: find_Some_iff)
  ultimately show ?case using Cons
    by (auto simp: observe_signal_eq fun_eq_iff split: option.splits)
qed simp

lemma observe_distinct:
  "distinct (map (signal_key msg) (mm_signals msg)) \<Longrightarrow>
   observe tracker msg =
    (tracker\<lparr>lt_cells := \<lambda>k. case find (\<lambda>s. has_phase s \<and> signal_key msg s = k) (mm_signals msg) of
        None \<Rightarrow> lt_cells tracker k | Some s \<Rightarrow> cell_next tracker msg s\<rparr>,
     map (cell_out tracker msg) (filter has_phase (mm_signals msg)))"
  by (simp add: observe_def observe_fold)

text \<open>A cell is settled for a message when its stored epoch is the epoch of the message.\<close>

definition settled :: "lock_time_tracker \<Rightarrow> msm_message \<Rightarrow> msm_signal \<Rightarrow> bool" where
  "settled tracker msg signal \<longleftrightarrow>
     (\<exists>p. previous_of tracker msg signal = Some p \<and> pl_elapsed_ms p = 0)"

lemma settled_next: "settled tracker msg s \<Longrightarrow> cell_next tracker msg s = lt_cells tracker (signal_key msg s)"
  by (auto simp: settled_def cell_next_def)

lemma observe_signal_settles: "has_phase s \<Longrightarrow> settled (fst (observe_signal msg s st)) msg s"
  by (cases st) (auto simp: observe_signal_eq settled_def previous_of_def cell_next_def split: option.splits)

lemma observe_signal_keeps:
  assumes "settled (fst st) msg s"
  shows "settled (fst (observe_signal msg s' st)) msg s"
proof (cases "signal_key msg s = signal_key msg s'")
  case True
  then have "previous_of t msg s = previous_of t msg s'" for t by (simp add: previous_of_def)
  with assms have "settled (fst st) msg s'" by (simp add: settled_def)
  from settled_next [OF this] assms show ?thesis
    by (cases st) (simp add: observe_signal_eq)
next
  case False
  with assms show ?thesis
    by (cases st) (simp add: observe_signal_eq settled_def previous_of_other)
qed

lemma observe_settles:
  "s \<in> set ss \<Longrightarrow> has_phase s \<Longrightarrow> settled (fst (fold (observe_signal msg) ss st)) msg s"
proof (induction ss arbitrary: st rule: rev_induct)
  case (snoc s' ss)
  then show ?case by (cases st) (auto intro: observe_signal_settles observe_signal_keeps)
qed simp

lemma observe_settled:
  "\<forall>s\<in>set ss. has_phase s \<longrightarrow> settled tracker msg s \<Longrightarrow>
     fst (fold (observe_signal msg) ss (tracker, out)) = tracker"
  by (induction ss arbitrary: out) (simp_all add: observe_signal_eq settled_next)

lemma observe_again: "fst (observe (fst (observe tracker msg)) msg) = fst (observe tracker msg)"
  unfolding observe_def by (rule observe_settled) (auto intro: observe_settles)

lemma msm1_untracked:
  assumes "\<forall>s\<in>set (mm_signals msg). \<not> has_phase s"
  shows "observe tracker msg = (tracker, [])"
proof -
  have "\<forall>s\<in>set ss. \<not> has_phase s \<Longrightarrow> fold (observe_signal msg) ss (tracker, []) = (tracker, [])" for ss
    by (induction ss) (simp_all add: observe_signal_eq)
  with assms show ?thesis by (simp add: observe_def)
qed

section \<open>Signal codes\<close>

lemma signal_table_length [simp]: "length (signal_table sys) = 33"
  by (cases sys) (simp_all add: signal_table_def GPS_SIGNALS_def GLONASS_SIGNALS_def GALILEO_SIGNALS_def
    SBAS_SIGNALS_def QZSS_SIGNALS_def BEIDOU_SIGNALS_def NAVIC_SIGNALS_def)

lemma signal_codes_distinct: "distinct (filter (\<lambda>c. c \<noteq> None) (signal_table sys))"
  by (cases sys) (simp_all add: signal_table_def GPS_SIGNALS_def GLONASS_SIGNALS_def GALILEO_SIGNALS_def
    SBAS_SIGNALS_def QZSS_SIGNALS_def BEIDOU_SIGNALS_def NAVIC_SIGNALS_def)

lemma distinct_filter_nth:
  assumes "distinct (filter P xs)" "i < length xs" "j < length xs" "xs ! i = xs ! j" "P (xs ! i)"
  shows "i = j"
  using assms
proof (induction xs arbitrary: i j)
  case (Cons x xs)
  then show ?case
    by (cases i; cases j) (auto split: if_splits)
qed simp

lemma signal_code_unique:
  assumes "msm_signal_rinex_code sys a = Some code" and "msm_signal_rinex_code sys b = Some code"
  shows "a = b"
proof -
  from assms have "unat a = unat b"
    by (intro distinct_filter_nth [OF signal_codes_distinct [of sys]])
      (auto simp: msm_signal_rinex_code_def Let_def split: if_splits)
  then show ?thesis by (rule unsigned_word_eqI)
qed

end
