(* ===== verification/Rust_Text.thy ===== *)
theory Rust_Text
  imports Rust_Prelude "HOL-Library.Sublist"
begin

text \<open>
  The \<^verbatim>\<open>str\<close> methods the text protocols use. A string is the list of its characters, a character
  its code point; bytes enter through \<^verbatim>\<open>String::from_utf8_lossy\<close> and leave through UTF-8.
\<close>

unbundle bit_operations_syntax

definition lit :: "string \<Rightarrow> rust_string" where
  "lit s = map of_char s"

section \<open>UTF-8\<close>

definition is_continuation :: "u8 \<Rightarrow> bool" where
  "is_continuation b \<longleftrightarrow> b AND 0xC0 = 0x80"

definition safe_get :: "u8 list \<Rightarrow> nat \<Rightarrow> u8" where
  "safe_get bytes i = (if i < length bytes then bytes ! i else 0)"

text \<open>
  The first character of a nonempty byte string and the bytes it takes; \<open>None\<close> for a maximal
  invalid prefix, which the lossy conversion replaces with U+FFFD.
\<close>

definition utf8_second_ok :: "u8 \<Rightarrow> u8 \<Rightarrow> bool" where
  "utf8_second_ok b c =
     (if b = 0xE0 then 0xA0 \<le> c \<and> c \<le> 0xBF
      else if b = 0xED then 0x80 \<le> c \<and> c \<le> 0x9F
      else if b = 0xF0 then 0x90 \<le> c \<and> c \<le> 0xBF
      else if b = 0xF4 then 0x80 \<le> c \<and> c \<le> 0x8F
      else 0x80 \<le> c \<and> c \<le> 0xBF)"

definition low6 :: "u8 \<Rightarrow> u32" where
  "low6 b = ucast (b AND 0x3F)"

definition utf8_next :: "u8 list \<Rightarrow> u32 option \<times> nat" where
  "utf8_next bytes =
     (let b = safe_get bytes 0; c1 = safe_get bytes 1; c2 = safe_get bytes 2; c3 = safe_get bytes 3 in
      if b < 0x80 then (Some (ucast b), 1)
      else if 0xC2 \<le> b \<and> b \<le> 0xDF then
        (if \<not> is_continuation c1 then (None, 1)
         else (Some (push_bit 6 (ucast (b AND 0x1F)) OR low6 c1), 2))
      else if 0xE0 \<le> b \<and> b \<le> 0xEF then
        (if \<not> utf8_second_ok b c1 then (None, 1)
         else if \<not> is_continuation c2 then (None, 2)
         else (Some (push_bit 12 (ucast (b AND 0x0F)) OR push_bit 6 (low6 c1) OR low6 c2), 3))
      else if 0xF0 \<le> b \<and> b \<le> 0xF4 then
        (if \<not> utf8_second_ok b c1 then (None, 1)
         else if \<not> is_continuation c2 then (None, 2)
         else if \<not> is_continuation c3 then (None, 3)
         else (Some (push_bit 18 (ucast (b AND 0x07)) OR push_bit 12 (low6 c1) OR push_bit 6 (low6 c2) OR low6 c3), 4))
      else (None, 1))"

lemma utf8_next_takes: "utf8_next bytes = (c, n) \<Longrightarrow> 0 < n"
  by (auto simp: utf8_next_def Let_def split: if_splits)

function from_utf8_lossy :: "u8 list \<Rightarrow> rust_string" where
  "from_utf8_lossy bytes =
     (if bytes = [] then []
      else (case utf8_next bytes of (c, n) \<Rightarrow>
        (case c of Some x \<Rightarrow> x | None \<Rightarrow> 0xFFFD) # from_utf8_lossy (drop n bytes)))"
  by pat_completeness auto
termination
  by (relation "measure length") (auto dest: utf8_next_takes [OF sym])

declare from_utf8_lossy.simps [simp del]

definition char_utf8 :: "u32 \<Rightarrow> u8 list" where
  "char_utf8 c =
     (if c < 0x80 then [ucast c]
      else if c < 0x800 then [0xC0 OR ucast (drop_bit 6 c), 0x80 OR ucast (c AND 0x3F)]
      else if c < 0x10000 then
        [0xE0 OR ucast (drop_bit 12 c), 0x80 OR ucast (drop_bit 6 c AND 0x3F), 0x80 OR ucast (c AND 0x3F)]
      else
        [0xF0 OR ucast (drop_bit 18 c), 0x80 OR ucast (drop_bit 12 c AND 0x3F),
         0x80 OR ucast (drop_bit 6 c AND 0x3F), 0x80 OR ucast (c AND 0x3F)])"

definition str_bytes :: "rust_string \<Rightarrow> u8 list" where
  "str_bytes s = concat (map char_utf8 s)"

section \<open>Characters\<close>

definition is_whitespace :: "u32 \<Rightarrow> bool" where
  "is_whitespace c \<longleftrightarrow>
     0x09 \<le> c \<and> c \<le> 0x0D \<or> c = 0x20 \<or> c = 0x85 \<or> c = 0xA0 \<or> c = 0x1680 \<or>
     0x2000 \<le> c \<and> c \<le> 0x200A \<or> c = 0x2028 \<or> c = 0x2029 \<or> c = 0x202F \<or> c = 0x205F \<or> c = 0x3000"

definition char_lower :: "u32 \<Rightarrow> u32" where
  "char_lower c = (if 0x41 \<le> c \<and> c \<le> 0x5A then c + 0x20 else c)"

definition to_ascii_lowercase :: "rust_string \<Rightarrow> rust_string" where
  "to_ascii_lowercase s = map char_lower s"

definition eq_ignore_ascii_case :: "rust_string \<Rightarrow> rust_string \<Rightarrow> bool" where
  "eq_ignore_ascii_case a b \<longleftrightarrow> to_ascii_lowercase a = to_ascii_lowercase b"

section \<open>Searching and splitting\<close>

definition trim_start :: "rust_string \<Rightarrow> rust_string" where
  "trim_start s = dropWhile is_whitespace s"

definition trim_end :: "rust_string \<Rightarrow> rust_string" where
  "trim_end s = rev (dropWhile is_whitespace (rev s))"

definition trim :: "rust_string \<Rightarrow> rust_string" where
  "trim s = trim_end (trim_start s)"

definition strip_prefix :: "rust_string \<Rightarrow> rust_string \<Rightarrow> rust_string option" where
  "strip_prefix p s = (if prefix p s then Some (drop (length p) s) else None)"

fun str_contains :: "rust_string \<Rightarrow> rust_string \<Rightarrow> bool" where
  "str_contains pat [] \<longleftrightarrow> pat = []"
| "str_contains pat (c # cs) \<longleftrightarrow> prefix pat (c # cs) \<or> str_contains pat cs"

fun str_split :: "(u32 \<Rightarrow> bool) \<Rightarrow> rust_string \<Rightarrow> rust_string list" where
  "str_split p [] = [[]]"
| "str_split p (c # cs) =
     (if p c then [] # str_split p cs
      else (case str_split p cs of [] \<Rightarrow> [[c]] | piece # pieces \<Rightarrow> (c # piece) # pieces))"

text \<open>\<^verbatim>\<open>splitn(2, char::is_whitespace)\<close>: the part before the first white space and the rest.\<close>

definition split_whitespace_once :: "rust_string \<Rightarrow> rust_string \<times> rust_string option" where
  "split_whitespace_once s =
     (let first = takeWhile (\<lambda>c. \<not> is_whitespace c) s
      in (first, if length first < length s then Some (drop (length first + 1) s) else None))"

text \<open>The first item of \<^verbatim>\<open>split_whitespace\<close>.\<close>

definition first_word :: "rust_string \<Rightarrow> rust_string option" where
  "first_word s =
     (let word = takeWhile (\<lambda>c. \<not> is_whitespace c) (trim_start s)
      in if word = [] then None else Some word)"

fun str_join :: "rust_string \<Rightarrow> rust_string list \<Rightarrow> rust_string" where
  "str_join sep [] = []"
| "str_join sep [s] = s"
| "str_join sep (s # t # ss) = s @ sep @ str_join sep (t # ss)"

text \<open>\<^verbatim>\<open>uN::from_str\<close>: an optional plus sign and at least one digit, below the bound.\<close>

definition is_digit :: "u32 \<Rightarrow> bool" where
  "is_digit c \<longleftrightarrow> 0x30 \<le> c \<and> c \<le> 0x39"

definition digit_value :: "u32 \<Rightarrow> nat" where
  "digit_value c = unat (c - 0x30)"

definition decimal_value :: "rust_string \<Rightarrow> nat" where
  "decimal_value s = foldl (\<lambda>a c. 10 * a + digit_value c) 0 s"

definition parse_uint :: "nat \<Rightarrow> rust_string \<Rightarrow> nat option" where
  "parse_uint bound s =
     (let digits = (case s of c # cs \<Rightarrow> if c = 0x2B then cs else s | [] \<Rightarrow> [])
      in if digits \<noteq> [] \<and> list_all is_digit digits \<and> decimal_value digits < bound
         then Some (decimal_value digits) else None)"

section \<open>Facts\<close>

lemma length_str_split [simp]: "str_split p s \<noteq> []"
  by (induction s) (auto split: list.splits)

lemma str_join_split: "str_join [x] (str_split (\<lambda>c. c = x) s) = s"
proof (induction s)
  case (Cons c cs)
  then show ?case
    by (cases "str_split (\<lambda>c. c = x) cs" rule: list.exhaust; cases "tl (str_split (\<lambda>c. c = x) cs)")
      (auto simp: length_str_split)
qed simp

lemma split_pieces: "piece \<in> set (str_split p s) \<Longrightarrow> \<forall>c\<in>set piece. \<not> p c"
proof (induction s arbitrary: piece)
  case (Cons c cs)
  then show ?case by (cases "str_split p cs") (fastforce split: if_splits)+
qed simp

lemma str_split_join:
  "ss \<noteq> [] \<Longrightarrow> (\<forall>s\<in>set ss. x \<notin> set s) \<Longrightarrow> str_split (\<lambda>c. c = x) (str_join [x] ss) = ss"
proof (induction "[x]" ss rule: str_join.induct)
  case (2 s)
  then have "x \<notin> set s" by simp
  then show ?case by (induction s) auto
next
  case (3 s t ss)
  have "str_split (\<lambda>c. c = x) (s @ x # rest) = s # str_split (\<lambda>c. c = x) rest" if "x \<notin> set s" for s rest
    using that by (induction s) auto
  with 3 show ?case by simp
qed simp

lemma ascii_lossy: "\<forall>b\<in>set bytes. b < 0x80 \<Longrightarrow> from_utf8_lossy bytes = map ucast bytes"
proof (induction bytes)
  case Nil
  then show ?case by (subst from_utf8_lossy.simps) simp
next
  case (Cons b bytes)
  then show ?case by (subst from_utf8_lossy.simps) (simp add: utf8_next_def safe_get_def)
qed

end
