(* ===== verification/Rust_Float.thy ===== *)
theory Rust_Float
  imports Rust_Text Rtcm_Error
begin

text \<open>
  The text of \<^verbatim>\<open>f64\<close> values: \<^verbatim>\<open>from_str\<close>, which rounds a decimal to the nearest value with ties to
  even, and \<^verbatim>\<open>Display\<close>, the shortest decimal that reads back. A value is its bit pattern. The last
  section shows that every finite value reads back from its text.
\<close>

type_synonym f64 = u64

section \<open>Rounding\<close>

fun bit_len :: "nat \<Rightarrow> nat" where
  "bit_len n = (if n = 0 then 0 else Suc (bit_len (n div 2)))"

declare bit_len.simps [simp del]

definition round_half_even :: "nat \<Rightarrow> nat \<Rightarrow> nat" where
  "round_half_even num den =
     (let q = num div den; r = num mod den
      in if 2 * r > den \<or> 2 * r = den \<and> odd q then q + 1 else q)"

definition F64_INFINITE :: nat where
  "F64_INFINITE = 2047 * 2 ^ 52"

text \<open>
  The bits of the nearest value to \<open>num / den\<close>: the quotient in units of \<open>2 powr -1074\<close> keeps 53
  bits, and a carry out of the mantissa moves into the exponent.
\<close>

definition f64_magnitude :: "nat \<Rightarrow> nat \<Rightarrow> nat" where
  "f64_magnitude num den =
     (let units = num * 2 ^ 1074;
          sh = bit_len (units div den) - 53
      in min F64_INFINITE (sh * 2 ^ 52 + round_half_even units (den * 2 ^ sh)))"

definition f64_bits :: "bool \<Rightarrow> nat \<Rightarrow> f64" where
  "f64_bits negative magnitude = of_nat ((if negative then 2 ^ 63 else 0) + magnitude)"

definition f64_is_finite :: "f64 \<Rightarrow> bool" where
  "f64_is_finite x \<longleftrightarrow> unat x mod 2 ^ 63 < F64_INFINITE"

section \<open>Reading\<close>

definition decimal_bits :: "bool \<Rightarrow> nat \<Rightarrow> int \<Rightarrow> f64" where
  "decimal_bits negative digits ex =
     f64_bits negative (if 0 \<le> ex then f64_magnitude (digits * 10 ^ nat ex) 1
                        else f64_magnitude digits (10 ^ nat (- ex)))"

text \<open>The exponent part: nothing, or \<open>e\<close>, a sign and at least one digit.\<close>

definition parse_exponent :: "rust_string \<Rightarrow> int option" where
  "parse_exponent s =
     (case s of
        [] \<Rightarrow> Some 0
      | e # rest \<Rightarrow>
          if e \<noteq> 0x65 \<and> e \<noteq> 0x45 then None
          else
            (let negative = (rest \<noteq> [] \<and> hd rest = 0x2D);
                 digits = (if rest \<noteq> [] \<and> (hd rest = 0x2D \<or> hd rest = 0x2B) then tl rest else rest)
             in if digits \<noteq> [] \<and> list_all is_digit digits
                then Some (if negative then - int (decimal_value digits) else int (decimal_value digits))
                else None))"

definition parse_number :: "bool \<Rightarrow> rust_string \<Rightarrow> f64 option" where
  "parse_number negative s =
     (let whole = takeWhile is_digit s;
          s1 = dropWhile is_digit s;
          frac = (if s1 \<noteq> [] \<and> hd s1 = 0x2E then takeWhile is_digit (tl s1) else []);
          s2 = (if s1 \<noteq> [] \<and> hd s1 = 0x2E then dropWhile is_digit (tl s1) else s1)
      in if whole = [] \<and> frac = [] then None
         else map_option (\<lambda>ex. decimal_bits negative (decimal_value (whole @ frac)) (ex - int (length frac)))
                (parse_exponent s2))"

definition parse_f64 :: "rust_string \<Rightarrow> f64 option" where
  "parse_f64 s =
     (if s = [] then None
      else
        (let negative = (hd s = 0x2D);
             body = (if hd s = 0x2D \<or> hd s = 0x2B then tl s else s)
         in if body = [] then None
            else (case parse_number negative body of
                    Some x \<Rightarrow> Some x
                  | None \<Rightarrow>
                      if eq_ignore_ascii_case body (lit ''inf'') \<or> eq_ignore_ascii_case body (lit ''infinity'')
                      then Some (f64_bits negative F64_INFINITE)
                      else if eq_ignore_ascii_case body (lit ''nan'')
                      then Some (f64_bits negative (F64_INFINITE + 2 ^ 51))
                      else None)))"

section \<open>Printing\<close>

definition f64_is_nan :: "f64 \<Rightarrow> bool" where
  "f64_is_nan x \<longleftrightarrow> F64_INFINITE < unat x mod 2 ^ 63"

text \<open>A finite value in units of \<open>2 powr -1074\<close>.\<close>

definition f64_units :: "f64 \<Rightarrow> nat" where
  "f64_units x =
     (let magnitude = unat x mod 2 ^ 63; ex = magnitude div 2 ^ 52
      in if ex = 0 then magnitude else (2 ^ 52 + magnitude mod 2 ^ 52) * 2 ^ (ex - 1))"

definition dec_len :: "nat \<Rightarrow> nat" where
  "dec_len n = length (dec n)"

text \<open>The exponent of ten of a nonzero value: the least \<open>k\<close> with the value below \<open>10 powr k\<close>.\<close>

definition decimal_exponent :: "nat \<Rightarrow> int" where
  "decimal_exponent units = int (dec_len (units * 10 ^ 400 div 2 ^ 1074)) - 400"

definition reads_as :: "nat \<Rightarrow> nat \<Rightarrow> int \<Rightarrow> bool" where
  "reads_as units c ex \<longleftrightarrow>
     (if 0 \<le> ex then f64_magnitude (c * 10 ^ nat ex) 1 else f64_magnitude c (10 ^ nat (- ex)))
       = f64_magnitude units (2 ^ 1074)"

text \<open>The nearest decimal of \<open>n\<close> digits that reads back, ties up; \<open>None\<close> when none does.\<close>

definition shortest_try :: "nat \<Rightarrow> nat \<Rightarrow> (nat \<times> int) option" where
  "shortest_try units n =
     (let ex = decimal_exponent units - int n;
          num = units * 10 ^ nat (- ex);
          den = 2 ^ 1074 * 10 ^ nat ex;
          low = num div den;
          nearest = (if 2 * (num mod den) \<ge> den then low + 1 else low);
          other = (if 2 * (num mod den) \<ge> den then low else low + 1)
      in if reads_as units nearest ex then Some (nearest, ex)
         else if reads_as units other ex then Some (other, ex)
         else None)"

fun shortest_from :: "nat \<Rightarrow> nat list \<Rightarrow> nat \<times> int" where
  "shortest_from units [] = (0, 0)"
| "shortest_from units (n # ns) =
     (case shortest_try units n of Some result \<Rightarrow> result | None \<Rightarrow> shortest_from units ns)"

definition shortest :: "nat \<Rightarrow> nat \<times> int" where
  "shortest units = shortest_from units [1..<18]"

function strip_zeros :: "nat \<Rightarrow> int \<Rightarrow> nat \<times> int" where
  "strip_zeros c ex = (if c \<noteq> 0 \<and> c mod 10 = 0 then strip_zeros (c div 10) (ex + 1) else (c, ex))"
  by pat_completeness auto
termination
  by (relation "measure fst") auto

declare strip_zeros.simps [simp del]

text \<open>A decimal without exponent: digits with a point or filled with zeros.\<close>

definition plain_decimal :: "nat \<Rightarrow> int \<Rightarrow> string" where
  "plain_decimal c ex =
     (let digits = dec c; point = int (length digits) + ex
      in if point \<le> 0 then ''0.'' @ replicate (nat (- point)) (CHR ''0'') @ digits
         else if ex < 0 then take (nat point) digits @ ''.'' @ drop (nat point) digits
         else digits @ replicate (nat ex) (CHR ''0''))"

definition display_f64 :: "f64 \<Rightarrow> string" where
  "display_f64 x =
     (if f64_is_nan x then ''NaN''
      else
        (if bit x 63 then ''-'' else [])
        @ (if \<not> f64_is_finite x then ''inf''
           else if f64_units x = 0 then ''0''
           else (case shortest (f64_units x) of (c, ex) \<Rightarrow>
             (case strip_zeros c ex of (c', ex') \<Rightarrow> plain_decimal c' ex'))))"

section \<open>Reading a decimal back\<close>

lemma bit_len_bound: "n < 2 ^ k \<longleftrightarrow> bit_len n \<le> k"
proof (induction n arbitrary: k rule: bit_len.induct)
  case (1 n)
  show ?case
  proof (cases "n = 0")
    case False
    then show ?thesis using 1 [of "k - 1"] bit_len.simps [of n] by (cases k) auto
  qed (simp add: bit_len.simps)
qed

lemma bit_len_between:
  assumes "2 ^ k \<le> n" and "n < 2 ^ Suc k"
  shows "bit_len n = Suc k"
  using assms bit_len_bound [of n k] bit_len_bound [of n "Suc k"] by linarith

lemma round_near:
  assumes "2 * v < 2 * q * den + den" and "2 * q * den < 2 * v + den"
  shows "round_half_even v den = q"
proof (cases "q * den \<le> v")
  case True
  then have v: "v = q * den + (v - q * den)" and less: "2 * (v - q * den) < den"
    using assms by (simp_all add: algebra_simps)
  then have q: "v div den = q"
    using True by (intro div_nat_eqI) (simp_all add: algebra_simps)
  then have "v mod den = v - q * den" by (simp add: modulo_nat_def mult.commute)
  then show ?thesis using less q by (simp add: round_half_even_def)
next
  case False
  then obtain p where q: "q = Suc p" by (cases q) auto
  have "v div den = p" and "v mod den = v - p * den"
    using False assms by (auto simp: q algebra_simps intro!: div_nat_eqI mod_nat_eqI)
  moreover have "den < 2 * (v - p * den)" using assms False by (simp add: q algebra_simps)
  ultimately show ?thesis by (simp add: round_half_even_def q)
qed

lemma scale_div: "0 < (b::nat) \<Longrightarrow> a * 2 ^ k * b \<le> v \<Longrightarrow> a * 2 ^ k \<le> v div b"
  by (simp add: less_eq_div_iff_mult_less_eq)

definition units_bits :: "nat \<Rightarrow> nat \<Rightarrow> nat" where
  "units_bits v b = (let sh = bit_len (v div b) - 53 in sh * 2 ^ 52 + round_half_even v (b * 2 ^ sh))"

lemma magnitude_units: "f64_magnitude num den = min F64_INFINITE (units_bits (num * 2 ^ 1074) den)"
  by (simp add: f64_magnitude_def units_bits_def Let_def)

lemma units_bits_scale:
  assumes b: "0 < b" and low: "s = 0 \<or> 2 ^ 52 * (2 ^ s * b) \<le> v" and high: "v < 2 ^ 53 * (2 ^ s * b)"
  shows "units_bits v b = s * 2 ^ 52 + round_half_even v (2 ^ s * b)"
proof -
  have lt: "v div b < 2 ^ (53 + s)"
    using high b by (simp add: div_less_iff_less_mult power_add mult.assoc mult.commute [of b])
  have "bit_len (v div b) - 53 = s"
  proof (cases "s = 0")
    case True
    then show ?thesis using lt bit_len_bound [of "v div b" 53] by simp
  next
    case False
    with low have "2 ^ 52 * 2 ^ s * b \<le> v" by (simp add: mult.assoc)
    from scale_div [OF b this] have "2 ^ (52 + s) \<le> v div b" by (simp add: power_add)
    then show ?thesis using lt bit_len_between [of "52 + s" "v div b"] by simp
  qed
  then show ?thesis by (simp add: units_bits_def mult.commute)
qed

lemma close_below_half:
  assumes "m < 2 ^ 53" and "0 < w"
    and above: "(v - m * w) * 2 ^ 54 < m * w" and below: "(m * w - v) * 2 ^ 54 < (m::nat) * w"
  shows "2 * v < 2 * m * w + w" and "2 * m * w < 2 * v + w"
proof -
  have small: "m * w < 2 ^ 53 * w" using assms by simp
  have "(v - m * w) * 18014398509481984 < 9007199254740992 * w" "(m * w - v) * 18014398509481984 < 9007199254740992 * w"
    using less_trans [OF above small] less_trans [OF below small] by simp_all
  then show "2 * v < 2 * m * w + w" "2 * m * w < 2 * v + w" unfolding mult.assoc [of 2 m w] by linarith+
qed

text \<open>
  A value within \<open>2 powr -54\<close> of a representable one rounds to it, also across a power of two,
  where the spacing halves.
\<close>

lemma units_bits_near:
  assumes b: "0 < b" and s: "s = 0 \<or> 2 ^ 52 \<le> m" and m: "m < 2 ^ 53"
    and above: "(v - m * (2 ^ s * b)) * 2 ^ 54 < m * (2 ^ s * b)"
    and below: "(m * (2 ^ s * b) - v) * 2 ^ 54 < m * (2 ^ s * b)"
  shows "units_bits v b = s * 2 ^ 52 + m"
proof -
  define w where "w = 2 ^ s * b"
  have w: "0 < w" using b by (simp add: w_def)
  note near = close_below_half [OF m w above [folded w_def] below [folded w_def]]
  have step: "(k + 1) * w \<le> l * w \<Longrightarrow> k * w + w \<le> l * w" for k l by (simp add: algebra_simps)
  show ?thesis
  proof (cases "s = 0 \<or> 2 ^ 52 * w \<le> v")
    case True
    have "(m + 1) * w \<le> 2 ^ 53 * w" using m by (intro mult_right_mono) auto
    from step [OF this] have "v < 2 ^ 53 * w" using near(1) w unfolding mult.assoc [of 2 m w] by linarith
    with True show ?thesis
      using units_bits_scale [OF b, of s v] round_near [OF near] by (simp add: w_def)
  next
    case False
    then obtain t where t: "s = Suc t" by (cases s) auto
    have m52: "m = 2 ^ 52"
    proof (rule ccontr)
      assume "m \<noteq> 2 ^ 52"
      with s t have "2 ^ 52 + 1 \<le> m" by auto
      then have "(2 ^ 52 + 1) * w \<le> m * w" by (intro mult_right_mono) auto
      from step [OF this] show False
        using near(2) w False unfolding mult.assoc [of 2 m w] by linarith
    qed
    define h where "h = 2 ^ t * b"
    have wh: "w = 2 * h" by (simp add: w_def h_def t)
    note close = below [folded w_def, unfolded m52 wh] above [folded w_def, unfolded m52 wh]
    have "2 ^ 52 * h \<le> v" and "v < 2 ^ 53 * h" using close False by (simp_all add: wh)
    moreover have "round_half_even v h = 2 ^ 53" using close by (intro round_near) simp_all
    ultimately show ?thesis using units_bits_scale [OF b, of t v] by (simp add: h_def t m52)
  qed
qed

text \<open>A finite value as mantissa and exponent.\<close>

lemma f64_units_split:
  obtains m s where "s = 0 \<or> 2 ^ 52 \<le> m" and "m < 2 ^ 53" and "f64_units x = m * 2 ^ s"
    and "unat x mod 2 ^ 63 = s * 2 ^ 52 + m"
proof -
  define e where "e = unat x mod 2 ^ 63 div 2 ^ 52"
  define f where "f = unat x mod 2 ^ 63 mod 2 ^ 52"
  have M: "unat x mod 2 ^ 63 = e * 2 ^ 52 + f" by (simp only: e_def f_def div_mult_mod_eq)
  have f: "f < 2 ^ 52" by (simp add: f_def)
  show ?thesis
  proof (cases "e = 0")
    case True
    then show ?thesis
      using M f by (intro that [of 0 f]) (simp_all add: f64_units_def e_def [symmetric] Let_def)
  next
    case False
    then show ?thesis
      using M f by (intro that [of "e - 1" "2 ^ 52 + f"])
        (simp_all add: f64_units_def e_def [symmetric] f_def [symmetric] Let_def algebra_simps)
  qed
qed

lemma magnitude_near:
  assumes "f64_is_finite x" and b: "0 < b"
    and above: "(num * 2 ^ 1074 - f64_units x * b) * 2 ^ 54 < f64_units x * b"
    and below: "(f64_units x * b - num * 2 ^ 1074) * 2 ^ 54 < f64_units x * b"
  shows "f64_magnitude num b = unat x mod 2 ^ 63"
proof -
  obtain m s where ms: "s = 0 \<or> 2 ^ 52 \<le> m" "m < 2 ^ 53" "f64_units x = m * 2 ^ s" "unat x mod 2 ^ 63 = s * 2 ^ 52 + m"
    by (rule f64_units_split)
  have "units_bits (num * 2 ^ 1074) b = s * 2 ^ 52 + m"
    using above below unfolding ms(3) mult.assoc [of m] by (rule units_bits_near [OF b ms(1,2)])
  then show ?thesis using assms(1) ms(4) by (simp add: magnitude_units f64_is_finite_def)
qed


section \<open>Decimal digits\<close>

lemma dec_bounds:
  "n < 10 ^ length (dec n)" "0 < n \<Longrightarrow> 10 ^ (length (dec n) - 1) \<le> n" "dec n \<noteq> []"
proof (induction n rule: dec.induct)
  case (1 n)
  note step = dec.simps [of n]
  { case 1
    show ?case using "1.IH"(1) step by (cases "n < 10") (auto simp: less_mult_imp_div_less) }
  { case 2
    show ?case
    proof (cases "n < 10")
      case False
      then have "10 ^ (length (dec (n div 10)) - 1) \<le> n div 10" "dec (n div 10) \<noteq> []"
        using "1.IH"(2,3) by auto
      then show ?thesis using step False
        by (cases "length (dec (n div 10))") (auto simp: less_eq_div_iff_mult_less_eq)
    qed (use step 2 in auto) }
  { case 3
    show ?case using step by auto }
qed

lemma digit_char: "d < 10 \<Longrightarrow> is_digit (of_char (char_of (48 + d))) \<and> digit_value (of_char (char_of (48 + d))) = d"
proof -
  assume "d < 10"
  then have code: "(of_char (char_of (48 + d)) :: u32) = of_nat (48 + d)"
    by (subst of_nat_of_char [symmetric]) (simp del: of_nat_of_char of_nat_add)
  with \<open>d < 10\<close> have "unat (of_char (char_of (48 + d)) :: u32) = 48 + d"
    by (simp add: unat_of_nat del: of_nat_add)
  with \<open>d < 10\<close> code show ?thesis
    by (simp add: is_digit_def digit_value_def word_le_nat_alt unat_of_nat)
qed

lemma lit_append [simp]: "lit (a @ b) = lit a @ lit b"
  by (simp add: lit_def)

lemma decimal_value_snoc: "decimal_value (s @ [c]) = 10 * decimal_value s + digit_value c"
  by (simp add: decimal_value_def)

lemma dec_value: "list_all is_digit (lit (dec n)) \<and> decimal_value (lit (dec n)) = n"
proof (induction n rule: dec.induct)
  case (1 n)
  show ?case
  proof (cases "n < 10")
    case True
    then show ?thesis using digit_char by (subst (1 2) dec.simps) (simp add: lit_def decimal_value_def)
  next
    case False
    then have "lit (dec n) = lit (dec (n div 10)) @ [of_char (char_of (48 + n mod 10))]"
      by (subst dec.simps) (simp add: lit_def)
    then show ?thesis using 1 [OF False] digit_char [of "n mod 10"] by (simp add: decimal_value_snoc)
  qed
qed

lemma decimal_value_zeros: "decimal_value (s @ replicate k 0x30) = decimal_value s * 10 ^ k"
proof (induction k)
  case (Suc k)
  have "s @ replicate (Suc k) 0x30 = (s @ replicate k 0x30) @ [0x30]" by (simp add: replicate_append_same)
  then show ?case by (simp only: decimal_value_snoc Suc) (simp add: digit_value_def)
qed simp

lemma zeros_decimal_value: "decimal_value (replicate k 0x30 @ s) = decimal_value s"
proof -
  have "foldl (\<lambda>a c. 10 * a + digit_value c) 0 (replicate k 0x30) = 0"
    by (induction k) (simp_all add: digit_value_def)
  then show ?thesis by (simp add: decimal_value_def)
qed


section \<open>The shortest decimal\<close>

definition decimal_magnitude :: "nat \<Rightarrow> int \<Rightarrow> nat" where
  "decimal_magnitude c ex =
     (if 0 \<le> ex then f64_magnitude (c * 10 ^ nat ex) 1 else f64_magnitude c (10 ^ nat (- ex)))"

lemma decimal_magnitude_ratio: "decimal_magnitude c ex = f64_magnitude (c * 10 ^ nat ex) (10 ^ nat (- ex))"
  by (cases "0 \<le> ex") (auto simp: decimal_magnitude_def)

lemma own_magnitude: "f64_is_finite x \<Longrightarrow> 0 < f64_units x \<Longrightarrow> f64_magnitude (f64_units x) (2 ^ 1074) = unat x mod 2 ^ 63"
  by (rule magnitude_near) (simp_all del: power_numeral)

lemma reads_as_magnitude:
  "f64_is_finite x \<Longrightarrow> 0 < f64_units x \<Longrightarrow>
     reads_as (f64_units x) c ex \<longleftrightarrow> decimal_magnitude c ex = unat x mod 2 ^ 63"
  by (simp only: reads_as_def decimal_magnitude_def own_magnitude)

lemma exponent_low:
  assumes "0 < units"
  defines "ex \<equiv> decimal_exponent units - 17"
  shows "2 ^ 1074 * 10 ^ nat ex * 10 ^ 16 \<le> units * 10 ^ nat (- ex)"
proof -
  define T :: nat where "T = 2 ^ 1074"
  define F where "F = units * 10 ^ 400 div T"
  define L where "L = dec_len F"
  have T: "0 < T" by (simp add: T_def)
  have "T \<le> 2 ^ (3 * 400)" unfolding T_def by (rule power_increasing) simp_all
  also have "\<dots> = (2 ^ 3) ^ 400" by (rule power_mult)
  also have "\<dots> \<le> 10 ^ 400" by (rule power_mono) simp_all
  also have "\<dots> \<le> units * 10 ^ 400" using assms(1) by (simp del: power_numeral)
  finally have "0 < F" using T by (simp add: F_def div_greater_zero_iff del: power_numeral)
  then have "10 ^ (L - 1) \<le> F" and "0 < L" using dec_bounds(2,3) by (auto simp: L_def dec_len_def)
  then have low: "10 ^ (L - 1) * T \<le> units * 10 ^ 400"
    using T by (simp add: F_def less_eq_div_iff_mult_less_eq del: power_numeral)
  have ex: "ex = int L - 417" by (simp add: ex_def decimal_exponent_def L_def F_def T_def del: power_numeral)
  have "T * 10 ^ nat ex * 10 ^ 16 \<le> units * 10 ^ nat (- ex)"
  proof (cases "417 \<le> L")
    case True
    then have "L - 1 = nat ex + 16 + 400" by (simp add: ex)
    then have "(10 :: nat) ^ (L - 1) = 10 ^ nat ex * 10 ^ 16 * 10 ^ 400" by (simp only: power_add)
    with low have "T * 10 ^ nat ex * 10 ^ 16 * 10 ^ 400 \<le> units * 10 ^ 400" by (simp only: ac_simps)
    with True show ?thesis by (simp add: ex del: power_numeral)
  next
    case False
    then have q: "nat (- ex) + (L - 1) = 16 + 400" using \<open>0 < L\<close> by (simp add: ex)
    have "T * 10 ^ 16 * 10 ^ (L - 1) \<le> units * 10 ^ 400 * 10 ^ 16"
      using low by (simp add: mult.commute mult.assoc del: power_numeral)
    also have "\<dots> = units * 10 ^ nat (- ex) * 10 ^ (L - 1)"
      using q by (simp add: mult.assoc power_add [symmetric] add.commute del: power_numeral)
    finally show ?thesis using False by (simp add: ex del: power_numeral)
  qed
  then show ?thesis by (simp add: T_def del: power_numeral)
qed

lemma seventeen_digits:
  assumes x: "f64_is_finite x" and u: "0 < f64_units x"
  shows "shortest_try (f64_units x) 17 \<noteq> None"
proof -
  define ex where "ex = decimal_exponent (f64_units x) - 17"
  define num where "num = f64_units x * 10 ^ nat (- ex)"
  define w :: nat where "w = 2 ^ 1074 * 10 ^ nat ex"
  define c where "c = (if 2 * (num mod w) \<ge> w then num div w + 1 else num div w)"
  have w: "0 < w" by (simp add: w_def)
  have low: "w * 10 ^ 16 \<le> num" using exponent_low [OF u] by (simp add: w_def num_def ex_def)
  have num: "num = num div w * w + num mod w" and "num mod w < w" using w by simp_all
  moreover have "c * w = (if 2 * (num mod w) \<ge> w then num div w * w + w else num div w * w)"
    by (simp add: c_def)
  ultimately have near: "2 * (c * w - num) \<le> w" "2 * (num - c * w) \<le> w"
    by (cases "2 * (num mod w) \<ge> w"; simp only: if_True if_False; linarith)+
  have cw: "c * 10 ^ nat ex * 2 ^ 1074 = c * w" by (simp add: w_def)
  have "(c * w - num) * 2 ^ 54 < num" "(num - c * w) * 2 ^ 54 < num"
    using near low w by (simp_all add: mult.commute)
  then have "f64_magnitude (c * 10 ^ nat ex) (10 ^ nat (- ex)) = unat x mod 2 ^ 63"
    by (intro magnitude_near [OF x]) (simp, simp_all only: cw num_def [symmetric])
  then have "reads_as (f64_units x) c ex"
    by (simp add: reads_as_magnitude [OF x u] decimal_magnitude_ratio)
  then show ?thesis
    by (simp add: shortest_try_def Let_def ex_def [symmetric] num_def [symmetric] w_def [symmetric] c_def
        del: power_numeral split: if_splits)
qed


lemma shortest_reads:
  assumes x: "f64_is_finite x" and u: "0 < f64_units x" and s: "shortest (f64_units x) = (c, ex)"
  shows "decimal_magnitude c ex = unat x mod 2 ^ 63"
proof -
  have tried: "reads_as units c ex" if "shortest_try units n = Some (c, ex)" for units n
    using that by (auto simp: shortest_try_def Let_def simp del: power_numeral split: if_splits)
  have "reads_as (f64_units x) c ex" if "17 \<in> set ns" "shortest_from (f64_units x) ns = (c, ex)" for ns
    using that seventeen_digits [OF x u] by (induction ns) (auto split: option.splits dest: tried)
  from this [of "[1..<18]"] s have "reads_as (f64_units x) c ex" by (simp add: shortest_def)
  then show ?thesis by (simp only: reads_as_magnitude [OF x u])
qed

lemma magnitude_cancel: "0 < k \<Longrightarrow> f64_magnitude (a * k) (b * k) = f64_magnitude a b"
proof -
  assume k: "0 < k"
  have "round_half_even (v * k) (d * k) = round_half_even v d" for v d
    using k by (simp add: round_half_even_def Let_def mod_mult_mult2 mult.assoc [symmetric] del: mult.assoc)
  from this [of "a * 2 ^ 1074" "b * 2 ^ s" for s] show ?thesis
    using k by (simp add: f64_magnitude_def Let_def mult.assoc mult.commute mult.left_commute del: power_numeral)
qed

lemma decimal_magnitude_shift: "decimal_magnitude (c * 10) ex = decimal_magnitude c (ex + 1)"
proof (cases "0 \<le> ex")
  case True
  then have "nat (ex + 1) = Suc (nat ex)" by simp
  then show ?thesis using True by (simp add: decimal_magnitude_ratio mult.assoc)
next
  case False
  then have "nat (- ex) = Suc (nat (- (ex + 1)))" by simp
  then show ?thesis
    using False magnitude_cancel [of 10 c "10 ^ nat (- (ex + 1))"]
    by (simp add: decimal_magnitude_ratio mult.commute)
qed

lemma strip_zeros_magnitude:
  "strip_zeros c ex = (c', ex') \<Longrightarrow> decimal_magnitude c' ex' = decimal_magnitude c ex"
proof (induction c ex rule: strip_zeros.induct)
  case (1 c ex)
  show ?case
  proof (cases "c \<noteq> 0 \<and> c mod 10 = 0")
    case True
    then have "decimal_magnitude c' ex' = decimal_magnitude (c div 10) (ex + 1)"
      using 1 strip_zeros.simps [of c ex] by simp
    moreover have "c = c div 10 * 10" using True by auto
    ultimately show ?thesis using decimal_magnitude_shift [of "c div 10" ex] by simp
  qed (use 1(2) strip_zeros.simps [of c ex] in auto)
qed

section \<open>Printing and reading\<close>

lemma parse_number_whole:
  "list_all is_digit w \<Longrightarrow> w \<noteq> [] \<Longrightarrow> parse_number negative w = Some (decimal_bits negative (decimal_value w) 0)"
  by (simp add: parse_number_def parse_exponent_def list_all_iff takeWhile_eq_all_conv [THEN iffD2]
      dropWhile_eq_Nil_conv [THEN iffD2] Let_def)

lemma parse_number_point:
  assumes "list_all is_digit w" and "list_all is_digit f" and "w \<noteq> []"
  shows "parse_number negative (w @ 0x2E # f) = Some (decimal_bits negative (decimal_value (w @ f)) (- int (length f)))"
proof -
  have whole: "takeWhile is_digit (w @ 0x2E # f) = w" "dropWhile is_digit (w @ 0x2E # f) = 0x2E # f"
    using assms by (simp_all add: is_digit_def takeWhile_append list_all_iff dropWhile_append)
  have frac: "takeWhile is_digit f = f" "dropWhile is_digit f = []"
    using assms by (simp_all add: takeWhile_eq_all_conv list_all_iff)
  show ?thesis using assms by (simp add: parse_number_def parse_exponent_def Let_def whole frac)
qed

lemma parse_plain: "parse_number negative (lit (plain_decimal c ex)) = Some (f64_bits negative (decimal_magnitude c ex))"
proof -
  define digits where "digits = lit (dec c)"
  have d: "list_all is_digit digits" "decimal_value digits = c" "digits \<noteq> []" "length digits = length (dec c)"
    using dec_value [of c] dec_bounds(3) [of c] by (auto simp: digits_def lit_def)
  define point where "point = int (length digits) + ex"
  have zeros: "list_all is_digit (replicate k 0x30)" for k by (simp add: is_digit_def list_all_iff)
  consider "point \<le> 0" | "0 < point" "ex < 0" | "0 \<le> ex" by linarith
  then show ?thesis
  proof cases
    case 1
    then have "lit (plain_decimal c ex) = replicate 1 0x30 @ 0x2E # replicate (nat (- point)) 0x30 @ digits"
      by (simp add: plain_decimal_def Let_def d point_def digits_def) (simp add: lit_def)
    moreover have "ex < 0" "- int (nat (- point) + length digits) = ex"
      using 1 d(3) by (cases digits; simp add: point_def)+
    ultimately show ?thesis
      using parse_number_point [OF zeros [of 1], of "replicate (nat (- point)) 0x30 @ digits"] d zeros
        zeros_decimal_value [of "Suc (nat (- point))" digits]
      by (simp add: decimal_bits_def decimal_magnitude_def)
  next
    case 2
    then have "lit (plain_decimal c ex) = take (nat point) digits @ 0x2E # drop (nat point) digits"
      by (simp add: plain_decimal_def Let_def d point_def digits_def) (simp add: lit_def take_map drop_map)
    moreover have "- int (length (drop (nat point) digits)) = ex" using 2 by (auto simp: point_def)
    moreover have "list_all is_digit (take (nat point) digits)" "list_all is_digit (drop (nat point) digits)"
      using d by (auto simp: list_all_iff dest: in_set_takeD in_set_dropD)
    ultimately show ?thesis
      using parse_number_point [of "take (nat point) digits" "drop (nat point) digits" negative] d 2
      by (simp only: append_take_drop_id) (simp add: decimal_bits_def decimal_magnitude_def)
  next
    case 3
    then have "lit (plain_decimal c ex) = digits @ replicate (nat ex) 0x30"
      using d(3) by (cases "dec c") (simp_all add: plain_decimal_def Let_def digits_def lit_def)
    then show ?thesis
      using parse_number_whole [of "digits @ replicate (nat ex) 0x30"] d zeros 3 decimal_value_zeros [of digits "nat ex"]
      by (simp add: decimal_bits_def decimal_magnitude_def)
  qed
qed

lemma plain_decimal_head:
  "plain_decimal c ex \<noteq> [] \<and> hd (lit (plain_decimal c ex)) \<noteq> 0x2D \<and> hd (lit (plain_decimal c ex)) \<noteq> 0x2B"
proof -
  have "hd (lit (dec c)) \<noteq> 0x2D \<and> hd (lit (dec c)) \<noteq> 0x2B"
    using dec_value [of c] dec_bounds(3) [of c] by (cases "dec c") (auto simp: lit_def is_digit_def)
  then show ?thesis
    using dec_bounds(3) [of c] by (cases "dec c") (auto simp: plain_decimal_def Let_def lit_def take_Cons')
qed

lemma f64_bits_whole: "f64_bits (bit x 63) (unat x mod 2 ^ 63) = x"
proof -
  have "unat x < 2 ^ 64" using unsigned_less [of x] by simp
  then have "unat x div 2 ^ 63 < 2" by simp
  then have "unat x div 2 ^ 63 = (if bit x 63 then 1 else 0)"
    using bit_iff_odd [of "unat x" 63] by (auto simp: bit_unsigned_iff elim: oddE evenE)
  then have "unat x = (if bit x 63 then 2 ^ 63 else 0) + unat x mod 2 ^ 63"
    using div_mult_mod_eq [of "unat x" "2 ^ 63"] by (simp split: if_splits)
  then have "f64_bits (bit x 63) (unat x mod 2 ^ 63) = of_nat (unat x)" by (simp only: f64_bits_def)
  then show ?thesis by simp
qed

lemma units_zero: "f64_is_finite x \<Longrightarrow> f64_units x = 0 \<Longrightarrow> unat x mod 2 ^ 63 = 0"
  by (rule f64_units_split [of x]) auto

lemma f64_magnitude_zero: "f64_magnitude 0 den = 0"
  using bit_len.simps [of 0] by (simp add: f64_magnitude_def round_half_even_def Let_def)

lemma display_reads_back:
  assumes x: "f64_is_finite x"
  shows "parse_f64 (lit (display_f64 x)) = Some x"
proof -
  define body where "body = (if f64_units x = 0 then ''0'' else case shortest (f64_units x) of (c, ex) \<Rightarrow>
      (case strip_zeros c ex of (c', ex') \<Rightarrow> plain_decimal c' ex'))"
  have shown: "display_f64 x = (if bit x 63 then ''-'' else []) @ body"
    using x by (simp add: display_f64_def body_def f64_is_nan_def f64_is_finite_def)
  have head: "body \<noteq> []" "hd (lit body) \<noteq> 0x2D" "hd (lit body) \<noteq> 0x2B"
    using plain_decimal_head by (auto simp: body_def lit_def split: prod.splits)
  have "parse_number negative (lit body) = Some (f64_bits negative (unat x mod 2 ^ 63))" for negative
  proof (cases "f64_units x = 0")
    case True
    have "parse_number negative (lit body) = Some (decimal_bits negative 0 0)"
      using parse_number_whole [of "[0x30]"] True by (simp add: body_def lit_def is_digit_def decimal_value_def digit_value_def)
    then show ?thesis using units_zero [OF x True]
      by (simp add: decimal_bits_def f64_magnitude_zero)
  next
    case False
    obtain c ex c' ex' where s: "shortest (f64_units x) = (c, ex)" "strip_zeros c ex = (c', ex')"
      by (metis surj_pair)
    with False show ?thesis
      using shortest_reads [OF x _ s(1)] strip_zeros_magnitude [OF s(2)] by (simp add: body_def parse_plain)
  qed
  note number = this
  show ?thesis
    using head f64_bits_whole [of x] number
    by (cases "bit x 63") (simp_all add: shown parse_f64_def Let_def lit_def)
qed

end
