(* ===== verification/Ntrip_Chunk.thy ===== *)
theory Ntrip_Chunk
  imports Rtcm_Bits "HOL-Library.Sublist"
begin

text \<open>
  The chunked transfer decoder of \<^verbatim>\<open>ntrip/chunk.rs\<close>: its states, the line reader, the size
  line and \<^verbatim>\<open>push\<close>, with the stored parse error.
\<close>

unbundle bit_operations_syntax

section \<open>The model\<close>

fun iter_position :: "('a \<Rightarrow> bool) \<Rightarrow> 'a list \<Rightarrow> nat option" where
  "iter_position p [] = None"
| "iter_position p (x # xs) = (if p x then Some 0 else map_option Suc (iter_position p xs))"

definition LF :: u8 where "LF = 0x0A"

definition CR :: u8 where "CR = 0x0D"

definition MAX_CHUNK_SIZE :: nat where
  "MAX_CHUNK_SIZE = 16 * 1024 * 1024"

definition CHUNK_MAX_LINE :: nat where
  "CHUNK_MAX_LINE = 8 * 1024"

definition MAX_HEX_DIGITS :: nat where
  "MAX_HEX_DIGITS = 8"

datatype chunk_state = Size | Data nat | DataLineEnd | Trailer

record chunked_decoder =
  cd_buf :: "u8 list"
  cd_state :: chunk_state
  cd_finished :: bool
  cd_poison :: "string option"
  cd_trailer_len :: nat

definition chunked_new :: chunked_decoder where
  "chunked_new = \<lparr>cd_buf = [], cd_state = Size, cd_finished = False, cd_poison = None, cd_trailer_len = 0\<rparr>"

definition poison :: "string \<Rightarrow> chunked_decoder \<Rightarrow> (rust_error + 'a) \<times> chunked_decoder" where
  "poison message d = (Inl (Parse message), d\<lparr>cd_poison := Some message\<rparr>)"

definition poison_from :: "rust_error \<Rightarrow> chunked_decoder \<Rightarrow> (rust_error + 'a) \<times> chunked_decoder" where
  "poison_from err d =
     (let message = error_text err in (Inl (Parse message), d\<lparr>cd_poison := Some message\<rparr>))"

text \<open>A line without its terminator: the drained bytes less a final LF and then a final CR.\<close>

definition chomp :: "u8 list \<Rightarrow> u8 list" where
  "chomp drained =
     (let line = (if drained \<noteq> [] \<and> last drained = LF then butlast drained else drained)
      in if line \<noteq> [] \<and> last line = CR then butlast line else line)"

definition read_line :: "chunked_decoder \<Rightarrow> (rust_error + u8 list option) \<times> chunked_decoder" where
  "read_line d =
     (case iter_position (\<lambda>b. b = LF) (cd_buf d) of
        Some pos \<Rightarrow> (Inr (Some (chomp (take (pos + 1) (cd_buf d)))), d\<lparr>cd_buf := drop (pos + 1) (cd_buf d)\<rparr>)
      | None \<Rightarrow>
          if length (cd_buf d) > CHUNK_MAX_LINE then poison ''chunk line too long'' d
          else (Inr None, d))"

definition is_ascii_whitespace :: "u8 \<Rightarrow> bool" where
  "is_ascii_whitespace b \<longleftrightarrow> b \<in> {0x09, 0x0A, 0x0C, 0x0D, 0x20}"

definition trim_ascii :: "u8 list \<Rightarrow> u8 list" where
  "trim_ascii bytes = rev (dropWhile is_ascii_whitespace (rev (dropWhile is_ascii_whitespace bytes)))"

definition hex_nibble :: "u8 \<Rightarrow> u64 option" where
  "hex_nibble b =
     (if 0x30 \<le> b \<and> b \<le> 0x39 then Some (ucast (b - 0x30))
      else if 0x61 \<le> b \<and> b \<le> 0x66 then Some (ucast (b - 0x61 + 10))
      else if 0x41 \<le> b \<and> b \<le> 0x46 then Some (ucast (b - 0x41 + 10))
      else None)"

fun hex_loop :: "u64 \<Rightarrow> u8 list \<Rightarrow> rust_error + u64" where
  "hex_loop acc [] = Inr acc"
| "hex_loop acc (b # bs) =
     (case hex_nibble b of
        None \<Rightarrow> Inl (Parse ''invalid chunk size digit'')
      | Some digit \<Rightarrow> hex_loop (push_bit 4 acc OR digit) bs)"

definition parse_size_line :: "u8 list \<Rightarrow> rust_error + nat" where
  "parse_size_line line =
     (if length line > CHUNK_MAX_LINE then Inl (Parse ''chunk size line too long'')
      else
        (let size_part = trim_ascii (takeWhile (\<lambda>b. b \<noteq> 0x3B) line) in
         if size_part = [] then Inl (Parse ''empty chunk size'')
         else if length size_part > MAX_HEX_DIGITS then Inl (Parse ''chunk size has too many hex digits'')
         else
           ebind (hex_loop 0 size_part) (\<lambda>total.
             if unat total > MAX_CHUNK_SIZE then Inl (Parse ''chunk size exceeds limit'')
             else Inr (unat total))))"

lemma iter_position_less: "iter_position p xs = Some i \<Longrightarrow> i < length xs"
  by (induction xs arbitrary: i) (auto split: if_splits)

lemma read_line_shrinks:
  "(Inr (Some line), d') = read_line d \<Longrightarrow> length (cd_buf d') < length (cd_buf d) \<and> cd_state d' = cd_state d"
  by (auto simp: read_line_def poison_def split: option.splits if_splits dest: iter_position_less)

text \<open>
  One turn of the loop of \<open>push\<close>: a break returns the output, an early return its error.
\<close>

datatype ('s, 'r) flow = Continue 's | Return 'r

definition chunk_step ::
  "chunked_decoder \<Rightarrow> u8 list
     \<Rightarrow> (chunked_decoder \<times> u8 list, (rust_error + u8 list) \<times> chunked_decoder) flow" where
  "chunk_step d out =
     (case cd_state d of
        Size \<Rightarrow>
          (case read_line d of
             (Inl e, d1) \<Rightarrow> Return (Inl e, d1)
           | (Inr None, d1) \<Rightarrow> Return (Inr out, d1)
           | (Inr (Some line), d1) \<Rightarrow>
               (case parse_size_line line of
                  Inl err \<Rightarrow> Return (poison_from err d1)
                | Inr count \<Rightarrow>
                    Continue (d1\<lparr>cd_state := (if count = 0 then Trailer else Data count)\<rparr>, out)))
      | Data remaining \<Rightarrow>
          if cd_buf d = [] then Return (Inr out, d)
          else
            (let n = min remaining (length (cd_buf d));
                 left = remaining - n
             in Continue
                  (d\<lparr>cd_buf := drop n (cd_buf d), cd_state := (if left = 0 then DataLineEnd else Data left)\<rparr>,
                   out @ take n (cd_buf d)))
      | DataLineEnd \<Rightarrow>
          if cd_buf d = [] then Return (Inr out, d)
          else if cd_buf d ! 0 = LF then Continue (d\<lparr>cd_buf := drop 1 (cd_buf d), cd_state := Size\<rparr>, out)
          else if cd_buf d ! 0 = CR then
            (if length (cd_buf d) < 2 then Return (Inr out, d)
             else if cd_buf d ! 1 \<noteq> LF then Return (poison ''malformed chunk data terminator'' d)
             else Continue (d\<lparr>cd_buf := drop 2 (cd_buf d), cd_state := Size\<rparr>, out))
          else Return (poison ''malformed chunk data terminator'' d)
      | Trailer \<Rightarrow>
          (case read_line d of
             (Inl e, d1) \<Rightarrow> Return (Inl e, d1)
           | (Inr None, d1) \<Rightarrow> Return (Inr out, d1)
           | (Inr (Some line), d1) \<Rightarrow>
               (let d2 = d1\<lparr>cd_trailer_len := cd_trailer_len d1 + length line\<rparr> in
                if cd_trailer_len d2 > CHUNK_MAX_LINE then Return (poison ''chunk trailer section too long'' d2)
                else if line = [] then Return (Inr out, d2\<lparr>cd_finished := True\<rparr>)
                else Continue (d2, out))))"

definition chunk_measure :: "chunked_decoder \<Rightarrow> nat" where
  "chunk_measure d = 2 * length (cd_buf d) + (case cd_state d of Data _ \<Rightarrow> 1 | _ \<Rightarrow> 0)"

lemma chunk_step_decreases:
  "chunk_step d out = Continue (d', out') \<Longrightarrow> chunk_measure d' < chunk_measure d"
  by (auto simp: chunk_step_def chunk_measure_def Let_def poison_def poison_from_def min_def
      split: chunk_state.splits prod.splits sum.splits option.splits if_splits
      dest!: read_line_shrinks [OF sym])

function chunk_loop ::
  "chunked_decoder \<Rightarrow> u8 list \<Rightarrow> (rust_error + u8 list) \<times> chunked_decoder" where
  "chunk_loop d out =
     (case chunk_step d out of
        Continue (d', out') \<Rightarrow> chunk_loop d' out'
      | Return result \<Rightarrow> result)"
  by pat_completeness auto
termination
  by (relation "measure (\<lambda>(d, out). chunk_measure d)") (auto simp: chunk_step_decreases)

declare chunk_loop.simps [simp del]

definition chunk_push :: "u8 list \<Rightarrow> chunked_decoder \<Rightarrow> (rust_error + u8 list) \<times> chunked_decoder" where
  "chunk_push bytes d =
     (case cd_poison d of
        Some message \<Rightarrow> (Inl (Parse message), d)
      | None \<Rightarrow>
          if cd_finished d then (Inr [], d)
          else chunk_loop (d\<lparr>cd_buf := cd_buf d @ bytes\<rparr>) [])"

definition chunk_reset :: "chunked_decoder \<Rightarrow> chunked_decoder" where
  "chunk_reset d = chunked_new"

section \<open>Splitting the input\<close>

definition extend :: "u8 list \<Rightarrow> chunked_decoder \<Rightarrow> chunked_decoder" where
  "extend later d = d\<lparr>cd_buf := cd_buf d @ later\<rparr>"

lemma extend_simps [simp]:
  "cd_buf (extend later d) = cd_buf d @ later" "cd_state (extend later d) = cd_state d"
  "cd_finished (extend later d) = cd_finished d" "cd_poison (extend later d) = cd_poison d"
  "cd_trailer_len (extend later d) = cd_trailer_len d" "extend [] d = d"
  by (simp_all add: extend_def)

lemma extend_updates [simp]:
  "extend later (d\<lparr>cd_state := st\<rparr>) = (extend later d)\<lparr>cd_state := st\<rparr>"
  "extend later (d\<lparr>cd_finished := fin\<rparr>) = (extend later d)\<lparr>cd_finished := fin\<rparr>"
  "extend later (d\<lparr>cd_trailer_len := len\<rparr>) = (extend later d)\<lparr>cd_trailer_len := len\<rparr>"
  "extend later (d\<lparr>cd_buf := buf\<rparr>) = d\<lparr>cd_buf := buf @ later\<rparr>"
  "(extend later d)\<lparr>cd_buf := buf\<rparr> = d\<lparr>cd_buf := buf\<rparr>"
  by (simp_all add: extend_def)

lemma iter_position_append: "iter_position p xs = Some i \<Longrightarrow> iter_position p (xs @ ys) = Some i"
  by (induction xs arbitrary: i) (auto split: if_splits)

lemma read_line_extend:
  "read_line d = (Inr (Some line), d1) \<Longrightarrow> read_line (extend later d) = (Inr (Some line), extend later d1)"
  by (auto simp: read_line_def poison_def extend_def iter_position_append
      split: option.splits if_splits dest: iter_position_less)

lemma read_line_None: "read_line d = (Inr None, d1) \<Longrightarrow> d1 = d"
  by (auto simp: read_line_def poison_def split: option.splits if_splits)

lemma read_line_keeps:
  "read_line d = (r, d1) \<Longrightarrow> cd_finished d1 = cd_finished d \<and> cd_trailer_len d1 = cd_trailer_len d
     \<and> (\<forall>x. r = Inr x \<longrightarrow> cd_poison d1 = cd_poison d)"
  by (auto simp: read_line_def poison_def split: option.splits if_splits)

text \<open>
  A turn that goes on does the same on a longer buffer, unless it has emptied the buffer in the
  middle of the data: then the next turn stops, and the longer buffer takes both parts at once.
\<close>

lemma line_step_extend:
  assumes "chunk_step d out = Continue (d', out')" and "cd_state d = Size \<or> cd_state d = Trailer"
  shows "chunk_step (extend later d) out = Continue (extend later d', out')"
proof -
  obtain line d1 where rl: "read_line d = (Inr (Some line), d1)"
    using assms by (auto simp: chunk_step_def split: prod.splits sum.splits option.splits)
  from assms(2) show ?thesis
  proof
    assume st: "cd_state d = Size"
    with assms(1) obtain c where c: "parse_size_line line = Inr c"
      by (cases "parse_size_line line") (simp_all add: chunk_step_def rl)
    with assms(1) st show ?thesis
      by (clarsimp simp: chunk_step_def rl read_line_extend [OF rl])
  next
    assume st: "cd_state d = Trailer"
    with assms(1) show ?thesis
      by (clarsimp simp: chunk_step_def rl read_line_extend [OF rl] Let_def split: if_splits)
  qed
qed

lemma terminator_step_extend:
  assumes "chunk_step d out = Continue (d', out')" and "cd_state d = DataLineEnd"
  shows "chunk_step (extend later d) out = Continue (extend later d', out')"
  using assms by (auto simp: chunk_step_def nth_append Suc_le_eq split: if_splits)

lemma data_step_extend:
  assumes "chunk_step d out = Continue (d', out')" and "cd_state d = Data n"
  shows "if length (cd_buf d) < n
    then chunk_step d' out' = Return (Inr out', d')
      \<and> (later \<noteq> [] \<longrightarrow> chunk_step (extend later d) out = chunk_step (extend later d') out')
    else chunk_step (extend later d) out = Continue (extend later d', out')"
proof -
  have b: "cd_buf d \<noteq> []" using assms by (auto simp: chunk_step_def)
  show ?thesis
  proof (cases "length (cd_buf d) < n")
    case True
    then have d': "d' = d\<lparr>cd_buf := [], cd_state := Data (n - length (cd_buf d))\<rparr>" and o': "out' = out @ cd_buf d"
      using assms b by (simp_all add: chunk_step_def Let_def min_def)
    with True assms(2) b show ?thesis
      by (auto simp: chunk_step_def Let_def min_def)
  next
    case False
    then show ?thesis using assms b by (clarsimp simp: chunk_step_def Let_def)
  qed
qed

lemma chunk_step_Return:
  assumes "chunk_step d out = Return (Inr o1, d1)" and "\<not> cd_finished d"
  shows "if cd_finished d1 then chunk_step (extend later d) out = Return (Inr o1, extend later d1)
    else d1 = d \<and> o1 = out"
proof (cases "\<exists>line d2. read_line d = (Inr (Some line), d2)")
  case True
  then obtain line d2 where rl: "read_line d = (Inr (Some line), d2)" by blast
  from assms read_line_keeps [OF rl] show ?thesis
    by (auto simp: chunk_step_def rl read_line_extend [OF rl] poison_def poison_from_def Let_def
        split: chunk_state.splits sum.splits if_splits)
next
  case False
  with assms show ?thesis
    by (auto simp: chunk_step_def poison_def poison_from_def Let_def dest: read_line_None read_line_keeps
        split: chunk_state.splits prod.splits sum.splits option.splits if_splits)
qed

lemma chunk_step_unfinished:
  "chunk_step d out = Continue (d', out') \<Longrightarrow> \<not> cd_finished d \<Longrightarrow> \<not> cd_finished d'"
  by (auto simp: chunk_step_def poison_def poison_from_def Let_def dest: read_line_keeps
      split: chunk_state.splits prod.splits sum.splits option.splits if_splits)

text \<open>A loop that returns output can be resumed with the bytes that come later.\<close>

lemma chunk_loop_extend:
  "chunk_loop d out = (Inr o1, d1) \<Longrightarrow> \<not> cd_finished d \<Longrightarrow>
     chunk_loop (extend later d) out
       = (if cd_finished d1 then (Inr o1, extend later d1) else chunk_loop (extend later d1) o1)"
proof (induction d out rule: chunk_loop.induct)
  case (1 d out)
  show ?case
  proof (cases "chunk_step d out")
    case (Return r)
    with 1 chunk_step_Return [of d out o1 d1] show ?thesis
      by (auto simp: chunk_loop.simps [of d] chunk_loop.simps [of "extend later d"])
  next
    case (Continue p)
    obtain d' out' where p: "p = (d', out')" by (cases p)
    note st = Continue [unfolded p]
    have run: "chunk_loop d' out' = (Inr o1, d1)" using 1(2) st by (simp add: chunk_loop.simps [of d])
    have fin: "\<not> cd_finished d'" using st 1(3) by (rule chunk_step_unfinished)
    note ih = "1.IH" [OF Continue p [symmetric] run fin]
    show ?thesis
    proof (cases "\<exists>n. cd_state d = Data n \<and> length (cd_buf d) < n")
      case True
      then obtain n where "cd_state d = Data n" "length (cd_buf d) < n" by blast
      with data_step_extend [OF st, of n later] run fin 1(2) show ?thesis
        by (cases "later = []") (auto simp: chunk_loop.simps [of "extend later d" out]
            chunk_loop.simps [of "extend later d1" o1] chunk_loop.simps [of d'] chunk_loop.simps [of d1])
    next
      case False
      then have "chunk_step (extend later d) out = Continue (extend later d', out')"
        using data_step_extend [OF st, of _ later] line_step_extend [OF st] terminator_step_extend [OF st]
        by (cases "cd_state d") auto
      with ih show ?thesis by (simp add: chunk_loop.simps [of "extend later d"])
    qed
  qed
qed

lemma chunk_step_out:
  "chunk_step d (out @ out') = (case chunk_step d out' of
      Continue (d1, o1) \<Rightarrow> Continue (d1, out @ o1)
    | Return (r, d1) \<Rightarrow> Return (map_sum (\<lambda>e. e) ((@) out) r, d1))"
  by (auto simp: chunk_step_def poison_def poison_from_def Let_def
      split: chunk_state.splits prod.splits sum.splits option.splits)

lemma chunk_loop_out:
  "chunk_loop d (out @ out') = (let (r, d1) = chunk_loop d out' in (map_sum (\<lambda>e. e) ((@) out) r, d1))"
proof (induction d out' rule: chunk_loop.induct)
  case (1 d out')
  show ?case
  proof (cases "chunk_step d out'")
    case (Continue p)
    obtain d1 o1 where p: "p = (d1, o1)" by (cases p)
    from "1.IH" [OF Continue p [symmetric]] Continue show ?thesis
      by (simp add: p chunk_loop.simps [of d] chunk_step_out)
  next
    case (Return r)
    then show ?thesis by (cases r) (simp add: chunk_loop.simps [of d] chunk_step_out)
  qed
qed

lemma chunk_loop_poison:
  "chunk_loop d out = (r, d1) \<Longrightarrow> cd_poison d = None \<Longrightarrow>
     (case r of Inl e \<Rightarrow> \<exists>m. e = Parse m \<and> cd_poison d1 = Some m | Inr _ \<Rightarrow> cd_poison d1 = None)"
proof (induction d out rule: chunk_loop.induct)
  case (1 d out)
  obtain q d2 where rl: "read_line d = (q, d2)" by fastforce
  note k = read_line_keeps [OF rl]
  have e: "\<exists>m. e = Parse m \<and> cd_poison d2 = Some m" if "q = Inl e" for e
    using rl that by (auto simp: read_line_def poison_def split: option.splits if_splits)
  show ?case
  proof (cases "chunk_step d out")
    case (Continue p)
    obtain d' o' where p: "p = (d', o')" by (cases p)
    have "cd_poison d' = None" using Continue 1(3) k
      by (auto simp: p chunk_step_def rl poison_def poison_from_def Let_def
          split: chunk_state.splits sum.splits option.splits if_splits)
    with "1.IH" [OF Continue p [symmetric]] 1(2) Continue show ?thesis
      by (simp add: chunk_loop.simps [of d] p)
  next
    case (Return s)
    with 1(2,3) k e show ?thesis
      by (auto simp: chunk_loop.simps [of d] chunk_step_def rl poison_def poison_from_def Let_def
          split: chunk_state.splits sum.splits option.splits if_splits)
  qed
qed

text \<open>
  Pushing two fragments is pushing their concatenation; a decoder that has finished keeps the bytes
  after the end in its buffer instead of dropping them, which nothing reads.
\<close>

definition alike :: "chunked_decoder \<Rightarrow> chunked_decoder \<Rightarrow> bool" where
  "alike d d' \<longleftrightarrow> d = d' \<or> cd_finished d \<and> d\<lparr>cd_buf := []\<rparr> = d'\<lparr>cd_buf := []\<rparr>"

lemma chunk_push_append:
  assumes "chunk_push a d = (Inr o1, d1)"
  shows "case chunk_push b d1 of
      (Inl e, d2) \<Rightarrow> chunk_push (a @ b) d = (Inl e, d2)
    | (Inr o2, d2) \<Rightarrow> \<exists>d'. chunk_push (a @ b) d = (Inr (o1 @ o2), d') \<and> alike d' d2"
proof (cases "cd_finished d")
  case True
  with assms show ?thesis by (auto simp: chunk_push_def alike_def split: option.splits)
next
  case False
  have p: "cd_poison d = None" and run: "chunk_loop (extend a d) [] = (Inr o1, d1)"
    using assms False by (auto simp: chunk_push_def extend_def split: option.splits)
  have p1: "cd_poison d1 = None" using chunk_loop_poison [OF run] p by simp
  have whole: "chunk_push (a @ b) d
      = (if cd_finished d1 then (Inr o1, extend b d1) else chunk_loop (extend b d1) o1)"
    using chunk_loop_extend [OF run, of b] False p by (simp add: chunk_push_def extend_def)
  show ?thesis
  proof (cases "cd_finished d1")
    case True
    with whole p1 show ?thesis by (simp add: chunk_push_def alike_def)
  next
    case fin: False
    with whole p1 chunk_loop_out [of "extend b d1" o1 "[]"] show ?thesis
      by (auto simp: chunk_push_def extend_def alike_def split: prod.splits sum.splits)
  qed
qed

section \<open>Fragments\<close>

fun chunk_pushes :: "u8 list list \<Rightarrow> chunked_decoder \<Rightarrow> (rust_error + u8 list) \<times> chunked_decoder" where
  "chunk_pushes [] d = (Inr [], d)"
| "chunk_pushes (f # fs) d =
     (case chunk_push f d of
        (Inl e, d1) \<Rightarrow> (Inl e, d1)
      | (Inr o1, d1) \<Rightarrow> (case chunk_pushes fs d1 of
            (Inl e, d2) \<Rightarrow> (Inl e, d2)
          | (Inr o2, d2) \<Rightarrow> (Inr (o1 @ o2), d2)))"

lemma chunk_push_alike:
  assumes "alike d d'" and "chunk_push b d' = (r, d2')"
  shows "\<exists>d2. chunk_push b d = (r, d2) \<and> alike d2 d2'"
proof (cases "cd_finished d")
  case True
  with assms(1) have "cd_finished d'" "cd_poison d = cd_poison d'"
    by (auto simp: alike_def) (metis chunked_decoder.surjective chunked_decoder.update_convs(1) chunked_decoder.select_convs(3,4))+
  with True assms show ?thesis by (auto simp: chunk_push_def split: option.splits)
qed (use assms in \<open>auto simp: alike_def\<close>)

lemma chunk_pushes_concat:
  "chunk_pushes fs d1 = (Inr o2, d2) \<Longrightarrow> chunk_push a d = (Inr o1, d1') \<Longrightarrow> alike d1' d1 \<Longrightarrow>
     \<exists>d'. chunk_push (a @ concat fs) d = (Inr (o1 @ o2), d') \<and> alike d' d2"
proof (induction fs arbitrary: a o1 o2 d1 d1')
  case (Cons f fs)
  from Cons.prems(1) obtain p q e1 where f: "chunk_push f d1 = (Inr p, e1)" and g: "chunk_pushes fs e1 = (Inr q, d2)"
    and o2: "o2 = p @ q"
    by (auto split: prod.splits sum.splits)
  from chunk_push_alike [OF Cons.prems(3) f] obtain e1' where
    f': "chunk_push f d1' = (Inr p, e1')" and al: "alike e1' e1" by blast
  from chunk_push_append [OF Cons.prems(2), of f] f' obtain h where
    h: "chunk_push (a @ f) d = (Inr (o1 @ p), h)" "alike h e1'" by auto
  have "alike h e1" using h(2) al by (auto simp: alike_def)
  from Cons.IH [OF g h(1) this] show ?case by (simp add: o2)
qed auto

section \<open>Chunked bodies\<close>

text \<open>A line of a chunked body: no LF inside and short enough to wait for its end.\<close>

definition is_line :: "u8 list \<Rightarrow> bool" where
  "is_line line \<longleftrightarrow> LF \<notin> set line \<and> length line < CHUNK_MAX_LINE"

definition is_chunk :: "u8 list \<times> u8 list \<Rightarrow> bool" where
  "is_chunk c \<longleftrightarrow> is_line (fst c) \<and> snd c \<noteq> [] \<and> parse_size_line (fst c) = Inr (length (snd c))"

definition chunk_bytes :: "u8 list \<times> u8 list \<Rightarrow> u8 list" where
  "chunk_bytes c = fst c @ [CR, LF] @ snd c @ [CR, LF]"

definition trailer_bytes :: "u8 list list \<Rightarrow> u8 list" where
  "trailer_bytes trailers = concat (map (\<lambda>t. t @ [CR, LF]) trailers) @ [CR, LF]"

definition chunked_body :: "(u8 list \<times> u8 list) list \<Rightarrow> u8 list \<Rightarrow> u8 list list \<Rightarrow> u8 list" where
  "chunked_body cs final trailers = concat (map chunk_bytes cs) @ final @ [CR, LF] @ trailer_bytes trailers"

lemma CR_LF [simp]: "CR \<noteq> LF" "LF \<noteq> CR"
  by (simp_all add: CR_def LF_def)

lemma no_position: "LF \<notin> set xs \<Longrightarrow> iter_position (\<lambda>b. b = LF) xs = None"
  by (induction xs) auto

lemma position_after: "(\<forall>x\<in>set xs. \<not> p x) \<Longrightarrow> p y \<Longrightarrow> iter_position p (xs @ y # ys) = Some (length xs)"
  by (induction xs) auto

lemma read_whole_line:
  assumes "is_line line" and "cd_buf d = line @ CR # LF # rest"
  shows "read_line d = (Inr (Some line), d\<lparr>cd_buf := rest\<rparr>)"
proof -
  have "iter_position (\<lambda>b. b = LF) (cd_buf d) = Some (length (line @ [CR]))"
    using assms position_after [of "line @ [CR]" "\<lambda>b. b = LF" LF rest] by (auto simp: is_line_def)
  moreover have "chomp (line @ [CR, LF]) = line" by (simp add: chomp_def butlast_append)
  ultimately show ?thesis by (simp add: read_line_def assms(2))
qed

lemma read_part_line:
  assumes "is_line line" and "prefix (cd_buf d) (line @ [CR])"
  shows "read_line d = (Inr None, d)"
proof -
  from assms have "LF \<notin> set (cd_buf d)" "length (cd_buf d) \<le> CHUNK_MAX_LINE"
    by (auto simp: is_line_def dest: set_mono_prefix prefix_length_le)
  then show ?thesis by (simp add: read_line_def no_position)
qed

definition waiting :: "chunk_state \<Rightarrow> chunked_decoder \<Rightarrow> bool" where
  "waiting st d \<longleftrightarrow> cd_state d = st \<and> cd_buf d = [] \<and> cd_poison d = None \<and> \<not> cd_finished d"

text \<open>A whole chunk gives its data; a part of it gives a part of the data and no error.\<close>

lemma size_whole:
  assumes "is_line line" and "parse_size_line line = Inr n" and "waiting Size d"
  shows "chunk_loop (extend (line @ CR # LF # rest) d) out
    = chunk_loop (d\<lparr>cd_buf := rest, cd_state := (if n = 0 then Trailer else Data n)\<rparr>) out"
proof -
  have "read_line (extend (line @ CR # LF # rest) d)
      = (Inr (Some line), d\<lparr>cd_buf := rest\<rparr>)"
    using assms(3) by (subst read_whole_line [OF assms(1)]) (simp_all add: waiting_def)
  with assms show ?thesis by (subst chunk_loop.simps) (simp add: chunk_step_def waiting_def)
qed

lemma line_part:
  assumes "is_line line" and "waiting Size d \<or> waiting Trailer d" and "prefix p (line @ [CR])"
  shows "chunk_loop (extend p d) out = (Inr out, extend p d)"
proof -
  have "read_line (extend p d) = (Inr None, extend p d)"
    using assms by (intro read_part_line [OF assms(1)]) (auto simp: waiting_def)
  with assms(2) show ?thesis by (subst chunk_loop.simps) (auto simp: chunk_step_def waiting_def)
qed

lemma chunk_whole:
  assumes "is_chunk c" and "waiting Size d"
  shows "chunk_loop (extend (chunk_bytes c @ rest) d) out = chunk_loop (extend rest d) (out @ snd c)"
proof -
  let ?data = "snd c"
  have "chunk_loop (extend (chunk_bytes c @ rest) d) out
      = chunk_loop (d\<lparr>cd_buf := ?data @ CR # LF # rest, cd_state := Data (length ?data)\<rparr>) out"
    using assms size_whole [of "fst c" "length ?data" d] by (simp add: is_chunk_def chunk_bytes_def)
  also have "\<dots> = chunk_loop (d\<lparr>cd_buf := CR # LF # rest, cd_state := DataLineEnd\<rparr>) (out @ ?data)"
    using assms by (subst chunk_loop.simps) (simp add: chunk_step_def is_chunk_def)
  also have "\<dots> = chunk_loop (d\<lparr>cd_buf := rest, cd_state := Size\<rparr>) (out @ ?data)"
    by (subst chunk_loop.simps) (simp add: chunk_step_def)
  also have "d\<lparr>cd_buf := rest, cd_state := Size\<rparr> = extend rest d"
    using assms(2) by (cases d) (simp add: waiting_def extend_def)
  finally show ?thesis .
qed

lemma prefix_append_cases:
  assumes "prefix p (xs @ ys)"
  obtains "prefix p xs" | q where "p = xs @ q" "prefix q ys" "q \<noteq> []"
  using assms by (auto simp: prefix_append) blast

lemma data_part:
  assumes "prefix r (data @ [CR, LF])" and "r \<noteq> data @ [CR, LF]" and "data \<noteq> []"
  shows "\<exists>o1 d1. chunk_loop (d\<lparr>cd_buf := r, cd_state := Data (length data)\<rparr>) out = (Inr o1, d1)"
proof -
  have stop: "\<exists>o1 d1. chunk_loop (d\<lparr>cd_buf := b, cd_state := st\<rparr>) out' = (Inr o1, d1)"
    if "b = [] \<and> (st = DataLineEnd \<or> (\<exists>n. st = Data n)) \<or> b = [CR] \<and> st = DataLineEnd" for b st out'
    using that by (subst chunk_loop.simps) (auto simp: chunk_step_def)
  from assms(1) consider "prefix r data" | "r = data @ [CR]"
    using assms(2) by (auto simp: prefix_append prefix_Cons)
  then show ?thesis
  proof cases
    case 1
    then show ?thesis
    proof (cases "r = []")
      case False
      with 1 assms(3) prefix_length_le [OF 1] show ?thesis
        by (subst chunk_loop.simps) (auto simp: chunk_step_def Let_def min_def intro!: stop)
    qed (use stop in auto)
  next
    case 2
    with assms(3) show ?thesis
      by (subst chunk_loop.simps) (auto simp: chunk_step_def Let_def min_def intro!: stop)
  qed
qed

lemma chunk_part:
  assumes "is_chunk c" and "waiting Size d" and "prefix p (chunk_bytes c)" and "p \<noteq> chunk_bytes c"
  shows "\<exists>o1 d1. chunk_loop (extend p d) out = (Inr o1, d1)"
proof -
  let ?data = "snd c"
  from assms(3) have "prefix p ((fst c @ [CR]) @ [LF] @ ?data @ [CR, LF])" by (simp add: chunk_bytes_def)
  then show ?thesis
  proof (cases rule: prefix_append_cases)
    case 1
    with assms line_part show ?thesis by (auto simp: is_chunk_def)
  next
    case (2 q)
    then obtain r where r: "q = LF # r" "prefix r (?data @ [CR, LF])" by (cases q) auto
    have "r \<noteq> ?data @ [CR, LF]" using assms(4) by (auto simp: chunk_bytes_def 2(1) r(1))
    with data_part [OF r(2)] size_whole [of "fst c" "length ?data" d r out] assms(1,2) show ?thesis
      by (simp add: is_chunk_def 2(1) r(1))
  qed
qed

definition are_trailers :: "u8 list list \<Rightarrow> nat \<Rightarrow> bool" where
  "are_trailers ts n \<longleftrightarrow> (\<forall>t\<in>set ts. is_line t \<and> t \<noteq> []) \<and> n + sum_list (map length ts) \<le> CHUNK_MAX_LINE"

lemma is_line_Nil [simp]: "is_line []"
  by (simp add: is_line_def CHUNK_MAX_LINE_def)

lemma trailer_line:
  assumes "is_line t" and "waiting Trailer d" and "cd_trailer_len d + length t \<le> CHUNK_MAX_LINE"
  shows "chunk_loop (extend (t @ CR # LF # rest) d) out =
    (let d1 = d\<lparr>cd_trailer_len := cd_trailer_len d + length t\<rparr> in
     if t = [] then (Inr out, (extend rest d1)\<lparr>cd_finished := True\<rparr>) else chunk_loop (extend rest d1) out)"
proof -
  have "read_line (extend (t @ CR # LF # rest) d) = (Inr (Some t), extend rest d)"
    using assms(2) by (subst read_whole_line [OF assms(1)]) (simp_all add: waiting_def extend_def)
  with assms(2,3) show ?thesis
    by (subst chunk_loop.simps) (simp add: chunk_step_def waiting_def Let_def)
qed

lemma trailers_whole:
  "are_trailers ts (cd_trailer_len d) \<Longrightarrow> waiting Trailer d \<Longrightarrow>
     \<exists>d1. chunk_loop (extend (trailer_bytes ts) d) out = (Inr out, d1) \<and> cd_finished d1 \<and> cd_buf d1 = []"
proof (induction ts arbitrary: d)
  case Nil
  with trailer_line [of "[]" d "[]" out] show ?case
    by (simp add: trailer_bytes_def are_trailers_def waiting_def Let_def)
next
  case (Cons t ts)
  let ?d = "d\<lparr>cd_trailer_len := cd_trailer_len d + length t\<rparr>"
  have "are_trailers ts (cd_trailer_len ?d)" "waiting Trailer ?d"
    using Cons.prems by (simp_all add: are_trailers_def waiting_def)
  with Cons.IH [of ?d] Cons.prems trailer_line [of t d "trailer_bytes ts" out] show ?case
    by (simp add: trailer_bytes_def are_trailers_def Let_def)
qed

lemma line_prefix:
  assumes "prefix p (line @ [CR, LF] @ ys)"
  obtains "prefix p (line @ [CR])" | q where "p = line @ CR # LF # q" "prefix q ys"
proof -
  from assms have "prefix p ((line @ [CR]) @ LF # ys)" by simp
  then show thesis
  proof (cases rule: prefix_append_cases)
    case (2 q)
    then show ?thesis using that(2) by (cases q) auto
  qed (rule that(1))
qed

lemma trailers_part:
  "are_trailers ts (cd_trailer_len d) \<Longrightarrow> waiting Trailer d \<Longrightarrow> prefix p (trailer_bytes ts) \<Longrightarrow>
     \<exists>d1. chunk_loop (extend p d) out = (Inr out, d1)"
proof (induction ts arbitrary: d p)
  case Nil
  then have "prefix p ([] @ [CR, LF] @ [])" by (simp add: trailer_bytes_def)
  then show ?case
  proof (cases rule: line_prefix)
    case 1
    with Nil.prems(2) line_part [of "[]" d p out] show ?thesis by simp
  next
    case (2 q)
    with trailer_line [of "[]" d "[]" out] Nil.prems show ?thesis by (auto simp: are_trailers_def Let_def)
  qed
next
  case (Cons t ts)
  then have "prefix p (t @ [CR, LF] @ trailer_bytes ts)" by (simp add: trailer_bytes_def)
  then show ?case
  proof (cases rule: line_prefix)
    case 1
    with Cons.prems line_part show ?thesis by (fastforce simp: are_trailers_def)
  next
    case (2 q)
    let ?d = "d\<lparr>cd_trailer_len := cd_trailer_len d + length t\<rparr>"
    have "are_trailers ts (cd_trailer_len ?d)" "waiting Trailer ?d"
      using Cons.prems by (simp_all add: are_trailers_def waiting_def)
    with Cons.IH [of ?d q] 2 Cons.prems trailer_line [of t d q out] show ?thesis
      by (simp add: are_trailers_def Let_def)
  qed
qed

definition is_body :: "(u8 list \<times> u8 list) list \<Rightarrow> u8 list \<Rightarrow> u8 list list \<Rightarrow> bool" where
  "is_body cs final ts \<longleftrightarrow> (\<forall>c\<in>set cs. is_chunk c) \<and> is_line final \<and> parse_size_line final = Inr 0
     \<and> are_trailers ts 0"

lemma to_trailer:
  assumes "waiting Size d" and "cd_trailer_len d = 0"
  shows "waiting Trailer (d\<lparr>cd_state := Trailer\<rparr>)" "cd_trailer_len (d\<lparr>cd_state := Trailer\<rparr>) = 0"
    and "d\<lparr>cd_buf := bytes, cd_state := Trailer\<rparr> = extend bytes (d\<lparr>cd_state := Trailer\<rparr>)"
  using assms by (simp_all add: waiting_def extend_def)

lemma body_whole:
  "is_body cs final ts \<Longrightarrow> waiting Size d \<Longrightarrow> cd_trailer_len d = 0 \<Longrightarrow>
     \<exists>d1. chunk_loop (extend (chunked_body cs final ts) d) out = (Inr (out @ concat (map snd cs)), d1)
       \<and> cd_finished d1 \<and> cd_buf d1 = []"
proof (induction cs arbitrary: out)
  case Nil
  with trailers_whole [of ts "d\<lparr>cd_state := Trailer\<rparr>" out] size_whole [of final 0 d "trailer_bytes ts" out]
  show ?case by (simp add: chunked_body_def is_body_def to_trailer)
next
  case (Cons c cs)
  then show ?case
    using chunk_whole [of c d "chunked_body cs final ts" out] Cons.IH [of "out @ snd c"]
    by (simp add: chunked_body_def is_body_def)
qed

lemma body_part:
  "is_body cs final ts \<Longrightarrow> waiting Size d \<Longrightarrow> cd_trailer_len d = 0 \<Longrightarrow> prefix p (chunked_body cs final ts) \<Longrightarrow>
     \<exists>o1 d1. chunk_loop (extend p d) out = (Inr o1, d1)"
proof (induction cs arbitrary: out p)
  case Nil
  then have "prefix p (final @ [CR, LF] @ trailer_bytes ts)" by (simp add: chunked_body_def)
  then show ?case
  proof (cases rule: line_prefix)
    case 1
    with Nil.prems line_part show ?thesis by (fastforce simp: is_body_def)
  next
    case (2 q)
    with Nil.prems trailers_part [of ts "d\<lparr>cd_state := Trailer\<rparr>" q out] size_whole [of final 0 d q out]
    show ?thesis by (auto simp: is_body_def to_trailer)
  qed
next
  case (Cons c cs)
  then have "prefix p (chunk_bytes c @ chunked_body cs final ts)" by (simp add: chunked_body_def)
  then show ?case
  proof (cases rule: prefix_append_cases)
    case 1
    show ?thesis
    proof (cases "p = chunk_bytes c")
      case True
      with chunk_whole [of c d "[]" out] Cons.prems Cons.IH [of "[]"] show ?thesis by (simp add: is_body_def)
    qed (use 1 Cons.prems chunk_part [of c d p out] in \<open>simp add: is_body_def\<close>)
  next
    case (2 q)
    with chunk_whole [of c d q out] Cons.prems Cons.IH [of q] show ?thesis by (simp add: is_body_def)
  qed
qed

lemma chunked_new_waits: "waiting Size chunked_new" "cd_trailer_len chunked_new = 0"
  by (simp_all add: waiting_def chunked_new_def)

lemma chunk_push_new: "chunk_push bytes chunked_new = chunk_loop (extend bytes chunked_new) []"
  by (simp add: chunk_push_def extend_def chunked_new_def)

text \<open>The end is seen with its last byte and not before.\<close>

lemma body_unfinished:
  assumes "is_body cs final ts" and "strict_prefix p (chunked_body cs final ts)"
  shows "\<exists>o1 d1. chunk_push p chunked_new = (Inr o1, d1) \<and> \<not> cd_finished d1"
proof -
  obtain o1 d1 where p: "chunk_loop (extend p chunked_new) [] = (Inr o1, d1)"
    using body_part [OF assms(1) chunked_new_waits, of p "[]"] assms(2) by (auto simp: strict_prefix_def)
  obtain r where r: "chunked_body cs final ts = p @ r" "r \<noteq> []"
    using assms(2) by (auto simp: strict_prefix_def prefix_def)
  have e: "extend r (extend p chunked_new) = extend (p @ r) chunked_new" by (simp add: extend_def)
  have "\<not> cd_finished (extend p chunked_new)" by (simp add: chunked_new_def)
  from chunk_loop_extend [OF p this, of r, unfolded e] body_whole [OF assms(1) chunked_new_waits, of "[]"] r
  have "\<not> cd_finished d1" by (auto split: if_splits)
  with p show ?thesis by (simp add: chunk_push_new)
qed

lemma alike_finished: "alike d d' \<Longrightarrow> cd_finished d \<Longrightarrow> cd_finished d'"
  by (auto simp: alike_def) (metis chunked_decoder.surjective chunked_decoder.update_convs(1) chunked_decoder.select_convs(3))

lemma pushes_succeed:
  assumes "\<And>p. prefix p (a @ concat fs) \<Longrightarrow> \<exists>o1 d1. chunk_push p d = (Inr o1, d1)"
    and "chunk_push a d = (Inr o1, e')" and "alike e' e"
  shows "\<exists>o2 e2. chunk_pushes fs e = (Inr o2, e2)"
  using assms
proof (induction fs arbitrary: a o1 e e')
  case (Cons f fs)
  obtain r e1 where f: "chunk_push f e = (r, e1)" by fastforce
  from chunk_push_alike [OF Cons.prems(3) f] obtain e1' where
    f': "chunk_push f e' = (r, e1')" and al: "alike e1' e1" by blast
  obtain o2 d2 where ok: "chunk_push (a @ f) d = (Inr o2, d2)" using Cons.prems(1) [of "a @ f"] by auto
  with chunk_push_append [OF Cons.prems(2), of f] f' obtain o3 where r: "r = Inr o3" and "alike d2 e1'"
    by (cases r) auto
  then have "alike d2 e1" using al by (auto simp: alike_def)
  from Cons.IH [OF _ ok this] Cons.prems(1) have "\<exists>o2 e2. chunk_pushes fs e1 = (Inr o2, e2)" by simp
  with f r show ?case by auto
qed simp

lemma body_pushes:
  assumes "is_body cs final ts" and "concat fs = chunked_body cs final ts"
  shows "\<exists>d. chunk_pushes fs chunked_new = (Inr (concat (map snd cs)), d) \<and> cd_finished d"
proof -
  have empty: "chunk_push [] chunked_new = (Inr [], chunked_new)"
    by (simp add: chunk_push_def chunk_loop.simps chunk_step_def read_line_def chunked_new_def)
  have prefixes: "\<exists>o1 d1. chunk_push p chunked_new = (Inr o1, d1)" if "prefix p ([] @ concat fs)" for p
    using body_part [OF assms(1) chunked_new_waits] that assms(2) by (simp add: chunk_push_new)
  obtain o2 e where ok: "chunk_pushes fs chunked_new = (Inr o2, e)"
    using pushes_succeed [of "[]" fs, OF prefixes empty, of chunked_new] by (auto simp: alike_def)
  from chunk_pushes_concat [OF ok empty] obtain d where d: "chunk_push (concat fs) chunked_new = (Inr o2, d)" "alike d e"
    by (auto simp: alike_def)
  with body_whole [OF assms(1) chunked_new_waits, of "[]"] assms(2) ok alike_finished [OF d(2)] show ?thesis
    by (auto simp: chunk_push_new)
qed

section \<open>Size lines\<close>

definition hex_value :: "nat list \<Rightarrow> nat" where
  "hex_value ds = foldl (\<lambda>a d. 16 * a + d) 0 ds"

definition hex_char :: "nat \<Rightarrow> u8" where
  "hex_char d = (if d < 10 then 0x30 + of_nat d else 0x61 + of_nat (d - 10))"

lemma hex_chars:
  assumes "d < 16"
  shows "hex_nibble (hex_char d) = Some (of_nat d)" and "\<not> is_ascii_whitespace (hex_char d)" and "hex_char d \<noteq> 0x3B"
    and "hex_char d \<noteq> LF"
proof -
  have "list_all (\<lambda>d. hex_nibble (hex_char d) = Some (of_nat d) \<and> \<not> is_ascii_whitespace (hex_char d)
      \<and> hex_char d \<noteq> 0x3B \<and> hex_char d \<noteq> LF) [0..<16]"
    by code_simp
  with assms have "hex_nibble (hex_char d) = Some (of_nat d) \<and> \<not> is_ascii_whitespace (hex_char d)
      \<and> hex_char d \<noteq> 0x3B \<and> hex_char d \<noteq> LF"
    by (simp add: list_all_iff)
  then show "hex_nibble (hex_char d) = Some (of_nat d)" and "\<not> is_ascii_whitespace (hex_char d)"
    and "hex_char d \<noteq> 0x3B" and "hex_char d \<noteq> LF" by simp_all
qed

lemma or_nibble:
  assumes "d < 16"
  shows "push_bit 4 (a :: u64) OR of_nat d = 16 * a + of_nat d"
proof -
  have "take_bit 4 (of_nat d :: u64) = of_nat d"
    using assms by (simp add: take_bit_eq_iff_fits fits_u_def unat_of_nat)
  then have low: "bit (of_nat d :: u64) n \<Longrightarrow> n < 4" for n by (metis bit_take_bit_iff)
  have "push_bit 4 a + of_nat d = push_bit 4 a OR (of_nat d :: u64)"
    by (rule disjunctive_add) (use low in \<open>fastforce simp: bit_push_bit_iff\<close>)
  then show ?thesis by (simp add: push_bit_eq_mult mult.commute)
qed

lemma hex_loop_value:
  "set ds \<subseteq> {..<16} \<Longrightarrow>
     hex_loop (of_nat a) (map hex_char ds) = Inr (of_nat (foldl (\<lambda>a d. 16 * a + d) a ds))"
proof (induction ds arbitrary: a)
  case (Cons d ds)
  then have "push_bit 4 (of_nat a) OR of_nat d = (of_nat (16 * a + d) :: u64)" by (simp add: or_nibble)
  with Cons show ?case by (simp add: hex_chars(1) del: of_nat_add of_nat_mult)
qed simp

lemma foldl_hex_bound:
  "set ds \<subseteq> {..<16} \<Longrightarrow> foldl (\<lambda>a d. 16 * a + d) a ds < (a + 1) * (16 ^ length ds :: nat)"
proof (induction ds arbitrary: a)
  case (Cons d ds)
  then have "foldl (\<lambda>a d. 16 * a + d) (16 * a + d) ds < (16 * a + d + 1) * 16 ^ length ds" by simp
  also have "\<dots> \<le> (16 * (a + 1)) * 16 ^ length ds" using Cons.prems by (intro mult_right_mono) auto
  finally show ?case by (simp add: algebra_simps)
qed simp

lemma parse_size_digits:
  assumes "set ds \<subseteq> {..<16}" and "ds \<noteq> []" and "length ds \<le> 8"
  shows "parse_size_line (map hex_char ds) = (if hex_value ds \<le> MAX_CHUNK_SIZE then Inr (hex_value ds)
     else Inl (Parse ''chunk size exceeds limit''))"
proof -
  have "(16::nat) ^ length ds \<le> 16 ^ 8" using assms(3) by (intro power_increasing) auto
  then have "hex_value ds < 2 ^ 64" using foldl_hex_bound [OF assms(1), of 0] by (simp add: hex_value_def)
  then have v: "unat (of_nat (hex_value ds) :: u64) = hex_value ds" by (simp add: unat_of_nat)
  have tw: "takeWhile (\<lambda>b. b \<noteq> 0x3B) (map hex_char ds) = map hex_char ds"
    using assms(1) hex_chars(3) by (auto simp: takeWhile_eq_all_conv)
  have "dropWhile is_ascii_whitespace (map hex_char es) = map hex_char es" if "set es \<subseteq> {..<16}" for es
    using that hex_chars(2) by (cases es) auto
  from this [of ds] this [of "rev ds"] have "trim_ascii (map hex_char ds) = map hex_char ds"
    using assms(1) by (simp add: trim_ascii_def rev_map)
  moreover have "hex_loop 0 (map hex_char ds) = Inr (of_nat (hex_value ds))"
    using hex_loop_value [OF assms(1), of 0] by (simp add: hex_value_def)
  ultimately show ?thesis using assms
    by (simp add: parse_size_line_def tw v Let_def MAX_HEX_DIGITS_def CHUNK_MAX_LINE_def not_le)
qed

text \<open>The definitions a concrete run unfolds.\<close>

lemmas chunk_eval =
  chunk_push_def chunk_loop.simps chunk_step_def read_line_def chomp_def chunked_new_def LF_def CR_def
  parse_size_line_def trim_ascii_def is_ascii_whitespace_def hex_nibble_def CHUNK_MAX_LINE_def
  MAX_CHUNK_SIZE_def MAX_HEX_DIGITS_def poison_def poison_from_def error_text_def Let_def

section \<open>Errors and bounds\<close>

lemma chunk_error_sticks:
  assumes "chunk_push bytes d = (Inl e, d1)"
  shows "chunk_push later d1 = (Inl e, d1)"
  using assms chunk_loop_poison [of "d\<lparr>cd_buf := cd_buf d @ bytes\<rparr>" "[]"]
  by (auto simp: chunk_push_def split: option.splits if_splits)

lemma chunk_loop_retains:
  "chunk_loop d out = (Inr o1, d1) \<Longrightarrow> cd_finished d1 \<or> length (cd_buf d1) \<le> CHUNK_MAX_LINE"
proof (induction d out rule: chunk_loop.induct)
  case (1 d out)
  show ?case
  proof (cases "chunk_step d out")
    case (Continue p)
    obtain d' o' where p: "p = (d', o')" by (cases p)
    from "1.IH" [OF Continue p [symmetric]] 1(2) Continue show ?thesis
      by (simp add: chunk_loop.simps [of d] p)
  next
    case (Return r)
    moreover obtain q d2 where rl: "read_line d = (q, d2)" by fastforce
    moreover have "length (cd_buf d2) \<le> CHUNK_MAX_LINE" if "q = Inr None"
      using rl that by (auto simp: read_line_def poison_def split: option.splits if_splits)
    ultimately show ?thesis using 1(2)
      by (auto simp: chunk_loop.simps [of d] chunk_step_def poison_def poison_from_def Let_def CHUNK_MAX_LINE_def
          split: chunk_state.splits sum.splits option.splits if_splits)
  qed
qed

text \<open>
  A size line of exactly 8 KiB is accepted when its CR and LF arrive together and refused when a
  fragment ends between them: the waiting CR counts towards the limit.
\<close>

definition edge_line :: "u8 list" where
  "edge_line = 0x31 # 0x3B # replicate (CHUNK_MAX_LINE - 2) 0x78"

lemma edge_line_parses: "parse_size_line edge_line = Inr 1"
  by (simp add: parse_size_line_def edge_line_def trim_ascii_def is_ascii_whitespace_def Let_def
      MAX_HEX_DIGITS_def CHUNK_MAX_LINE_def hex_nibble_def MAX_CHUNK_SIZE_def)

lemma edge_line_split:
  "\<exists>d. chunk_push (edge_line @ [CR, LF, 0x41]) chunked_new = (Inr [0x41], d)"
  "\<exists>d. chunk_pushes [edge_line @ [CR], [LF, 0x41]] chunked_new = (Inl (Parse ''chunk line too long''), d)"
proof -
  have len: "length edge_line = CHUNK_MAX_LINE" by (simp add: edge_line_def CHUNK_MAX_LINE_def)
  have lf: "LF \<notin> set edge_line" by (simp add: edge_line_def LF_def)
  let ?d = "extend (edge_line @ [CR, LF, 0x41]) chunked_new"
  have "iter_position (\<lambda>b. b = LF) (cd_buf ?d) = Some (length (edge_line @ [CR]))"
    using lf position_after [of "edge_line @ [CR]" "\<lambda>b. b = LF" LF "[0x41]"] by (auto simp: chunked_new_def)
  then have "read_line ?d = (Inr (Some edge_line), chunked_new\<lparr>cd_buf := [0x41]\<rparr>)"
    by (simp add: read_line_def chomp_def butlast_append chunked_new_def)
  then show "\<exists>d. chunk_push (edge_line @ [CR, LF, 0x41]) chunked_new = (Inr [0x41], d)"
    unfolding chunk_push_new
    by (subst chunk_loop.simps) (simp add: chunk_step_def edge_line_parses chunked_new_def
        chunk_loop.simps Let_def)
  have "read_line (extend (edge_line @ [CR]) chunked_new) =
      (Inl (Parse ''chunk line too long''), (extend (edge_line @ [CR]) chunked_new)\<lparr>cd_poison := Some ''chunk line too long''\<rparr>)"
    using lf len by (simp add: read_line_def no_position poison_def chunked_new_def)
  then show "\<exists>d. chunk_pushes [edge_line @ [CR], [LF, 0x41]] chunked_new = (Inl (Parse ''chunk line too long''), d)"
    using chunked_new_waits(1)
    by (simp add: chunk_push_new chunk_loop.simps [of "extend (edge_line @ [CR]) chunked_new"] chunk_step_def waiting_def)
qed

end
