(* ===== verification/Ntrip_Request.thy ===== *)
theory Ntrip_Request
  imports Rust_Float Ntrip_Chunk
begin

text \<open>
  The request builder of \<^verbatim>\<open>ntrip/request.rs\<close>: configuration, validation, headers, Base64 and the
  request bytes. The optional pacing interval is the bit pattern of its \<^verbatim>\<open>f64\<close>.
\<close>

section \<open>The model\<close>

datatype ntrip_version = Rev1 | Rev2

record ntrip_credentials =
  username :: rust_string
  password :: rust_string

record ntrip_config =
  nc_host :: rust_string
  nc_port :: u16
  nc_mountpoint :: rust_string
  nc_version :: ntrip_version
  nc_credentials :: "ntrip_credentials option"
  nc_user_agent_product :: rust_string
  nc_gga_interval_s :: "f64 option"

definition config_default :: ntrip_config where
  "config_default = \<lparr>nc_host = [], nc_port = 2101, nc_mountpoint = [], nc_version = Rev2,
     nc_credentials = None, nc_user_agent_product = lit ''sidereon/3.0.6'', nc_gga_interval_s = None\<rparr>"

definition is_ascii_control :: "u8 \<Rightarrow> bool" where
  "is_ascii_control b \<longleftrightarrow> b < 0x20 \<or> b = 0x7F"

text \<open>\<^verbatim>\<open><= 0.0\<close> on the bit pattern: a number with the sign bit or a positive zero.\<close>

definition f64_le_zero :: "f64 \<Rightarrow> bool" where
  "f64_le_zero x \<longleftrightarrow> \<not> f64_is_nan x \<and> (bit x 63 \<or> x = 0)"

definition validate_config :: "ntrip_config \<Rightarrow> rust_error + unit" where
  "validate_config config =
     (if list_ex (\<lambda>b. b = CR \<or> b = LF) (str_bytes (nc_host config))
      then Inl (InvalidInput ''NTRIP host must not contain CR or LF'')
      else if list_ex (\<lambda>b. is_ascii_control b \<or> is_ascii_whitespace b \<or> b = 0x2F \<or> b = 0x3F)
                (str_bytes (nc_mountpoint config))
      then Inl (InvalidInput ''NTRIP mountpoint contains a forbidden byte'')
      else
        (let product = nc_user_agent_product config;
             slash_count = length (filter (\<lambda>b. b = 0x2F) (str_bytes product))
         in if product = [] \<or> slash_count \<noteq> 1
               \<or> list_ex (\<lambda>b. is_ascii_control b \<or> is_ascii_whitespace b) (str_bytes product)
            then Inl (InvalidInput ''user_agent_product must be name/version with no whitespace'')
            else
              ebind (case nc_credentials config of
                  None \<Rightarrow> Inr ()
                | Some credentials \<Rightarrow>
                    if 0x3A \<in> set (username credentials)
                    then Inl (InvalidInput (''NTRIP username must not contain '' @ [CHR 0x27] @ '':'' @ [CHR 0x27]))
                    else if list_ex (\<lambda>b. b = CR \<or> b = LF)
                              (str_bytes (username credentials) @ str_bytes (password credentials))
                    then Inl (InvalidInput ''NTRIP credentials must not contain CR or LF'')
                    else Inr ())
                (\<lambda>_. case nc_gga_interval_s config of
                   None \<Rightarrow> Inr ()
                 | Some interval \<Rightarrow>
                     if \<not> f64_is_finite interval \<or> f64_le_zero interval
                     then Inl (InvalidInput ''gga_interval_s must be finite and positive'')
                     else Inr ())))"

definition BASE64_ALPHABET :: rust_string where
  "BASE64_ALPHABET = lit ''ABCDEFGHIJKLMNOPQRSTUVWXYZabcdefghijklmnopqrstuvwxyz0123456789+/''"

definition base64_char :: "u32 \<Rightarrow> u32" where
  "base64_char n = BASE64_ALPHABET ! unat (n AND 0x3F)"

text \<open>One turn of the loop over \<^verbatim>\<open>chunks(3)\<close>.\<close>

definition base64_group :: "u8 list \<Rightarrow> rust_string" where
  "base64_group chunk =
     (let b0 = chunk ! 0;
          b1 = (if 1 < length chunk then chunk ! 1 else 0);
          b2 = (if 2 < length chunk then chunk ! 2 else 0);
          n = push_bit 16 (ucast b0) OR push_bit 8 (ucast b1) OR (ucast b2 :: u32)
      in [base64_char (drop_bit 18 n), base64_char (drop_bit 12 n),
          (if length chunk > 1 then base64_char (drop_bit 6 n) else 0x3D),
          (if length chunk > 2 then base64_char n else 0x3D)])"

function base64 :: "u8 list \<Rightarrow> rust_string" where
  "base64 bytes = (if bytes = [] then [] else base64_group (take 3 bytes) @ base64 (drop 3 bytes))"
  by pat_completeness auto
termination
  by (relation "measure length") auto

declare base64.simps [simp del]

definition common_headers :: "ntrip_config \<Rightarrow> rust_error + (rust_string \<times> rust_string) list" where
  "common_headers config =
     ebind (validate_config config) (\<lambda>_.
       Inr ((if nc_version config = Rev2
             then [(lit ''Host'', nc_host config @ lit '':'' @ lit (dec_u (nc_port config))),
                   (lit ''Ntrip-Version'', lit ''Ntrip/2.0'')]
             else [])
          @ [(lit ''User-Agent'', lit ''NTRIP '' @ nc_user_agent_product config)]
          @ (case nc_credentials config of
               None \<Rightarrow> []
             | Some credentials \<Rightarrow>
                 [(lit ''Authorization'',
                   lit ''Basic '' @ base64 (str_bytes (username credentials @ lit '':'' @ password credentials)))])
          @ (if nc_version config = Rev2 then [(lit ''Connection'', lit ''close'')] else [])))"

definition validated_path :: "ntrip_config \<Rightarrow> rust_error + rust_string" where
  "validated_path config =
     ebind (validate_config config) (\<lambda>_.
       Inr (if nc_mountpoint config = [] then lit ''/'' else lit ''/'' @ nc_mountpoint config))"

definition write_line :: "rust_string \<Rightarrow> u8 list" where
  "write_line line = str_bytes line @ [CR, LF]"

definition request_bytes :: "ntrip_config \<Rightarrow> rust_error + u8 list" where
  "request_bytes config =
     ebind (validated_path config) (\<lambda>path.
     ebind (common_headers config) (\<lambda>headers.
       Inr (write_line (lit ''GET '' @ path
              @ (case nc_version config of Rev1 \<Rightarrow> lit '' HTTP/1.0'' | Rev2 \<Rightarrow> lit '' HTTP/1.1''))
          @ concat (map (\<lambda>(name, value). write_line (name @ lit '': '' @ value)) headers)
          @ [CR, LF])))"

definition request_headers :: "ntrip_config \<Rightarrow> rust_error + rust_string \<times> (rust_string \<times> rust_string) list" where
  "request_headers config =
     (if nc_version config \<noteq> Rev2
      then Inl (InvalidInput ''request_headers is only defined for NTRIP rev2'')
      else ebind (validated_path config) (\<lambda>path.
           ebind (common_headers config) (\<lambda>headers. Inr (path, headers))))"

section \<open>Base64\<close>

text \<open>The inverse on groups of four characters, as RFC 4648 reads them.\<close>

definition base64_index :: "u32 \<Rightarrow> u32" where
  "base64_index c = (case iter_position (\<lambda>d. d = c) BASE64_ALPHABET of None \<Rightarrow> 0 | Some i \<Rightarrow> of_nat i)"

definition group_word :: "rust_string \<Rightarrow> u32" where
  "group_word g =
     push_bit 18 (base64_index (g ! 0)) OR push_bit 12 (base64_index (g ! 1))
       OR push_bit 6 (base64_index (g ! 2)) OR base64_index (g ! 3)"

definition group_bytes :: "rust_string \<Rightarrow> u8 list" where
  "group_bytes g =
     take (if g ! 2 = 0x3D then 1 else if g ! 3 = 0x3D then 2 else 3)
       [ucast (drop_bit 16 (group_word g)), ucast (drop_bit 8 (group_word g)), ucast (group_word g)]"

function from_base64 :: "rust_string \<Rightarrow> u8 list" where
  "from_base64 s = (if s = [] then [] else group_bytes (take 4 s) @ from_base64 (drop 4 s))"
  by pat_completeness auto
termination
  by (relation "measure length") auto

declare from_base64.simps [simp del]

definition alphabet_codes :: "nat list" where
  "alphabet_codes = [0x41..<0x5B] @ [0x61..<0x7B] @ [0x30..<0x3A] @ [0x2B, 0x2F]"

lemma alphabet_of_codes: "BASE64_ALPHABET = map of_nat alphabet_codes"
  by (simp add: BASE64_ALPHABET_def lit_def alphabet_codes_def upt_rec)

lemma alphabet_codes_facts:
  "length alphabet_codes = 64" "distinct alphabet_codes"
  "\<forall>c\<in>set alphabet_codes. 0x20 < c \<and> c < 0x80 \<and> c \<noteq> 0x3D"
  by (auto simp: alphabet_codes_def)

lemma iter_position_nth:
  "distinct xs \<Longrightarrow> k < length xs \<Longrightarrow> iter_position (\<lambda>d. d = xs ! k) xs = Some k"
proof (induction xs arbitrary: k)
  case (Cons x xs)
  then show ?case by (cases k) auto
qed simp

lemma alphabet_index:
  assumes "k < 64"
  shows "iter_position (\<lambda>d. d = BASE64_ALPHABET ! k) BASE64_ALPHABET = Some k"
    and "BASE64_ALPHABET ! k \<noteq> 0x3D" and "BASE64_ALPHABET ! k < 0x80" and "0x20 < BASE64_ALPHABET ! k"
proof -
  have small: "unat (of_nat c :: u32) = c" if "c \<in> set alphabet_codes" for c
    using alphabet_codes_facts(3) that by (auto simp: unat_of_nat)
  then have "inj_on (of_nat :: nat \<Rightarrow> u32) (set alphabet_codes)" by (metis inj_on_inverseI)
  then have d: "distinct BASE64_ALPHABET"
    by (simp add: alphabet_of_codes distinct_map alphabet_codes_facts)
  from assms show "iter_position (\<lambda>d. d = BASE64_ALPHABET ! k) BASE64_ALPHABET = Some k"
    by (intro iter_position_nth [OF d]) (simp add: alphabet_of_codes alphabet_codes_facts)
  have c: "alphabet_codes ! k \<in> set alphabet_codes" using assms by (simp add: alphabet_codes_facts)
  with assms small [OF c] alphabet_codes_facts(3) show "BASE64_ALPHABET ! k \<noteq> 0x3D"
    and "BASE64_ALPHABET ! k < 0x80" and "0x20 < BASE64_ALPHABET ! k"
    by (auto simp: alphabet_of_codes alphabet_codes_facts(1) word_less_nat_alt word_unat_eq_iff)
qed

lemma and_63: "n AND 0x3F = take_bit 6 (n :: u32)"
  using take_bit_eq_mask [of 6 n] by (simp add: mask_eq_exp_minus_1)

lemma low_six: "unat (take_bit 6 n :: u32) < 64"
  using take_bit_nat_less_exp [of 6 "unat n"] by (simp only: unsigned_take_bit_eq) simp

lemma base64_char_facts:
  "base64_index (base64_char n) = take_bit 6 n" "base64_char n \<noteq> 0x3D"
  "base64_char n < 0x80" "0x20 < base64_char n"
  using alphabet_index [OF low_six [of n]] by (simp_all add: base64_index_def base64_char_def and_63)

text \<open>Three bytes spread over four six-bit groups and back.\<close>

lemma sextets:
  "push_bit 18 (take_bit 6 (drop_bit 18 n)) OR push_bit 12 (take_bit 6 (drop_bit 12 n))
     OR push_bit 6 (take_bit 6 (drop_bit 6 n)) OR take_bit 6 n = take_bit 24 (n :: u32)"
proof (rule bit_word_eqI)
  fix k
  assume "k < LENGTH(32)"
  consider "k < 6" | "6 \<le> k" "k < 12" | "12 \<le> k" "k < 18" | "18 \<le> k" "k < 24" | "24 \<le> k" by linarith
  then show "bit (push_bit 18 (take_bit 6 (drop_bit 18 n)) OR push_bit 12 (take_bit 6 (drop_bit 12 n))
     OR push_bit 6 (take_bit 6 (drop_bit 6 n)) OR take_bit 6 n) k = bit (take_bit 24 n) k"
    using \<open>k < LENGTH(32)\<close> by cases (auto simp: bit_simps)
qed

lemma group_back:
  assumes "0 < length c" and "length c \<le> 3"
  shows "group_bytes (base64_group c) = c"
proof -
  define b1 where "b1 = (if 1 < length c then c ! 1 else 0)"
  define b2 where "b2 = (if 2 < length c then c ! 2 else 0)"
  define n :: u32 where "n = push_bit 16 (ucast (c ! 0)) OR push_bit 8 (ucast b1) OR ucast b2"
  have g: "base64_group c = [base64_char (drop_bit 18 n), base64_char (drop_bit 12 n),
      (if length c > 1 then base64_char (drop_bit 6 n) else 0x3D), (if length c > 2 then base64_char n else 0x3D)]"
    by (simp add: base64_group_def n_def b1_def b2_def Let_def)
  have pad: "base64_index 0x3D = 0"
    by (simp add: base64_index_def alphabet_of_codes alphabet_codes_def upt_rec)
  have beyond: "\<not> bit (b :: u8) (8 + k)" "\<not> bit b (16 + k)" for b k
    by (auto dest: bit_imp_le_length)
  have bytes: "(ucast (drop_bit 16 n) :: u8) = c ! 0" "(ucast (drop_bit 8 n) :: u8) = b1" "(ucast n :: u8) = b2"
    by (rule bit_word_eqI; auto simp: n_def bit_simps beyond dest: bit_imp_le_length)+
  have whole: "take_bit 24 n = n"
    by (rule bit_word_eqI) (auto simp: n_def bit_simps dest: bit_imp_le_length)
  have six: "take_bit 6 n = 0" if "length c < 3"
    using that by (intro bit_word_eqI) (auto simp: n_def b2_def bit_simps)
  have twelve: "take_bit 6 (drop_bit 6 n) = 0" if "length c < 2"
    using that by (intro bit_word_eqI) (auto simp: n_def b2_def b1_def bit_simps)
  have word: "group_word (base64_group c) = n"
    using sextets [of n] six twelve
    by (cases "length c < 2"; cases "length c < 3") (simp_all add: group_word_def g whole base64_char_facts pad)
  have marks: "base64_group c ! 2 = 0x3D \<longleftrightarrow> length c \<le> 1" "base64_group c ! 3 = 0x3D \<longleftrightarrow> length c \<le> 2"
    by (auto simp: g base64_char_facts)
  have "group_bytes (base64_group c) = take (if length c \<le> 1 then 1 else if length c \<le> 2 then 2 else 3) [c ! 0, b1, b2]"
    by (simp add: group_bytes_def word marks bytes)
  also have "\<dots> = c"
    using assms by (cases c; cases "tl c"; cases "tl (tl c)") (auto simp: b1_def b2_def)
  finally show ?thesis .
qed

lemma length_group [simp]: "length (base64_group c) = 4"
  by (simp add: base64_group_def Let_def)

lemma base64_back: "from_base64 (base64 bytes) = bytes"
proof (induction bytes rule: base64.induct)
  case (1 bytes)
  show ?case
  proof (cases "bytes = []")
    case True
    then show ?thesis by (simp add: base64.simps from_base64.simps)
  next
    case False
    then have "from_base64 (base64 bytes) = group_bytes (base64_group (take 3 bytes)) @ from_base64 (base64 (drop 3 bytes))"
      by (subst base64.simps, subst from_base64.simps) (auto simp: base64_group_def Let_def)
    with 1 [OF False] False show ?thesis by (simp add: group_back)
  qed
qed

lemma base64_length: "length (base64 bytes) = 4 * ((length bytes + 2) div 3)"
proof (induction bytes rule: base64.induct)
  case (1 bytes)
  show ?case
  proof (cases "bytes = []")
    case False
    then have "length (base64 bytes) = 4 * (1 + (length bytes - 3 + 2) div 3)"
      using 1 by (subst base64.simps) simp
    also have "1 + (length bytes - 3 + 2) div 3 = (length bytes + 2) div 3"
      using length_greater_0_conv [THEN iffD2, OF False] by presburger
    finally show ?thesis .
  qed (simp add: base64.simps)
qed

lemma base64_printable: "c \<in> set (base64 bytes) \<Longrightarrow> 0x20 < c \<and> c < 0x80"
proof (induction bytes rule: base64.induct)
  case (1 bytes)
  have "\<forall>c\<in>set (base64_group g). 0x20 < c \<and> c < 0x80" for g
    by (auto simp: base64_group_def Let_def base64_char_facts)
  with 1 show ?case by (subst (asm) base64.simps) (auto split: if_splits)
qed

section \<open>The lines of a request\<close>

definition clean :: "u8 list \<Rightarrow> bool" where
  "clean bytes \<longleftrightarrow> CR \<notin> set bytes \<and> LF \<notin> set bytes"

lemma clean_append [simp]: "clean (a @ b) \<longleftrightarrow> clean a \<and> clean b"
  by (auto simp: clean_def)

lemma str_bytes_append [simp]: "str_bytes (a @ b) = str_bytes a @ str_bytes b"
  by (simp add: str_bytes_def)

lemma str_bytes_ascii: "\<forall>c\<in>set s. c < 0x80 \<Longrightarrow> str_bytes s = map ucast s"
  by (induction s) (auto simp: str_bytes_def char_utf8_def)

lemma unat_ascii: "c < 0x80 \<Longrightarrow> unat (ucast (c :: u32) :: u8) = unat c"
  by (simp add: unsigned_ucast_eq take_bit_nat_eq_self word_less_nat_alt)

lemma clean_printable: "\<forall>c\<in>set s. 0x20 < c \<and> c < (0x80 :: u32) \<Longrightarrow> clean (str_bytes s)"
  by (fastforce simp: clean_def str_bytes_ascii CR_def LF_def word_less_nat_alt word_unat_eq_iff unat_ascii)

lemma clean_product:
  "\<not> list_ex (\<lambda>b. is_ascii_control b \<or> q b) bytes \<Longrightarrow> clean bytes"
  by (auto simp: clean_def list_ex_iff is_ascii_control_def CR_def LF_def word_less_nat_alt)

lemma dec_digits: "c \<in> set (dec n) \<Longrightarrow> 48 \<le> (of_char c :: nat) \<and> (of_char c :: nat) < 58"
proof (induction n rule: dec.induct)
  case (1 n)
  then show ?case by (subst (asm) dec.simps) (auto split: if_splits)
qed

lemma validated:
  assumes "validate_config config = Inr u"
  shows "clean (str_bytes (nc_host config))" and "clean (str_bytes (nc_mountpoint config))"
    and "clean (str_bytes (nc_user_agent_product config))"
    and "\<forall>b\<in>set (str_bytes (nc_mountpoint config)). b \<noteq> 0x20"
  using assms
  by (auto simp: validate_config_def Let_def list_ex_iff clean_def is_ascii_control_def is_ascii_whitespace_def CR_def
      LF_def split: if_splits)

definition printable :: "string \<Rightarrow> bool" where
  "printable s \<longleftrightarrow> list_all (\<lambda>c. 0x20 \<le> (of_char c :: nat) \<and> (of_char c :: nat) < 0x80) s"

lemma clean_lit [simp]: "printable s \<Longrightarrow> clean (str_bytes (lit s))"
proof -
  assume p: "printable s"
  have u: "unat (of_char c :: u32) = of_char c" for c
    by (simp add: of_char_def unat_of_nat of_char_mod_256 flip: of_nat_of_char)
  with p have "\<forall>c\<in>set (lit s). 0x1F < c \<and> c < 0x80"
    by (auto simp: lit_def printable_def list_all_iff word_less_nat_alt)
  then show ?thesis
    by (fastforce simp: clean_def str_bytes_ascii CR_def LF_def word_less_nat_alt word_unat_eq_iff unat_ascii)
qed

lemma printable_dec [simp]: "printable (dec_u v)"
  using dec_digits [of _ "unat v"] by (fastforce simp: printable_def dec_u_def list_all_iff)

lemma headers_clean:
  assumes "common_headers config = Inr headers"
  shows "\<forall>(name, value)\<in>set headers. clean (str_bytes (name @ lit '': '' @ value))"
proof -
  have v: "validate_config config = Inr ()" using assms by (auto simp: common_headers_def)
  have b: "clean (str_bytes (base64 bytes))" for bytes
    using base64_printable by (intro clean_printable) auto
  from assms show ?thesis
    by (auto simp: common_headers_def validated [OF v] b clean_lit [OF printable_dec] printable_def split: option.splits if_splits)
qed

lemma request_lines:
  assumes "request_bytes config = Inr bytes"
  shows "\<exists>headers. common_headers config = Inr headers
     \<and> bytes = concat (map (\<lambda>line. line @ [CR, LF])
        (str_bytes (lit ''GET /'' @ nc_mountpoint config @ lit (if nc_version config = Rev1 then '' HTTP/1.0'' else '' HTTP/1.1''))
          # map (\<lambda>(name, value). str_bytes (name @ lit '': '' @ value)) headers)) @ [CR, LF]
     \<and> clean (str_bytes (lit ''GET /'' @ nc_mountpoint config @ lit (if nc_version config = Rev1 then '' HTTP/1.0'' else '' HTTP/1.1'')))
     \<and> (\<forall>(name, value)\<in>set headers. clean (str_bytes (name @ lit '': '' @ value)))"
proof -
  obtain path headers where p: "validated_path config = Inr path" and h: "common_headers config = Inr headers"
    and bytes: "bytes = write_line (lit ''GET '' @ path @ (case nc_version config of Rev1 \<Rightarrow> lit '' HTTP/1.0'' | Rev2 \<Rightarrow> lit '' HTTP/1.1''))
          @ concat (map (\<lambda>(name, value). write_line (name @ lit '': '' @ value)) headers) @ [CR, LF]"
    using assms by (auto simp: request_bytes_def)
  have v: "validate_config config = Inr ()" using p by (auto simp: validated_path_def)
  then have path: "path = lit ''/'' @ nc_mountpoint config" using p by (auto simp: validated_path_def)
  have "str_bytes (lit ''GET /'') = str_bytes (lit ''GET '') @ str_bytes (lit ''/'')" by (simp add: lit_def flip: str_bytes_append)
  then have "str_bytes (lit ''GET '') @ str_bytes path @ rest
      = str_bytes (lit ''GET /'') @ str_bytes (nc_mountpoint config) @ rest" for rest
    by (simp add: path)
  then show ?thesis
    using headers_clean [OF h] h validated(2) [OF v]
    by (cases "nc_version config")
      (auto simp: bytes write_line_def printable_def case_prod_unfold comp_def)
qed

end
