(* ===== verification/Ntrip_Response.thy ===== *)
theory Ntrip_Response
  imports Rust_Text
begin

text \<open>
  The response classification of \<^verbatim>\<open>ntrip/response.rs\<close>: rejections, header lookup, the chunked
  transfer coding, the challenge schemes and the media type.
\<close>

section \<open>The model\<close>

datatype ntrip_rejection =
    Unauthorized
  | MountpointNotFound
  | DigestRequired
  | CasterError rust_string
  | UnexpectedContentType rust_string
  | HttpError u16 rust_string
  | MalformedHandshake "u8 list"

datatype http_classification =
    ClStream bool
  | ClSourcetable bool
  | ClRejection ntrip_rejection

type_synonym headers = "(rust_string \<times> rust_string) list"

definition header_values :: "headers \<Rightarrow> rust_string \<Rightarrow> rust_string list" where
  "header_values headers name = map snd (filter (\<lambda>(n, _). eq_ignore_ascii_case n name) headers)"

definition header_value :: "headers \<Rightarrow> rust_string \<Rightarrow> rust_string option" where
  "header_value headers name = (case header_values headers name of [] \<Rightarrow> None | v # _ \<Rightarrow> Some v)"

definition media_type :: "rust_string \<Rightarrow> rust_string" where
  "media_type value =
     to_ascii_lowercase (trim (case str_split (\<lambda>c. c = 0x3B) value of [] \<Rightarrow> [] | piece # _ \<Rightarrow> piece))"

definition transfer_is_chunked :: "headers \<Rightarrow> bool" where
  "transfer_is_chunked headers =
     list_ex (\<lambda>value.
         list_ex (\<lambda>token. eq_ignore_ascii_case (trim token) (lit ''chunked''))
           (str_split (\<lambda>c. c = 0x2C) value))
       (header_values headers (lit ''Transfer-Encoding''))"

text \<open>
  The loops of \<open>digest_required\<close> over all challenges of all values: the flag of a scheme seen, or
  \<open>None\<close> after the early return of a scheme that is not Digest.
\<close>

definition digest_step :: "rust_string \<Rightarrow> bool \<Rightarrow> bool option" where
  "digest_step challenge saw =
     (case first_word (trim_start challenge) of
        None \<Rightarrow> Some saw
      | Some scheme \<Rightarrow>
          if 0x3D \<in> set scheme then Some saw
          else if \<not> eq_ignore_ascii_case scheme (lit ''digest'') then None
          else Some True)"

fun digest_loop :: "rust_string list \<Rightarrow> bool \<Rightarrow> bool option" where
  "digest_loop [] saw = Some saw"
| "digest_loop (challenge # challenges) saw =
     (case digest_step challenge saw of None \<Rightarrow> None | Some saw' \<Rightarrow> digest_loop challenges saw')"

definition digest_required :: "headers \<Rightarrow> bool" where
  "digest_required headers =
     (case digest_loop (concat (map (str_split (\<lambda>c. c = 0x2C)) (header_values headers (lit ''WWW-Authenticate'')))) False of
        None \<Rightarrow> False
      | Some saw \<Rightarrow> saw)"

definition classify_http_response :: "u16 \<Rightarrow> rust_string \<Rightarrow> headers \<Rightarrow> http_classification" where
  "classify_http_response status reason headers =
     (if status = 401 then
        (if digest_required headers then ClRejection DigestRequired else ClRejection Unauthorized)
      else if status = 404 then ClRejection MountpointNotFound
      else if status \<noteq> 200 then ClRejection (HttpError status reason)
      else
        (case map_option media_type (header_value headers (lit ''Content-Type'')) of
           None \<Rightarrow> ClStream (transfer_is_chunked headers)
         | Some ty \<Rightarrow>
             if ty = lit ''gnss/data'' then ClStream (transfer_is_chunked headers)
             else if ty = lit ''gnss/sourcetable'' then ClSourcetable (transfer_is_chunked headers)
             else ClRejection (UnexpectedContentType ty)))"

section \<open>The challenge rule\<close>

text \<open>The schemes a 401 offers: the first words of the comma-separated items that are not parameters.\<close>

definition offered_schemes :: "headers \<Rightarrow> rust_string list" where
  "offered_schemes headers =
     filter (\<lambda>w. 0x3D \<notin> set w)
       (List.map_filter (\<lambda>c. first_word (trim_start c))
         (concat (map (str_split (\<lambda>c. c = 0x2C)) (header_values headers (lit ''WWW-Authenticate'')))))"

lemma digest_loop_schemes:
  "digest_loop cs saw =
     (let schemes = filter (\<lambda>w. 0x3D \<notin> set w) (List.map_filter (\<lambda>c. first_word (trim_start c)) cs)
      in if list_all (\<lambda>w. eq_ignore_ascii_case w (lit ''digest'')) schemes
         then Some (saw \<or> schemes \<noteq> []) else None)"
  by (induction cs arbitrary: saw) (auto simp: digest_step_def Let_def map_filter_simps split: option.splits)

lemma digest_required_schemes:
  "digest_required headers \<longleftrightarrow> offered_schemes headers \<noteq> []
     \<and> (\<forall>w\<in>set (offered_schemes headers). eq_ignore_ascii_case w (lit ''digest''))"
  by (auto simp: digest_required_def digest_loop_schemes offered_schemes_def Let_def list_all_iff)

end
