(* ===== verification/Ntrip_Sourcetable.thy ===== *)
theory Ntrip_Sourcetable
  imports Rust_Float
begin

text \<open>
  The source tables of \<^verbatim>\<open>ntrip/sourcetable.rs\<close>: typed fields that keep what they cannot parse, the
  STR, CAS and NET records, parsing and serialisation, and what a table loses on the way through
  its text.
\<close>

section \<open>The model\<close>

datatype 'a field = Parsed 'a | Empty | Raw rust_string

definition field_value :: "'a field \<Rightarrow> 'a option" where
  "field_value f = (case f of Parsed v \<Rightarrow> Some v | Empty \<Rightarrow> None | Raw _ \<Rightarrow> None)"

datatype str_auth = AuthNone | AuthBasic | AuthDigest | AuthOther rust_string

record str_record =
  sr_mountpoint :: rust_string
  sr_identifier :: rust_string
  sr_format :: rust_string
  sr_format_details :: rust_string
  sr_carrier :: "u8 field"
  sr_nav_system :: rust_string
  sr_network :: rust_string
  sr_country :: rust_string
  sr_lat_deg :: "f64 field"
  sr_lon_deg :: "f64 field"
  sr_nmea_required :: "bool field"
  sr_network_solution :: "bool field"
  sr_generator :: rust_string
  sr_compression :: rust_string
  sr_authentication :: str_auth
  sr_fee :: "bool field"
  sr_bitrate :: "u32 field"
  sr_misc :: rust_string

record cas_record =
  ca_host :: rust_string
  ca_port :: "u16 field"
  ca_identifier :: rust_string
  ca_operator :: rust_string
  ca_nmea_required :: "bool field"
  ca_country :: rust_string
  ca_lat_deg :: "f64 field"
  ca_lon_deg :: "f64 field"
  ca_fallback_host :: rust_string
  ca_fallback_port :: "u16 field"
  ca_misc :: rust_string

record net_record =
  nt_identifier :: rust_string
  nt_operator :: rust_string
  nt_authentication :: str_auth
  nt_fee :: "bool field"
  nt_web_net :: rust_string
  nt_web_str :: rust_string
  nt_web_reg :: rust_string
  nt_misc :: rust_string

record other_record =
  ot_type_tag :: rust_string
  ot_fields :: "rust_string list"

datatype sourcetable_record =
    StrRecord str_record
  | CasRecord cas_record
  | NetRecord net_record
  | OtherRecord other_record

record sourcetable =
  st_records :: "sourcetable_record list"

subsection \<open>Fields\<close>

definition get :: "rust_string list \<Rightarrow> nat \<Rightarrow> rust_string" where
  "get parts index = (if index < length parts then parts ! index else [])"

definition join_tail :: "rust_string list \<Rightarrow> nat \<Rightarrow> rust_string" where
  "join_tail parts index =
     (if length parts \<le> index then [] else str_join (lit '';'') (drop index parts))"

definition parse_field :: "rust_string \<Rightarrow> 'a::len word field" where
  "parse_field value =
     (if value = [] then Empty
      else (case parse_uint (2 ^ LENGTH('a)) value of Some v \<Rightarrow> Parsed (of_nat v) | None \<Rightarrow> Raw value))"

definition parse_finite_f64_field :: "rust_string \<Rightarrow> f64 field" where
  "parse_finite_f64_field value =
     (if value = [] then Empty
      else (case parse_f64 value of
              Some parsed \<Rightarrow> if f64_is_finite parsed then Parsed parsed else Raw value
            | None \<Rightarrow> Raw value))"

definition parse_bool01 :: "rust_string \<Rightarrow> bool field" where
  "parse_bool01 value =
     (if value = [] then Empty
      else if value = lit ''0'' then Parsed False
      else if value = lit ''1'' then Parsed True
      else Raw value)"

definition parse_boolyn :: "rust_string \<Rightarrow> bool field" where
  "parse_boolyn value =
     (if value = [] then Empty
      else if value = lit ''N'' then Parsed False
      else if value = lit ''Y'' then Parsed True
      else Raw value)"

definition parse_auth :: "rust_string \<Rightarrow> str_auth" where
  "parse_auth value =
     (if value = lit ''N'' then AuthNone
      else if value = lit ''B'' then AuthBasic
      else if value = lit ''D'' then AuthDigest
      else AuthOther value)"

subsection \<open>Parsing\<close>

definition parse_str :: "rust_string list \<Rightarrow> str_record" where
  "parse_str parts =
     \<lparr>sr_mountpoint = get parts 1, sr_identifier = get parts 2, sr_format = get parts 3,
      sr_format_details = get parts 4, sr_carrier = parse_field (get parts 5),
      sr_nav_system = get parts 6, sr_network = get parts 7, sr_country = get parts 8,
      sr_lat_deg = parse_finite_f64_field (get parts 9),
      sr_lon_deg = parse_finite_f64_field (get parts 10),
      sr_nmea_required = parse_bool01 (get parts 11),
      sr_network_solution = parse_bool01 (get parts 12),
      sr_generator = get parts 13, sr_compression = get parts 14,
      sr_authentication = parse_auth (get parts 15), sr_fee = parse_boolyn (get parts 16),
      sr_bitrate = parse_field (get parts 17), sr_misc = join_tail parts 18\<rparr>"

definition parse_cas :: "rust_string list \<Rightarrow> cas_record" where
  "parse_cas parts =
     \<lparr>ca_host = get parts 1, ca_port = parse_field (get parts 2), ca_identifier = get parts 3,
      ca_operator = get parts 4, ca_nmea_required = parse_bool01 (get parts 5),
      ca_country = get parts 6, ca_lat_deg = parse_finite_f64_field (get parts 7),
      ca_lon_deg = parse_finite_f64_field (get parts 8), ca_fallback_host = get parts 9,
      ca_fallback_port = parse_field (get parts 10), ca_misc = join_tail parts 11\<rparr>"

definition parse_net :: "rust_string list \<Rightarrow> net_record" where
  "parse_net parts =
     \<lparr>nt_identifier = get parts 1, nt_operator = get parts 2,
      nt_authentication = parse_auth (get parts 3), nt_fee = parse_boolyn (get parts 4),
      nt_web_net = get parts 5, nt_web_str = get parts 6, nt_web_reg = get parts 7,
      nt_misc = join_tail parts 8\<rparr>"

text \<open>\<^verbatim>\<open>str::lines\<close>: the pieces between LF without a CR before it, less an empty last piece.\<close>

definition str_lines :: "rust_string \<Rightarrow> rust_string list" where
  "str_lines s =
     (let pieces = str_split (\<lambda>c. c = 0x0A) s;
          chop = (\<lambda>l. if l \<noteq> [] \<and> last l = 0x0D then butlast l else l)
      in map chop (butlast pieces) @ (if last pieces = [] then [] else [last pieces]))"

definition trim_end_cr :: "rust_string \<Rightarrow> rust_string" where
  "trim_end_cr s = rev (dropWhile (\<lambda>c. c = 0x0D) (rev s))"

definition parse_record :: "rust_string list \<Rightarrow> sourcetable_record" where
  "parse_record parts =
     (let tag = trim (parts ! 0)
      in if eq_ignore_ascii_case tag (lit ''STR'') then StrRecord (parse_str parts)
         else if eq_ignore_ascii_case tag (lit ''CAS'') then CasRecord (parse_cas parts)
         else if eq_ignore_ascii_case tag (lit ''NET'') then NetRecord (parse_net parts)
         else OtherRecord \<lparr>ot_type_tag = parts ! 0, ot_fields = drop 1 parts\<rparr>)"

fun parse_lines :: "rust_string list \<Rightarrow> sourcetable_record list" where
  "parse_lines [] = []"
| "parse_lines (raw_line # raw_lines) =
     (let line = trim_end_cr raw_line in
      if line = [] then parse_lines raw_lines
      else
        (let parts = str_split (\<lambda>c. c = 0x3B) line in
         if eq_ignore_ascii_case (trim (parts ! 0)) (lit ''ENDSOURCETABLE'') then []
         else parse_record parts # parse_lines raw_lines))"

definition parse_sourcetable :: "rust_string \<Rightarrow> rust_error + sourcetable" where
  "parse_sourcetable s = Inr \<lparr>st_records = parse_lines (str_lines s)\<rparr>"

subsection \<open>Serialisation\<close>

definition checked_text :: "rust_string \<Rightarrow> string \<Rightarrow> bool \<Rightarrow> rust_error + rust_string" where
  "checked_text value name allow_semicolon =
     (if 0x0D \<in> set value \<or> 0x0A \<in> set value
      then Inl (InvalidInput (''sourcetable '' @ name @ '' contains a line break''))
      else if \<not> allow_semicolon \<and> 0x3B \<in> set value
      then Inl (InvalidInput (''sourcetable '' @ name @ '' contains a semicolon''))
      else Inr value)"

definition ordinary_text :: "rust_string \<Rightarrow> string \<Rightarrow> rust_error + rust_string" where
  "ordinary_text value name = checked_text value name False"

definition tail_text :: "rust_string \<Rightarrow> string \<Rightarrow> rust_error + rust_string" where
  "tail_text value name = checked_text value name True"

text \<open>\<open>field_to_string\<close> for a type with the given \<^verbatim>\<open>ToString\<close>.\<close>

definition field_to_string :: "('a \<Rightarrow> string) \<Rightarrow> 'a field \<Rightarrow> string \<Rightarrow> rust_error + rust_string" where
  "field_to_string show field name =
     (case field of
        Parsed value \<Rightarrow> ordinary_text (lit (show value)) name
      | Empty \<Rightarrow> Inr []
      | Raw value \<Rightarrow> ordinary_text value name)"

definition bool01_to_string :: "bool field \<Rightarrow> string \<Rightarrow> rust_error + rust_string" where
  "bool01_to_string field name =
     (case field of
        Parsed b \<Rightarrow> Inr (if b then lit ''1'' else lit ''0'')
      | Empty \<Rightarrow> Inr []
      | Raw value \<Rightarrow> ordinary_text value name)"

definition boolyn_to_string :: "bool field \<Rightarrow> string \<Rightarrow> rust_error + rust_string" where
  "boolyn_to_string field name =
     (case field of
        Parsed b \<Rightarrow> Inr (if b then lit ''Y'' else lit ''N'')
      | Empty \<Rightarrow> Inr []
      | Raw value \<Rightarrow> ordinary_text value name)"

definition auth_to_string :: "str_auth \<Rightarrow> string \<Rightarrow> rust_error + rust_string" where
  "auth_to_string auth name =
     (case auth of
        AuthNone \<Rightarrow> Inr (lit ''N'')
      | AuthBasic \<Rightarrow> Inr (lit ''B'')
      | AuthDigest \<Rightarrow> Inr (lit ''D'')
      | AuthOther value \<Rightarrow> ordinary_text value name)"

text \<open>The first error of a list of parts, or all of them.\<close>

fun collect :: "(rust_error + rust_string) list \<Rightarrow> rust_error + rust_string list" where
  "collect [] = Inr []"
| "collect (r # rs) = ebind r (\<lambda>x. ebind (collect rs) (\<lambda>xs. Inr (x # xs)))"

definition str_fields :: "str_record \<Rightarrow> (rust_error + rust_string) list" where
  "str_fields r =
     [Inr (lit ''STR''),
      ordinary_text (sr_mountpoint r) ''STR mountpoint'',
      ordinary_text (sr_identifier r) ''STR identifier'',
      ordinary_text (sr_format r) ''STR format'',
      ordinary_text (sr_format_details r) ''STR format details'',
      field_to_string dec_u (sr_carrier r) ''STR carrier'',
      ordinary_text (sr_nav_system r) ''STR nav system'',
      ordinary_text (sr_network r) ''STR network'',
      ordinary_text (sr_country r) ''STR country'',
      field_to_string display_f64 (sr_lat_deg r) ''STR latitude'',
      field_to_string display_f64 (sr_lon_deg r) ''STR longitude'',
      bool01_to_string (sr_nmea_required r) ''STR NMEA required'',
      bool01_to_string (sr_network_solution r) ''STR network solution'',
      ordinary_text (sr_generator r) ''STR generator'',
      ordinary_text (sr_compression r) ''STR compression'',
      auth_to_string (sr_authentication r) ''STR authentication'',
      boolyn_to_string (sr_fee r) ''STR fee'',
      field_to_string dec_u (sr_bitrate r) ''STR bitrate'',
      tail_text (sr_misc r) ''STR misc'']"

definition cas_fields :: "cas_record \<Rightarrow> (rust_error + rust_string) list" where
  "cas_fields r =
     [Inr (lit ''CAS''),
      ordinary_text (ca_host r) ''CAS host'',
      field_to_string dec_u (ca_port r) ''CAS port'',
      ordinary_text (ca_identifier r) ''CAS identifier'',
      ordinary_text (ca_operator r) ''CAS operator'',
      bool01_to_string (ca_nmea_required r) ''CAS NMEA required'',
      ordinary_text (ca_country r) ''CAS country'',
      field_to_string display_f64 (ca_lat_deg r) ''CAS latitude'',
      field_to_string display_f64 (ca_lon_deg r) ''CAS longitude'',
      ordinary_text (ca_fallback_host r) ''CAS fallback host'',
      field_to_string dec_u (ca_fallback_port r) ''CAS fallback port'',
      tail_text (ca_misc r) ''CAS misc'']"

definition net_fields :: "net_record \<Rightarrow> (rust_error + rust_string) list" where
  "net_fields r =
     [Inr (lit ''NET''),
      ordinary_text (nt_identifier r) ''NET identifier'',
      ordinary_text (nt_operator r) ''NET operator'',
      auth_to_string (nt_authentication r) ''NET authentication'',
      boolyn_to_string (nt_fee r) ''NET fee'',
      ordinary_text (nt_web_net r) ''NET web net'',
      ordinary_text (nt_web_str r) ''NET web str'',
      ordinary_text (nt_web_reg r) ''NET web reg'',
      tail_text (nt_misc r) ''NET misc'']"

definition other_fields :: "other_record \<Rightarrow> (rust_error + rust_string) list" where
  "other_fields r =
     ordinary_text (ot_type_tag r) ''other type tag'' # map (\<lambda>f. ordinary_text f ''other field'') (ot_fields r)"

definition record_fields :: "sourcetable_record \<Rightarrow> (rust_error + rust_string) list" where
  "record_fields r =
     (case r of
        StrRecord s \<Rightarrow> str_fields s
      | CasRecord c \<Rightarrow> cas_fields c
      | NetRecord n \<Rightarrow> net_fields n
      | OtherRecord q \<Rightarrow> other_fields q)"

definition to_line :: "sourcetable_record \<Rightarrow> rust_error + rust_string" where
  "to_line r = ebind (collect (record_fields r)) (\<lambda>parts. Inr (str_join (lit '';'') parts))"

fun lines_text :: "sourcetable_record list \<Rightarrow> rust_error + rust_string" where
  "lines_text [] = Inr []"
| "lines_text (r # rs) =
     ebind (to_line r) (\<lambda>line. ebind (lines_text rs) (\<lambda>rest. Inr (line @ [0x0D, 0x0A] @ rest)))"

definition to_text :: "sourcetable \<Rightarrow> rust_error + rust_string" where
  "to_text table =
     ebind (lines_text (st_records table)) (\<lambda>body. Inr (body @ lit ''ENDSOURCETABLE'' @ [0x0D, 0x0A]))"

definition streams :: "sourcetable \<Rightarrow> str_record list" where
  "streams table =
     List.map_filter (\<lambda>r. case r of StrRecord s \<Rightarrow> Some s | _ \<Rightarrow> None) (st_records table)"

section \<open>Fields and lines\<close>

abbreviation semicolon :: "u32 \<Rightarrow> bool" where
  "semicolon \<equiv> (\<lambda>c. c = 0x3B)"

definition one_line :: "rust_string \<Rightarrow> bool" where
  "one_line s \<longleftrightarrow> 0x0D \<notin> set s \<and> 0x0A \<notin> set s"

lemma one_line_simps [simp]:
  "one_line []" "one_line (a @ b) \<longleftrightarrow> one_line a \<and> one_line b" "one_line (c # s) \<longleftrightarrow> c \<noteq> 0x0D \<and> c \<noteq> 0x0A \<and> one_line s"
  by (auto simp: one_line_def)

lemma ordinary_text_Inr [simp]: "ordinary_text v name = Inr u \<longleftrightarrow> u = v \<and> one_line v \<and> 0x3B \<notin> set v"
  by (auto simp: ordinary_text_def checked_text_def one_line_def)

lemma tail_text_Inr [simp]: "tail_text v name = Inr u \<longleftrightarrow> u = v \<and> one_line v"
  by (auto simp: tail_text_def checked_text_def one_line_def)

lemma collect_Inr: "collect rs = Inr xs \<longleftrightarrow> rs = map Inr xs"
  by (induction rs arbitrary: xs) (auto split: sum.splits)

lemma one_line_join: "list_all one_line ss \<Longrightarrow> one_line (str_join (lit '';'') ss)"
  by (induction "lit '';''" ss rule: str_join.induct) (auto simp: lit_def)

lemma split_join_tail:
  "\<forall>s\<in>set front. 0x3B \<notin> set s \<Longrightarrow>
     str_split semicolon (str_join (lit '';'') (front @ [rest])) = front @ str_split semicolon rest"
proof (induction front)
  case (Cons s front)
  have piece: "str_split semicolon (s @ 0x3B # t) = s # str_split semicolon t" if "0x3B \<notin> set s" for t
    using that by (induction s) auto
  obtain u us where "front @ [rest] = u # us" by (cases front) auto
  with Cons piece show ?case by (simp add: lit_def)
qed simp

lemma get_front: "i < length front \<Longrightarrow> get (front @ rest) i = front ! i"
  by (simp add: get_def nth_append)

lemma join_tail_front: "length front = n \<Longrightarrow> join_tail (front @ str_split semicolon rest) n = rest"
  using str_join_split [of "0x3B" rest] by (simp add: join_tail_def lit_def)

subsection \<open>What a field can hold and still be read back\<close>

definition stable_field :: "(rust_string \<Rightarrow> 'a field) \<Rightarrow> ('a \<Rightarrow> bool) \<Rightarrow> 'a field \<Rightarrow> bool" where
  "stable_field parse valid f =
     (case f of Parsed x \<Rightarrow> valid x | Empty \<Rightarrow> True | Raw v \<Rightarrow> parse v = Raw v)"

definition stable_auth :: "str_auth \<Rightarrow> bool" where
  "stable_auth a = (case a of AuthOther v \<Rightarrow> v \<notin> {lit ''N'', lit ''B'', lit ''D''} | _ \<Rightarrow> True)"

definition stable_uint :: "'a::len word field \<Rightarrow> bool" where
  "stable_uint = stable_field parse_field (\<lambda>_. True)"

definition stable_degrees :: "f64 field \<Rightarrow> bool" where
  "stable_degrees = stable_field parse_finite_f64_field f64_is_finite"

definition stable_bool01 :: "bool field \<Rightarrow> bool" where
  "stable_bool01 = stable_field parse_bool01 (\<lambda>_. True)"

definition stable_boolyn :: "bool field \<Rightarrow> bool" where
  "stable_boolyn = stable_field parse_boolyn (\<lambda>_. True)"

lemmas stable_defs = stable_field_def stable_auth_def stable_uint_def stable_degrees_def stable_bool01_def stable_boolyn_def

lemma uint_text:
  assumes "field_to_string dec_u f name = Inr v" and "stable_uint f"
  shows "parse_field v = f \<and> one_line v \<and> 0x3B \<notin> set v"
proof (cases f)
  case (Parsed w)
  have d: "v = lit (dec (unat w))" using assms(1) Parsed by (simp add: field_to_string_def dec_u_def)
  have "hd v \<noteq> 0x2B" "v \<noteq> []"
    using dec_value [of "unat w"] dec_bounds(3) [of "unat w"] d
    by (cases "dec (unat w)"; auto simp: lit_def is_digit_def)+
  moreover have "decimal_value v = unat w" "list_all is_digit v" "unat w < 2 ^ LENGTH('a)"
    using dec_value [of "unat w"] d unsigned_less [of w] by simp_all
  ultimately have "parse_uint (2 ^ LENGTH('a)) v = Some (unat w)"
    by (cases v) (auto simp: parse_uint_def)
  with \<open>v \<noteq> []\<close> assms Parsed show ?thesis by (simp add: parse_field_def field_to_string_def)
qed (use assms in \<open>auto simp: field_to_string_def parse_field_def stable_defs\<close>)

lemma degrees_text:
  assumes "field_to_string display_f64 f name = Inr v" and "stable_degrees f"
  shows "parse_finite_f64_field v = f \<and> one_line v \<and> 0x3B \<notin> set v"
proof (cases f)
  case (Parsed x)
  then have "f64_is_finite x" using assms(2) by (simp add: stable_defs)
  from display_reads_back [OF this] have "parse_f64 (lit (display_f64 x)) = Some x" .
  with assms Parsed \<open>f64_is_finite x\<close> show ?thesis
    by (auto simp: field_to_string_def parse_finite_f64_field_def parse_f64_def)
qed (use assms in \<open>auto simp: field_to_string_def parse_finite_f64_field_def stable_defs\<close>)

lemma bool01_text:
  "bool01_to_string f name = Inr v \<Longrightarrow> stable_bool01 f \<Longrightarrow> parse_bool01 v = f \<and> one_line v \<and> 0x3B \<notin> set v"
  by (cases f) (auto simp: bool01_to_string_def parse_bool01_def stable_defs lit_def one_line_def split: if_splits)

lemma boolyn_text:
  "boolyn_to_string f name = Inr v \<Longrightarrow> stable_boolyn f \<Longrightarrow> parse_boolyn v = f \<and> one_line v \<and> 0x3B \<notin> set v"
  by (cases f) (auto simp: boolyn_to_string_def parse_boolyn_def stable_defs lit_def one_line_def split: if_splits)

lemma auth_text:
  "auth_to_string a name = Inr v \<Longrightarrow> stable_auth a \<Longrightarrow> parse_auth v = a \<and> one_line v \<and> 0x3B \<notin> set v"
  by (cases a) (auto simp: auth_to_string_def parse_auth_def stable_defs lit_def one_line_def)

lemmas field_texts = uint_text degrees_text bool01_text boolyn_text auth_text


subsection \<open>Records\<close>

definition known_tag :: "rust_string \<Rightarrow> bool" where
  "known_tag tag \<longleftrightarrow>
     list_ex (\<lambda>t. eq_ignore_ascii_case (trim tag) (lit t)) [''STR'', ''CAS'', ''NET'', ''ENDSOURCETABLE'']"

definition stable_record :: "sourcetable_record \<Rightarrow> bool" where
  "stable_record r =
     (case r of
        StrRecord s \<Rightarrow> stable_uint (sr_carrier s) \<and> stable_degrees (sr_lat_deg s) \<and> stable_degrees (sr_lon_deg s)
          \<and> stable_bool01 (sr_nmea_required s) \<and> stable_bool01 (sr_network_solution s)
          \<and> stable_auth (sr_authentication s) \<and> stable_boolyn (sr_fee s) \<and> stable_uint (sr_bitrate s)
      | CasRecord c \<Rightarrow> stable_uint (ca_port c) \<and> stable_bool01 (ca_nmea_required c) \<and> stable_degrees (ca_lat_deg c)
          \<and> stable_degrees (ca_lon_deg c) \<and> stable_uint (ca_fallback_port c)
      | NetRecord n \<Rightarrow> stable_auth (nt_authentication n) \<and> stable_boolyn (nt_fee n)
      | OtherRecord q \<Rightarrow> \<not> known_tag (ot_type_tag q) \<and> (ot_type_tag q \<noteq> [] \<or> ot_fields q \<noteq> []))"

lemma tags [simp]:
  "eq_ignore_ascii_case (trim (lit ''STR'')) (lit ''STR'')" "eq_ignore_ascii_case (trim (lit ''CAS'')) (lit ''CAS'')"
  "eq_ignore_ascii_case (trim (lit ''NET'')) (lit ''NET'')" "\<not> eq_ignore_ascii_case (trim (lit ''CAS'')) (lit ''STR'')"
  "\<not> eq_ignore_ascii_case (trim (lit ''NET'')) (lit ''STR'')" "\<not> eq_ignore_ascii_case (trim (lit ''NET'')) (lit ''CAS'')"
  "\<not> eq_ignore_ascii_case (trim (lit ''STR'')) (lit ''ENDSOURCETABLE'')"
  "\<not> eq_ignore_ascii_case (trim (lit ''CAS'')) (lit ''ENDSOURCETABLE'')"
  "\<not> eq_ignore_ascii_case (trim (lit ''NET'')) (lit ''ENDSOURCETABLE'')"
  by (simp_all add: eq_ignore_ascii_case_def trim_def trim_start_def trim_end_def lit_def is_whitespace_def
      to_ascii_lowercase_def char_lower_def)

lemma plain_tags: "one_line (lit ''STR'') \<and> 0x3B \<notin> set (lit ''STR'')" "one_line (lit ''CAS'') \<and> 0x3B \<notin> set (lit ''CAS'')"
  "one_line (lit ''NET'') \<and> 0x3B \<notin> set (lit ''NET'')"
  by (simp_all add: lit_def)

text \<open>A line that reads as the record: the shape shared by the three typed records.\<close>

definition line_reads :: "rust_string \<Rightarrow> sourcetable_record \<Rightarrow> bool" where
  "line_reads line r \<longleftrightarrow> line \<noteq> [] \<and> one_line line
     \<and> \<not> eq_ignore_ascii_case (trim (str_split semicolon line ! 0)) (lit ''ENDSOURCETABLE'')
     \<and> parse_record (str_split semicolon line) = r"

lemma line_reads_typed:
  assumes "\<forall>s\<in>set front. one_line s \<and> 0x3B \<notin> set s" and "one_line misc" and "front = lit tag # rest" "rest \<noteq> []"
    and "\<not> eq_ignore_ascii_case (trim (lit tag)) (lit ''ENDSOURCETABLE'')"
    and "parse_record (front @ str_split semicolon misc) = r"
  shows "line_reads (str_join (lit '';'') (front @ [misc])) r"
proof -
  have split: "str_split semicolon (str_join (lit '';'') (front @ [misc])) = front @ str_split semicolon misc"
    using assms(1) by (intro split_join_tail) auto
  moreover have "str_join (lit '';'') (front @ [misc]) \<noteq> []"
    using assms(3,4) by (cases rest) (auto simp: lit_def)
  ultimately show ?thesis
    using assms one_line_join [of "front @ [misc]"] by (simp add: line_reads_def list_all_iff)
qed

lemma to_line_parts:
  assumes "to_line r = Inr line"
  obtains parts where "record_fields r = map Inr parts" and "line = str_join (lit '';'') parts"
  using assms by (auto simp: to_line_def collect_Inr)

lemma str_line:
  assumes line: "to_line (StrRecord s) = Inr line" and stable: "stable_record (StrRecord s)"
  shows "line_reads line (StrRecord s)"
proof -
  obtain parts where "str_fields s = map Inr parts" and l: "line = str_join (lit '';'') parts"
    using to_line_parts [OF line] by (auto simp: record_fields_def)
  then obtain carrier lat lon nmea network auth fee rate where
    parts: "parts = [lit ''STR'', sr_mountpoint s, sr_identifier s, sr_format s, sr_format_details s, carrier,
        sr_nav_system s, sr_network s, sr_country s, lat, lon, nmea, network, sr_generator s, sr_compression s, auth,
        fee, rate] @ [sr_misc s]"
    and front: "\<forall>v\<in>set [sr_mountpoint s, sr_identifier s, sr_format s, sr_format_details s, sr_nav_system s,
        sr_network s, sr_country s, sr_generator s, sr_compression s]. one_line v \<and> 0x3B \<notin> set v"
    and misc: "one_line (sr_misc s)"
    and typed: "field_to_string dec_u (sr_carrier s) ''STR carrier'' = Inr carrier"
      "field_to_string display_f64 (sr_lat_deg s) ''STR latitude'' = Inr lat"
      "field_to_string display_f64 (sr_lon_deg s) ''STR longitude'' = Inr lon"
      "bool01_to_string (sr_nmea_required s) ''STR NMEA required'' = Inr nmea"
      "bool01_to_string (sr_network_solution s) ''STR network solution'' = Inr network"
      "auth_to_string (sr_authentication s) ''STR authentication'' = Inr auth"
      "boolyn_to_string (sr_fee s) ''STR fee'' = Inr fee"
      "field_to_string dec_u (sr_bitrate s) ''STR bitrate'' = Inr rate"
    by (simp add: str_fields_def Cons_eq_map_conv) blast
  note read = typed(1,8) [THEN uint_text] typed(2,3) [THEN degrees_text] typed(4,5) [THEN bool01_text]
    typed(6) [THEN auth_text] typed(7) [THEN boolyn_text]
  have "parse_str ([lit ''STR'', sr_mountpoint s, sr_identifier s, sr_format s, sr_format_details s, carrier,
        sr_nav_system s, sr_network s, sr_country s, lat, lon, nmea, network, sr_generator s, sr_compression s, auth,
        fee, rate] @ str_split semicolon (sr_misc s)) = s"
    using stable read by (simp add: parse_str_def stable_record_def get_front join_tail_front del: append_Cons append_Nil)
  then show ?thesis unfolding l parts
    using front stable read
    by (intro line_reads_typed [OF _ misc refl]) (simp_all add: stable_record_def parse_record_def plain_tags)
qed

lemma cas_line:
  assumes line: "to_line (CasRecord s) = Inr line" and stable: "stable_record (CasRecord s)"
  shows "line_reads line (CasRecord s)"
proof -
  obtain parts where "cas_fields s = map Inr parts" and l: "line = str_join (lit '';'') parts"
    using to_line_parts [OF line] by (auto simp: record_fields_def)
  then obtain port nmea lat lon fallback where
    parts: "parts = [lit ''CAS'', ca_host s, port, ca_identifier s, ca_operator s, nmea, ca_country s, lat, lon,
        ca_fallback_host s, fallback] @ [ca_misc s]"
    and front: "\<forall>v\<in>set [ca_host s, ca_identifier s, ca_operator s, ca_country s, ca_fallback_host s].
        one_line v \<and> 0x3B \<notin> set v"
    and misc: "one_line (ca_misc s)"
    and typed: "field_to_string dec_u (ca_port s) ''CAS port'' = Inr port"
      "field_to_string dec_u (ca_fallback_port s) ''CAS fallback port'' = Inr fallback"
      "field_to_string display_f64 (ca_lat_deg s) ''CAS latitude'' = Inr lat"
      "field_to_string display_f64 (ca_lon_deg s) ''CAS longitude'' = Inr lon"
      "bool01_to_string (ca_nmea_required s) ''CAS NMEA required'' = Inr nmea"
    by (simp add: cas_fields_def Cons_eq_map_conv) blast
  note read = typed(1,2) [THEN uint_text] typed(3,4) [THEN degrees_text] typed(5) [THEN bool01_text]
  have "parse_cas ([lit ''CAS'', ca_host s, port, ca_identifier s, ca_operator s, nmea, ca_country s, lat, lon,
        ca_fallback_host s, fallback] @ str_split semicolon (ca_misc s)) = s"
    using stable read by (simp add: parse_cas_def stable_record_def get_front join_tail_front del: append_Cons append_Nil)
  then show ?thesis unfolding l parts
    using front stable read
    by (intro line_reads_typed [OF _ misc refl]) (simp_all add: stable_record_def parse_record_def plain_tags)
qed

lemma net_line:
  assumes line: "to_line (NetRecord s) = Inr line" and stable: "stable_record (NetRecord s)"
  shows "line_reads line (NetRecord s)"
proof -
  obtain parts where "net_fields s = map Inr parts" and l: "line = str_join (lit '';'') parts"
    using to_line_parts [OF line] by (auto simp: record_fields_def)
  then obtain auth fee where
    parts: "parts = [lit ''NET'', nt_identifier s, nt_operator s, auth, fee, nt_web_net s, nt_web_str s, nt_web_reg s]
        @ [nt_misc s]"
    and front: "\<forall>v\<in>set [nt_identifier s, nt_operator s, nt_web_net s, nt_web_str s, nt_web_reg s].
        one_line v \<and> 0x3B \<notin> set v"
    and misc: "one_line (nt_misc s)"
    and typed: "auth_to_string (nt_authentication s) ''NET authentication'' = Inr auth"
      "boolyn_to_string (nt_fee s) ''NET fee'' = Inr fee"
    by (simp add: net_fields_def Cons_eq_map_conv) blast
  note read = typed(1) [THEN auth_text] typed(2) [THEN boolyn_text]
  have "parse_net ([lit ''NET'', nt_identifier s, nt_operator s, auth, fee, nt_web_net s, nt_web_str s, nt_web_reg s]
        @ str_split semicolon (nt_misc s)) = s"
    using stable read by (simp add: parse_net_def stable_record_def get_front join_tail_front del: append_Cons append_Nil)
  then show ?thesis unfolding l parts
    using front stable read
    by (intro line_reads_typed [OF _ misc refl]) (simp_all add: stable_record_def parse_record_def plain_tags)
qed

lemma ordinary_texts:
  "map (\<lambda>f. ordinary_text f name) fs = map Inr ps \<longleftrightarrow> ps = fs \<and> (\<forall>v\<in>set fs. one_line v \<and> 0x3B \<notin> set v)"
  by (induction fs arbitrary: ps) (auto simp: Cons_eq_map_conv)

lemma other_line:
  assumes line: "to_line (OtherRecord q) = Inr line" and stable: "stable_record (OtherRecord q)"
  shows "line_reads line (OtherRecord q)"
proof -
  obtain parts where "other_fields q = map Inr parts" and l: "line = str_join (lit '';'') parts"
    using to_line_parts [OF line] by (auto simp: record_fields_def)
  then have parts: "parts = ot_type_tag q # ot_fields q" and plain: "\<forall>v\<in>set parts. one_line v \<and> 0x3B \<notin> set v"
    by (auto simp: other_fields_def Cons_eq_map_conv ordinary_texts)
  have split: "str_split semicolon line = parts"
    using str_split_join [of parts "0x3B"] plain by (simp add: l lit_def parts)
  moreover have "line \<noteq> []" using stable split by (auto simp: stable_record_def parts)
  moreover have "one_line line" unfolding l using plain by (intro one_line_join) (simp add: list_all_iff)
  ultimately show ?thesis
    using stable by (simp add: line_reads_def parts parse_record_def stable_record_def known_tag_def)
qed

lemma record_line: "to_line r = Inr line \<Longrightarrow> stable_record r \<Longrightarrow> line_reads line r"
  by (cases r) (auto intro: str_line cas_line net_line other_line)


section \<open>Tables\<close>

lemma str_lines_Cons:
  assumes "one_line l"
  shows "str_lines (l @ 0x0D # 0x0A # rest) = l # str_lines rest"
proof -
  have "str_split (\<lambda>c. c = 0x0A) (l @ 0x0D # 0x0A # rest) = (l @ [0x0D]) # str_split (\<lambda>c. c = 0x0A) rest"
    using assms by (induction l) auto
  then show ?thesis by (simp add: str_lines_def Let_def)
qed

lemma trim_end_cr_line: "one_line l \<Longrightarrow> trim_end_cr l = l"
  by (cases "rev l") (auto simp: trim_end_cr_def one_line_def)

lemma end_line: "parse_lines (str_lines (lit ''ENDSOURCETABLE'' @ [0x0D, 0x0A])) = []"
proof -
  have "one_line (lit ''ENDSOURCETABLE'')" by (simp add: lit_def)
  from str_lines_Cons [OF this, of "[]"] have "str_lines (lit ''ENDSOURCETABLE'' @ [0x0D, 0x0A]) = [lit ''ENDSOURCETABLE'']"
    by (simp add: str_lines_def)
  moreover have "str_split semicolon (lit ''ENDSOURCETABLE'') = [lit ''ENDSOURCETABLE'']" by (simp add: lit_def)
  moreover have "trim (lit ''ENDSOURCETABLE'') = lit ''ENDSOURCETABLE''"
    by (simp add: lit_def trim_def trim_start_def trim_end_def is_whitespace_def)
  ultimately show ?thesis
    using trim_end_cr_line [OF \<open>one_line _\<close>] by (simp add: eq_ignore_ascii_case_def Let_def)
qed

lemma lines_back:
  "lines_text rs = Inr body \<Longrightarrow> list_all stable_record rs \<Longrightarrow>
     parse_lines (str_lines (body @ lit ''ENDSOURCETABLE'' @ [0x0D, 0x0A])) = rs"
proof (induction rs arbitrary: body)
  case Nil
  then show ?case using end_line by simp
next
  case (Cons r rs)
  then obtain line rest where line: "to_line r = Inr line" and rest: "lines_text rs = Inr rest"
    and body: "body = line @ 0x0D # 0x0A # rest"
    by auto
  have "line_reads line r" using record_line [OF line] Cons by simp
  with Cons rest show ?case by (simp add: body line_reads_def str_lines_Cons trim_end_cr_line)
qed

lemma table_back:
  assumes "to_text table = Inr s" and "list_all stable_record (st_records table)"
  shows "parse_sourcetable s = Inr table"
proof -
  obtain body where "lines_text (st_records table) = Inr body" and "s = body @ lit ''ENDSOURCETABLE'' @ [0x0D, 0x0A]"
    using assms(1) by (auto simp: to_text_def)
  then show ?thesis using lines_back assms(2) by (simp add: parse_sourcetable_def)
qed

text \<open>What the parser returns is always of that kind.\<close>

lemma parsed_stable [simp]:
  "stable_uint (parse_field v)" "stable_degrees (parse_finite_f64_field v)" "stable_bool01 (parse_bool01 v)"
  "stable_boolyn (parse_boolyn v)" "stable_auth (parse_auth v)"
  by (auto simp: stable_defs parse_field_def parse_finite_f64_field_def parse_bool01_def parse_boolyn_def parse_auth_def
      split: option.splits)

lemma record_stable:
  assumes "line \<noteq> []" and "\<not> eq_ignore_ascii_case (trim (str_split semicolon line ! 0)) (lit ''ENDSOURCETABLE'')"
  shows "stable_record (parse_record (str_split semicolon line))"
proof -
  have "str_split semicolon line ! 0 \<noteq> [] \<or> drop 1 (str_split semicolon line) \<noteq> []"
  proof (rule ccontr)
    assume "\<not> ?thesis"
    then have "str_split semicolon line = [[]]" using length_str_split [of semicolon line] by (cases "str_split semicolon line") auto
    with str_join_split [of "0x3B" line] assms(1) show False by simp
  qed
  with assms(2) show ?thesis
    by (auto simp: parse_record_def Let_def stable_record_def parse_str_def parse_cas_def parse_net_def known_tag_def)
qed

lemma parsed_table_stable: "list_all stable_record (parse_lines ls)"
  by (induction ls) (auto simp: Let_def record_stable)


section \<open>The text of a parsed table\<close>

definition plain :: "rust_string \<Rightarrow> bool" where
  "plain v \<longleftrightarrow> one_line v \<and> 0x3B \<notin> set v"

lemma plain_simps [simp]:
  "plain []" "plain (a @ b) \<longleftrightarrow> plain a \<and> plain b" "plain (c # s) \<longleftrightarrow> c \<noteq> 0x0D \<and> c \<noteq> 0x0A \<and> c \<noteq> 0x3B \<and> plain s"
  by (auto simp: plain_def)

lemma plain_digits: "list_all is_digit v \<Longrightarrow> plain v"
  by (induction v) (auto simp: is_digit_def)

lemma plain_dec [simp]: "plain (lit (dec n))"
  using dec_value [of n] by (simp add: plain_digits)

lemma plain_part: "plain (lit s) \<Longrightarrow> set t \<subseteq> set s \<Longrightarrow> plain (lit t)"
  by (auto simp: plain_def one_line_def lit_def)

lemma plain_display: "f64_is_finite x \<Longrightarrow> plain (lit (display_f64 x))"
proof -
  assume x: "f64_is_finite x"
  have z: "plain (lit (replicate k (CHR ''0'')))" for k by (induction k) (auto simp: lit_def)
  have "plain (lit (take k (dec c)))" "plain (lit (drop k (dec c)))" for k c
    by (intro plain_part [OF plain_dec [of c]] set_take_subset set_drop_subset)+
  with z have "plain (lit (plain_decimal c ex))" for c ex
    by (auto simp: plain_decimal_def Let_def) (simp_all add: lit_def plain_dec [unfolded lit_def])
  with x show ?thesis
    by (auto simp: display_f64_def f64_is_nan_def f64_is_finite_def split: prod.splits) (simp_all add: lit_def)
qed

lemma shown_plain:
  "plain v \<Longrightarrow> \<exists>u. field_to_string dec_u (parse_field v) name = Inr u"
  "plain v \<Longrightarrow> \<exists>u. field_to_string display_f64 (parse_finite_f64_field v) name = Inr u"
  "plain v \<Longrightarrow> \<exists>u. bool01_to_string (parse_bool01 v) name = Inr u"
  "plain v \<Longrightarrow> \<exists>u. boolyn_to_string (parse_boolyn v) name = Inr u"
  "plain v \<Longrightarrow> \<exists>u. auth_to_string (parse_auth v) name = Inr u"
  using plain_display plain_dec
  by (auto simp: field_to_string_def parse_field_def parse_finite_f64_field_def bool01_to_string_def parse_bool01_def
      boolyn_to_string_def parse_boolyn_def auth_to_string_def parse_auth_def plain_def dec_u_def split: option.splits)

lemma plain_get: "\<forall>p\<in>set parts. plain p \<Longrightarrow> plain (get parts i)"
  by (simp add: get_def)

lemma one_line_tail: "\<forall>p\<in>set parts. plain p \<Longrightarrow> one_line (join_tail parts i)"
  by (auto simp: join_tail_def plain_def list_all_iff dest!: in_set_dropD intro!: one_line_join)

lemma collect_all: "(\<exists>xs. collect rs = Inr xs) \<longleftrightarrow> list_all (\<lambda>r. \<exists>x. r = Inr x) rs"
  by (induction rs) auto

lemma record_shown:
  assumes "\<forall>p\<in>set parts. plain p" and "parts \<noteq> []"
  shows "\<exists>line. to_line (parse_record parts) = Inr line"
proof -
  note g = plain_get [OF assms(1)]
  have o: "\<exists>u. ordinary_text (get parts i) name = Inr u" for i name using g by (simp add: plain_def)
  have "parts ! 0 \<in> set parts" using assms(2) by simp
  then have "list_all (\<lambda>r. \<exists>x. r = Inr x) (record_fields (parse_record parts))"
    using assms(1) one_line_tail [OF assms(1)] g
    by (auto simp: parse_record_def Let_def record_fields_def str_fields_def cas_fields_def net_fields_def other_fields_def
        parse_str_def parse_cas_def parse_net_def list_all_iff plain_def dest: in_set_dropD
        intro: shown_plain [unfolded plain_def])
  then show ?thesis unfolding collect_all [symmetric] by (auto simp: to_line_def)
qed


lemma lines_shown:
  "(\<forall>l\<in>set ls. one_line (trim_end_cr l)) \<Longrightarrow> \<exists>body. lines_text (parse_lines ls) = Inr body"
proof (induction ls)
  case (Cons l ls)
  define parts where "parts = str_split semicolon (trim_end_cr l)"
  have join: "str_join [0x3B] parts = trim_end_cr l" unfolding parts_def by (rule str_join_split)
  have inner: "set p \<subseteq> set (str_join [x] ss)" if "p \<in> set ss" for p x ss
    using that by (induction "[x]" ss rule: str_join.induct) auto
  have "plain p" if "p \<in> set parts" for p
    using inner [OF that, of "0x3B", unfolded join] split_pieces [OF that [unfolded parts_def]] Cons.prems
    by (auto simp: plain_def one_line_def)
  then have "\<exists>line. to_line (parse_record parts) = Inr line"
    by (intro record_shown) (auto simp: parts_def)
  with Cons show ?case by (auto simp: Let_def parts_def)
qed simp

lemma str_lines_no_LF: "l \<in> set (str_lines s) \<Longrightarrow> 0x0A \<notin> set l"
proof -
  assume l: "l \<in> set (str_lines s)"
  have whole: "0x0A \<notin> set p" if "p \<in> set (str_split (\<lambda>c. c = 0x0A) s)" for p
    using split_pieces [OF that] by auto
  have "last (str_split (\<lambda>c. c = 0x0A) s) \<in> set (str_split (\<lambda>c. c = 0x0A) s)" by simp
  then show ?thesis
    using l whole by (auto simp: str_lines_def Let_def split: if_splits dest: in_set_butlastD)
qed

lemma normal_form:
  assumes "\<forall>l\<in>set (str_lines s). 0x0D \<notin> set (trim_end_cr l)"
  shows "\<exists>table out. parse_sourcetable s = Inr table \<and> to_text table = Inr out \<and> parse_sourcetable out = Inr table"
proof -
  have "0x0A \<notin> set (trim_end_cr l)" if "l \<in> set (str_lines s)" for l
    using str_lines_no_LF [OF that] by (auto simp: trim_end_cr_def dest: set_dropWhileD)
  with assms have "\<exists>body. lines_text (parse_lines (str_lines s)) = Inr body"
    by (intro lines_shown) (simp add: one_line_def)
  then have "\<exists>out. to_text \<lparr>st_records = parse_lines (str_lines s)\<rparr> = Inr out" by (auto simp: to_text_def)
  then show ?thesis using table_back parsed_table_stable by (fastforce simp: parse_sourcetable_def)
qed

end
