(* ===== verification/Ntrip_Machine.thy ===== *)
theory Ntrip_Machine
  imports Ntrip_Request Ntrip_Response Ntrip_Sourcetable
begin

text \<open>
  The client of \<^verbatim>\<open>ntrip/machine.rs\<close>: the states of one response, the events it reports, the status
  and header lines, data and source table bodies, plain and chunked, and the pacing of position
  messages. An operation returns the events it appends beside its result; the formatter of
  \<^verbatim>\<open>ntrip/gga.rs\<close> is an argument of the message operation.
\<close>

section \<open>The model\<close>

definition MAX_LINE :: nat where
  "MAX_LINE = 8 * 1024"

definition MAX_HEADER_BLOCK :: nat where
  "MAX_HEADER_BLOCK = 64 * 1024"

definition MAX_SOURCETABLE :: nat where
  "MAX_SOURCETABLE = 4 * 1024 * 1024"

definition PREFIX_LIMIT :: nat where
  "PREFIX_LIMIT = 256"

datatype ntrip_state = Idle | AwaitingStatus | AwaitingHeaders | Streaming | InSourcetable | Closed

record ntrip_handshake =
  hs_version :: ntrip_version
  hs_chunked :: bool
  hs_headers :: headers

datatype ntrip_event =
    Connected ntrip_handshake
  | Payload "u8 list"
  | EvSourcetable sourcetable
  | Rejected ntrip_rejection
  | StreamCorrupted string
  | StreamEnded

record ntrip_client =
  cm_config :: ntrip_config
  cm_state :: ntrip_state
  cm_carry :: "u8 list"
  cm_headers :: headers
  cm_header_bytes :: nat
  cm_status_version :: "ntrip_version option"
  cm_http_status :: "u16 option"
  cm_http_reason :: rust_string
  cm_chunked :: bool
  cm_pending_icy_blank_line :: bool
  cm_sourcetable_chunked :: bool
  cm_chunk_decoder :: chunked_decoder
  cm_sourcetable_text :: rust_string
  cm_sourcetable_carry :: "u8 list"
  cm_sourcetable_records_started :: bool
  cm_last_gga_s :: "f64 option"

definition client_new :: "ntrip_config \<Rightarrow> ntrip_client" where
  "client_new config =
     \<lparr>cm_config = config, cm_state = Idle, cm_carry = [], cm_headers = [], cm_header_bytes = 0,
      cm_status_version = None, cm_http_status = None, cm_http_reason = [], cm_chunked = False,
      cm_pending_icy_blank_line = False, cm_sourcetable_chunked = False, cm_chunk_decoder = chunked_new,
      cm_sourcetable_text = [], cm_sourcetable_carry = [], cm_sourcetable_records_started = False,
      cm_last_gga_s = None\<rparr>"

definition connection_request :: "ntrip_client \<Rightarrow> (rust_error + u8 list) \<times> ntrip_client" where
  "connection_request m =
     (case request_bytes (cm_config m) of
        Inl e \<Rightarrow> (Inl e, m)
      | Inr bytes \<Rightarrow> (Inr bytes, m\<lparr>cm_state := AwaitingStatus\<rparr>))"

definition client_reset :: "ntrip_client \<Rightarrow> ntrip_client" where
  "client_reset m = client_new (cm_config m)"

subsection \<open>Lines\<close>

definition reject :: "ntrip_rejection \<Rightarrow> ntrip_client \<Rightarrow> ntrip_client \<times> ntrip_event list" where
  "reject rejection m = (m\<lparr>cm_state := Closed\<rparr>, [Rejected rejection])"

definition reject_current_prefix :: "ntrip_client \<Rightarrow> ntrip_client \<times> ntrip_event list" where
  "reject_current_prefix m = reject (MalformedHandshake (take PREFIX_LIMIT (cm_carry m))) m"

definition prefix_with_line :: "u8 list \<Rightarrow> ntrip_client \<Rightarrow> u8 list" where
  "prefix_with_line line m = take PREFIX_LIMIT (line @ cm_carry m)"

definition take_line_from :: "u8 list \<Rightarrow> (u8 list \<times> u8 list) option" where
  "take_line_from buffer =
     (case iter_position (\<lambda>b. b = LF) buffer of
        None \<Rightarrow> None
      | Some pos \<Rightarrow> Some (chomp (take (pos + 1) buffer), drop (pos + 1) buffer))"

definition take_line_or_reject :: "ntrip_client \<Rightarrow> u8 list option \<times> ntrip_client \<times> ntrip_event list" where
  "take_line_or_reject m =
     (case iter_position (\<lambda>b. b = LF) (cm_carry m) of
        Some pos \<Rightarrow> (Some (chomp (take (pos + 1) (cm_carry m))), m\<lparr>cm_carry := drop (pos + 1) (cm_carry m)\<rparr>, [])
      | None \<Rightarrow>
          if length (cm_carry m) > MAX_LINE then (None, reject_current_prefix m) else (None, m, []))"

definition status_parts :: "rust_string \<Rightarrow> (u16 \<times> rust_string) option" where
  "status_parts rest =
     (case split_whitespace_once rest of (first, second) \<Rightarrow>
        map_option (\<lambda>status. (of_nat status, trim (case second of Some r \<Rightarrow> r | None \<Rightarrow> [])))
          (parse_uint (2 ^ 16) first))"

definition parse_prefixed_status :: "rust_string \<Rightarrow> string \<Rightarrow> (u16 \<times> rust_string) option" where
  "parse_prefixed_status line tag =
     Option.bind (strip_prefix (lit tag) line) (\<lambda>rest. status_parts (trim_start rest))"

definition parse_http_status :: "rust_string \<Rightarrow> (ntrip_version \<times> u16 \<times> rust_string) option" where
  "parse_http_status line =
     Option.bind
       (case strip_prefix (lit ''HTTP/1.1 '') line of
          Some rest \<Rightarrow> Some (Rev2, rest)
        | None \<Rightarrow> map_option (\<lambda>rest. (Rev1, rest)) (strip_prefix (lit ''HTTP/1.0 '') line))
       (\<lambda>(version, rest). map_option (\<lambda>(status, reason). (version, status, reason)) (status_parts rest))"

definition split_header :: "u8 list \<Rightarrow> (rust_string \<times> rust_string) option" where
  "split_header line =
     (case iter_position (\<lambda>b. b = 0x3A) line of
        None \<Rightarrow> None
      | Some pos \<Rightarrow>
          (let name = trim (from_utf8_lossy (take pos line));
               value_bytes = (if pos + 1 < length line \<and> line ! (pos + 1) = 0x20
                              then drop (pos + 2) line else drop (pos + 1) line)
           in Some (name, from_utf8_lossy value_bytes)))"

definition is_sourcetable_record_start :: "rust_string \<Rightarrow> bool" where
  "is_sourcetable_record_start first =
     list_ex (\<lambda>tag. eq_ignore_ascii_case first (lit tag)) [''STR'', ''CAS'', ''NET'', ''ENDSOURCETABLE'']"

subsection \<open>The handshake\<close>

definition parse_status :: "ntrip_client \<Rightarrow> bool \<times> ntrip_client \<times> ntrip_event list" where
  "parse_status m0 =
     (case take_line_or_reject m0 of
        (None, m, events) \<Rightarrow> (False, m, events)
      | (Some line, m, _) \<Rightarrow>
          (let txt = trim (from_utf8_lossy line) in
           (True,
            case strip_prefix (lit ''ERROR - '') txt of
              Some reason \<Rightarrow>
                reject (if str_contains (lit ''password'') (to_ascii_lowercase reason) then Unauthorized
                        else CasterError reason) m
            | None \<Rightarrow>
                (case parse_prefixed_status txt ''ICY'' of
                   Some (status, reason) \<Rightarrow>
                     if status = 200 then
                       (m\<lparr>cm_state := Streaming, cm_status_version := Some Rev1, cm_chunked := False,
                          cm_pending_icy_blank_line := True\<rparr>,
                        [Connected \<lparr>hs_version = Rev1, hs_chunked = False, hs_headers = []\<rparr>])
                     else reject (HttpError status reason) m
                 | None \<Rightarrow>
                     (case parse_prefixed_status txt ''SOURCETABLE'' of
                        Some (status, reason) \<Rightarrow>
                          if status = 200 then (m\<lparr>cm_state := InSourcetable, cm_status_version := Some Rev1\<rparr>, [])
                          else reject (HttpError status reason) m
                      | None \<Rightarrow>
                          (case parse_http_status txt of
                             Some (version, status, reason) \<Rightarrow>
                               (m\<lparr>cm_status_version := Some version, cm_headers := [], cm_header_bytes := 0,
                                  cm_http_status := Some status, cm_http_reason := reason,
                                  cm_state := AwaitingHeaders\<rparr>, [])
                           | None \<Rightarrow> reject (MalformedHandshake (prefix_with_line line m)) m))))))"

definition parse_headers :: "ntrip_client \<Rightarrow> bool \<times> ntrip_client \<times> ntrip_event list" where
  "parse_headers m0 =
     (case take_line_or_reject m0 of
        (None, m, events) \<Rightarrow> (False, m, events)
      | (Some line, m, _) \<Rightarrow>
          (True,
           if line = [] then
             (let status = (case cm_http_status m of Some s \<Rightarrow> s | None \<Rightarrow> 0) in
              case classify_http_response status (cm_http_reason m) (cm_headers m) of
                ClStream chunked \<Rightarrow>
                  (m\<lparr>cm_chunked := chunked, cm_state := Streaming\<rparr>,
                   [Connected \<lparr>hs_version = (case cm_status_version m of Some v \<Rightarrow> v | None \<Rightarrow> Rev2),
                               hs_chunked = chunked, hs_headers = cm_headers m\<rparr>])
              | ClSourcetable chunked \<Rightarrow>
                  (m\<lparr>cm_state := InSourcetable, cm_sourcetable_chunked := chunked,
                     cm_sourcetable_records_started := True\<rparr>, [])
              | ClRejection rejection \<Rightarrow> reject rejection m)
           else
             (let m = m\<lparr>cm_header_bytes := cm_header_bytes m + length line\<rparr> in
              if cm_header_bytes m > MAX_HEADER_BLOCK then reject_current_prefix m
              else (case split_header line of
                      Some header \<Rightarrow> (m\<lparr>cm_headers := cm_headers m @ [header]\<rparr>, [])
                    | None \<Rightarrow> (m, [])))))"

subsection \<open>Data\<close>

definition consume_pending_icy_blank_line :: "ntrip_client \<Rightarrow> bool \<times> ntrip_client" where
  "consume_pending_icy_blank_line m =
     (case cm_carry m of
        [] \<Rightarrow> (False, m)
      | b # rest \<Rightarrow>
          if b = LF then (True, m\<lparr>cm_carry := rest, cm_pending_icy_blank_line := False\<rparr>)
          else if b = CR then
            (if rest = [] then (False, m)
             else if hd rest = LF then (True, m\<lparr>cm_carry := tl rest, cm_pending_icy_blank_line := False\<rparr>)
             else (True, m\<lparr>cm_pending_icy_blank_line := False\<rparr>))
          else (True, m\<lparr>cm_pending_icy_blank_line := False\<rparr>))"

definition drain_body :: "ntrip_client \<Rightarrow> ntrip_client \<times> ntrip_event list" where
  "drain_body m =
     (if cm_carry m = [] then (m, [])
      else
        (let bytes = cm_carry m; m = m\<lparr>cm_carry := []\<rparr> in
         if cm_chunked m then
           (case chunk_push bytes (cm_chunk_decoder m) of
              (Inr payload, d) \<Rightarrow>
                (let m = m\<lparr>cm_chunk_decoder := d\<rparr>;
                     events = (if payload \<noteq> [] then [Payload payload] else [])
                 in if cd_finished d then (m\<lparr>cm_state := Closed\<rparr>, events @ [StreamEnded]) else (m, events))
            | (Inl err, d) \<Rightarrow>
                (m\<lparr>cm_chunk_decoder := d, cm_state := Closed\<rparr>, [StreamCorrupted (error_text err)]))
         else (m, [Payload bytes])))"

definition drain_payload :: "ntrip_client \<Rightarrow> ntrip_client \<times> ntrip_event list" where
  "drain_payload m =
     (if cm_pending_icy_blank_line m then
        (case consume_pending_icy_blank_line m of
           (False, m) \<Rightarrow> (m, [])
         | (True, m) \<Rightarrow> drain_body m)
      else drain_body m)"

subsection \<open>Source tables\<close>

definition finish_sourcetable :: "ntrip_client \<Rightarrow> ntrip_client \<times> ntrip_event list" where
  "finish_sourcetable m =
     (m\<lparr>cm_state := Closed\<rparr>,
      [case parse_sourcetable (cm_sourcetable_text m) of
         Inr table \<Rightarrow> EvSourcetable table
       | Inl err \<Rightarrow> StreamCorrupted (error_text err)])"

text \<open>The lines before the first record are skipped while they are empty or look like headers.\<close>

definition push_sourcetable_line ::
  "u8 list \<Rightarrow> ntrip_client \<Rightarrow> bool \<times> ntrip_client \<times> ntrip_event list" where
  "push_sourcetable_line line m =
     (let txt = from_utf8_lossy line;
          first = trim (hd (str_split (\<lambda>c. c = 0x3B) txt))
      in if \<not> cm_sourcetable_records_started m
            \<and> (txt = [] \<or> \<not> is_sourcetable_record_start first \<and> 0x3A \<in> set txt)
         then (False, m, [])
         else
           (let m = m\<lparr>cm_sourcetable_records_started := True,
                      cm_sourcetable_text := cm_sourcetable_text m @ txt @ [0x0D, 0x0A]\<rparr>
            in if length (str_bytes (cm_sourcetable_text m)) > MAX_SOURCETABLE then (True, reject_current_prefix m)
               else if eq_ignore_ascii_case first (lit ''ENDSOURCETABLE'') then (True, finish_sourcetable m)
               else (False, m, [])))"

definition sourcetable_buffer :: "ntrip_client \<Rightarrow> u8 list" where
  "sourcetable_buffer m = (if cm_sourcetable_chunked m then cm_sourcetable_carry m else cm_carry m)"

definition set_sourcetable_buffer :: "u8 list \<Rightarrow> ntrip_client \<Rightarrow> ntrip_client" where
  "set_sourcetable_buffer buffer m =
     (if cm_sourcetable_chunked m then m\<lparr>cm_sourcetable_carry := buffer\<rparr> else m\<lparr>cm_carry := buffer\<rparr>)"

definition sourcetable_step ::
  "ntrip_client \<Rightarrow> (ntrip_client, bool \<times> ntrip_client \<times> ntrip_event list) flow" where
  "sourcetable_step m =
     (case take_line_from (sourcetable_buffer m) of
        None \<Rightarrow>
          if length (sourcetable_buffer m) > MAX_LINE then Return (True, reject_current_prefix m)
          else Return (False, m, [])
      | Some (line, buffer) \<Rightarrow>
          (case push_sourcetable_line line (set_sourcetable_buffer buffer m) of
             (True, m, events) \<Rightarrow> Return (True, m, events)
           | (False, m, events) \<Rightarrow> Continue m))"

lemma push_line_keeps:
  "push_sourcetable_line line m = (r, m', events) \<Longrightarrow>
     cm_carry m' = cm_carry m \<and> cm_sourcetable_carry m' = cm_sourcetable_carry m
       \<and> cm_sourcetable_chunked m' = cm_sourcetable_chunked m"
  by (auto simp: push_sourcetable_line_def Let_def reject_current_prefix_def reject_def finish_sourcetable_def split: if_splits)

lemma sourcetable_step_decreases:
  "sourcetable_step m = Continue m' \<Longrightarrow> length (sourcetable_buffer m') < length (sourcetable_buffer m)"
  by (auto simp: sourcetable_step_def take_line_from_def sourcetable_buffer_def set_sourcetable_buffer_def
      split: option.splits prod.splits bool.splits if_splits dest!: push_line_keeps iter_position_less)

function drain_sourcetable_lines :: "ntrip_client \<Rightarrow> bool \<times> ntrip_client \<times> ntrip_event list" where
  "drain_sourcetable_lines m =
     (case sourcetable_step m of Continue m' \<Rightarrow> drain_sourcetable_lines m' | Return result \<Rightarrow> result)"
  by pat_completeness auto
termination
  by (relation "measure (\<lambda>m. length (sourcetable_buffer m))") (auto simp: sourcetable_step_decreases)

declare drain_sourcetable_lines.simps [simp del]

definition drain_sourcetable_tail :: "ntrip_client \<Rightarrow> bool \<times> ntrip_client \<times> ntrip_event list" where
  "drain_sourcetable_tail m =
     (case drain_sourcetable_lines m of
        (True, m, events) \<Rightarrow> (True, m, events)
      | (False, m, events) \<Rightarrow>
          if cd_finished (cm_chunk_decoder m) then
            (if cm_sourcetable_carry m \<noteq> [] then
               (case push_sourcetable_line (cm_sourcetable_carry m) (m\<lparr>cm_sourcetable_carry := []\<rparr>) of
                  (True, m, more_events) \<Rightarrow> (True, m, events @ more_events)
                | (False, m, more_events) \<Rightarrow>
                    (case finish_sourcetable m of (m, last_events) \<Rightarrow>
                       (True, m, events @ more_events @ last_events)))
             else (case finish_sourcetable m of (m, last_events) \<Rightarrow> (True, m, events @ last_events)))
          else (False, m, events))"

definition drain_sourcetable :: "ntrip_client \<Rightarrow> bool \<times> ntrip_client \<times> ntrip_event list" where
  "drain_sourcetable m =
     (if cm_sourcetable_chunked m then
        (if cm_carry m \<noteq> [] then
           (case chunk_push (cm_carry m) (cm_chunk_decoder m) of
              (Inr decoded, d) \<Rightarrow>
                drain_sourcetable_tail
                  (m\<lparr>cm_carry := [], cm_chunk_decoder := d,
                     cm_sourcetable_carry := cm_sourcetable_carry m @ decoded\<rparr>)
            | (Inl err, d) \<Rightarrow>
                (True, m\<lparr>cm_carry := [], cm_chunk_decoder := d, cm_state := Closed\<rparr>,
                 [StreamCorrupted (error_text err)]))
         else drain_sourcetable_tail m)
      else drain_sourcetable_lines m)"

definition client_finish :: "ntrip_client \<Rightarrow> ntrip_client \<times> ntrip_event list" where
  "client_finish m =
     (if cm_state m = InSourcetable then
        (let (m, events) =
           (if sourcetable_buffer m \<noteq> [] then
              (case push_sourcetable_line (sourcetable_buffer m) (set_sourcetable_buffer [] m) of
                 (_, m, events) \<Rightarrow> (m, events))
            else (m, []))
         in if cm_state m = InSourcetable
            then (case finish_sourcetable m of (m, last_events) \<Rightarrow> (m, events @ last_events))
            else (m, events))
      else (m, []))"


subsection \<open>The loop\<close>

definition client_step ::
  "ntrip_client \<Rightarrow> (ntrip_client \<times> ntrip_event list, ntrip_client \<times> ntrip_event list) flow" where
  "client_step m =
     (case cm_state m of
        Idle \<Rightarrow> Continue (m\<lparr>cm_state := AwaitingStatus\<rparr>, [])
      | AwaitingStatus \<Rightarrow>
          (case parse_status m of (again, result) \<Rightarrow> if again then Continue result else Return result)
      | AwaitingHeaders \<Rightarrow>
          (case parse_headers m of (again, result) \<Rightarrow> if again then Continue result else Return result)
      | Streaming \<Rightarrow> Return (drain_payload m)
      | InSourcetable \<Rightarrow>
          (case drain_sourcetable m of (again, result) \<Rightarrow> if again then Continue result else Return result)
      | Closed \<Rightarrow> Return (m, []))"

definition client_measure :: "ntrip_client \<Rightarrow> nat" where
  "client_measure m =
     2 * length (cm_carry m) + (case cm_state m of Idle \<Rightarrow> 1 | InSourcetable \<Rightarrow> 1 | _ \<Rightarrow> 0)"

lemma rejected: "reject r m = (m', events) \<Longrightarrow> m' = m\<lparr>cm_state := Closed\<rparr> \<and> events = [Rejected r]"
  by (auto simp: reject_def)

lemma take_line_shrinks:
  "take_line_or_reject m = (Some line, m', events) \<Longrightarrow>
     length (cm_carry m') < length (cm_carry m) \<and> cm_state m' = cm_state m \<and> events = []"
  by (auto simp: take_line_or_reject_def split: option.splits if_splits dest: iter_position_less)

lemma handshake_shrinks:
  "parse_status m = (True, m', events) \<Longrightarrow> length (cm_carry m') < length (cm_carry m) \<and> cm_state m' \<noteq> Idle"
  "parse_headers m = (True, m', events) \<Longrightarrow> cm_state m \<noteq> Idle \<Longrightarrow>
     length (cm_carry m') < length (cm_carry m) \<and> cm_state m' \<noteq> Idle"
  by (auto simp: parse_status_def parse_headers_def Let_def reject_def reject_current_prefix_def
      split: prod.splits option.splits if_splits http_classification.splits dest!: take_line_shrinks)

lemma push_line_result:
  "push_sourcetable_line line m = (r, m', events) \<Longrightarrow> cm_carry m' = cm_carry m
     \<and> cm_sourcetable_carry m' = cm_sourcetable_carry m
     \<and> (if r then cm_state m' = Closed else cm_state m' = cm_state m \<and> events = [])"
  by (auto simp: push_sourcetable_line_def Let_def reject_current_prefix_def reject_def finish_sourcetable_def split: if_splits)

lemma drain_lines_facts:
  "drain_sourcetable_lines m = (r, m', events) \<Longrightarrow>
     length (cm_carry m') \<le> length (cm_carry m)
       \<and> (if r then cm_state m' = Closed else cm_state m' = cm_state m \<and> events = [])"
proof (induction m rule: drain_sourcetable_lines.induct)
  case (1 m)
  show ?case
  proof (cases "sourcetable_step m")
    case (Continue n)
    then have "length (cm_carry n) \<le> length (cm_carry m)" "cm_state n = cm_state m"
      by (auto simp: sourcetable_step_def take_line_from_def set_sourcetable_buffer_def sourcetable_buffer_def
          split: option.splits prod.splits bool.splits if_splits
          dest!: push_line_result)
    with 1(1) [OF Continue] 1(2) Continue show ?thesis by (simp add: drain_sourcetable_lines.simps [of m])
  next
    case (Return q)
    with 1(2) show ?thesis
      by (auto simp: drain_sourcetable_lines.simps [of m] sourcetable_step_def reject_current_prefix_def reject_def
          take_line_from_def set_sourcetable_buffer_def sourcetable_buffer_def
          split: option.splits prod.splits bool.splits if_splits dest!: push_line_result)
  qed
qed


lemma finish_result: "finish_sourcetable m = (m', events) \<Longrightarrow> cm_carry m' = cm_carry m \<and> cm_state m' = Closed"
  by (auto simp: finish_sourcetable_def)

lemma drain_tail_facts:
  "drain_sourcetable_tail m = (r, m', events) \<Longrightarrow>
     length (cm_carry m') \<le> length (cm_carry m)
       \<and> (if r then cm_state m' = Closed else cm_state m' = cm_state m \<and> events = [])"
  by (auto simp: drain_sourcetable_tail_def split: prod.splits bool.splits if_splits
      dest!: drain_lines_facts push_line_result finish_result)

lemma drain_sourcetable_facts:
  "drain_sourcetable m = (r, m', events) \<Longrightarrow>
     length (cm_carry m') \<le> length (cm_carry m)
       \<and> (if r then cm_state m' = Closed else cm_state m' = cm_state m \<and> events = [])"
  by (auto simp: drain_sourcetable_def split: prod.splits sum.splits if_splits
      dest!: drain_tail_facts drain_lines_facts)

lemma client_step_decreases: "client_step m = Continue (m', events) \<Longrightarrow> client_measure m' < client_measure m"
  by (auto simp: client_step_def client_measure_def split: ntrip_state.splits prod.splits if_splits
      dest!: handshake_shrinks drain_sourcetable_facts)

function client_loop :: "ntrip_client \<Rightarrow> ntrip_event list \<Rightarrow> ntrip_client \<times> ntrip_event list" where
  "client_loop m events =
     (case client_step m of
        Continue (m', new_events) \<Rightarrow> client_loop m' (events @ new_events)
      | Return (m', new_events) \<Rightarrow> (m', events @ new_events))"
  by pat_completeness auto
termination
  by (relation "measure (\<lambda>(m, events). client_measure m)") (auto simp: client_step_decreases)

declare client_loop.simps [simp del]

definition client_push :: "u8 list \<Rightarrow> ntrip_client \<Rightarrow> ntrip_client \<times> ntrip_event list" where
  "client_push bytes m =
     (if cm_state m = Closed then (m, [])
      else client_loop (m\<lparr>cm_carry := cm_carry m @ bytes\<rparr>) [])"

subsection \<open>Position messages\<close>

text \<open>
  \<^verbatim>\<open>>=\<close> and \<^verbatim>\<open>-\<close> on \<^verbatim>\<open>f64\<close>: the order of sign and magnitude, and the rounded exact difference of two
  finite values.
\<close>

definition f64_key :: "f64 \<Rightarrow> int" where
  "f64_key x = (if bit x 63 then - int (unat x mod 2 ^ 63) else int (unat x mod 2 ^ 63))"

definition f64_ge :: "f64 \<Rightarrow> f64 \<Rightarrow> bool" where
  "f64_ge x y \<longleftrightarrow> \<not> f64_is_nan x \<and> \<not> f64_is_nan y \<and> f64_key y \<le> f64_key x"

definition f64_signed_units :: "f64 \<Rightarrow> int" where
  "f64_signed_units x = (if bit x 63 then - int (f64_units x) else int (f64_units x))"

definition f64_sub :: "f64 \<Rightarrow> f64 \<Rightarrow> f64" where
  "f64_sub x y =
     (let d = f64_signed_units x - f64_signed_units y
      in if d = 0 then f64_bits (bit x 63 \<and> \<not> bit y 63) 0
         else f64_bits (d < 0) (f64_magnitude (nat \<bar>d\<bar>) (2 ^ 1074)))"

definition gga_due :: "f64 \<Rightarrow> f64 \<Rightarrow> f64 option \<Rightarrow> bool" where
  "gga_due now interval last_s =
     (case last_s of None \<Rightarrow> True | Some l \<Rightarrow> f64_ge now l \<and> f64_ge (f64_sub now l) interval)"

definition try_gga_message ::
  "('p \<Rightarrow> f64 \<Rightarrow> rust_error + u8 list) \<Rightarrow> f64 \<Rightarrow> 'p \<Rightarrow> f64 \<Rightarrow> ntrip_client
     \<Rightarrow> (rust_error + u8 list option) \<times> ntrip_client" where
  "try_gga_message format_gga now position utc m =
     (if cm_state m \<noteq> Streaming then (Inr None, m)
      else (case nc_gga_interval_s (cm_config m) of
          None \<Rightarrow> (Inr None, m)
        | Some interval \<Rightarrow>
            if \<not> f64_is_finite now then (Inr None, m)
            else if \<not> gga_due now interval (cm_last_gga_s m) then (Inr None, m)
            else (case format_gga position utc of
                Inl e \<Rightarrow> (Inl e, m)
              | Inr bytes \<Rightarrow> (Inr (Some bytes), m\<lparr>cm_last_gga_s := Some now\<rparr>))))"

definition gga_message ::
  "('p \<Rightarrow> f64 \<Rightarrow> rust_error + u8 list) \<Rightarrow> f64 \<Rightarrow> 'p \<Rightarrow> f64 \<Rightarrow> ntrip_client \<Rightarrow> u8 list option \<times> ntrip_client" where
  "gga_message format_gga now position utc m =
     (case try_gga_message format_gga now position utc m of
        (Inl _, m) \<Rightarrow> (None, m)
      | (Inr message, m) \<Rightarrow> (message, m))"

section \<open>The order of events\<close>

text \<open>
  What a consumer may rely on: one response announces at most one thing, data comes only after a
  connection, and nothing follows a rejection, a table, a corruption or an end.
\<close>

datatype session = Waiting | Open | Over

fun session_step :: "session \<Rightarrow> ntrip_event \<Rightarrow> session option" where
  "session_step Waiting (Connected h) = Some Open"
| "session_step Waiting (EvSourcetable t) = Some Over"
| "session_step Waiting (Rejected r) = Some Over"
| "session_step Waiting (StreamCorrupted e) = Some Over"
| "session_step Open (Payload bytes) = (if bytes = [] then None else Some Open)"
| "session_step Open (StreamCorrupted e) = Some Over"
| "session_step Open StreamEnded = Some Over"
| "session_step s e = None"

fun session_run :: "session \<Rightarrow> ntrip_event list \<Rightarrow> session option" where
  "session_run s [] = Some s"
| "session_run s (e # es) = Option.bind (session_step s e) (\<lambda>s'. session_run s' es)"

definition session_of :: "ntrip_client \<Rightarrow> session" where
  "session_of m = (case cm_state m of Streaming \<Rightarrow> Open | Closed \<Rightarrow> Over | _ \<Rightarrow> Waiting)"

lemma session_run_append: "session_run s (a @ b) = Option.bind (session_run s a) (\<lambda>s'. session_run s' b)"
  by (induction a arbitrary: s) (simp_all split: Option.bind_splits)

lemma closing_events:
  "reject r m = (m', events) \<Longrightarrow> session_run Waiting events = Some Over"
  "reject_current_prefix m = (m', events) \<Longrightarrow> session_run Waiting events = Some Over"
  "finish_sourcetable m = (m', events) \<Longrightarrow> session_run Waiting events = Some Over"
  by (auto simp: reject_def reject_current_prefix_def finish_sourcetable_def split: sum.splits)

lemma finish_ends: "finish_sourcetable m = (m', events) \<Longrightarrow> session_run Waiting events = Some Over \<and> cm_state m' = Closed"
  using closing_events(3) finish_result by blast

lemma push_line_session:
  "push_sourcetable_line line m = (True, m', events) \<Longrightarrow> session_run Waiting events = Some Over"
  by (auto simp: push_sourcetable_line_def Let_def split: if_splits dest: closing_events)

lemma drain_lines_session:
  "drain_sourcetable_lines m = (True, m', events) \<Longrightarrow> session_run Waiting events = Some Over"
proof (induction m rule: drain_sourcetable_lines.induct)
  case (1 m)
  show ?case
  proof (cases "sourcetable_step m")
    case (Return q)
    with 1(2) show ?thesis
      by (auto simp: drain_sourcetable_lines.simps [of m] sourcetable_step_def
          split: option.splits prod.splits bool.splits if_splits dest: push_line_session closing_events)
  qed (use 1 in \<open>simp add: drain_sourcetable_lines.simps [of m]\<close>)
qed

lemma drain_tail_session:
  assumes "drain_sourcetable_tail m = (True, m', events)"
  shows "session_run Waiting events = Some Over"
proof -
  obtain r n ev where d: "drain_sourcetable_lines m = (r, n, ev)" by (metis prod_cases3)
  obtain q k ev' where p: "push_sourcetable_line (cm_sourcetable_carry n) (n\<lparr>cm_sourcetable_carry := []\<rparr>) = (q, k, ev')"
    by (metis prod_cases3)
  show ?thesis
    using assms drain_lines_facts [OF d] push_line_result [OF p] drain_lines_session [of m n ev] push_line_session
    by (auto simp: drain_sourcetable_tail_def d p split: prod.splits bool.splits if_splits dest: closing_events)
qed

lemma drain_sourcetable_session:
  assumes "drain_sourcetable m = (r, m', events)" and "cm_state m = InSourcetable"
  shows "session_run Waiting events = Some (session_of m')"
proof -
  have "r \<Longrightarrow> session_run Waiting events = Some Over"
    using assms(1) by (auto simp: drain_sourcetable_def split: prod.splits sum.splits if_splits
        dest: drain_tail_session drain_lines_session)
  then show ?thesis using drain_sourcetable_facts [OF assms(1)] assms(2) by (cases r) (simp_all add: session_of_def)
qed

lemma handshake_session:
  "parse_status m = (r, m', events) \<Longrightarrow> cm_state m = AwaitingStatus \<Longrightarrow> session_run Waiting events = Some (session_of m')"
  "parse_headers m = (r, m', events) \<Longrightarrow> cm_state m = AwaitingHeaders \<Longrightarrow> session_run Waiting events = Some (session_of m')"
  by (auto simp: parse_status_def parse_headers_def take_line_or_reject_def reject_current_prefix_def reject_def Let_def session_of_def
      split: prod.splits option.splits if_splits http_classification.splits)

lemma drain_body_session:
  "drain_body m = (m', events) \<Longrightarrow> cm_state m = Streaming \<Longrightarrow> session_run Open events = Some (session_of m')"
  by (auto simp: drain_body_def Let_def session_of_def split: prod.splits sum.splits if_splits)

lemma drain_payload_session:
  "drain_payload m = (m', events) \<Longrightarrow> cm_state m = Streaming \<Longrightarrow> session_run Open events = Some (session_of m')"
  by (auto simp: drain_payload_def consume_pending_icy_blank_line_def session_of_def
      split: prod.splits bool.splits if_splits list.splits dest!: drain_body_session)

lemma client_step_session:
  "client_step m = Continue (m', events) \<or> client_step m = Return (m', events) \<Longrightarrow>
     session_run (session_of m) events = Some (session_of m')"
  using session_of_def [of m] handshake_session drain_sourcetable_session drain_payload_session
  by (auto simp: client_step_def split: ntrip_state.splits prod.splits if_splits) (simp add: session_of_def)

lemma client_loop_session:
  "client_loop m events = (m', all_events) \<Longrightarrow> session_run s events = Some (session_of m) \<Longrightarrow>
     session_run s all_events = Some (session_of m')"
proof (induction m events rule: client_loop.induct)
  case (1 m events)
  show ?case
  proof (cases "client_step m")
    case (Continue p)
    obtain n ev where p: "p = (n, ev)" by (cases p)
    have "session_run s (events @ ev) = Some (session_of n)"
      using client_step_session [of m n ev] 1(3) Continue p by (simp add: session_run_append)
    with "1.IH" [OF Continue p [symmetric]] 1(2) Continue p show ?thesis by (simp add: client_loop.simps [of m])
  next
    case (Return p)
    with client_step_session [of m "fst p" "snd p"] 1 show ?thesis
      by (cases p) (auto simp: client_loop.simps [of m] session_run_append)
  qed
qed

lemma client_push_session:
  "client_push bytes m = (m', events) \<Longrightarrow> session_run (session_of m) events = Some (session_of m')"
  using client_loop_session [of "m\<lparr>cm_carry := cm_carry m @ bytes\<rparr>" "[]" m' events "session_of m"]
  by (auto simp: client_push_def session_of_def split: if_splits)

lemma client_finish_session:
  assumes "client_finish m = (m', events)"
  shows "session_run (session_of m) events = Some (session_of m')"
proof (cases "cm_state m = InSourcetable \<and> sourcetable_buffer m \<noteq> []")
  case True
  obtain r n ev where p: "push_sourcetable_line (sourcetable_buffer m) (set_sourcetable_buffer [] m) = (r, n, ev)"
    by (metis prod_cases3)
  have "cm_state (set_sourcetable_buffer [] m) = cm_state m" by (simp add: set_sourcetable_buffer_def)
  with True assms push_line_result [OF p] push_line_session [of _ _ n ev] p show ?thesis
    by (cases r) (auto simp: client_finish_def session_of_def split: prod.splits dest!: finish_ends)
next
  case False
  with assms show ?thesis
    by (auto simp: client_finish_def session_of_def split: prod.splits if_splits dest!: finish_ends)
qed

end
