(* ===== verification/Ntrip_Fragments.thy ===== *)
theory Ntrip_Fragments
  imports Ntrip_Machine
begin

text \<open>
  Fragments of the input of the client of \<^verbatim>\<open>ntrip/machine.rs\<close>: pushing two parts of the input is
  pushing the whole, for every state, plain and chunked, up to how the payload bytes are cut.
\<close>

section \<open>Fragments\<close>

fun client_pushes :: "u8 list list \<Rightarrow> ntrip_client \<Rightarrow> ntrip_client \<times> ntrip_event list" where
  "client_pushes [] m = (m, [])"
| "client_pushes (f # fs) m =
     (case client_push f m of (m1, e1) \<Rightarrow> (case client_pushes fs m1 of (m2, e2) \<Rightarrow> (m2, e1 @ e2)))"

lemma client_pushes_session:
  "client_pushes fs m = (m', events) \<Longrightarrow> session_run (session_of m) events = Some (session_of m')"
proof (induction fs arbitrary: m events)
  case (Cons f fs)
  then obtain m1 e1 e2 where f: "client_push f m = (m1, e1)" and fs: "client_pushes fs m1 = (m', e2)" and "events = e1 @ e2"
    by (auto split: prod.splits)
  with client_push_session [OF f] Cons.IH [OF fs] show ?case by (simp add: session_run_append)
qed simp

text \<open>The bytes of the payloads of a run, and the other events.\<close>

fun payloads :: "ntrip_event list \<Rightarrow> u8 list" where
  "payloads [] = []"
| "payloads (Payload bytes # es) = bytes @ payloads es"
| "payloads (e # es) = payloads es"

definition is_payload :: "ntrip_event \<Rightarrow> bool" where
  "is_payload e = (case e of Payload _ \<Rightarrow> True | _ \<Rightarrow> False)"

definition notices :: "ntrip_event list \<Rightarrow> ntrip_event list" where
  "notices events = filter (\<lambda>e. \<not> is_payload e) events"

lemma payloads_append [simp]: "payloads (a @ b) = payloads a @ payloads b"
  by (induction a rule: payloads.induct) simp_all

lemma notices_simps [simp]:
  "notices [] = []" "notices (a @ b) = notices a @ notices b" "notices (Payload bytes # es) = notices es"
  "notices (Connected h # es) = Connected h # notices es" "notices (StreamEnded # es) = StreamEnded # notices es"
  "notices (StreamCorrupted d # es) = StreamCorrupted d # notices es"
  "notices (Rejected r # es) = Rejected r # notices es" "notices (EvSourcetable t # es) = EvSourcetable t # notices es"
  by (simp_all add: notices_def is_payload_def)

definition same_events :: "ntrip_event list \<Rightarrow> ntrip_event list \<Rightarrow> bool" where
  "same_events a b \<longleftrightarrow> payloads a = payloads b \<and> notices a = notices b"

lemma same_events_refl [simp]: "same_events a a"
  by (simp add: same_events_def)

definition corrupted :: "ntrip_event list \<Rightarrow> bool" where
  "corrupted events = list_ex (\<lambda>e. case e of StreamCorrupted _ \<Rightarrow> True | _ \<Rightarrow> False) events"

lemma corrupted_simps [simp]:
  "\<not> corrupted []" "corrupted (a @ b) \<longleftrightarrow> corrupted a \<or> corrupted b" "corrupted (StreamCorrupted d # es)"
  "corrupted (Payload bytes # es) \<longleftrightarrow> corrupted es" "corrupted (Connected h # es) \<longleftrightarrow> corrupted es"
  "corrupted (StreamEnded # es) \<longleftrightarrow> corrupted es" "corrupted (Rejected r # es) \<longleftrightarrow> corrupted es"
  "corrupted (EvSourcetable t # es) \<longleftrightarrow> corrupted es"
  by (simp_all add: corrupted_def)

text \<open>More input behind the carried bytes; two clients that differ in what a finished decoder keeps.\<close>

definition feed_client :: "u8 list \<Rightarrow> ntrip_client \<Rightarrow> ntrip_client" where
  "feed_client later m = m\<lparr>cm_carry := cm_carry m @ later\<rparr>"

definition alike_client :: "ntrip_client \<Rightarrow> ntrip_client \<Rightarrow> bool" where
  "alike_client m m' \<longleftrightarrow> alike (cm_chunk_decoder m) (cm_chunk_decoder m') \<and> m\<lparr>cm_chunk_decoder := cm_chunk_decoder m'\<rparr> = m'"

lemma alike_client_refl [simp]: "alike_client m m"
  by (simp add: alike_client_def alike_def)

text \<open>
  A run on the whole input against two runs on its parts: the same events and state, or corruption
  in both.
\<close>

definition resumed ::
  "ntrip_client \<Rightarrow> ntrip_event list \<Rightarrow> ntrip_event list \<Rightarrow> ntrip_client \<Rightarrow> ntrip_event list \<Rightarrow> bool" where
  "resumed m' e e1 m2 e2 \<longleftrightarrow>
     (if corrupted e2 then corrupted e else same_events e (e1 @ e2) \<and> alike_client m' m2)"

lemma resumed_refl [simp]: "resumed m e [] m e"
  by (simp add: resumed_def)

lemma resumed_prepend: "resumed m' e e1 m2 e2 \<Longrightarrow> resumed m' (ev @ e) (ev @ e1) m2 e2"
  by (auto simp: resumed_def same_events_def split: if_splits)

lemma feed_client_simps [simp]:
  "cm_carry (feed_client later m) = cm_carry m @ later" "cm_state (feed_client later m) = cm_state m" "feed_client [] m = m"
  "cm_chunked (feed_client later m) = cm_chunked m" "cm_pending_icy_blank_line (feed_client later m) = cm_pending_icy_blank_line m"
  "cm_chunk_decoder (feed_client later m) = cm_chunk_decoder m" "cm_sourcetable_chunked (feed_client later m) = cm_sourcetable_chunked m"
  "cm_sourcetable_carry (feed_client later m) = cm_sourcetable_carry m" "cm_http_status (feed_client later m) = cm_http_status m"
  "cm_http_reason (feed_client later m) = cm_http_reason m" "cm_headers (feed_client later m) = cm_headers m"
  "cm_header_bytes (feed_client later m) = cm_header_bytes m" "cm_status_version (feed_client later m) = cm_status_version m"
  "feed_client later (feed_client later' m) = feed_client (later' @ later) m"
  by (simp_all add: feed_client_def)

lemma feed_client_carry [simp]: "(feed_client later m)\<lparr>cm_carry := c\<rparr> = m\<lparr>cm_carry := c\<rparr>" "feed_client later (m\<lparr>cm_carry := c\<rparr>) = m\<lparr>cm_carry := c @ later\<rparr>"
  by (simp_all add: feed_client_def)

lemma feed_client_updates [simp]:
  "feed_client later (m\<lparr>cm_state := x0\<rparr>) = (feed_client later m)\<lparr>cm_state := x0\<rparr>"
  "feed_client later (m\<lparr>cm_status_version := x1\<rparr>) = (feed_client later m)\<lparr>cm_status_version := x1\<rparr>"
  "feed_client later (m\<lparr>cm_chunked := x2\<rparr>) = (feed_client later m)\<lparr>cm_chunked := x2\<rparr>"
  "feed_client later (m\<lparr>cm_pending_icy_blank_line := x3\<rparr>) = (feed_client later m)\<lparr>cm_pending_icy_blank_line := x3\<rparr>"
  "feed_client later (m\<lparr>cm_headers := x4\<rparr>) = (feed_client later m)\<lparr>cm_headers := x4\<rparr>"
  "feed_client later (m\<lparr>cm_header_bytes := x5\<rparr>) = (feed_client later m)\<lparr>cm_header_bytes := x5\<rparr>"
  "feed_client later (m\<lparr>cm_http_status := x6\<rparr>) = (feed_client later m)\<lparr>cm_http_status := x6\<rparr>"
  "feed_client later (m\<lparr>cm_http_reason := x7\<rparr>) = (feed_client later m)\<lparr>cm_http_reason := x7\<rparr>"
  "feed_client later (m\<lparr>cm_sourcetable_chunked := x8\<rparr>) = (feed_client later m)\<lparr>cm_sourcetable_chunked := x8\<rparr>"
  "feed_client later (m\<lparr>cm_sourcetable_records_started := x9\<rparr>) = (feed_client later m)\<lparr>cm_sourcetable_records_started := x9\<rparr>"
  "feed_client later (m\<lparr>cm_chunk_decoder := x10\<rparr>) = (feed_client later m)\<lparr>cm_chunk_decoder := x10\<rparr>"
  "feed_client later (m\<lparr>cm_sourcetable_text := x11\<rparr>) = (feed_client later m)\<lparr>cm_sourcetable_text := x11\<rparr>"
  "feed_client later (m\<lparr>cm_sourcetable_carry := x12\<rparr>) = (feed_client later m)\<lparr>cm_sourcetable_carry := x12\<rparr>"
  by (simp_all add: feed_client_def)

subsection \<open>The handshake\<close>

lemma take_line_feed:
  "take_line_or_reject m = (Some line, m', events) \<Longrightarrow> take_line_or_reject (feed_client later m) = (Some line, feed_client later m', [])"
  by (auto simp: take_line_or_reject_def iter_position_append split: option.splits if_splits dest: iter_position_less)

lemma take_line_waits:
  "take_line_or_reject m = (None, m', events) \<Longrightarrow> cm_state m' \<noteq> Closed \<Longrightarrow> m' = m \<and> events = []"
  by (auto simp: take_line_or_reject_def reject_current_prefix_def reject_def split: option.splits if_splits)

lemma handshake_feed:
  "parse_status m = (True, m', events) \<Longrightarrow> cm_state m' \<noteq> Closed \<Longrightarrow> parse_status (feed_client later m) = (True, feed_client later m', events)"
  "parse_headers m = (True, m', events) \<Longrightarrow> cm_state m' \<noteq> Closed \<Longrightarrow> parse_headers (feed_client later m) = (True, feed_client later m', events)"
proof -
  obtain r n ev where t: "take_line_or_reject m = (r, n, ev)" by (metis prod_cases3)
  { assume p: "parse_status m = (True, m', events)" and c: "cm_state m' \<noteq> Closed"
    then obtain line where "r = Some line" by (cases r) (auto simp: parse_status_def t)
    with t have t: "take_line_or_reject m = (Some line, n, ev)" by simp
    from p c show "parse_status (feed_client later m) = (True, feed_client later m', events)"
      by (auto simp: parse_status_def t take_line_feed [OF t] reject_def Let_def split: option.splits if_splits) }
  { assume p: "parse_headers m = (True, m', events)" and c: "cm_state m' \<noteq> Closed"
    then obtain line where "r = Some line" by (cases r) (auto simp: parse_headers_def t)
    with t have t: "take_line_or_reject m = (Some line, n, ev)" by simp
    from p c show "parse_headers (feed_client later m) = (True, feed_client later m', events)"
      by (auto simp: parse_headers_def t take_line_feed [OF t] reject_def reject_current_prefix_def Let_def
          split: option.splits if_splits http_classification.splits) }
qed

lemma handshake_waits:
  "parse_status m = (False, m', events) \<Longrightarrow> cm_state m' \<noteq> Closed \<Longrightarrow> m' = m \<and> events = []"
  "parse_headers m = (False, m', events) \<Longrightarrow> cm_state m' \<noteq> Closed \<Longrightarrow> m' = m \<and> events = []"
  by (auto simp: parse_status_def parse_headers_def Let_def split: prod.splits option.splits if_splits dest: take_line_waits)

subsection \<open>Data\<close>

lemma alike_finished_iff: "alike d d' \<Longrightarrow> cd_finished d \<longleftrightarrow> cd_finished d'"
  by (metis alike_def alike_finished)

lemma drain_body_feed:
  assumes first: "drain_body m = (m1, e1)" and open1: "cm_state m1 \<noteq> Closed" and "cm_state m = Streaming"
    and then_: "drain_body (feed_client later m1) = (m2, e2)"
  shows "\<exists>m' e. drain_body (feed_client later m) = (m', e) \<and> resumed m' e e1 m2 e2"
proof (cases "cm_carry m = [] \<or> later = [] \<or> \<not> cm_chunked m")
  case True
  moreover have "cm_carry m1 = []" using first by (auto simp: drain_body_def Let_def split: prod.splits sum.splits if_splits)
  ultimately show ?thesis using first then_
    by (auto simp: drain_body_def Let_def same_events_def resumed_def split: if_splits)
next
  case False
  then obtain o1 d1 where p1: "chunk_push (cm_carry m) (cm_chunk_decoder m) = (Inr o1, d1)" and f1: "\<not> cd_finished d1"
    and m1: "m1 = m\<lparr>cm_carry := [], cm_chunk_decoder := d1\<rparr>" and e1: "e1 = (if o1 \<noteq> [] then [Payload o1] else [])"
    using first open1 by (auto simp: drain_body_def Let_def split: prod.splits sum.splits if_splits)
  obtain r2 d2 where p2: "chunk_push later d1 = (r2, d2)" by fastforce
  show ?thesis
  proof (cases r2)
    case (Inl err)
    then have "chunk_push (cm_carry m @ later) (cm_chunk_decoder m) = (Inl err, d2)"
      using chunk_push_append [OF p1, of later] p2 by simp
    with then_ False p2 Inl show ?thesis by (auto simp: drain_body_def Let_def m1 resumed_def)
  next
    case (Inr o2)
    then obtain d where p: "chunk_push (cm_carry m @ later) (cm_chunk_decoder m) = (Inr (o1 @ o2), d)" and d: "alike d d2"
      using chunk_push_append [OF p1, of later] p2 by auto
    from then_ False show ?thesis
      by (auto simp: drain_body_def Let_def m1 p2 Inr p e1 alike_finished_iff [OF d] same_events_def alike_client_def d
          resumed_def split: if_splits)
  qed
qed

lemma consume_feed:
  "consume_pending_icy_blank_line m = (True, m1) \<Longrightarrow> consume_pending_icy_blank_line (feed_client later m) = (True, feed_client later m1)"
  by (auto simp: consume_pending_icy_blank_line_def feed_client_def split: list.splits if_splits)

lemma consume_facts:
  "consume_pending_icy_blank_line m = (r, m1) \<Longrightarrow>
     cm_state m1 = cm_state m \<and> (if r then \<not> cm_pending_icy_blank_line m1 else m1 = m)"
  by (auto simp: consume_pending_icy_blank_line_def split: list.splits if_splits)

lemma drain_body_keeps: "drain_body m = (m1, e1) \<Longrightarrow> cm_pending_icy_blank_line m1 = cm_pending_icy_blank_line m"
  by (auto simp: drain_body_def Let_def split: prod.splits sum.splits if_splits)

lemma drain_payload_feed:
  assumes first: "drain_payload m = (m1, e1)" and open1: "cm_state m1 \<noteq> Closed" and st: "cm_state m = Streaming"
    and then_: "drain_payload (feed_client later m1) = (m2, e2)"
  shows "\<exists>m' e. drain_payload (feed_client later m) = (m', e) \<and> resumed m' e e1 m2 e2"
proof (cases "cm_pending_icy_blank_line m")
  case False
  then have "drain_body m = (m1, e1)" using first by (simp add: drain_payload_def)
  with drain_body_feed [OF this open1 st, of later m2 e2] drain_body_keeps [OF this] then_ False show ?thesis
    by (simp add: drain_payload_def)
next
  case True
  obtain r n where c: "consume_pending_icy_blank_line m = (r, n)" by fastforce
  show ?thesis
  proof (cases r)
    case False
    with c True first consume_facts [OF c] have "m1 = m" "e1 = []" by (auto simp: drain_payload_def)
    with then_ show ?thesis by auto
  next
    case r: True
    with c True first have b: "drain_body n = (m1, e1)" by (simp add: drain_payload_def)
    have n: "cm_state n = Streaming" "\<not> cm_pending_icy_blank_line n" using consume_facts [OF c] st r by auto
    from drain_body_keeps [OF b] n(2) then_ have "drain_body (feed_client later m1) = (m2, e2)" by (simp add: drain_payload_def)
    from drain_body_feed [OF b open1 n(1) this] True consume_feed [of m n later] c r show ?thesis
      by (simp add: drain_payload_def)
  qed
qed

subsection \<open>Source tables\<close>

definition grow :: "u8 list \<Rightarrow> ntrip_client \<Rightarrow> ntrip_client" where
  "grow later m = set_sourcetable_buffer (sourcetable_buffer m @ later) m"

lemma grow_simps [simp]:
  "sourcetable_buffer (grow later m) = sourcetable_buffer m @ later" "cm_sourcetable_chunked (grow later m) = cm_sourcetable_chunked m"
  "cm_state (grow later m) = cm_state m" "cm_chunk_decoder (grow later m) = cm_chunk_decoder m"
  "set_sourcetable_buffer b (grow later m) = set_sourcetable_buffer b m" "grow [] m = m"
  by (simp_all add: grow_def set_sourcetable_buffer_def sourcetable_buffer_def)

lemma grow_text [simp]:
  "cm_sourcetable_text (grow later m) = cm_sourcetable_text m"
  "cm_sourcetable_records_started (grow later m) = cm_sourcetable_records_started m"
  "grow later (m\<lparr>cm_sourcetable_text := t\<rparr>) = (grow later m)\<lparr>cm_sourcetable_text := t\<rparr>"
  "grow later (m\<lparr>cm_sourcetable_records_started := s\<rparr>) = (grow later m)\<lparr>cm_sourcetable_records_started := s\<rparr>"
  by (simp_all add: grow_def set_sourcetable_buffer_def sourcetable_buffer_def)

lemma push_line_False_grow:
  "push_sourcetable_line line m = (False, m', events) \<Longrightarrow>
     push_sourcetable_line line (grow later m) = (False, grow later m', events)"
  unfolding push_sourcetable_line_def Let_def by (simp split: if_split_asm) auto

lemma set_buffer_grow: "set_sourcetable_buffer (b @ later) m = grow later (set_sourcetable_buffer b m)"
  by (simp add: grow_def set_sourcetable_buffer_def sourcetable_buffer_def)

lemma sourcetable_step_grow:
  "sourcetable_step m = Continue m' \<Longrightarrow> sourcetable_step (grow later m) = Continue (grow later m')"
  by (auto simp: sourcetable_step_def take_line_from_def iter_position_append set_buffer_grow push_line_False_grow
      split: option.splits prod.splits bool.splits if_splits dest: iter_position_less)

lemma drain_lines_grow:
  "drain_sourcetable_lines m = (False, m1, events) \<Longrightarrow>
     drain_sourcetable_lines (grow later m) = drain_sourcetable_lines (grow later m1)"
proof (induction m rule: drain_sourcetable_lines.induct)
  case (1 m)
  show ?case
  proof (cases "sourcetable_step m")
    case (Continue n)
    from 1(2) Continue have "drain_sourcetable_lines n = (False, m1, events)" by (simp add: drain_sourcetable_lines.simps [of m])
    from 1(1) [OF Continue this] sourcetable_step_grow [OF Continue, of later] show ?thesis
      by (simp add: drain_sourcetable_lines.simps [of "grow later m"])
  next
    case (Return q)
    with 1(2) have "m1 = m"
      by (auto simp: drain_sourcetable_lines.simps [of m] sourcetable_step_def reject_current_prefix_def reject_def
          split: option.splits prod.splits bool.splits if_splits)
    then show ?thesis by simp
  qed
qed

definition with_decoder :: "chunked_decoder \<Rightarrow> ntrip_client \<Rightarrow> ntrip_client" where
  "with_decoder d m = m\<lparr>cm_chunk_decoder := d\<rparr>"

lemma with_decoder_simps [simp]:
  "cm_chunk_decoder (with_decoder d m) = d" "cm_carry (with_decoder d m) = cm_carry m" "cm_state (with_decoder d m) = cm_state m"
  "cm_sourcetable_carry (with_decoder d m) = cm_sourcetable_carry m" "cm_sourcetable_text (with_decoder d m) = cm_sourcetable_text m"
  "cm_sourcetable_chunked (with_decoder d m) = cm_sourcetable_chunked m"
  "cm_sourcetable_records_started (with_decoder d m) = cm_sourcetable_records_started m"
  "with_decoder d (with_decoder e m) = with_decoder d m" "with_decoder (cm_chunk_decoder m) m = m"
  "sourcetable_buffer (with_decoder d m) = sourcetable_buffer m"
  "(with_decoder d m)\<lparr>cm_chunk_decoder := e\<rparr> = with_decoder e m"
  by (simp_all add: with_decoder_def sourcetable_buffer_def)

lemma with_decoder_updates [simp]:
  "with_decoder d (m\<lparr>cm_state := s\<rparr>) = (with_decoder d m)\<lparr>cm_state := s\<rparr>"
  "with_decoder d (m\<lparr>cm_carry := c\<rparr>) = (with_decoder d m)\<lparr>cm_carry := c\<rparr>"
  "with_decoder d (m\<lparr>cm_sourcetable_carry := c\<rparr>) = (with_decoder d m)\<lparr>cm_sourcetable_carry := c\<rparr>"
  "with_decoder d (m\<lparr>cm_sourcetable_text := t\<rparr>) = (with_decoder d m)\<lparr>cm_sourcetable_text := t\<rparr>"
  "with_decoder d (m\<lparr>cm_sourcetable_records_started := b\<rparr>) = (with_decoder d m)\<lparr>cm_sourcetable_records_started := b\<rparr>"
  "with_decoder d (set_sourcetable_buffer c m) = set_sourcetable_buffer c (with_decoder d m)"
  "with_decoder d (grow c m) = grow c (with_decoder d m)"
  by (simp_all add: with_decoder_def set_sourcetable_buffer_def grow_def sourcetable_buffer_def)

lemma closing_decoder:
  "reject_current_prefix (with_decoder d m) = map_prod (with_decoder d) (\<lambda>e. e) (reject_current_prefix m)"
  "finish_sourcetable (with_decoder d m) = map_prod (with_decoder d) (\<lambda>e. e) (finish_sourcetable m)"
  by (simp_all add: reject_current_prefix_def reject_def finish_sourcetable_def)

definition decoded :: "chunked_decoder \<Rightarrow> bool \<times> ntrip_client \<times> ntrip_event list \<Rightarrow> bool \<times> ntrip_client \<times> ntrip_event list" where
  "decoded d result = (case result of (r, m, events) \<Rightarrow> (r, with_decoder d m, events))"

lemma push_line_decoder:
  "push_sourcetable_line line (with_decoder d m) = decoded d (push_sourcetable_line line m)"
  unfolding push_sourcetable_line_def Let_def
  by (simp add: decoded_def closing_decoder [of d, symmetric] map_prod_def split: prod.splits)
    (auto simp: closing_decoder reject_current_prefix_def reject_def finish_sourcetable_def)

lemma sourcetable_step_decoder:
  "sourcetable_step (with_decoder d m)
     = (case sourcetable_step m of Continue m' \<Rightarrow> Continue (with_decoder d m') | Return result \<Rightarrow> Return (decoded d result))"
  by (auto simp: sourcetable_step_def push_line_decoder decoded_def closing_decoder map_prod_def
      simp flip: with_decoder_updates split: option.splits prod.splits bool.splits)

lemma drain_lines_decoder: "drain_sourcetable_lines (with_decoder d m) = decoded d (drain_sourcetable_lines m)"
proof (induction m rule: drain_sourcetable_lines.induct)
  case (1 m)
  show ?case
    by (cases "sourcetable_step m")
      (simp_all add: drain_sourcetable_lines.simps [of m] drain_sourcetable_lines.simps [of "with_decoder d m"] sourcetable_step_decoder 1)
qed

lemma drain_tail_decoder:
  assumes "alike d e"
  shows "drain_sourcetable_tail (with_decoder d m) = decoded d (drain_sourcetable_tail (with_decoder e m))"
  using alike_finished_iff [OF assms]
  by (auto simp: drain_sourcetable_tail_def drain_lines_decoder decoded_def push_line_decoder finish_sourcetable_def
      simp flip: with_decoder_updates split: prod.splits bool.splits)

lemma drain_tail_cong:
  "drain_sourcetable_lines m = drain_sourcetable_lines m' \<Longrightarrow> drain_sourcetable_tail m = drain_sourcetable_tail m'"
  by (simp add: drain_sourcetable_tail_def)

lemma drain_tail_waits:
  assumes "drain_sourcetable_tail m = (False, m1, events)"
  shows "drain_sourcetable_lines m = (False, m1, []) \<and> \<not> cd_finished (cm_chunk_decoder m1) \<and> events = []"
  using assms drain_lines_facts [of m False m1]
  by (auto simp: drain_sourcetable_tail_def split: prod.splits bool.splits if_splits)

lemma drain_lines_keep:
  assumes "drain_sourcetable_lines m = (r, m1, events)"
  shows "cm_chunk_decoder m1 = cm_chunk_decoder m" and "cm_sourcetable_chunked m1 = cm_sourcetable_chunked m"
    and "cm_sourcetable_chunked m \<Longrightarrow> cm_carry m1 = cm_carry m"
proof -
  show "cm_chunk_decoder m1 = cm_chunk_decoder m"
    using drain_lines_decoder [of "cm_chunk_decoder m" m] assms with_decoder_simps(1,9) by (metis decoded_def prod.case prod.inject)
  have "cm_sourcetable_chunked m1 = cm_sourcetable_chunked m \<and> (cm_sourcetable_chunked m \<longrightarrow> cm_carry m1 = cm_carry m)"
    using assms
  proof (induction m rule: drain_sourcetable_lines.induct)
    case (1 m)
    show ?case
    proof (cases "sourcetable_step m")
      case (Continue n)
      then have "cm_sourcetable_chunked n = cm_sourcetable_chunked m \<and> (cm_sourcetable_chunked m \<longrightarrow> cm_carry n = cm_carry m)"
        by (auto simp: sourcetable_step_def set_sourcetable_buffer_def
            split: option.splits prod.splits bool.splits if_splits dest!: push_line_keeps)
      with 1(1) [OF Continue] 1(2) Continue show ?thesis by (simp add: drain_sourcetable_lines.simps [of m])
    next
      case (Return q)
      with 1(2) show ?thesis
        by (auto simp: drain_sourcetable_lines.simps [of m] sourcetable_step_def reject_current_prefix_def reject_def
            set_sourcetable_buffer_def split: option.splits prod.splits bool.splits if_splits dest!: push_line_keeps)
    qed
  qed
  then show "cm_sourcetable_chunked m1 = cm_sourcetable_chunked m" and "cm_sourcetable_chunked m \<Longrightarrow> cm_carry m1 = cm_carry m"
    by simp_all
qed

lemma alike_decoded:
  assumes "alike d e" and "drain_sourcetable_tail (with_decoder e m) = (r, m2, events)"
  shows "\<exists>m'. drain_sourcetable_tail (with_decoder d m) = (r, m', events) \<and> alike_client m' m2"
proof -
  have "alike e e" by (simp add: alike_def)
  from drain_tail_decoder [OF this, of m] assms(2) have m2: "with_decoder e m2 = m2"
    by (simp add: decoded_def)
  have "cm_chunk_decoder m2 = e" by (subst m2 [symmetric]) simp
  then have "alike_client (with_decoder d m2) m2"
    using assms(1) m2 by (simp add: alike_client_def)
  then show ?thesis using drain_tail_decoder [OF assms(1), of m] assms(2) by (auto simp: decoded_def)
qed

lemma drain_chunked:
  assumes "cm_sourcetable_chunked m"
  shows "drain_sourcetable m =
    (if cm_carry m = [] then drain_sourcetable_tail m
     else case chunk_push (cm_carry m) (cm_chunk_decoder m) of
         (Inr out, d) \<Rightarrow> drain_sourcetable_tail (with_decoder d (grow out (m\<lparr>cm_carry := []\<rparr>)))
       | (Inl err, d) \<Rightarrow> (True, m\<lparr>cm_carry := [], cm_chunk_decoder := d, cm_state := Closed\<rparr>,
            [StreamCorrupted (error_text err)]))"
proof -
  have "m\<lparr>cm_carry := [], cm_chunk_decoder := d, cm_sourcetable_carry := cm_sourcetable_carry m @ out\<rparr>
      = with_decoder d (grow out (m\<lparr>cm_carry := []\<rparr>))" for d out
    using assms by (simp add: with_decoder_def grow_def set_sourcetable_buffer_def sourcetable_buffer_def)
  with assms show ?thesis by (auto simp: drain_sourcetable_def split: prod.splits sum.splits)
qed

lemma grow_grow [simp]: "grow b (grow a m) = grow (a @ b) m"
  by (simp add: grow_def set_sourcetable_buffer_def sourcetable_buffer_def)

lemma no_carry: "cm_carry m = [] \<Longrightarrow> m\<lparr>cm_carry := []\<rparr> = m"
  by simp

lemma drain_sourcetable_feed:
  assumes first: "drain_sourcetable m = (False, m1, e1)"
    and then_: "drain_sourcetable (feed_client later m1) = (r, m2, e2)"
  shows "\<exists>m'. drain_sourcetable (feed_client later m) = (r, m', e2) \<and> resumed m' e2 [] m2 e2"
proof (cases "cm_sourcetable_chunked m")
  case False
  then have f: "drain_sourcetable_lines m = (False, m1, e1)" using first by (simp add: drain_sourcetable_def)
  have nc: "\<not> cm_sourcetable_chunked m1" using drain_lines_keep(2) [OF f] False by simp
  have "feed_client later m = grow later m" "feed_client later m1 = grow later m1"
    using False nc by (simp_all add: grow_def feed_client_def set_sourcetable_buffer_def sourcetable_buffer_def)
  with drain_lines_grow [OF f, of later] then_ nc False show ?thesis
    by (auto simp: drain_sourcetable_def)
next
  case True
  define c where "c = cm_carry m"
  obtain o1 d1 where p1: "c = [] \<and> o1 = [] \<and> d1 = cm_chunk_decoder m \<or> chunk_push c (cm_chunk_decoder m) = (Inr o1, d1)"
    and tail1: "drain_sourcetable_tail (with_decoder d1 (grow o1 (m\<lparr>cm_carry := []\<rparr>))) = (False, m1, e1)"
    using first True
    by (cases "c = []") (force simp: drain_chunked c_def no_carry split: prod.splits sum.splits)+
  define n where "n = with_decoder d1 (grow o1 (m\<lparr>cm_carry := []\<rparr>))"
  have lines1: "drain_sourcetable_lines n = (False, m1, [])" and f1: "\<not> cd_finished (cm_chunk_decoder m1)" and "e1 = []"
    using drain_tail_waits [OF tail1 [folded n_def]] by simp_all
  have keep: "cm_chunk_decoder m1 = d1" "cm_carry m1 = []" "cm_sourcetable_chunked m1"
    using drain_lines_keep [OF lines1] True by (simp_all add: n_def grow_def set_sourcetable_buffer_def)
  show ?thesis
  proof (cases "later = []")
    case l: True
    have "drain_sourcetable_lines m1 = (False, m1, [])" using drain_lines_grow [OF lines1, of "[]"] lines1 by simp
    with then_ keep f1 l first \<open>e1 = []\<close> show ?thesis
      by (auto simp: drain_sourcetable_def drain_sourcetable_tail_def)
  next
    case l: False
    obtain r2 d2 where p2: "chunk_push later d1 = (r2, d2)" by fastforce
    show ?thesis
    proof (cases r2)
      case (Inl err)
      then have "chunk_push (c @ later) (cm_chunk_decoder m) = (Inl err, d2)"
        using p1 p2 chunk_push_append [of c "cm_chunk_decoder m" o1 d1 later] by auto
      with then_ keep l True p2 Inl show ?thesis by (auto simp: drain_chunked c_def resumed_def)
    next
      case (Inr o2)
      then have tail2: "drain_sourcetable_tail (with_decoder d2 (grow o2 m1)) = (r, m2, e2)"
        using then_ keep l p2 by (auto simp: drain_chunked no_carry split: prod.splits sum.splits)
      obtain d where p: "chunk_push (c @ later) (cm_chunk_decoder m) = (Inr (o1 @ o2), d)" and d: "alike d d2"
        using p1 p2 Inr chunk_push_append [of c "cm_chunk_decoder m" o1 d1 later] by (auto simp: alike_def)
      have "drain_sourcetable_tail (with_decoder d2 (grow o2 n)) = (r, m2, e2)"
        using drain_lines_grow [OF lines1, of o2] tail2 drain_tail_cong
        by (metis drain_lines_decoder)
      from alike_decoded [OF d this] show ?thesis
        using True l p by (auto simp: drain_chunked c_def n_def resumed_def)
    qed
  qed
qed

subsection \<open>The loop\<close>

lemma client_loop_events: "client_loop m events = (fst (client_loop m []), events @ snd (client_loop m []))"
proof (induction m arbitrary: events rule: measure_induct_rule [of client_measure])
  case (less m)
  show ?case
  proof (cases "client_step m")
    case (Continue p)
    obtain n ev where p: "p = (n, ev)" by (cases p)
    note ih = less [OF client_step_decreases [OF Continue [unfolded p]]]
    show ?thesis
      using ih [of "events @ ev"] ih [of ev] Continue p
      by (simp add: client_loop.simps [of m events] client_loop.simps [of m "[]"])
  next
    case (Return p)
    then show ?thesis by (cases p) (simp add: client_loop.simps [of m])
  qed
qed

lemma client_loop_Continue:
  "client_step m = Continue (n, ev) \<Longrightarrow> client_loop m [] = (m1, e1) \<longleftrightarrow> (\<exists>e. client_loop n [] = (m1, e) \<and> e1 = ev @ e)"
  using client_loop_events [of n ev] by (cases "client_loop n []") (auto simp: client_loop.simps [of m])

lemma client_loop_Return: "client_step m = Return (m1, e1) \<Longrightarrow> client_loop m [] = (m1, e1)"
  by (simp add: client_loop.simps [of m])

lemma client_loop_Closed: "cm_state m = Closed \<Longrightarrow> client_loop m [] = (m, [])"
  by (simp add: client_loop.simps [of m] client_step_def)

lemma step_Continue_feed:
  assumes "client_step m = Continue (n, events)" and "cm_state n \<noteq> Closed"
  shows "client_step (feed_client later m) = Continue (feed_client later n, events)"
  using assms handshake_feed drain_sourcetable_facts [of m True n events]
  by (cases "cm_state m") (auto simp: client_step_def split: prod.splits if_splits)

lemma drain_payload_state: "drain_payload m = (m1, e1) \<Longrightarrow> cm_state m1 = Closed \<or> cm_state m1 = cm_state m"
  by (auto simp: drain_payload_def drain_body_def Let_def split: prod.splits bool.splits sum.splits if_splits
      dest!: consume_facts)

lemma step_Return_feed:
  assumes first: "client_step m = Return (m1, e1)" and open1: "cm_state m1 \<noteq> Closed"
    and then_: "client_loop (feed_client later m1) [] = (m2, e2)"
  shows "\<exists>m' e. client_loop (feed_client later m) [] = (m', e) \<and> resumed m' e e1 m2 e2"
proof (cases "cm_state m")
  case Streaming
  have "drain_payload m = (m1, e1)" using first Streaming by (simp add: client_step_def)
  moreover from drain_payload_state [OF this] Streaming open1 have "cm_state m1 = Streaming" by simp
  ultimately show ?thesis
    using drain_payload_feed [of m m1 e1 later m2 e2] open1 Streaming then_
    by (simp add: client_loop.simps [of "feed_client later m1"] client_loop.simps [of "feed_client later m"] client_step_def)
next
  case InSourcetable
  then have f: "drain_sourcetable m = (False, m1, e1)" using first by (auto simp: client_step_def split: prod.splits if_splits)
  with drain_sourcetable_facts [OF f] InSourcetable have m1: "cm_state m1 = InSourcetable" "e1 = []" by auto
  obtain r k ev where k: "drain_sourcetable (feed_client later m1) = (r, k, ev)" by (metis prod_cases3)
  have "k = m2 \<and> ev = e2"
    using then_ drain_sourcetable_facts [OF k] m1 k
    by (cases r) (auto simp: client_loop.simps [of "feed_client later m1"] client_step_def client_loop_Closed client_loop_events [of k ev])
  with drain_sourcetable_feed [OF f k] obtain m' where
    "drain_sourcetable (feed_client later m) = (r, m', e2)" "resumed m' e2 [] m2 e2" by auto
  moreover from this(1) have "cm_state m' = Closed" if r using drain_sourcetable_facts that by fastforce
  ultimately show ?thesis
    using InSourcetable m1
    by (cases r) (auto simp: client_loop.simps [of "feed_client later m"] client_step_def client_loop_Closed client_loop_events [of m' e2])
next
  case AwaitingStatus
  with first open1 have "m1 = m" "e1 = []" using handshake_waits(1) [of m m1 e1]
    by (auto simp: client_step_def split: prod.splits if_splits)
  with then_ show ?thesis by auto
next
  case AwaitingHeaders
  with first open1 have "m1 = m" "e1 = []" using handshake_waits(2) [of m m1 e1]
    by (auto simp: client_step_def split: prod.splits if_splits)
  with then_ show ?thesis by auto
qed (use first open1 in \<open>simp_all add: client_step_def\<close>)

lemma client_loop_feed:
  "client_loop m [] = (m1, e1) \<Longrightarrow> cm_state m1 \<noteq> Closed \<Longrightarrow>
     client_loop (feed_client later m1) [] = (m2, e2) \<Longrightarrow>
     \<exists>m' e. client_loop (feed_client later m) [] = (m', e) \<and> resumed m' e e1 m2 e2"
proof (induction m arbitrary: e1 rule: measure_induct_rule [of client_measure])
  case (less m)
  show ?case
  proof (cases "client_step m")
    case (Return p)
    with step_Return_feed [of m m1 e1 later m2 e2] client_loop_Return [of m "fst p" "snd p"] less.prems show ?thesis
      by (cases p) auto
  next
    case (Continue p)
    obtain n ev where p: "p = (n, ev)" by (cases p)
    note st = Continue [unfolded p]
    from less.prems(1) client_loop_Continue [OF st] obtain e where n: "client_loop n [] = (m1, e)" and e1: "e1 = ev @ e"
      by blast
    have "cm_state n \<noteq> Closed" using n less.prems(2) client_loop_Closed [of n] by auto
    from step_Continue_feed [OF st this, of later]
      less.IH [OF client_step_decreases [OF st] n less.prems(2,3)]
    show ?thesis by (auto simp: client_loop_Continue e1 intro: resumed_prepend) 
  qed
qed

lemma client_push_feed: "cm_state m \<noteq> Closed \<Longrightarrow> client_push bytes m = client_loop (feed_client bytes m) []"
  by (simp add: client_push_def feed_client_def)

lemma client_push_append:
  assumes "client_push a m = (m1, e1)" and "cm_state m1 \<noteq> Closed"
    and "client_push b m1 = (m2, e2)"
  shows "\<exists>m' e. client_push (a @ b) m = (m', e) \<and> resumed m' e e1 m2 e2"
proof (cases "cm_state m = Closed")
  case False
  with assms client_loop_feed [of "feed_client a m" m1 e1 b m2 e2] show ?thesis by (simp add: client_push_feed)
qed (use assms in \<open>simp add: client_push_def\<close>)

section \<open>Many fragments\<close>

lemma alike_client_state: "alike_client n m \<Longrightarrow> cm_state m = cm_state n"
  by (drule alike_client_def [THEN iffD1, THEN conjunct2, THEN arg_cong [where f = cm_state]]) simp

definition decoder_open :: "ntrip_client \<Rightarrow> bool" where
  "decoder_open m \<longleftrightarrow> cm_state m = Closed \<or> \<not> cd_finished (cm_chunk_decoder m)"

lemma handshake_decoder:
  "parse_status m = (r, m', events) \<Longrightarrow> cm_chunk_decoder m' = cm_chunk_decoder m"
  "parse_headers m = (r, m', events) \<Longrightarrow> cm_chunk_decoder m' = cm_chunk_decoder m"
  by (auto simp: parse_status_def parse_headers_def take_line_or_reject_def reject_current_prefix_def reject_def Let_def
      split: prod.splits option.splits if_splits http_classification.splits)

lemma drain_payload_open:
  "drain_payload m = (m', events) \<Longrightarrow> \<not> cd_finished (cm_chunk_decoder m) \<Longrightarrow> decoder_open m'"
  by (auto simp: drain_payload_def drain_body_def consume_pending_icy_blank_line_def decoder_open_def Let_def
      split: prod.splits bool.splits sum.splits list.splits if_splits)

lemma drain_sourcetable_open:
  assumes "drain_sourcetable m = (r, m', events)" and "\<not> cd_finished (cm_chunk_decoder m)"
  shows "decoder_open m'"
proof (cases r)
  case True
  then show ?thesis using drain_sourcetable_facts [OF assms(1)] by (simp add: decoder_open_def)
next
  case False
  then show ?thesis
  proof (cases "cm_sourcetable_chunked m")
    case True
    then show ?thesis using assms(1) False drain_tail_waits
      by (auto simp: drain_chunked decoder_open_def split: if_splits prod.splits sum.splits)
  next
    case plain: False
    then show ?thesis using assms False drain_lines_keep(1) by (fastforce simp: drain_sourcetable_def decoder_open_def)
  qed
qed

lemma client_step_open:
  assumes "client_step m = Continue (m', events) \<or> client_step m = Return (m', events)" and "decoder_open m"
  shows "decoder_open m'"
  using assms handshake_decoder [of m _ m' events] drain_payload_open [of m m' events] drain_sourcetable_open [of m _ m' events]
  by (auto simp: client_step_def decoder_open_def split: ntrip_state.splits prod.splits if_splits)

lemma client_loop_open: "client_loop m [] = (m', events) \<Longrightarrow> decoder_open m \<Longrightarrow> decoder_open m'"
proof (induction m arbitrary: events rule: measure_induct_rule [of client_measure])
  case (less m)
  show ?case
  proof (cases "client_step m")
    case (Continue p)
    obtain n ev where p: "p = (n, ev)" by (cases p)
    note st = Continue [unfolded p]
    from less.prems(1) client_loop_Continue [OF st] obtain e where "client_loop n [] = (m', e)" by blast
    from less.IH [OF client_step_decreases [OF st] this] client_step_open [of m n ev] st less.prems(2) show ?thesis by blast
  next
    case (Return p)
    with client_loop_Return [of m "fst p" "snd p"] client_step_open [of m "fst p" "snd p"] less.prems show ?thesis by auto
  qed
qed

lemma client_push_open: "client_push bytes m = (m', events) \<Longrightarrow> decoder_open m \<Longrightarrow> decoder_open m'"
proof (cases "cm_state m = Closed")
  case False
  assume "client_push bytes m = (m', events)" "decoder_open m"
  with False client_loop_open [of "feed_client bytes m"] show ?thesis by (simp add: client_push_feed decoder_open_def)
qed (simp add: client_push_def)

lemma corrupted_session: "session_run s events = Some s' \<Longrightarrow> corrupted events \<Longrightarrow> s' = Over"
proof (induction events arbitrary: s)
  case (Cons e es)
  then obtain t where t: "session_step s e = Some t" "session_run t es = Some s'" by (auto simp: bind_eq_Some_conv)
  show ?case
  proof (cases "corrupted es")
    case False
    then obtain d where "e = StreamCorrupted d" using Cons.prems(2) by (cases e) auto
    then have "t = Over" using t(1) by (cases s) auto
    with t(2) show ?thesis by (cases es) auto
  qed (use Cons.IH t(2) in blast)
qed simp

lemma corrupted_closes: "client_push bytes m = (m', events) \<Longrightarrow> corrupted events \<Longrightarrow> cm_state m' = Closed"
  using corrupted_session [OF client_push_session] by (fastforce simp: session_of_def split: ntrip_state.splits)

lemma pushes_snoc:
  "client_pushes (fs @ [f]) m =
     (case client_pushes fs m of (m1, e1) \<Rightarrow> (case client_push f m1 of (m2, e2) \<Rightarrow> (m2, e1 @ e2)))"
  by (induction fs arbitrary: m) (simp_all split: prod.splits)

lemma same_client:
  assumes "alike_client n m" and "decoder_open m" and "cm_state m \<noteq> Closed"
  shows "n = m"
proof -
  have "cm_chunk_decoder n = cm_chunk_decoder m"
    using assms by (metis alike_client_def alike_def alike_finished decoder_open_def)
  with assms(1) have "n\<lparr>cm_chunk_decoder := cm_chunk_decoder n\<rparr> = m" by (simp add: alike_client_def)
  then show ?thesis by simp
qed

lemma pushes_open: "client_pushes fs m = (m', events) \<Longrightarrow> decoder_open m \<Longrightarrow> decoder_open m'"
  by (induction fs arbitrary: m events) (fastforce split: prod.splits dest: client_push_open)+


text \<open>
  Fragments of an input none of whose proper beginnings closes the client: one push of the whole
  ends the same way with the same events.
\<close>

lemma pushes_whole:
  "fs \<noteq> [] \<Longrightarrow> decoder_open m \<Longrightarrow> cm_state m \<noteq> Closed \<Longrightarrow>
     (\<And>p. strict_prefix p (concat fs) \<Longrightarrow> cm_state (fst (client_push p m)) \<noteq> Closed) \<Longrightarrow>
     \<exists>m2 es m' e. client_pushes fs m = (m2, es) \<and> client_push (concat fs) m = (m', e) \<and> resumed m' e [] m2 es"
proof (induction fs rule: rev_nonempty_induct)
  case (single f)
  then show ?case by (cases "client_push f m") auto
next
  case (snoc f fs)
  have less: "strict_prefix p (concat (fs @ [f]))" if "strict_prefix p (concat fs)" for p
    using that by (auto simp: strict_prefix_def prefix_append)
  obtain m1 e1 n1 e1' where fs: "client_pushes fs m = (m1, e1)" and whole: "client_push (concat fs) m = (n1, e1')"
    and res: "resumed n1 e1' [] m1 e1"
    using snoc.IH [OF snoc.prems(1,2) snoc.prems(3) [OF less]] by auto
  obtain m2 e2 where f: "client_push f m1 = (m2, e2)" by fastforce
  obtain m' e where m': "client_push (concat fs @ f) m = (m', e)" by fastforce
  have "resumed m' e [] m2 (e1 @ e2)"
  proof (cases "cm_state m1 = Closed")
    case False
    have "\<not> corrupted e1"
      using False corrupted_session [OF client_pushes_session [OF fs]] by (auto simp: session_of_def split: ntrip_state.splits)
    with res have same: "same_events e1' e1" and "alike_client n1 m1" by (auto simp: resumed_def)
    then have n1: "n1 = m1" using pushes_open [OF fs snoc.prems(1)] False by (intro same_client)
    from client_push_append [OF whole [unfolded n1] False f] m' have "resumed m' e e1' m2 e2" by simp
    with same \<open>\<not> corrupted e1\<close> show ?thesis by (auto simp: resumed_def same_events_def split: if_splits)
  next
    case True
    then have "cm_state n1 = Closed"
      using res corrupted_closes [OF whole] by (auto simp: resumed_def dest: alike_client_state split: if_splits)
    have "f = []"
    proof (rule ccontr)
      assume "f \<noteq> []"
      then have "strict_prefix (concat fs) (concat (fs @ [f]))" by (simp add: strict_prefix_def)
      from snoc.prems(3) [OF this] whole \<open>cm_state n1 = Closed\<close> show False by simp
    qed
    with True f whole m' res show ?thesis by (simp add: client_push_def)
  qed
  with fs f m' show ?case by (simp add: pushes_snoc)
qed

end
