(* ===== verification/Ntrip_Session.thy ===== *)
theory Ntrip_Session
  imports Ntrip_Fragments
begin

text \<open>
  Whole responses through the client of \<^verbatim>\<open>ntrip/machine.rs\<close>: ICY and HTTP data streams, plain and
  chunked, in any fragments.
\<close>

section \<open>Data responses\<close>

definition requested :: "ntrip_config \<Rightarrow> ntrip_client" where
  "requested config = (client_new config)\<lparr>cm_state := AwaitingStatus\<rparr>"

lemma requested_simps [simp]:
  "cm_state (requested config) = AwaitingStatus" "cm_carry (requested config) = []"
  "cm_chunk_decoder (requested config) = chunked_new" "cm_chunked (requested config) = False"
  "cm_pending_icy_blank_line (requested config) = False"
  by (simp_all add: requested_def client_new_def)

lemma take_whole_line:
  assumes "is_line line" and "cm_carry m = line @ CR # LF # rest"
  shows "take_line_or_reject m = (Some line, m\<lparr>cm_carry := rest\<rparr>, [])"
proof -
  have "iter_position (\<lambda>b. b = LF) (cm_carry m) = Some (length (line @ [CR]))"
    using assms position_after [of "line @ [CR]" "\<lambda>b. b = LF" LF rest] by (auto simp: is_line_def)
  moreover have "chomp (line @ [CR, LF]) = line" by (simp add: chomp_def butlast_append)
  ultimately show ?thesis by (simp add: take_line_or_reject_def assms(2))
qed

lemma take_part_line:
  assumes "is_line line" and "prefix (cm_carry m) (line @ [CR])"
  shows "take_line_or_reject m = (None, m, [])"
proof -
  from assms have "LF \<notin> set (cm_carry m)" "length (cm_carry m) \<le> MAX_LINE"
    by (auto simp: is_line_def MAX_LINE_def CHUNK_MAX_LINE_def dest: set_mono_prefix prefix_length_le)
  then show ?thesis by (simp add: take_line_or_reject_def no_position)
qed

lemma other_prefix: "strip_prefix (a # as) s = Some r \<Longrightarrow> a \<noteq> b \<Longrightarrow> strip_prefix (b # bs) s = None"
  by (auto simp: strip_prefix_def prefix_def split: if_splits)

subsection \<open>ICY\<close>

definition icy_status :: "u8 list \<Rightarrow> bool" where
  "icy_status line \<longleftrightarrow> is_line line
     \<and> (\<exists>reason. parse_prefixed_status (trim (from_utf8_lossy line)) ''ICY'' = Some (200, reason))"

definition icy_handshake :: ntrip_handshake where
  "icy_handshake = \<lparr>hs_version = Rev1, hs_chunked = False, hs_headers = []\<rparr>"

definition icy_client :: "ntrip_config \<Rightarrow> u8 list \<Rightarrow> ntrip_client" where
  "icy_client config carry =
     (requested config)\<lparr>cm_carry := carry, cm_state := Streaming, cm_status_version := Some Rev1, cm_chunked := False,
        cm_pending_icy_blank_line := True\<rparr>"

lemma icy_client_simps [simp]:
  "cm_state (icy_client config q) = Streaming" "cm_carry (icy_client config q) = q"
  "(icy_client config q)\<lparr>cm_carry := r\<rparr> = icy_client config r"
  by (simp_all add: icy_client_def)

lemma icy_parse:
  assumes "icy_status line"
  shows "parse_status (feed_client (line @ CR # LF # q) (requested config)) = (True, icy_client config q, [Connected icy_handshake])"
proof -
  obtain reason where icy: "parse_prefixed_status (trim (from_utf8_lossy line)) ''ICY'' = Some (200, reason)"
    using assms by (auto simp: icy_status_def)
  then obtain r where "strip_prefix (lit ''ICY'') (trim (from_utf8_lossy line)) = Some r"
    by (auto simp: parse_prefixed_status_def bind_eq_Some_conv)
  then have "strip_prefix (lit ''ERROR - '') (trim (from_utf8_lossy line)) = None"
    unfolding lit_def list.map by (rule other_prefix) simp
  moreover have "take_line_or_reject (feed_client (line @ CR # LF # q) (requested config))
      = (Some line, (feed_client (line @ CR # LF # q) (requested config))\<lparr>cm_carry := q\<rparr>, [])"
    using assms by (intro take_whole_line) (auto simp: icy_status_def)
  ultimately show ?thesis using icy
    by (simp add: parse_status_def icy_client_def icy_handshake_def)
qed

lemma icy_push:
  assumes "icy_status line"
  shows "client_push (line @ CR # LF # q) (requested config)
    = (case drain_payload (icy_client config q) of (m, events) \<Rightarrow> (m, Connected icy_handshake # events))"
proof -
  have "client_step (feed_client (line @ CR # LF # q) (requested config)) = Continue (icy_client config q, [Connected icy_handshake])"
    using icy_parse [OF assms] by (simp add: client_step_def)
  moreover have "client_step (icy_client config q) = Return (drain_payload (icy_client config q))"
    by (simp add: client_step_def icy_client_def)
  ultimately show ?thesis
    by (simp add: client_push_feed client_loop.simps [of "feed_client _ _"] client_loop.simps [of "icy_client config q"]
        split: prod.splits)
qed

lemma icy_drain:
  "q = [] \<or> q = [CR] \<Longrightarrow> drain_payload (icy_client config q) = (icy_client config q, [])"
  "drain_payload (icy_client config (CR # LF # body)) =
     ((icy_client config [])\<lparr>cm_pending_icy_blank_line := False\<rparr>, if body = [] then [] else [Payload body])"
  by (auto simp: drain_payload_def consume_pending_icy_blank_line_def drain_body_def icy_client_def Let_def)

lemma waiting_status:
  assumes "is_line line" and "prefix p (line @ [CR])"
  shows "client_push p (requested config) = (feed_client p (requested config), [])"
proof -
  have "take_line_or_reject (feed_client p (requested config)) = (None, feed_client p (requested config), [])"
    using assms by (intro take_part_line [OF assms(1)]) simp
  then show ?thesis
    by (simp add: client_push_feed client_loop.simps [of "feed_client _ _"] client_step_def parse_status_def)
qed

lemma icy_stream:
  assumes line: "icy_status line" and whole: "concat fs = line @ [CR, LF, CR, LF] @ body"
  shows "\<exists>m es. client_pushes fs (requested config) = (m, es) \<and> cm_state m = Streaming
    \<and> notices es = [Connected icy_handshake] \<and> payloads es = body"
proof -
  have wait: "cm_state (fst (client_push p (requested config))) \<noteq> Closed" if "prefix p (concat fs)" for p
  proof -
    have "prefix p (line @ [CR, LF] @ CR # LF # body)" using that by (simp add: whole)
    then show ?thesis
    proof (cases rule: line_prefix)
      case 1
      with line show ?thesis by (auto simp: icy_status_def waiting_status)
    next
      case (2 q)
      from 2(2) consider "q = [] \<or> q = [CR]" | b where "q = CR # LF # b" by (auto simp: prefix_Cons)
      then show ?thesis
        using icy_drain by cases (auto simp: 2(1) icy_push [OF line] icy_client_def split: prod.splits)
    qed
  qed
  have "decoder_open (requested config)" "cm_state (requested config) \<noteq> Closed" "fs \<noteq> []"
    using whole by (auto simp: decoder_open_def chunked_new_def)
  then obtain m es m' e where fs: "client_pushes fs (requested config) = (m, es)"
    and e: "client_push (concat fs) (requested config) = (m', e)" and res: "resumed m' e [] m es"
    using pushes_whole [of fs "requested config"] wait by (auto simp: strict_prefix_def)
  have "client_push (concat fs) (requested config) = ((icy_client config [])\<lparr>cm_pending_icy_blank_line := False\<rparr>,
      Connected icy_handshake # (if body = [] then [] else [Payload body]))"
    using icy_push [OF line, of "CR # LF # body"] by (simp add: whole icy_drain)
  with e res fs show ?thesis
    by (auto simp: resumed_def same_events_def icy_client_def dest!: alike_client_state split: if_splits)
qed

subsection \<open>HTTP\<close>

text \<open>
  The status line and the header lines of a response that classifies as a data stream, and the
  bytes they take.
\<close>

definition http_headers :: "u8 list list \<Rightarrow> headers" where
  "http_headers lines = List.map_filter split_header lines"

definition http_response :: "u8 list \<Rightarrow> u8 list list \<Rightarrow> ntrip_handshake \<Rightarrow> bool" where
  "http_response line lines hs \<longleftrightarrow> is_line line \<and> (\<forall>l\<in>set lines. is_line l \<and> l \<noteq> [])
     \<and> sum_list (map length lines) \<le> MAX_HEADER_BLOCK \<and> hs_headers hs = http_headers lines
     \<and> (\<exists>status reason. parse_http_status (trim (from_utf8_lossy line)) = Some (hs_version hs, status, reason)
          \<and> classify_http_response status reason (http_headers lines) = ClStream (hs_chunked hs))"

definition header_bytes :: "u8 list list \<Rightarrow> u8 list" where
  "header_bytes lines = concat (map (\<lambda>l. l @ [CR, LF]) lines) @ [CR, LF]"

definition http_client :: "u8 list \<Rightarrow> headers \<Rightarrow> nat \<Rightarrow> ntrip_version \<Rightarrow> u16 \<Rightarrow> rust_string \<Rightarrow> ntrip_config \<Rightarrow> ntrip_client" where
  "http_client carry hdrs len version status reason config =
     (requested config)\<lparr>cm_carry := carry, cm_state := AwaitingHeaders, cm_headers := hdrs, cm_header_bytes := len,
        cm_status_version := Some version, cm_http_status := Some status, cm_http_reason := reason\<rparr>"

lemma http_client_simps [simp]:
  "cm_carry (http_client c h n v s r config) = c" "cm_state (http_client c h n v s r config) = AwaitingHeaders"
  "cm_headers (http_client c h n v s r config) = h" "cm_header_bytes (http_client c h n v s r config) = n"
  "cm_status_version (http_client c h n v s r config) = Some v" "cm_http_status (http_client c h n v s r config) = Some s"
  "cm_http_reason (http_client c h n v s r config) = r"
  "(http_client c h n v s r config)\<lparr>cm_carry := c'\<rparr> = http_client c' h n v s r config"
  "(http_client c h n v s r config)\<lparr>cm_headers := h'\<rparr> = http_client c h' n v s r config"
  "(http_client c h n v s r config)\<lparr>cm_header_bytes := n'\<rparr> = http_client c h n' v s r config"
  by (simp_all add: http_client_def requested_def client_new_def)

lemma other_tag:
  assumes "parse_http_status t = Some x" and "(of_char b :: u32) \<noteq> of_char (CHR ''H'')" and "prefix [b] tag"
  shows "strip_prefix (lit tag) t = None"
proof -
  obtain bs where tag: "tag = b # bs" using assms(3) by (auto simp: prefix_def)
  from assms(1) obtain rest where "strip_prefix (lit ''HTTP/1.1 '') t = Some rest \<or> strip_prefix (lit ''HTTP/1.0 '') t = Some rest"
    by (auto simp: parse_http_status_def bind_eq_Some_conv split: option.splits)
  then show ?thesis
    unfolding tag lit_def list.map using assms(2) by (auto dest: other_prefix)
qed

lemma http_status_parse:
  assumes "is_line line" and http: "parse_http_status (trim (from_utf8_lossy line)) = Some (v, s, r)"
  shows "parse_status (feed_client (line @ CR # LF # q) (requested config)) = (True, http_client q [] 0 v s r config, [])"
proof -
  note other = other_tag [OF http]
  have "take_line_or_reject (feed_client (line @ CR # LF # q) (requested config))
      = (Some line, (feed_client (line @ CR # LF # q) (requested config))\<lparr>cm_carry := q\<rparr>, [])"
    using assms by (intro take_whole_line) auto
  then show ?thesis
    using http other [of "CHR ''E''" "''ERROR - ''"] other [of "CHR ''I''" "''ICY''"] other [of "CHR ''S''" "''SOURCETABLE''"]
    by (simp add: parse_status_def parse_prefixed_status_def http_client_def)
qed

text \<open>A whole header line is recorded; a part of one waits.\<close>

lemma header_line_step:
  assumes "is_line l" and "l \<noteq> []" and "n + length l \<le> MAX_HEADER_BLOCK"
  shows "client_step (http_client (l @ CR # LF # q) h n v s r config)
    = Continue (http_client q (h @ http_headers [l]) (n + length l) v s r config, [])"
proof -
  have "take_line_or_reject (http_client (l @ CR # LF # q) h n v s r config) = (Some l, http_client q h n v s r config, [])"
    using take_whole_line [OF assms(1), of "http_client (l @ CR # LF # q) h n v s r config" q] by simp
  then show ?thesis
    using assms by (auto simp: client_step_def parse_headers_def http_headers_def map_filter_def Let_def split: option.splits)
qed

lemma header_part_step:
  assumes "is_line l" and "prefix p (l @ [CR])"
  shows "client_loop (http_client p h n v s r config) [] = (http_client p h n v s r config, [])"
proof -
  have "take_line_or_reject (http_client p h n v s r config) = (None, http_client p h n v s r config, [])"
    using assms by (intro take_part_line) auto
  then show ?thesis by (simp add: client_loop.simps [of "http_client p h n v s r config"] client_step_def parse_headers_def)
qed

lemma http_headers_append: "http_headers (a @ b) = http_headers a @ http_headers b"
  by (simp add: http_headers_def map_filter_def)

definition data_client :: "u8 list \<Rightarrow> bool \<Rightarrow> ntrip_client \<Rightarrow> ntrip_client" where
  "data_client carry chunked m = m\<lparr>cm_carry := carry, cm_chunked := chunked, cm_state := Streaming\<rparr>"

text \<open>The whole header block leads to the body.\<close>

lemma headers_whole:
  assumes "\<forall>l\<in>set lines. is_line l \<and> l \<noteq> []" and "n + sum_list (map length lines) \<le> MAX_HEADER_BLOCK"
    and "classify_http_response s r (h @ http_headers lines) = ClStream chunked"
  shows "client_loop (http_client (header_bytes lines @ q) h n v s r config) [] =
    (case drain_payload (data_client q chunked
        (http_client q (h @ http_headers lines) (n + sum_list (map length lines)) v s r config)) of
       (m, events) \<Rightarrow> (m, Connected \<lparr>hs_version = v, hs_chunked = chunked, hs_headers = h @ http_headers lines\<rparr> # events))"
  using assms
proof (induction lines arbitrary: h n)
  case Nil
  define m where "m = data_client q chunked (http_client q h n v s r config)"
  have "take_line_or_reject (http_client (CR # LF # q) h n v s r config) = (Some [], http_client q h n v s r config, [])"
    using take_whole_line [of "[]" "http_client (CR # LF # q) h n v s r config" q] by simp
  then have "client_step (http_client (CR # LF # q) h n v s r config)
      = Continue (m, [Connected \<lparr>hs_version = v, hs_chunked = chunked, hs_headers = h\<rparr>])"
    using Nil by (simp add: client_step_def parse_headers_def m_def data_client_def http_headers_def map_filter_def Let_def)
  moreover have "client_step m = Return (drain_payload m)" by (simp add: client_step_def m_def data_client_def)
  ultimately show ?case
    using m_def by (simp add: header_bytes_def client_loop.simps [of "http_client (CR # LF # q) h n v s r config"]
        client_loop.simps [of "data_client q chunked (http_client q h n v s r config)"] http_headers_def map_filter_def split: prod.splits)
next
  case (Cons l lines)
  have "client_step (http_client (header_bytes (l # lines) @ q) h n v s r config)
      = Continue (http_client (header_bytes lines @ q) (h @ http_headers [l]) (n + length l) v s r config, [])"
    using header_line_step [of l n "header_bytes lines @ q"] Cons.prems by (simp add: header_bytes_def)
  with Cons.IH [of "n + length l" "h @ http_headers [l]"] Cons.prems show ?case
    using http_headers_append [of "[l]" lines]
    by (simp add: client_loop.simps [of "http_client (header_bytes (l # lines) @ q) h n v s r config"] add.assoc)
qed

text \<open>A beginning of the header block keeps the client waiting.\<close>

lemma headers_part:
  assumes "\<forall>l\<in>set lines. is_line l \<and> l \<noteq> []" and "n + sum_list (map length lines) \<le> MAX_HEADER_BLOCK"
    and "strict_prefix p (header_bytes lines)"
  shows "\<exists>m. client_loop (http_client p h n v s r config) [] = (m, []) \<and> cm_state m = AwaitingHeaders"
  using assms
proof (induction lines arbitrary: h n p)
  case Nil
  then have "prefix p ([] @ [CR])" by (auto simp: header_bytes_def strict_prefix_def prefix_Cons)
  with header_part_step [of "[]" p] show ?case by simp
next
  case (Cons l lines)
  from Cons.prems(3) have "prefix p (l @ [CR, LF] @ header_bytes lines)" by (simp add: header_bytes_def strict_prefix_def)
  then show ?case
  proof (cases rule: line_prefix)
    case 1
    with header_part_step [of l p] Cons.prems(1) show ?thesis by simp
  next
    case (2 q)
    then have "strict_prefix q (header_bytes lines)" using Cons.prems(3) by (auto simp: header_bytes_def strict_prefix_def)
    with Cons.IH [of "n + length l" q "h @ http_headers [l]"] header_line_step [of l n q] Cons.prems show ?thesis
      by (auto simp: 2(1) client_loop.simps [of "http_client (l @ CR # LF # q) h n v s r config"])
  qed
qed

definition fresh_body :: "ntrip_client \<Rightarrow> bool" where
  "fresh_body m \<longleftrightarrow> cm_chunk_decoder m = chunked_new \<and> \<not> cm_pending_icy_blank_line m"

lemma http_push:
  assumes "http_response line lines hs"
  obtains m where "fresh_body m" and "\<And>q. client_push (line @ CR # LF # header_bytes lines @ q) (requested config)
    = (case drain_payload (data_client q (hs_chunked hs) m) of (m', events) \<Rightarrow> (m', Connected hs # events))"
proof -
  obtain s r where http: "parse_http_status (trim (from_utf8_lossy line)) = Some (hs_version hs, s, r)"
    and cl: "classify_http_response s r (http_headers lines) = ClStream (hs_chunked hs)"
    using assms by (auto simp: http_response_def)
  have ok: "is_line line" "\<forall>l\<in>set lines. is_line l \<and> l \<noteq> []" "0 + sum_list (map length lines) \<le> MAX_HEADER_BLOCK"
    and hs: "hs = \<lparr>hs_version = hs_version hs, hs_chunked = hs_chunked hs, hs_headers = http_headers lines\<rparr>"
    using assms by (simp_all add: http_response_def)
  define m where "m = http_client [] (http_headers lines) (sum_list (map length lines)) (hs_version hs) s r config"
  have "fresh_body m" by (simp add: m_def http_client_def fresh_body_def)
  moreover have "client_push (line @ CR # LF # header_bytes lines @ q) (requested config)
    = (case drain_payload (data_client q (hs_chunked hs) m) of (m', events) \<Rightarrow> (m', Connected hs # events))" for q
  proof -
    have st: "client_step (feed_client (line @ CR # LF # header_bytes lines @ q) (requested config))
        = Continue (http_client (header_bytes lines @ q) [] 0 (hs_version hs) s r config, [])"
      using http_status_parse [OF ok(1) http] by (simp add: client_step_def)
    have "data_client q (hs_chunked hs) (http_client q (http_headers lines) (sum_list (map length lines)) (hs_version hs) s r config)
        = data_client q (hs_chunked hs) m"
      by (simp add: data_client_def m_def http_client_def)
    with headers_whole [OF ok(2,3), of s r "[]" "hs_chunked hs" q "hs_version hs" config] cl hs show ?thesis
      by (simp add: client_push_feed client_loop.simps [of "feed_client _ _"] st)
  qed
  ultimately show thesis by (rule that)
qed

lemma head_wait:
  assumes http: "parse_http_status (trim (from_utf8_lossy line)) = Some (v, s, r)" and line: "is_line line"
    and lines: "\<forall>l\<in>set lines. is_line l \<and> l \<noteq> []" "0 + sum_list (map length lines) \<le> MAX_HEADER_BLOCK"
    and p: "prefix p (line @ [CR]) \<or> (\<exists>q. p = line @ CR # LF # q \<and> strict_prefix q (header_bytes lines))"
  shows "cm_state (fst (client_push p (requested config))) \<noteq> Closed"
  using p
proof
  assume "prefix p (line @ [CR])"
  with line show ?thesis by (simp add: waiting_status)
next
  assume "\<exists>q. p = line @ CR # LF # q \<and> strict_prefix q (header_bytes lines)"
  then obtain q where p: "p = line @ CR # LF # q" and q: "strict_prefix q (header_bytes lines)" by blast
  have "client_step (feed_client p (requested config)) = Continue (http_client q [] 0 v s r config, [])"
    using http_status_parse [OF line http, of q] by (simp add: client_step_def p)
  with headers_part [OF lines q, of "[]" v s r config] show ?thesis
    by (auto simp: client_push_feed client_loop.simps [of "feed_client _ _"])
qed

lemma http_wait:
  assumes "http_response line lines hs" and "prefix p (line @ [CR]) \<or> (\<exists>q. p = line @ CR # LF # q \<and> strict_prefix q (header_bytes lines))"
  shows "cm_state (fst (client_push p (requested config))) \<noteq> Closed"
  using assms head_wait [of line _ _ _ lines p config] by (auto simp: http_response_def)

lemma http_stream:
  assumes resp: "http_response line lines hs" and whole: "concat fs = line @ [CR, LF] @ header_bytes lines @ raw"
    and part: "\<And>m q. fresh_body m \<Longrightarrow> strict_prefix q raw \<Longrightarrow>
      cm_state (fst (drain_payload (data_client q (hs_chunked hs) m))) \<noteq> Closed"
    and all: "\<And>m. fresh_body m \<Longrightarrow> \<exists>m' ev. drain_payload (data_client raw (hs_chunked hs) m) = (m', ev)
      \<and> cm_state m' = st \<and> payloads ev = body \<and> notices ev = ends \<and> \<not> corrupted ev"
  shows "\<exists>m es. client_pushes fs (requested config) = (m, es) \<and> cm_state m = st
    \<and> notices es = Connected hs # ends \<and> payloads es = body"
proof -
  obtain m0 where m0: "fresh_body m0" and push: "\<And>q. client_push (line @ CR # LF # header_bytes lines @ q) (requested config)
    = (case drain_payload (data_client q (hs_chunked hs) m0) of (m', events) \<Rightarrow> (m', Connected hs # events))"
    using http_push [OF resp, where config = config] by metis
  have wait: "cm_state (fst (client_push p (requested config))) \<noteq> Closed" if p: "strict_prefix p (concat fs)" for p
  proof -
    have "prefix p (line @ [CR, LF] @ header_bytes lines @ raw)" using p by (simp add: whole strict_prefix_def)
    then show ?thesis
    proof (cases rule: line_prefix)
      case (2 q)
      from 2(2) consider "strict_prefix q (header_bytes lines)" | b where "q = header_bytes lines @ b" "prefix b raw"
        by (metis append_Nil2 prefix_append prefix_order.le_less prefix_bot.extremum)
      then show ?thesis
      proof cases
        case (2 b)
        then have "strict_prefix b raw" using p \<open>p = _\<close> by (auto simp: whole strict_prefix_def)
        from part [OF m0 this] push [of b] show ?thesis
          by (auto simp: \<open>p = _\<close> 2(1) split: prod.splits)
      qed (use http_wait [OF resp] \<open>p = _\<close> in blast)
    qed (use http_wait [OF resp] in blast)
  qed
  have "decoder_open (requested config)" "cm_state (requested config) \<noteq> Closed" "fs \<noteq> []"
    using whole by (auto simp: decoder_open_def chunked_new_def)
  then obtain m es m' e where fs: "client_pushes fs (requested config) = (m, es)"
    and e: "client_push (concat fs) (requested config) = (m', e)" and res: "resumed m' e [] m es"
    using pushes_whole [of fs "requested config"] wait by auto
  obtain m1 ev where d: "drain_payload (data_client raw (hs_chunked hs) m0) = (m1, ev)" "cm_state m1 = st"
      "payloads ev = body" "notices ev = ends" "\<not> corrupted ev"
    using all [OF m0] by blast
  then have "client_push (concat fs) (requested config) = (m1, Connected hs # ev)" using push [of raw] by (simp add: whole)
  with e res fs d show ?thesis
    by (auto simp: resumed_def same_events_def dest!: alike_client_state split: if_splits)
qed

lemma data_client_state [simp]: "cm_state (data_client q c m) = Streaming"
  by (simp add: data_client_def)

lemma plain_body:
  "fresh_body m \<Longrightarrow> drain_payload (data_client q False m) = (data_client [] False m, if q = [] then [] else [Payload q])"
  by (simp add: drain_payload_def drain_body_def data_client_def fresh_body_def Let_def)

lemma http_plain:
  assumes "http_response line lines hs" and "\<not> hs_chunked hs"
    and "concat fs = line @ [CR, LF] @ header_bytes lines @ body"
  shows "\<exists>m es. client_pushes fs (requested config) = (m, es) \<and> cm_state m = Streaming
    \<and> notices es = [Connected hs] \<and> payloads es = body"
  by (rule http_stream [OF assms(1,3)]) (use assms(2) in \<open>auto simp: plain_body\<close>)

lemma http_chunked:
  assumes "http_response line lines hs" and "hs_chunked hs" and body: "is_body cs final ts"
    and "concat fs = line @ [CR, LF] @ header_bytes lines @ chunked_body cs final ts"
  shows "\<exists>m es. client_pushes fs (requested config) = (m, es) \<and> cm_state m = Closed
    \<and> notices es = [Connected hs, StreamEnded] \<and> payloads es = concat (map snd cs)"
proof (rule http_stream [OF assms(1,4)])
  fix m q
  assume m: "fresh_body m" and q: "strict_prefix q (chunked_body cs final ts)"
  obtain o1 d1 where "chunk_push q chunked_new = (Inr o1, d1)" "\<not> cd_finished d1"
    using body_unfinished [OF body q] by blast
  with m assms(2) show "cm_state (fst (drain_payload (data_client q (hs_chunked hs) m))) \<noteq> Closed"
    by (simp add: drain_payload_def drain_body_def data_client_def fresh_body_def Let_def)
next
  fix m
  assume m: "fresh_body m"
  obtain d where d: "chunk_push (chunked_body cs final ts) chunked_new = (Inr (concat (map snd cs)), d)" "cd_finished d"
    using body_pushes [OF body, of "[chunked_body cs final ts]"] by (auto split: prod.splits sum.splits)
  have "chunked_body cs final ts \<noteq> []" by (simp add: chunked_body_def)
  with m d assms(2) show "\<exists>m' ev. drain_payload (data_client (chunked_body cs final ts) (hs_chunked hs) m) = (m', ev)
      \<and> cm_state m' = Closed \<and> payloads ev = concat (map snd cs) \<and> notices ev = [StreamEnded] \<and> \<not> corrupted ev"
    by (simp add: drain_payload_def drain_body_def data_client_def fresh_body_def Let_def)
qed

end
