(* ===== verification/Ntrip_Table.thy ===== *)
theory Ntrip_Table
  imports Ntrip_Session
begin

text \<open>
  A whole source table through the client of \<^verbatim>\<open>ntrip/machine.rs\<close>: the HTTP response whose body is the
  text \<^verbatim>\<open>sourcetable.rs\<close> writes for a table, in any fragments.
\<close>

section \<open>Lines\<close>

text \<open>An ASCII line within the limit that does not end the table, and the bytes of such lines.\<close>

definition table_line :: "rust_string \<Rightarrow> bool" where
  "table_line l \<longleftrightarrow> one_line l \<and> (\<forall>c\<in>set l. c < 0x80) \<and> length l < MAX_LINE
     \<and> \<not> eq_ignore_ascii_case (trim (hd (str_split semicolon l))) (lit ''ENDSOURCETABLE'')"

definition end_of_table :: rust_string where
  "end_of_table = lit ''ENDSOURCETABLE''"

definition lines_of :: "rust_string list \<Rightarrow> rust_string" where
  "lines_of ls = concat (map (\<lambda>l. l @ [0x0D, 0x0A]) ls)"

definition ascii_bytes :: "rust_string \<Rightarrow> u8 list" where
  "ascii_bytes s = map ucast s"

lemma ascii_bytes_simps [simp]: "ascii_bytes [] = []" "ascii_bytes (s @ t) = ascii_bytes s @ ascii_bytes t"
  "ascii_bytes [0x0D, 0x0A] = [CR, LF]" "ascii_bytes (0x0D # 0x0A # s) = CR # LF # ascii_bytes s"
  "length (ascii_bytes s) = length s"
  by (simp_all add: ascii_bytes_def CR_def LF_def)

lemma lines_of_simps [simp]: "lines_of [] = []" "lines_of (l # ls) = l @ 0x0D # 0x0A # lines_of ls"
  by (simp_all add: lines_of_def)

lemma ascii_ucast: "(c :: u32) < 0x80 \<Longrightarrow> ucast (ucast c :: u8) = c"
  by (simp add: word_unat_eq_iff unsigned_ucast_eq unsigned_take_bit_eq take_bit_nat_eq_self word_less_nat_alt)

lemma ascii_bytes_back: "\<forall>c\<in>set l. c < 0x80 \<Longrightarrow> from_utf8_lossy (ascii_bytes l) = l"
proof -
  assume l: "\<forall>c\<in>set l. c < 0x80"
  then have "\<forall>b\<in>set (ascii_bytes l). b < 0x80" by (auto simp: ascii_bytes_def word_less_nat_alt unat_ascii)
  then have "from_utf8_lossy (ascii_bytes l) = map ucast (ascii_bytes l)" by (rule ascii_lossy)
  also have "\<dots> = l" using l by (simp add: ascii_bytes_def comp_def ascii_ucast map_idI)
  finally show ?thesis .
qed

lemma ascii_bytes_line:
  assumes "one_line l" and "\<forall>c\<in>set l. c < 0x80"
  shows "LF \<notin> set (ascii_bytes l)"
proof
  assume "LF \<in> set (ascii_bytes l)"
  then obtain c where "c \<in> set l" "ucast c = LF" by (auto simp: ascii_bytes_def)
  then have "c = 0x0A" using assms(2) ascii_ucast [of c] by (simp add: LF_def)
  with \<open>c \<in> set l\<close> assms(1) show False by (simp add: one_line_def)
qed

lemma end_of_table_line: "one_line end_of_table" "\<forall>c\<in>set end_of_table. c < 0x80" "length end_of_table < MAX_LINE"
  "eq_ignore_ascii_case (trim (hd (str_split semicolon end_of_table))) (lit ''ENDSOURCETABLE'')"
  by (simp_all add: end_of_table_def lit_def MAX_LINE_def eq_ignore_ascii_case_def trim_def trim_start_def trim_end_def
      is_whitespace_def)

section \<open>Draining the lines\<close>

definition collecting :: "ntrip_client \<Rightarrow> bool" where
  "collecting m \<longleftrightarrow> cm_state m = InSourcetable \<and> \<not> cm_sourcetable_chunked m \<and> cm_sourcetable_records_started m"

definition holding :: "u8 list \<Rightarrow> rust_string \<Rightarrow> ntrip_client \<Rightarrow> ntrip_client" where
  "holding carry txt m = m\<lparr>cm_carry := carry, cm_sourcetable_text := txt\<rparr>"

lemma holding_simps [simp]:
  "cm_state (holding q t m) = cm_state m" "cm_sourcetable_chunked (holding q t m) = cm_sourcetable_chunked m"
  "cm_sourcetable_records_started (holding q t m) = cm_sourcetable_records_started m"
  "cm_carry (holding q t m) = q" "cm_sourcetable_text (holding q t m) = t"
  "(holding q t m)\<lparr>cm_carry := q'\<rparr> = holding q' t m" "(holding q t m)\<lparr>cm_sourcetable_text := t'\<rparr> = holding q t' m"
  by (simp_all add: holding_def)

lemma take_table_line:
  assumes "one_line l" and "\<forall>c\<in>set l. c < 0x80"
  shows "take_line_from (ascii_bytes l @ CR # LF # q) = Some (ascii_bytes l, q)"
proof -
  have "iter_position (\<lambda>b. b = LF) (ascii_bytes l @ CR # LF # q) = Some (length (ascii_bytes l @ [CR]))"
    using ascii_bytes_line [OF assms] position_after [of "ascii_bytes l @ [CR]" "\<lambda>b. b = LF" LF q] by (auto simp: CR_def LF_def)
  then show ?thesis by (simp add: take_line_from_def chomp_def butlast_append)
qed

lemma pushed_line:
  assumes "collecting m" and "one_line l" and "\<forall>c\<in>set l. c < 0x80"
    and "length (str_bytes (t @ l @ [0x0D, 0x0A])) \<le> MAX_SOURCETABLE"
  shows "push_sourcetable_line (ascii_bytes l) (holding q t m) =
    (if eq_ignore_ascii_case (trim (hd (str_split semicolon l))) (lit ''ENDSOURCETABLE'')
     then (True, finish_sourcetable (holding q (t @ l @ [0x0D, 0x0A]) m))
     else (False, holding q (t @ l @ [0x0D, 0x0A]) m, []))"
proof -
  have started: "(holding q t' m)\<lparr>cm_sourcetable_records_started := True\<rparr> = holding q t' m" for t'
    using assms(1) by (cases m) (simp add: holding_def collecting_def)
  show ?thesis
    using assms(1,4) ascii_bytes_back [OF assms(3)]
    by (simp add: push_sourcetable_line_def collecting_def started [simplified] Let_def del: str_bytes_append)
qed

lemma drain_line:
  assumes "collecting m" and "table_line l" and "length (str_bytes (t @ l @ [0x0D, 0x0A])) \<le> MAX_SOURCETABLE"
  shows "drain_sourcetable_lines (holding (ascii_bytes l @ CR # LF # q) t m)
    = drain_sourcetable_lines (holding q (t @ l @ [0x0D, 0x0A]) m)"
proof -
  have l: "one_line l" "\<forall>c\<in>set l. c < 0x80" using assms(2) by (simp_all add: table_line_def)
  have "sourcetable_step (holding (ascii_bytes l @ CR # LF # q) t m) = Continue (holding q (t @ l @ [0x0D, 0x0A]) m)"
    using take_table_line [OF l] pushed_line [OF assms(1) l assms(3)] assms(1,2)
    by (simp add: sourcetable_step_def sourcetable_buffer_def set_sourcetable_buffer_def collecting_def table_line_def)
  then show ?thesis by (simp add: drain_sourcetable_lines.simps [of "holding (ascii_bytes l @ CR # LF # q) t m"])
qed

lemma drain_part:
  assumes "collecting m" and "one_line l" and "\<forall>c\<in>set l. c < 0x80" and "length l < MAX_LINE"
    and "prefix p (ascii_bytes l @ [CR])"
  shows "drain_sourcetable_lines (holding p t m) = (False, holding p t m, [])"
proof -
  have "LF \<notin> set p" "length p \<le> MAX_LINE"
    using assms(5) ascii_bytes_line [OF assms(2,3)] assms(4) by (auto simp: CR_def LF_def dest: set_mono_prefix prefix_length_le)
  then have "sourcetable_step (holding p t m) = Return (False, holding p t m, [])"
    using assms(1) by (simp add: sourcetable_step_def sourcetable_buffer_def take_line_from_def no_position collecting_def)
  then show ?thesis by (simp add: drain_sourcetable_lines.simps [of "holding p t m"])
qed

text \<open>The text of a table: its lines and the last one.\<close>

definition table_of :: "rust_string list \<Rightarrow> rust_string" where
  "table_of ls = lines_of ls @ end_of_table @ [0x0D, 0x0A]"

lemma table_of_simps [simp]: "table_of [] = end_of_table @ [0x0D, 0x0A]" "table_of (l # ls) = l @ 0x0D # 0x0A # table_of ls"
  by (simp_all add: table_of_def)

lemma str_bytes_Cons: "str_bytes [] = []" "str_bytes (c # s) = char_utf8 c @ str_bytes s"
  by (simp_all add: str_bytes_def)

lemma table_text_fits:
  assumes "length (str_bytes (t @ table_of (l # ls))) \<le> MAX_SOURCETABLE"
  shows "length (str_bytes (t @ l @ [0x0D, 0x0A])) \<le> MAX_SOURCETABLE"
    and "length (str_bytes ((t @ l @ [0x0D, 0x0A]) @ table_of ls)) \<le> MAX_SOURCETABLE"
  using assms by (simp_all add: str_bytes_Cons)

lemma table_drained:
  assumes "collecting m" and "\<forall>l\<in>set ls. table_line l" and "length (str_bytes (t @ table_of ls)) \<le> MAX_SOURCETABLE"
  shows "drain_sourcetable_lines (holding (ascii_bytes (table_of ls)) t m) = (True, finish_sourcetable (holding [] (t @ table_of ls) m))"
  using assms(2,3)
proof (induction ls arbitrary: t)
  case Nil
  have "sourcetable_step (holding (ascii_bytes end_of_table @ CR # LF # []) t m)
      = Return (True, finish_sourcetable (holding [] (t @ end_of_table @ [0x0D, 0x0A]) m))"
    using take_table_line [OF end_of_table_line(1,2), of "[]"] pushed_line [OF assms(1) end_of_table_line(1,2), of t "[]"]
      end_of_table_line(4) Nil.prems assms(1)
    by (auto simp: sourcetable_step_def sourcetable_buffer_def set_sourcetable_buffer_def collecting_def split: prod.splits)
  then show ?case by (simp add: drain_sourcetable_lines.simps [of "holding (ascii_bytes end_of_table @ _) t m"])
next
  case (Cons l ls)
  note fits = table_text_fits [OF Cons.prems(2)]
  from drain_line [OF assms(1) _ fits(1), of "ascii_bytes (table_of ls)"] Cons.IH [OF _ fits(2)] Cons.prems(1)
  show ?case by simp
qed

lemma table_waits:
  assumes "collecting m" and "\<forall>l\<in>set ls. table_line l" and "length (str_bytes (t @ table_of ls)) \<le> MAX_SOURCETABLE"
    and "strict_prefix p (ascii_bytes (table_of ls))"
  shows "\<exists>q t'. drain_sourcetable_lines (holding p t m) = (False, holding q t' m, [])"
  using assms(2-)
proof (induction ls arbitrary: t p)
  case Nil
  then have "prefix p (ascii_bytes end_of_table @ [CR, LF] @ [])" by (simp add: strict_prefix_def)
  then show ?case
  proof (cases rule: line_prefix)
    case 1
    from drain_part [OF assms(1) end_of_table_line(1-3) this] show ?thesis by blast
  qed (use Nil.prems(3) in auto)
next
  case (Cons l ls)
  then have "prefix p (ascii_bytes l @ [CR, LF] @ ascii_bytes (table_of ls))" by (simp add: strict_prefix_def)
  then show ?case
  proof (cases rule: line_prefix)
    case 1
    from Cons.prems(1) have "one_line l" "\<forall>c\<in>set l. c < 0x80" "length l < MAX_LINE" by (simp_all add: table_line_def)
    from drain_part [OF assms(1) this 1] show ?thesis by blast
  next
    case (2 q)
    note fits = table_text_fits [OF Cons.prems(2)]
    from drain_line [OF assms(1) _ fits(1), of q] Cons.prems(1) 2(1)
    have "drain_sourcetable_lines (holding p t m) = drain_sourcetable_lines (holding q (t @ l @ [0x0D, 0x0A]) m)" by simp
    moreover have "strict_prefix q (ascii_bytes (table_of ls))" using Cons.prems(3) 2 by (auto simp: strict_prefix_def)
    ultimately show ?thesis using Cons.IH [OF _ fits(2)] Cons.prems(1) by simp
  qed
qed

section \<open>The response\<close>

text \<open>The status line and the header lines of a response that classifies as a plain source table.\<close>

definition table_response :: "u8 list \<Rightarrow> u8 list list \<Rightarrow> bool" where
  "table_response line lines \<longleftrightarrow> is_line line \<and> (\<forall>l\<in>set lines. is_line l \<and> l \<noteq> [])
     \<and> sum_list (map length lines) \<le> MAX_HEADER_BLOCK
     \<and> (\<exists>version status reason. parse_http_status (trim (from_utf8_lossy line)) = Some (version, status, reason)
          \<and> classify_http_response status reason (http_headers lines) = ClSourcetable False)"

lemma header_lines_read:
  assumes "\<forall>l\<in>set lines. is_line l \<and> l \<noteq> []" and "n + sum_list (map length lines) \<le> MAX_HEADER_BLOCK"
  shows "client_loop (http_client (header_bytes lines @ q) h n v s r config) [] =
    client_loop (http_client (CR # LF # q) (h @ http_headers lines) (n + sum_list (map length lines)) v s r config) []"
  using assms
proof (induction lines arbitrary: h n)
  case Nil
  then show ?case by (simp add: header_bytes_def http_headers_def map_filter_def)
next
  case (Cons l lines)
  have "client_step (http_client (header_bytes (l # lines) @ q) h n v s r config)
      = Continue (http_client (header_bytes lines @ q) (h @ http_headers [l]) (n + length l) v s r config, [])"
    using header_line_step [of l n "header_bytes lines @ q"] Cons.prems by (simp add: header_bytes_def)
  with Cons.IH [of "n + length l" "h @ http_headers [l]"] Cons.prems show ?case
    using http_headers_append [of "[l]" lines]
    by (simp add: client_loop.simps [of "http_client (header_bytes (l # lines) @ q) h n v s r config"] add.assoc)
qed

lemma table_push:
  assumes "table_response line lines"
  obtains m where "collecting m" and "\<And>q. client_push (line @ CR # LF # header_bytes lines @ q) (requested config)
    = client_loop (holding q [] m) []"
proof -
  obtain v s r where http: "parse_http_status (trim (from_utf8_lossy line)) = Some (v, s, r)"
    and cl: "classify_http_response s r (http_headers lines) = ClSourcetable False"
    using assms by (auto simp: table_response_def)
  have ok: "is_line line" "\<forall>l\<in>set lines. is_line l \<and> l \<noteq> []" "0 + sum_list (map length lines) \<le> MAX_HEADER_BLOCK"
    using assms by (simp_all add: table_response_def)
  let ?head = "\<lambda>q. http_client q (http_headers lines) (sum_list (map length lines)) v s r config"
  define m where "m = (?head [])\<lparr>cm_state := InSourcetable, cm_sourcetable_chunked := False, cm_sourcetable_records_started := True\<rparr>"
  have "collecting m" by (simp add: m_def collecting_def)
  moreover have "client_push (line @ CR # LF # header_bytes lines @ q) (requested config) = client_loop (holding q [] m) []" for q
  proof -
    have st: "client_step (feed_client (line @ CR # LF # header_bytes lines @ q) (requested config))
        = Continue (http_client (header_bytes lines @ q) [] 0 v s r config, [])"
      using http_status_parse [OF ok(1) http] by (simp add: client_step_def)
    have "take_line_or_reject (?head (CR # LF # q)) = (Some [], ?head q, [])"
      using take_whole_line [of "[]" "?head (CR # LF # q)" q] by simp
    moreover have "(?head q)\<lparr>cm_state := InSourcetable, cm_sourcetable_chunked := False, cm_sourcetable_records_started := True\<rparr>
        = holding q [] m"
      by (simp add: m_def holding_def http_client_def requested_def client_new_def)
    ultimately have blank: "client_step (?head (CR # LF # q)) = Continue (holding q [] m, [])"
      using cl by (simp add: client_step_def parse_headers_def Let_def)
    from header_lines_read [OF ok(2,3), of q "[]" v s r config] show ?thesis
      by (simp add: client_push_feed client_loop.simps [of "feed_client _ _"] st client_loop.simps [of "?head (CR # LF # q)"] blank)
  qed
  ultimately show thesis by (rule that)
qed


lemma table_loop:
  assumes "collecting m"
  shows "drain_sourcetable_lines (holding q [] m) = (True, finish_sourcetable n) \<Longrightarrow>
      client_loop (holding q [] m) [] = finish_sourcetable n"
    and "drain_sourcetable_lines (holding q [] m) = (False, n, []) \<Longrightarrow> client_loop (holding q [] m) [] = (n, [])"
proof -
  have step: "client_step (holding q [] m) =
      (case drain_sourcetable_lines (holding q [] m) of (again, result) \<Rightarrow> if again then Continue result else Return result)"
    using assms by (simp add: client_step_def drain_sourcetable_def collecting_def)
  show "client_loop (holding q [] m) [] = (n, [])" if "drain_sourcetable_lines (holding q [] m) = (False, n, [])"
    using step that by (simp add: client_loop.simps [of "holding q [] m"])
  show "client_loop (holding q [] m) [] = finish_sourcetable n"
    if "drain_sourcetable_lines (holding q [] m) = (True, finish_sourcetable n)"
    using step that client_loop_events [of "n\<lparr>cm_state := Closed\<rparr>"]
    by (simp add: client_loop.simps [of "holding q [] m"] finish_sourcetable_def client_loop_Closed)
qed

lemma table_waiting:
  assumes resp: "table_response line lines" and ls: "\<forall>l\<in>set ls. table_line l" "length (str_bytes (table_of ls)) \<le> MAX_SOURCETABLE"
    and p: "strict_prefix p (line @ [CR, LF] @ header_bytes lines @ ascii_bytes (table_of ls))"
  shows "cm_state (fst (client_push p (requested config))) \<noteq> Closed"
proof -
  obtain m where m: "collecting m" and push: "\<And>q. client_push (line @ CR # LF # header_bytes lines @ q) (requested config)
      = client_loop (holding q [] m) []"
    using table_push [OF resp, where config = config] by metis
  have head: "cm_state (fst (client_push p (requested config))) \<noteq> Closed"
    if "prefix p (line @ [CR]) \<or> (\<exists>q. p = line @ CR # LF # q \<and> strict_prefix q (header_bytes lines))"
    using that head_wait [of line _ _ _ lines p config] resp by (auto simp: table_response_def)
  have "prefix p (line @ [CR, LF] @ header_bytes lines @ ascii_bytes (table_of ls))" using p by (simp add: strict_prefix_def)
  then show ?thesis
  proof (cases rule: line_prefix)
    case (2 q)
    from 2(2) consider "strict_prefix q (header_bytes lines)" | b where "q = header_bytes lines @ b" "prefix b (ascii_bytes (table_of ls))"
      by (metis append_Nil2 prefix_append prefix_order.le_less prefix_bot.extremum)
    then show ?thesis
    proof cases
      case (2 b)
      then have "strict_prefix b (ascii_bytes (table_of ls))" using p \<open>p = _\<close> by (auto simp: strict_prefix_def)
      from table_waits [OF m ls(1) _ this, of "[]"] ls(2) obtain q' t'
        where "drain_sourcetable_lines (holding b [] m) = (False, holding q' t' m, [])" by auto
      from table_loop(2) [OF m this] push [of b] m show ?thesis
        by (simp add: \<open>p = _\<close> 2(1) collecting_def)
    qed (use head \<open>p = _\<close> in blast)
  qed (use head in blast)
qed

lemma one_table: "session_run Waiting es = Some s \<Longrightarrow> notices es = [EvSourcetable t] \<Longrightarrow> es = [EvSourcetable t]"
proof (cases es)
  case (Cons e later)
  assume "session_run Waiting es = Some s" "notices es = [EvSourcetable t]"
  then show ?thesis by (cases e; cases later) (auto simp: Cons notices_def is_payload_def)
qed (simp add: notices_def)

lemma table_received:
  assumes resp: "table_response line lines" and ls: "\<forall>l\<in>set ls. table_line l" "length (str_bytes (table_of ls)) \<le> MAX_SOURCETABLE"
    and whole: "concat fs = line @ [CR, LF] @ header_bytes lines @ ascii_bytes (table_of ls)"
    and parsed: "parse_sourcetable (table_of ls) = Inr table"
  shows "\<exists>m. client_pushes fs (requested config) = (m, [EvSourcetable table]) \<and> cm_state m = Closed"
proof -
  obtain m where m: "collecting m" and push: "\<And>q. client_push (line @ CR # LF # header_bytes lines @ q) (requested config)
      = client_loop (holding q [] m) []"
    using table_push [OF resp, where config = config] by metis
  have "drain_sourcetable_lines (holding (ascii_bytes (table_of ls)) [] m) = (True, finish_sourcetable (holding [] (table_of ls) m))"
    using table_drained [OF m ls(1), of "[]"] ls(2) by simp
  from table_loop(1) [OF m this] push have all: "client_push (concat fs) (requested config)
      = ((holding [] (table_of ls) m)\<lparr>cm_state := Closed\<rparr>, [EvSourcetable table])"
    by (simp add: whole finish_sourcetable_def parsed)
  have "decoder_open (requested config)" "cm_state (requested config) \<noteq> Closed" "fs \<noteq> []"
    using whole by (auto simp: decoder_open_def chunked_new_def)
  then obtain n es m' e where fs: "client_pushes fs (requested config) = (n, es)"
    and e: "client_push (concat fs) (requested config) = (m', e)" and res: "resumed m' e [] n es"
    using pushes_whole [of fs "requested config"] table_waiting [OF resp ls, of _ config] whole by metis
  then have "notices es = [EvSourcetable table] \<and> cm_state n = Closed"
    using all by (auto simp: resumed_def same_events_def notices_def is_payload_def dest!: alike_client_state split: if_splits)
  moreover have "session_of (requested config) = Waiting" by (simp add: session_of_def)
  ultimately show ?thesis using fs one_table [of es] client_pushes_session [OF fs] by auto
qed

section \<open>The table of the text\<close>

text \<open>The lines a serialised table is made of.\<close>

lemma lines_text_lines:
  assumes "lines_text rs = Inr body" and "list_all stable_record rs"
    and "\<forall>c\<in>set body. c < 0x80" and "\<forall>l\<in>set (str_lines (body @ tail)). length l < MAX_LINE"
  shows "\<exists>ls. body = lines_of ls \<and> (\<forall>l\<in>set ls. table_line l)"
  using assms
proof (induction rs arbitrary: body)
  case Nil
  then show ?case by (intro exI [of _ "[]"]) simp
next
  case (Cons r rs)
  then obtain line rest where line: "to_line r = Inr line" and rest: "lines_text rs = Inr rest"
    and body: "body = line @ 0x0D # 0x0A # rest"
    by auto
  have reads: "line_reads line r" using record_line [OF line] Cons.prems(2) by simp
  then have lines: "str_lines (line @ 0x0D # 0x0A # rest @ tail) = line # str_lines (rest @ tail)" by (simp add: line_reads_def str_lines_Cons)
  obtain ls where "rest = lines_of ls" "\<forall>l\<in>set ls. table_line l"
    using Cons.IH [OF rest] Cons.prems(2-4) by (auto simp: lines body)
  moreover have "str_split semicolon line \<noteq> []" using length_str_split [of semicolon line] by auto
  then have "table_line line"
    using reads Cons.prems(3,4) by (simp add: table_line_def line_reads_def lines body hd_conv_nth)
  ultimately show ?case by (intro exI [of _ "line # ls"]) (simp add: body)
qed

lemma sourcetable_received:
  assumes "table_response line lines" and shown: "to_text table = Inr txt" and stable: "list_all stable_record (st_records table)"
    and small: "\<forall>c\<in>set txt. c < 0x80" "\<forall>l\<in>set (str_lines txt). length l < MAX_LINE" "length txt \<le> MAX_SOURCETABLE"
    and "concat fs = line @ [CR, LF] @ header_bytes lines @ str_bytes txt"
  shows "\<exists>m. client_pushes fs (requested config) = (m, [EvSourcetable table]) \<and> cm_state m = Closed"
proof -
  obtain body where body: "lines_text (st_records table) = Inr body" and split: "txt = body @ end_of_table @ [0x0D, 0x0A]"
    using shown by (auto simp: to_text_def end_of_table_def)
  from lines_text_lines [OF body stable, of "end_of_table @ [0x0D, 0x0A]"] small obtain ls where ls: "body = lines_of ls" "\<forall>l\<in>set ls. table_line l"
    by (auto simp: split)
  then have t: "txt = table_of ls" by (simp add: split table_of_def)
  have bytes: "str_bytes txt = ascii_bytes txt" unfolding ascii_bytes_def by (rule str_bytes_ascii [OF small(1)])
  show ?thesis
    using assms(1,7) ls(2) small(3) table_back [OF shown stable] bytes
    by (intro table_received [of line lines ls fs table config]) (simp_all add: t)
qed

end
