(* ===== verification/Ntrip_Limits.thy ===== *)
theory Ntrip_Limits
  imports Ntrip_Fragments
begin

text \<open>
  What holds of every client of \<^verbatim>\<open>ntrip/machine.rs\<close> whatever it is fed: the bound on the turns of a
  push, the memory it keeps, how a source table ends, and the pacing of position messages.
\<close>

section \<open>Turns\<close>

text \<open>The loop of \<open>client_push\<close> with a bound on its turns; \<open>None\<close> when the bound is reached.\<close>

fun client_turns :: "nat \<Rightarrow> ntrip_client \<Rightarrow> ntrip_event list \<Rightarrow> (ntrip_client \<times> ntrip_event list) option" where
  "client_turns 0 m events = None"
| "client_turns (Suc k) m events =
     (case client_step m of
        Continue (m', new_events) \<Rightarrow> client_turns k m' (events @ new_events)
      | Return (m', new_events) \<Rightarrow> Some (m', events @ new_events))"

lemma turns_enough: "client_measure m < k \<Longrightarrow> client_turns k m events = Some (client_loop m events)"
proof (induction k arbitrary: m events)
  case (Suc k)
  show ?case
  proof (cases "client_step m")
    case (Continue p)
    obtain n ev where p: "p = (n, ev)" by (cases p)
    with client_step_decreases [of m n ev] Continue Suc.prems have "client_measure n < k" by simp
    from Suc.IH [OF this] Continue p show ?thesis by (simp add: client_loop.simps [of m])
  next
    case (Return p)
    then show ?thesis by (cases p) (simp add: client_loop.simps [of m])
  qed
qed simp

lemma push_turns:
  assumes "cm_state m \<noteq> Closed"
  shows "client_turns (2 * length (cm_carry m @ bytes) + 2) (feed_client bytes m) [] = Some (client_push bytes m)"
proof -
  have "client_measure (feed_client bytes m) < 2 * length (cm_carry m @ bytes) + 2"
    by (simp add: client_measure_def split: ntrip_state.splits)
  from turns_enough [OF this] assms show ?thesis by (simp add: client_push_feed)
qed

section \<open>Memory\<close>

text \<open>The characters of the headers kept for the handshake.\<close>

definition header_chars :: "headers \<Rightarrow> nat" where
  "header_chars hs = sum_list (map (\<lambda>(name, val). length name + length val) hs)"

lemma header_chars_simps [simp]: "header_chars [] = 0"
  "header_chars (hs @ [h]) = header_chars hs + length (fst h) + length (snd h)"
  by (simp_all add: header_chars_def split: prod.splits)

lemma lossy_length: "length (from_utf8_lossy bytes) \<le> length bytes"
proof (induction bytes rule: from_utf8_lossy.induct)
  case (1 bytes)
  obtain c n where n: "utf8_next bytes = (c, n)" by fastforce
  show ?case
  proof (cases "bytes = []")
    case False
    with 1 [OF _ n [symmetric]] utf8_next_takes [OF n] n show ?thesis
      by (subst from_utf8_lossy.simps) (cases bytes; auto simp: Suc_le_eq)
  qed (simp add: from_utf8_lossy.simps)
qed

lemma trim_length: "length (trim s) \<le> length s"
  using length_dropWhile_le [of is_whitespace "rev (dropWhile is_whitespace s)"] length_dropWhile_le [of is_whitespace s]
  by (simp add: trim_def trim_start_def trim_end_def)

lemma split_header_length:
  assumes "split_header line = Some h"
  shows "length (fst h) + length (snd h) \<le> length line"
proof -
  obtain pos where pos: "iter_position (\<lambda>b. b = 0x3A) line = Some pos"
    using assms by (auto simp: split_header_def split: option.splits)
  then have "pos < length line" "fst h = trim (from_utf8_lossy (take pos line))"
    "snd h = from_utf8_lossy (drop (pos + 1) line) \<or> snd h = from_utf8_lossy (drop (pos + 2) line)"
    using assms iter_position_less [OF pos] by (auto simp: split_header_def Let_def split: if_splits)
  moreover have "length (trim (from_utf8_lossy (take pos line))) \<le> length (take pos line)"
    using trim_length lossy_length order_trans by blast
  ultimately show ?thesis
    using lossy_length [of "drop (pos + 1) line"] lossy_length [of "drop (pos + 2) line"] by auto
qed

definition client_limits :: "ntrip_client \<Rightarrow> bool" where
  "client_limits m \<longleftrightarrow> cm_state m = Closed \<or>
     header_chars (cm_headers m) \<le> cm_header_bytes m \<and> cm_header_bytes m \<le> MAX_HEADER_BLOCK \<and> length (str_bytes (cm_sourcetable_text m)) \<le> MAX_SOURCETABLE
     \<and> length (cd_buf (cm_chunk_decoder m)) \<le> CHUNK_MAX_LINE \<and> \<not> cd_finished (cm_chunk_decoder m)
     \<and> length (cm_sourcetable_carry m) \<le> MAX_LINE"

definition carry_limit :: "ntrip_client \<Rightarrow> bool" where
  "carry_limit m \<longleftrightarrow> cm_state m = Closed \<or> length (cm_carry m) \<le> MAX_LINE"

lemma take_line_limits:
  "take_line_or_reject m = (r, m', events) \<Longrightarrow>
     (case r of Some line \<Rightarrow> m' = m\<lparr>cm_carry := cm_carry m'\<rparr>
      | None \<Rightarrow> cm_state m' = Closed \<or> m' = m \<and> length (cm_carry m) \<le> MAX_LINE)"
  by (auto simp: take_line_or_reject_def reject_current_prefix_def reject_def split: option.splits if_splits)

lemma parse_status_limits:
  assumes "parse_status m = (r, m', events)" and "client_limits m" and "cm_state m = AwaitingStatus"
  shows "client_limits m' \<and> (r \<or> carry_limit m')"
proof -
  obtain q n ev where t: "take_line_or_reject m = (q, n, ev)" by (metis prod_cases3)
  show ?thesis
  proof (cases q)
    case None
    with assms take_line_limits [OF t] show ?thesis
      by (auto simp: parse_status_def t carry_limit_def client_limits_def)
  next
    case (Some line)
    with take_line_limits [OF t] obtain c where n: "n = m\<lparr>cm_carry := c\<rparr>" by auto
    from assms Some show ?thesis
      by (auto simp: parse_status_def t n reject_def client_limits_def Let_def split: option.splits if_splits)
  qed
qed

lemma parse_headers_limits:
  assumes "parse_headers m = (r, m', events)" and "client_limits m" and "cm_state m = AwaitingHeaders"
  shows "client_limits m' \<and> (r \<or> carry_limit m')"
proof -
  obtain q n ev where t: "take_line_or_reject m = (q, n, ev)" by (metis prod_cases3)
  show ?thesis
  proof (cases q)
    case None
    with assms take_line_limits [OF t] show ?thesis
      by (auto simp: parse_headers_def t carry_limit_def client_limits_def)
  next
    case (Some line)
    with take_line_limits [OF t] obtain c where n: "n = m\<lparr>cm_carry := c\<rparr>" by auto
    from assms Some show ?thesis
      by (auto simp: parse_headers_def t n reject_def reject_current_prefix_def client_limits_def Let_def
          split: option.splits if_splits http_classification.splits dest!: split_header_length)
  qed
qed

lemma chunk_push_limits:
  assumes "chunk_push bytes d = (Inr out, d')" and "\<not> cd_finished d" and "length (cd_buf d) \<le> CHUNK_MAX_LINE"
  shows "cd_finished d' \<or> length (cd_buf d') \<le> CHUNK_MAX_LINE"
  using assms chunk_loop_retains [of "d\<lparr>cd_buf := cd_buf d @ bytes\<rparr>" "[]" out d']
  by (auto simp: chunk_push_def split: option.splits)

lemma drain_body_limits:
  assumes "drain_body m = (m', events)" and "client_limits m" and "cm_state m = Streaming"
  shows "client_limits m' \<and> carry_limit m'"
  using assms chunk_push_limits [of "cm_carry m" "cm_chunk_decoder m"]
  by (auto simp: drain_body_def client_limits_def carry_limit_def Let_def split: prod.splits sum.splits if_splits)

lemma drain_payload_limits:
  assumes "drain_payload m = (m', events)" and "client_limits m" and "cm_state m = Streaming"
  shows "client_limits m' \<and> carry_limit m'"
proof (cases "cm_pending_icy_blank_line m")
  case True
  obtain r n where c: "consume_pending_icy_blank_line m = (r, n)" by fastforce
  have "client_limits n" "cm_state n = Streaming"
    using c assms(2,3) by (auto simp: consume_pending_icy_blank_line_def client_limits_def split: list.splits if_splits)
  moreover have "carry_limit n" if "\<not> r"
    using c that assms(2,3)
    by (auto simp: consume_pending_icy_blank_line_def carry_limit_def client_limits_def MAX_LINE_def split: list.splits if_splits)
  ultimately show ?thesis
    using assms(1) True c drain_body_limits [of n m' events] by (cases r) (auto simp: drain_payload_def)
qed (use assms drain_body_limits in \<open>auto simp: drain_payload_def\<close>)

text \<open>What the lines of a source table leave.\<close>

definition table_limits :: "ntrip_client \<Rightarrow> bool" where
  "table_limits m \<longleftrightarrow> header_chars (cm_headers m) \<le> cm_header_bytes m \<and> cm_header_bytes m \<le> MAX_HEADER_BLOCK \<and> length (str_bytes (cm_sourcetable_text m)) \<le> MAX_SOURCETABLE
     \<and> (\<not> cm_sourcetable_chunked m \<longrightarrow> length (cm_sourcetable_carry m) \<le> MAX_LINE)"

lemma push_line_limits:
  "push_sourcetable_line line m = (False, m', events) \<Longrightarrow> table_limits m \<Longrightarrow> table_limits m'"
  by (auto simp: push_sourcetable_line_def table_limits_def Let_def split: if_splits)

lemma drain_lines_limits:
  "drain_sourcetable_lines m = (False, m', events) \<Longrightarrow> table_limits m \<Longrightarrow>
     table_limits m' \<and> length (sourcetable_buffer m') \<le> MAX_LINE"
proof (induction m rule: drain_sourcetable_lines.induct)
  case (1 m)
  show ?case
  proof (cases "sourcetable_step m")
    case (Continue n)
    then obtain line b ev where "push_sourcetable_line line (set_sourcetable_buffer b m) = (False, n, ev)"
      by (auto simp: sourcetable_step_def split: option.splits prod.splits bool.splits if_splits)
    moreover have "table_limits (set_sourcetable_buffer b m)"
      using 1(3) by (simp add: table_limits_def set_sourcetable_buffer_def)
    ultimately have "table_limits n" by (rule push_line_limits)
    with 1(1) [OF Continue] 1(2) Continue show ?thesis by (simp add: drain_sourcetable_lines.simps [of m])
  next
    case (Return q)
    with 1(2,3) show ?thesis
      by (auto simp: drain_sourcetable_lines.simps [of m] sourcetable_step_def
          split: option.splits prod.splits bool.splits if_splits)
  qed
qed

lemma drain_sourcetable_limits:
  assumes "drain_sourcetable m = (r, m', events)" and "client_limits m" and st: "cm_state m = InSourcetable"
  shows "client_limits m' \<and> (r \<or> carry_limit m')"
proof (cases r)
  case True
  then show ?thesis using drain_sourcetable_facts [OF assms(1)] by (simp add: client_limits_def)
next
  case False
  note f = assms(1) [unfolded False [THEN eq_False [THEN iffD2]]]
  have m': "cm_state m' = InSourcetable" using drain_sourcetable_facts [OF assms(1)] False st by simp
  have t: "table_limits m" using assms(2) st by (auto simp: client_limits_def table_limits_def)
  show ?thesis
  proof (cases "cm_sourcetable_chunked m")
    case plain: False
    then have "drain_sourcetable_lines m = (False, m', events)" using f by (simp add: drain_sourcetable_def)
    from drain_lines_limits [OF this t] drain_lines_keep(1,2) [OF this] plain m' assms(2) st show ?thesis
      by (auto simp: client_limits_def table_limits_def carry_limit_def sourcetable_buffer_def)
  next
    case chunked: True
    obtain out d where n: "drain_sourcetable_tail (with_decoder d (grow out (m\<lparr>cm_carry := []\<rparr>))) = (False, m', events)"
      and d: "cd_finished d \<or> length (cd_buf d) \<le> CHUNK_MAX_LINE"
    proof (cases "cm_carry m = []")
      case True
      then show ?thesis
        using that [of "cm_chunk_decoder m" "[]"] f chunked assms(2) st by (simp add: drain_chunked no_carry client_limits_def)
    next
      case False
      then obtain out d where "chunk_push (cm_carry m) (cm_chunk_decoder m) = (Inr out, d)"
        and "drain_sourcetable_tail (with_decoder d (grow out (m\<lparr>cm_carry := []\<rparr>))) = (False, m', events)"
        using f chunked by (auto simp: drain_chunked split: prod.splits sum.splits)
      then show ?thesis using that chunk_push_limits assms(2) st by (auto simp: client_limits_def)
    qed
    define k where "k = with_decoder d (grow out (m\<lparr>cm_carry := []\<rparr>))"
    have lines: "drain_sourcetable_lines k = (False, m', [])" "\<not> cd_finished (cm_chunk_decoder m')"
      using drain_tail_waits [OF n] by (simp_all add: k_def)
    have "table_limits k" "cm_sourcetable_chunked k" "cm_carry k = []" "cm_chunk_decoder k = d"
      using t chunked by (simp_all add: k_def table_limits_def with_decoder_def grow_def set_sourcetable_buffer_def)
    with drain_lines_limits [OF lines(1)] drain_lines_keep [OF lines(1)] lines(2) d m' show ?thesis
      by (auto simp: client_limits_def table_limits_def carry_limit_def sourcetable_buffer_def)
  qed
qed


lemma client_step_limits:
  assumes "client_limits m" and "client_step m = Continue (m', events) \<or> client_step m = Return (m', events)"
  shows "client_limits m' \<and> (client_step m = Return (m', events) \<longrightarrow> carry_limit m')"
proof (cases "cm_state m")
  case Idle
  with assms show ?thesis by (auto simp: client_step_def client_limits_def)
next
  case Closed
  with assms show ?thesis by (auto simp: client_step_def carry_limit_def)
next
  case Streaming
  with assms drain_payload_limits [of m m' events] show ?thesis by (auto simp: client_step_def)
next
  case AwaitingStatus
  obtain r k ev where p: "parse_status m = (r, k, ev)" by (metis prod_cases3)
  with AwaitingStatus assms parse_status_limits [OF p] show ?thesis by (cases r) (auto simp: client_step_def)
next
  case AwaitingHeaders
  obtain r k ev where p: "parse_headers m = (r, k, ev)" by (metis prod_cases3)
  with AwaitingHeaders assms parse_headers_limits [OF p] show ?thesis by (cases r) (auto simp: client_step_def)
next
  case InSourcetable
  obtain r k ev where p: "drain_sourcetable m = (r, k, ev)" by (metis prod_cases3)
  with InSourcetable assms drain_sourcetable_limits [OF p] show ?thesis by (cases r) (auto simp: client_step_def)
qed

lemma client_loop_limits: "client_loop m [] = (m', events) \<Longrightarrow> client_limits m \<Longrightarrow> client_limits m' \<and> carry_limit m'"
proof (induction m arbitrary: events rule: measure_induct_rule [of client_measure])
  case (less m)
  show ?case
  proof (cases "client_step m")
    case (Continue p)
    obtain n ev where p: "p = (n, ev)" by (cases p)
    note st = Continue [unfolded p]
    from less.prems(1) client_loop_Continue [OF st] obtain e where "client_loop n [] = (m', e)" by blast
    from less.IH [OF client_step_decreases [OF st] this] client_step_limits [of m n ev] st less.prems(2) show ?thesis by blast
  next
    case (Return p)
    with client_loop_Return [of m "fst p" "snd p"] client_step_limits [of m "fst p" "snd p"] less.prems show ?thesis by auto
  qed
qed

lemma client_push_limits:
  assumes "client_push bytes m = (m', events)" and "client_limits m"
  shows "client_limits m' \<and> carry_limit m'"
proof (cases "cm_state m = Closed")
  case False
  have "client_limits (feed_client bytes m)" using assms(2) by (simp add: client_limits_def feed_client_def)
  with False client_loop_limits [of "feed_client bytes m"] assms(1) show ?thesis by (simp add: client_push_feed)
qed (use assms in \<open>simp add: client_push_def carry_limit_def\<close>)

lemma new_limits: "client_limits (client_new config)" "carry_limit (client_new config)"
  by (simp_all add: client_limits_def carry_limit_def client_new_def chunked_new_def str_bytes_def)

section \<open>Ends\<close>

text \<open>
  What the end of input makes of a source table: the text of the lines so far, and of the line that
  is still waiting for its end unless it comes before the first record and does not start one.
\<close>

definition last_line_counts :: "ntrip_client \<Rightarrow> bool" where
  "last_line_counts m \<longleftrightarrow> sourcetable_buffer m \<noteq> [] \<and>
     (cm_sourcetable_records_started m
      \<or> is_sourcetable_record_start (trim (hd (str_split (\<lambda>c. c = 0x3B) (from_utf8_lossy (sourcetable_buffer m)))))
      \<or> 0x3A \<notin> set (from_utf8_lossy (sourcetable_buffer m)))"

definition table_text :: "ntrip_client \<Rightarrow> rust_string" where
  "table_text m =
     (if last_line_counts m
      then cm_sourcetable_text m @ from_utf8_lossy (sourcetable_buffer m) @ [0x0D, 0x0A]
      else cm_sourcetable_text m)"

text \<open>Finishing a source table ends the session with the table of this text, or the reason there is none.\<close>

definition table_event :: "ntrip_client \<Rightarrow> ntrip_event" where
  "table_event m =
     (if last_line_counts m \<and> length (str_bytes (table_text m)) > MAX_SOURCETABLE
      then Rejected (MalformedHandshake (if cm_sourcetable_chunked m then take PREFIX_LIMIT (cm_carry m) else []))
      else (case parse_sourcetable (table_text m) of
          Inr table \<Rightarrow> EvSourcetable table
        | Inl err \<Rightarrow> StreamCorrupted (error_text err)))"

lemma lossy_empty: "from_utf8_lossy bytes = [] \<longleftrightarrow> bytes = []"
  by (subst from_utf8_lossy.simps) (auto split: list.splits prod.splits)

text \<open>Finishing a source table ends the session with the table of this text, or the reason there is none.\<close>

lemma finish_table:
  assumes "cm_state m = InSourcetable" and "client_finish m = (m', events)"
  shows "events = [table_event m] \<and> cm_state m' = Closed"
proof (cases "sourcetable_buffer m = []")
  case True
  with assms show ?thesis
    by (auto simp: client_finish_def finish_sourcetable_def table_event_def table_text_def last_line_counts_def)
next
  case False
  define n where "n = set_sourcetable_buffer [] m"
  have n: "cm_state n = InSourcetable" "cm_sourcetable_text n = cm_sourcetable_text m"
    "cm_sourcetable_records_started n = cm_sourcetable_records_started m"
    "cm_carry n = (if cm_sourcetable_chunked m then cm_carry m else [])"
    using assms(1) by (simp_all add: n_def set_sourcetable_buffer_def)
  show ?thesis
  proof (cases "last_line_counts m")
    case skipped: False
    with False n have "push_sourcetable_line (sourcetable_buffer m) n = (False, n, [])"
      by (auto simp: push_sourcetable_line_def last_line_counts_def Let_def lossy_empty)
    with assms n False skipped show ?thesis
      by (auto simp: client_finish_def n_def [symmetric] finish_sourcetable_def table_event_def table_text_def)
  next
    case True
    with assms n False show ?thesis
      by (auto simp: client_finish_def n_def [symmetric] push_sourcetable_line_def finish_sourcetable_def
          reject_current_prefix_def reject_def table_event_def table_text_def last_line_counts_def Let_def lossy_empty
          split: if_splits)
  qed
qed

lemma finish_closes: "cm_state m = InSourcetable \<Longrightarrow> cm_state (fst (client_finish m)) = Closed"
  using finish_table [of m "fst (client_finish m)" "snd (client_finish m)"] by simp

section \<open>Reachable clients\<close>

text \<open>
  A client through any sequence of its operations: fragments, ends of input, position messages (the
  formatter at hand already applied to its position), resets, and requests while it is not closed. A
  request on a closed client, which the code does not refuse, opens it again with the buffers of the
  finished response: what is below does not hold after it (\<open>reopened_keeps_input\<close>), and a caller has
  to reset the client first.
\<close>

inductive reachable :: "ntrip_config \<Rightarrow> ntrip_client \<Rightarrow> bool" for config where
  start: "reachable config (client_new config)"
| request: "reachable config m \<Longrightarrow> cm_state m \<noteq> Closed \<Longrightarrow> reachable config (snd (connection_request m))"
| pushed: "reachable config m \<Longrightarrow> reachable config (fst (client_push bytes m))"
| ended: "reachable config m \<Longrightarrow> reachable config (fst (client_finish m))"
| paced: "reachable config m \<Longrightarrow> reachable config (snd (try_gga_message (\<lambda>_ :: unit. format) now () utc m))"
| restarted: "reachable config m \<Longrightarrow> reachable config (client_reset m)"

definition client_frame :: "ntrip_client \<Rightarrow> ntrip_config \<times> f64 option" where
  "client_frame m = (cm_config m, cm_last_gga_s m)"

lemma frame_updates [simp]:
  "client_frame (m\<lparr>cm_state := s\<rparr>) = client_frame m" "client_frame (m\<lparr>cm_carry := c\<rparr>) = client_frame m"
  "client_frame (m\<lparr>cm_headers := h\<rparr>) = client_frame m" "client_frame (m\<lparr>cm_header_bytes := n\<rparr>) = client_frame m"
  "client_frame (m\<lparr>cm_status_version := v\<rparr>) = client_frame m" "client_frame (m\<lparr>cm_http_status := st\<rparr>) = client_frame m"
  "client_frame (m\<lparr>cm_http_reason := r\<rparr>) = client_frame m" "client_frame (m\<lparr>cm_chunked := b\<rparr>) = client_frame m"
  "client_frame (m\<lparr>cm_pending_icy_blank_line := b\<rparr>) = client_frame m"
  "client_frame (m\<lparr>cm_sourcetable_chunked := b\<rparr>) = client_frame m"
  "client_frame (m\<lparr>cm_chunk_decoder := d\<rparr>) = client_frame m" "client_frame (m\<lparr>cm_sourcetable_text := t\<rparr>) = client_frame m"
  "client_frame (m\<lparr>cm_sourcetable_carry := c\<rparr>) = client_frame m"
  "client_frame (m\<lparr>cm_sourcetable_records_started := b\<rparr>) = client_frame m"
  "client_frame (set_sourcetable_buffer c m) = client_frame m"
  by (simp_all add: client_frame_def set_sourcetable_buffer_def)

lemma line_frame:
  "take_line_or_reject m = (q, m', events) \<Longrightarrow> client_frame m' = client_frame m"
  "reject_current_prefix m = (m', events) \<Longrightarrow> client_frame m' = client_frame m"
  "reject x m = (m', events) \<Longrightarrow> client_frame m' = client_frame m"
  "finish_sourcetable m = (m', events) \<Longrightarrow> client_frame m' = client_frame m"
  by (auto simp: take_line_or_reject_def reject_current_prefix_def reject_def finish_sourcetable_def split: option.splits if_splits)

lemma push_line_frame: "push_sourcetable_line line m = (r, m', events) \<Longrightarrow> client_frame m' = client_frame m"
  by (auto simp: push_sourcetable_line_def Let_def split: if_splits dest: line_frame)

lemma drain_lines_frame: "drain_sourcetable_lines m = (r, m', events) \<Longrightarrow> client_frame m' = client_frame m"
proof (induction m rule: drain_sourcetable_lines.induct)
  case (1 m)
  then show ?case
    by (cases "sourcetable_step m")
      (auto simp: drain_sourcetable_lines.simps [of m] sourcetable_step_def split: option.splits prod.splits bool.splits if_splits
        dest!: push_line_frame line_frame)
qed

lemma drain_tail_frame: "drain_sourcetable_tail m = (r, m', events) \<Longrightarrow> client_frame m' = client_frame m"
  by (auto simp: drain_sourcetable_tail_def split: prod.splits bool.splits if_splits
      dest!: drain_lines_frame push_line_frame line_frame)

lemma client_step_frame:
  assumes "client_step m = Continue (m', events) \<or> client_step m = Return (m', events)"
  shows "client_frame m' = client_frame m"
proof -
  have status: "client_frame m' = client_frame m" if p: "parse_status m = (r, m', events)" for r
    using p by (auto simp: parse_status_def reject_def Let_def split: prod.splits option.splits if_splits dest!: line_frame)
  have hdrs: "client_frame m' = client_frame m" if p: "parse_headers m = (r, m', events)" for r
    using p by (auto simp: parse_headers_def Let_def reject_def reject_current_prefix_def
        split: prod.splits option.splits if_splits http_classification.splits dest!: line_frame(1))
  have body: "client_frame n = client_frame k" if "drain_body k = (n, ev)" for n k ev
    using that by (auto simp: drain_body_def Let_def split: prod.splits sum.splits if_splits)
  have payload: "client_frame m' = client_frame m" if p: "drain_payload m = (m', events)"
    using p by (auto simp: drain_payload_def consume_pending_icy_blank_line_def
        split: prod.splits bool.splits list.splits if_splits dest!: body)
  have table: "client_frame m' = client_frame m" if p: "drain_sourcetable m = (r, m', events)" for r
    using p by (auto simp: drain_sourcetable_def split: prod.splits sum.splits if_splits
        dest!: drain_tail_frame drain_lines_frame)
  show ?thesis
    using assms status hdrs payload table
    by (cases "cm_state m") (auto simp: client_step_def split: prod.splits if_splits)
qed

lemma client_loop_frame: "client_loop m [] = (m', events) \<Longrightarrow> client_frame m' = client_frame m"
proof (induction m arbitrary: events rule: measure_induct_rule [of client_measure])
  case (less m)
  show ?case
  proof (cases "client_step m")
    case (Continue p)
    obtain n ev where p: "p = (n, ev)" by (cases p)
    note st = Continue [unfolded p]
    from less.prems client_loop_Continue [OF st] obtain e where "client_loop n [] = (m', e)" by blast
    from less.IH [OF client_step_decreases [OF st] this] client_step_frame [of m n ev] st show ?thesis by simp
  next
    case (Return p)
    with client_loop_Return [of m "fst p" "snd p"] client_step_frame [of m "fst p" "snd p"] less.prems show ?thesis by auto
  qed
qed

lemma client_push_frame: "client_frame (fst (client_push bytes m)) = client_frame m"
  using client_loop_frame [of "m\<lparr>cm_carry := cm_carry m @ bytes\<rparr>"]
  by (cases "client_loop (m\<lparr>cm_carry := cm_carry m @ bytes\<rparr>) []") (auto simp: client_push_def)

lemma client_finish_frame: "client_frame (fst (client_finish m)) = client_frame m"
  using line_frame(4) [of m "fst (finish_sourcetable m)" "snd (finish_sourcetable m)"]
  by (auto simp: client_finish_def Let_def split: prod.splits if_splits dest!: push_line_frame line_frame)

definition client_ok :: "ntrip_config \<Rightarrow> ntrip_client \<Rightarrow> bool" where
  "client_ok config m \<longleftrightarrow> client_limits m \<and> carry_limit m \<and> cm_config m = config
     \<and> (\<forall>t. cm_last_gga_s m = Some t \<longrightarrow> f64_is_finite t)"

lemma client_ok_frame:
  "client_ok config m \<Longrightarrow> client_frame m' = client_frame m \<Longrightarrow> client_limits m' \<Longrightarrow> carry_limit m' \<Longrightarrow> client_ok config m'"
  by (auto simp: client_ok_def client_frame_def)

lemma reachable_ok: "reachable config m \<Longrightarrow> client_ok config m"
proof (induction rule: reachable.induct)
  case start
  show ?case using new_limits by (simp add: client_ok_def client_new_def)
next
  case (request m)
  then show ?case
    by (auto simp: connection_request_def client_ok_def client_limits_def carry_limit_def split: sum.splits)
next
  case (pushed m bytes)
  then show ?case
    using client_push_limits [of bytes m "fst (client_push bytes m)" "snd (client_push bytes m)"]
    by (intro client_ok_frame [OF _ client_push_frame]) (auto simp: client_ok_def)
next
  case (ended m)
  have "cm_state (fst (client_finish m)) = Closed \<or> fst (client_finish m) = m"
    using finish_closes [of m] by (auto simp: client_finish_def)
  with ended show ?case
    by (intro client_ok_frame [OF _ client_finish_frame]) (auto simp: client_ok_def client_limits_def carry_limit_def)
next
  case (paced m format now utc)
  then show ?case
    by (auto simp: try_gga_message_def client_ok_def client_limits_def carry_limit_def split: option.splits sum.splits)
next
  case (restarted m)
  then show ?case using new_limits by (simp add: client_ok_def client_reset_def) (simp add: client_new_def)
qed

text \<open>
  Why a closed client has to be reset: a line without an end is refused, and a request then opens
  the client with all of that line still waiting, however long it is.
\<close>

lemma reopened_keeps_input:
  assumes "MAX_LINE < length line" and "LF \<notin> set line" and "request_bytes config = Inr request"
    and "client_push line (client_new config) = (m, events)" and "connection_request m = (r, m')"
  shows "cm_state m = Closed \<and> events = [Rejected (MalformedHandshake (take PREFIX_LIMIT line))]
    \<and> r = Inr request \<and> cm_state m' = AwaitingStatus \<and> cm_carry m' = line"
proof -
  have "iter_position (\<lambda>b. b = LF) line = None" using assms(2) by (rule no_position)
  with assms(1) have "client_push line (client_new config)
      = ((client_new config)\<lparr>cm_carry := line, cm_state := Closed\<rparr>, [Rejected (MalformedHandshake (take PREFIX_LIMIT line))])"
    by (simp add: client_push_def client_new_def client_loop.simps client_step_def parse_status_def
        take_line_or_reject_def reject_current_prefix_def reject_def)
  with assms(3-5) show ?thesis by (auto simp: connection_request_def client_new_def)
qed

lemma paced_message:
  assumes "try_gga_message format now position utc m = (Inr (Some bytes), m')"
  shows "cm_state m = Streaming \<and> format position utc = Inr bytes \<and> cm_last_gga_s m' = Some now
    \<and> (\<forall>t interval. cm_last_gga_s m = Some t \<longrightarrow> nc_gga_interval_s (cm_config m) = Some interval
        \<longrightarrow> f64_ge now t \<and> f64_ge (f64_sub now t) interval)"
  using assms by (auto simp: try_gga_message_def gga_due_def split: if_splits option.splits sum.splits)

end
