(* ===== verification/Rust_Str.thy ===== *)
theory Rust_Str
  imports Rust_Float
begin

text \<open>
  Text handled by byte offsets, as the fixed-column readers handle it: a \<^verbatim>\<open>&str\<close> is the list of its
  UTF-8 bytes. The column helpers of \<^verbatim>\<open>format/columns.rs\<close>, the line iterator, the integer readers
  and writers, and what they do on ASCII text.
\<close>

type_synonym rust_str = "u8 list"

definition blit :: "string \<Rightarrow> rust_str" where
  "blit s = map of_char s"

definition blank :: u8 where
  "blank = 0x20"

section \<open>Characters of a byte string\<close>

text \<open>\<^verbatim>\<open>String::from_utf8_lossy(bytes).into_owned()\<close>.\<close>

definition lossy :: "u8 list \<Rightarrow> rust_str" where
  "lossy bytes = str_bytes (from_utf8_lossy bytes)"

definition first_char :: "rust_str \<Rightarrow> u32 option" where
  "first_char s = (case from_utf8_lossy s of [] \<Rightarrow> None | c # _ \<Rightarrow> Some c)"

definition str_trim :: "rust_str \<Rightarrow> rust_str" where
  "str_trim s = str_bytes (trim (from_utf8_lossy s))"

definition is_char_boundary :: "rust_str \<Rightarrow> nat \<Rightarrow> bool" where
  "is_char_boundary s i \<longleftrightarrow> i = 0 \<or> i = length s \<or> i < length s \<and> \<not> is_continuation (s ! i)"

section \<open>Columns\<close>

fun floor_from :: "rust_str \<Rightarrow> nat \<Rightarrow> nat" where
  "floor_from line 0 = 0"
| "floor_from line (Suc i) = (if is_char_boundary line (Suc i) then Suc i else floor_from line i)"

definition floor_char_boundary :: "rust_str \<Rightarrow> nat \<Rightarrow> nat" where
  "floor_char_boundary line index = floor_from line (min index (length line))"

definition raw_field :: "rust_str \<Rightarrow> nat \<Rightarrow> nat \<Rightarrow> rust_str" where
  "raw_field line start stop =
     (let s = floor_char_boundary line start; e = floor_char_boundary line stop
      in if e \<le> s then [] else drop s (take e line))"

definition raw_field_from :: "rust_str \<Rightarrow> nat \<Rightarrow> rust_str" where
  "raw_field_from line start = drop (floor_char_boundary line start) line"

text \<open>\<^verbatim>\<open>trim_end_matches\<close> of the line-end characters, and of the blank.\<close>

definition trim_eol :: "rust_str \<Rightarrow> rust_str" where
  "trim_eol s = rev (dropWhile (\<lambda>b. b = 0x0D \<or> b = 0x0A) (rev s))"

definition trim_blanks :: "rust_str \<Rightarrow> rust_str" where
  "trim_blanks s = rev (dropWhile (\<lambda>b. b = blank) (rev s))"

text \<open>\<^verbatim>\<open>str::lines\<close>: a line ends at a line feed, which it drops with one carriage return before it.\<close>

definition strip_cr :: "rust_str \<Rightarrow> rust_str" where
  "strip_cr s = (if s \<noteq> [] \<and> last s = 0x0D then butlast s else s)"

function text_lines :: "rust_str \<Rightarrow> rust_str list" where
  "text_lines s =
     (if s = [] then []
      else
        (let line = takeWhile (\<lambda>b. b \<noteq> 0x0A) s; rest = dropWhile (\<lambda>b. b \<noteq> 0x0A) s
         in if rest = [] then [line] else strip_cr line # text_lines (tl rest)))"
  by pat_completeness auto
termination
proof (relation "measure length")
  fix s rest :: rust_str and line
  assume "s \<noteq> []" and "rest = dropWhile (\<lambda>b. b \<noteq> 0x0A) s" and "rest \<noteq> []"
  then have "length rest \<le> length s" and "length (tl rest) < length rest"
    using length_dropWhile_le [of _ s] by simp_all
  then show "(tl rest, s) \<in> measure length" by simp
qed simp

declare text_lines.simps [simp del]

text \<open>The byte of a column as a \<^verbatim>\<open>char\<close>, which is pushed as UTF-8.\<close>

definition push_byte_char :: "u8 \<Rightarrow> rust_str" where
  "push_byte_char b = char_utf8 (ucast b)"

text \<open>\<^verbatim>\<open>split_once\<close> of one ASCII character.\<close>

definition byte_split_once :: "u8 \<Rightarrow> rust_str \<Rightarrow> (rust_str \<times> rust_str) option" where
  "byte_split_once c s =
     (let before = takeWhile (\<lambda>b. b \<noteq> c) s
      in if length before < length s then Some (before, drop (length before + 1) s) else None)"

section \<open>Integers\<close>

definition parse_usize :: "rust_str \<Rightarrow> nat option" where
  "parse_usize s = parse_uint (2 ^ 64) (map ucast s)"

lemma parse_usize_code [code]:
  "parse_usize s =
     (let digits = (case map ucast s of c # cs \<Rightarrow> if c = 0x2B then cs else map ucast s | [] \<Rightarrow> [])
      in if digits \<noteq> [] \<and> list_all is_digit digits \<and> int (decimal_value digits) < 2 ^ 64
         then Some (decimal_value digits) else None)"
proof -
  have "decimal_value ds < 2 ^ 64 \<longleftrightarrow> int (decimal_value ds) < 2 ^ 64" for ds
    using of_nat_less_iff [of "decimal_value ds" "2 ^ 64", where ?'a = int] by simp
  then show ?thesis by (simp add: parse_usize_def parse_uint_def Let_def)
qed

definition parse_byte :: "rust_str \<Rightarrow> nat option" where
  "parse_byte s = parse_uint (2 ^ 8) (map ucast s)"

definition byte_is_digit :: "u8 \<Rightarrow> bool" where
  "byte_is_digit b \<longleftrightarrow> 0x30 \<le> b \<and> b \<le> 0x39"

definition parse_i64 :: "rust_str \<Rightarrow> int option" where
  "parse_i64 s =
     (let negative = (s \<noteq> [] \<and> hd s = 0x2D);
          digits = (if s \<noteq> [] \<and> (hd s = 0x2D \<or> hd s = 0x2B) then tl s else s);
          v = (if negative then - int (decimal_value (map ucast digits)) else int (decimal_value (map ucast digits)))
      in if digits \<noteq> [] \<and> list_all byte_is_digit digits \<and> fits_i 64 v then Some v else None)"

definition show_nat :: "nat \<Rightarrow> rust_str" where
  "show_nat n = blit (dec n)"

definition show_int :: "int \<Rightarrow> rust_str" where
  "show_int v = (if v < 0 then 0x2D # show_nat (nat (- v)) else show_nat (nat v))"

text \<open>\<^verbatim>\<open>{:0>w$}\<close> of a number and \<^verbatim>\<open>{:>w$}\<close>, \<^verbatim>\<open>{:<w$}\<close> of a text.\<close>

definition zero_filled :: "nat \<Rightarrow> nat \<Rightarrow> rust_str" where
  "zero_filled width n = replicate (width - length (show_nat n)) 0x30 @ show_nat n"

definition right_aligned :: "nat \<Rightarrow> rust_str \<Rightarrow> rust_str" where
  "right_aligned width s = replicate (width - length (from_utf8_lossy s)) blank @ s"

definition left_aligned :: "nat \<Rightarrow> rust_str \<Rightarrow> rust_str" where
  "left_aligned width s = s @ replicate (width - length (from_utf8_lossy s)) blank"

definition checked_i64 :: "int \<Rightarrow> int option" where
  "checked_i64 v = (if fits_i 64 v then Some v else None)"

section \<open>ASCII text\<close>

definition ascii :: "rust_str \<Rightarrow> bool" where
  "ascii s \<longleftrightarrow> list_all (\<lambda>b. b < 0x80) s"

lemma ascii_simps [simp]:
  "ascii []" "ascii (b # s) \<longleftrightarrow> b < 0x80 \<and> ascii s" "ascii (s @ t) \<longleftrightarrow> ascii s \<and> ascii t"
  "ascii (rev s) \<longleftrightarrow> ascii s" "ascii (replicate n b) \<longleftrightarrow> n = 0 \<or> b < 0x80"
  by (auto simp: ascii_def list_all_iff)

lemma ascii_subset: "ascii t \<Longrightarrow> set s \<subseteq> set t \<Longrightarrow> ascii s"
  by (auto simp: ascii_def list_all_iff)

lemma ascii_parts [simp]:
  "ascii s \<Longrightarrow> ascii (take n s)" "ascii s \<Longrightarrow> ascii (drop n s)" "ascii s \<Longrightarrow> ascii (takeWhile p s)"
  "ascii s \<Longrightarrow> ascii (dropWhile p s)" "ascii s \<Longrightarrow> ascii (trim_blanks s)" "ascii s \<Longrightarrow> ascii (trim_eol s)"
  by (auto simp: ascii_def list_all_iff trim_blanks_def trim_eol_def
      dest: in_set_takeD in_set_dropD set_takeWhileD set_dropWhileD)

lemma ascii_chars [simp]: "ascii s \<Longrightarrow> from_utf8_lossy s = map ucast s"
  by (rule ascii_lossy) (simp add: ascii_def list_all_iff)

lemma ascii_char_utf8: "b < 0x80 \<Longrightarrow> char_utf8 (ucast (b :: u8)) = [b]"
proof -
  have "(ucast (ucast b :: u32) :: u8) = b" by (rule bit_word_eqI) (simp add: bit_simps)
  moreover assume "b < 0x80"
  then have "(ucast b :: u32) < 0x80"
    by (simp add: word_less_nat_alt unsigned_ucast_eq take_bit_eq_mod)
  ultimately show ?thesis by (simp add: char_utf8_def)
qed

lemma ascii_str_bytes [simp]: "ascii s \<Longrightarrow> str_bytes (map ucast s) = s"
  by (induction s) (simp_all add: str_bytes_def ascii_char_utf8)

lemma ascii_lossy_id [simp]: "ascii s \<Longrightarrow> lossy s = s"
  by (simp add: lossy_def)

lemma ascii_first_char [simp]: "ascii s \<Longrightarrow> first_char s = (case s of [] \<Rightarrow> None | b # _ \<Rightarrow> Some (ucast b))"
  by (cases s) (simp_all add: first_char_def)

definition byte_is_space :: "u8 \<Rightarrow> bool" where
  "byte_is_space b \<longleftrightarrow> 0x09 \<le> b \<and> b \<le> 0x0D \<or> b = 0x20"

lemma ascii_space: "b < 0x80 \<Longrightarrow> is_whitespace (ucast (b :: u8)) \<longleftrightarrow> byte_is_space b"
  by (auto simp: is_whitespace_def byte_is_space_def word_le_nat_alt word_less_nat_alt unsigned_ucast_eq
      take_bit_eq_mod word_unat_eq_iff)

definition byte_trim :: "rust_str \<Rightarrow> rust_str" where
  "byte_trim s = rev (dropWhile byte_is_space (rev (dropWhile byte_is_space s)))"

lemma ascii_dropWhile_space:
  "ascii s \<Longrightarrow> dropWhile is_whitespace (map ucast s) = map ucast (dropWhile byte_is_space s)"
  by (induction s) (simp_all add: ascii_space)

lemma ascii_trim [simp]: "ascii s \<Longrightarrow> str_trim s = byte_trim s"
  by (simp add: str_trim_def trim_def trim_start_def trim_end_def ascii_dropWhile_space byte_trim_def
      rev_map)

lemma ascii_byte_trim [simp]: "ascii s \<Longrightarrow> ascii (byte_trim s)"
  by (simp add: byte_trim_def)

lemma byte_trim_word:
  "s = [] \<or> \<not> byte_is_space (hd s) \<and> \<not> byte_is_space (last s) \<Longrightarrow> byte_trim s = s"
proof (cases "s = []")
  case False
  moreover assume "s = [] \<or> \<not> byte_is_space (hd s) \<and> \<not> byte_is_space (last s)"
  ultimately have "dropWhile byte_is_space s = s" and "dropWhile byte_is_space (rev s) = rev s"
    by (simp_all add: dropWhile_eq_self_iff hd_rev)
  then show ?thesis by (simp add: byte_trim_def)
qed (simp add: byte_trim_def)

lemma byte_trim_empty: "byte_trim s = [] \<longleftrightarrow> list_all byte_is_space s"
proof -
  have "byte_trim s = [] \<longleftrightarrow> dropWhile byte_is_space (rev (dropWhile byte_is_space s)) = []"
    by (simp add: byte_trim_def)
  also have "\<dots> \<longleftrightarrow> list_all byte_is_space (dropWhile byte_is_space s)"
    by (simp add: list_all_iff dropWhile_eq_Nil_conv)
  also have "\<dots> \<longleftrightarrow> list_all byte_is_space s" by (induction s) auto
  finally show ?thesis .
qed

lemma ascii_boundary [simp]: "ascii s \<Longrightarrow> is_char_boundary s i \<longleftrightarrow> i \<le> length s"
proof -
  have "b < 0x80 \<Longrightarrow> \<not> is_continuation b" for b :: u8
  proof -
    have "b AND 0xC0 \<le> b" by (metis word_and_le1 word_and_le2)
    then show "b < 0x80 \<Longrightarrow> \<not> is_continuation b" by (auto simp: is_continuation_def)
  qed
  then show "ascii s \<Longrightarrow> is_char_boundary s i \<longleftrightarrow> i \<le> length s"
    by (auto simp: is_char_boundary_def ascii_def list_all_length)
qed

lemma ascii_floor [simp]: "ascii s \<Longrightarrow> floor_char_boundary s i = min i (length s)"
proof -
  assume s: "ascii s"
  have "floor_from s i = i" if "i \<le> length s" for i
    using that s by (induction i) auto
  then show ?thesis by (simp add: floor_char_boundary_def)
qed

lemma ascii_raw_field [simp]: "ascii s \<Longrightarrow> raw_field s a b = drop a (take b s)"
  by (auto simp: raw_field_def Let_def min_def)

lemma ascii_raw_field_from [simp]: "ascii s \<Longrightarrow> raw_field_from s a = drop a s"
  by (auto simp: raw_field_from_def min_def)

section \<open>Lines back from their text\<close>

definition text_of :: "rust_str list \<Rightarrow> rust_str" where
  "text_of ls = concat (map (\<lambda>l. l @ [0x0A]) ls)"

definition clean_line :: "rust_str \<Rightarrow> bool" where
  "clean_line l \<longleftrightarrow> list_all (\<lambda>b. b < 0x80 \<and> b \<noteq> 0x0A \<and> b \<noteq> 0x0D) l"

lemma clean_line_simps [simp]:
  "clean_line []" "clean_line (b # s) \<longleftrightarrow> b < 0x80 \<and> b \<noteq> 0x0A \<and> b \<noteq> 0x0D \<and> clean_line s"
  "clean_line (s @ t) \<longleftrightarrow> clean_line s \<and> clean_line t"
  "clean_line (replicate n b) \<longleftrightarrow> n = 0 \<or> b < 0x80 \<and> b \<noteq> 0x0A \<and> b \<noteq> 0x0D"
  by (auto simp: clean_line_def list_all_iff)

lemma clean_ascii [simp]: "clean_line l \<Longrightarrow> ascii l"
  by (auto simp: clean_line_def ascii_def list_all_iff)

lemma clean_subset: "clean_line t \<Longrightarrow> set s \<subseteq> set t \<Longrightarrow> clean_line s"
  by (auto simp: clean_line_def list_all_iff)

lemma clean_parts [simp]:
  "clean_line s \<Longrightarrow> clean_line (take n s)" "clean_line s \<Longrightarrow> clean_line (drop n s)"
  "clean_line s \<Longrightarrow> clean_line (takeWhile p s)" "clean_line s \<Longrightarrow> clean_line (dropWhile p s)"
  "clean_line s \<Longrightarrow> clean_line (trim_blanks s)"
  by (fastforce simp: clean_line_def list_all_iff trim_blanks_def
      dest: in_set_takeD in_set_dropD set_takeWhileD set_dropWhileD)+

lemma clean_trim_eol [simp]: "clean_line l \<Longrightarrow> trim_eol l = l"
  by (cases l rule: rev_cases) (auto simp: trim_eol_def)

lemma clean_strip_cr [simp]: "clean_line l \<Longrightarrow> strip_cr l = l"
  by (cases l rule: rev_cases) (auto simp: strip_cr_def)

lemma text_lines_text_of [simp]: "\<forall>l\<in>set ls. clean_line l \<Longrightarrow> text_lines (text_of ls) = ls"
proof (induction ls)
  case Nil
  then show ?case by (simp add: text_of_def text_lines.simps)
next
  case (Cons l ls)
  then have "takeWhile (\<lambda>b. b \<noteq> 0x0A) (l @ 0x0A # text_of ls) = l"
    and "dropWhile (\<lambda>b. b \<noteq> 0x0A) (l @ 0x0A # text_of ls) = 0x0A # text_of ls"
    by (auto simp: clean_line_def list_all_iff)
  moreover have "text_of (l # ls) = l @ 0x0A # text_of ls" by (simp add: text_of_def)
  ultimately show ?case using Cons by (simp add: text_lines.simps [of "l @ _"])
qed

lemma text_of_append [simp]: "text_of (a @ b) = text_of a @ text_of b"
  by (simp add: text_of_def)

section \<open>Integers back from their text\<close>

lemma blit_simps [simp]: "blit [] = []" "blit (a @ b) = blit a @ blit b"
  by (simp_all add: blit_def)

lemma digit_byte: "d < 10 \<Longrightarrow> (of_char (char_of (48 + d)) :: u8) = of_nat (48 + d)"
  by (subst of_nat_of_char [symmetric]) (simp del: of_nat_of_char of_nat_add)

lemma show_nat_step:
  "show_nat n = (if n < 10 then [of_nat (48 + n)] else show_nat (n div 10) @ [of_nat (48 + n mod 10)])"
  using digit_byte [of n] digit_byte [of "n mod 10"]
  by (subst dec.simps [of n, THEN arg_cong [of _ _ blit], folded show_nat_def])
    (simp add: show_nat_def blit_def)

lemma show_nat_chars: "map ucast (show_nat n) = (lit (dec n) :: u32 list)"
proof (induction n rule: dec.induct)
  case (1 n)
  have d: "(ucast (of_nat (48 + d) :: u8) :: u32) = of_char (char_of (48 + d))" if "d < 10" for d
  proof -
    have "(of_char (char_of (48 + d)) :: u32) = of_nat (48 + d)"
      using that by (subst of_nat_of_char [symmetric]) (simp del: of_nat_of_char of_nat_add)
    moreover have "(ucast (of_nat (48 + d) :: u8) :: u32) = of_nat (48 + d)"
      using that by (simp add: word_unat_eq_iff unsigned_ucast_eq unat_of_nat take_bit_eq_mod del: of_nat_add)
    ultimately show ?thesis by simp
  qed
  show ?case
    using 1 d [of n] d [of "n mod 10"] by (subst show_nat_step, subst dec.simps) (simp add: lit_def)
qed

lemma show_nat_digits: "list_all byte_is_digit (show_nat n)" "show_nat n \<noteq> []"
proof (induction n rule: dec.induct)
  case (1 n)
  have d: "byte_is_digit (of_nat (48 + d))" if "d < 10" for d
    using that by (simp add: byte_is_digit_def word_le_nat_alt unat_of_nat del: of_nat_add)
  { case 1
    show ?case using "1.IH" d [of n] d [of "n mod 10"] by (subst show_nat_step) simp }
  { case 2
    show ?case by (subst show_nat_step) simp }
qed

lemma show_nat_value: "decimal_value (map ucast (show_nat n)) = n"
  by (simp add: show_nat_chars dec_value)

lemma length_show_nat: "length (show_nat n) = length (dec n)"
  by (simp add: show_nat_def blit_def)

lemma digit_clean: "byte_is_digit b \<Longrightarrow> b < 0x80 \<and> b \<noteq> 0x0A \<and> b \<noteq> 0x0D \<and> \<not> byte_is_space b \<and> b \<notin> {0x20, 0x26, 0x2B, 0x2D, 0x2E}"
  by (auto simp: byte_is_digit_def byte_is_space_def word_le_nat_alt word_less_nat_alt)

lemma show_nat_hd: "byte_is_digit (hd (show_nat n))"
  using show_nat_digits [of n] by (cases "show_nat n") auto

lemma parse_i64_digits:
  assumes "ds \<noteq> []" and "list_all byte_is_digit ds" and "decimal_value (map ucast ds) < 2 ^ 63"
  shows "parse_i64 ds = Some (int (decimal_value (map ucast ds)))"
  using assms digit_clean [of "hd ds"]
  by (cases ds) (auto simp: parse_i64_def fits_i_def)

lemma parse_i64_show [simp]: "fits_i 64 v \<Longrightarrow> parse_i64 (show_int v) = Some v"
proof (cases "v < 0")
  case True
  moreover assume "fits_i 64 v"
  ultimately show ?thesis
    using show_nat_digits [of "nat (- v)"] by (simp add: show_int_def parse_i64_def show_nat_value)
next
  case False
  moreover assume "fits_i 64 v"
  ultimately show ?thesis
    using show_nat_digits [of "nat v"] parse_i64_digits [of "show_nat (nat v)"]
    by (simp add: show_int_def show_nat_value fits_i_def nat_less_iff)
qed

lemma show_int_bytes:
  "b \<in> set (show_int v) \<Longrightarrow> b = 0x2D \<or> byte_is_digit b"
  using show_nat_digits by (auto simp: show_int_def list_all_iff split: if_splits)

lemma parse_uint_digits:
  assumes "ds \<noteq> []" and "list_all byte_is_digit ds" and "decimal_value (map ucast ds) < bound"
  shows "parse_uint bound (map ucast ds) = Some (decimal_value (map ucast ds))"
proof -
  have "is_digit (ucast b)" if "byte_is_digit b" for b :: u8
    using that by (simp add: is_digit_def byte_is_digit_def word_le_nat_alt unsigned_ucast_eq take_bit_nat_eq_self)
  moreover have "(ucast b :: u32) \<noteq> 0x2B" if "byte_is_digit b" for b :: u8
    using that by (simp add: byte_is_digit_def word_le_nat_alt word_unat_eq_iff unsigned_ucast_eq take_bit_nat_eq_self)
  ultimately show ?thesis
    using assms by (cases ds) (auto simp: parse_uint_def list_all_iff)
qed

lemma parse_usize_show [simp]: "n < 2 ^ 64 \<Longrightarrow> parse_usize (show_nat n) = Some n"
  using show_nat_digits [of n] parse_uint_digits [of "show_nat n" "2 ^ 64"]
  by (simp add: parse_usize_def show_nat_value)

end
