(* ===== verification/Crinex_Diff.thy ===== *)
theory Crinex_Diff
  imports Rust_Str
begin

text \<open>
  The two difference engines of \<^verbatim>\<open>crinex/mod.rs\<close>: integer differences of the observation columns and
  of the receiver clock, text differences of the epoch lines and of the flags. Each engine recovers
  what the compressor of the format differences: the iterated difference \<open>nabla\<close> of a numeric
  column, and the blank-means-unchanged overlay of a line.
\<close>

section \<open>Integer differences\<close>

definition MAX_ORDER :: nat where
  "MAX_ORDER = 6"

record num_diff =
  nd_m :: nat
  nd_level :: nat
  nd_buf :: "int list"

definition num_new :: "int \<Rightarrow> nat \<Rightarrow> num_diff" where
  "num_new value level = \<lparr>nd_m = 0, nd_level = level, nd_buf = (replicate MAX_ORDER 0)[0 := value]\<rparr>"

definition num_rotate :: "num_diff \<Rightarrow> int \<Rightarrow> num_diff" where
  "num_rotate e value = e\<lparr>nd_buf := (take 1 (nd_buf e) @ take (MAX_ORDER - 1) (nd_buf e))[0 := value]\<rparr>"

definition num_force_init :: "num_diff \<Rightarrow> int \<Rightarrow> nat \<Rightarrow> num_diff" where
  "num_force_init e value level = num_rotate (e\<lparr>nd_m := 0, nd_level := level\<rparr>) value"

fun checked_diff_sum :: "int \<Rightarrow> (int \<times> int) list \<Rightarrow> int option" where
  "checked_diff_sum acc [] = Some acc"
| "checked_diff_sum acc ((coefficient, value) # terms) =
     (case checked_i64 (\<bar>coefficient\<bar> * value) of
        None \<Rightarrow> None
      | Some t \<Rightarrow>
          (case checked_i64 (if coefficient \<ge> 0 then acc + t else acc - t) of
             None \<Rightarrow> None
           | Some acc' \<Rightarrow> checked_diff_sum acc' terms))"

definition next_order :: "num_diff \<Rightarrow> nat" where
  "next_order e = (if nd_m e < nd_level e then nd_m e + 1 else nd_m e)"

definition diff_terms :: "nat \<Rightarrow> int list \<Rightarrow> (int \<times> int) list" where
  "diff_terms m b =
     (if m = 1 then [(1, b ! 0)]
      else if m = 2 then [(2, b ! 0), (-1, b ! 1)]
      else if m = 3 then [(3, b ! 0), (-3, b ! 1), (1, b ! 2)]
      else if m = 4 then [(4, b ! 0), (-6, b ! 1), (4, b ! 2), (-1, b ! 3)]
      else if m = 5 then [(5, b ! 0), (-10, b ! 1), (10, b ! 2), (-5, b ! 3), (1, b ! 4)]
      else if m = 6 then [(6, b ! 0), (-15, b ! 1), (20, b ! 2), (-15, b ! 3), (6, b ! 4), (-1, b ! 5)]
      else [(1, b ! 0)])"

definition num_decompress :: "num_diff \<Rightarrow> int \<Rightarrow> (num_diff \<times> int) option" where
  "num_decompress e delta =
     (let m = next_order e in
      case checked_diff_sum delta (diff_terms m (nd_buf e)) of
        None \<Rightarrow> None
      | Some value \<Rightarrow> Some (num_rotate (e\<lparr>nd_m := m\<rparr>) value, value))"

text \<open>A live engine: an order the format allows and a full history of 64-bit values.\<close>

definition num_typed :: "num_diff \<Rightarrow> bool" where
  "num_typed e \<longleftrightarrow>
     1 \<le> nd_level e \<and> nd_level e \<le> MAX_ORDER \<and> nd_m e \<le> nd_level e \<and>
     length (nd_buf e) = MAX_ORDER \<and> list_all (fits_i 64) (nd_buf e)"

lemma six: "length b = MAX_ORDER \<Longrightarrow> \<exists>b0 b1 b2 b3 b4 b5. b = [b0, b1, b2, b3, b4, b5]"
  by (auto simp: MAX_ORDER_def length_Suc_conv numeral_eq_Suc)

lemma num_new_typed: "fits_i 64 v \<Longrightarrow> 1 \<le> level \<Longrightarrow> level \<le> MAX_ORDER \<Longrightarrow> num_typed (num_new v level)"
  by (simp add: num_typed_def num_new_def MAX_ORDER_def numeral_eq_Suc fits_i_def)

lemma num_rotate_typed: "num_typed e \<Longrightarrow> fits_i 64 v \<Longrightarrow> num_typed (num_rotate e v)"
  using six [of "nd_buf e"] by (auto simp: num_typed_def num_rotate_def MAX_ORDER_def numeral_eq_Suc)

lemma num_force_init_typed:
  "num_typed e \<Longrightarrow> fits_i 64 v \<Longrightarrow> 1 \<le> level \<Longrightarrow> level \<le> MAX_ORDER \<Longrightarrow> num_typed (num_force_init e v level)"
  unfolding num_force_init_def by (rule num_rotate_typed) (simp_all add: num_typed_def)

lemma next_order_range: "num_typed e \<Longrightarrow> next_order e \<in> {1, 2, 3, 4, 5, 6}"
  by (auto simp: num_typed_def next_order_def MAX_ORDER_def)

lemma checked_diff_sum_fits:
  "checked_diff_sum acc terms = Some v \<Longrightarrow> fits_i 64 acc \<Longrightarrow> fits_i 64 v"
  by (induction acc terms rule: checked_diff_sum.induct)
    (auto simp: checked_i64_def split: if_splits)

lemma num_decompress_typed:
  assumes "num_typed e" and "fits_i 64 d" and "num_decompress e d = Some (e', v)"
  shows "num_typed e'" "fits_i 64 v"
proof -
  have "num_typed (e\<lparr>nd_m := next_order e\<rparr>)"
    using assms(1) by (simp add: num_typed_def next_order_def)
  then show "num_typed e'" "fits_i 64 v"
    using assms(2,3) checked_diff_sum_fits num_rotate_typed
    by (auto simp: num_decompress_def Let_def split: option.splits)
qed

subsection \<open>What the sums undo\<close>

text \<open>The \<open>m\<close>-th backward difference of a sequence, most recent value first.\<close>

fun nabla :: "nat \<Rightarrow> int list \<Rightarrow> int" where
  "nabla 0 xs = hd xs"
| "nabla (Suc m) xs = nabla m xs - nabla m (tl xs)"

lemma checked_diff_sum_value:
  "checked_diff_sum acc terms = Some v \<Longrightarrow> v = acc + (\<Sum>(c, b)\<leftarrow>terms. c * b)"
  by (induction terms arbitrary: acc) (fastforce simp: checked_i64_def split: if_splits)+

lemma diff_terms_nabla:
  assumes "length b = MAX_ORDER" and "m \<in> {1, 2, 3, 4, 5, 6}"
  shows "nabla m (v # b) = v - (\<Sum>(c, x)\<leftarrow>diff_terms m b. c * x)"
proof -
  obtain b0 b1 b2 b3 b4 b5 where "b = [b0, b1, b2, b3, b4, b5]" using six assms(1) by blast
  then show ?thesis using assms(2) by (auto simp: diff_terms_def numeral_eq_Suc)
qed

lemma num_decompress_nabla:
  assumes "num_typed e" and "num_decompress e d = Some (e', v)"
  shows "nabla (next_order e) (v # nd_buf e) = d" "hd (nd_buf e') = v"
proof -
  have e: "length (nd_buf e) = MAX_ORDER" using assms(1) by (simp add: num_typed_def)
  from assms(2) have "checked_diff_sum d (diff_terms (next_order e) (nd_buf e)) = Some v"
    and e': "e' = num_rotate (e\<lparr>nd_m := next_order e\<rparr>) v"
    by (auto simp: num_decompress_def Let_def split: option.splits)
  from checked_diff_sum_value [OF this(1)] show "nabla (next_order e) (v # nd_buf e) = d"
    using diff_terms_nabla [OF e next_order_range [OF assms(1)]] by simp
  show "hd (nd_buf e') = v" using six [OF e] by (auto simp: e' num_rotate_def)
qed

text \<open>
  Values of at most 56 bits keep every partial sum within 64 bits: the coefficients of order six
  sum to 63 in magnitude and a sixth difference is at most 64 values.
\<close>

definition small_value :: "int \<Rightarrow> bool" where
  "small_value v \<longleftrightarrow> \<bar>v\<bar> \<le> 2 ^ 56"

definition num_small :: "num_diff \<Rightarrow> bool" where
  "num_small e \<longleftrightarrow> num_typed e \<and> list_all small_value (nd_buf e)"

definition num_compress :: "num_diff \<Rightarrow> int \<Rightarrow> int" where
  "num_compress e v = nabla (next_order e) (v # nd_buf e)"

lemma small_fits: "small_value v \<Longrightarrow> fits_i 64 v"
  by (auto simp: small_value_def fits_i_def)

lemma checked_diff_sum_bounded:
  assumes "\<forall>(c, x)\<in>set terms. \<bar>x\<bar> \<le> 2 ^ 56" and "\<forall>(c, x)\<in>set terms. \<bar>c\<bar> \<le> 20"
    and "\<bar>acc\<bar> + (\<Sum>(c, x)\<leftarrow>terms. \<bar>c\<bar>) * 2 ^ 56 < 2 ^ 63"
  shows "checked_diff_sum acc terms = Some (acc + (\<Sum>(c, x)\<leftarrow>terms. c * x))"
  using assms
proof (induction acc terms rule: checked_diff_sum.induct)
  case (2 acc c x terms)
  have x: "\<bar>x\<bar> \<le> 2 ^ 56" and c: "\<bar>c\<bar> \<le> 20" using "2.prems"(1,2) by auto
  have t: "\<bar>c * x\<bar> \<le> \<bar>c\<bar> * 2 ^ 56" using x by (simp add: abs_mult mult_left_mono)
  have t20: "\<bar>c\<bar> * 2 ^ 56 \<le> 20 * 2 ^ 56" using c by simp
  have rest: "0 \<le> (\<Sum>(c, x)\<leftarrow>terms. \<bar>c\<bar>) * 2 ^ 56" by (auto intro!: sum_list_nonneg)
  have sum: "\<bar>acc\<bar> + \<bar>c\<bar> * 2 ^ 56 + (\<Sum>(c, x)\<leftarrow>terms. \<bar>c\<bar>) * 2 ^ 56 < 2 ^ 63"
    using "2.prems"(3) by (simp add: distrib_right)
  have acc: "\<bar>acc + c * x\<bar> \<le> \<bar>acc\<bar> + \<bar>c\<bar> * 2 ^ 56" using t abs_triangle_ineq [of acc "c * x"] by linarith
  have "\<bar>acc + c * x\<bar> + (\<Sum>(c, x)\<leftarrow>terms. \<bar>c\<bar>) * 2 ^ 56 < 2 ^ 63" using acc sum by linarith
  moreover have "\<bar>\<bar>c\<bar> * x\<bar> \<le> 20 * 2 ^ 56" using t t20 by (simp add: abs_mult)
  then have "fits_i 64 (\<bar>c\<bar> * x)" by (simp add: fits_i_def abs_le_iff)
  moreover have "fits_i 64 (acc + c * x)" using acc sum rest by (auto simp: fits_i_def abs_le_iff)
  moreover have "(if 0 \<le> c then acc + \<bar>c\<bar> * x else acc - \<bar>c\<bar> * x) = acc + c * x" by simp
  ultimately show ?case
    using "2.IH" [of "\<bar>c\<bar> * x" "acc + c * x"] "2.prems"(1,2) by (simp add: checked_i64_def)
qed simp

lemma nabla_bound: "m < length xs \<Longrightarrow> \<forall>x\<in>set xs. \<bar>x\<bar> \<le> B \<Longrightarrow> \<bar>nabla m xs\<bar> \<le> 2 ^ m * B"
proof (induction m arbitrary: xs)
  case (Suc m)
  then have "\<bar>nabla m xs\<bar> \<le> 2 ^ m * B" and "\<bar>nabla m (tl xs)\<bar> \<le> 2 ^ m * B"
    by (cases xs; simp)+
  then show ?case using abs_triangle_ineq4 [of "nabla m xs" "nabla m (tl xs)"] by simp
qed simp

lemma diff_terms_weight: "(\<Sum>(c, x)\<leftarrow>diff_terms m b. \<bar>c\<bar>) \<le> 63"
  by (simp add: diff_terms_def)

lemma diff_terms_values:
  "snd ` set (diff_terms m [b0, b1, b2, b3, b4, b5]) \<subseteq> {b0, b1, b2, b3, b4, b5}"
  by (simp add: diff_terms_def)

lemma num_recovers:
  assumes "num_small e" and "small_value v"
  shows "num_decompress e (num_compress e v) = Some (num_rotate (e\<lparr>nd_m := next_order e\<rparr>) v, v)"
proof -
  have e: "num_typed e" and b: "list_all small_value (nd_buf e)" using assms(1) by (simp_all add: num_small_def)
  then have len: "length (nd_buf e) = MAX_ORDER" by (simp add: num_typed_def)
  from six [OF this] obtain b0 b1 b2 b3 b4 b5 where buf: "nd_buf e = [b0, b1, b2, b3, b4, b5]" by blast
  have small: "\<bar>b0\<bar> \<le> 2 ^ 56" "\<bar>b1\<bar> \<le> 2 ^ 56" "\<bar>b2\<bar> \<le> 2 ^ 56" "\<bar>b3\<bar> \<le> 2 ^ 56" "\<bar>b4\<bar> \<le> 2 ^ 56"
      "\<bar>b5\<bar> \<le> 2 ^ 56" "\<bar>v\<bar> \<le> 2 ^ 56"
    using b assms(2) by (simp_all add: buf small_value_def)
  let ?d = "num_compress e v" and ?t = "diff_terms (next_order e) (nd_buf e)"
  have d: "?d = v - (\<Sum>(c, x)\<leftarrow>?t. c * x)"
    unfolding num_compress_def by (rule diff_terms_nabla [OF len next_order_range [OF e]])
  have range: "next_order e \<in> {1, 2, 3, 4, 5, 6}" by (rule next_order_range [OF e])
  have "next_order e < length (v # nd_buf e)" using range by (auto simp: buf)
  moreover have "\<forall>x\<in>set (v # nd_buf e). \<bar>x\<bar> \<le> 2 ^ 56" using small by (simp add: buf)
  ultimately have "\<bar>?d\<bar> \<le> 2 ^ next_order e * 2 ^ 56"
    unfolding num_compress_def by (rule nabla_bound)
  also have "\<dots> \<le> 64 * 2 ^ 56" using range by auto
  finally have bound: "\<bar>?d\<bar> \<le> 64 * 2 ^ 56" .
  have "(\<Sum>(c, x)\<leftarrow>?t. \<bar>c\<bar>) * 2 ^ 56 \<le> 63 * 2 ^ 56"
    using diff_terms_weight by (intro mult_right_mono) simp_all
  from add_mono [OF bound this] have "\<bar>?d\<bar> + (\<Sum>(c, x)\<leftarrow>?t. \<bar>c\<bar>) * 2 ^ 56 \<le> 127 * 2 ^ 56"
    by simp
  also have "\<dots> < 2 ^ 63" by simp
  finally have "\<bar>?d\<bar> + (\<Sum>(c, x)\<leftarrow>?t. \<bar>c\<bar>) * 2 ^ 56 < 2 ^ 63" .
  moreover have "\<bar>x\<bar> \<le> 2 ^ 56" if "(c, x) \<in> set ?t" for c x
  proof -
    from that have "x \<in> snd ` set ?t" by (rule image_eqI [rotated]) simp
    then have "x \<in> {b0, b1, b2, b3, b4, b5}" using diff_terms_values [of "next_order e" b0 b1 b2 b3 b4 b5] unfolding buf by (rule rev_subsetD)
    then show ?thesis using small by (elim insertE emptyE) (simp_all only:)
  qed
  then have "\<forall>(c, x)\<in>set ?t. \<bar>x\<bar> \<le> 2 ^ 56" by blast
  moreover have "\<forall>(c, x)\<in>set ?t. \<bar>c\<bar> \<le> 20" by (auto simp: diff_terms_def)
  ultimately have "checked_diff_sum ?d ?t = Some (?d + (\<Sum>(c, x)\<leftarrow>?t. c * x))"
    by (intro checked_diff_sum_bounded)
  then have "checked_diff_sum ?d ?t = Some v" by (simp add: d)
  then show ?thesis by (simp add: num_decompress_def Let_def)
qed

lemma num_small_next:
  "num_small e \<Longrightarrow> small_value v \<Longrightarrow> num_small (num_rotate (e\<lparr>nd_m := next_order e\<rparr>) v)"
proof -
  assume e: "num_small e" and v: "small_value v"
  have "num_typed (e\<lparr>nd_m := next_order e\<rparr>)"
    using e by (simp add: num_small_def num_typed_def next_order_def)
  then have "num_typed (num_rotate (e\<lparr>nd_m := next_order e\<rparr>) v)"
    by (rule num_rotate_typed) (rule small_fits [OF v])
  moreover have "length (nd_buf e) = MAX_ORDER" using e by (simp add: num_small_def num_typed_def)
  then have "list_all small_value (nd_buf (num_rotate (e\<lparr>nd_m := next_order e\<rparr>) v))"
    using six [of "nd_buf e"] e v by (auto simp: num_small_def num_rotate_def MAX_ORDER_def numeral_eq_Suc)
  ultimately show ?thesis by (simp add: num_small_def)
qed

lemma num_new_small: "small_value v \<Longrightarrow> 1 \<le> level \<Longrightarrow> level \<le> MAX_ORDER \<Longrightarrow> num_small (num_new v level)"
  using num_new_typed [OF small_fits]
  by (simp add: num_small_def num_new_def MAX_ORDER_def numeral_eq_Suc small_value_def)

section \<open>Text differences\<close>

text \<open>A blank keeps the buffered byte, an ampersand blanks it, any other byte replaces it.\<close>

definition ampersand :: u8 where
  "ampersand = 0x26"

definition text_step :: "u8 list \<Rightarrow> nat \<times> u8 \<Rightarrow> u8 list" where
  "text_step buf p =
     (case p of (i, byte) \<Rightarrow>
        if byte = blank then buf
        else if i < length buf then buf[i := if byte = ampersand then blank else byte]
        else buf)"

definition text_decompress :: "u8 list \<Rightarrow> rust_str \<Rightarrow> u8 list" where
  "text_decompress buf data = foldl text_step (buf @ drop (length buf) data) (enumerate 0 data)"

definition unblank :: "u8 \<Rightarrow> u8" where
  "unblank b = (if b = ampersand then blank else b)"

fun overlay :: "u8 list \<Rightarrow> rust_str \<Rightarrow> u8 list" where
  "overlay buf [] = buf"
| "overlay [] data = map unblank data"
| "overlay (b # buf) (d # data) = (if d = blank then b else unblank d) # overlay buf data"

lemma text_step_at: "text_step (pre @ b # buf) (length pre, d) = pre @ (if d = blank then b else unblank d) # buf"
  by (simp add: text_step_def unblank_def)

lemma foldl_text_step:
  assumes "length data \<le> length buf"
  shows "foldl text_step (pre @ buf) (enumerate (length pre) data) = pre @ overlay buf data"
  using assms
proof (induction buf data arbitrary: pre rule: overlay.induct)
  case (3 b buf d data)
  then show ?case
    using "3.IH" [of "pre @ [if d = blank then b else unblank d]"]
    by (simp add: text_step_at)
qed simp_all

lemma overlay_extended: "overlay (buf @ drop (length buf) data) data = overlay buf data"
proof (induction buf data rule: overlay.induct)
  case (2 d data)
  have "overlay xs xs = map unblank xs" for xs
    by (induction xs) (auto simp: unblank_def blank_def ampersand_def)
  then show ?case by simp
qed simp_all

lemma text_decompress_overlay: "text_decompress buf data = overlay buf data"
  using foldl_text_step [of data "buf @ drop (length buf) data" "[]"]
  by (simp add: text_decompress_def overlay_extended)

lemma overlay_Nil [simp]: "overlay [] data = map unblank data"
  by (cases data) simp_all

lemma overlay_bytes: "set (overlay buf data) \<subseteq> set buf \<union> set data \<union> {blank}"
  by (induction buf data rule: overlay.induct) (auto simp: unblank_def)

lemma length_overlay: "length (overlay buf data) = max (length buf) (length data)"
  by (induction buf data rule: overlay.induct) simp_all

lemma overlay_no_ampersand: "ampersand \<notin> set buf \<Longrightarrow> ampersand \<notin> set (overlay buf data)"
  by (induction buf data rule: overlay.induct) (auto simp: unblank_def blank_def ampersand_def split: if_splits)

text \<open>The compressor's side.\<close>

fun text_compress :: "u8 list \<Rightarrow> rust_str \<Rightarrow> rust_str" where
  "text_compress old [] = replicate (length old) ampersand"
| "text_compress [] new = map (\<lambda>b. if b = blank then ampersand else b) new"
| "text_compress (b # old) (c # new) =
     (if c = b then blank else if c = blank then ampersand else c) # text_compress old new"

lemma overlay_compress:
  "ampersand \<notin> set new \<Longrightarrow> overlay old (text_compress old new) = new @ replicate (length old - length new) blank"
proof (induction old new rule: text_compress.induct)
  case (1 old)
  show ?case by (induction old) (simp_all add: unblank_def blank_def ampersand_def)
next
  case (2 c new)
  have "map unblank (map (\<lambda>b. if b = blank then ampersand else b) s) = s" if "ampersand \<notin> set s" for s
    using that by (induction s) (auto simp: unblank_def)
  from this [OF "2.prems"] show ?case by (simp del: map_map list.map)
next
  case (3 b old c new)
  then show ?case by (auto simp: unblank_def blank_def ampersand_def)
qed

section \<open>Differencing as an interface\<close>

fun compress_all :: "('st \<Rightarrow> 'a \<Rightarrow> 'd) \<Rightarrow> ('st \<Rightarrow> 'a \<Rightarrow> 'st) \<Rightarrow> 'st \<Rightarrow> 'a list \<Rightarrow> 'd list" where
  "compress_all compress advance st [] = []"
| "compress_all compress advance st (x # xs) = compress st x # compress_all compress advance (advance st x) xs"

fun decompress_all :: "('st \<Rightarrow> 'd \<Rightarrow> ('st \<times> 'a) option) \<Rightarrow> 'st \<Rightarrow> 'd list \<Rightarrow> 'a list option" where
  "decompress_all decompress st [] = Some []"
| "decompress_all decompress st (d # ds) =
     (case decompress st d of
        None \<Rightarrow> None
      | Some (st', x) \<Rightarrow> map_option (Cons x) (decompress_all decompress st' ds))"

fun fits_all :: "('st \<Rightarrow> 'a \<Rightarrow> bool) \<Rightarrow> ('st \<Rightarrow> 'a \<Rightarrow> 'st) \<Rightarrow> 'st \<Rightarrow> 'a list \<Rightarrow> bool" where
  "fits_all fits advance st [] \<longleftrightarrow> True"
| "fits_all fits advance st (x # xs) \<longleftrightarrow> fits st x \<and> fits_all fits advance (advance st x) xs"

text \<open>An engine that recovers, in every state it can be in, each value its compressor accepts there.\<close>

locale difference_engine =
  fixes decompress :: "'st \<Rightarrow> 'd \<Rightarrow> ('st \<times> 'a) option"
    and compress :: "'st \<Rightarrow> 'a \<Rightarrow> 'd"
    and advance :: "'st \<Rightarrow> 'a \<Rightarrow> 'st"
    and live :: "'st \<Rightarrow> bool"
    and fits :: "'st \<Rightarrow> 'a \<Rightarrow> bool"
  assumes recovers: "live st \<Longrightarrow> fits st x \<Longrightarrow> decompress st (compress st x) = Some (advance st x, x)"
    and stays_live: "live st \<Longrightarrow> fits st x \<Longrightarrow> live (advance st x)"
begin

lemma arc_recovers:
  "live st \<Longrightarrow> fits_all fits advance st xs \<Longrightarrow>
   decompress_all decompress st (compress_all compress advance st xs) = Some xs"
  by (induction xs arbitrary: st) (simp_all add: recovers stays_live)

end

definition num_advance :: "num_diff \<Rightarrow> int \<Rightarrow> num_diff" where
  "num_advance e v = num_rotate (e\<lparr>nd_m := next_order e\<rparr>) v"

interpretation numeric: difference_engine num_decompress num_compress num_advance num_small "\<lambda>_. small_value"
  by unfold_locales (simp_all add: num_advance_def num_recovers num_small_next)

definition text_engine :: "u8 list \<Rightarrow> rust_str \<Rightarrow> (u8 list \<times> rust_str) option" where
  "text_engine buf data = Some (text_decompress buf data, text_decompress buf data)"

definition text_fits :: "u8 list \<Rightarrow> rust_str \<Rightarrow> bool" where
  "text_fits old new \<longleftrightarrow> ampersand \<notin> set new \<and> length old \<le> length new"

interpretation textual: difference_engine text_engine text_compress "\<lambda>_ new. new" "\<lambda>_. True" text_fits
  by unfold_locales (simp_all add: text_engine_def text_decompress_overlay overlay_compress text_fits_def)

lemma fits_all_const: "fits_all (\<lambda>_. p) advance st xs \<longleftrightarrow> list_all p xs"
  by (induction xs arbitrary: st) simp_all

end
