(* ===== verification/Crinex_Decoder.thy ===== *)
theory Crinex_Decoder
  imports Crinex_Diff
begin

text \<open>
  The CRINEX decoder of \<^verbatim>\<open>crinex/mod.rs\<close>: the header reader, the observation type lists, the epoch
  readers of both revisions over the difference engines, and \<^verbatim>\<open>parse_stream\<close>. A line iterator is the
  list of the lines still to come. A decoder whose reader fails is dropped by its caller, so an
  operation returns either its error or the decoder it leaves.
\<close>

section \<open>The observation stream\<close>

datatype crinex_version = V1 | V3

record sat_record =
  sat_sv :: rust_str
  sat_values :: "int option list"
  sat_flags :: rust_str

record obs_epoch =
  oe_descriptor :: rust_str
  oe_clock :: "int option"
  oe_picoseconds :: "rust_str option"
  oe_sats :: "sat_record list"

datatype epoch_record = ObsRecord obs_epoch | EventRecord rust_str "rust_str list"

record obs_stream =
  os_version :: crinex_version
  os_header :: "rust_str list"
  os_epochs :: "epoch_record list"

text \<open>The refusals, one per message of \<^verbatim>\<open>Error::Parse\<close>, with what the message quotes: those of the
  header, of numbers and tokens, and of the epochs.\<close>

datatype header_error =
    StreamEmpty
  | CrinexVersionUnsupported rust_str
  | CrinexVersMissing
  | ProgDateMissing
  | HeaderUnterminated
  | TypeCodesOverCount rust_str nat nat rust_str
  | TypeContinuesNothing rust_str rust_str
  | TypeContinuationLong rust_str nat nat rust_str
  | TypeListShort nat string
  | CountNotPositive string rust_str
  | RinexVersionUnsupported rust_str
  | RinexVersionMissing
  | RinexHeaderUnterminated

datatype token_error =
    IntFieldMissing string rust_str
  | IntFieldInvalid string rust_str rust_str
  | ResetOrderInvalid rust_str
  | ResetOrderRange nat
  | ResetValueInvalid rust_str
  | DeltaNotInteger rust_str
  | DeltaBeforeArc rust_str nat
  | DifferenceOverflow string
  | ClockDeltaNotInteger rust_str
  | ClockDeltaBeforeArc
  | PicosecondsInvalid rust_str rust_str
  | DecimalInvalid string rust_str

datatype epoch_error =
    EventTruncated string
  | ClockLineMissing string
  | SatelliteLineMissing string
  | NoObservationCount rust_str
  | ZeroObservations rust_str
  | SvListShort string nat
  | SvTokenNotAscii string nat
  | NoDifferenceState rust_str
  | ObservationOverCount rust_str nat
  | EpochLineMark rust_str
  | SvContinuationMissing
  | ObservationLineMissing
  | FlagsWithoutValue rust_str
  | CycleSlipMisfit nat nat nat nat rust_str
  | EpochTailRefused rust_str rust_str

datatype crinex_error =
    HeaderError header_error
  | TokenError token_error
  | EpochError epoch_error

section \<open>Decoder state\<close>

record decoder =
  dc_version :: crinex_version
  dc_obs_count :: "u32 \<Rightarrow> nat option"
  dc_default_system :: "u32 option"
  dc_epoch_diff :: "u8 list"
  dc_clock_diff :: "num_diff option"
  dc_obs_diff :: "rust_str \<Rightarrow> num_diff option list option"
  dc_flag_diff :: "rust_str \<Rightarrow> u8 list option"
  dc_types_left :: nat
  dc_previous_svs :: "rust_str list"
  dc_picoseconds :: bool
  dc_picosecond_diff :: "u8 list"

definition new_decoder :: decoder where
  "new_decoder =
     \<lparr>dc_version = V3, dc_obs_count = (\<lambda>_. None), dc_default_system = None, dc_epoch_diff = [],
      dc_clock_diff = None, dc_obs_diff = (\<lambda>_. None), dc_flag_diff = (\<lambda>_. None), dc_types_left = 0,
      dc_previous_svs = [], dc_picoseconds = False, dc_picosecond_diff = []\<rparr>"

section \<open>Integer fields\<close>

definition strict_int_token :: "(rust_str \<Rightarrow> nat option) \<Rightarrow> rust_str \<Rightarrow> string \<Rightarrow> rust_str \<Rightarrow> crinex_error + nat" where
  "strict_int_token parse token name line =
     (let value = str_trim token in
      if value = [] then Inl (TokenError (IntFieldMissing name line))
      else (case parse value of None \<Rightarrow> Inl (TokenError (IntFieldInvalid name value line)) | Some v \<Rightarrow> Inr v))"

definition strict_int_field ::
    "(rust_str \<Rightarrow> nat option) \<Rightarrow> rust_str \<Rightarrow> nat \<Rightarrow> nat \<Rightarrow> string \<Rightarrow> crinex_error + nat" where
  "strict_int_field parse line start stop name = strict_int_token parse (raw_field line start stop) name line"

definition strict_obs_count :: "rust_str \<Rightarrow> nat \<Rightarrow> nat \<Rightarrow> string \<Rightarrow> crinex_error + nat" where
  "strict_obs_count line start stop name =
     ebind (strict_int_field parse_usize line start stop name) (\<lambda>count.
     if count = 0 then Inl (HeaderError (CountNotPositive name line)) else Inr count)"

section \<open>Header records\<close>

definition header_code_count :: "rust_str \<Rightarrow> nat \<Rightarrow> nat \<Rightarrow> nat \<Rightarrow> nat" where
  "header_code_count line width pad slots =
     length (filter (\<lambda>slot. str_trim (raw_field line (6 + slot * width + pad) (6 + slot * width + width)) \<noteq> [])
       [0..<slots])"

definition open_type_list :: "decoder \<Rightarrow> rust_str \<Rightarrow> rust_str \<Rightarrow> nat \<Rightarrow> nat \<Rightarrow> crinex_error + decoder" where
  "open_type_list d line label count codes =
     (if codes > count then Inl (HeaderError (TypeCodesOverCount label codes count line))
      else Inr (d\<lparr>dc_types_left := count - codes\<rparr>))"

definition continue_type_list :: "decoder \<Rightarrow> rust_str \<Rightarrow> rust_str \<Rightarrow> nat \<Rightarrow> crinex_error + decoder" where
  "continue_type_list d line label codes =
     (if dc_types_left d = 0 then Inl (HeaderError (TypeContinuesNothing label line))
      else if codes > dc_types_left d then Inl (HeaderError (TypeContinuationLong label codes (dc_types_left d) line))
      else Inr (d\<lparr>dc_types_left := dc_types_left d - codes\<rparr>))"

definition close_type_list :: "decoder \<Rightarrow> string \<Rightarrow> crinex_error + unit" where
  "close_type_list d before =
     (if dc_types_left d > 0 then Inl (HeaderError (TypeListShort (dc_types_left d) before)) else Inr ())"

text \<open>The type list RINEX 2 shares across systems, and a RINEX 3 system's own.\<close>

definition shared_list :: "decoder \<Rightarrow> rust_str \<Rightarrow> rust_str \<Rightarrow> crinex_error + decoder" where
  "shared_list d line label =
     (let codes = header_code_count line 6 4 9 in
      if str_trim (raw_field line 0 6) = [] then continue_type_list d line label codes
      else
        ebind (close_type_list d ''# / TYPES OF OBSERV'') (\<lambda>_.
        ebind (strict_obs_count line 0 6 ''rinex2.obs_type_count'') (\<lambda>n.
        ebind (open_type_list d line label n codes) (\<lambda>d.
        let counts = (case dc_default_system d of
                        Some sys \<Rightarrow> (dc_obs_count d)(sys \<mapsto> n) | None \<Rightarrow> dc_obs_count d)
        in Inr (d\<lparr>dc_obs_count := counts(0x20 \<mapsto> n)\<rparr>)))))"

definition system_list :: "decoder \<Rightarrow> rust_str \<Rightarrow> rust_str \<Rightarrow> crinex_error + decoder" where
  "system_list d line label =
     (let codes = header_code_count line 4 1 13 in
      case first_char (str_trim (raw_field line 0 1)) of
        None \<Rightarrow> continue_type_list d line label codes
      | Some c \<Rightarrow>
          ebind (close_type_list d ''SYS / # / OBS TYPES'') (\<lambda>_.
          ebind (strict_obs_count line 3 6 ''rinex3.obs_type_count'') (\<lambda>n.
          ebind (open_type_list d line label n codes) (\<lambda>d.
          Inr (d\<lparr>dc_obs_count := (dc_obs_count d)(c \<mapsto> n)\<rparr>)))))"

definition classify_header_label :: "decoder \<Rightarrow> rust_str \<Rightarrow> rust_str \<Rightarrow> crinex_error + decoder" where
  "classify_header_label d line label =
     (if label = blit ''RINEX VERSION / TYPE'' then
        (case first_char (str_trim (raw_field line 40 41)) of
           Some c \<Rightarrow> Inr (if c \<noteq> 0x4D then d\<lparr>dc_default_system := Some c\<rparr> else d)
         | None \<Rightarrow> Inr d)
      else if label = blit ''# / TYPES OF OBSERV'' then shared_list d line label
      else if label = blit ''SYS / # / OBS TYPES'' then system_list d line label
      else if label = blit ''END OF HEADER'' then ebind (close_type_list d ''END OF HEADER'') (\<lambda>_. Inr d)
      else Inr d)"

definition header_label :: "rust_str \<Rightarrow> rust_str" where
  "header_label line = str_trim (raw_field line 60 80)"

fun classify_each :: "decoder \<Rightarrow> rust_str list \<Rightarrow> crinex_error + decoder" where
  "classify_each d [] = Inr d"
| "classify_each d (line # lines) =
     (let label = header_label line in
      if label = blit ''# / TYPES OF OBSERV'' \<or> label = blit ''SYS / # / OBS TYPES''
      then ebind (classify_header_label d line label) (\<lambda>d. classify_each d lines)
      else classify_each d lines)"

definition classify_event_lines :: "decoder \<Rightarrow> rust_str list \<Rightarrow> crinex_error + decoder" where
  "classify_event_lines d lines =
     ebind (classify_each d lines) (\<lambda>d.
     ebind (close_type_list d ''the end of an event record'') (\<lambda>_. Inr d))"

text \<open>
  The header reader pushes each line to the sink before it classifies it, so a failing reader has
  already emitted the lines it read.
\<close>

fun copy_header :: "decoder \<Rightarrow> rust_str list \<Rightarrow> rust_str list \<times> (crinex_error + decoder \<times> rust_str list)" where
  "copy_header d [] = ([], Inl (HeaderError HeaderUnterminated))"
| "copy_header d (raw # lines) =
     (let line = trim_eol raw; label = header_label line in
      case classify_header_label d line label of
        Inl e \<Rightarrow> ([line], Inl e)
      | Inr d \<Rightarrow>
          if label = blit ''END OF HEADER'' then ([line], Inr (d, lines))
          else (case copy_header d lines of (emitted, result) \<Rightarrow> (line # emitted, result)))"

definition stream_version :: "rust_str \<Rightarrow> crinex_error + crinex_version" where
  "stream_version crx_ver =
     (if prefix (blit ''1.0'') crx_ver \<or> prefix (blit ''1.'') crx_ver then Inr V1
      else if prefix (blit ''3.0'') crx_ver \<or> prefix (blit ''3.'') crx_ver then Inr V3
      else Inl (HeaderError (CrinexVersionUnsupported crx_ver)))"

definition minor_above_zero :: "rust_str \<Rightarrow> bool" where
  "minor_above_zero crx_ver \<longleftrightarrow> 2 < length crx_ver \<and> byte_is_digit (crx_ver ! 2) \<and> crx_ver ! 2 > 0x30"

definition read_crinex_header ::
    "decoder \<Rightarrow> rust_str list \<Rightarrow> rust_str list \<times> (crinex_error + decoder \<times> rust_str list)" where
  "read_crinex_header d lines =
     (case lines of
        [] \<Rightarrow> ([], Inl (HeaderError StreamEmpty))
      | l1 # lines \<Rightarrow>
          (let crx_ver = str_trim (raw_field l1 0 20) in
           case stream_version crx_ver of
             Inl e \<Rightarrow> ([], Inl e)
           | Inr version \<Rightarrow>
               if \<not> sublist (blit ''CRINEX VERS'') l1 then ([], Inl (HeaderError CrinexVersMissing))
               else
                 (let d = d\<lparr>dc_version := version, dc_picoseconds := (version = V3 \<and> minor_above_zero crx_ver)\<rparr> in
                  case lines of
                    [] \<Rightarrow> ([], Inl (HeaderError ProgDateMissing))
                  | _ # lines \<Rightarrow> copy_header d lines)))"

section \<open>Satellites and observation tokens\<close>

definition carry_satellite_state :: "decoder \<Rightarrow> rust_str list \<Rightarrow> decoder" where
  "carry_satellite_state d svs =
     (let previous = dc_previous_svs d; keep = (\<lambda>sv. sv \<in> set previous \<and> sv \<in> set svs) in
      d\<lparr>dc_obs_diff := (\<lambda>sv. if keep sv then dc_obs_diff d sv else None),
        dc_flag_diff := (\<lambda>sv. if keep sv then dc_flag_diff d sv else None),
        dc_previous_svs := svs\<rparr>)"

definition fixed_sv_token :: "rust_str \<Rightarrow> string \<Rightarrow> nat \<Rightarrow> nat \<Rightarrow> crinex_error + rust_str" where
  "fixed_sv_token sv_list revision numsat index =
     (let start = index * 3; stop = start + 3 in
      if stop > length sv_list then Inl (EpochError (SvListShort revision numsat))
      else
        (let token = drop start (take stop sv_list) in
         if \<not> ascii token then Inl (EpochError (SvTokenNotAscii revision (index + 1))) else Inr token))"

fun sv_tokens_from :: "rust_str \<Rightarrow> string \<Rightarrow> nat \<Rightarrow> nat list \<Rightarrow> crinex_error + rust_str list" where
  "sv_tokens_from sv_list revision numsat [] = Inr []"
| "sv_tokens_from sv_list revision numsat (i # is) =
     ebind (fixed_sv_token sv_list revision numsat i) (\<lambda>token.
     ebind (sv_tokens_from sv_list revision numsat is) (\<lambda>tokens. Inr (token # tokens)))"

definition sv_tokens_v3 :: "rust_str \<Rightarrow> nat \<Rightarrow> crinex_error + rust_str list" where
  "sv_tokens_v3 descriptor numsat = sv_tokens_from (raw_field_from descriptor 41) ''V3'' numsat [0..<numsat]"

definition sv_tokens_v1 :: "rust_str \<Rightarrow> nat \<Rightarrow> crinex_error + rust_str list" where
  "sv_tokens_v1 descriptor numsat = sv_tokens_from (raw_field_from descriptor 32) ''V1'' numsat [0..<numsat]"

definition obs_count_for :: "decoder \<Rightarrow> rust_str \<Rightarrow> crinex_error + nat" where
  "obs_count_for d sv =
     (let sys = (case first_char sv of Some c \<Rightarrow> c | None \<Rightarrow> 0x20);
          count = (case dc_obs_count d sys of Some n \<Rightarrow> Some n | None \<Rightarrow> dc_obs_count d 0x20)
      in case count of
           None \<Rightarrow> Inl (EpochError (NoObservationCount sv))
         | Some n \<Rightarrow> if n = 0 then Inl (EpochError (ZeroObservations sv)) else Inr n)"

definition parse_reset :: "rust_str \<Rightarrow> crinex_error + (nat \<times> int) option" where
  "parse_reset token =
     (let token = str_trim token in
      case byte_split_once ampersand token of
        None \<Rightarrow> Inr None
      | Some (order_text, value_text) \<Rightarrow>
          (case parse_usize order_text of
             None \<Rightarrow> Inl (TokenError (ResetOrderInvalid token))
           | Some order \<Rightarrow>
               if order = 0 \<or> order > MAX_ORDER then Inl (TokenError (ResetOrderRange order))
               else (case parse_i64 value_text of
                       None \<Rightarrow> Inl (TokenError (ResetValueInvalid token))
                     | Some value \<Rightarrow> Inr (Some (order, value)))))"

text \<open>\<^verbatim>\<open>match slot { Some(e) => e.force_init(..), None => *slot = Some(NumDiff::new(..)) }\<close>.\<close>

definition arc_init :: "num_diff option \<Rightarrow> int \<Rightarrow> nat \<Rightarrow> num_diff" where
  "arc_init slot value order =
     (case slot of Some e \<Rightarrow> num_force_init e value order | None \<Rightarrow> num_new value order)"

definition apply_obs_token :: "decoder \<Rightarrow> rust_str \<Rightarrow> nat \<Rightarrow> rust_str \<Rightarrow> crinex_error + (decoder \<times> int)" where
  "apply_obs_token d sv obs_index token =
     (case dc_obs_diff d sv of
        None \<Rightarrow> Inl (EpochError (NoDifferenceState sv))
      | Some engines \<Rightarrow>
          if \<not> obs_index < length engines then Inl (EpochError (ObservationOverCount sv obs_index))
          else
            (let put = (\<lambda>e. d\<lparr>dc_obs_diff := (dc_obs_diff d)(sv \<mapsto> engines[obs_index := Some e])\<rparr>) in
             ebind (parse_reset token) (\<lambda>reset.
             case reset of
               Some (order, value) \<Rightarrow> Inr (put (arc_init (engines ! obs_index) value order), value)
             | None \<Rightarrow>
                 (case parse_i64 (str_trim token) of
                    None \<Rightarrow> Inl (TokenError (DeltaNotInteger token))
                  | Some delta \<Rightarrow>
                      (case engines ! obs_index of
                         None \<Rightarrow> Inl (TokenError (DeltaBeforeArc sv obs_index))
                       | Some e \<Rightarrow>
                           (case num_decompress e delta of
                              None \<Rightarrow> Inl (TokenError (DifferenceOverflow ''crinex numeric difference''))
                            | Some (e', value) \<Rightarrow> Inr (put e', value)))))))"

text \<open>The observation fields of a data line: \<open>rest\<close> is the line from the cursor on.\<close>

fun read_obs_tokens ::
    "decoder \<Rightarrow> rust_str \<Rightarrow> nat list \<Rightarrow> rust_str \<Rightarrow> crinex_error + (decoder \<times> int option list \<times> rust_str)" where
  "read_obs_tokens d sv [] rest = Inr (d, [], rest)"
| "read_obs_tokens d sv (obs_index # indices) rest =
     (let rest1 = (if obs_index > 0 \<and> rest \<noteq> [] \<and> hd rest = blank then tl rest else rest) in
      if rest1 = [] \<or> hd rest1 = blank then
        ebind (read_obs_tokens d sv indices rest1) (\<lambda>(d, values, rest). Inr (d, None # values, rest))
      else
        ebind (apply_obs_token d sv obs_index (takeWhile (\<lambda>b. b \<noteq> blank) rest1)) (\<lambda>(d, value).
        ebind (read_obs_tokens d sv indices (dropWhile (\<lambda>b. b \<noteq> blank) rest1)) (\<lambda>(d, values, rest).
        Inr (d, Some value # values, rest))))"

text \<open>\<^verbatim>\<open>entry(sv).or_insert_with(|| vec![None; n_obs])\<close>, then \<^verbatim>\<open>resize\<close> when there are too few.\<close>

definition enter_engines :: "decoder \<Rightarrow> rust_str \<Rightarrow> nat \<Rightarrow> decoder" where
  "enter_engines d sv n_obs =
     (let engines = (case dc_obs_diff d sv of Some es \<Rightarrow> es | None \<Rightarrow> replicate n_obs None)
      in d\<lparr>dc_obs_diff := (dc_obs_diff d)(sv \<mapsto> engines @ replicate (n_obs - length engines) None)\<rparr>)"

fun blank_slots :: "num_diff option list \<Rightarrow> int option list \<Rightarrow> num_diff option list" where
  "blank_slots (slot # slots) (value # values) =
     (if value = None then None else slot) # blank_slots slots values"
| "blank_slots slots values = slots"

definition end_blank_arcs :: "decoder \<Rightarrow> rust_str \<Rightarrow> int option list \<Rightarrow> decoder" where
  "end_blank_arcs d sv values =
     (case dc_obs_diff d sv of
        None \<Rightarrow> d
      | Some engines \<Rightarrow> d\<lparr>dc_obs_diff := (dc_obs_diff d)(sv \<mapsto> blank_slots engines values)\<rparr>)"

fun blank_flags :: "int option list \<Rightarrow> u8 list \<Rightarrow> u8 list" where
  "blank_flags (value # values) (lli # ssi # rest) =
     (if value = None then blank # blank # blank_flags values rest else lli # ssi # blank_flags values rest)"
| "blank_flags values buf = buf"

definition flag_text :: "rust_str \<Rightarrow> rust_str" where
  "flag_text rest = (if rest \<noteq> [] \<and> hd rest = blank then tl rest else rest)"

definition flags_of :: "crinex_version \<Rightarrow> nat \<Rightarrow> u8 list option \<Rightarrow> rust_str \<Rightarrow> int option list \<Rightarrow> u8 list" where
  "flags_of version width carried flag_raw values =
     (let buf = (case carried of Some b \<Rightarrow> take width b | None \<Rightarrow> []);
          buf = text_decompress buf flag_raw
      in if version = V1 then blank_flags values (buf @ replicate (width - length buf) blank) else buf)"

definition decode_sat_values ::
    "decoder \<Rightarrow> rust_str \<Rightarrow> rust_str \<Rightarrow> nat \<Rightarrow> crinex_error + (decoder \<times> int option list \<times> rust_str)" where
  "decode_sat_values d sv line n_obs =
     ebind (read_obs_tokens (enter_engines d sv n_obs) sv [0..<n_obs] line) (\<lambda>(d, values, rest).
     let d = end_blank_arcs d sv values;
         buf = flags_of (dc_version d) (n_obs * 2) (dc_flag_diff d sv) (flag_text rest) values
     in Inr (d\<lparr>dc_flag_diff := (dc_flag_diff d)(sv \<mapsto> buf)\<rparr>, values, lossy buf))"

section \<open>The clock line\<close>

definition decode_clock_value :: "decoder \<Rightarrow> rust_str \<Rightarrow> crinex_error + (decoder \<times> int option)" where
  "decode_clock_value d line =
     (let token = str_trim line in
      if token = [] then Inr (d\<lparr>dc_clock_diff := None\<rparr>, None)
      else
        ebind (parse_reset token) (\<lambda>reset.
        case reset of
          Some (order, v) \<Rightarrow> Inr (d\<lparr>dc_clock_diff := Some (arc_init (dc_clock_diff d) v order)\<rparr>, Some v)
        | None \<Rightarrow>
            (case parse_i64 token of
               None \<Rightarrow> Inl (TokenError (ClockDeltaNotInteger token))
             | Some delta \<Rightarrow>
                 (case dc_clock_diff d of
                    None \<Rightarrow> Inl (TokenError ClockDeltaBeforeArc)
                  | Some e \<Rightarrow>
                      (case num_decompress e delta of
                         None \<Rightarrow> Inl (TokenError (DifferenceOverflow ''crinex numeric difference''))
                       | Some (e', v) \<Rightarrow> Inr (d\<lparr>dc_clock_diff := Some e'\<rparr>, Some v))))))"

definition decode_clock_line ::
    "decoder \<Rightarrow> rust_str \<Rightarrow> crinex_error + (decoder \<times> int option \<times> rust_str option)" where
  "decode_clock_line d line =
     (let (clock_text, picosecond_text) =
            (case byte_split_once blank line of
               Some (clock, picoseconds) \<Rightarrow> if dc_picoseconds d then (clock, Some picoseconds) else (line, None)
             | None \<Rightarrow> (line, None))
      in ebind (decode_clock_value d clock_text) (\<lambda>(d, clock).
         if \<not> dc_picoseconds d then Inr (d, clock, None)
         else
           (let d = (case picosecond_text of
                       Some t \<Rightarrow> d\<lparr>dc_picosecond_diff := text_decompress (dc_picosecond_diff d) t\<rparr>
                     | None \<Rightarrow> d);
                held = dc_picosecond_diff d
            in if list_all (\<lambda>b. b = blank) held then Inr (d, clock, None)
               else if length held \<noteq> 5 \<or> \<not> list_all byte_is_digit held
               then Inl (TokenError (PicosecondsInvalid (lossy held) line))
               else Inr (d, clock, Some (lossy held)))))"

section \<open>Epochs\<close>

text \<open>The next line that is not blank, and the lines after it.\<close>

fun next_raw :: "rust_str list \<Rightarrow> (rust_str \<times> rust_str list) option" where
  "next_raw [] = None"
| "next_raw (raw # lines) = (let line = trim_eol raw in if line \<noteq> [] then Some (line, lines) else next_raw lines)"

fun take_event_lines :: "string \<Rightarrow> nat \<Rightarrow> rust_str list \<Rightarrow> crinex_error + (rust_str list \<times> rust_str list)" where
  "take_event_lines revision 0 lines = Inr ([], lines)"
| "take_event_lines revision (Suc n) [] = Inl (EpochError (EventTruncated revision))"
| "take_event_lines revision (Suc n) (extra # lines) =
     ebind (take_event_lines revision n lines) (\<lambda>(event_lines, lines). Inr (trim_eol extra # event_lines, lines))"

fun read_sats ::
    "string \<Rightarrow> decoder \<Rightarrow> rust_str list \<Rightarrow> rust_str list \<Rightarrow> crinex_error + (decoder \<times> sat_record list \<times> rust_str list)" where
  "read_sats revision d [] lines = Inr (d, [], lines)"
| "read_sats revision d (sv # svs) [] = Inl (EpochError (SatelliteLineMissing revision))"
| "read_sats revision d (sv # svs) (data_line # lines) =
     ebind (obs_count_for d sv) (\<lambda>n_obs.
     ebind (decode_sat_values d sv (trim_eol data_line) n_obs) (\<lambda>(d, values, flags).
     ebind (read_sats revision d svs lines) (\<lambda>(d, sats, lines).
     Inr (d, \<lparr>sat_sv = sv, sat_values = values, sat_flags = flags\<rparr> # sats, lines))))"

text \<open>A reset replaces the text-difference buffer; any other line is laid over it.\<close>

definition epoch_text :: "decoder \<Rightarrow> bool \<Rightarrow> rust_str \<Rightarrow> decoder" where
  "epoch_text d reset line =
     (if reset then d\<lparr>dc_epoch_diff := text_decompress line []\<rparr>
      else d\<lparr>dc_epoch_diff := text_decompress (dc_epoch_diff d) line\<rparr>)"

text \<open>
  What both revisions do after the satellite count and the flag: an event's lines, or the clock
  line and one line for each satellite of the descriptor's list.
\<close>

definition epoch_tail ::
    "string \<Rightarrow> (rust_str \<Rightarrow> nat \<Rightarrow> crinex_error + rust_str list) \<Rightarrow> decoder \<Rightarrow> bool \<Rightarrow> rust_str \<Rightarrow> nat \<Rightarrow> nat \<Rightarrow>
     rust_str list \<Rightarrow> crinex_error + (decoder \<times> rust_str list \<times> epoch_record option)" where
  "epoch_tail revision sv_tokens d reset descriptor numsat flag lines =
     (if flag > 1 then
        ebind (take_event_lines (''CRINEX '' @ revision) numsat lines) (\<lambda>(event_lines, lines).
        ebind (classify_event_lines d event_lines) (\<lambda>d.
        Inr (d\<lparr>dc_previous_svs := []\<rparr>, lines, Some (EventRecord descriptor event_lines))))
      else
        (case lines of
           [] \<Rightarrow> Inl (EpochError (ClockLineMissing revision))
         | clock_line # lines \<Rightarrow>
             ebind (decode_clock_line d (trim_eol clock_line)) (\<lambda>(d, clock, picoseconds).
             ebind (sv_tokens descriptor numsat) (\<lambda>sv_list.
             let d = (if reset then d\<lparr>dc_previous_svs := []\<rparr> else d) in
             ebind (read_sats revision (carry_satellite_state d sv_list) sv_list lines) (\<lambda>(d, sats, lines).
             Inr (d, lines, Some (ObsRecord
               \<lparr>oe_descriptor = descriptor, oe_clock = clock, oe_picoseconds = picoseconds, oe_sats = sats\<rparr>)))))))"

definition next_epoch_v3 :: "decoder \<Rightarrow> rust_str list \<Rightarrow> crinex_error + (decoder \<times> rust_str list \<times> epoch_record option)" where
  "next_epoch_v3 d lines =
     (case next_raw lines of
        None \<Rightarrow> Inr (d, [], None)
      | Some (raw, lines) \<Rightarrow>
          (let reset = (raw \<noteq> [] \<and> hd raw = 0x3E);
               d = epoch_text d reset raw;
               descriptor = lossy (dc_epoch_diff d)
           in ebind (strict_int_field parse_usize descriptor 32 35 ''v3.epoch.satellite_count'') (\<lambda>numsat.
              ebind (strict_int_field parse_byte descriptor 31 32 ''v3.epoch.flag'') (\<lambda>flag.
              epoch_tail ''V3'' sv_tokens_v3 d reset descriptor numsat flag lines))))"

definition next_epoch_v1 :: "decoder \<Rightarrow> rust_str list \<Rightarrow> crinex_error + (decoder \<times> rust_str list \<times> epoch_record option)" where
  "next_epoch_v1 d lines =
     (case next_raw lines of
        None \<Rightarrow> Inr (d, [], None)
      | Some (raw, lines) \<Rightarrow>
          (let reset = (raw \<noteq> [] \<and> hd raw = ampersand);
               d = epoch_text d reset (if reset then blank # tl raw else raw);
               descriptor = lossy (dc_epoch_diff d)
           in ebind (strict_int_field parse_usize descriptor 29 32 ''v1.epoch.satellite_count'') (\<lambda>numsat.
              ebind (strict_int_field parse_byte descriptor 26 29 ''v1.epoch.flag'') (\<lambda>flag.
              epoch_tail ''V1'' sv_tokens_v1 d reset descriptor numsat flag lines))))"

definition next_epoch ::
    "crinex_version \<Rightarrow> decoder \<Rightarrow> rust_str list \<Rightarrow> crinex_error + (decoder \<times> rust_str list \<times> epoch_record option)" where
  "next_epoch version d lines = (case version of V3 \<Rightarrow> next_epoch_v3 d lines | V1 \<Rightarrow> next_epoch_v1 d lines)"

subsection \<open>A reader that returns a record has consumed a line\<close>

lemma next_raw_shorter: "next_raw lines = Some (line, rest) \<Longrightarrow> length rest < length lines \<and> line \<noteq> []"
  by (induction lines rule: next_raw.induct) (auto simp: Let_def split: if_splits)

lemma take_event_lines_length:
  "take_event_lines revision n lines = Inr (taken, rest) \<Longrightarrow> length taken = n \<and> length lines = n + length rest"
  by (induction revision n lines arbitrary: taken rest rule: take_event_lines.induct) auto

lemma read_sats_length:
  "read_sats revision d svs lines = Inr (d', sats, rest) \<Longrightarrow>
   length sats = length svs \<and> length lines = length svs + length rest"
  by (induction revision d svs lines arbitrary: d' sats rest rule: read_sats.induct) fastforce+

lemma epoch_tail_length:
  "epoch_tail revision sv_tokens d reset descriptor numsat flag lines = Inr (d', rest, record) \<Longrightarrow>
   length rest \<le> length lines"
  by (auto simp: epoch_tail_def Let_def dest!: take_event_lines_length read_sats_length
      split: if_splits list.splits)

lemma next_epoch_shorter:
  assumes "next_epoch version d lines = Inr (d', rest, Some record)"
  shows "length rest < length lines"
proof -
  obtain raw lines1 where raw: "next_raw lines = Some (raw, lines1)"
    using assms by (cases "next_raw lines") (auto simp: next_epoch_def next_epoch_v3_def next_epoch_v1_def
        split: crinex_version.splits)
  then have "length rest \<le> length lines1"
    using assms by (cases version)
      (auto simp: next_epoch_def next_epoch_v3_def next_epoch_v1_def Let_def dest!: epoch_tail_length)
  then show ?thesis using next_raw_shorter [OF raw] by simp
qed

section \<open>Streams\<close>

function read_epochs :: "crinex_version \<Rightarrow> decoder \<Rightarrow> rust_str list \<Rightarrow> crinex_error + epoch_record list" where
  "read_epochs version d lines =
     (case next_epoch version d lines of
        Inl e \<Rightarrow> Inl e
      | Inr (d', rest, None) \<Rightarrow> Inr []
      | Inr (d', rest, Some record) \<Rightarrow>
          ebind (read_epochs version d' rest) (\<lambda>records. Inr (record # records)))"
  by pat_completeness auto
termination
  by (relation "measure (\<lambda>(_, _, lines). length lines)") (auto dest: next_epoch_shorter)

declare read_epochs.simps [simp del]

definition parse_stream :: "rust_str \<Rightarrow> crinex_error + obs_stream" where
  "parse_stream crinex_text =
     (case read_crinex_header new_decoder (text_lines crinex_text) of
        (header, result) \<Rightarrow>
          ebind result (\<lambda>(d, lines).
          ebind (read_epochs (dc_version d) d lines) (\<lambda>epochs.
          Inr \<lparr>os_version = dc_version d, os_header = header, os_epochs = epochs\<rparr>)))"

end
