(* ===== verification/Crinex_Encoder.thy ===== *)
theory Crinex_Encoder
  imports Crinex_Decoder
begin

text \<open>
  The serialisers of \<^verbatim>\<open>crinex/mod.rs\<close>: an observation stream as CRINEX text in its all-reset form,
  its epochs as RINEX 2 and RINEX 3 text, and the decoders \<^verbatim>\<open>decode_to\<close> and \<^verbatim>\<open>decode\<close> that push the
  RINEX lines of each epoch as it is read. An encoder that panics returns \<open>None\<close>.
\<close>

section \<open>The all-reset CRINEX form\<close>

text \<open>\<^verbatim>\<open>4.02\<close> as an \<^verbatim>\<open>f64\<close>, and \<^verbatim>\<open>v >= 4.02\<close>, which no NaN satisfies.\<close>

definition F64_4_02 :: f64 where
  "F64_4_02 = 0x4010147AE147AE14"

definition f64_at_least :: "f64 \<Rightarrow> f64 \<Rightarrow> bool" where
  "f64_at_least bound v \<longleftrightarrow> \<not> bit v 63 \<and> bound \<le> v \<and> \<not> f64_is_nan v"

definition rinex_version_carries_picoseconds :: "rust_str \<Rightarrow> bool" where
  "rinex_version_carries_picoseconds version \<longleftrightarrow>
     (case parse_f64 (map ucast (str_trim version)) of None \<Rightarrow> False | Some v \<Rightarrow> f64_at_least F64_4_02 v)"

definition labeled_crinex :: "rust_str \<Rightarrow> rust_str \<Rightarrow> rust_str" where
  "labeled_crinex body label = left_aligned 60 body @ label"

definition encode_descriptor :: "rust_str \<Rightarrow> crinex_version \<Rightarrow> rust_str option" where
  "encode_descriptor descriptor version =
     (case version of
        V3 \<Rightarrow> Some descriptor
      | V1 \<Rightarrow> if is_char_boundary descriptor 1 then Some (ampersand # drop 1 descriptor) else None)"

definition obs_token :: "int option \<Rightarrow> rust_str" where
  "obs_token value = (case value of Some v \<Rightarrow> blit ''1&'' @ show_int v | None \<Rightarrow> [])"

fun encode_fields :: "nat \<Rightarrow> int option list \<Rightarrow> rust_str" where
  "encode_fields index [] = []"
| "encode_fields index (value # values) =
     (if index > 0 then [blank] else []) @ obs_token value @ encode_fields (Suc index) values"

definition encode_sat_line :: "int option list \<Rightarrow> rust_str \<Rightarrow> rust_str" where
  "encode_sat_line values flag_delta = encode_fields 0 values @ [blank] @ flag_delta"

definition new_satellite_flags :: "rust_str \<Rightarrow> crinex_version \<Rightarrow> rust_str" where
  "new_satellite_flags flags version =
     (case version of
        V1 \<Rightarrow> trim_blanks flags
      | V3 \<Rightarrow> map (\<lambda>b. if b = blank then ampersand else b) flags)"

text \<open>The clock line of an observation epoch, and whether the decoder holds picoseconds after it.\<close>

definition encode_clock_line :: "int option \<Rightarrow> rust_str option \<Rightarrow> bool \<Rightarrow> rust_str \<times> bool" where
  "encode_clock_line clock picoseconds held =
     (let clock_line = obs_token clock in
      case picoseconds of
        Some p \<Rightarrow> (clock_line @ [blank] @ p, True)
      | None \<Rightarrow> if held then (clock_line @ blit '' &&&&&'', False) else (clock_line, False))"

definition encode_epoch :: "crinex_version \<Rightarrow> bool \<Rightarrow> epoch_record \<Rightarrow> (rust_str list \<times> bool) option" where
  "encode_epoch version held epoch =
     (case epoch of
        EventRecord descriptor lines \<Rightarrow>
          map_option (\<lambda>first. (first # lines, held)) (encode_descriptor descriptor version)
      | ObsRecord r \<Rightarrow>
          (let (clock_line, held) = encode_clock_line (oe_clock r) (oe_picoseconds r) held in
           map_option (\<lambda>first.
               (first # clock_line #
                map (\<lambda>sat. encode_sat_line (sat_values sat) (new_satellite_flags (sat_flags sat) version)) (oe_sats r),
                held))
             (encode_descriptor (oe_descriptor r) version)))"

fun encode_epochs :: "crinex_version \<Rightarrow> bool \<Rightarrow> epoch_record list \<Rightarrow> rust_str list option" where
  "encode_epochs version held [] = Some []"
| "encode_epochs version held (epoch # epochs) =
     (case encode_epoch version held epoch of
        None \<Rightarrow> None
      | Some (lines, held) \<Rightarrow> map_option (\<lambda>later. lines @ later) (encode_epochs version held epochs))"

definition has_picoseconds :: "epoch_record \<Rightarrow> bool" where
  "has_picoseconds epoch = (case epoch of ObsRecord r \<Rightarrow> oe_picoseconds r \<noteq> None | EventRecord _ _ \<Rightarrow> False)"

definition carries_picoseconds :: "obs_stream \<Rightarrow> bool" where
  "carries_picoseconds s \<longleftrightarrow>
     (case find (\<lambda>line. header_label line = blit ''RINEX VERSION / TYPE'') (os_header s) of
        Some line \<Rightarrow> rinex_version_carries_picoseconds (raw_field line 0 9)
      | None \<Rightarrow> False)
     \<or> list_ex has_picoseconds (os_epochs s)"

definition version_label :: "crinex_version \<Rightarrow> bool \<Rightarrow> rust_str" where
  "version_label version picoseconds =
     (case version of V3 \<Rightarrow> if picoseconds then blit ''3.1'' else blit ''3.0'' | V1 \<Rightarrow> blit ''1.0'')"

definition encode_stream :: "obs_stream \<Rightarrow> rust_str option" where
  "encode_stream s =
     map_option (\<lambda>lines. text_of
         (labeled_crinex (version_label (os_version s) (carries_picoseconds s)) (blit ''CRINEX VERS   / TYPE'')
          # labeled_crinex (blit ''sidereon'') (blit ''CRINEX PROG   / DATE'')
          # os_header s @ lines))
       (encode_epochs (os_version s) False (os_epochs s))"

section \<open>RINEX text\<close>

definition pad_to :: "rust_str \<Rightarrow> nat \<Rightarrow> rust_str" where
  "pad_to s width = s @ replicate (width - length s) blank"

definition format_clock :: "int \<Rightarrow> nat \<Rightarrow> nat \<Rightarrow> rust_str" where
  "format_clock value decimals width =
     (let scale = 10 ^ decimals;
          magnitude = nat \<bar>value\<bar>;
          whole = magnitude div scale;
          fraction = magnitude mod scale;
          sign = (if value < 0 then [0x2D] else []);
          whole_text = (if whole = 0 then [] else show_nat whole)
      in right_aligned width (sign @ whole_text @ [0x2E] @ zero_filled decimals fraction))"

definition OBS_FIELD_WIDTH :: nat where
  "OBS_FIELD_WIDTH = 16"

definition OBS_VALUE_WIDTH :: nat where
  "OBS_VALUE_WIDTH = 14"

definition format_value :: "int \<Rightarrow> rust_str" where
  "format_value scaled =
     (let negative = scaled < 0;
          magnitude = nat \<bar>scaled\<bar>;
          whole = magnitude div 1000;
          frac = magnitude mod 1000;
          body = (if negative \<and> whole = 0 then [0x2D, 0x2E] @ zero_filled 3 frac
                  else (if negative then [0x2D] else []) @ show_nat whole @ [0x2E] @ zero_filled 3 frac)
      in right_aligned 14 body)"

definition value_text :: "int option \<Rightarrow> rust_str" where
  "value_text value = (case value of Some v \<Rightarrow> format_value v | None \<Rightarrow> replicate OBS_VALUE_WIDTH blank)"

definition flag_at :: "u8 list \<Rightarrow> nat \<Rightarrow> u8" where
  "flag_at flags i = (if i < length flags then flags ! i else blank)"

fun sat_fields_v3 :: "nat \<Rightarrow> int option list \<Rightarrow> u8 list \<Rightarrow> rust_str" where
  "sat_fields_v3 i [] flags = []"
| "sat_fields_v3 i (value # values) flags =
     value_text value @ push_byte_char (flag_at flags (i * 2)) @ push_byte_char (flag_at flags (i * 2 + 1))
     @ sat_fields_v3 (Suc i) values flags"

definition format_sat_line :: "rust_str \<Rightarrow> int option list \<Rightarrow> rust_str \<Rightarrow> rust_str" where
  "format_sat_line sv values flags = sv @ sat_fields_v3 0 values flags"

definition serialize_rinex_epoch_v3 :: "epoch_record \<Rightarrow> rust_str list" where
  "serialize_rinex_epoch_v3 record =
     (case record of
        EventRecord descriptor lines \<Rightarrow> trim_blanks descriptor # lines
      | ObsRecord r \<Rightarrow>
          (let head = raw_field (oe_descriptor r) 0 35;
               timed = (if oe_clock r \<noteq> None \<or> oe_picoseconds r \<noteq> None
                        then pad_to head 41
                             @ (case oe_clock r of None \<Rightarrow> replicate 15 blank | Some v \<Rightarrow> format_clock v 12 15)
                        else head);
               epoch_out = (case oe_picoseconds r of Some p \<Rightarrow> timed @ [blank] @ p | None \<Rightarrow> timed)
           in trim_blanks epoch_out
              # map (\<lambda>sat. trim_blanks (format_sat_line (sat_sv sat) (sat_values sat) (sat_flags sat))) (oe_sats r)))"

function sv_continuations :: "rust_str list \<Rightarrow> rust_str list" where
  "sv_continuations svs =
     (if svs = [] then []
      else (replicate 32 blank @ concat (take 12 svs)) # sv_continuations (drop 12 svs))"
  by pat_completeness auto
termination
  by (relation "measure length") auto

declare sv_continuations.simps [simp del]

definition format_epoch_v1 :: "rust_str \<Rightarrow> rust_str list \<Rightarrow> rust_str \<Rightarrow> rust_str list" where
  "format_epoch_v1 descriptor sv_list clock_text =
     (let first = raw_field descriptor 0 32 @ concat (take 12 sv_list);
          first = (if clock_text \<noteq> [] then pad_to first 68 @ clock_text else first)
      in first # sv_continuations (drop 12 sv_list))"

fun sat_lines_v1 :: "nat \<Rightarrow> rust_str \<Rightarrow> int option list \<Rightarrow> u8 list \<Rightarrow> rust_str list" where
  "sat_lines_v1 i line [] flags = [line]"
| "sat_lines_v1 i line (value # values) flags =
     (let full = (i > 0 \<and> i mod 5 = 0);
          flag_pair = (if value \<noteq> None
                       then push_byte_char (flag_at flags (i * 2)) @ push_byte_char (flag_at flags (i * 2 + 1))
                       else [blank, blank]);
          line' = (if full then [] else line) @ value_text value @ flag_pair
      in (if full then [line] else []) @ sat_lines_v1 (Suc i) line' values flags)"

definition format_sat_lines_v1 :: "int option list \<Rightarrow> rust_str \<Rightarrow> rust_str list" where
  "format_sat_lines_v1 values flags = sat_lines_v1 0 [] values flags"

definition serialize_rinex_epoch_v1 :: "epoch_record \<Rightarrow> rust_str list" where
  "serialize_rinex_epoch_v1 record =
     (case record of
        EventRecord descriptor lines \<Rightarrow> trim_blanks descriptor # lines
      | ObsRecord r \<Rightarrow>
          (let clock_text = (case oe_clock r of None \<Rightarrow> [] | Some v \<Rightarrow> format_clock v 9 12) in
           map trim_blanks (format_epoch_v1 (oe_descriptor r) (map sat_sv (oe_sats r)) clock_text)
           @ concat (map (\<lambda>sat. map trim_blanks (format_sat_lines_v1 (sat_values sat) (sat_flags sat))) (oe_sats r))))"

definition serialize_rinex_epoch :: "crinex_version \<Rightarrow> epoch_record \<Rightarrow> rust_str list" where
  "serialize_rinex_epoch version record =
     (case version of V3 \<Rightarrow> serialize_rinex_epoch_v3 record | V1 \<Rightarrow> serialize_rinex_epoch_v1 record)"

section \<open>Decoding to RINEX text\<close>

text \<open>The lines pushed to the sink, with the outcome.\<close>

function read_body :: "crinex_version \<Rightarrow> decoder \<Rightarrow> rust_str list \<Rightarrow> rust_str list \<times> (crinex_error + unit)" where
  "read_body version d lines =
     (case next_epoch version d lines of
        Inl e \<Rightarrow> ([], Inl e)
      | Inr (d', rest, None) \<Rightarrow> ([], Inr ())
      | Inr (d', rest, Some record) \<Rightarrow>
          (case read_body version d' rest of
             (emitted, result) \<Rightarrow> (serialize_rinex_epoch version record @ emitted, result)))"
  by pat_completeness auto
termination
  by (relation "measure (\<lambda>(_, _, lines). length lines)") (auto dest: next_epoch_shorter)

declare read_body.simps [simp del]

definition decode_to :: "rust_str \<Rightarrow> rust_str list \<times> (crinex_error + unit)" where
  "decode_to crinex_text =
     (case read_crinex_header new_decoder (text_lines crinex_text) of
        (header, Inl e) \<Rightarrow> (header, Inl e)
      | (header, Inr (d, lines)) \<Rightarrow>
          (case read_body (dc_version d) d lines of (emitted, result) \<Rightarrow> (header @ emitted, result)))"

definition decode :: "rust_str \<Rightarrow> crinex_error + rust_str" where
  "decode crinex_text =
     (case decode_to crinex_text of (emitted, result) \<Rightarrow> ebind result (\<lambda>_. Inr (text_of emitted)))"

text \<open>The text a stream stands for.\<close>

definition stream_lines :: "obs_stream \<Rightarrow> rust_str list" where
  "stream_lines s = os_header s @ concat (map (serialize_rinex_epoch (os_version s)) (os_epochs s))"

definition stream_text :: "obs_stream \<Rightarrow> rust_str" where
  "stream_text s = text_of (stream_lines s)"

lemma read_body_epochs:
  "(case read_epochs version d lines of
      Inl e \<Rightarrow> snd (read_body version d lines) = Inl e
    | Inr records \<Rightarrow> read_body version d lines = (concat (map (serialize_rinex_epoch version) records), Inr ()))"
proof (induction version d lines rule: read_epochs.induct)
  case (1 version d lines)
  show ?case
  proof (cases "next_epoch version d lines")
    case (Inl e)
    then show ?thesis by (simp add: read_epochs.simps [of version d lines] read_body.simps [of version d lines])
  next
    case (Inr step)
    obtain d' rest item where step: "step = (d', rest, item)" by (cases step)
    show ?thesis
    proof (cases item)
      case None
      then show ?thesis
        by (simp add: read_epochs.simps [of version d lines] read_body.simps [of version d lines] Inr step)
    next
      case (Some r)
      have "(case read_epochs version d' rest of
          Inl e \<Rightarrow> snd (read_body version d' rest) = Inl e
        | Inr records \<Rightarrow> read_body version d' rest = (concat (map (serialize_rinex_epoch version) records), Inr ()))"
        by (rule 1) (auto simp: Inr step Some)
      then show ?thesis
        by (auto simp: read_epochs.simps [of version d lines] read_body.simps [of version d lines] Inr step Some
            split: sum.splits prod.splits)
    qed
  qed
qed

lemma decode_parse:
  "decode crinex_text = ebind (parse_stream crinex_text) (\<lambda>s. Inr (stream_text s))"
proof (cases "read_crinex_header new_decoder (text_lines crinex_text)")
  case (Pair header result)
  show ?thesis
  proof (cases result)
    case (Inl e)
    with Pair show ?thesis by (simp add: decode_def decode_to_def parse_stream_def)
  next
    case (Inr step)
    obtain d lines where step: "step = (d, lines)" by (cases step)
    show ?thesis
      using Pair Inr step read_body_epochs [of "dc_version d" d lines]
      by (auto simp: decode_def decode_to_def parse_stream_def stream_text_def stream_lines_def
          split: sum.splits prod.splits)
  qed
qed

end
