(* ===== verification/Crinex_Rinex.thy ===== *)
theory Crinex_Rinex
  imports Crinex_Encoder
begin

text \<open>
  Plain RINEX observation text into the observation stream, and \<^verbatim>\<open>encode_crinex\<close> of
  \<^verbatim>\<open>crinex/mod.rs\<close>: fixed-decimal fields read digit by digit, the epoch and observation layouts of
  RINEX 2 and RINEX 3, and the cycle slip epochs CRINEX 1 cannot carry.
\<close>

section \<open>Fixed-decimal fields\<close>

definition parse_scaled_component :: "rust_str \<Rightarrow> rust_str \<Rightarrow> string \<Rightarrow> crinex_error + int" where
  "parse_scaled_component token whole_text name =
     (case parse_i64 token of None \<Rightarrow> Inl (TokenError (DecimalInvalid name whole_text)) | Some v \<Rightarrow> Inr v)"

definition split_sign :: "rust_str \<Rightarrow> bool \<times> rust_str" where
  "split_sign s =
     (case s of
        c # rest \<Rightarrow> if c = 0x2D then (True, rest) else if c = 0x2B then (False, rest) else (False, s)
      | [] \<Rightarrow> (False, []))"

text \<open>\<^verbatim>\<open>chars().take(decimals)\<close>, then zeros up to \<open>decimals\<close> bytes.\<close>

definition fraction_digits :: "nat \<Rightarrow> rust_str \<Rightarrow> rust_str" where
  "fraction_digits decimals fraction_part =
     (let fraction = str_bytes (take decimals (from_utf8_lossy fraction_part))
      in fraction @ replicate (decimals - length fraction) 0x30)"

definition overflow_error :: "string \<Rightarrow> int option \<Rightarrow> crinex_error + int" where
  "overflow_error name v =
     (case v of None \<Rightarrow> Inl (TokenError (DifferenceOverflow name)) | Some x \<Rightarrow> Inr x)"

definition parse_scaled_decimal :: "rust_str \<Rightarrow> nat \<Rightarrow> string \<Rightarrow> crinex_error + int" where
  "parse_scaled_decimal whole_text decimals name =
     (let (negative, body) = split_sign (str_trim whole_text);
          (integer_part, fraction_part) =
            (case byte_split_once 0x2E body of Some (integer, fraction) \<Rightarrow> (integer, fraction) | None \<Rightarrow> (body, []));
          integer_text = (if integer_part = [] then [0x30] else integer_part);
          fraction = fraction_digits decimals fraction_part
      in ebind (parse_scaled_component integer_text whole_text name) (\<lambda>integer_value.
         ebind (if decimals = 0 then Inr 0 else parse_scaled_component fraction whole_text name) (\<lambda>fraction_value.
         ebind (overflow_error name (checked_i64 (integer_value * 10 ^ decimals))) (\<lambda>scaled.
         ebind (overflow_error name (checked_i64 (scaled + fraction_value))) (\<lambda>magnitude.
         Inr (if negative then as_i64 (- magnitude) else magnitude))))))"

definition parse_clock_field :: "rust_str \<Rightarrow> nat \<Rightarrow> nat \<Rightarrow> nat \<Rightarrow> string \<Rightarrow> crinex_error + int option" where
  "parse_clock_field line start stop decimals name =
     (let clock_text = raw_field line start stop in
      if str_trim clock_text = [] then Inr None
      else ebind (parse_scaled_decimal clock_text decimals name) (\<lambda>v. Inr (Some v)))"

text \<open>The byte at a column as a \<^verbatim>\<open>char\<close>, pushed to a string.\<close>

definition char_at_or_space :: "rust_str \<Rightarrow> nat \<Rightarrow> u8" where
  "char_at_or_space line index = (if index < length line then line ! index else blank)"

definition read_obs_field :: "rust_str \<Rightarrow> nat \<Rightarrow> bool \<Rightarrow> crinex_error + (int option \<times> rust_str)" where
  "read_obs_field line base flags_on_blank =
     (let value_part = raw_field line base (base + OBS_VALUE_WIDTH);
          lli = char_at_or_space line (base + OBS_VALUE_WIDTH);
          ssi = char_at_or_space line (base + OBS_VALUE_WIDTH + 1);
          flag_pair = push_byte_char lli @ push_byte_char ssi
      in if str_trim value_part = [] then
           (if \<not> flags_on_blank \<and> (lli \<noteq> blank \<or> ssi \<noteq> blank)
            then Inl (EpochError (FlagsWithoutValue line)) else Inr (None, flag_pair))
         else
           ebind (parse_scaled_decimal value_part 3 ''observation'') (\<lambda>v. Inr (Some v, flag_pair)))"

fun read_obs_fields :: "(nat \<Rightarrow> crinex_error + (int option \<times> rust_str)) \<Rightarrow> nat list \<Rightarrow> crinex_error + (int option list \<times> rust_str)" where
  "read_obs_fields read [] = Inr ([], [])"
| "read_obs_fields read (i # is) =
     ebind (read i) (\<lambda>(value, flag_pair).
     ebind (read_obs_fields read is) (\<lambda>(values, flags). Inr (value # values, flag_pair @ flags)))"

definition parse_sat_obs_v3 :: "rust_str \<Rightarrow> nat \<Rightarrow> crinex_error + (int option list \<times> rust_str)" where
  "parse_sat_obs_v3 line n_obs =
     read_obs_fields (\<lambda>i. read_obs_field line (3 + i * OBS_FIELD_WIDTH) True) [0..<n_obs]"

definition parse_sat_obs_v1 :: "rust_str list \<Rightarrow> nat \<Rightarrow> crinex_error + (int option list \<times> rust_str)" where
  "parse_sat_obs_v1 obs_lines n_obs =
     read_obs_fields
       (\<lambda>i. read_obs_field (if i div 5 < length obs_lines then obs_lines ! (i div 5) else [])
              ((i mod 5) * OBS_FIELD_WIDTH) False)
       [0..<n_obs]"

section \<open>Epoch lines\<close>

definition build_descriptor_v3 :: "rust_str \<Rightarrow> rust_str list \<Rightarrow> rust_str" where
  "build_descriptor_v3 epoch_line sv_tokens = pad_to (raw_field epoch_line 0 35) 41 @ concat sv_tokens"

definition build_descriptor_v1 :: "rust_str \<Rightarrow> rust_str list \<Rightarrow> rust_str" where
  "build_descriptor_v1 epoch_line sv_tokens = pad_to (raw_field epoch_line 0 32) 32 @ concat sv_tokens"

definition collect_sv_tokens_v1 :: "rust_str \<Rightarrow> nat \<Rightarrow> rust_str list" where
  "collect_sv_tokens_v1 line count = map (\<lambda>i. raw_field line (32 + i * 3) (32 + i * 3 + 3)) [0..<count]"

definition epoch_picoseconds :: "decoder \<Rightarrow> rust_str \<Rightarrow> crinex_error + rust_str option" where
  "epoch_picoseconds d line =
     (let rest = raw_field_from line 56 in
      if str_trim rest = [] then Inr None
      else
        (let digits = raw_field line 57 62;
             written = (dc_picoseconds d \<and> raw_field line 56 57 = [blank] \<and> length digits = 5
                        \<and> list_all byte_is_digit digits \<and> str_trim (raw_field_from line 62) = [])
         in if \<not> written then Inl (EpochError (EpochTailRefused rest line)) else Inr (Some digits)))"

fun record_lines :: "decoder \<Rightarrow> rust_str list \<Rightarrow> nat list \<Rightarrow> crinex_error + nat" where
  "record_lines d tokens [] = Inr 0"
| "record_lines d tokens (index # indices) =
     (let token = (if index < length tokens then tokens ! index
                   else if tokens \<noteq> [] then hd tokens else [blank])
      in ebind (obs_count_for d token) (\<lambda>n.
         ebind (record_lines d tokens indices) (\<lambda>records. Inr ((n + 4) div 5 + records))))"

definition CYCLE_SLIP_FLAG :: nat where
  "CYCLE_SLIP_FLAG = 6"

definition ensure_cycle_slip_epoch_fits_v1 :: "decoder \<Rightarrow> rust_str \<Rightarrow> nat \<Rightarrow> crinex_error + unit" where
  "ensure_cycle_slip_epoch_fits_v1 d first numsat =
     (let continuation = (numsat - 1) div 12;
          tokens = collect_sv_tokens_v1 first (min numsat 12)
      in ebind (record_lines d tokens [0..<numsat]) (\<lambda>records.
         let occupied = continuation + records in
         if occupied = numsat then Inr ()
         else Inl (EpochError (CycleSlipMisfit numsat occupied continuation records first))))"

section \<open>RINEX 3 epochs\<close>

fun rinex_sats_v3 :: "decoder \<Rightarrow> nat \<Rightarrow> rust_str list \<Rightarrow> crinex_error + (sat_record list \<times> rust_str list)" where
  "rinex_sats_v3 d 0 lines = Inr ([], lines)"
| "rinex_sats_v3 d (Suc n) [] = Inl (EpochError (SatelliteLineMissing ''RINEX-3''))"
| "rinex_sats_v3 d (Suc n) (raw # lines) =
     (let sat_line = trim_eol raw; sv = raw_field sat_line 0 3 in
      ebind (obs_count_for d sv) (\<lambda>n_obs.
      ebind (parse_sat_obs_v3 sat_line n_obs) (\<lambda>(values, flags).
      ebind (rinex_sats_v3 d n lines) (\<lambda>(sats, lines).
      Inr (\<lparr>sat_sv = sv, sat_values = values, sat_flags = flags\<rparr> # sats, lines)))))"

definition rinex_epoch_v3 :: "decoder \<Rightarrow> rust_str \<Rightarrow> rust_str list \<Rightarrow> crinex_error + (decoder \<times> rust_str list \<times> epoch_record)" where
  "rinex_epoch_v3 d line lines =
     (if \<not> (line \<noteq> [] \<and> hd line = 0x3E) then Inl (EpochError (EpochLineMark line))
      else
        ebind (strict_int_field parse_byte line 31 32 ''v3.epoch.flag'') (\<lambda>flag.
        ebind (strict_int_field parse_usize line 32 35 ''v3.epoch.satellite_count'') (\<lambda>numsat.
        if flag > 1 then
          ebind (take_event_lines ''RINEX-3'' numsat lines) (\<lambda>(event_lines, lines).
          ebind (classify_event_lines d event_lines) (\<lambda>d. Inr (d, lines, EventRecord line event_lines)))
        else
          ebind (parse_clock_field line 41 56 12 ''v3.epoch.clock'') (\<lambda>clock.
          ebind (epoch_picoseconds d line) (\<lambda>picoseconds.
          ebind (rinex_sats_v3 d numsat lines) (\<lambda>(sats, lines).
          Inr (d, lines, ObsRecord
            \<lparr>oe_descriptor = build_descriptor_v3 line (map sat_sv sats), oe_clock = clock,
             oe_picoseconds = picoseconds, oe_sats = sats\<rparr>)))))))"

section \<open>RINEX 2 epochs\<close>

text \<open>The satellite list continues on further lines, twelve to a line.\<close>

function rinex_svs_v1 :: "nat \<Rightarrow> rust_str list \<Rightarrow> rust_str list \<Rightarrow> crinex_error + (rust_str list \<times> rust_str list)" where
  "rinex_svs_v1 numsat tokens lines =
     (if length tokens < numsat then
        (case lines of
           [] \<Rightarrow> Inl (EpochError SvContinuationMissing)
         | raw # lines \<Rightarrow>
             rinex_svs_v1 numsat
               (tokens @ collect_sv_tokens_v1 (trim_eol raw) (min (numsat - length tokens) 12)) lines)
      else Inr (tokens, lines))"
  by pat_completeness auto
termination
  by (relation "measure (\<lambda>(_, _, lines). length lines)") auto

declare rinex_svs_v1.simps [simp del]

fun take_obs_lines :: "nat \<Rightarrow> rust_str list \<Rightarrow> crinex_error + (rust_str list \<times> rust_str list)" where
  "take_obs_lines 0 lines = Inr ([], lines)"
| "take_obs_lines (Suc n) [] = Inl (EpochError ObservationLineMissing)"
| "take_obs_lines (Suc n) (raw # lines) =
     ebind (take_obs_lines n lines) (\<lambda>(obs_lines, lines). Inr (trim_eol raw # obs_lines, lines))"

fun rinex_sats_v1 :: "decoder \<Rightarrow> rust_str list \<Rightarrow> rust_str list \<Rightarrow> crinex_error + (sat_record list \<times> rust_str list)" where
  "rinex_sats_v1 d [] lines = Inr ([], lines)"
| "rinex_sats_v1 d (sv # svs) lines =
     ebind (obs_count_for d sv) (\<lambda>n_obs.
     ebind (take_obs_lines ((n_obs + 4) div 5) lines) (\<lambda>(obs_lines, lines).
     ebind (parse_sat_obs_v1 obs_lines n_obs) (\<lambda>(values, flags).
     ebind (rinex_sats_v1 d svs lines) (\<lambda>(sats, lines).
     Inr (\<lparr>sat_sv = sv, sat_values = values, sat_flags = flags\<rparr> # sats, lines)))))"

definition rinex_epoch_v1 :: "decoder \<Rightarrow> rust_str \<Rightarrow> rust_str list \<Rightarrow> crinex_error + (decoder \<times> rust_str list \<times> epoch_record)" where
  "rinex_epoch_v1 d first lines =
     ebind (strict_int_field parse_byte first 26 29 ''v1.epoch.flag'') (\<lambda>flag.
     ebind (strict_int_field parse_usize first 29 32 ''v1.epoch.satellite_count'') (\<lambda>numsat.
     if flag > 1 then
       ebind (if flag = CYCLE_SLIP_FLAG then ensure_cycle_slip_epoch_fits_v1 d first numsat else Inr ()) (\<lambda>_.
       ebind (take_event_lines ''RINEX-2'' numsat lines) (\<lambda>(event_lines, lines).
       ebind (classify_event_lines d event_lines) (\<lambda>d. Inr (d, lines, EventRecord first event_lines))))
     else
       ebind (parse_clock_field first 68 80 9 ''v1.epoch.clock'') (\<lambda>clock.
       ebind (rinex_svs_v1 numsat (collect_sv_tokens_v1 first (min numsat 12)) lines) (\<lambda>(sv_tokens, lines).
       ebind (rinex_sats_v1 d sv_tokens lines) (\<lambda>(sats, lines).
       Inr (d, lines, ObsRecord
         \<lparr>oe_descriptor = build_descriptor_v1 first sv_tokens, oe_clock = clock,
          oe_picoseconds = None, oe_sats = sats\<rparr>))))))"

definition rinex_epoch ::
    "crinex_version \<Rightarrow> decoder \<Rightarrow> rust_str \<Rightarrow> rust_str list \<Rightarrow> crinex_error + (decoder \<times> rust_str list \<times> epoch_record)" where
  "rinex_epoch version d line lines =
     (case version of V3 \<Rightarrow> rinex_epoch_v3 d line lines | V1 \<Rightarrow> rinex_epoch_v1 d line lines)"

lemma rinex_sats_v3_length: "rinex_sats_v3 d n lines = Inr (sats, rest) \<Longrightarrow> length rest \<le> length lines"
  by (induction d n lines arbitrary: sats rest rule: rinex_sats_v3.induct) (fastforce simp: Let_def)+

lemma rinex_svs_v1_length: "rinex_svs_v1 numsat tokens lines = Inr (svs, rest) \<Longrightarrow> length rest \<le> length lines"
proof (induction numsat tokens lines rule: rinex_svs_v1.induct)
  case (1 numsat tokens lines)
  then show ?case
    by (fastforce simp: rinex_svs_v1.simps [of numsat tokens lines] split: if_splits list.splits)
qed

lemma take_obs_lines_length: "take_obs_lines n lines = Inr (taken, rest) \<Longrightarrow> length lines = n + length rest"
  by (induction n lines arbitrary: taken rest rule: take_obs_lines.induct) auto

lemma rinex_sats_v1_length: "rinex_sats_v1 d svs lines = Inr (sats, rest) \<Longrightarrow> length rest \<le> length lines"
  by (induction d svs lines arbitrary: sats rest rule: rinex_sats_v1.induct)
    (fastforce dest!: take_obs_lines_length)+

lemma rinex_epoch_shorter:
  "rinex_epoch version d line lines = Inr (d', rest, item) \<Longrightarrow> length rest \<le> length lines"
  by (cases version)
    (auto simp: rinex_epoch_def rinex_epoch_v3_def rinex_epoch_v1_def split: if_splits
      dest!: take_event_lines_length rinex_sats_v3_length rinex_svs_v1_length rinex_sats_v1_length)

section \<open>The whole text\<close>

function parse_rinex_epochs :: "crinex_version \<Rightarrow> decoder \<Rightarrow> rust_str list \<Rightarrow> crinex_error + epoch_record list" where
  "parse_rinex_epochs version d lines =
     (case next_raw lines of
        None \<Rightarrow> Inr []
      | Some (line, rest) \<Rightarrow>
          (case rinex_epoch version d line rest of
             Inl e \<Rightarrow> Inl e
           | Inr (d', rest', item) \<Rightarrow>
               ebind (parse_rinex_epochs version d' rest') (\<lambda>items. Inr (item # items))))"
  by pat_completeness auto
termination
  by (relation "measure (\<lambda>(_, _, lines). length lines)")
    (auto dest!: rinex_epoch_shorter next_raw_shorter)

declare parse_rinex_epochs.simps [simp del]

text \<open>The header scan: the revision from \<^verbatim>\<open>RINEX VERSION / TYPE\<close>, then the observation counts.\<close>

definition rinex_revision :: "rust_str \<Rightarrow> crinex_error + crinex_version" where
  "rinex_revision version =
     (case first_char version of
        Some c \<Rightarrow> if c = 0x32 then Inr V1 else if c = 0x33 \<or> c = 0x34 then Inr V3
                  else Inl (HeaderError (RinexVersionUnsupported version))
      | None \<Rightarrow> Inl (HeaderError (RinexVersionUnsupported version)))"

definition scan_version :: "decoder \<Rightarrow> rust_str \<Rightarrow> crinex_error + decoder" where
  "scan_version d line =
     (let version = str_trim (raw_field line 0 9) in
      ebind (rinex_revision version) (\<lambda>revision.
      Inr (d\<lparr>dc_version := revision, dc_picoseconds := rinex_version_carries_picoseconds version\<rparr>)))"

fun scan_header_lines ::
    "decoder \<Rightarrow> bool \<Rightarrow> rust_str list \<Rightarrow> crinex_error + (decoder \<times> rust_str list \<times> rust_str list)" where
  "scan_header_lines d saw_version [] =
     (if \<not> saw_version then Inl (HeaderError RinexVersionMissing) else Inl (HeaderError RinexHeaderUnterminated))"
| "scan_header_lines d saw_version (raw # lines) =
     (let line = trim_eol raw; label = header_label line; is_version = (label = blit ''RINEX VERSION / TYPE'') in
      ebind (if is_version then scan_version d line else Inr d) (\<lambda>d.
      ebind (classify_header_label d line label) (\<lambda>d.
      if label = blit ''END OF HEADER'' then
        (if \<not> saw_version then Inl (HeaderError RinexVersionMissing) else Inr (d, [line], lines))
      else
        ebind (scan_header_lines d (saw_version \<or> is_version) lines) (\<lambda>(d, header, lines).
        Inr (d, line # header, lines)))))"

definition scan_rinex_header :: "decoder \<Rightarrow> rust_str list \<Rightarrow> crinex_error + (decoder \<times> rust_str list \<times> rust_str list)" where
  "scan_rinex_header d lines = scan_header_lines d False lines"

definition parse_rinex_obs :: "rust_str \<Rightarrow> crinex_error + obs_stream" where
  "parse_rinex_obs rinex_text =
     ebind (scan_rinex_header new_decoder (text_lines rinex_text)) (\<lambda>(d, header, lines).
     ebind (parse_rinex_epochs (dc_version d) d lines) (\<lambda>epochs.
     Inr \<lparr>os_version = dc_version d, os_header = header, os_epochs = epochs\<rparr>))"

text \<open>\<open>None\<close> when the encoder panics.\<close>

definition encode_crinex :: "rust_str \<Rightarrow> (crinex_error + rust_str) option" where
  "encode_crinex rinex_text =
     (case parse_rinex_obs rinex_text of
        Inl e \<Rightarrow> Some (Inl e)
      | Inr s \<Rightarrow> map_option Inr (encode_stream s))"

end
