(* ===== verification/Crinex_Roundtrip.thy ===== *)
theory Crinex_Roundtrip
  imports Crinex_Encoder
begin

text \<open>
  What a well-typed observation stream is, and that the all-reset CRINEX text of a tidy one is read
  back as the stream: satellites, tokens and flags first, then clock lines, epochs and whole texts.
\<close>

section \<open>Well-typed streams\<close>

definition value_typed :: "int option \<Rightarrow> bool" where
  "value_typed ob = (case ob of None \<Rightarrow> True | Some v \<Rightarrow> fits_i 64 v)"

text \<open>CRINEX 1 flags span every observation and are blank beside a blank one.\<close>

fun flags_blanked :: "int option list \<Rightarrow> u8 list \<Rightarrow> bool" where
  "flags_blanked [] flags \<longleftrightarrow> True"
| "flags_blanked (ob # vals) (lli # ssi # flags) \<longleftrightarrow>
     (ob = None \<longrightarrow> lli = blank \<and> ssi = blank) \<and> flags_blanked vals flags"
| "flags_blanked (ob # vals) flags \<longleftrightarrow> False"

definition flags_typed :: "crinex_version \<Rightarrow> int option list \<Rightarrow> rust_str \<Rightarrow> bool" where
  "flags_typed version vals flags \<longleftrightarrow>
     clean_line flags \<and> ampersand \<notin> set flags \<and> (version = V1 \<longrightarrow> flags_blanked vals flags)"

definition sat_typed :: "crinex_version \<Rightarrow> decoder \<Rightarrow> sat_record \<Rightarrow> bool" where
  "sat_typed version w sat \<longleftrightarrow>
     obs_count_for w (sat_sv sat) = Inr (length (sat_values sat)) \<and>
     list_all value_typed (sat_values sat) \<and> flags_typed version (sat_values sat) (sat_flags sat)"

definition picoseconds_typed :: "crinex_version \<Rightarrow> rust_str option \<Rightarrow> bool" where
  "picoseconds_typed version picoseconds =
     (case picoseconds of None \<Rightarrow> True | Some p \<Rightarrow> version = V3 \<and> length p = 5 \<and> list_all byte_is_digit p)"

text \<open>What the descriptor states: the satellite count and the flag, in the columns of the revision.\<close>

definition descriptor_count :: "crinex_version \<Rightarrow> rust_str \<Rightarrow> crinex_error + nat" where
  "descriptor_count version descriptor =
     (case version of V3 \<Rightarrow> strict_int_field parse_usize descriptor 32 35 ''v3.epoch.satellite_count''
      | V1 \<Rightarrow> strict_int_field parse_usize descriptor 29 32 ''v1.epoch.satellite_count'')"

definition descriptor_flag :: "crinex_version \<Rightarrow> rust_str \<Rightarrow> crinex_error + nat" where
  "descriptor_flag version descriptor =
     (case version of V3 \<Rightarrow> strict_int_field parse_byte descriptor 31 32 ''v3.epoch.flag''
      | V1 \<Rightarrow> strict_int_field parse_byte descriptor 26 29 ''v1.epoch.flag'')"

definition descriptor_svs :: "crinex_version \<Rightarrow> rust_str \<Rightarrow> nat \<Rightarrow> crinex_error + rust_str list" where
  "descriptor_svs version = (case version of V3 \<Rightarrow> sv_tokens_v3 | V1 \<Rightarrow> sv_tokens_v1)"

definition flag_of :: "crinex_version \<Rightarrow> rust_str \<Rightarrow> nat" where
  "flag_of version descriptor = (case descriptor_flag version descriptor of Inr f \<Rightarrow> f | Inl _ \<Rightarrow> 0)"

definition epoch_typed :: "crinex_version \<Rightarrow> decoder \<Rightarrow> epoch_record \<Rightarrow> bool" where
  "epoch_typed version w item \<longleftrightarrow>
     (case item of
        EventRecord descriptor lines \<Rightarrow>
          clean_line descriptor \<and> list_all clean_line lines \<and>
          descriptor_count version descriptor = Inr (length lines) \<and>
          descriptor_flag version descriptor = Inr (flag_of version descriptor) \<and> 1 < flag_of version descriptor \<and>
          \<not> isl (classify_event_lines w lines)
      | ObsRecord r \<Rightarrow>
          clean_line (oe_descriptor r) \<and>
          descriptor_count version (oe_descriptor r) = Inr (length (oe_sats r)) \<and>
          descriptor_flag version (oe_descriptor r) = Inr (flag_of version (oe_descriptor r)) \<and>
          flag_of version (oe_descriptor r) \<le> 1 \<and>
          descriptor_svs version (oe_descriptor r) (length (oe_sats r)) = Inr (map sat_sv (oe_sats r)) \<and>
          value_typed (oe_clock r) \<and> picoseconds_typed version (oe_picoseconds r) \<and>
          list_all (sat_typed version w) (oe_sats r))"

definition after_epoch :: "decoder \<Rightarrow> epoch_record \<Rightarrow> decoder" where
  "after_epoch w item =
     (case item of
        EventRecord descriptor lines \<Rightarrow> (case classify_event_lines w lines of Inr w' \<Rightarrow> w' | Inl _ \<Rightarrow> w)
      | ObsRecord r \<Rightarrow> w)"

fun epochs_typed :: "crinex_version \<Rightarrow> decoder \<Rightarrow> epoch_record list \<Rightarrow> bool" where
  "epochs_typed version w [] \<longleftrightarrow> True"
| "epochs_typed version w (item # items) \<longleftrightarrow>
     epoch_typed version w item \<and> epochs_typed version (after_epoch w item) items"

text \<open>The observation counts a header declares; \<open>None\<close> for a header the reader refuses.\<close>

definition header_widths :: "rust_str list \<Rightarrow> decoder option" where
  "header_widths header =
     (case copy_header new_decoder header of
        (_, Inr (w, rest)) \<Rightarrow> if rest = [] then Some w else None
      | (_, Inl _) \<Rightarrow> None)"

definition stream_typed :: "obs_stream \<Rightarrow> bool" where
  "stream_typed s \<longleftrightarrow>
     list_all clean_line (os_header s) \<and>
     (case header_widths (os_header s) of
        None \<Rightarrow> False
      | Some w \<Rightarrow> epochs_typed (os_version s) w (os_epochs s))"

text \<open>
  What the encoder takes for granted of a stream and a malformed text does not give: descriptors with
  their mark, no satellite twice in an epoch, CRINEX 1 flags of two columns per observation.
\<close>

definition marked :: "crinex_version \<Rightarrow> rust_str \<Rightarrow> bool" where
  "marked version descriptor \<longleftrightarrow> descriptor \<noteq> [] \<and> hd descriptor = (case version of V3 \<Rightarrow> 0x3E | V1 \<Rightarrow> blank)"

definition epoch_tidy :: "crinex_version \<Rightarrow> epoch_record \<Rightarrow> bool" where
  "epoch_tidy version item =
     (case item of
        EventRecord descriptor lines \<Rightarrow> marked version descriptor
      | ObsRecord r \<Rightarrow>
          marked version (oe_descriptor r) \<and> distinct (map sat_sv (oe_sats r)) \<and>
          (version = V1 \<longrightarrow> list_all (\<lambda>sat. length (sat_flags sat) = 2 * length (sat_values sat)) (oe_sats r)))"

definition stream_tidy :: "obs_stream \<Rightarrow> bool" where
  "stream_tidy s \<longleftrightarrow> list_all (epoch_tidy (os_version s)) (os_epochs s)"

section \<open>Tokens\<close>

lemma show_int_plain:
  "b \<in> set (show_int v) \<Longrightarrow> b < 0x80 \<and> b \<noteq> 0x0A \<and> b \<noteq> 0x0D \<and> \<not> byte_is_space b \<and> b \<noteq> blank \<and> b \<noteq> ampersand"
  using show_int_bytes [of b v] digit_clean [of b] by (auto simp: blank_def ampersand_def byte_is_space_def)

lemma show_int_nonempty: "show_int v \<noteq> []"
  using show_nat_digits(2) by (simp add: show_int_def)

lemma token_plain:
  assumes "b \<in> set (obs_token ob)"
  shows "b < 0x80" "b \<noteq> 0x0A" "b \<noteq> 0x0D" "\<not> byte_is_space b" "b \<noteq> blank"
proof -
  have "b = 0x31 \<or> b = 0x26 \<or> (\<exists>v. b \<in> set (show_int v))"
    using assms by (auto simp: obs_token_def blit_def split: option.splits)
  then show "b < 0x80" "b \<noteq> 0x0A" "b \<noteq> 0x0D" "\<not> byte_is_space b" "b \<noteq> blank"
    using show_int_plain by (auto simp: byte_is_space_def blank_def)
qed

lemma token_clean: "clean_line (obs_token ob)"
  using token_plain by (auto simp: clean_line_def list_all_iff)

lemma token_Some: "obs_token (Some v) = 0x31 # ampersand # show_int v"
  by (simp add: obs_token_def blit_def ampersand_def)

lemma reset_token:
  assumes "fits_i 64 v"
  shows "parse_reset (obs_token (Some v)) = Inr (Some (1, v))"
proof -
  have "\<not> byte_is_space (last (obs_token (Some v)))"
    by (rule token_plain [of _ "Some v"]) (simp add: token_Some show_int_nonempty)
  then have "byte_trim (obs_token (Some v)) = obs_token (Some v)"
    by (intro byte_trim_word) (simp add: token_Some byte_is_space_def)
  then have "str_trim (obs_token (Some v)) = 0x31 # ampersand # show_int v"
    using token_clean [of "Some v"] by (simp add: token_Some)
  moreover have "parse_usize [0x31] = Some 1"
    using parse_usize_show [of 1] by (simp add: show_nat_step)
  ultimately show ?thesis
    using assms by (simp add: parse_reset_def byte_split_once_def ampersand_def Let_def MAX_ORDER_def)
qed

section \<open>Satellite lines\<close>

lemma reset_applied:
  assumes "dc_obs_diff d sv = Some engines" and "k < length engines" and "fits_i 64 v"
  shows "apply_obs_token d sv k (obs_token (Some v)) =
    Inr (d\<lparr>dc_obs_diff := (dc_obs_diff d)(sv \<mapsto> engines[k := Some (arc_init (engines ! k) v 1)])\<rparr>, v)"
  using assms by (simp add: apply_obs_token_def reset_token Let_def)

lemma encode_fields_hd: "hd (encode_fields (Suc k) vals @ blank # rest) = blank"
  by (cases vals) simp_all

lemma token_ends:
  "takeWhile (\<lambda>b. b \<noteq> blank) (obs_token ob @ encode_fields (Suc k) vals @ blank # rest) = obs_token ob"
  "dropWhile (\<lambda>b. b \<noteq> blank) (obs_token ob @ encode_fields (Suc k) vals @ blank # rest)
     = encode_fields (Suc k) vals @ blank # rest"
proof -
  have plain: "\<forall>b\<in>set (obs_token ob). b \<noteq> blank" using token_plain(5) by blast
  obtain t where t: "encode_fields (Suc k) vals @ blank # rest = blank # t" by (cases vals) simp_all
  show "takeWhile (\<lambda>b. b \<noteq> blank) (obs_token ob @ encode_fields (Suc k) vals @ blank # rest) = obs_token ob"
    "dropWhile (\<lambda>b. b \<noteq> blank) (obs_token ob @ encode_fields (Suc k) vals @ blank # rest)
     = encode_fields (Suc k) vals @ blank # rest"
    unfolding t using plain by simp_all
qed

lemma after_separator:
  "(if k > 0 \<and> encode_fields k (ob # vals) @ blank # rest \<noteq> [] \<and> hd (encode_fields k (ob # vals) @ blank # rest) = blank
    then tl (encode_fields k (ob # vals) @ blank # rest) else encode_fields k (ob # vals) @ blank # rest)
   = obs_token ob @ encode_fields (Suc k) vals @ blank # rest"
  by (cases k; cases ob) (auto simp: obs_token_def)

lemma read_blank_field:
  "read_obs_tokens d sv (k # ks) (encode_fields k (None # vals) @ blank # rest) =
   ebind (read_obs_tokens d sv ks (encode_fields (Suc k) vals @ blank # rest)) (\<lambda>(d, vals, rest). Inr (d, None # vals, rest))"
proof -
  have "obs_token None @ encode_fields (Suc k) vals @ blank # rest = encode_fields (Suc k) vals @ blank # rest"
    by (simp add: obs_token_def)
  then show ?thesis
    using encode_fields_hd [of k vals rest] by (simp only: read_obs_tokens.simps after_separator Let_def simp_thms if_True)
qed

lemma read_token_field:
  "read_obs_tokens d sv (k # ks) (encode_fields k (Some v # vals) @ blank # rest) =
   ebind (apply_obs_token d sv k (obs_token (Some v))) (\<lambda>(d, v).
   ebind (read_obs_tokens d sv ks (encode_fields (Suc k) vals @ blank # rest)) (\<lambda>(d, vals, rest).
   Inr (d, Some v # vals, rest)))"
proof -
  have "\<not> (obs_token (Some v) @ encode_fields (Suc k) vals @ blank # rest = []
      \<or> hd (obs_token (Some v) @ encode_fields (Suc k) vals @ blank # rest) = blank)"
    by (simp add: token_Some blank_def)
  then show ?thesis by (simp only: read_obs_tokens.simps after_separator Let_def token_ends if_False)
qed

lemma tokens_read_back:
  assumes "dc_obs_diff d sv = Some engines" and "k + length vals \<le> length engines"
    and "list_all value_typed vals"
  shows "\<exists>engines'. length engines' = length engines \<and>
    read_obs_tokens d sv [k..<k + length vals] (encode_fields k vals @ blank # rest) =
      Inr (d\<lparr>dc_obs_diff := (dc_obs_diff d)(sv \<mapsto> engines')\<rparr>, vals, blank # rest)"
  using assms
proof (induction vals arbitrary: d engines k)
  case Nil
  then show ?case by (intro exI [of _ engines]) (simp add: fun_upd_idem)
next
  case (Cons ob vals)
  let ?later = "encode_fields (Suc k) vals @ blank # rest"
  have range: "[k..<k + length (ob # vals)] = k # [Suc k..<Suc k + length vals]"
    using upt_conv_Cons [of k "k + length (ob # vals)"] by simp
  show ?case
  proof (cases ob)
    case None
    have room: "Suc k + length vals \<le> length engines" "list_all value_typed vals" using Cons.prems by simp_all
    from Cons.IH [OF Cons.prems(1) room] obtain engines' where "length engines' = length engines"
      "read_obs_tokens d sv [Suc k..<Suc k + length vals] ?later =
         Inr (d\<lparr>dc_obs_diff := (dc_obs_diff d)(sv \<mapsto> engines')\<rparr>, vals, blank # rest)"
      by blast
    then show ?thesis
      by (intro exI [of _ engines']) (simp only: None range [unfolded None] read_blank_field ebind_simps prod.case simp_thms)
  next
    case (Some v)
    let ?e = "engines[k := Some (arc_init (engines ! k) v 1)]"
    let ?d = "d\<lparr>dc_obs_diff := (dc_obs_diff d)(sv \<mapsto> ?e)\<rparr>"
    have v: "fits_i 64 v" and k: "k < length engines" using Cons.prems Some by (simp_all add: value_typed_def)
    have room: "dc_obs_diff ?d sv = Some ?e" "Suc k + length vals \<le> length ?e" "list_all value_typed vals"
      using Cons.prems by simp_all
    from Cons.IH [OF room] obtain engines' where e: "length engines' = length ?e"
      "read_obs_tokens ?d sv [Suc k..<Suc k + length vals] ?later =
         Inr (?d\<lparr>dc_obs_diff := (dc_obs_diff ?d)(sv \<mapsto> engines')\<rparr>, vals, blank # rest)"
      by blast
    have "?d\<lparr>dc_obs_diff := (dc_obs_diff ?d)(sv \<mapsto> engines')\<rparr> = d\<lparr>dc_obs_diff := (dc_obs_diff d)(sv \<mapsto> engines')\<rparr>"
      by simp
    with e show ?thesis
      by (intro exI [of _ engines'])
        (simp only: Some range [unfolded Some] read_token_field reset_applied [OF Cons.prems(1) k v] ebind_simps prod.case
          simp_thms length_list_update)
  qed
qed

lemma encode_fields_clean: "clean_line (encode_fields k vals)"
  by (induction vals arbitrary: k) (simp_all add: token_clean blank_def)

lemma trim_blanks_pad: "length flags = n \<Longrightarrow> trim_blanks flags @ replicate (n - length (trim_blanks flags)) blank = flags"
proof (induction flags arbitrary: n rule: rev_induct)
  case (snoc b flags)
  show ?case
  proof (cases "b = blank")
    case True
    then have t: "trim_blanks (flags @ [b]) = trim_blanks flags" by (simp add: trim_blanks_def)
    have "length (trim_blanks flags) \<le> length flags"
      using length_dropWhile_le [of "\<lambda>b. b = blank" "rev flags"] by (simp add: trim_blanks_def)
    then have "replicate (n - length (trim_blanks flags)) blank
        = replicate (length flags - length (trim_blanks flags)) blank @ [blank]"
      using snoc.prems [symmetric] by (simp add: Suc_diff_le replicate_append_same)
    then show ?thesis using snoc.IH [of "length flags"] t True by simp
  qed (use snoc.prems in \<open>simp add: trim_blanks_def\<close>)
qed (simp add: trim_blanks_def)

lemma blank_flags_typed: "flags_blanked vals flags \<Longrightarrow> blank_flags vals flags = flags"
  by (induction vals flags rule: flags_blanked.induct) auto

lemma unblank_plain: "ampersand \<notin> set s \<Longrightarrow> map unblank s = s"
  by (induction s) (auto simp: unblank_def)

lemma trim_blanks_subset: "set (trim_blanks s) \<subseteq> set s"
  by (auto simp: trim_blanks_def dest: set_dropWhileD)

lemma new_flags_read_back:
  assumes "flags_typed version vals flags" and "version = V1 \<Longrightarrow> length flags = width"
  shows "flags_of version width None (new_satellite_flags flags version) vals = flags"
proof (cases version)
  case V1
  have "ampersand \<notin> set (trim_blanks flags)"
    using assms(1) trim_blanks_subset by (auto simp: flags_typed_def)
  then show ?thesis
    using assms V1
    by (simp add: flags_of_def new_satellite_flags_def text_decompress_overlay unblank_plain trim_blanks_pad
        flags_typed_def blank_flags_typed)
next
  case V3
  have "ampersand \<notin> set flags" using assms(1) by (simp add: flags_typed_def)
  then have "map unblank (map (\<lambda>b. if b = blank then ampersand else b) flags) = flags"
    by (induction flags) (auto simp: unblank_def)
  then show ?thesis
    using V3 by (simp add: flags_of_def new_satellite_flags_def text_decompress_overlay)
qed

lemma new_flags_clean: "clean_line flags \<Longrightarrow> clean_line (new_satellite_flags flags version)"
proof (cases version)
  case V3
  then show "clean_line flags \<Longrightarrow> clean_line (new_satellite_flags flags version)"
    by (induction flags) (simp_all add: new_satellite_flags_def ampersand_def)
qed (simp add: new_satellite_flags_def)

lemma encode_sat_line_clean:
  "clean_line flags \<Longrightarrow> clean_line (encode_sat_line vals (new_satellite_flags flags version))"
  by (simp add: encode_sat_line_def encode_fields_clean new_flags_clean blank_def)

lemma sat_values_read_back:
  assumes "list_all value_typed vals" and "flags_typed (dc_version d) vals flags"
    and "dc_version d = V1 \<Longrightarrow> length flags = 2 * length vals" and "dc_flag_diff d sv = None"
  shows "\<exists>od fd. (\<forall>sv'. sv' \<noteq> sv \<longrightarrow> fd sv' = dc_flag_diff d sv') \<and>
    decode_sat_values d sv (encode_sat_line vals (new_satellite_flags flags (dc_version d))) (length vals) =
      Inr (d\<lparr>dc_obs_diff := od, dc_flag_diff := fd\<rparr>, vals, flags)"
proof -
  let ?n = "length vals" and ?flags = "new_satellite_flags flags (dc_version d)"
  obtain engines where enter: "enter_engines d sv ?n = d\<lparr>dc_obs_diff := (dc_obs_diff d)(sv \<mapsto> engines)\<rparr>"
    and len: "?n \<le> length engines"
    by (simp add: enter_engines_def Let_def)
  obtain engines' where tokens: "read_obs_tokens (enter_engines d sv ?n) sv [0..<?n] (encode_fields 0 vals @ blank # ?flags)
      = Inr (d\<lparr>dc_obs_diff := (dc_obs_diff d)(sv \<mapsto> engines')\<rparr>, vals, blank # ?flags)"
    using tokens_read_back [of "enter_engines d sv ?n" sv engines 0 vals ?flags] enter len assms(1) by auto
  have flags: "flags_of (dc_version d) (?n * 2) (dc_flag_diff d sv) (flag_text (blank # ?flags)) vals = flags"
    using new_flags_read_back [OF assms(2), of "?n * 2"] assms(3,4) by (simp add: flag_text_def mult.commute)
  have "lossy flags = flags" using assms(2) by (simp add: flags_typed_def)
  then show ?thesis
    using tokens flags
    by (intro exI [of _ "(dc_obs_diff d)(sv \<mapsto> blank_slots engines' vals)"] exI [of _ "(dc_flag_diff d)(sv \<mapsto> flags)"])
      (simp add: decode_sat_values_def encode_sat_line_def end_blank_arcs_def)
qed

definition widths_agree :: "decoder \<Rightarrow> decoder \<Rightarrow> bool" where
  "widths_agree d w \<longleftrightarrow>
     dc_obs_count d = dc_obs_count w \<and> dc_default_system d = dc_default_system w \<and> dc_types_left d = dc_types_left w"

lemma obs_count_for_cong: "dc_obs_count d = dc_obs_count w \<Longrightarrow> obs_count_for d sv = obs_count_for w sv"
  by (simp add: obs_count_for_def split: option.split)

definition sat_line :: "crinex_version \<Rightarrow> sat_record \<Rightarrow> rust_str" where
  "sat_line version sat = encode_sat_line (sat_values sat) (new_satellite_flags (sat_flags sat) version)"

definition sat_tidy :: "crinex_version \<Rightarrow> sat_record \<Rightarrow> bool" where
  "sat_tidy version sat \<longleftrightarrow> (version = V1 \<longrightarrow> length (sat_flags sat) = 2 * length (sat_values sat))"

lemma sats_read_back:
  assumes "list_all (sat_typed (dc_version d) w) sats" and "list_all (sat_tidy (dc_version d)) sats"
    and "distinct (map sat_sv sats)" and "\<forall>sat\<in>set sats. dc_flag_diff d (sat_sv sat) = None"
    and "dc_obs_count d = dc_obs_count w"
  shows "\<exists>od fd. read_sats revision d (map sat_sv sats) (map (sat_line (dc_version d)) sats @ rest) =
    Inr (d\<lparr>dc_obs_diff := od, dc_flag_diff := fd\<rparr>, sats, rest)"
  using assms
proof (induction sats arbitrary: d)
  case Nil
  then show ?case by (intro exI [of _ "dc_obs_diff d"] exI [of _ "dc_flag_diff d"]) simp
next
  case (Cons sat sats)
  have sat: "obs_count_for w (sat_sv sat) = Inr (length (sat_values sat))" "list_all value_typed (sat_values sat)"
    "flags_typed (dc_version d) (sat_values sat) (sat_flags sat)" "sat_tidy (dc_version d) sat"
    using Cons.prems(1,2) by (simp_all add: sat_typed_def)
  have tidy: "dc_version d = V1 \<Longrightarrow> length (sat_flags sat) = 2 * length (sat_values sat)"
    using sat(4) by (simp add: sat_tidy_def)
  have new: "dc_flag_diff d (sat_sv sat) = None" using Cons.prems(4) by simp
  from sat_values_read_back [OF sat(2,3) tidy new]
  obtain od fd where fd: "\<forall>sv. sv \<noteq> sat_sv sat \<longrightarrow> fd sv = dc_flag_diff d sv"
    and head: "decode_sat_values d (sat_sv sat) (sat_line (dc_version d) sat) (length (sat_values sat)) =
      Inr (d\<lparr>dc_obs_diff := od, dc_flag_diff := fd\<rparr>, sat_values sat, sat_flags sat)"
    unfolding sat_line_def by blast
  let ?d = "d\<lparr>dc_obs_diff := od, dc_flag_diff := fd\<rparr>"
  have fresh: "\<forall>s\<in>set sats. fd (sat_sv s) = None"
  proof
    fix s assume s: "s \<in> set sats"
    with Cons.prems(3) have "sat_sv s \<noteq> sat_sv sat" by (metis distinct.simps(2) image_eqI list.simps(9) set_map)
    with fd s Cons.prems(4) show "fd (sat_sv s) = None" by simp
  qed
  have "\<exists>od' fd'. read_sats revision ?d (map sat_sv sats) (map (sat_line (dc_version ?d)) sats @ rest) =
      Inr (?d\<lparr>dc_obs_diff := od', dc_flag_diff := fd'\<rparr>, sats, rest)"
    using Cons.prems fresh by (intro Cons.IH) auto
  then obtain od' fd' where later: "read_sats revision ?d (map sat_sv sats) (map (sat_line (dc_version d)) sats @ rest) =
      Inr (d\<lparr>dc_obs_diff := od', dc_flag_diff := fd'\<rparr>, sats, rest)"
    by auto
  have "trim_eol (sat_line (dc_version d) sat) = sat_line (dc_version d) sat"
    using sat(3) encode_sat_line_clean by (simp add: sat_line_def flags_typed_def)
  moreover have "obs_count_for d (sat_sv sat) = Inr (length (sat_values sat))"
    using sat(1) obs_count_for_cong [OF Cons.prems(5)] by simp
  ultimately show ?case
    using head later by (intro exI [of _ od'] exI [of _ fd']) simp
qed

section \<open>Clock lines\<close>

text \<open>What the decoder holds of the picoseconds, as the encoder tracks it.\<close>

definition holds_picoseconds :: "decoder \<Rightarrow> bool \<Rightarrow> bool" where
  "holds_picoseconds d held \<longleftrightarrow>
     (held \<longrightarrow> dc_picoseconds d \<and> length (dc_picosecond_diff d) = 5 \<and> list_all byte_is_digit (dc_picosecond_diff d)) \<and>
     (\<not> held \<longrightarrow> list_all (\<lambda>b. b = blank) (dc_picosecond_diff d) \<and> length (dc_picosecond_diff d) \<le> 5)"

lemma clock_value_read_back:
  assumes "value_typed clock"
  shows "\<exists>cd. decode_clock_value d (obs_token clock) = Inr (d\<lparr>dc_clock_diff := cd\<rparr>, clock)"
proof (cases clock)
  case None
  then show ?thesis
    by (intro exI [of _ None]) (simp add: decode_clock_value_def obs_token_def byte_trim_def)
next
  case (Some v)
  have "\<not> byte_is_space (last (obs_token (Some v)))"
    by (rule token_plain [of _ "Some v"]) (simp add: token_Some show_int_nonempty)
  then have "byte_trim (obs_token (Some v)) = obs_token (Some v)"
    by (intro byte_trim_word) (simp add: token_Some byte_is_space_def)
  then have "str_trim (obs_token (Some v)) = obs_token (Some v)" "obs_token (Some v) \<noteq> []"
    using token_clean [of "Some v"] by (simp_all add: token_Some)
  moreover have "fits_i 64 v" using assms Some by (simp add: value_typed_def)
  ultimately show ?thesis
    using reset_token [of v] Some by (auto simp: decode_clock_value_def Let_def)
qed

lemma clock_split:
  "byte_split_once blank (obs_token clock) = None"
  "byte_split_once blank (obs_token clock @ blank # p) = Some (obs_token clock, p)"
proof -
  have plain: "\<forall>b\<in>set (obs_token clock). b \<noteq> blank" using token_plain(5) by blast
  then have t: "takeWhile (\<lambda>b. b \<noteq> blank) (obs_token clock) = obs_token clock"
    "takeWhile (\<lambda>b. b \<noteq> blank) (obs_token clock @ blank # p) = obs_token clock"
    by simp_all
  show "byte_split_once blank (obs_token clock) = None"
    "byte_split_once blank (obs_token clock @ blank # p) = Some (obs_token clock, p)"
    unfolding byte_split_once_def Let_def t by simp_all
qed

lemma overlay_digits:
  assumes "list_all byte_is_digit p" and "length buf \<le> length p"
  shows "text_decompress buf p = p"
  unfolding text_decompress_overlay using assms
proof (induction buf p rule: overlay.induct)
  case (2 d data)
  have "b \<noteq> ampersand" if "byte_is_digit b" for b using digit_clean [OF that] by (simp add: ampersand_def)
  then have "map unblank s = s" if "list_all byte_is_digit s" for s
    using that by (intro unblank_plain) (auto simp: list_all_iff)
  from this [OF 2(1)] show ?case by (simp del: list.map)
next
  case (3 b buf d data)
  then show ?case using digit_clean [of d] by (simp add: unblank_def blank_def ampersand_def)
qed simp

lemma overlay_blanked: "length buf \<le> n \<Longrightarrow> text_decompress buf (replicate n ampersand) = replicate n blank"
  unfolding text_decompress_overlay
proof (induction n arbitrary: buf)
  case (Suc n)
  then show ?case by (cases buf) (simp_all add: unblank_def blank_def ampersand_def)
qed simp

lemma held_digits:
  assumes "length p = 5" and "list_all byte_is_digit p"
  shows "\<not> list_all (\<lambda>b. b = blank) p" "clean_line p" "lossy p = p"
proof -
  show "\<not> list_all (\<lambda>b. b = blank) p" using assms digit_clean [of "hd p"] by (cases p) (auto simp: blank_def)
  show "clean_line p" using assms(2) digit_clean by (auto simp: clean_line_def list_all_iff)
  then show "lossy p = p" by simp
qed

lemma plain_bytes [simp]:
  "blank < 0x80" "blank \<noteq> 0x0A" "blank \<noteq> 0x0D" "ampersand < 0x80" "ampersand \<noteq> 0x0A" "ampersand \<noteq> 0x0D"
  by (simp_all add: blank_def ampersand_def)

lemma clock_line_read_back:
  assumes "value_typed clock" and "picoseconds_typed version p" and "p \<noteq> None \<longrightarrow> dc_picoseconds d"
    and "holds_picoseconds d held" and "encode_clock_line clock p held = (line, held')"
  shows "\<exists>cd pd. decode_clock_line d line = Inr (d\<lparr>dc_clock_diff := cd, dc_picosecond_diff := pd\<rparr>, clock, p) \<and>
    holds_picoseconds (d\<lparr>dc_clock_diff := cd, dc_picosecond_diff := pd\<rparr>) held' \<and> clean_line line"
proof -
  obtain cd where clock: "decode_clock_value d (obs_token clock) = Inr (d\<lparr>dc_clock_diff := cd\<rparr>, clock)"
    using clock_value_read_back [OF assms(1)] by blast
  have five: "length (dc_picosecond_diff d) \<le> 5"
    using assms(4) by (cases held) (simp_all add: holds_picoseconds_def)
  show ?thesis
  proof (cases p)
    case (Some q)
    then have q: "length q = 5" "list_all byte_is_digit q" and on: "dc_picoseconds d"
      and line: "line = obs_token clock @ blank # q" and held': "held'"
      using assms by (auto simp: picoseconds_typed_def encode_clock_line_def)
    have "text_decompress (dc_picosecond_diff d) q = q" using q five by (simp add: overlay_digits)
    then show ?thesis
      using clock q held_digits [OF q] on held'
      by (intro exI [of _ cd] exI [of _ q])
        (simp add: decode_clock_line_def line clock_split Some holds_picoseconds_def token_clean)
  next
    case None
    show ?thesis
    proof (cases held)
      case True
      have "blit '' &&&&&'' = blank # replicate 5 ampersand"
        by (simp add: blit_def blank_def ampersand_def numeral_eq_Suc)
      then have line: "line = obs_token clock @ blank # replicate 5 ampersand" and held': "\<not> held'"
        using assms(5) None True by (auto simp: encode_clock_line_def)
      have on: "dc_picoseconds d" using assms(4) True by (simp add: holds_picoseconds_def)
      show ?thesis
        using clock on held' overlay_blanked [OF five]
        by (intro exI [of _ cd] exI [of _ "replicate 5 blank"])
          (simp add: decode_clock_line_def line clock_split None holds_picoseconds_def token_clean list_all_iff)
    next
      case False
      then have line: "line = obs_token clock" and held': "\<not> held'"
        using assms(5) None by (auto simp: encode_clock_line_def)
      have "list_all (\<lambda>b. b = blank) (dc_picosecond_diff d)"
        using assms(4) False by (simp add: holds_picoseconds_def)
      then show ?thesis
        using clock held' five
        by (intro exI [of _ cd] exI [of _ "dc_picosecond_diff d"])
          (simp add: decode_clock_line_def line clock_split None holds_picoseconds_def token_clean)
    qed
  qed
qed

section \<open>Declared counts\<close>

definition put_widths :: "decoder \<Rightarrow> decoder \<Rightarrow> decoder" where
  "put_widths d w =
     d\<lparr>dc_obs_count := dc_obs_count w, dc_default_system := dc_default_system w, dc_types_left := dc_types_left w\<rparr>"

lemma widths_agree_put: "widths_agree d w \<longleftrightarrow> put_widths d w = d"
proof -
  have "put_widths d w = d \<Longrightarrow> widths_agree d w"
    unfolding put_widths_def widths_agree_def by (cases d) simp
  then show ?thesis by (auto simp: widths_agree_def put_widths_def)
qed

lemma put_widths_simps [simp]:
  "dc_obs_count (put_widths d w) = dc_obs_count w" "dc_default_system (put_widths d w) = dc_default_system w"
  "dc_types_left (put_widths d w) = dc_types_left w" "dc_version (put_widths d w) = dc_version d"
  "dc_picoseconds (put_widths d w) = dc_picoseconds d" "dc_picosecond_diff (put_widths d w) = dc_picosecond_diff d"
  "dc_previous_svs (put_widths d w) = dc_previous_svs d" "dc_epoch_diff (put_widths d w) = dc_epoch_diff d"
  "dc_clock_diff (put_widths d w) = dc_clock_diff d" "dc_obs_diff (put_widths d w) = dc_obs_diff d"
  "dc_flag_diff (put_widths d w) = dc_flag_diff d"
  "put_widths d (put_widths w v) = put_widths d v"
  "put_widths d w\<lparr>dc_obs_count := c\<rparr> = put_widths d (w\<lparr>dc_obs_count := c\<rparr>)"
  "put_widths d w\<lparr>dc_types_left := n\<rparr> = put_widths d (w\<lparr>dc_types_left := n\<rparr>)"
  "put_widths d w\<lparr>dc_default_system := c'\<rparr> = put_widths d (w\<lparr>dc_default_system := c'\<rparr>)"
  by (simp_all add: put_widths_def)

lemma type_list_put:
  "close_type_list (put_widths d w) before = close_type_list w before"
  "open_type_list (put_widths d w) line label n codes = map_sum id (put_widths d) (open_type_list w line label n codes)"
  "continue_type_list (put_widths d w) line label codes = map_sum id (put_widths d) (continue_type_list w line label codes)"
  by (simp_all add: close_type_list_def open_type_list_def continue_type_list_def)

lemma ebind_of_map: "ebind (map_sum id f m) k = ebind m (\<lambda>x. k (f x))"
  by (cases m) simp_all

lemma map_of_ebind: "map_sum id f (ebind m k) = ebind m (\<lambda>x. map_sum id f (k x))"
  by (cases m) simp_all

lemmas ebind_map_sum = ebind_of_map map_of_ebind

lemma shared_list_put: "shared_list (put_widths d w) line label = map_sum id (put_widths d) (shared_list w line label)"
  by (simp add: shared_list_def Let_def type_list_put ebind_map_sum cong: option.case_cong)

lemma system_list_put: "system_list (put_widths d w) line label = map_sum id (put_widths d) (system_list w line label)"
  by (simp add: system_list_def Let_def type_list_put ebind_map_sum split: option.split)

lemma classify_put:
  "classify_header_label (put_widths d w) line label = map_sum id (put_widths d) (classify_header_label w line label)"
proof -
  have "ebind (close_type_list (put_widths d w) ''END OF HEADER'') (\<lambda>_. Inr (put_widths d w)) =
      map_sum id (put_widths d) (ebind (close_type_list w ''END OF HEADER'') (\<lambda>_. Inr w))"
    by (simp add: type_list_put ebind_map_sum)
  then show ?thesis
    unfolding classify_header_label_def shared_list_put system_list_put by (simp split: option.split)
qed

lemma classify_each_put:
  "classify_each (put_widths d w) lines = map_sum id (put_widths d) (classify_each w lines)"
  by (induction lines arbitrary: w) (simp_all add: Let_def classify_put ebind_map_sum)

lemma classify_event_put:
  "classify_event_lines (put_widths d w) lines = map_sum id (put_widths d) (classify_event_lines w lines)"
  by (simp add: classify_event_lines_def classify_each_put ebind_map_sum type_list_put)

lemma copy_header_put:
  "copy_header (put_widths d w) lines =
     map_prod id (map_sum id (map_prod (put_widths d) id)) (copy_header w lines)"
proof (induction lines arbitrary: w)
  case (Cons raw lines)
  then show ?case
    by (auto simp: Let_def classify_put split: sum.splits prod.splits)
qed simp

lemma copy_header_append:
  assumes "copy_header w header = (emitted, Inr (w', []))"
  shows "copy_header w (header @ lines) = (emitted, Inr (w', lines))"
  using assms
proof (induction header arbitrary: w emitted)
  case (Cons raw header)
  then show ?case
    by (auto simp: Let_def split: sum.splits prod.splits if_splits)
qed simp

lemma copy_header_emits:
  "copy_header w header = (emitted, Inr (w', rest)) \<Longrightarrow> \<forall>l\<in>set header. clean_line l \<Longrightarrow> emitted @ rest = header"
proof (induction header arbitrary: w emitted)
  case (Cons raw header)
  then show ?case
    by (fastforce simp: Let_def split: sum.splits prod.splits if_splits)
qed simp

section \<open>Epochs\<close>

definition revision_of :: "crinex_version \<Rightarrow> string" where
  "revision_of version = (case version of V3 \<Rightarrow> ''V3'' | V1 \<Rightarrow> ''V1'')"

lemma next_epoch_reset:
  assumes "clean_line descriptor" and "marked version descriptor"
  shows "\<exists>first. encode_descriptor descriptor version = Some first \<and> clean_line first \<and>
    next_epoch version d (first # lines) =
      ebind (descriptor_count version descriptor) (\<lambda>numsat.
      ebind (descriptor_flag version descriptor) (\<lambda>flag.
      epoch_tail (revision_of version) (descriptor_svs version) (d\<lparr>dc_epoch_diff := descriptor\<rparr>) True
        descriptor numsat flag lines))"
proof -
  have reset: "epoch_text d True descriptor = d\<lparr>dc_epoch_diff := descriptor\<rparr>"
    by (simp add: epoch_text_def text_decompress_overlay)
  obtain c rest where descriptor: "descriptor = c # rest" using assms(2) by (cases descriptor) (auto simp: marked_def)
  have raw: "next_raw (first # lines) = Some (first, lines)" if "clean_line first" "first \<noteq> []" for first
    using that by simp
  show ?thesis
  proof (cases version)
    case V1
    then have c: "c = blank" using assms(2) by (simp add: marked_def descriptor)
    have "clean_line (ampersand # rest)" using assms(1) by (simp add: descriptor)
    with V1 c reset assms(1) show ?thesis
      unfolding next_epoch_def next_epoch_v1_def
      by (intro exI [of _ "ampersand # rest"], subst raw)
        (simp_all add: encode_descriptor_def descriptor descriptor_count_def descriptor_flag_def
          descriptor_svs_def revision_of_def Let_def)
  next
    case V3
    then have c: "c = 0x3E" using assms(2) by (simp add: marked_def descriptor)
    with V3 reset assms(1) show ?thesis
      unfolding next_epoch_def next_epoch_v3_def
      by (intro exI [of _ descriptor], subst raw)
        (simp_all add: encode_descriptor_def descriptor descriptor_count_def descriptor_flag_def
          descriptor_svs_def revision_of_def Let_def)
  qed
qed

lemma event_lines_read_back:
  "list_all clean_line taken \<Longrightarrow> take_event_lines revision (length taken) (taken @ rest) = Inr (taken, rest)"
  by (induction taken) simp_all

text \<open>What an epoch leaves: the declared counts and the picoseconds, and nothing else the next one reads.\<close>

definition in_step :: "crinex_version \<Rightarrow> bool \<Rightarrow> decoder \<Rightarrow> bool \<Rightarrow> decoder \<Rightarrow> bool" where
  "in_step version picoseconds w held d \<longleftrightarrow>
     dc_version d = version \<and> dc_picoseconds d = picoseconds \<and> widths_agree d w \<and> holds_picoseconds d held"

lemma event_read_back:
  assumes "in_step version picoseconds w held d" and "epoch_typed version w (EventRecord descriptor elines)"
    and "marked version descriptor"
  shows "\<exists>lines d'. encode_epoch version held (EventRecord descriptor elines) = Some (lines, held) \<and>
    list_all clean_line lines \<and>
    next_epoch version d (lines @ rest) = Inr (d', rest, Some (EventRecord descriptor elines)) \<and>
    in_step version picoseconds (after_epoch w (EventRecord descriptor elines)) held d'"
proof -
  let ?flag = "flag_of version descriptor"
  have typed: "clean_line descriptor" "list_all clean_line elines"
    "descriptor_count version descriptor = Inr (length elines)"
    "descriptor_flag version descriptor = Inr ?flag" "1 < ?flag"
    using assms(2) by (simp_all add: epoch_typed_def)
  obtain w' where w': "classify_event_lines w elines = Inr w'"
    using assms(2) by (cases "classify_event_lines w elines") (simp_all add: epoch_typed_def)
  from next_epoch_reset [OF typed(1) assms(3), of d "elines @ rest"]
  obtain first where first: "encode_descriptor descriptor version = Some first" "clean_line first"
    and step: "next_epoch version d (first # elines @ rest) =
      epoch_tail (revision_of version) (descriptor_svs version) (d\<lparr>dc_epoch_diff := descriptor\<rparr>) True
        descriptor (length elines) ?flag (elines @ rest)"
    by (auto simp: typed)
  let ?d = "d\<lparr>dc_epoch_diff := descriptor\<rparr>"
  have "widths_agree ?d w" using assms(1) by (simp add: in_step_def widths_agree_def)
  then have "classify_event_lines ?d elines = Inr (put_widths ?d w')"
    using classify_event_put [of ?d w elines] w' by (simp add: widths_agree_put)
  then have "next_epoch version d (first # elines @ rest) =
      Inr (put_widths ?d w'\<lparr>dc_previous_svs := []\<rparr>, rest, Some (EventRecord descriptor elines))"
    using typed(2,5) by (simp add: step epoch_tail_def event_lines_read_back)
  moreover have "in_step version picoseconds (after_epoch w (EventRecord descriptor elines)) held
      (put_widths ?d w'\<lparr>dc_previous_svs := []\<rparr>)"
    using assms(1) by (auto simp: in_step_def after_epoch_def w' widths_agree_def holds_picoseconds_def)
  ultimately show ?thesis
    using first typed(2) by (intro exI [of _ "first # elines"] exI) (auto simp: encode_epoch_def)
qed

lemma observations_read_back:
  assumes "in_step version picoseconds w held d" and "epoch_typed version w (ObsRecord r)"
    and "epoch_tidy version (ObsRecord r)" and "oe_picoseconds r \<noteq> None \<longrightarrow> picoseconds"
  shows "\<exists>lines held' d'. encode_epoch version held (ObsRecord r) = Some (lines, held') \<and>
    list_all clean_line lines \<and>
    next_epoch version d (lines @ rest) = Inr (d', rest, Some (ObsRecord r)) \<and>
    in_step version picoseconds w held' d'"
proof -
  let ?descriptor = "oe_descriptor r" and ?sats = "oe_sats r"
  have typed: "clean_line ?descriptor" "descriptor_count version ?descriptor = Inr (length ?sats)"
    "descriptor_flag version ?descriptor = Inr (flag_of version ?descriptor)" "flag_of version ?descriptor \<le> 1"
    "descriptor_svs version ?descriptor (length ?sats) = Inr (map sat_sv ?sats)"
    "value_typed (oe_clock r)" "picoseconds_typed version (oe_picoseconds r)" "list_all (sat_typed version w) ?sats"
    using assms(2) by (simp_all add: epoch_typed_def)
  have tidy: "marked version ?descriptor" "distinct (map sat_sv ?sats)" "list_all (sat_tidy version) ?sats"
    using assms(3) by (auto simp: epoch_tidy_def sat_tidy_def list_all_iff)
  have d: "dc_version d = version" "dc_picoseconds d = picoseconds" "widths_agree d w" "holds_picoseconds d held"
    using assms(1) by (simp_all add: in_step_def)
  obtain line held' where line: "encode_clock_line (oe_clock r) (oe_picoseconds r) held = (line, held')"
    by (cases "encode_clock_line (oe_clock r) (oe_picoseconds r) held")
  let ?sat_lines = "map (sat_line version) ?sats" and ?d = "d\<lparr>dc_epoch_diff := ?descriptor\<rparr>"
  have held: "holds_picoseconds ?d held" and "oe_picoseconds r \<noteq> None \<longrightarrow> dc_picoseconds ?d"
    using d assms(4) by (simp_all add: holds_picoseconds_def)
  from clock_line_read_back [OF typed(6,7) this(2) this(1) line]
  obtain cd pd where clock: "decode_clock_line ?d line =
        Inr (?d\<lparr>dc_clock_diff := cd, dc_picosecond_diff := pd\<rparr>, oe_clock r, oe_picoseconds r)"
    and held': "holds_picoseconds (?d\<lparr>dc_clock_diff := cd, dc_picosecond_diff := pd\<rparr>) held'"
    and clean: "clean_line line"
    by blast
  let ?e = "carry_satellite_state (?d\<lparr>dc_clock_diff := cd, dc_picosecond_diff := pd, dc_previous_svs := []\<rparr>)
      (map sat_sv ?sats)"
  have e: "dc_version ?e = version" "dc_obs_count ?e = dc_obs_count w" "\<forall>sat\<in>set ?sats. dc_flag_diff ?e (sat_sv sat) = None"
    using d by (simp_all add: carry_satellite_state_def Let_def widths_agree_def)
  from sats_read_back [of ?e w ?sats "revision_of version" rest]
  obtain od fd where sats: "read_sats (revision_of version) ?e (map sat_sv ?sats) (?sat_lines @ rest) =
      Inr (?e\<lparr>dc_obs_diff := od, dc_flag_diff := fd\<rparr>, ?sats, rest)"
    using e typed(8) tidy by auto
  from next_epoch_reset [OF typed(1) tidy(1), of d "line # ?sat_lines @ rest"]
  obtain first where first: "encode_descriptor ?descriptor version = Some first" "clean_line first"
    and step: "next_epoch version d (first # line # ?sat_lines @ rest) =
      epoch_tail (revision_of version) (descriptor_svs version) ?d True ?descriptor (length ?sats)
        (flag_of version ?descriptor) (line # ?sat_lines @ rest)"
    by (auto simp: typed)
  have "next_epoch version d (first # line # ?sat_lines @ rest) =
      Inr (?e\<lparr>dc_obs_diff := od, dc_flag_diff := fd\<rparr>, rest, Some (ObsRecord r))"
    using typed(4) clean clock sats by (simp add: step epoch_tail_def typed(5))
  moreover have "in_step version picoseconds w held' (?e\<lparr>dc_obs_diff := od, dc_flag_diff := fd\<rparr>)"
    using d held' by (simp add: in_step_def carry_satellite_state_def Let_def widths_agree_def holds_picoseconds_def)
  moreover have "list_all clean_line ?sat_lines"
    using typed(8) encode_sat_line_clean by (auto simp: list_all_iff sat_line_def sat_typed_def flags_typed_def)
  ultimately show ?thesis
    using first clean
    by (intro exI [of _ "first # line # ?sat_lines"] exI [of _ held'] exI)
      (auto simp: encode_epoch_def line sat_line_def [abs_def])
qed

lemma epoch_read_back:
  assumes "in_step version picoseconds w held d" and "epoch_typed version w item" and "epoch_tidy version item"
    and "has_picoseconds item \<longrightarrow> picoseconds"
  shows "\<exists>lines held' d'. encode_epoch version held item = Some (lines, held') \<and>
    list_all clean_line lines \<and>
    next_epoch version d (lines @ rest) = Inr (d', rest, Some item) \<and>
    in_step version picoseconds (after_epoch w item) held' d'"
proof (cases item)
  case (ObsRecord r)
  then have p: "oe_picoseconds r \<noteq> None \<longrightarrow> picoseconds" using assms(4) by (simp add: has_picoseconds_def)
  have "after_epoch w (ObsRecord r) = w" by (simp add: after_epoch_def)
  then show ?thesis
    using observations_read_back [OF assms(1) _ _ p] assms(2,3) unfolding ObsRecord by simp
next
  case (EventRecord descriptor elines)
  then have "marked version descriptor" using assms(3) by (simp add: epoch_tidy_def)
  then show ?thesis using event_read_back [OF assms(1)] assms(2) unfolding EventRecord by blast
qed

section \<open>Whole streams\<close>

lemma epochs_read_back:
  assumes "in_step version picoseconds w held d" and "epochs_typed version w items"
    and "list_all (epoch_tidy version) items" and "list_ex has_picoseconds items \<longrightarrow> picoseconds"
  shows "\<exists>lines. encode_epochs version held items = Some lines \<and> list_all clean_line lines \<and>
    read_epochs version d lines = Inr items"
  using assms
proof (induction items arbitrary: w held d)
  case Nil
  have "next_epoch version d [] = Inr (d, [], None)"
    by (cases version) (simp_all add: next_epoch_def next_epoch_v3_def next_epoch_v1_def)
  then show ?case by (subst read_epochs.simps) (simp only: encode_epochs.simps, simp)
next
  case (Cons item items)
  have p: "has_picoseconds item \<longrightarrow> picoseconds" "list_ex has_picoseconds items \<longrightarrow> picoseconds"
    using Cons.prems(4) by auto
  have now: "epoch_typed version w item" "epoch_tidy version item" "has_picoseconds item \<longrightarrow> picoseconds"
    and later: "epochs_typed version (after_epoch w item) items" "list_all (epoch_tidy version) items"
      "list_ex has_picoseconds items \<longrightarrow> picoseconds"
    using Cons.prems(2,3) p by simp_all
  obtain lines held' d' where step: "encode_epoch version held item = Some (lines, held')"
      "list_all clean_line lines" "in_step version picoseconds (after_epoch w item) held' d'"
    using epoch_read_back [OF Cons.prems(1) now, of "[]"] by blast
  from Cons.IH [OF step(3) later] obtain more_lines where
    "encode_epochs version held' items = Some more_lines" "list_all clean_line more_lines"
    by blast
  moreover obtain d'' where d'': "next_epoch version d (lines @ more_lines) = Inr (d'', more_lines, Some item)"
      "in_step version picoseconds (after_epoch w item) held' d''"
    using epoch_read_back [OF Cons.prems(1) now, of more_lines] step(1) by auto
  moreover have "read_epochs version d'' more_lines = Inr items"
    using Cons.IH [OF d''(2) later] calculation(1) by auto
  ultimately show ?case
    using step by (simp add: read_epochs.simps [of version d "lines @ more_lines"])
qed

lemma epochs_typed_picoseconds:
  "epochs_typed version w items \<Longrightarrow> list_ex has_picoseconds items \<Longrightarrow> version = V3"
  by (induction items arbitrary: w)
    (auto simp: epoch_typed_def has_picoseconds_def picoseconds_typed_def split: epoch_record.splits option.splits)

lemma labeled_ascii: "ascii body \<Longrightarrow> labeled_crinex body label = body @ replicate (60 - length body) blank @ label"
  by (simp add: labeled_crinex_def left_aligned_def)

lemma version_line_label: "ascii (version_label version p)" "clean_line (version_label version p)"
  "length (version_label version p) = 3"
  by (cases version; simp add: version_label_def blit_def)+

lemma byte_trim_padded:
  assumes "s \<noteq> []" and "\<not> byte_is_space (hd s)" and "\<not> byte_is_space (last s)"
  shows "byte_trim (s @ replicate n blank) = s"
proof -
  have "dropWhile byte_is_space (replicate n blank @ rev s) = rev s"
    using assms by (induction n) (simp_all add: byte_is_space_def blank_def dropWhile_eq_self_iff hd_rev)
  moreover have "dropWhile byte_is_space (s @ replicate n blank) = s @ replicate n blank"
    using assms by (simp add: dropWhile_eq_self_iff)
  ultimately show ?thesis by (simp add: byte_trim_def)
qed

lemma version_line_read:
  assumes "line = labeled_crinex (version_label version p) (blit ''CRINEX VERS   / TYPE'')"
  shows "str_trim (raw_field line 0 20) = version_label version p"
    "sublist (blit ''CRINEX VERS'') line" "clean_line line"
proof -
  have label: "ascii (blit ''CRINEX VERS   / TYPE'')" "clean_line (blit ''CRINEX VERS   / TYPE'')"
    by (simp_all add: blit_def)
  have line: "line = version_label version p @ replicate 57 blank @ blit ''CRINEX VERS   / TYPE''"
    using assms by (simp add: labeled_ascii version_line_label)
  show "clean_line line" using label by (simp add: line version_line_label)
  then have "raw_field line 0 20 = version_label version p @ replicate 17 blank"
    by (simp add: line version_line_label)
  moreover have "version_label version p \<noteq> []" "\<not> byte_is_space (hd (version_label version p))"
    "\<not> byte_is_space (last (version_label version p))"
    by (cases version; simp add: version_label_def blit_def byte_is_space_def)+
  ultimately show "str_trim (raw_field line 0 20) = version_label version p"
    by (simp add: version_line_label byte_trim_padded)
  have "blit ''CRINEX VERS   / TYPE'' = blit ''CRINEX VERS'' @ blit ''   / TYPE''"
    by (simp add: blit_def)
  then have "line = (version_label version p @ replicate 57 blank) @ blit ''CRINEX VERS'' @ blit ''   / TYPE''"
    using line by simp
  then show "sublist (blit ''CRINEX VERS'') line" by (simp only: sublist_appendI)
qed

lemma stream_version_label:
  "stream_version (version_label version p) = Inr version"
  "version = V3 \<and> minor_above_zero (version_label version p) \<longleftrightarrow> version = V3 \<and> p"
  by (cases version; cases p; simp add: stream_version_def minor_above_zero_def version_label_def blit_def
      byte_is_digit_def)+

lemma stream_read_back:
  assumes typed: "stream_typed s" and tidy: "stream_tidy s"
  shows "\<exists>lines. encode_stream s = Some (text_of lines) \<and> list_all clean_line lines \<and>
    parse_stream (text_of lines) = Inr s"
proof -
  let ?version = "os_version s" and ?p = "carries_picoseconds s"
  let ?on = "?version = V3 \<and> ?p"
  obtain w where w: "header_widths (os_header s) = Some w" and epochs: "epochs_typed ?version w (os_epochs s)"
    and clean: "list_all clean_line (os_header s)"
    using typed by (auto simp: stream_typed_def split: option.splits)
  have header: "copy_header new_decoder (os_header s) = (os_header s, Inr (w, []))"
    using w copy_header_emits [of new_decoder "os_header s"] clean
    by (fastforce simp: header_widths_def list_all_iff split: prod.splits sum.splits if_splits)
  let ?d = "new_decoder\<lparr>dc_version := ?version, dc_picoseconds := ?on\<rparr>"
  have "copy_header (put_widths ?d new_decoder) (os_header s) = (os_header s, Inr (put_widths ?d w, []))"
    by (simp add: copy_header_put header)
  moreover have "put_widths ?d new_decoder = ?d" by (simp add: put_widths_def new_decoder_def)
  ultimately have copied: "copy_header ?d (os_header s @ lines) = (os_header s, Inr (put_widths ?d w, lines))" for lines
    using copy_header_append by metis
  have "in_step ?version ?on w False (put_widths ?d w)"
    by (simp add: in_step_def widths_agree_def holds_picoseconds_def new_decoder_def)
  moreover have "list_ex has_picoseconds (os_epochs s) \<longrightarrow> ?on"
    using epochs by (auto simp: carries_picoseconds_def dest: epochs_typed_picoseconds)
  ultimately obtain lines where lines: "encode_epochs ?version False (os_epochs s) = Some lines"
      "list_all clean_line lines" "read_epochs ?version (put_widths ?d w) lines = Inr (os_epochs s)"
    using epochs_read_back epochs tidy unfolding stream_tidy_def by blast
  define first where "first = labeled_crinex (version_label ?version ?p) (blit ''CRINEX VERS   / TYPE'')"
  define second where "second = labeled_crinex (blit ''sidereon'') (blit ''CRINEX PROG   / DATE'')"
  have "clean_line second" by (simp add: second_def labeled_ascii blit_def)
  then have "text_lines (text_of (first # second # os_header s @ lines)) = first # second # os_header s @ lines"
    using clean lines(2) version_line_read(3) [OF first_def] by (intro text_lines_text_of) (auto simp: list_all_iff)
  then have "parse_stream (text_of (first # second # os_header s @ lines)) = Inr s"
    using copied lines(3)
    by (simp add: parse_stream_def read_crinex_header_def version_line_read [OF first_def] stream_version_label Let_def
        del: ascii_trim ascii_raw_field)
  moreover have "list_all clean_line (first # second # os_header s @ lines)"
    using clean lines(2) version_line_read(3) [OF first_def] \<open>clean_line second\<close> by simp
  moreover have "encode_stream s = Some (text_of (first # second # os_header s @ lines))"
    using lines(1) by (simp add: encode_stream_def first_def second_def)
  ultimately show ?thesis by blast
qed

end
