(* ===== verification/Crinex_Types.thy ===== *)
theory Crinex_Types
  imports Crinex_Roundtrip
begin

text \<open>
  Every stream the CRINEX reader accepts from ASCII text is well typed: an invariant of the decoder
  that every operation keeps, and the typing of what each returns.
\<close>

section \<open>The decoder's invariant\<close>

definition slot_typed :: "num_diff option \<Rightarrow> bool" where
  "slot_typed slot = (case slot of None \<Rightarrow> True | Some e \<Rightarrow> num_typed e)"

definition flags_clean :: "u8 list \<Rightarrow> bool" where
  "flags_clean buf \<longleftrightarrow> clean_line buf \<and> ampersand \<notin> set buf"

definition decoder_typed :: "decoder \<Rightarrow> bool" where
  "decoder_typed d \<longleftrightarrow>
     clean_line (dc_epoch_diff d) \<and> slot_typed (dc_clock_diff d) \<and>
     (\<forall>sv engines. dc_obs_diff d sv = Some engines \<longrightarrow> list_all slot_typed engines) \<and>
     (\<forall>sv buf. dc_flag_diff d sv = Some buf \<longrightarrow> flags_clean buf) \<and>
     (dc_picoseconds d \<longrightarrow> dc_version d = V3)"

lemma decoder_typed_D:
  "decoder_typed d \<Longrightarrow> dc_obs_diff d sv = Some engines \<Longrightarrow> list_all slot_typed engines"
  "decoder_typed d \<Longrightarrow> dc_flag_diff d sv = Some buf \<Longrightarrow> flags_clean buf"
  "decoder_typed d \<Longrightarrow> slot_typed (dc_clock_diff d)"
  by (auto simp: decoder_typed_def)

lemma new_decoder_typed: "decoder_typed new_decoder"
  by (simp add: decoder_typed_def new_decoder_def slot_typed_def)

lemma decoder_typed_updates:
  "decoder_typed d \<Longrightarrow> list_all slot_typed engines \<Longrightarrow> decoder_typed (d\<lparr>dc_obs_diff := (dc_obs_diff d)(sv \<mapsto> engines)\<rparr>)"
  "decoder_typed d \<Longrightarrow> flags_clean buf \<Longrightarrow> decoder_typed (d\<lparr>dc_flag_diff := (dc_flag_diff d)(sv \<mapsto> buf)\<rparr>)"
  "decoder_typed d \<Longrightarrow> slot_typed slot \<Longrightarrow> decoder_typed (d\<lparr>dc_clock_diff := slot\<rparr>)"
  "decoder_typed d \<Longrightarrow> clean_line line \<Longrightarrow> decoder_typed (d\<lparr>dc_epoch_diff := line\<rparr>)"
  "decoder_typed d \<Longrightarrow> decoder_typed (d\<lparr>dc_picosecond_diff := p\<rparr>)"
  "decoder_typed d \<Longrightarrow> decoder_typed (d\<lparr>dc_previous_svs := svs\<rparr>)"
  "decoder_typed d \<Longrightarrow> decoder_typed (put_widths d w)"
  by (auto simp: decoder_typed_def)

lemma carry_typed: "decoder_typed d \<Longrightarrow> decoder_typed (carry_satellite_state d svs)"
  by (auto simp: decoder_typed_def carry_satellite_state_def Let_def split: if_splits)

text \<open>What a reader of one epoch leaves alone.\<close>

definition same_setting :: "decoder \<Rightarrow> decoder \<Rightarrow> bool" where
  "same_setting d d' \<longleftrightarrow>
     dc_version d' = dc_version d \<and> dc_picoseconds d' = dc_picoseconds d \<and> widths_agree d' d"

lemma same_setting_updates [simp]:
  "same_setting d d" "same_setting d (d\<lparr>dc_obs_diff := od\<rparr>)" "same_setting d (d\<lparr>dc_flag_diff := fd\<rparr>)"
  "same_setting d (d\<lparr>dc_clock_diff := cd\<rparr>)" "same_setting d (d\<lparr>dc_picosecond_diff := pd\<rparr>)"
  "same_setting d (d\<lparr>dc_epoch_diff := ed\<rparr>)" "same_setting d (d\<lparr>dc_previous_svs := ps\<rparr>)"
  "same_setting d (carry_satellite_state d svs)"
  by (simp_all add: same_setting_def widths_agree_def carry_satellite_state_def Let_def)

lemma same_setting_trans: "same_setting a b \<Longrightarrow> same_setting b c \<Longrightarrow> same_setting a c"
  by (simp add: same_setting_def widths_agree_def)

lemma same_setting_count: "same_setting d d' \<Longrightarrow> obs_count_for d' sv = obs_count_for d sv"
  by (rule obs_count_for_cong) (simp add: same_setting_def widths_agree_def)

section \<open>Tokens\<close>

lemma parse_i64_fits: "parse_i64 s = Some v \<Longrightarrow> fits_i 64 v"
  by (auto simp: parse_i64_def Let_def split: if_splits)

lemma parse_reset_typed: "parse_reset token = Inr (Some (order, v)) \<Longrightarrow> 1 \<le> order \<and> order \<le> MAX_ORDER \<and> fits_i 64 v"
  by (auto simp: parse_reset_def Let_def parse_i64_fits split: option.splits if_splits)

lemma arc_init_typed: "slot_typed slot \<Longrightarrow> fits_i 64 v \<Longrightarrow> 1 \<le> order \<Longrightarrow> order \<le> MAX_ORDER \<Longrightarrow> num_typed (arc_init slot v order)"
  by (cases slot) (simp_all add: arc_init_def slot_typed_def num_new_typed num_force_init_typed)

lemma list_all_nth_update: "list_all P xs \<Longrightarrow> P x \<Longrightarrow> list_all P (xs[i := x])"
  by (simp add: list_all_iff set_update_subsetI subset_eq) (metis insertE set_update_subset_insert subsetD)

lemma apply_obs_token_typed:
  assumes "apply_obs_token d sv k token = Inr (d', v)" and "decoder_typed d"
  shows "decoder_typed d' \<and> fits_i 64 v \<and> (\<exists>od. d' = d\<lparr>dc_obs_diff := od\<rparr>)"
proof -
  from assms(1) obtain engines where engines: "dc_obs_diff d sv = Some engines" and k: "k < length engines"
    by (auto simp: apply_obs_token_def split: option.splits if_splits)
  have typed: "list_all slot_typed engines" using decoder_typed_D(1) [OF assms(2) engines] .
  then have slot: "slot_typed (engines ! k)" using k by (simp add: list_all_length)
  have "\<exists>e. num_typed e \<and> fits_i 64 v \<and> d' = d\<lparr>dc_obs_diff := (dc_obs_diff d)(sv \<mapsto> engines[k := Some e])\<rparr>"
  proof (cases "parse_reset token")
    case (Inr reset)
    show ?thesis
    proof (cases reset)
      case (Some pair)
      obtain order w where pair: "pair = (order, w)" by (cases pair)
      have "1 \<le> order" "order \<le> MAX_ORDER" "fits_i 64 w"
        using parse_reset_typed [of token order w] Inr Some pair by simp_all
      then show ?thesis
        using assms(1) engines k Inr Some pair arc_init_typed [OF slot]
        by (auto simp: apply_obs_token_def Let_def)
    next
      case None
      obtain delta e where delta: "parse_i64 (str_trim token) = Some delta" and e: "engines ! k = Some e"
        using assms(1) engines k Inr None
        by (auto simp: apply_obs_token_def Let_def split: option.splits)
      then obtain e' w where step: "num_decompress e delta = Some (e', w)"
        using assms(1) engines k Inr None
        by (auto simp: apply_obs_token_def Let_def split: option.splits)
      have "num_typed e" using slot e by (simp add: slot_typed_def)
      then have "num_typed e'" "fits_i 64 w"
        using num_decompress_typed [OF _ parse_i64_fits [OF delta] step] by simp_all
      then show ?thesis
        using assms(1) engines k Inr None delta e step
        by (auto simp: apply_obs_token_def Let_def)
    qed
  qed (use assms(1) engines k in \<open>simp add: apply_obs_token_def Let_def\<close>)
  then show ?thesis
    using decoder_typed_updates(1) [OF assms(2)] list_all_nth_update [OF typed]
    by (auto simp: slot_typed_def)
qed

lemma read_obs_tokens_typed:
  assumes "read_obs_tokens d sv ks line = Inr (d', vals, rest)" and "decoder_typed d"
  shows "decoder_typed d' \<and> list_all value_typed vals \<and> length vals = length ks \<and> set rest \<subseteq> set line \<and>
    (\<exists>od. d' = d\<lparr>dc_obs_diff := od\<rparr>)"
  using assms
proof (induction ks arbitrary: d line vals)
  case Nil
  then show ?case by (auto intro!: exI [of _ "dc_obs_diff d"])
next
  case (Cons k ks)
  let ?rest = "if k > 0 \<and> line \<noteq> [] \<and> hd line = blank then tl line else line"
  have sub: "set ?rest \<subseteq> set line" by (cases line) auto
  show ?case
  proof (cases "?rest = [] \<or> hd ?rest = blank")
    case True
    then obtain vs where "read_obs_tokens d sv ks ?rest = Inr (d', vs, rest)" "vals = None # vs"
      using Cons.prems(1) by (auto simp: Let_def)
    then show ?thesis using Cons.IH [of d ?rest vs] Cons.prems(2) sub by (auto simp: value_typed_def)
  next
    case False
    then obtain d1 v vs where first: "apply_obs_token d sv k (takeWhile (\<lambda>b. b \<noteq> blank) ?rest) = Inr (d1, v)"
      and later: "read_obs_tokens d1 sv ks (dropWhile (\<lambda>b. b \<noteq> blank) ?rest) = Inr (d', vs, rest)"
      and vals: "vals = Some v # vs"
      using Cons.prems(1) by (auto simp: Let_def)
    obtain od where d1: "decoder_typed d1" "fits_i 64 v" "d1 = d\<lparr>dc_obs_diff := od\<rparr>"
      using apply_obs_token_typed [OF first Cons.prems(2)] by blast
    have "set (dropWhile (\<lambda>b. b \<noteq> blank) ?rest) \<subseteq> set ?rest" by (auto dest: set_dropWhileD)
    then show ?thesis
      using Cons.IH [OF later d1(1)] d1(2,3) sub vals by (auto simp: value_typed_def)
  qed
qed

section \<open>Satellite lines\<close>

lemma blank_flags_blanked: "2 * length vals \<le> length buf \<Longrightarrow> flags_blanked vals (blank_flags vals buf)"
proof (induction vals arbitrary: buf)
  case (Cons ob vals)
  then obtain lli ssi rest where "buf = lli # ssi # rest" by (cases buf rule: remdups_adj.cases) simp_all
  with Cons show ?case by (cases ob) simp_all
qed simp

lemma blank_flags_bytes: "set (blank_flags vals buf) \<subseteq> set buf \<union> {blank}"
  by (induction vals buf rule: blank_flags.induct) auto

lemma blank_not_ampersand [simp]: "blank \<noteq> ampersand" "ampersand \<noteq> blank"
  by (simp_all add: blank_def ampersand_def)

lemma flags_clean_subset: "flags_clean buf \<Longrightarrow> set s \<subseteq> set buf \<union> {blank} \<Longrightarrow> flags_clean s"
  by (auto simp: flags_clean_def clean_line_def list_all_iff)

lemma flags_clean_overlay:
  assumes "flags_clean buf" and "clean_line data"
  shows "flags_clean (text_decompress buf data)"
proof -
  have "clean_line (overlay buf data)"
    using assms overlay_bytes [of buf data] by (auto simp: flags_clean_def clean_line_def list_all_iff)
  then show ?thesis
    using assms(1) overlay_no_ampersand [of buf data] by (simp add: flags_clean_def text_decompress_overlay)
qed

lemma flags_of_typed:
  assumes "\<forall>buf. carried = Some buf \<longrightarrow> flags_clean buf" and "clean_line data" and "length vals * 2 = width"
  shows "flags_clean (flags_of version width carried data vals)"
    "flags_typed version vals (flags_of version width carried data vals)"
proof -
  define base where "base = (case carried of Some b \<Rightarrow> take width b | None \<Rightarrow> [])"
  have "flags_clean base"
  proof (cases carried)
    case (Some b)
    then have "flags_clean b" using assms(1) by simp
    moreover have "set base \<subseteq> set b" by (simp add: base_def Some set_take_subset)
    ultimately show ?thesis by (auto intro: flags_clean_subset)
  qed (simp add: base_def flags_clean_def)
  then have over: "flags_clean (text_decompress base data)" using assms(2) by (rule flags_clean_overlay)
  let ?padded = "text_decompress base data @ replicate (width - length (text_decompress base data)) blank"
  have flags: "flags_of version width carried data vals =
      (if version = V1 then blank_flags vals ?padded else text_decompress base data)"
    by (simp add: flags_of_def base_def Let_def)
  have "set (blank_flags vals ?padded) \<subseteq> set (text_decompress base data) \<union> {blank}"
    using blank_flags_bytes [of vals ?padded] by auto
  then have "flags_clean (blank_flags vals ?padded)" by (rule flags_clean_subset [OF over])
  then show clean: "flags_clean (flags_of version width carried data vals)"
    using over by (simp add: flags)
  have "flags_blanked vals (blank_flags vals ?padded)"
    using assms(3) by (intro blank_flags_blanked) simp
  then show "flags_typed version vals (flags_of version width carried data vals)"
    using clean by (simp add: flags_typed_def flags_clean_def flags)
qed

lemma enter_engines_typed: "decoder_typed d \<Longrightarrow> decoder_typed (enter_engines d sv n)"
  unfolding enter_engines_def Let_def
  by (rule decoder_typed_updates(1))
    (auto simp: slot_typed_def list_all_iff split: option.splits dest: decoder_typed_D(1))

lemma blank_slots_typed: "list_all slot_typed slots \<Longrightarrow> list_all slot_typed (blank_slots slots vals)"
  by (induction slots vals rule: blank_slots.induct) (auto simp: slot_typed_def)

lemma end_blank_arcs_typed: "decoder_typed d \<Longrightarrow> decoder_typed (end_blank_arcs d sv vals)"
  by (auto simp: end_blank_arcs_def blank_slots_typed intro!: decoder_typed_updates dest: decoder_typed_D(1)
      split: option.split)

lemma end_blank_arcs_same: "\<exists>od. end_blank_arcs d sv vals = d\<lparr>dc_obs_diff := od\<rparr>"
proof (cases "dc_obs_diff d sv")
  case None
  then show ?thesis by (intro exI [of _ "dc_obs_diff d"]) (simp add: end_blank_arcs_def)
qed (auto simp: end_blank_arcs_def)

lemma decode_sat_values_typed:
  assumes "decode_sat_values d sv line n = Inr (d', vals, flags)" and "decoder_typed d" and "clean_line line"
  shows "decoder_typed d' \<and> same_setting d d' \<and> length vals = n \<and> list_all value_typed vals \<and>
    flags_typed (dc_version d) vals flags"
proof -
  from assms(1) obtain d1 rest where tokens:
      "read_obs_tokens (enter_engines d sv n) sv [0..<n] line = Inr (d1, vals, rest)"
    by (auto simp: decode_sat_values_def Let_def)
  obtain od where d1: "decoder_typed d1" "list_all value_typed vals" "length vals = n" "set rest \<subseteq> set line"
      "d1 = (enter_engines d sv n)\<lparr>dc_obs_diff := od\<rparr>"
    using read_obs_tokens_typed [OF tokens enter_engines_typed [OF assms(2)]] by auto
  obtain od' where ended: "end_blank_arcs d1 sv vals = d\<lparr>dc_obs_diff := od'\<rparr>"
    using end_blank_arcs_same [of d1 sv vals] by (auto simp: d1(5) enter_engines_def Let_def)
  have typed: "decoder_typed (d\<lparr>dc_obs_diff := od'\<rparr>)" using end_blank_arcs_typed [OF d1(1)] by (simp flip: ended)
  define buf where "buf = flags_of (dc_version d) (n * 2) (dc_flag_diff d sv) (flag_text rest) vals"
  have result: "d' = d\<lparr>dc_obs_diff := od', dc_flag_diff := (dc_flag_diff d)(sv \<mapsto> buf)\<rparr>" "flags = lossy buf"
    using assms(1) tokens ended by (auto simp: decode_sat_values_def Let_def buf_def)
  have "clean_line (flag_text rest)"
    using d1(4) by (intro clean_subset [OF assms(3)]) (cases rest; auto simp: flag_text_def)
  moreover have "\<forall>b. dc_flag_diff d sv = Some b \<longrightarrow> flags_clean b" using decoder_typed_D(2) [OF assms(2)] by blast
  ultimately have buf: "flags_clean buf" "flags_typed (dc_version d) vals buf"
    using flags_of_typed [of "dc_flag_diff d sv" "flag_text rest" vals "n * 2" "dc_version d"] d1(3) by (simp_all add: buf_def)
  have "decoder_typed d'"
    using decoder_typed_updates(2) [OF typed buf(1), of sv] by (simp add: result)
  moreover have "same_setting d d'" by (simp add: result same_setting_def widths_agree_def)
  moreover have "lossy buf = buf" using buf(1) by (simp add: flags_clean_def)
  ultimately show ?thesis using d1(2,3) buf(2) result(2) by simp
qed

lemma read_sats_typed:
  assumes "read_sats revision d svs lines = Inr (d', sats, rest)" and "decoder_typed d" and "\<forall>l\<in>set lines. clean_line l"
  shows "decoder_typed d' \<and> same_setting d d' \<and> map sat_sv sats = svs \<and> set rest \<subseteq> set lines \<and>
    list_all (sat_typed (dc_version d) d) sats"
  using assms
proof (induction svs arbitrary: d lines sats)
  case (Cons sv svs)
  then obtain line lines1 where lines: "lines = line # lines1" by (cases lines) auto
  from Cons.prems(1) obtain n d1 vals flags later where n: "obs_count_for d sv = Inr n"
    and sat: "decode_sat_values d sv line n = Inr (d1, vals, flags)"
    and later: "read_sats revision d1 svs lines1 = Inr (d', later, rest)"
    and sats: "sats = \<lparr>sat_sv = sv, sat_values = vals, sat_flags = flags\<rparr> # later"
    using Cons.prems(3) by (auto simp: lines)
  have line: "clean_line line" using Cons.prems(3) by (simp add: lines)
  note step = decode_sat_values_typed [OF sat Cons.prems(2) line]
  then have head: "sat_typed (dc_version d) d \<lparr>sat_sv = sv, sat_values = vals, sat_flags = flags\<rparr>"
    using n by (simp add: sat_typed_def)
  have "decoder_typed d' \<and> same_setting d1 d' \<and> map sat_sv later = svs \<and> set rest \<subseteq> set lines1 \<and>
      list_all (sat_typed (dc_version d1) d1) later"
    using Cons.prems(3) step by (intro Cons.IH [OF later]) (simp_all add: lines)
  moreover have "sat_typed (dc_version d1) d1 = sat_typed (dc_version d) d"
    using step same_setting_count [of d d1] by (auto simp: sat_typed_def same_setting_def)
  ultimately show ?case
    using step n same_setting_trans [of d d1 d'] head by (auto simp: sats lines)
qed simp

section \<open>Clock lines\<close>

lemma decode_clock_value_typed:
  assumes "decode_clock_value d line = Inr (d', clock)" and "decoder_typed d"
  shows "decoder_typed d' \<and> value_typed clock \<and> (\<exists>cd. d' = d\<lparr>dc_clock_diff := cd\<rparr>)"
proof (cases "str_trim line = []")
  case True
  then show ?thesis
    using assms by (auto simp: decode_clock_value_def slot_typed_def value_typed_def intro: decoder_typed_updates)
next
  case False
  note clock = decoder_typed_D(3) [OF assms(2)]
  obtain reset where reset: "parse_reset (str_trim line) = Inr reset"
    using assms(1) False by (auto simp: decode_clock_value_def Let_def)
  show ?thesis
  proof (cases reset)
    case (Some pair)
    obtain order v where pair: "pair = (order, v)" by (cases pair)
    have range: "1 \<le> order" "order \<le> MAX_ORDER" "fits_i 64 v"
      using parse_reset_typed [of "str_trim line" order v] reset Some pair by simp_all
    then have "slot_typed (Some (arc_init (dc_clock_diff d) v order))"
      using arc_init_typed [OF clock] by (simp add: slot_typed_def)
    from decoder_typed_updates(3) [OF assms(2) this] show ?thesis
      using assms(1) False reset Some pair range by (auto simp: decode_clock_value_def Let_def value_typed_def)
  next
    case None
    then obtain delta e e' v where delta: "parse_i64 (str_trim line) = Some delta" and e: "dc_clock_diff d = Some e"
      and step: "num_decompress e delta = Some (e', v)"
      using assms(1) False reset by (auto simp: decode_clock_value_def Let_def split: option.splits)
    have "num_typed e" using clock e by (simp add: slot_typed_def)
    then have v: "num_typed e'" "fits_i 64 v" using num_decompress_typed [OF _ parse_i64_fits [OF delta] step] by simp_all
    then have "decoder_typed (d\<lparr>dc_clock_diff := Some e'\<rparr>)"
      by (intro decoder_typed_updates(3) [OF assms(2)]) (simp add: slot_typed_def)
    then show ?thesis
      using assms(1) False reset None delta e step v by (auto simp: decode_clock_value_def Let_def value_typed_def)
  qed
qed

lemma decode_clock_line_typed:
  assumes "decode_clock_line d line = Inr (d', clock, p)" and "decoder_typed d"
  shows "decoder_typed d' \<and> value_typed clock \<and> picoseconds_typed (dc_version d) p \<and> same_setting d d' \<and>
    (\<exists>cd pd. d' = d\<lparr>dc_clock_diff := cd, dc_picosecond_diff := pd\<rparr>)"
proof -
  obtain clock_text pico_text where split:
    "(case byte_split_once blank line of
        Some (clock, picoseconds) \<Rightarrow> if dc_picoseconds d then (clock, Some picoseconds) else (line, None)
      | None \<Rightarrow> (line, None)) = (clock_text, pico_text)"
    by (cases "case byte_split_once blank line of
        Some (clock, picoseconds) \<Rightarrow> if dc_picoseconds d then (clock, Some picoseconds) else (line, None)
      | None \<Rightarrow> (line, None)")
  obtain d1 where d1: "decode_clock_value d clock_text = Inr (d1, clock)"
    using assms(1) unfolding decode_clock_line_def split by (auto simp: Let_def split: if_splits)
  obtain cd where v: "decoder_typed d1" "value_typed clock" "d1 = d\<lparr>dc_clock_diff := cd\<rparr>"
    using decode_clock_value_typed [OF d1 assms(2)] by blast
  show ?thesis
  proof (cases "dc_picoseconds d")
    case False
    then have "d' = d1" "p = None"
      using assms(1) d1 unfolding decode_clock_line_def split by (auto simp: v(3))
    moreover have "d1 = d\<lparr>dc_clock_diff := cd, dc_picosecond_diff := dc_picosecond_diff d\<rparr>" by (simp add: v(3))
    ultimately have "decoder_typed d'" "picoseconds_typed (dc_version d) p" "same_setting d d'"
      "d' = d\<lparr>dc_clock_diff := cd, dc_picosecond_diff := dc_picosecond_diff d\<rparr>"
      using v by (simp_all add: picoseconds_typed_def)
    with v(2) show ?thesis by blast
  next
    case True
    define held where "held = (case pico_text of Some t \<Rightarrow> text_decompress (dc_picosecond_diff d) t | None \<Rightarrow> dc_picosecond_diff d)"
    have result: "d' = d1\<lparr>dc_picosecond_diff := held\<rparr>"
        "p = None \<or> length held = 5 \<and> list_all byte_is_digit held \<and> p = Some (lossy held)"
      using assms(1) d1 True unfolding decode_clock_line_def split
      by (cases pico_text; auto simp: v(3) held_def Let_def split: if_splits)+
    have "dc_version d = V3" using assms(2) True by (simp add: decoder_typed_def)
    then have "picoseconds_typed (dc_version d) p"
      using result(2) held_digits(3) [of held] by (auto simp: picoseconds_typed_def)
    moreover have "decoder_typed d'" using decoder_typed_updates(5) [OF v(1)] by (simp add: result(1))
    ultimately show ?thesis using v by (auto simp: result(1) same_setting_def widths_agree_def)
  qed
qed

section \<open>Epochs\<close>

lemma sat_typed_put: "sat_typed version (put_widths d w) = sat_typed version w"
  using obs_count_for_cong [of "put_widths d w" w] by (auto simp: sat_typed_def)

lemma epoch_typed_put: "epoch_typed version (put_widths d w) item = epoch_typed version w item"
proof (cases item)
  case (EventRecord descriptor lines)
  have "isl (map_sum id f m) = isl m" for f :: "decoder \<Rightarrow> decoder" and m :: "crinex_error + decoder"
    by (cases m) simp_all
  then show ?thesis by (simp add: epoch_typed_def EventRecord classify_event_put)
qed (simp add: epoch_typed_def sat_typed_put)

lemma after_epoch_put: "after_epoch (put_widths d w) item = put_widths d (after_epoch w item)"
  by (cases item) (simp_all add: after_epoch_def classify_event_put split: sum.split)

lemma epochs_typed_put: "epochs_typed version (put_widths d w) items = epochs_typed version w items"
  by (induction items arbitrary: w) (simp_all add: epoch_typed_put after_epoch_put)

lemma put_own_widths: "put_widths d d = d"
  by (simp add: put_widths_def)

lemma classify_event_keeps: "classify_event_lines d lines = Inr d' \<Longrightarrow> put_widths d d' = d'"
  using classify_event_put [of d d lines] by (simp add: put_own_widths)

lemma take_event_lines_clean:
  "take_event_lines revision n lines = Inr (taken, rest) \<Longrightarrow> \<forall>l\<in>set lines. clean_line l \<Longrightarrow>
   list_all clean_line taken \<and> set rest \<subseteq> set lines"
proof (induction revision n lines arbitrary: taken rest rule: take_event_lines.induct)
  case (3 revision n extra lines)
  then obtain ts where "take_event_lines revision n lines = Inr (ts, rest)" "taken = extra # ts" by auto
  with 3 show ?case by auto
qed simp_all

lemma sv_tokens_length: "sv_tokens_from sv_list revision numsat ks = Inr svs \<Longrightarrow> length svs = length ks"
  by (induction ks arbitrary: svs) auto

lemma descriptor_svs_length: "descriptor_svs version descriptor n = Inr svs \<Longrightarrow> length svs = n"
  by (cases version) (auto simp: descriptor_svs_def sv_tokens_v3_def sv_tokens_v1_def dest: sv_tokens_length)

lemma epoch_tail_event:
  assumes "epoch_tail revision sv_tokens d reset descriptor numsat flag lines = Inr (d', rest, Some item)" and "flag > 1"
  obtains elines d1 where "take_event_lines (''CRINEX '' @ revision) numsat lines = Inr (elines, rest)"
    "classify_event_lines d elines = Inr d1" "d' = d1\<lparr>dc_previous_svs := []\<rparr>" "item = EventRecord descriptor elines"
  using assms by (auto simp: epoch_tail_def)

lemma epoch_tail_observations:
  assumes "epoch_tail revision sv_tokens d reset descriptor numsat flag lines = Inr (d', rest, Some item)" and "\<not> flag > 1"
  obtains clock_line lines1 d1 clock p svs sats where "lines = clock_line # lines1"
    "decode_clock_line d (trim_eol clock_line) = Inr (d1, clock, p)" "sv_tokens descriptor numsat = Inr svs"
    "read_sats revision (carry_satellite_state (if reset then d1\<lparr>dc_previous_svs := []\<rparr> else d1) svs) svs lines1
       = Inr (d', sats, rest)"
    "item = ObsRecord \<lparr>oe_descriptor = descriptor, oe_clock = clock, oe_picoseconds = p, oe_sats = sats\<rparr>"
  using assms by (auto simp: epoch_tail_def split: list.splits)

lemma epoch_tail_typed:
  assumes "epoch_tail revision (descriptor_svs version) d reset descriptor numsat flag lines = Inr (d', rest, Some item)"
    and d: "decoder_typed d" "dc_version d = version" and lines: "\<forall>l\<in>set lines. clean_line l"
    and descriptor: "clean_line descriptor" "descriptor_count version descriptor = Inr numsat"
      "descriptor_flag version descriptor = Inr flag"
  shows "decoder_typed d' \<and> dc_version d' = version \<and> epoch_typed version d item \<and> set rest \<subseteq> set lines \<and>
    widths_agree d' (after_epoch d item)"
proof (cases "flag > 1")
  case True
  with assms(1) obtain elines d1 where event: "take_event_lines (''CRINEX '' @ revision) numsat lines = Inr (elines, rest)"
    "classify_event_lines d elines = Inr d1" "d' = d1\<lparr>dc_previous_svs := []\<rparr>" "item = EventRecord descriptor elines"
    by (rule epoch_tail_event)
  have d1: "d1 = put_widths d d1" using classify_event_keeps [OF event(2)] by simp
  have "decoder_typed d1" "dc_version d1 = version"
    using decoder_typed_updates(7) [OF d(1), of d1] d(2) d1 by (metis, metis put_widths_simps(4))
  then have "decoder_typed d'" "dc_version d' = version" by (simp_all add: event(3) decoder_typed_updates)
  moreover have "epoch_typed version d item"
    using take_event_lines_length [OF event(1)] take_event_lines_clean [OF event(1) lines] descriptor True
    by (simp add: epoch_typed_def event(2,4) flag_of_def)
  moreover have "widths_agree d' (after_epoch d item)" by (simp add: after_epoch_def event widths_agree_def)
  ultimately show ?thesis using take_event_lines_clean [OF event(1) lines] by simp
next
  case False
  with assms(1) obtain clock_line lines1 d1 clock p svs sats where lines': "lines = clock_line # lines1"
    and clock: "decode_clock_line d (trim_eol clock_line) = Inr (d1, clock, p)"
    and svs: "descriptor_svs version descriptor numsat = Inr svs"
    and sats: "read_sats revision (carry_satellite_state (if reset then d1\<lparr>dc_previous_svs := []\<rparr> else d1) svs) svs lines1
       = Inr (d', sats, rest)"
    and item: "item = ObsRecord \<lparr>oe_descriptor = descriptor, oe_clock = clock, oe_picoseconds = p, oe_sats = sats\<rparr>"
    by (rule epoch_tail_observations)
  let ?e = "carry_satellite_state (if reset then d1\<lparr>dc_previous_svs := []\<rparr> else d1) svs"
  have c: "decoder_typed d1" "value_typed clock" "picoseconds_typed version p" "same_setting d d1"
    using decode_clock_line_typed [OF clock d(1)] d(2) by simp_all
  have "same_setting d1 ?e" by (simp add: same_setting_def carry_satellite_state_def Let_def widths_agree_def)
  then have same: "same_setting d ?e" using same_setting_trans [OF c(4)] by blast
  have "decoder_typed ?e" using c(1) by (intro carry_typed) (simp add: decoder_typed_updates)
  from read_sats_typed [OF sats this]
  have s: "decoder_typed d'" "same_setting ?e d'" "map sat_sv sats = svs" "set rest \<subseteq> set lines1"
    "list_all (sat_typed (dc_version ?e) ?e) sats"
    using lines by (simp_all add: lines')
  have same': "same_setting d d'" using same_setting_trans [OF same s(2)] .
  have "sat_typed (dc_version ?e) ?e = sat_typed version d"
    using same d(2) same_setting_count [OF same] by (auto simp: sat_typed_def same_setting_def)
  then have "epoch_typed version d item"
    using c(2,3) descriptor svs descriptor_svs_length [OF svs] s(3,5) False
    by (auto simp: epoch_typed_def item flag_of_def)
  moreover have "widths_agree d' (after_epoch d item)" "dc_version d' = version"
    using same' d(2) by (simp_all add: after_epoch_def item same_setting_def)
  ultimately show ?thesis using s(1,4) by (auto simp: lines')
qed

lemma next_raw_clean:
  "next_raw lines = Some (line, rest) \<Longrightarrow> \<forall>l\<in>set lines. clean_line l \<Longrightarrow> clean_line line \<and> set rest \<subseteq> set lines"
proof (induction lines rule: next_raw.induct)
  case (2 raw lines)
  then show ?case by (cases "raw = []") auto
qed simp

lemma next_epoch_tail:
  assumes "next_epoch version d lines = Inr (d', rest, Some item)"
  obtains raw lines1 reset full numsat flag where "next_raw lines = Some (raw, lines1)"
    "set full \<subseteq> set raw \<union> {blank}"
    "descriptor_count version (lossy (dc_epoch_diff (epoch_text d reset full))) = Inr numsat"
    "descriptor_flag version (lossy (dc_epoch_diff (epoch_text d reset full))) = Inr flag"
    "epoch_tail (revision_of version) (descriptor_svs version) (epoch_text d reset full) reset
       (lossy (dc_epoch_diff (epoch_text d reset full))) numsat flag lines1 = Inr (d', rest, Some item)"
proof -
  obtain raw lines1 where raw: "next_raw lines = Some (raw, lines1)"
    using assms by (cases "next_raw lines") (auto simp: next_epoch_def next_epoch_v3_def next_epoch_v1_def
        split: crinex_version.splits)
  show thesis
  proof (cases version)
    case V3
    define reset where "reset = (raw \<noteq> [] \<and> hd raw = 0x3E)"
    obtain numsat flag where
      "descriptor_count version (lossy (dc_epoch_diff (epoch_text d reset raw))) = Inr numsat"
      "descriptor_flag version (lossy (dc_epoch_diff (epoch_text d reset raw))) = Inr flag"
      "epoch_tail (revision_of version) (descriptor_svs version) (epoch_text d reset raw) reset
         (lossy (dc_epoch_diff (epoch_text d reset raw))) numsat flag lines1 = Inr (d', rest, Some item)"
      using assms raw V3
      by (auto simp: next_epoch_def next_epoch_v3_def Let_def descriptor_count_def descriptor_flag_def
          descriptor_svs_def revision_of_def reset_def)
    moreover have "set raw \<subseteq> set raw \<union> {blank}" by auto
    ultimately show thesis by (intro that [OF raw])
  next
    case V1
    define reset where "reset = (raw \<noteq> [] \<and> hd raw = ampersand)"
    define full where "full = (if reset then blank # tl raw else raw)"
    obtain numsat flag where
      "descriptor_count version (lossy (dc_epoch_diff (epoch_text d reset full))) = Inr numsat"
      "descriptor_flag version (lossy (dc_epoch_diff (epoch_text d reset full))) = Inr flag"
      "epoch_tail (revision_of version) (descriptor_svs version) (epoch_text d reset full) reset
         (lossy (dc_epoch_diff (epoch_text d reset full))) numsat flag lines1 = Inr (d', rest, Some item)"
      using assms raw V1
      by (auto simp: next_epoch_def next_epoch_v1_def Let_def descriptor_count_def descriptor_flag_def
          descriptor_svs_def revision_of_def full_def reset_def)
    moreover have "set full \<subseteq> set raw \<union> {blank}" by (cases raw) (auto simp: full_def)
    ultimately show thesis by (intro that [OF raw])
  qed
qed

lemma epoch_text_clean:
  assumes "decoder_typed d" and "clean_line full"
  shows "clean_line (dc_epoch_diff (epoch_text d reset full))" "decoder_typed (epoch_text d reset full)"
    "same_setting d (epoch_text d reset full)"
proof -
  have "clean_line (overlay (dc_epoch_diff d) full)"
    using assms overlay_bytes [of "dc_epoch_diff d" full] by (auto simp: decoder_typed_def clean_line_def list_all_iff)
  then show clean: "clean_line (dc_epoch_diff (epoch_text d reset full))"
    using assms(2) by (simp add: epoch_text_def text_decompress_overlay)
  then show "decoder_typed (epoch_text d reset full)"
    using decoder_typed_updates(4) [OF assms(1)] by (simp add: epoch_text_def split: if_splits)
  show "same_setting d (epoch_text d reset full)" by (simp add: epoch_text_def)
qed

lemma next_epoch_typed:
  assumes "next_epoch version d lines = Inr (d', rest, Some item)" and "decoder_typed d" and "dc_version d = version"
    and "\<forall>l\<in>set lines. clean_line l"
  shows "decoder_typed d' \<and> dc_version d' = version \<and> epoch_typed version d item \<and> (\<forall>l\<in>set rest. clean_line l) \<and>
    widths_agree d' (after_epoch d item)"
proof -
  from assms(1) obtain raw lines1 reset full numsat flag where raw: "next_raw lines = Some (raw, lines1)"
    and full: "set full \<subseteq> set raw \<union> {blank}"
    and count: "descriptor_count version (lossy (dc_epoch_diff (epoch_text d reset full))) = Inr numsat"
    and flag: "descriptor_flag version (lossy (dc_epoch_diff (epoch_text d reset full))) = Inr flag"
    and tail: "epoch_tail (revision_of version) (descriptor_svs version) (epoch_text d reset full) reset
       (lossy (dc_epoch_diff (epoch_text d reset full))) numsat flag lines1 = Inr (d', rest, Some item)"
    by (rule next_epoch_tail)
  let ?d = "epoch_text d reset full"
  have raw': "clean_line raw" "set lines1 \<subseteq> set lines" using next_raw_clean [OF raw assms(4)] by simp_all
  then have "clean_line full" using full by (auto simp: clean_line_def list_all_iff)
  note d = epoch_text_clean [OF assms(2) this, of reset]
  have "dc_version ?d = version" using d(3) assms(3) by (simp add: same_setting_def)
  moreover have "clean_line (lossy (dc_epoch_diff ?d))" using d(1) by simp
  moreover have "\<forall>l\<in>set lines1. clean_line l" using raw'(2) assms(4) by blast
  ultimately have t: "decoder_typed d'" "dc_version d' = version" "epoch_typed version ?d item" "set rest \<subseteq> set lines1"
    "widths_agree d' (after_epoch ?d item)"
    using epoch_tail_typed [OF tail d(2)] count flag by simp_all
  have "put_widths ?d d = ?d" using d(3) by (simp add: same_setting_def widths_agree_put)
  then have "epoch_typed version ?d item = epoch_typed version d item"
    and "after_epoch ?d item = put_widths ?d (after_epoch d item)"
    using epoch_typed_put [of version ?d d item] after_epoch_put [of ?d d item] by simp_all
  with t show ?thesis using raw'(2) assms(4) by (auto simp: widths_agree_def)
qed

section \<open>Whole streams\<close>

lemma read_epochs_typed:
  assumes "read_epochs version d lines = Inr items" and "decoder_typed d" and "dc_version d = version"
    and "\<forall>l\<in>set lines. clean_line l"
  shows "epochs_typed version d items"
  using assms
proof (induction version d lines arbitrary: items rule: read_epochs.induct)
  case (1 version d lines)
  show ?case
  proof (cases items)
    case (Cons item later)
    obtain d' rest where step: "next_epoch version d lines = Inr (d', rest, Some item)"
      and later: "read_epochs version d' rest = Inr later"
      using "1.prems"(1) Cons read_epochs.simps [of version d lines]
      by (auto split: sum.splits option.splits)
    have typed: "decoder_typed d'" "dc_version d' = version" "epoch_typed version d item" "\<forall>l\<in>set rest. clean_line l"
      "widths_agree d' (after_epoch d item)"
      using next_epoch_typed [OF step "1.prems"(2,3,4)] by simp_all
    have "epochs_typed version d' later"
      by (rule "1.IH" [OF step refl refl refl later typed(1,2,4)])
    moreover have "epochs_typed version d' later = epochs_typed version (after_epoch d item) later"
      using epochs_typed_put [of version d' "after_epoch d item" later] typed(5) by (simp add: widths_agree_put)
    ultimately show ?thesis using typed(3) by (simp add: Cons)
  qed simp
qed

text \<open>ASCII text whose carriage returns, if any, stand before line feeds.\<close>

fun plain_text :: "rust_str \<Rightarrow> bool" where
  "plain_text [] \<longleftrightarrow> True"
| "plain_text (b # s) \<longleftrightarrow> b < 0x80 \<and> (b = 0x0D \<longrightarrow> s \<noteq> [] \<and> hd s = 0x0A) \<and> plain_text s"

lemma plain_first_line:
  assumes "plain_text s" and "0x0A \<notin> set line"
  shows "s = line \<Longrightarrow> clean_line line" and "s = line @ 0x0A # later \<Longrightarrow> clean_line (strip_cr line) \<and> plain_text later"
proof -
  show "s = line \<Longrightarrow> clean_line line"
    using assms by (induction line arbitrary: s) (fastforce dest: hd_in_set)+
  show "s = line @ 0x0A # later \<Longrightarrow> clean_line (strip_cr line) \<and> plain_text later"
    using assms
  proof (induction line arbitrary: s)
    case (Cons b line)
    then have "clean_line (strip_cr line) \<and> plain_text later" by simp
    with Cons.prems show ?case by (cases line) (auto simp: strip_cr_def)
  qed (simp add: strip_cr_def)
qed

lemma plain_lines: "plain_text s \<Longrightarrow> \<forall>l\<in>set (text_lines s). clean_line l"
proof (induction s rule: text_lines.induct)
  case (1 s)
  let ?line = "takeWhile (\<lambda>b. b \<noteq> 0x0A) s" and ?rest = "dropWhile (\<lambda>b. b \<noteq> 0x0A) s"
  have no_end: "0x0A \<notin> set ?line" by (auto dest: set_takeWhileD)
  show ?case
  proof (cases "?rest = []")
    case True
    then have all: "?line = s" by simp
    with True plain_first_line(1) [OF "1.prems" no_end all [symmetric]] show ?thesis
      by (subst text_lines.simps) (auto simp: Let_def)
  next
    case False
    then have "?rest = 0x0A # tl ?rest" using hd_dropWhile [of "\<lambda>b. b \<noteq> 0x0A" s] by (cases ?rest) auto
    then have s: "s = ?line @ 0x0A # tl ?rest" using takeWhile_dropWhile_id [of "\<lambda>b. b \<noteq> 0x0A" s] by simp
    have nonempty: "s \<noteq> []" using False by auto
    from plain_first_line(2) [OF "1.prems" no_end s]
    have "clean_line (strip_cr ?line)" "\<forall>l\<in>set (text_lines (tl ?rest)). clean_line l"
      using "1.IH" [OF nonempty refl refl False] by auto
    then show ?thesis using False by (subst text_lines.simps) (auto simp: Let_def)
  qed
qed

lemma copy_header_prefix:
  "copy_header w lines = (header, Inr (w', rest)) \<Longrightarrow> \<forall>l\<in>set lines. clean_line l \<Longrightarrow>
   copy_header w header = (header, Inr (w', [])) \<and> header @ rest = lines"
proof (induction lines arbitrary: w header)
  case (Cons raw lines)
  then show ?case
    by (fastforce simp: Let_def split: sum.splits prod.splits if_splits)
qed simp

lemma read_header_copy:
  assumes "read_crinex_header d0 lines = (header, Inr (d, rest))"
  shows "\<exists>l1 l2 lines1 p. lines = l1 # l2 # lines1 \<and> (p \<longrightarrow> dc_version d = V3) \<and>
    copy_header (d0\<lparr>dc_version := dc_version d, dc_picoseconds := p\<rparr>) lines1 = (header, Inr (d, rest))"
proof -
  obtain l1 lines' where l1: "lines = l1 # lines'" using assms by (cases lines) (auto simp: read_crinex_header_def)
  let ?ver = "str_trim (raw_field l1 0 20)"
  obtain version where version: "stream_version ?ver = Inr version"
    using assms by (cases "stream_version ?ver") (auto simp: read_crinex_header_def l1 Let_def)
  obtain l2 lines1 where l2: "lines' = l2 # lines1"
    using assms version by (cases lines') (auto simp: read_crinex_header_def l1 Let_def split: if_splits)
  let ?d = "d0\<lparr>dc_version := version, dc_picoseconds := (version = V3 \<and> minor_above_zero ?ver)\<rparr>"
  have copied: "copy_header ?d lines1 = (header, Inr (d, rest))"
    using assms version by (auto simp: read_crinex_header_def l1 l2 Let_def split: if_splits)
  have "copy_header ?d lines1 = map_prod id (map_sum id (map_prod (put_widths ?d) id)) (copy_header ?d lines1)"
    using copy_header_put [of ?d ?d lines1] unfolding put_own_widths .
  then have kept: "put_widths ?d d = d" unfolding copied by simp
  have "dc_version (put_widths ?d d) = version" by simp
  then have "dc_version d = version" unfolding kept .
  then have "copy_header (d0\<lparr>dc_version := dc_version d, dc_picoseconds := (version = V3 \<and> minor_above_zero ?ver)\<rparr>) lines1
      = (header, Inr (d, rest))" "version = V3 \<and> minor_above_zero ?ver \<longrightarrow> dc_version d = V3"
    using copied by simp_all
  then show ?thesis
    unfolding l1 l2
    by (intro exI [of _ l1] exI [of _ l2] exI [of _ lines1] exI [of _ "version = V3 \<and> minor_above_zero ?ver"]) simp
qed

lemma parsed_stream_typed:
  assumes "plain_text text_in" and "parse_stream text_in = Inr s"
  shows "stream_typed s"
proof -
  have lines: "\<forall>l\<in>set (text_lines text_in). clean_line l" using plain_lines [OF assms(1)] .
  from assms(2) obtain d rest where header: "read_crinex_header new_decoder (text_lines text_in) = (os_header s, Inr (d, rest))"
    and version: "os_version s = dc_version d" and items: "read_epochs (dc_version d) d rest = Inr (os_epochs s)"
    by (auto simp: parse_stream_def split: prod.splits)
  from header obtain l1 l2 lines1 p where split: "text_lines text_in = l1 # l2 # lines1"
    and copied: "copy_header (new_decoder\<lparr>dc_version := dc_version d, dc_picoseconds := p\<rparr>) lines1 = (os_header s, Inr (d, rest))"
    and p: "p \<longrightarrow> dc_version d = V3"
    using read_header_copy by blast
  let ?d = "new_decoder\<lparr>dc_version := dc_version d, dc_picoseconds := p\<rparr>"
  have "?d = put_widths ?d new_decoder" by (simp add: put_widths_def new_decoder_def)
  then obtain w where w: "copy_header new_decoder lines1 = (os_header s, Inr (w, rest))" and d: "d = put_widths ?d w"
    using copied copy_header_put [of ?d new_decoder lines1]
    by (cases "copy_header new_decoder lines1"; cases "snd (copy_header new_decoder lines1)") auto
  have again: "copy_header new_decoder (os_header s) = (os_header s, Inr (w, []))" "os_header s @ rest = lines1"
    using copy_header_prefix [OF w] lines split by simp_all
  have "decoder_typed ?d" using new_decoder_typed p by (simp add: decoder_typed_def new_decoder_def)
  then have "decoder_typed d" using decoder_typed_updates(7) [of ?d w] d by simp
  moreover have "\<forall>l\<in>set rest. clean_line l" using lines split again(2) by auto
  ultimately have "epochs_typed (dc_version d) d (os_epochs s)" using read_epochs_typed [OF items] by simp
  then have "epochs_typed (dc_version d) w (os_epochs s)" using epochs_typed_put d by metis
  then show ?thesis
    using again lines split by (auto simp: stream_typed_def header_widths_def version list_all_iff)
qed

lemma no_return_plain: "list_all (\<lambda>b. b < 0x80 \<and> b \<noteq> 0x0D) s \<Longrightarrow> plain_text s"
  by (induction s) auto

lemma clean_lines_plain: "list_all clean_line lines \<Longrightarrow> plain_text (text_of lines)"
  by (rule no_return_plain) (auto simp: clean_line_def text_of_def list_all_iff)

lemma encoded_stream_plain:
  assumes "stream_typed s" and "stream_tidy s"
  shows "\<exists>t. encode_stream s = Some t \<and> plain_text t \<and> parse_stream t = Inr s"
  using stream_read_back [OF assms] clean_lines_plain by blast

end
