(* ===== verification/Crinex_Rinex_Back.thy ===== *)
theory Crinex_Rinex_Back
  imports Crinex_Rinex Crinex_Types
begin

text \<open>
  RINEX text read back: the fixed-decimal fields, the observation lines, the epochs of both
  revisions, and with the CRINEX round trip the expansion of what \<^verbatim>\<open>encode_crinex\<close> compacts.
\<close>

section \<open>Fixed-decimal fields\<close>

lemma length_dec_le: "0 < w \<Longrightarrow> n < 10 ^ w \<Longrightarrow> length (dec n) \<le> w"
proof (rule ccontr)
  assume w: "0 < w" "n < 10 ^ w" and "\<not> length (dec n) \<le> w"
  then have less: "w \<le> length (dec n) - 1" by simp
  show False
  proof (cases "n = 0")
    case True
    then show False using less w by (simp add: dec.simps [of 0])
  next
    case False
    then have "10 ^ (length (dec n) - 1) \<le> n" using dec_bounds(2) by simp
    moreover have "(10 :: nat) ^ w \<le> 10 ^ (length (dec n) - 1)" using less by (simp add: power_increasing)
    ultimately show False using w(2) by linarith
  qed
qed

lemma zero_filled_digits:
  assumes "0 < w" and "n < 10 ^ w"
  shows "length (zero_filled w n) = w" "list_all byte_is_digit (zero_filled w n)"
    "decimal_value (map ucast (zero_filled w n)) = n" "zero_filled w n \<noteq> []"
proof -
  show "length (zero_filled w n) = w"
    using length_dec_le [OF assms] by (simp add: zero_filled_def length_show_nat)
  then show "zero_filled w n \<noteq> []" using assms(1) by auto
  show "list_all byte_is_digit (zero_filled w n)"
    using show_nat_digits(1) [of n] by (auto simp: zero_filled_def list_all_iff byte_is_digit_def)
  show "decimal_value (map ucast (zero_filled w n)) = n"
    using zeros_decimal_value [of _ "map ucast (show_nat n)"] show_nat_value [of n]
    by (simp add: zero_filled_def)
qed

lemma digits_ascii: "list_all byte_is_digit s \<Longrightarrow> clean_line s"
  using digit_clean by (auto simp: clean_line_def list_all_iff)

text \<open>A number in the layout of both writers: a sign, perhaps no whole digits, a point, the decimals.\<close>

definition decimal_body :: "bool \<Rightarrow> rust_str \<Rightarrow> nat \<Rightarrow> nat \<Rightarrow> rust_str" where
  "decimal_body negative whole decimals fraction =
     (if negative then [0x2D] else []) @ whole @ [0x2E] @ zero_filled decimals fraction"

lemma decimal_body_clean:
  assumes "list_all byte_is_digit whole" and "0 < decimals" and "fraction < 10 ^ decimals"
  shows "clean_line (decimal_body negative whole decimals fraction)"
    "byte_trim (decimal_body negative whole decimals fraction) = decimal_body negative whole decimals fraction"
    "byte_is_digit (last (decimal_body negative whole decimals fraction))"
    "hd (decimal_body negative whole decimals fraction) \<noteq> blank"
proof -
  let ?z = "zero_filled decimals fraction"
  note z = zero_filled_digits [OF assms(2,3)]
  show "clean_line (decimal_body negative whole decimals fraction)"
    using digits_ascii [OF assms(1)] digits_ascii [OF z(2)] by (simp add: decimal_body_def)
  have "byte_is_digit (last ?z)" using z(2,4) by (simp add: list_all_iff)
  moreover have "last (decimal_body negative whole decimals fraction) = last ?z"
    using z(4) by (simp add: decimal_body_def)
  ultimately show last: "byte_is_digit (last (decimal_body negative whole decimals fraction))" by simp
  have hd: "\<not> byte_is_space (hd (decimal_body negative whole decimals fraction))"
    using digit_clean [of "hd whole"] assms(1)
    by (cases negative; cases whole) (auto simp: decimal_body_def byte_is_space_def)
  then show "hd (decimal_body negative whole decimals fraction) \<noteq> blank"
    by (auto simp: byte_is_space_def blank_def)
  show "byte_trim (decimal_body negative whole decimals fraction) = decimal_body negative whole decimals fraction"
    using digit_clean [OF last] hd by (intro byte_trim_word) simp
qed

definition whole_value :: "rust_str \<Rightarrow> nat" where
  "whole_value whole = decimal_value (map ucast whole)"

lemma split_sign_body:
  assumes "list_all byte_is_digit whole"
  shows "split_sign (decimal_body negative whole decimals fraction)
    = (negative, whole @ 0x2E # zero_filled decimals fraction)"
proof (cases negative)
  case False
  then show ?thesis
    using assms digit_clean [of "hd whole"] by (cases whole) (auto simp: decimal_body_def split_sign_def)
qed (simp add: decimal_body_def split_sign_def)

lemma point_split:
  assumes "list_all byte_is_digit whole"
  shows "byte_split_once 0x2E (whole @ 0x2E # rest) = Some (whole, rest)"
proof -
  have "\<forall>b\<in>set whole. b \<noteq> 0x2E" using assms digit_clean by (auto simp: list_all_iff)
  then have t: "takeWhile (\<lambda>b. b \<noteq> 0x2E) (whole @ 0x2E # rest) = whole" by simp
  show ?thesis unfolding byte_split_once_def t Let_def by simp
qed

lemma fraction_digits_exact:
  assumes "ascii s" and "length s = decimals"
  shows "fraction_digits decimals s = s"
  using assms by (simp add: fraction_digits_def)

lemma nat_fits: "n < 2 ^ 63 \<Longrightarrow> fits_i 64 (int n) \<and> fits_i 64 (- int n)"
  by (simp add: fits_i_def)

lemma parse_decimal_body:
  assumes whole: "list_all byte_is_digit whole" and d: "0 < decimals" "fraction < 10 ^ decimals"
    and small: "whole_value whole * 10 ^ decimals + fraction < 2 ^ 63"
    and trimmed: "str_trim whole_text = decimal_body negative whole decimals fraction"
  shows "parse_scaled_decimal whole_text decimals name =
    Inr (if negative then - int (whole_value whole * 10 ^ decimals + fraction)
         else int (whole_value whole * 10 ^ decimals + fraction))"
proof -
  let ?z = "zero_filled decimals fraction" and ?w = "whole_value whole"
  let ?text = "if whole = [] then [0x30] else whole"
  note z = zero_filled_digits [OF d]
  have one: "1 \<le> (10 :: nat) ^ decimals" by simp
  have "?w \<le> ?w * 10 ^ decimals" by simp
  then have bounds: "?w < 2 ^ 63" "fraction < 2 ^ 63" "?w * 10 ^ decimals < 2 ^ 63" using small by linarith+
  have integer: "parse_i64 ?text = Some (int ?w)"
  proof (cases "whole = []")
    case True
    have "parse_i64 [0x30] = Some 0"
      using parse_i64_show [of 0] by (simp add: show_int_def show_nat_step fits_i_def)
    then show ?thesis by (simp add: True whole_value_def decimal_value_def)
  next
    case False
    then show ?thesis using parse_i64_digits [OF False whole] bounds(1) by (simp add: whole_value_def)
  qed
  have frac: "parse_i64 ?z = Some (int fraction)"
    using parse_i64_digits [OF z(4,2)] bounds(2) by (simp add: z(3))
  have digits: "fraction_digits decimals ?z = ?z"
    using digits_ascii [OF z(2)] z(1) by (intro fraction_digits_exact) simp_all
  have fits: "fits_i 64 (int ?w * 10 ^ decimals)" "fits_i 64 (int ?w * 10 ^ decimals + int fraction)"
    "fits_i 64 (- (int ?w * 10 ^ decimals + int fraction))"
    using nat_fits [OF bounds(3)] nat_fits [OF small] by simp_all
  have "as_i64 (- (int ?w * 10 ^ decimals + int fraction)) = - (int ?w * 10 ^ decimals + int fraction)"
    by (rule as_i64_fits [OF fits(3)]) simp_all
  then show ?thesis
    using fits(1,2) d(1)
    by (simp add: parse_scaled_decimal_def trimmed split_sign_body [OF whole] point_split [OF whole] digits
        parse_scaled_component_def integer frac overflow_error_def checked_i64_def)
qed

lemma right_aligned_body:
  assumes "clean_line body" and "byte_trim body = body" and "body \<noteq> []"
  shows "str_trim (right_aligned width body) = body" "clean_line (right_aligned width body)"
    "length (right_aligned width body) = max width (length body)" "last (right_aligned width body) = last body"
proof -
  have "dropWhile byte_is_space (replicate n blank @ body) = dropWhile byte_is_space body" for n
    by (induction n) (simp_all add: byte_is_space_def blank_def)
  then have "byte_trim (replicate n blank @ body) = byte_trim body" for n
    by (simp add: byte_trim_def)
  moreover show "clean_line (right_aligned width body)" using assms(1) by (simp add: right_aligned_def)
  ultimately show "str_trim (right_aligned width body) = body"
    using assms(1,2) by (simp add: right_aligned_def)
  show "length (right_aligned width body) = max width (length body)" "last (right_aligned width body) = last body"
    using assms(1,3) by (simp_all add: right_aligned_def)
qed

text \<open>The whole digits of either writer: none, or those of the number.\<close>

definition whole_digits :: "bool \<Rightarrow> nat \<Rightarrow> rust_str" where
  "whole_digits dropped whole = (if dropped \<and> whole = 0 then [] else show_nat whole)"

lemma whole_digits_value: "whole_value (whole_digits dropped whole) = whole" "list_all byte_is_digit (whole_digits dropped whole)"
proof -
  have "decimal_value [] = 0" by (simp add: decimal_value_def)
  then show "whole_value (whole_digits dropped whole) = whole" "list_all byte_is_digit (whole_digits dropped whole)"
    by (simp_all add: whole_digits_def whole_value_def show_nat_value show_nat_digits)
qed

lemma format_value_body:
  "format_value v = right_aligned 14
     (decimal_body (v < 0) (whole_digits (v < 0) (nat \<bar>v\<bar> div 1000)) 3 (nat \<bar>v\<bar> mod 1000))"
  by (simp add: format_value_def Let_def decimal_body_def whole_digits_def)

lemma format_clock_body:
  "format_clock v decimals width = right_aligned width
     (decimal_body (v < 0) (whole_digits True (nat \<bar>v\<bar> div 10 ^ decimals)) decimals (nat \<bar>v\<bar> mod 10 ^ decimals))"
  by (simp add: format_clock_def Let_def decimal_body_def whole_digits_def)

lemma scaled_read_back:
  assumes "0 < decimals" and "\<bar>v\<bar> < 2 ^ 63"
    and body: "body = decimal_body (v < 0) (whole_digits dropped (nat \<bar>v\<bar> div 10 ^ decimals)) decimals (nat \<bar>v\<bar> mod 10 ^ decimals)"
    and trimmed: "str_trim whole_text = body"
  shows "parse_scaled_decimal whole_text decimals name = Inr v"
proof -
  let ?m = "nat \<bar>v\<bar>"
  have m: "?m div 10 ^ decimals * 10 ^ decimals + ?m mod 10 ^ decimals = ?m" by (rule div_mult_mod_eq)
  have "?m mod 10 ^ decimals < 10 ^ decimals" by simp
  from parse_decimal_body [OF whole_digits_value(2) assms(1) this, of dropped "?m div 10 ^ decimals" whole_text "v < 0" name]
  have "parse_scaled_decimal whole_text decimals name = Inr (if v < 0 then - int ?m else int ?m)"
    using assms(2) trimmed unfolding body whole_digits_value(1) m by (simp add: nat_less_iff)
  then show ?thesis by (simp split: if_splits)
qed

lemma value_bytes:
  "clean_line (format_value v)" "14 \<le> length (format_value v)" "byte_is_digit (last (format_value v))"
  "\<bar>v\<bar> < 2 ^ 63 \<Longrightarrow> parse_scaled_decimal (format_value v) 3 name = Inr v" "str_trim (format_value v) \<noteq> []"
proof -
  define body where "body = decimal_body (v < 0) (whole_digits (v < 0) (nat \<bar>v\<bar> div 1000)) 3 (nat \<bar>v\<bar> mod 1000)"
  have "nat \<bar>v\<bar> mod 1000 < 10 ^ 3" by simp
  from decimal_body_clean [OF whole_digits_value(2) zero_less_numeral this]
  have body: "clean_line body" "byte_trim body = body" "byte_is_digit (last body)"
    unfolding body_def by blast+
  have nonempty: "body \<noteq> []" by (simp add: body_def decimal_body_def)
  have v: "format_value v = right_aligned 14 body" by (simp only: format_value_body body_def)
  note right = right_aligned_body [OF body(1,2) nonempty, of 14]
  show "clean_line (format_value v)" "14 \<le> length (format_value v)" "byte_is_digit (last (format_value v))"
    "str_trim (format_value v) \<noteq> []"
    unfolding v right(1,3,4) using right(2) body(3) nonempty by simp_all
  show "\<bar>v\<bar> < 2 ^ 63 \<Longrightarrow> parse_scaled_decimal (format_value v) 3 name = Inr v"
  proof (rule scaled_read_back)
    show "body = decimal_body (v < 0) (whole_digits (v < 0) (nat \<bar>v\<bar> div 10 ^ 3)) 3 (nat \<bar>v\<bar> mod 10 ^ 3)"
      by (simp add: body_def)
    show "str_trim (format_value v) = body" by (simp only: v right(1))
  qed simp_all
qed

lemma clock_bytes:
  assumes "0 < decimals"
  shows "clean_line (format_clock v decimals width)" "width \<le> length (format_clock v decimals width)"
    "byte_is_digit (last (format_clock v decimals width))" "str_trim (format_clock v decimals width) \<noteq> []"
    "\<bar>v\<bar> < 2 ^ 63 \<Longrightarrow> parse_scaled_decimal (format_clock v decimals width) decimals name = Inr v"
proof -
  define body where "body = decimal_body (v < 0) (whole_digits True (nat \<bar>v\<bar> div 10 ^ decimals)) decimals (nat \<bar>v\<bar> mod 10 ^ decimals)"
  have "nat \<bar>v\<bar> mod 10 ^ decimals < 10 ^ decimals" by simp
  from decimal_body_clean [OF whole_digits_value(2) assms this]
  have body: "clean_line body" "byte_trim body = body" "byte_is_digit (last body)"
    unfolding body_def by blast+
  have nonempty: "body \<noteq> []" by (simp add: body_def decimal_body_def)
  have v: "format_clock v decimals width = right_aligned width body" by (simp only: format_clock_body body_def)
  note right = right_aligned_body [OF body(1,2) nonempty, of width]
  show "clean_line (format_clock v decimals width)" "width \<le> length (format_clock v decimals width)"
    "byte_is_digit (last (format_clock v decimals width))" "str_trim (format_clock v decimals width) \<noteq> []"
    unfolding v right(1,3,4) using right(2) body(3) nonempty by simp_all
  show "\<bar>v\<bar> < 2 ^ 63 \<Longrightarrow> parse_scaled_decimal (format_clock v decimals width) decimals name = Inr v"
    by (rule scaled_read_back [OF assms _ body_def]) (simp_all only: v right(1))
qed

section \<open>Fixed columns\<close>

text \<open>The scaled numbers a field of a given width holds: the sign and the point take a column each.\<close>

definition fits_columns :: "nat \<Rightarrow> int \<Rightarrow> bool" where
  "fits_columns width v \<longleftrightarrow> - (10 ^ (width - 2)) < v \<and> v < 10 ^ (width - 1)"

lemma whole_digits_length: "0 < k \<Longrightarrow> whole < 10 ^ k \<Longrightarrow> length (whole_digits dropped whole) \<le> k"
  using length_dec_le [of k whole] by (simp add: whole_digits_def length_show_nat)

lemma scaled_columns:
  assumes "0 < decimals" and "decimals + 2 < width" and "fits_columns width v"
  shows "length (decimal_body (v < 0) (whole_digits dropped (nat \<bar>v\<bar> div 10 ^ decimals)) decimals
    (nat \<bar>v\<bar> mod 10 ^ decimals)) \<le> width"
proof -
  define k where "k = (if v < 0 then width - 2 - decimals else width - 1 - decimals)"
  have k: "0 < k" "k + decimals = (if v < 0 then width - 2 else width - 1)" using assms(2) by (simp_all add: k_def)
  have "\<bar>v\<bar> < 10 ^ (k + decimals)" using assms(3) by (auto simp: k fits_columns_def)
  then have "nat \<bar>v\<bar> < 10 ^ k * 10 ^ decimals" by (simp add: nat_less_iff power_add)
  then have "nat \<bar>v\<bar> div 10 ^ decimals < 10 ^ k" by (simp add: less_mult_imp_div_less)
  from whole_digits_length [OF k(1) this] have "length (whole_digits dropped (nat \<bar>v\<bar> div 10 ^ decimals)) \<le> k" .
  moreover have "length (zero_filled decimals (nat \<bar>v\<bar> mod 10 ^ decimals)) = decimals"
    by (rule zero_filled_digits(1) [OF assms(1)]) simp
  ultimately show ?thesis using k assms(2) by (auto simp: decimal_body_def split: if_splits)
qed

lemma fits_columns_64: "fits_columns width v \<Longrightarrow> width \<le> 15 \<Longrightarrow> \<bar>v\<bar> < 2 ^ 63"
proof -
  assume v: "fits_columns width v" and width: "width \<le> 15"
  have "(10 :: int) ^ (width - 2) \<le> 10 ^ 13" "(10 :: int) ^ (width - 1) \<le> 10 ^ 14"
    using width by (intro power_increasing; simp)+
  moreover have "- (10 ^ (width - 2)) < v" "v < 10 ^ (width - 1)" using v by (simp_all add: fits_columns_def)
  ultimately have "- (10 ^ 13) < v" "v < 10 ^ 14" by linarith+
  then show ?thesis by simp
qed

lemma value_columns: "fits_columns 14 v \<Longrightarrow> length (format_value v) = 14"
proof -
  define body where "body = decimal_body (v < 0) (whole_digits (v < 0) (nat \<bar>v\<bar> div 1000)) 3 (nat \<bar>v\<bar> mod 1000)"
  assume "fits_columns 14 v"
  from scaled_columns [OF _ _ this, of 3 "v < 0"] have "length body \<le> 14" by (simp add: body_def)
  moreover have "length (format_value v) = max 14 (length body)"
    using decimal_body_clean [OF whole_digits_value(2), of 3 "nat \<bar>v\<bar> mod 1000"]
    unfolding format_value_body body_def by (intro right_aligned_body(3)) (simp_all add: decimal_body_def)
  ultimately show ?thesis by simp
qed

lemma clock_columns:
  assumes "0 < decimals" and "decimals + 2 < width" and "fits_columns width v"
  shows "length (format_clock v decimals width) = width"
proof -
  have "length (format_clock v decimals width) = max width (length (decimal_body (v < 0)
      (whole_digits True (nat \<bar>v\<bar> div 10 ^ decimals)) decimals (nat \<bar>v\<bar> mod 10 ^ decimals)))"
    using decimal_body_clean [OF whole_digits_value(2) assms(1), of "nat \<bar>v\<bar> mod 10 ^ decimals"]
    unfolding format_clock_body by (intro right_aligned_body(3)) (simp_all add: decimal_body_def)
  then show ?thesis using scaled_columns [OF assms, of True] by simp
qed

section \<open>Lines without their trailing blanks\<close>

lemma trim_blanks_split: "\<exists>k. s = trim_blanks s @ replicate k blank"
proof (induction s rule: rev_induct)
  case Nil
  then show ?case by (intro exI [of _ 0]) (simp add: trim_blanks_def)
next
  case (snoc b s)
  then obtain k where k: "s = trim_blanks s @ replicate k blank" by blast
  show ?case
  proof (cases "b = blank")
    case True
    then have "trim_blanks (s @ [b]) = trim_blanks s" by (simp add: trim_blanks_def)
    moreover have "s @ [b] = trim_blanks s @ replicate (Suc k) blank"
      using k True by (metis append_assoc replicate_Suc replicate_append_same)
    ultimately show ?thesis by metis
  next
    case False
    then show ?thesis by (intro exI [of _ 0]) (simp add: trim_blanks_def)
  qed
qed

lemma trim_blanks_last: "s \<noteq> [] \<Longrightarrow> last s \<noteq> blank \<Longrightarrow> trim_blanks s = s"
  by (cases s rule: rev_cases) (simp_all add: trim_blanks_def)

lemma byte_trim_spaces: "list_all byte_is_space y \<Longrightarrow> byte_trim (x @ y) = byte_trim x"
proof -
  assume y: "list_all byte_is_space y"
  have spaces: "dropWhile byte_is_space (y' @ z) = dropWhile byte_is_space z" if "list_all byte_is_space y'" for y' z
    using that by (induction y') auto
  show ?thesis
  proof (cases "list_all byte_is_space x")
    case True
    then show ?thesis using y by (metis byte_trim_empty list_all_append)
  next
    case False
    then have "dropWhile byte_is_space (x @ y) = dropWhile byte_is_space x @ y"
      by (auto simp: dropWhile_append list_all_iff)
    then show ?thesis using y spaces [of "rev y"] by (simp add: byte_trim_def list_all_iff)
  qed
qed

lemma field_padded: "drop a (take b (l @ replicate k c)) = drop a (take b l) @ replicate (min k (b - length l) - (a - min b (length l))) c"
  by (simp add: min_def)

lemma blanks_are_spaces: "list_all byte_is_space (replicate m blank)"
  by (simp add: list_all_iff byte_is_space_def blank_def)

lemma trimmed_field:
  assumes "clean_line (l @ replicate k blank)"
  shows "str_trim (raw_field l a b) = str_trim (raw_field (l @ replicate k blank) a b)"
  using assms by (simp add: field_padded byte_trim_spaces [OF blanks_are_spaces])

lemma trimmed_int_field:
  assumes "clean_line (l @ replicate k blank)" and "strict_int_field parse (l @ replicate k blank) a b name = Inr n"
  shows "strict_int_field parse l a b name = Inr n"
  using assms(2) trimmed_field [OF assms(1), of a b]
  by (auto simp: strict_int_field_def strict_int_token_def Let_def split: if_splits option.splits)

lemma component_Inr: "parse_scaled_component token whole_text name = Inr v \<longleftrightarrow> parse_i64 token = Some v"
  by (simp add: parse_scaled_component_def split: option.split)

lemma scaled_decimal_text:
  assumes "str_trim s = str_trim t" and "parse_scaled_decimal t decimals name = Inr v"
  shows "parse_scaled_decimal s decimals name = Inr v"
proof -
  obtain negative body where sign: "split_sign (str_trim t) = (negative, body)" by (cases "split_sign (str_trim t)")
  obtain whole fraction where point:
    "(case byte_split_once 0x2E body of Some (integer, fraction) \<Rightarrow> (integer, fraction) | None \<Rightarrow> (body, [])) = (whole, fraction)"
    by (cases "case byte_split_once 0x2E body of Some (integer, fraction) \<Rightarrow> (integer, fraction) | None \<Rightarrow> (body, [])")
  show ?thesis
    using assms(2) unfolding parse_scaled_decimal_def assms(1) sign prod.case point Let_def
    by (cases "decimals = 0") (simp_all add: component_Inr)
qed

lemma trimmed_char: "char_at_or_space l i = char_at_or_space (l @ replicate k blank) i"
  by (auto simp: char_at_or_space_def nth_append)

lemma trimmed_obs_field:
  assumes "clean_line (l @ replicate k blank)" and "read_obs_field (l @ replicate k blank) base fb = Inr r"
  shows "read_obs_field l base fb = Inr r"
proof -
  note chars = trimmed_char [of l _ k, symmetric]
  note field = trimmed_field [OF assms(1), of base "base + OBS_VALUE_WIDTH"]
  show ?thesis
    using assms(2) scaled_decimal_text [OF field]
    unfolding read_obs_field_def field Let_def chars by (auto split: if_splits)
qed

lemma trimmed_line_obs_field:
  assumes "clean_line l" and "read_obs_field l base fb = Inr r"
  shows "read_obs_field (trim_blanks l) base fb = Inr r"
proof -
  obtain k where "l = trim_blanks l @ replicate k blank" using trim_blanks_split by blast
  then show ?thesis using trimmed_obs_field [of "trim_blanks l" k] assms by metis
qed

section \<open>Observation fields\<close>

definition value_fits :: "int option \<Rightarrow> bool" where
  "value_fits ob = (case ob of None \<Rightarrow> True | Some v \<Rightarrow> fits_columns OBS_VALUE_WIDTH v)"

lemma value_text_fits:
  assumes "value_fits ob"
  shows "length (value_text ob) = 14" "clean_line (value_text ob)"
  using assms value_bytes(1) value_columns
  by (auto simp: value_text_def value_fits_def OBS_VALUE_WIDTH_def blank_def split: option.splits)

lemma read_block:
  assumes "value_fits ob" and "clean_line pre" and "clean_line rest" and "clean_line [lli, ssi]"
    and "ob = None \<Longrightarrow> \<not> fb \<Longrightarrow> lli = blank \<and> ssi = blank"
  shows "read_obs_field (pre @ (value_text ob @ [lli, ssi]) @ rest) (length pre) fb = Inr (ob, [lli, ssi])"
proof -
  let ?line = "pre @ (value_text ob @ [lli, ssi]) @ rest"
  note t = value_text_fits [OF assms(1)]
  have clean: "clean_line ?line" using assms t by simp
  then have field: "raw_field ?line (length pre) (length pre + OBS_VALUE_WIDTH) = value_text ob"
    using t(1) by (simp add: OBS_VALUE_WIDTH_def)
  have chars: "char_at_or_space ?line (length pre + OBS_VALUE_WIDTH) = lli"
    "char_at_or_space ?line (length pre + OBS_VALUE_WIDTH + 1) = ssi"
    using t(1) by (simp_all add: char_at_or_space_def OBS_VALUE_WIDTH_def nth_append)
  have push: "push_byte_char lli @ push_byte_char ssi = [lli, ssi]"
    using assms(4) by (simp add: push_byte_char_def ascii_char_utf8)
  show ?thesis
  proof (cases ob)
    case None
    have "str_trim (value_text ob) = []"
      using t(2) blanks_are_spaces byte_trim_empty by (simp add: None value_text_def)
    then show ?thesis
      unfolding read_obs_field_def Let_def field chars push using assms(5) None by auto
  next
    case (Some v)
    have "str_trim (value_text ob) \<noteq> []" "parse_scaled_decimal (value_text ob) 3 ''observation'' = Inr v"
      using value_bytes(4,5) assms(1) fits_columns_64 [of 14 v]
      by (simp_all add: Some value_text_def value_fits_def OBS_VALUE_WIDTH_def del: ascii_trim)
    then show ?thesis
      unfolding read_obs_field_def Let_def field chars push using Some by simp
  qed
qed

lemma pairs_concat: "length flags = 2 * n \<Longrightarrow> concat (map (\<lambda>i. [flags ! (2 * i), flags ! (2 * i + 1)]) [0..<n]) = flags"
proof (induction n arbitrary: flags)
  case (Suc n)
  then obtain a b rest where flags: "flags = a # b # rest"
    by (cases flags; cases "tl flags") auto
  have "[0..<Suc n] = 0 # map Suc [0..<n]" by (simp add: upt_conv_Cons map_Suc_upt)
  then show ?case using Suc.IH [of rest] Suc.prems by (simp add: flags o_def)
qed simp

lemma read_fields_collect:
  assumes "\<forall>i<n. f i = Inr (vals ! i, [flags ! (2 * i), flags ! (2 * i + 1)])" and "length vals = n" and "length flags = 2 * n"
  shows "read_obs_fields f [0..<n] = Inr (vals, flags)"
proof -
  have "read_obs_fields f ks = Inr (map ((!) vals) ks, concat (map (\<lambda>i. [flags ! (2 * i), flags ! (2 * i + 1)]) ks))"
    if "\<forall>k\<in>set ks. k < n" for ks
    using that assms(1) by (induction ks) auto
  from this [of "[0..<n]"] show ?thesis
    using pairs_concat [OF assms(3)] assms(2) map_nth [of vals] by simp
qed

text \<open>The sixteen columns of each observation.\<close>

definition obs_blocks :: "int option list \<Rightarrow> u8 list \<Rightarrow> rust_str list" where
  "obs_blocks vals flags = map (\<lambda>i. value_text (vals ! i) @ [flags ! (2 * i), flags ! (2 * i + 1)]) [0..<length vals]"

definition sat_fits :: "int option list \<Rightarrow> u8 list \<Rightarrow> bool" where
  "sat_fits vals flags \<longleftrightarrow> list_all value_fits vals \<and> clean_line flags \<and> length flags = 2 * length vals"

lemma obs_blocks_nth:
  "i < length vals \<Longrightarrow> obs_blocks vals flags ! i = value_text (vals ! i) @ [flags ! (2 * i), flags ! (2 * i + 1)]"
  "length (obs_blocks vals flags) = length vals"
  by (simp_all add: obs_blocks_def)

lemma obs_blocks_fit:
  assumes "sat_fits vals flags" and "b \<in> set (obs_blocks vals flags)"
  shows "length b = 16" "clean_line b"
proof -
  from assms(2) obtain i where i: "i < length vals" and b: "b = value_text (vals ! i) @ [flags ! (2 * i), flags ! (2 * i + 1)]"
    by (auto simp: obs_blocks_def)
  have "value_fits (vals ! i)" using assms(1) i by (simp add: sat_fits_def list_all_length)
  note t = value_text_fits [OF this]
  have "\<forall>j<length flags. flags ! j < 0x80 \<and> flags ! j \<noteq> 0x0A \<and> flags ! j \<noteq> 0x0D"
    using assms(1) by (simp add: sat_fits_def clean_line_def list_all_length)
  then show "length b = 16" "clean_line b" using t i assms(1) by (simp_all add: b sat_fits_def)
qed

lemma read_nth_block:
  assumes fit: "sat_fits vals flags" and i: "i < length vals" and pre: "clean_line pre" and rest: "clean_line rest"
    and blanked: "\<not> fb \<Longrightarrow> vals ! i = None \<Longrightarrow> flags ! (2 * i) = blank \<and> flags ! (2 * i + 1) = blank"
  shows "read_obs_field (pre @ obs_blocks vals flags ! i @ rest) (length pre) fb
    = Inr (vals ! i, [flags ! (2 * i), flags ! (2 * i + 1)])"
proof -
  have "value_fits (vals ! i)" using fit i by (simp add: sat_fits_def list_all_length)
  moreover have "clean_line (obs_blocks vals flags ! i)"
    using obs_blocks_fit(2) [OF fit] i by (simp add: obs_blocks_nth(2))
  then have "clean_line [flags ! (2 * i), flags ! (2 * i + 1)]" using i by (simp add: obs_blocks_nth)
  ultimately show ?thesis
    unfolding obs_blocks_nth(1) [OF i] by (intro read_block) (use pre rest blanked in auto)
qed

section \<open>Satellites of RINEX 3\<close>

lemma clean_flag_at: "clean_line flags \<Longrightarrow> push_byte_char (flag_at flags i) = [flag_at flags i]"
  by (simp add: push_byte_char_def ascii_char_utf8 flag_at_def clean_line_def list_all_length)

lemma sat_fields_v3_blocks:
  "clean_line flags \<Longrightarrow> sat_fields_v3 i vals flags =
     concat (map (\<lambda>j. value_text (vals ! j) @ [flag_at flags (2 * (i + j)), flag_at flags (2 * (i + j) + 1)]) [0..<length vals])"
proof (induction vals arbitrary: i)
  case (Cons ob vals)
  have "[0..<length (ob # vals)] = 0 # map Suc [0..<length vals]" by (simp add: upt_conv_Cons map_Suc_upt del: upt_Suc)
  then show ?case
    using Cons.IH [of "Suc i"] Cons.prems clean_flag_at [of flags]
    by (simp add: o_def mult.commute)
qed simp

lemma sat_fields_v3_fit:
  assumes "sat_fits vals flags"
  shows "sat_fields_v3 0 vals flags = concat (obs_blocks vals flags)"
proof -
  have "map (\<lambda>j. value_text (vals ! j) @ [flag_at flags (2 * (0 + j)), flag_at flags (2 * (0 + j) + 1)]) [0..<length vals]
      = obs_blocks vals flags"
    using assms by (simp add: obs_blocks_def flag_at_def sat_fits_def)
  then show ?thesis using sat_fields_v3_blocks [of flags 0 vals] assms by (simp add: sat_fits_def)
qed

lemma concat_at: "i < length xs \<Longrightarrow> concat xs = concat (take i xs) @ xs ! i @ concat (drop (Suc i) xs)"
  by (metis concat.simps(2) concat_append id_take_nth_drop)

lemma length_concat_uniform: "\<forall>x\<in>set xs. length x = k \<Longrightarrow> length (concat xs) = k * length xs"
  by (induction xs) simp_all

lemma clean_concat: "clean_line (concat xs) \<longleftrightarrow> (\<forall>x\<in>set xs. clean_line x)"
  by (induction xs) simp_all

definition flags_beside :: "bool \<Rightarrow> int option list \<Rightarrow> u8 list \<Rightarrow> bool" where
  "flags_beside fb vals flags \<longleftrightarrow>
     (\<not> fb \<longrightarrow> (\<forall>i<length vals. vals ! i = None \<longrightarrow> flags ! (2 * i) = blank \<and> flags ! (2 * i + 1) = blank))"

lemma read_concat_block:
  assumes fit: "sat_fits vals flags" and i: "i < length bs" and bs: "bs = take m (drop k (obs_blocks vals flags))"
    and pre: "clean_line pre" and beside: "flags_beside fb vals flags"
  shows "read_obs_field (trim_blanks (pre @ concat bs)) (length pre + 16 * i) fb
    = Inr (vals ! (k + i), [flags ! (2 * (k + i)), flags ! (2 * (k + i) + 1)])"
proof -
  have sub: "set bs \<subseteq> set (obs_blocks vals flags)" unfolding bs by (meson in_set_dropD in_set_takeD subsetI)
  then have fits: "\<forall>b\<in>set bs. length b = 16" "\<forall>b\<in>set bs. clean_line b"
    using obs_blocks_fit [OF fit] by blast+
  have clean: "clean_line (concat bs)" using fits(2) by (simp add: clean_concat)
  have lens: "length (concat (take i bs)) = 16 * i"
    using length_concat_uniform [of "take i bs" 16] fits(1) i by (auto dest: in_set_takeD)
  have ki: "k + i < length vals" using i unfolding bs by (simp add: obs_blocks_nth(2)) linarith
  have "k \<le> length (obs_blocks vals flags)" using ki by (simp add: obs_blocks_nth(2))
  then have nth: "bs ! i = obs_blocks vals flags ! (k + i)" using i by (simp add: bs)
  have split: "pre @ concat bs = (pre @ concat (take i bs)) @ obs_blocks vals flags ! (k + i) @ concat (drop (Suc i) bs)"
    using concat_at [OF i] nth by simp
  have blanked: "\<not> fb \<Longrightarrow> vals ! (k + i) = None \<Longrightarrow> flags ! (2 * (k + i)) = blank \<and> flags ! (2 * (k + i) + 1) = blank"
    using beside ki unfolding flags_beside_def by blast
  have "clean_line (pre @ concat (take i bs))" "clean_line (concat (drop (Suc i) bs))"
    using pre fits(2) by (auto simp: clean_concat dest: in_set_takeD in_set_dropD)
  then have "read_obs_field (pre @ concat bs) (length (pre @ concat (take i bs))) fb
    = Inr (vals ! (k + i), [flags ! (2 * (k + i)), flags ! (2 * (k + i) + 1)])"
    unfolding split by (rule read_nth_block [OF fit ki _ _ blanked])
  then have "read_obs_field (pre @ concat bs) (length pre + 16 * i) fb
    = Inr (vals ! (k + i), [flags ! (2 * (k + i)), flags ! (2 * (k + i) + 1)])"
    by (simp add: lens)
  then show ?thesis using pre clean by (intro trimmed_line_obs_field) simp_all
qed

lemma sat_obs_v3_back:
  assumes "sat_fits vals flags" and "clean_line sv" and "length sv = 3"
  shows "parse_sat_obs_v3 (trim_blanks (format_sat_line sv vals flags)) (length vals) = Inr (vals, flags)"
  unfolding parse_sat_obs_v3_def
proof (rule read_fields_collect)
  let ?bs = "obs_blocks vals flags"
  have bs: "?bs = take (length ?bs) (drop 0 ?bs)" by simp
  have "flags_beside True vals flags" by (simp add: flags_beside_def)
  from read_concat_block [OF assms(1) _ bs assms(2) this]
  show "\<forall>i<length vals. read_obs_field (trim_blanks (format_sat_line sv vals flags)) (3 + i * OBS_FIELD_WIDTH) True
      = Inr (vals ! i, [flags ! (2 * i), flags ! (2 * i + 1)])"
    using assms(3) by (simp add: format_sat_line_def sat_fields_v3_fit [OF assms(1)] obs_blocks_nth(2)
        OBS_FIELD_WIDTH_def mult.commute)
  show "length flags = 2 * length vals" using assms(1) by (simp add: sat_fits_def)
qed simp

lemma trimmed_prefix:
  assumes "0 < n" and "n \<le> length l" and "l ! (n - 1) \<noteq> blank"
  shows "take n (trim_blanks l) = take n l"
proof -
  obtain k where k: "l = trim_blanks l @ replicate k blank" using trim_blanks_split by blast
  have "n \<le> length (trim_blanks l)"
  proof (rule ccontr)
    assume "\<not> n \<le> length (trim_blanks l)"
    moreover have "length l = length (trim_blanks l) + k" by (subst k) simp
    ultimately have "length (trim_blanks l) \<le> n - 1" "n - 1 - length (trim_blanks l) < k"
      using assms(1,2) by linarith+
    then have "(trim_blanks l @ replicate k blank) ! (n - 1) = blank" by (simp only: nth_append) simp
    then have "l ! (n - 1) = blank" using k by simp
    with assms(3) show False by simp
  qed
  then show ?thesis by (subst (2) k) simp
qed

text \<open>A satellite token keeps its place on a trimmed line: its last column is not blank.\<close>

definition sv_placed :: "rust_str \<Rightarrow> bool" where
  "sv_placed sv \<longleftrightarrow> length sv = 3 \<and> clean_line sv \<and> sv ! 2 \<noteq> blank"

definition sat_placed :: "sat_record \<Rightarrow> bool" where
  "sat_placed sat \<longleftrightarrow> sv_placed (sat_sv sat) \<and> sat_fits (sat_values sat) (sat_flags sat)"

lemma format_sat_line_clean:
  "sat_placed sat \<Longrightarrow> clean_line (format_sat_line (sat_sv sat) (sat_values sat) (sat_flags sat))"
  using obs_blocks_fit(2) [of "sat_values sat" "sat_flags sat"]
  by (simp add: sat_placed_def sv_placed_def format_sat_line_def sat_fields_v3_fit clean_concat)

definition rinex_line_v3 :: "sat_record \<Rightarrow> rust_str" where
  "rinex_line_v3 sat = trim_blanks (format_sat_line (sat_sv sat) (sat_values sat) (sat_flags sat))"

lemma rinex_sats_v3_back:
  assumes "list_all sat_placed sats"
    and "\<forall>sat\<in>set sats. obs_count_for d (sat_sv sat) = Inr (length (sat_values sat))"
  shows "rinex_sats_v3 d (length sats) (map rinex_line_v3 sats @ rest) = Inr (sats, rest)"
  using assms
proof (induction sats)
  case (Cons sat sats)
  let ?full = "format_sat_line (sat_sv sat) (sat_values sat) (sat_flags sat)"
  have sat: "sat_placed sat" using Cons.prems(1) by simp
  then have sv: "length (sat_sv sat) = 3" "clean_line (sat_sv sat)" "sat_sv sat ! 2 \<noteq> blank"
    and fit: "sat_fits (sat_values sat) (sat_flags sat)"
    by (simp_all add: sat_placed_def sv_placed_def)
  have clean: "clean_line ?full" by (rule format_sat_line_clean [OF sat])
  have "take 3 (trim_blanks ?full) = take 3 ?full"
    using sv by (intro trimmed_prefix) (simp_all add: format_sat_line_def nth_append)
  then have "raw_field (rinex_line_v3 sat) 0 3 = sat_sv sat"
    using sv(1) clean by (simp add: rinex_line_v3_def format_sat_line_def)
  moreover have "parse_sat_obs_v3 (rinex_line_v3 sat) (length (sat_values sat)) = Inr (sat_values sat, sat_flags sat)"
    unfolding rinex_line_v3_def by (rule sat_obs_v3_back [OF fit sv(2,1)])
  moreover have "trim_eol (rinex_line_v3 sat) = rinex_line_v3 sat" using clean by (simp add: rinex_line_v3_def)
  ultimately show ?case using Cons.IH Cons.prems by (simp add: Let_def)
qed simp

section \<open>Rows of fields\<close>

function in_rows :: "nat \<Rightarrow> 'a list \<Rightarrow> 'a list list" where
  "in_rows k xs = (if xs = [] \<or> k = 0 then [] else take k xs # in_rows k (drop k xs))"
  by pat_completeness auto
termination
  by (relation "measure (length \<circ> snd)") auto

declare in_rows.simps [simp del]

lemma in_rows_Nil [simp]: "in_rows k [] = []"
  by (simp add: in_rows.simps)

lemma in_rows_Cons: "xs \<noteq> [] \<Longrightarrow> 0 < k \<Longrightarrow> in_rows k xs = take k xs # in_rows k (drop k xs)"
  by (subst in_rows.simps) simp

lemma in_rows_length: "0 < k \<Longrightarrow> length (in_rows k xs) = (length xs + (k - 1)) div k"
proof (induction k xs rule: in_rows.induct)
  case (1 k xs)
  show ?case
  proof (cases "xs = []")
    case False
    then have "length (in_rows k xs) = Suc ((length xs - k + (k - 1)) div k)"
      using 1 by (simp add: in_rows_Cons)
    also have "\<dots> = (length xs + (k - 1)) div k"
    proof (cases "k \<le> length xs")
      case True
      then have "length xs + (k - 1) = (length xs - k + (k - 1)) + k" by simp
      then show ?thesis using "1.prems" by (simp only: div_add_self2)
    next
      case small: False
      moreover have "length xs + (k - 1) = (length xs - 1) + k" using False "1.prems" by (cases xs) auto
      ultimately show ?thesis using "1.prems" by (simp only: div_add_self2) simp
    qed
    finally show ?thesis .
  qed (use "1.prems" in simp)
qed

lemma in_rows_nth: "0 < k \<Longrightarrow> i < length (in_rows k xs) \<Longrightarrow> in_rows k xs ! i = take k (drop (k * i) xs)"
proof (induction k xs arbitrary: i rule: in_rows.induct)
  case (1 k xs)
  show ?case
  proof (cases i)
    case 0
    then show ?thesis using "1.prems" by (cases "xs = []") (simp_all add: in_rows_Cons)
  next
    case (Suc j)
    then have xs: "xs \<noteq> []" using "1.prems" by auto
    then have "j < length (in_rows k (drop k xs))" using "1.prems" Suc by (simp add: in_rows_Cons)
    then have "in_rows k (drop k xs) ! j = take k (drop (k * j) (drop k xs))" using "1.IH" xs "1.prems"(1) by simp
    then show ?thesis using xs "1.prems"(1) by (simp add: in_rows_Cons Suc add.commute)
  qed
qed

lemma in_rows_clean: "\<forall>b\<in>set bs. clean_line b \<Longrightarrow> \<forall>c\<in>set (in_rows k bs). clean_line (concat c)"
proof (induction k bs rule: in_rows.induct)
  case (1 k bs)
  then show ?case
    by (cases "bs = [] \<or> k = 0")
      (auto simp: in_rows.simps [of k bs] clean_concat dest: in_set_takeD in_set_dropD)
qed

section \<open>Satellites of RINEX 2\<close>

lemma sv_continuations_rows: "sv_continuations svs = map (\<lambda>c. replicate 32 blank @ concat c) (in_rows 12 svs)"
proof (induction svs rule: sv_continuations.induct)
  case (1 svs)
  then show ?case
    by (cases "svs = []") (simp_all add: sv_continuations.simps [of svs] sv_continuations.simps [of "[]"] in_rows_Cons)
qed

definition block_of :: "int option \<Rightarrow> u8 list \<Rightarrow> nat \<Rightarrow> rust_str" where
  "block_of ob flags i = value_text ob @
     (if ob \<noteq> None then push_byte_char (flag_at flags (i * 2)) @ push_byte_char (flag_at flags (i * 2 + 1)) else [blank, blank])"

lemma sat_lines_v1_step:
  "sat_lines_v1 i line (ob # vals) flags =
     (if i > 0 \<and> i mod 5 = 0 then line # sat_lines_v1 (Suc i) (block_of ob flags i) vals flags
      else sat_lines_v1 (Suc i) (line @ block_of ob flags i) vals flags)"
  by (simp add: Let_def block_of_def)

lemma sat_lines_v1_rows:
  assumes "length cur = (if i = 0 then 0 else (i - 1) mod 5 + 1)" and "cur \<noteq> [] \<or> vals \<noteq> []"
  shows "sat_lines_v1 i (concat cur) vals flags =
    map concat (in_rows 5 (cur @ map (\<lambda>j. block_of (vals ! j) flags (i + j)) [0..<length vals]))"
  using assms
proof (induction vals arbitrary: i cur)
  case Nil
  have "(i - 1) mod 5 < 5" by simp
  then have "length cur \<le> 5" using Nil.prems(1) by (cases "i = 0") simp_all
  then show ?case using Nil.prems(2) by (simp add: in_rows_Cons)
next
  case (Cons ob vals)
  let ?later = "map (\<lambda>j. block_of (vals ! j) flags (Suc i + j)) [0..<length vals]"
  have range: "[0..<length (ob # vals)] = 0 # map Suc [0..<length vals]" by (simp add: upt_conv_Cons map_Suc_upt del: upt_Suc)
  have blocks: "map (\<lambda>j. block_of ((ob # vals) ! j) flags (i + j)) [0..<length (ob # vals)] = block_of ob flags i # ?later"
    unfolding range by (simp add: o_def)
  show ?case
  proof (cases "i > 0 \<and> i mod 5 = 0")
    case True
    then have five: "length cur = 5" using Cons.prems(1) by (cases i) (auto simp: mod_Suc split: if_splits)
    have "length [block_of ob flags i] = (if Suc i = 0 then 0 else (Suc i - 1) mod 5 + 1)" using True by simp
    from Cons.IH [OF this] have "sat_lines_v1 (Suc i) (block_of ob flags i) vals flags
        = map concat (in_rows 5 (block_of ob flags i # ?later))"
      by simp
    moreover have "in_rows 5 (cur @ block_of ob flags i # ?later) = cur # in_rows 5 (block_of ob flags i # ?later)"
      using five by (simp add: in_rows_Cons)
    ultimately show ?thesis unfolding blocks sat_lines_v1_step using True by simp
  next
    case False
    have "length (cur @ [block_of ob flags i]) = (if Suc i = 0 then 0 else (Suc i - 1) mod 5 + 1)"
      using False Cons.prems(1) by (cases i) (auto simp: mod_Suc split: if_splits)
    from Cons.IH [OF this] show ?thesis unfolding blocks sat_lines_v1_step if_not_P [OF False] by simp
  qed
qed

lemma format_sat_lines_v1_rows:
  assumes "sat_fits vals flags" and "flags_beside False vals flags" and "vals \<noteq> []"
  shows "format_sat_lines_v1 vals flags = map concat (in_rows 5 (obs_blocks vals flags))"
proof -
  have push: "push_byte_char (flag_at flags m) = [flags ! m]" if "m < length flags" for m
    using that clean_flag_at [of flags m] assms(1) by (simp add: flag_at_def sat_fits_def)
  have "block_of (vals ! j) flags j = obs_blocks vals flags ! j" if "j < length vals" for j
    using that assms(1,2) push [of "j * 2"] push [of "j * 2 + 1"]
    by (auto simp: block_of_def obs_blocks_nth sat_fits_def flags_beside_def mult.commute)
  then have "map (\<lambda>j. block_of (vals ! j) flags (0 + j)) [0..<length vals] = obs_blocks vals flags"
    by (intro nth_equalityI) (simp_all add: obs_blocks_nth(2))
  then show ?thesis
    using sat_lines_v1_rows [of "[]" 0 vals flags] assms(3) by (simp add: format_sat_lines_v1_def)
qed

lemma sat_obs_v1_back:
  assumes "sat_fits vals flags" and "flags_beside False vals flags" and "vals \<noteq> []"
  shows "parse_sat_obs_v1 (map trim_blanks (format_sat_lines_v1 vals flags)) (length vals) = Inr (vals, flags)"
    "length (format_sat_lines_v1 vals flags) = (length vals + 4) div 5"
proof -
  let ?bs = "obs_blocks vals flags" and ?rows = "in_rows 5 (obs_blocks vals flags)"
  note rows = format_sat_lines_v1_rows [OF assms]
  show "length (format_sat_lines_v1 vals flags) = (length vals + 4) div 5"
    by (simp add: rows in_rows_length obs_blocks_nth(2))
  have "read_obs_field (if i div 5 < length ?rows then trim_blanks (concat (?rows ! (i div 5))) else []) ((i mod 5) * 16) False
      = Inr (vals ! i, [flags ! (2 * i), flags ! (2 * i + 1)])" if i: "i < length vals" for i
  proof -
    have row: "i div 5 < length ?rows" using i by (simp add: in_rows_length obs_blocks_nth(2))
    have bs: "?rows ! (i div 5) = take 5 (drop (5 * (i div 5)) ?bs)" using row by (intro in_rows_nth) simp_all
    have "i mod 5 < length vals - 5 * (i div 5)" using i mod_mult_div_eq [of i 5] by linarith
    then have "i mod 5 < length (take 5 (drop (5 * (i div 5)) ?bs))" by (simp add: obs_blocks_nth(2))
    from read_concat_block [OF assms(1) this refl _ assms(2), of "[]"] row bs
    show ?thesis by (simp add: mult.commute)
  qed
  then show "parse_sat_obs_v1 (map trim_blanks (format_sat_lines_v1 vals flags)) (length vals) = Inr (vals, flags)"
    unfolding parse_sat_obs_v1_def rows using assms(1)
    by (intro read_fields_collect) (simp_all add: OBS_FIELD_WIDTH_def sat_fits_def cong: if_cong)
qed

lemma collect_svs_back:
  assumes "list_all sv_placed svs" and "length pre = 32" and "clean_line pre" and "clean_line rest"
  shows "collect_sv_tokens_v1 (trim_blanks (pre @ concat svs @ rest)) (length svs) = svs"
proof (rule nth_equalityI)
  let ?full = "pre @ concat svs @ rest"
  have three: "\<forall>s\<in>set svs. length s = 3" using assms(1) by (simp add: list_all_iff sv_placed_def)
  have clean: "clean_line ?full" using assms by (simp add: clean_concat list_all_iff sv_placed_def)
  fix i assume "i < length (collect_sv_tokens_v1 (trim_blanks ?full) (length svs))"
  then have i: "i < length svs" by (simp add: collect_sv_tokens_v1_def)
  have split: "concat svs = concat (take i svs) @ svs ! i @ concat (drop (Suc i) svs)" by (rule concat_at [OF i])
  have "\<forall>s\<in>set (take i svs). length s = 3" using three by (meson in_set_takeD)
  then have lens: "length (concat (take i svs)) = i * 3"
    using length_concat_uniform [of "take i svs" 3] i by simp
  have sv: "length (svs ! i) = 3" "svs ! i ! 2 \<noteq> blank" using assms(1) i by (simp_all add: list_all_length sv_placed_def)
  have at: "?full ! (32 + i * 3 + 3 - 1) = svs ! i ! 2"
    unfolding split using lens sv(1) assms(2) by (simp add: nth_append)
  have "take (32 + i * 3 + 3) (trim_blanks ?full) = take (32 + i * 3 + 3) ?full"
    using at sv lens assms(2) by (intro trimmed_prefix) (simp_all add: split)
  then have "raw_field (trim_blanks ?full) (32 + i * 3) (32 + i * 3 + 3) = drop (32 + i * 3) (take (32 + i * 3 + 3) ?full)"
    using clean by simp
  also have "\<dots> = svs ! i" unfolding split using lens sv(1) assms(2) by simp
  finally show "collect_sv_tokens_v1 (trim_blanks ?full) (length svs) ! i = svs ! i"
    using i by (simp add: collect_sv_tokens_v1_def)
qed (simp add: collect_sv_tokens_v1_def)

lemma continuations_back:
  assumes "list_all sv_placed later"
  shows "rinex_svs_v1 (length (before @ later)) before (map trim_blanks (sv_continuations later) @ rest) = Inr (before @ later, rest)"
  using assms
proof (induction later arbitrary: before rule: sv_continuations.induct)
  case (1 later)
  show ?case
  proof (cases "later = []")
    case True
    then show ?thesis by (subst rinex_svs_v1.simps) (simp add: sv_continuations.simps [of "[]"])
  next
    case False
    let ?line = "replicate 32 blank @ concat (take 12 later)"
    have now: "list_all sv_placed (take 12 later)" and then_: "list_all sv_placed (drop 12 later)"
      using "1.prems" by (auto simp: list_all_iff dest: in_set_takeD in_set_dropD)
    have "clean_line ?line" using now by (simp add: clean_concat list_all_iff sv_placed_def)
    moreover have "collect_sv_tokens_v1 (trim_blanks (?line @ [])) (length (take 12 later)) = take 12 later"
      using collect_svs_back [OF now, of "replicate 32 blank" "[]"] by simp
    ultimately have tokens: "collect_sv_tokens_v1 (trim_eol (trim_blanks ?line)) (min (length (before @ later) - length before) 12)
        = take 12 later"
      by (simp add: min.commute)
    have "rinex_svs_v1 (length ((before @ take 12 later) @ drop 12 later)) (before @ take 12 later)
        (map trim_blanks (sv_continuations (drop 12 later)) @ rest) = Inr ((before @ take 12 later) @ drop 12 later, rest)"
      using "1.IH" [OF False then_] .
    then show ?thesis
      using False tokens
      by (subst rinex_svs_v1.simps) (simp add: sv_continuations.simps [of later])
  qed
qed

lemma take_obs_lines_back:
  "\<forall>l\<in>set taken. clean_line l \<Longrightarrow> take_obs_lines (length taken) (taken @ rest) = Inr (taken, rest)"
  by (induction taken) simp_all

definition rinex_lines_v1 :: "sat_record \<Rightarrow> rust_str list" where
  "rinex_lines_v1 sat = map trim_blanks (format_sat_lines_v1 (sat_values sat) (sat_flags sat))"

definition sat_beside :: "sat_record \<Rightarrow> bool" where
  "sat_beside sat \<longleftrightarrow> flags_beside False (sat_values sat) (sat_flags sat) \<and> sat_values sat \<noteq> []"

lemma rinex_lines_v1_clean:
  assumes "sat_placed sat" and "sat_beside sat"
  shows "\<forall>l\<in>set (rinex_lines_v1 sat). clean_line l"
proof -
  have fit: "sat_fits (sat_values sat) (sat_flags sat)" and beside: "flags_beside False (sat_values sat) (sat_flags sat)"
    and some: "sat_values sat \<noteq> []"
    using assms by (simp_all add: sat_placed_def sat_beside_def)
  have "\<forall>b\<in>set (obs_blocks (sat_values sat) (sat_flags sat)). clean_line b" using obs_blocks_fit(2) [OF fit] by blast
  then have "\<forall>c\<in>set (in_rows 5 (obs_blocks (sat_values sat) (sat_flags sat))). clean_line (concat c)"
    by (rule in_rows_clean)
  then show ?thesis by (auto simp: rinex_lines_v1_def format_sat_lines_v1_rows [OF fit beside some])
qed

lemma rinex_sats_v1_back:
  assumes "list_all sat_placed sats" and "list_all sat_beside sats"
    and "\<forall>sat\<in>set sats. obs_count_for d (sat_sv sat) = Inr (length (sat_values sat))"
  shows "rinex_sats_v1 d (map sat_sv sats) (concat (map rinex_lines_v1 sats) @ rest) = Inr (sats, rest)"
  using assms
proof (induction sats)
  case (Cons sat sats)
  have fit: "sat_fits (sat_values sat) (sat_flags sat)" and beside: "flags_beside False (sat_values sat) (sat_flags sat)"
    and some: "sat_values sat \<noteq> []"
    using Cons.prems by (simp_all add: sat_placed_def sat_beside_def)
  note row = sat_obs_v1_back [OF fit beside some]
  have "\<forall>l\<in>set (rinex_lines_v1 sat). clean_line l" using Cons.prems by (intro rinex_lines_v1_clean) simp_all
  then have "take_obs_lines ((length (sat_values sat) + 4) div 5) (rinex_lines_v1 sat @ concat (map rinex_lines_v1 sats) @ rest)
      = Inr (rinex_lines_v1 sat, concat (map rinex_lines_v1 sats) @ rest)"
    using take_obs_lines_back [of "rinex_lines_v1 sat"] row(2) by (simp add: rinex_lines_v1_def)
  moreover have "parse_sat_obs_v1 (rinex_lines_v1 sat) (length (sat_values sat)) = Inr (sat_values sat, sat_flags sat)"
    unfolding rinex_lines_v1_def by (rule row(1))
  ultimately show ?case using Cons.IH Cons.prems by simp
qed simp

section \<open>Epoch lines\<close>

lemma trimmed_clock_field:
  assumes "clean_line l" and "parse_clock_field l a b decimals name = Inr c"
  shows "parse_clock_field (trim_blanks l) a b decimals name = Inr c"
proof -
  obtain k where k: "l = trim_blanks l @ replicate k blank" using trim_blanks_split by blast
  then have "clean_line (trim_blanks l @ replicate k blank)" using assms(1) by simp
  from trimmed_field [OF this, of a b] have same: "str_trim (raw_field (trim_blanks l) a b) = str_trim (raw_field l a b)"
    by (simp flip: k)
  show ?thesis
    using assms(2) scaled_decimal_text [OF same]
    unfolding parse_clock_field_def Let_def same by (auto split: if_splits)
qed

lemma trimmed_line_int_field:
  assumes "clean_line l" and "strict_int_field parse l a b name = Inr n"
  shows "strict_int_field parse (trim_blanks l) a b name = Inr n"
proof -
  obtain k where k: "l = trim_blanks l @ replicate k blank" using trim_blanks_split by blast
  then show ?thesis using trimmed_int_field [of "trim_blanks l" k] assms by metis
qed

lemma trimmed_tail:
  assumes "clean_line l"
  shows "str_trim (raw_field_from (trim_blanks l) a) = str_trim (raw_field_from l a)"
proof -
  obtain k where k: "l = trim_blanks l @ replicate k blank" using trim_blanks_split by blast
  have "drop a l = drop a (trim_blanks l) @ replicate (k - (a - length (trim_blanks l))) blank"
    by (subst k) simp
  then show ?thesis using assms byte_trim_spaces [OF blanks_are_spaces] by simp
qed

lemma pad_trimmed: "n \<le> m \<Longrightarrow> pad_to (take n (trim_blanks l)) m = pad_to (take n l) m"
proof -
  assume n: "n \<le> m"
  obtain k where k: "l = trim_blanks l @ replicate k blank" using trim_blanks_split by blast
  have pad: "pad_to (x @ replicate j blank) m = pad_to x m" if "length x + j \<le> m" for x j
  proof -
    have "m - length x = j + (m - (length x + j))" using that by simp
    then have "replicate (m - length x) blank = replicate j blank @ replicate (m - (length x + j)) blank"
      by (metis replicate_add)
    then show ?thesis by (simp add: pad_to_def)
  qed
  have "take n l = take n (trim_blanks l) @ replicate (min (n - length (trim_blanks l)) k) blank"
    by (subst k) simp
  then show ?thesis using pad n by (simp add: min_def)
qed

lemma same_columns:
  assumes "clean_line l" and "clean_line m" and "take b l = take b m"
  shows "strict_int_field parse l a b name = Inr n \<Longrightarrow> strict_int_field parse m a b name = Inr n"
  using assms by (auto simp: strict_int_field_def strict_int_token_def Let_def split: if_splits option.splits)

text \<open>
  The epochs the RINEX text keeps: the descriptor the reader rebuilds, values and clocks within their
  columns, satellite tokens that end in their last column, event lines without trailing blanks.
\<close>

definition clock_fits :: "int option \<Rightarrow> nat \<Rightarrow> bool" where
  "clock_fits clock width = (case clock of None \<Rightarrow> True | Some v \<Rightarrow> fits_columns width v)"

definition rebuilt :: "crinex_version \<Rightarrow> obs_epoch \<Rightarrow> bool" where
  "rebuilt version r \<longleftrightarrow>
     oe_descriptor r =
       (case version of V3 \<Rightarrow> build_descriptor_v3 (oe_descriptor r) (map sat_sv (oe_sats r))
        | V1 \<Rightarrow> build_descriptor_v1 (oe_descriptor r) (map sat_sv (oe_sats r)))"

definition epoch_placed :: "crinex_version \<Rightarrow> decoder \<Rightarrow> epoch_record \<Rightarrow> bool" where
  "epoch_placed version w item \<longleftrightarrow>
     (case item of
        EventRecord descriptor lines \<Rightarrow>
          trim_blanks descriptor = descriptor \<and>
          (version = V1 \<and> flag_of version descriptor = CYCLE_SLIP_FLAG \<longrightarrow>
             ensure_cycle_slip_epoch_fits_v1 w descriptor (length lines) = Inr ())
      | ObsRecord r \<Rightarrow>
          rebuilt version r \<and> list_all sat_placed (oe_sats r) \<and>
          (version = V1 \<longrightarrow> list_all sat_beside (oe_sats r)) \<and>
          (case version of V3 \<Rightarrow> clock_fits (oe_clock r) 15 | V1 \<Rightarrow> clock_fits (oe_clock r) 12))"

lemma head_columns:
  assumes "clean_line d" and "d = pad_to (take n d) m @ concat svs" and "n \<le> m"
  shows "n \<le> length d" "length (take n d) = n" "pad_to (take n d) m = take n d @ replicate (m - n) blank"
proof -
  have "m \<le> length (pad_to (take n d) m)" by (simp add: pad_to_def)
  then have "m \<le> length d" by (subst assms(2)) simp
  then show "n \<le> length d" using assms(3) by simp
  then show "length (take n d) = n" by simp
  then show "pad_to (take n d) m = take n d @ replicate (m - n) blank" by (simp only: pad_to_def)
qed

lemma blank_columns_trim: "str_trim (replicate m blank) = []"
proof -
  have "ascii (replicate m blank)" by (simp add: ascii_def list_all_iff blank_def)
  then show ?thesis using blanks_are_spaces [of m] by (simp add: byte_trim_empty)
qed

text \<open>The epoch line of RINEX 3 before its trailing blanks are removed.\<close>

definition epoch_line_v3 :: "rust_str \<Rightarrow> int option \<Rightarrow> rust_str option \<Rightarrow> rust_str" where
  "epoch_line_v3 head clock p =
     (if clock \<noteq> None \<or> p \<noteq> None
      then pad_to head 41 @ (case clock of None \<Rightarrow> replicate 15 blank | Some v \<Rightarrow> format_clock v 12 15)
      else head) @ (case p of Some q \<Rightarrow> blank # q | None \<Rightarrow> [])"

lemma epoch_line_v3_columns:
  assumes head: "length head = 35" "clean_line head" and clock: "clock_fits clock 15"
    and p: "picoseconds_typed V3 p" and on: "p \<noteq> None \<longrightarrow> dc_picoseconds d"
  shows "clean_line (epoch_line_v3 head clock p)" "take 35 (epoch_line_v3 head clock p) = head"
    "parse_clock_field (epoch_line_v3 head clock p) 41 56 12 ''v3.epoch.clock'' = Inr clock"
    "epoch_picoseconds d (trim_blanks (epoch_line_v3 head clock p)) = Inr p"
proof -
  define c where "c = (case clock of None \<Rightarrow> replicate 15 blank | Some v \<Rightarrow> format_clock v 12 15)"
  define q where "q = (case p of Some q \<Rightarrow> blank # q | None \<Rightarrow> [])"
  have c: "length c = 15" "clean_line c"
    using clock clock_bytes(1) [of 12 _ 15] clock_columns [of 12 15] by (auto simp: c_def clock_fits_def split: option.splits)
  have q: "clean_line q" using p held_digits(2) by (auto simp: q_def picoseconds_typed_def split: option.splits)
  have pad: "pad_to head 41 = head @ replicate 6 blank" by (simp add: pad_to_def head(1))
  let ?line = "epoch_line_v3 head clock p"
  have line: "?line = (if clock \<noteq> None \<or> p \<noteq> None then head @ replicate 6 blank @ c @ q else head)"
    by (simp add: epoch_line_v3_def pad c_def q_def)
  show clean: "clean_line ?line" using head c q by (simp add: line)
  show "take 35 ?line = head" by (simp add: line head(1))
  have timed: "raw_field ?line 41 56 = (if clock \<noteq> None \<or> p \<noteq> None then c else [])"
    using clean c(1) by (simp add: line head(1))
  have tail: "raw_field_from ?line 56 = (if clock \<noteq> None \<or> p \<noteq> None then q else [])"
    using clean c(1) by (simp add: line head(1))
  show "parse_clock_field ?line 41 56 12 ''v3.epoch.clock'' = Inr clock"
  proof (cases clock)
    case None
    have "str_trim (raw_field ?line 41 56) = []"
      unfolding timed using blank_columns_trim [of 15] blank_columns_trim [of 0] by (auto simp only: None c_def option.case replicate_0 split: if_split)
    then show ?thesis by (simp add: parse_clock_field_def None del: ascii_trim ascii_raw_field)
  next
    case (Some v)
    then have "\<bar>v\<bar> < 2 ^ 63" using clock fits_columns_64 [of 15 v] by (simp add: clock_fits_def)
    then show ?thesis
      using clock_bytes(4,5) [of 12 v 15] unfolding parse_clock_field_def Let_def timed
      by (simp add: Some c_def del: ascii_trim)
  qed
  show "epoch_picoseconds d (trim_blanks ?line) = Inr p"
  proof (cases p)
    case None
    have "str_trim (raw_field_from ?line 56) = []"
      unfolding tail using blank_columns_trim [of 0] by (simp only: q_def None option.case replicate_0 if_cancel)
    then have "str_trim (raw_field_from (trim_blanks ?line) 56) = []"
      using trimmed_tail [OF clean] by simp
    then show ?thesis by (simp add: epoch_picoseconds_def None del: ascii_trim)
  next
    case (Some ds)
    then have ds: "length ds = 5" "list_all byte_is_digit ds" using p by (simp_all add: picoseconds_typed_def)
    have whole: "?line = head @ replicate 6 blank @ c @ blank # ds" using line by (simp add: q_def Some)
    have asc: "ascii (head @ replicate 6 blank @ c @ blank # ds)" using clean unfolding whole by (simp add: clean_line_def)
    have "last ds \<in> set ds" using ds(1) by (intro last_in_set) auto
    then have "byte_is_digit (last ds)" using ds(2) by (simp add: list_all_iff)
    then have "last ?line \<noteq> blank" "?line \<noteq> []"
      unfolding whole using digit_clean [of "last ds"] ds(1) by (auto simp: blank_def)
    then have "trim_blanks ?line = ?line" by (intro trim_blanks_last)
    moreover have "raw_field_from ?line 56 = blank # ds" "raw_field ?line 57 62 = ds" "raw_field ?line 56 57 = [blank]"
      "raw_field_from ?line 62 = []"
      unfolding whole ascii_raw_field [OF asc] ascii_raw_field_from [OF asc] using c(1) ds(1) head(1) by simp_all
    moreover have "str_trim (blank # ds) \<noteq> []"
      using held_digits(2) [OF ds] digit_clean [of "hd ds"] ds by (cases ds) (auto simp: byte_trim_empty blank_def)
    ultimately show ?thesis
      using on ds blank_columns_trim [of 0]
      by (simp add: epoch_picoseconds_def Some del: ascii_trim ascii_raw_field ascii_raw_field_from)
  qed
qed

end
