(* ===== verification/Crinex_Rinex_Text.thy ===== *)
theory Crinex_Rinex_Text
  imports Crinex_Rinex_Back
begin

text \<open>
  The RINEX text of a stream reads back to the stream: the epochs of both revisions, the header, and
  the compressor on the decompressor's output.
\<close>

section \<open>Observation epochs of RINEX 3\<close>

lemma prefix_columns: "take n l = take n m \<Longrightarrow> k \<le> n \<Longrightarrow> take k l = take k m"
  by (metis min.absorb1 take_take)

lemma line_mark:
  assumes "take n line = take n descriptor" and "0 < n" and "descriptor \<noteq> []" and "hd descriptor \<noteq> blank"
  shows "trim_blanks line \<noteq> []" "hd (trim_blanks line) = hd descriptor"
proof -
  have one: "take 1 line = [hd descriptor]"
    using prefix_columns [OF assms(1), of 1] assms(2,3) by (cases descriptor) simp_all
  then have "line \<noteq> []" "line ! 0 = hd descriptor" by (cases line; simp)+
  then have "take 1 (trim_blanks line) = [hd descriptor]"
    using trimmed_prefix [of 1 line] assms(4) one by (cases line) simp_all
  then show "trim_blanks line \<noteq> []" "hd (trim_blanks line) = hd descriptor"
    by (cases "trim_blanks line"; simp)+
qed

lemma obs_epoch_v3_back:
  assumes typed: "epoch_typed V3 w (ObsRecord r)" and tidy: "epoch_tidy V3 (ObsRecord r)"
    and placed: "epoch_placed V3 w (ObsRecord r)" and counts: "dc_obs_count d = dc_obs_count w"
    and on: "oe_picoseconds r \<noteq> None \<longrightarrow> dc_picoseconds d"
  shows "\<exists>line. serialize_rinex_epoch V3 (ObsRecord r) = line # map rinex_line_v3 (oe_sats r) \<and>
    list_all clean_line (line # map rinex_line_v3 (oe_sats r)) \<and> line \<noteq> [] \<and>
    rinex_epoch V3 d line (map rinex_line_v3 (oe_sats r) @ rest) = Inr (d, rest, ObsRecord r)"
proof -
  let ?d = "oe_descriptor r" and ?head = "take 35 (oe_descriptor r)"
  let ?full = "epoch_line_v3 (take 35 (oe_descriptor r)) (oe_clock r) (oe_picoseconds r)"
  have clean: "clean_line ?d" and flag: "descriptor_flag V3 ?d = Inr (flag_of V3 ?d)" "flag_of V3 ?d \<le> 1"
    and count: "descriptor_count V3 ?d = Inr (length (oe_sats r))" and p: "picoseconds_typed V3 (oe_picoseconds r)"
    and sats: "list_all (sat_typed V3 w) (oe_sats r)"
    using typed by (simp_all add: epoch_typed_def)
  have mark: "?d \<noteq> []" "hd ?d = 0x3E" using tidy by (simp_all add: epoch_tidy_def marked_def)
  have clock: "clock_fits (oe_clock r) 15" and sat: "list_all sat_placed (oe_sats r)"
    and again: "?d = pad_to ?head 41 @ concat (map sat_sv (oe_sats r))"
    using placed clean by (simp_all add: epoch_placed_def rebuilt_def build_descriptor_v3_def clean_line_def)
  have head: "length ?head = 35" using head_columns(2) [OF clean again] by simp
  have "clean_line ?head" using clean by simp
  note full = epoch_line_v3_columns [OF head this clock p on]
  have flag': "strict_int_field parse_byte (trim_blanks ?full) 31 32 ''v3.epoch.flag'' = Inr (flag_of V3 ?d)"
    using flag(1) prefix_columns [OF full(2), of 32]
    by (intro trimmed_line_int_field [OF full(1)] same_columns [OF clean full(1)]) (simp_all add: descriptor_flag_def)
  have count': "strict_int_field parse_usize (trim_blanks ?full) 32 35 ''v3.epoch.satellite_count'' = Inr (length (oe_sats r))"
    using count full(2)
    by (intro trimmed_line_int_field [OF full(1)] same_columns [OF clean full(1)]) (simp_all add: descriptor_count_def)
  have built: "build_descriptor_v3 (trim_blanks ?full) (map sat_sv (oe_sats r)) = ?d"
    using full(1,2) again pad_trimmed [of 35 41 ?full] by (simp add: build_descriptor_v3_def)
  have "\<forall>sat\<in>set (oe_sats r). obs_count_for d (sat_sv sat) = Inr (length (sat_values sat))"
    using sats obs_count_for_cong [OF counts] by (simp add: list_all_iff sat_typed_def)
  note rows = rinex_sats_v3_back [OF sat this]
  have "take 35 ?full = take 35 ?d" by (rule full(2))
  from line_mark [OF this _ mark(1)] mark(2) have line: "trim_blanks ?full \<noteq> []" "hd (trim_blanks ?full) = 0x3E"
    by (simp_all add: blank_def)
  note timed = trimmed_clock_field [OF full(1,3)]
  have "rinex_epoch V3 d (trim_blanks ?full) (map rinex_line_v3 (oe_sats r) @ rest) = Inr (d, rest, ObsRecord r)"
    unfolding rinex_epoch_def crinex_version.case rinex_epoch_v3_def
    using line flag' flag(2) count' timed full(4) rows built by (cases r) simp
  moreover have "serialize_rinex_epoch V3 (ObsRecord r) = trim_blanks ?full # map rinex_line_v3 (oe_sats r)"
    using clean by (auto simp: serialize_rinex_epoch_def serialize_rinex_epoch_v3_def epoch_line_v3_def rinex_line_v3_def
        split: option.split)
  moreover have "list_all clean_line (map rinex_line_v3 (oe_sats r))"
    using sat format_sat_line_clean by (auto simp: list_all_iff rinex_line_v3_def)
  ultimately show ?thesis using line(1) full(1) by fastforce
qed

section \<open>Observation epochs of RINEX 2\<close>

lemma int_field_nonempty: "strict_int_field parse l a b name = Inr n \<Longrightarrow> l \<noteq> []"
proof
  assume read: "strict_int_field parse l a b name = Inr n" and "l = []"
  moreover have "str_trim [] = []" using blank_columns_trim [of 0] by simp
  ultimately show False by (simp add: strict_int_field_def strict_int_token_def Let_def)
qed

definition epoch_line_v1 :: "rust_str \<Rightarrow> rust_str list \<Rightarrow> int option \<Rightarrow> rust_str" where
  "epoch_line_v1 head svs clock =
     head @ concat svs @
     (case clock of None \<Rightarrow> [] | Some v \<Rightarrow> replicate (36 - length (concat svs)) blank @ format_clock v 9 12)"

lemma epoch_line_v1_columns:
  assumes head: "length head = 32" "clean_line head" and svs: "list_all sv_placed svs" "length svs \<le> 12"
    and clock: "clock_fits clock 12"
  shows "clean_line (epoch_line_v1 head svs clock)" "take 32 (epoch_line_v1 head svs clock) = head"
    "parse_clock_field (epoch_line_v1 head svs clock) 68 80 9 ''v1.epoch.clock'' = Inr clock"
    "collect_sv_tokens_v1 (trim_blanks (epoch_line_v1 head svs clock)) (length svs) = svs"
proof -
  define tail where "tail = (case clock of None \<Rightarrow> []
    | Some v \<Rightarrow> replicate (36 - length (concat svs)) blank @ format_clock v 9 12)"
  let ?line = "epoch_line_v1 head svs clock"
  have line: "?line = head @ concat svs @ tail" by (simp add: epoch_line_v1_def tail_def)
  have "\<forall>sv\<in>set svs. length sv = 3" using svs(1) by (simp add: list_all_iff sv_placed_def)
  then have list: "length (concat svs) = 3 * length svs" by (rule length_concat_uniform)
  have list_clean: "clean_line (concat svs)" using svs(1) by (simp add: clean_concat list_all_iff sv_placed_def)
  have tail: "clean_line tail"
    using clock_bytes(1) [of 9 _ 12] by (simp add: tail_def split: option.split)
  show clean: "clean_line ?line" using head(2) list_clean tail by (simp add: line)
  show "take 32 ?line = head" by (simp add: line head(1))
  show "collect_sv_tokens_v1 (trim_blanks ?line) (length svs) = svs"
    unfolding line by (rule collect_svs_back [OF svs(1) head tail])
  show "parse_clock_field ?line 68 80 9 ''v1.epoch.clock'' = Inr clock"
  proof (cases clock)
    case None
    have "raw_field ?line 68 80 = []"
      using clean head(1) list svs(2) unfolding line by (simp add: tail_def None)
    then show ?thesis using blank_columns_trim [of 0] by (simp add: parse_clock_field_def None)
  next
    case (Some v)
    then have v: "\<bar>v\<bar> < 2 ^ 63" "length (format_clock v 9 12) = 12" 
      using clock fits_columns_64 [of 12 v] clock_columns [of 9 12 v] by (simp_all add: clock_fits_def)
    have "raw_field ?line 68 80 = format_clock v 9 12"
      using clean head(1) list svs(2) v(2) unfolding line by (simp add: tail_def Some)
    then show ?thesis
      using clock_bytes(4,5) [of 9 v 12] v(1) by (simp add: parse_clock_field_def Some del: ascii_trim)
  qed
qed

lemma serialize_obs_v1:
  assumes "clean_line (oe_descriptor r)" and "length (take 32 (oe_descriptor r)) = 32"
    and "list_all sat_placed (oe_sats r)"
  shows "serialize_rinex_epoch V1 (ObsRecord r) =
    trim_blanks (epoch_line_v1 (take 32 (oe_descriptor r)) (take 12 (map sat_sv (oe_sats r))) (oe_clock r))
    # map trim_blanks (sv_continuations (drop 12 (map sat_sv (oe_sats r)))) @ concat (map rinex_lines_v1 (oe_sats r))"
proof -
  let ?svs = "take 12 (map sat_sv (oe_sats r))"
  have "\<forall>sv\<in>set ?svs. length sv = 3"
    using assms(3) by (auto simp: list_all_iff sat_placed_def sv_placed_def dest!: in_set_takeD)
  then have list: "length (concat ?svs) = 3 * length ?svs" by (rule length_concat_uniform)
  have "format_clock v 9 12 \<noteq> []" for v using clock_bytes(2) [of 9 12 v] by auto
  then show ?thesis
    using assms(1,2) list
    by (auto simp: serialize_rinex_epoch_def serialize_rinex_epoch_v1_def format_epoch_v1_def epoch_line_v1_def
        rinex_lines_v1_def [abs_def] pad_to_def Let_def split: option.split)
qed

lemma sv_continuations_clean:
  assumes "list_all sv_placed svs"
  shows "\<forall>l\<in>set (sv_continuations svs). clean_line l"
proof -
  have "\<forall>c\<in>set (in_rows 12 svs). clean_line (concat c)"
    using assms by (intro in_rows_clean) (simp add: list_all_iff sv_placed_def)
  then show ?thesis by (auto simp: sv_continuations_rows)
qed

lemma obs_epoch_v1_back:
  assumes typed: "epoch_typed V1 w (ObsRecord r)" and placed: "epoch_placed V1 w (ObsRecord r)"
    and counts: "dc_obs_count d = dc_obs_count w"
  shows "\<exists>line later. serialize_rinex_epoch V1 (ObsRecord r) = line # later \<and> list_all clean_line (line # later) \<and> line \<noteq> [] \<and>
    rinex_epoch V1 d line (later @ rest) = Inr (d, rest, ObsRecord r)"
proof -
  let ?d = "oe_descriptor r" and ?svs = "map sat_sv (oe_sats r)"
  let ?full = "epoch_line_v1 (take 32 (oe_descriptor r)) (take 12 (map sat_sv (oe_sats r))) (oe_clock r)"
  have clean: "clean_line ?d" and flag: "descriptor_flag V1 ?d = Inr (flag_of V1 ?d)" "flag_of V1 ?d \<le> 1"
    and count: "descriptor_count V1 ?d = Inr (length (oe_sats r))" and p: "oe_picoseconds r = None"
    and sats: "list_all (sat_typed V1 w) (oe_sats r)"
    using typed by (auto simp: epoch_typed_def picoseconds_typed_def split: option.splits)
  have clock: "clock_fits (oe_clock r) 12" and sat: "list_all sat_placed (oe_sats r)" "list_all sat_beside (oe_sats r)"
    and again: "?d = pad_to (take 32 ?d) 32 @ concat ?svs"
    using placed clean by (simp_all add: epoch_placed_def rebuilt_def build_descriptor_v1_def clean_line_def)
  have head: "length (take 32 ?d) = 32" using head_columns(2) [OF clean again] by simp
  have svs: "list_all sv_placed ?svs" using sat(1) by (simp add: list_all_iff sat_placed_def)
  then have svs12: "list_all sv_placed (take 12 ?svs)" "list_all sv_placed (drop 12 ?svs)" "length (take 12 ?svs) \<le> 12"
    using list_all_append [of sv_placed "take 12 ?svs" "drop 12 ?svs"] by simp_all
  have "clean_line (take 32 ?d)" using clean by simp
  note full = epoch_line_v1_columns [OF head this svs12(1,3) clock]
  have flag': "strict_int_field parse_byte (trim_blanks ?full) 26 29 ''v1.epoch.flag'' = Inr (flag_of V1 ?d)"
    using flag(1) prefix_columns [OF full(2), of 29]
    by (intro trimmed_line_int_field [OF full(1)] same_columns [OF clean full(1)]) (simp_all add: descriptor_flag_def)
  have count': "strict_int_field parse_usize (trim_blanks ?full) 29 32 ''v1.epoch.satellite_count'' = Inr (length (oe_sats r))"
    using count full(2)
    by (intro trimmed_line_int_field [OF full(1)] same_columns [OF clean full(1)]) (simp_all add: descriptor_count_def)
  have built: "build_descriptor_v1 (trim_blanks ?full) ?svs = ?d"
    using full(1,2) again pad_trimmed [of 32 32 ?full] by (simp add: build_descriptor_v1_def)
  have tokens: "collect_sv_tokens_v1 (trim_blanks ?full) (min (length (oe_sats r)) 12) = take 12 ?svs"
    using full(4) by simp
  let ?rows = "concat (map rinex_lines_v1 (oe_sats r))"
  have list: "rinex_svs_v1 (length (oe_sats r)) (take 12 ?svs)
      (map trim_blanks (sv_continuations (drop 12 ?svs)) @ ?rows @ rest) = Inr (?svs, ?rows @ rest)"
    using continuations_back [OF svs12(2), of "take 12 ?svs"] by simp
  have "\<forall>sat\<in>set (oe_sats r). obs_count_for d (sat_sv sat) = Inr (length (sat_values sat))"
    using sats obs_count_for_cong [OF counts] by (simp add: list_all_iff sat_typed_def)
  note rows = rinex_sats_v1_back [OF sat this, of rest]
  note timed = trimmed_clock_field [OF full(1,3)]
  have "rinex_epoch V1 d (trim_blanks ?full)
      ((map trim_blanks (sv_continuations (drop 12 ?svs)) @ ?rows) @ rest) = Inr (d, rest, ObsRecord r)"
    unfolding rinex_epoch_def crinex_version.case rinex_epoch_v1_def
    using flag' flag(2) count' timed tokens list rows built p by (cases r) simp
  moreover have "\<forall>l\<in>set ?rows. clean_line l"
    using sat rinex_lines_v1_clean by (auto simp: list_all_iff)
  moreover have "\<forall>l\<in>set (sv_continuations (drop 12 ?svs)). clean_line l" by (rule sv_continuations_clean [OF svs12(2)])
  ultimately show ?thesis
    using serialize_obs_v1 [OF clean head sat(1)] full(1) int_field_nonempty [OF flag'] by (auto simp: list_all_iff)
qed

section \<open>Event epochs\<close>

lemma record_lines_cong: "dc_obs_count d = dc_obs_count w \<Longrightarrow> record_lines d tokens is = record_lines w tokens is"
  by (induction "is") (simp_all add: obs_count_for_cong [of d w] Let_def)

lemma ensure_cycle_slip_put:
  "ensure_cycle_slip_epoch_fits_v1 (put_widths d w) first numsat = ensure_cycle_slip_epoch_fits_v1 w first numsat"
  by (simp add: ensure_cycle_slip_epoch_fits_v1_def record_lines_cong [of "put_widths d w" w])

lemma event_epoch_back:
  assumes typed: "epoch_typed version w (EventRecord descriptor elines)"
    and tidy: "epoch_tidy version (EventRecord descriptor elines)"
    and placed: "epoch_placed version w (EventRecord descriptor elines)"
  shows "serialize_rinex_epoch version (EventRecord descriptor elines) = descriptor # elines"
    "list_all clean_line (descriptor # elines)" "descriptor \<noteq> []"
    "rinex_epoch version (put_widths d w) descriptor (elines @ rest) =
      Inr (put_widths d (after_epoch w (EventRecord descriptor elines)), rest, EventRecord descriptor elines)"
proof -
  let ?flag = "flag_of version descriptor"
  have read: "descriptor_count version descriptor = Inr (length elines)" "descriptor_flag version descriptor = Inr ?flag"
    "1 < ?flag" and clean: "list_all clean_line elines"
    using typed by (simp_all add: epoch_typed_def)
  show "list_all clean_line (descriptor # elines)" using typed by (simp add: epoch_typed_def)
  have mark: "descriptor \<noteq> []" "hd descriptor = (case version of V3 \<Rightarrow> 0x3E | V1 \<Rightarrow> blank)"
    using tidy by (simp_all add: epoch_tidy_def marked_def)
  then show "descriptor \<noteq> []" by simp
  have trim: "trim_blanks descriptor = descriptor"
    and slip: "version = V1 \<and> ?flag = CYCLE_SLIP_FLAG \<longrightarrow>
      ensure_cycle_slip_epoch_fits_v1 w descriptor (length elines) = Inr ()"
    using placed by (auto simp: epoch_placed_def)
  then show "serialize_rinex_epoch version (EventRecord descriptor elines) = descriptor # elines"
    by (cases version) (simp_all add: serialize_rinex_epoch_def serialize_rinex_epoch_v3_def serialize_rinex_epoch_v1_def)
  obtain w' where w': "classify_event_lines w elines = Inr w'"
    using typed by (cases "classify_event_lines w elines") (simp_all add: epoch_typed_def)
  then have "classify_event_lines (put_widths d w) elines = Inr (put_widths d w')" by (simp add: classify_event_put)
  then show "rinex_epoch version (put_widths d w) descriptor (elines @ rest) =
      Inr (put_widths d (after_epoch w (EventRecord descriptor elines)), rest, EventRecord descriptor elines)"
    using read mark slip event_lines_read_back [OF clean]
    by (cases version) (simp_all add: rinex_epoch_def rinex_epoch_v3_def rinex_epoch_v1_def descriptor_count_def
        descriptor_flag_def after_epoch_def w' ensure_cycle_slip_put)
qed

section \<open>All epochs\<close>

lemma epoch_back:
  assumes "epoch_typed version w item" and "epoch_tidy version item" and "epoch_placed version w item"
    and "has_picoseconds item \<longrightarrow> dc_picoseconds d"
  shows "\<exists>line later. serialize_rinex_epoch version item = line # later \<and> list_all clean_line (line # later) \<and>
    line \<noteq> [] \<and>
    rinex_epoch version (put_widths d w) line (later @ rest) = Inr (put_widths d (after_epoch w item), rest, item)"
proof (cases item)
  case (EventRecord descriptor elines)
  note event = event_epoch_back [OF assms(1-3) [unfolded EventRecord]]
  show ?thesis unfolding EventRecord using event(1-3) event(4) [of d rest] by blast
next
  case (ObsRecord r)
  have after: "after_epoch w item = w" by (simp add: after_epoch_def ObsRecord)
  have counts: "dc_obs_count (put_widths d w) = dc_obs_count w" by simp
  show ?thesis
  proof (cases version)
    case V3
    have "oe_picoseconds r \<noteq> None \<longrightarrow> dc_picoseconds (put_widths d w)"
      using assms(4) by (simp add: has_picoseconds_def ObsRecord)
    from obs_epoch_v3_back [OF assms(1-3) [unfolded V3 ObsRecord] counts this, of rest]
    show ?thesis unfolding after unfolding V3 ObsRecord by blast
  next
    case V1
    from obs_epoch_v1_back [OF assms(1,3) [unfolded V1 ObsRecord] counts, of rest]
    show ?thesis unfolding after unfolding V1 ObsRecord by blast
  qed
qed

fun epochs_placed :: "crinex_version \<Rightarrow> decoder \<Rightarrow> epoch_record list \<Rightarrow> bool" where
  "epochs_placed version w [] \<longleftrightarrow> True"
| "epochs_placed version w (item # items) \<longleftrightarrow>
     epoch_placed version w item \<and> epochs_placed version (after_epoch w item) items"

lemma epochs_back:
  assumes "epochs_typed version w items" and "list_all (epoch_tidy version) items" and "epochs_placed version w items"
    and "list_ex has_picoseconds items \<longrightarrow> dc_picoseconds d"
  shows "parse_rinex_epochs version (put_widths d w) (concat (map (serialize_rinex_epoch version) items)) = Inr items \<and>
    list_all clean_line (concat (map (serialize_rinex_epoch version) items))"
  using assms
proof (induction items arbitrary: w)
  case Nil
  show ?case by (simp add: parse_rinex_epochs.simps)
next
  case (Cons item items)
  let ?rest = "concat (map (serialize_rinex_epoch version) items)"
  have item: "epoch_typed version w item" "epoch_tidy version item" "epoch_placed version w item"
    "has_picoseconds item \<longrightarrow> dc_picoseconds d"
    using Cons.prems by simp_all
  from epoch_back [OF this, of ?rest] obtain line later
    where e: "serialize_rinex_epoch version item = line # later" "list_all clean_line (line # later)" "line \<noteq> []"
      "rinex_epoch version (put_widths d w) line (later @ ?rest) = Inr (put_widths d (after_epoch w item), ?rest, item)"
    by blast
  have "parse_rinex_epochs version (put_widths d (after_epoch w item)) ?rest = Inr items \<and> list_all clean_line ?rest"
    using Cons.IH [of "after_epoch w item"] Cons.prems by simp
  moreover have "next_raw (line # later @ ?rest) = Some (line, later @ ?rest)" using e(2,3) by simp
  ultimately show ?case
    using e by (simp add: parse_rinex_epochs.simps [of _ _ "line # later @ ?rest"])
qed

section \<open>The header\<close>

lemma put_widths_again: "put_widths (put_widths d w) w' = put_widths d w'"
  by (simp add: put_widths_def)

lemma scan_version_put:
  assumes "scan_version (put_widths d w) line = Inr d'"
  shows "\<exists>d1. d' = put_widths d1 w"
proof -
  obtain version where "d' = (put_widths d w)\<lparr>dc_version := version, dc_picoseconds := dc_picoseconds d'\<rparr>"
    using assms by (auto simp: scan_version_def Let_def)
  then have "d' = put_widths (d\<lparr>dc_version := version, dc_picoseconds := dc_picoseconds d'\<rparr>) w"
    by (cases d) (simp add: put_widths_def)
  then show ?thesis by blast
qed

lemma scan_copies:
  "scan_header_lines (put_widths d w) saw lines = Inr (d', header, rest) \<Longrightarrow>
   \<exists>w'. copy_header w lines = (header, Inr (w', rest)) \<and> d' = put_widths d' w'"
proof (induction lines arbitrary: d w saw header)
  case (Cons raw lines)
  let ?line = "trim_eol raw" and ?label = "header_label (trim_eol raw)"
  let ?version = "header_label (trim_eol raw) = blit ''RINEX VERSION / TYPE''"
  define start where "start = (if ?version then scan_version (put_widths d w) ?line else Inr (put_widths d w))"
  define continue where "continue = (\<lambda>d. ebind (classify_header_label d ?line ?label) (\<lambda>d.
      if ?label = blit ''END OF HEADER'' then
        (if \<not> saw then Inl (HeaderError RinexVersionMissing) else Inr (d, [?line], lines))
      else ebind (scan_header_lines d (saw \<or> ?version) lines) (\<lambda>(d, header, lines). Inr (d, ?line # header, lines))))"
  have "ebind start continue = Inr (d', header, rest)"
    using Cons.prems by (simp only: scan_header_lines.simps Let_def start_def continue_def)
  then obtain d1 where first: "start = Inr d1" and rest1: "continue d1 = Inr (d', header, rest)"
    by (auto simp: ebind_eq_Inr)
  from first obtain d2 where d1: "d1 = put_widths d2 w"
    using scan_version_put by (fastforce simp: start_def split: if_splits)
  obtain w2 where w2: "classify_header_label w ?line ?label = Inr w2"
    using rest1 unfolding continue_def by (cases "classify_header_label w ?line ?label") (simp_all add: d1 classify_put)
  have "classify_header_label d1 ?line ?label = Inr (put_widths d2 w2)" by (simp add: d1 classify_put w2)
  note rest2 = rest1 [unfolded continue_def this ebind_simps]
  show ?case
  proof (cases "?label = blit ''END OF HEADER''")
    case True
    then have "d' = put_widths d2 w2" "header = [?line]" "rest = lines"
      using rest2 by (simp_all split: if_splits)
    then show ?thesis using w2 True by (simp add: Let_def put_widths_again)
  next
    case False
    then obtain header1 where "scan_header_lines (put_widths d2 w2) (saw \<or> ?version) lines = Inr (d', header1, rest)"
      and header: "header = ?line # header1"
      using rest2 by auto
    from Cons.IH [OF this(1)] show ?thesis using w2 False header by (auto simp: Let_def)
  qed
qed (simp split: if_splits)

lemma scan_append:
  "scan_header_lines d saw header = Inr (d', copied, []) \<Longrightarrow>
   scan_header_lines d saw (header @ rest) = Inr (d', copied, rest)"
proof (induction header arbitrary: d saw copied)
  case (Cons raw header)
  show ?case
    using Cons.prems Cons.IH by (auto simp: Let_def split: if_splits)
qed (simp split: if_splits)

section \<open>The whole text\<close>

definition stream_placed :: "obs_stream \<Rightarrow> bool" where
  "stream_placed s \<longleftrightarrow>
     (case scan_rinex_header new_decoder (os_header s) of
        Inl _ \<Rightarrow> False
      | Inr (d, header, rest) \<Rightarrow>
          rest = [] \<and> dc_version d = os_version s \<and>
          (list_ex has_picoseconds (os_epochs s) \<longrightarrow> dc_picoseconds d)) \<and>
     (case header_widths (os_header s) of
        None \<Rightarrow> False | Some w \<Rightarrow> epochs_placed (os_version s) w (os_epochs s))"

lemma rinex_read_back:
  assumes typed: "stream_typed s" and tidy: "stream_tidy s" and placed: "stream_placed s"
  shows "parse_rinex_obs (stream_text s) = Inr s"
proof -
  obtain w where w: "header_widths (os_header s) = Some w" and items: "epochs_typed (os_version s) w (os_epochs s)"
    and header: "list_all clean_line (os_header s)"
    using typed by (auto simp: stream_typed_def split: option.splits)
  obtain d copied where scan: "scan_header_lines new_decoder False (os_header s) = Inr (d, copied, [])"
    and version: "dc_version d = os_version s" and on: "list_ex has_picoseconds (os_epochs s) \<longrightarrow> dc_picoseconds d"
    using placed by (auto simp: stream_placed_def scan_rinex_header_def split: sum.splits)
  have "put_widths new_decoder new_decoder = new_decoder" by (simp add: put_widths_def)
  with scan scan_copies [of new_decoder new_decoder] obtain w' where
    copy: "copy_header new_decoder (os_header s) = (copied, Inr (w', []))" and d: "d = put_widths d w'"
    by metis
  have "w' = w" using w copy by (simp add: header_widths_def)
  moreover have "copied = os_header s" using copy_header_emits [OF copy] header by (simp add: list_all_iff)
  ultimately have scan: "scan_header_lines new_decoder False (os_header s) = Inr (put_widths d w, os_header s, [])"
    using scan d by simp
  let ?body = "concat (map (serialize_rinex_epoch (os_version s)) (os_epochs s))"
  have "epochs_placed (os_version s) w (os_epochs s)" using placed w by (simp add: stream_placed_def)
  from epochs_back [OF items _ this on] tidy
  have body: "parse_rinex_epochs (os_version s) (put_widths d w) ?body = Inr (os_epochs s)" "list_all clean_line ?body"
    by (simp_all add: stream_tidy_def)
  have "text_lines (stream_text s) = os_header s @ ?body"
    using header body(2) unfolding stream_text_def stream_lines_def by (intro text_lines_text_of) (auto simp: list_all_iff)
  then show ?thesis
    using scan_append [OF scan, of ?body] body(1) version
    by (simp add: parse_rinex_obs_def scan_rinex_header_def)
qed

lemma encode_crinex_back:
  assumes "stream_typed s" and "stream_tidy s" and "stream_placed s"
  shows "\<exists>t. encode_crinex (stream_text s) = Some (Inr t) \<and> decode t = Inr (stream_text s)"
  using stream_read_back [OF assms(1,2)] rinex_read_back [OF assms] by (auto simp: encode_crinex_def decode_parse)

section \<open>The version that carries picoseconds\<close>

text \<open>The text \<^verbatim>\<open>4.02\<close> parses to the constant it is compared with.\<close>

lemma bit_len_402: "bit_len (402 * 2 ^ k div 100) = Suc (Suc (Suc k))"
proof (rule bit_len_between)
  show "2 ^ Suc (Suc k) \<le> 402 * 2 ^ k div (100::nat)" by (simp add: less_eq_div_iff_mult_less_eq)
  show "402 * 2 ^ k div 100 < (2::nat) ^ Suc (Suc (Suc k))" by (simp add: less_mult_imp_div_less)
qed

lemma round_half_even_scale: "0 < c \<Longrightarrow> round_half_even (a * c) (b * c) = round_half_even a b"
  by (simp add: round_half_even_def Let_def mult_mod_right [symmetric])

lemma magnitude_402: "f64_magnitude 402 100 = 0x4010147AE147AE14"
proof -
  define n :: nat where "n = 1024"
  have sh: "bit_len (402 * 2 ^ (n + 50) div 100) - 53 = n" unfolding bit_len_402 by simp
  have "round_half_even (402 * 2 ^ (n + 50)) (100 * 2 ^ n) = round_half_even (402 * 2 ^ 50 * 2 ^ n) (100 * 2 ^ n)"
    by (simp add: power_add mult.assoc mult.commute)
  also have "\<dots> = round_half_even (402 * 2 ^ 50) 100" by (rule round_half_even_scale) simp
  also have "\<dots> = 4526117625507348" by (simp add: round_half_even_def Let_def)
  finally have "round_half_even (402 * 2 ^ (n + 50)) (100 * 2 ^ n) = 4526117625507348" .
  moreover have "(1074::nat) = n + 50" by (simp add: n_def)
  ultimately have "f64_magnitude 402 100 = min F64_INFINITE (n * 2 ^ 52 + 4526117625507348)"
    unfolding f64_magnitude_def Let_def by (simp only: sh)
  then show ?thesis by (simp add: n_def F64_INFINITE_def)
qed

lemma carries_402: "rinex_version_carries_picoseconds (blit ''4.02'')"
proof -
  have "str_trim (blit ''4.02'') = [0x34, 0x2E, 0x30, 0x32]" by code_simp
  then show ?thesis
    by (simp add: rinex_version_carries_picoseconds_def parse_f64_def parse_number_def is_digit_def decimal_value_def
        digit_value_def decimal_bits_def f64_bits_def parse_exponent_def magnitude_402 F64_4_02_def f64_at_least_def
        f64_is_nan_def F64_INFINITE_def Let_def)
qed
end
