(* ===== verification/Crinex_Settle.thy ===== *)
theory Crinex_Settle
  imports Crinex_Rinex_Text
begin

text \<open>
  The text differences of \<^verbatim>\<open>crinex/mod.rs\<close> never shorten their buffer, so the epoch line of a stream whose
  satellite count falls between resets keeps trailing blanks, and columns the RINEX text does not hold.
  The RINEX text settles an epoch: it keeps the date, flag, count and satellites of the epoch line, and
  two flags for each observation. Here the reader's result on any stream within its columns is shown to
  be the settled stream, with the same text.
\<close>

section \<open>Settled epochs\<close>

definition settled_sat :: "sat_record \<Rightarrow> sat_record" where
  "settled_sat sat = sat\<lparr>sat_flags := map (flag_at (sat_flags sat)) [0..<2 * length (sat_values sat)]\<rparr>"

definition settled_epoch :: "crinex_version \<Rightarrow> epoch_record \<Rightarrow> epoch_record" where
  "settled_epoch version item =
     (case item of
        EventRecord descriptor lines \<Rightarrow> EventRecord (trim_blanks descriptor) lines
      | ObsRecord r \<Rightarrow> ObsRecord (r\<lparr>oe_sats := map settled_sat (oe_sats r), oe_descriptor :=
          (case version of V3 \<Rightarrow> build_descriptor_v3 (oe_descriptor r) (map sat_sv (oe_sats r))
           | V1 \<Rightarrow> build_descriptor_v1 (oe_descriptor r) (map sat_sv (oe_sats r)))\<rparr>))"

definition settle_stream :: "obs_stream \<Rightarrow> obs_stream" where
  "settle_stream s = s\<lparr>os_epochs := map (settled_epoch (os_version s)) (os_epochs s)\<rparr>"

text \<open>An epoch whose values, clock and satellites fit the columns of the RINEX text.\<close>

definition sat_in_columns :: "sat_record \<Rightarrow> bool" where
  "sat_in_columns sat \<longleftrightarrow> sv_placed (sat_sv sat) \<and> list_all value_fits (sat_values sat)"

definition epoch_in_columns :: "crinex_version \<Rightarrow> decoder \<Rightarrow> epoch_record \<Rightarrow> bool" where
  "epoch_in_columns version w item \<longleftrightarrow>
     (case item of
        EventRecord descriptor lines \<Rightarrow>
          version = V1 \<and> flag_of version (trim_blanks descriptor) = CYCLE_SLIP_FLAG \<longrightarrow>
            ensure_cycle_slip_epoch_fits_v1 w (trim_blanks descriptor) (length lines) = Inr ()
      | ObsRecord r \<Rightarrow>
          list_all sat_in_columns (oe_sats r) \<and>
          (case version of V3 \<Rightarrow> clock_fits (oe_clock r) 15 | V1 \<Rightarrow> clock_fits (oe_clock r) 12))"

subsection \<open>Satellites\<close>

lemma flags_blanked_iff:
  "flags_blanked vals flags \<longleftrightarrow> 2 * length vals \<le> length flags \<and>
     (\<forall>i<length vals. vals ! i = None \<longrightarrow> flags ! (2 * i) = blank \<and> flags ! (2 * i + 1) = blank)"
  by (induction vals flags rule: flags_blanked.induct) (auto simp: nth_Cons less_Suc_eq_0_disj split: nat.splits)

lemma flag_at_cases: "flag_at flags i = blank \<or> flag_at flags i \<in> set flags"
  by (simp add: flag_at_def)

lemma settled_flags_typed:
  assumes "flags_typed version vals flags"
  shows "flags_typed version vals (map (flag_at flags) [0..<2 * length vals])"
proof -
  let ?flags = "map (flag_at flags) [0..<2 * length vals]"
  have "\<forall>b\<in>set ?flags. b = blank \<or> b \<in> set flags" using flag_at_cases by auto
  then have "clean_line ?flags" "ampersand \<notin> set ?flags"
    using assms by (auto simp: flags_typed_def clean_line_def list_all_iff blank_def ampersand_def)
  moreover have "flags_blanked vals flags \<Longrightarrow> flags_blanked vals ?flags"
    by (auto simp: flags_blanked_iff flag_at_def)
  ultimately show ?thesis using assms by (simp add: flags_typed_def)
qed

lemma settled_sat_typed: "sat_typed version w sat \<Longrightarrow> sat_typed version w (settled_sat sat)"
  by (simp add: sat_typed_def settled_sat_def settled_flags_typed)

lemma settled_sat_placed:
  "sat_in_columns sat \<Longrightarrow> sat_typed version w sat \<Longrightarrow> sat_placed (settled_sat sat)"
  using settled_sat_typed [of version w sat]
  by (simp add: sat_placed_def sat_in_columns_def sat_fits_def sat_typed_def flags_typed_def settled_sat_def)

lemma blanked_beside: "flags_blanked vals flags \<Longrightarrow> flags_beside False vals flags"
  by (simp add: flags_blanked_iff flags_beside_def)

lemma settled_sat_beside:
  assumes "sat_typed V1 w sat"
  shows "sat_beside (settled_sat sat)"
proof -
  have "sat_typed V1 w (settled_sat sat)" by (rule settled_sat_typed [OF assms])
  then show ?thesis
    using blanked_beside
    by (auto simp: sat_beside_def sat_typed_def flags_typed_def obs_count_for_def Let_def split: option.splits if_splits)
qed

lemma settled_fields_v3:
  "(\<forall>k < 2 * (i + length vals). flag_at flags k = flag_at flags' k) \<Longrightarrow> sat_fields_v3 i vals flags = sat_fields_v3 i vals flags'"
  by (induction i vals flags rule: sat_fields_v3.induct) auto

lemma settled_lines_v1:
  "(\<forall>k < 2 * (i + length vals). flag_at flags k = flag_at flags' k) \<Longrightarrow> sat_lines_v1 i line vals flags = sat_lines_v1 i line vals flags'"
  by (induction i line vals flags rule: sat_lines_v1.induct) (auto simp: Let_def)

lemma settled_sat_text:
  "format_sat_line sv (sat_values (settled_sat sat)) (sat_flags (settled_sat sat))
     = format_sat_line sv (sat_values sat) (sat_flags sat)"
  "format_sat_lines_v1 (sat_values (settled_sat sat)) (sat_flags (settled_sat sat))
     = format_sat_lines_v1 (sat_values sat) (sat_flags sat)"
  unfolding format_sat_line_def format_sat_lines_v1_def settled_sat_def
  by (auto simp: flag_at_def intro!: settled_fields_v3 settled_lines_v1)

subsection \<open>Epoch lines\<close>

lemma trim_blanks_padded: "trim_blanks (x @ replicate k blank) = trim_blanks x"
  by (simp add: trim_blanks_def dropWhile_append)

lemma trim_blanks_again: "trim_blanks (trim_blanks x) = trim_blanks x"
  by (simp add: trim_blanks_def dropWhile_idem)

lemma padded_int_field:
  assumes "clean_line l" and "strict_int_field parse l a b name = Inr n"
  shows "strict_int_field parse (l @ replicate k blank) a b name = Inr n"
proof -
  have "clean_line (l @ replicate k blank)" using assms(1) by simp
  from assms(2) trimmed_field [OF this, of a b] show ?thesis
    by (auto simp: strict_int_field_def strict_int_token_def Let_def split: if_splits option.splits)
qed

text \<open>A line rebuilt from its first columns.\<close>

definition rebuilt_line :: "nat \<Rightarrow> nat \<Rightarrow> rust_str \<Rightarrow> rust_str list \<Rightarrow> rust_str" where
  "rebuilt_line m start d svs = pad_to (take m d) start @ concat svs"

lemma rebuilt_line_field:
  assumes "clean_line d" and "clean_line (concat svs)" and "b \<le> m" and "m \<le> start"
    and "strict_int_field parse d a b name = Inr n"
  shows "strict_int_field parse (rebuilt_line m start d svs) a b name = Inr n"
proof -
  have head: "clean_line (take m d)" using assms(1) by simp
  have "strict_int_field parse (take m d) a b name = Inr n"
    using assms(3,5) by (intro same_columns [OF assms(1) head]) simp_all
  then have pad: "strict_int_field parse (pad_to (take m d) start) a b name = Inr n"
    unfolding pad_to_def by (rule padded_int_field [OF head])
  have clean: "clean_line (pad_to (take m d) start)" using head by (simp add: pad_to_def)
  have whole: "clean_line (rebuilt_line m start d svs)" using clean assms(2) by (simp add: rebuilt_line_def)
  have "take b (pad_to (take m d) start) = take b (rebuilt_line m start d svs)"
    using assms(3,4) by (simp add: rebuilt_line_def pad_to_def)
  from same_columns [OF clean whole this pad] show ?thesis .
qed

lemma pad_to_again: "length h \<le> n \<Longrightarrow> n \<le> m \<Longrightarrow> pad_to (pad_to h n) m = pad_to h m"
  by (simp add: pad_to_def replicate_add [symmetric])

lemma rebuilt_head: "m \<le> start \<Longrightarrow> take m (rebuilt_line m start d svs) = pad_to (take m d) m"
  by (simp add: rebuilt_line_def pad_to_def min_def)

lemma rebuilt_again: "m \<le> start \<Longrightarrow> rebuilt_line m start (rebuilt_line m start d svs) svs = rebuilt_line m start d svs"
  unfolding rebuilt_line_def [of m start "rebuilt_line m start d svs"] rebuilt_head
  by (simp add: pad_to_again rebuilt_line_def)

lemma tokens_of_concat:
  assumes "\<forall>sv\<in>set svs. length sv = 3 \<and> ascii sv" and "i \<le> length svs"
  shows "sv_tokens_from (concat svs) revision n [i..<length svs] = Inr (drop i svs)"
  using assms(2)
proof (induction "length svs - i" arbitrary: i)
  case (Suc k)
  then have i: "i < length svs" by simp
  have "length (concat (take i svs)) = 3 * i"
    using assms(1) i by (subst length_concat_uniform [of _ 3]) (auto dest: in_set_takeD)
  moreover have "concat svs = concat (take i svs) @ svs ! i @ concat (drop (Suc i) svs)"
    by (subst id_take_nth_drop [OF i]) simp
  moreover have "length (svs ! i) = 3" "ascii (svs ! i)" using assms(1) i by simp_all
  ultimately have "fixed_sv_token (concat svs) revision n i = Inr (svs ! i)"
    by (simp add: fixed_sv_token_def Let_def mult.commute)
  moreover have "sv_tokens_from (concat svs) revision n [Suc i..<length svs] = Inr (drop (Suc i) svs)"
    using Suc i by simp
  ultimately show ?case using i by (simp add: upt_conv_Cons Cons_nth_drop_Suc)
qed simp

lemma placed_svs:
  assumes "list_all sat_in_columns sats"
  shows "\<forall>sv\<in>set (map sat_sv sats). length sv = 3 \<and> ascii sv" and "clean_line (concat (map sat_sv sats))"
  using assms by (auto simp: list_all_iff sat_in_columns_def sv_placed_def clean_line_def clean_concat)

text \<open>The columns of either revision: the end of what the epoch line keeps, the start of its satellites.\<close>

definition head_end :: "crinex_version \<Rightarrow> nat" where
  "head_end version = (case version of V3 \<Rightarrow> 35 | V1 \<Rightarrow> 32)"

definition svs_start :: "crinex_version \<Rightarrow> nat" where
  "svs_start version = (case version of V3 \<Rightarrow> 41 | V1 \<Rightarrow> 32)"

definition settled_line :: "crinex_version \<Rightarrow> obs_epoch \<Rightarrow> rust_str" where
  "settled_line version r = rebuilt_line (head_end version) (svs_start version) (oe_descriptor r) (map sat_sv (oe_sats r))"

lemma settled_descriptor:
  "clean_line (oe_descriptor r) \<Longrightarrow>
     (case version of V3 \<Rightarrow> build_descriptor_v3 (oe_descriptor r) (map sat_sv (oe_sats r))
      | V1 \<Rightarrow> build_descriptor_v1 (oe_descriptor r) (map sat_sv (oe_sats r))) = settled_line version r"
  by (cases version) (simp_all add: settled_line_def build_descriptor_v3_def build_descriptor_v1_def
      rebuilt_line_def head_end_def svs_start_def clean_line_def)

lemma settled_obs:
  "clean_line (oe_descriptor r) \<Longrightarrow> settled_epoch version (ObsRecord r) =
     ObsRecord (r\<lparr>oe_sats := map settled_sat (oe_sats r), oe_descriptor := settled_line version r\<rparr>)"
  by (simp add: settled_epoch_def settled_descriptor)

lemma settled_names [simp]: "sat_sv (settled_sat sat) = sat_sv sat" "map (sat_sv \<circ> settled_sat) sats = map sat_sv sats"
  by (simp_all add: settled_sat_def)

lemma settled_line_reads:
  assumes clean: "clean_line (oe_descriptor r)" and sats: "list_all sat_in_columns (oe_sats r)"
  shows "clean_line (settled_line version r)"
    and "descriptor_count version (oe_descriptor r) = Inr n \<Longrightarrow> descriptor_count version (settled_line version r) = Inr n"
    and "descriptor_flag version (oe_descriptor r) = Inr f \<Longrightarrow> descriptor_flag version (settled_line version r) = Inr f"
    and "descriptor_svs version (settled_line version r) (length (oe_sats r)) = Inr (map sat_sv (oe_sats r))"
proof -
  let ?svs = "map sat_sv (oe_sats r)"
  note svs = placed_svs [OF sats]
  note field = rebuilt_line_field [OF clean svs(2)]
  show line: "clean_line (settled_line version r)"
    using clean svs(2) by (simp add: settled_line_def rebuilt_line_def pad_to_def)
  show "descriptor_count version (settled_line version r) = Inr n" if "descriptor_count version (oe_descriptor r) = Inr n"
    using that field by (cases version) (simp_all add: descriptor_count_def settled_line_def head_end_def svs_start_def)
  show "descriptor_flag version (settled_line version r) = Inr f" if "descriptor_flag version (oe_descriptor r) = Inr f"
    using that field by (cases version) (simp_all add: descriptor_flag_def settled_line_def head_end_def svs_start_def)
  have "raw_field_from (settled_line version r) (svs_start version) = concat ?svs"
    using line by (cases version) (simp_all add: settled_line_def rebuilt_line_def pad_to_def head_end_def svs_start_def)
  then show "descriptor_svs version (settled_line version r) (length (oe_sats r)) = Inr ?svs"
    using tokens_of_concat [OF svs(1), of 0]
    by (cases version) (simp_all add: descriptor_svs_def sv_tokens_v3_def sv_tokens_v1_def svs_start_def)
qed

lemma trimmed_descriptor:
  assumes clean: "clean_line d"
  shows "descriptor_count version d = Inr n \<Longrightarrow> descriptor_count version (trim_blanks d) = Inr n"
    and "descriptor_flag version d = Inr f \<Longrightarrow> descriptor_flag version (trim_blanks d) = Inr f"
  using trimmed_line_int_field [OF clean]
  by (cases version; simp add: descriptor_count_def descriptor_flag_def)+

lemma settled_epoch_typed:
  assumes "epoch_typed version w item" and "epoch_in_columns version w item"
  shows "epoch_typed version w (settled_epoch version item)"
proof (cases item)
  case (EventRecord d lines)
  then have clean: "clean_line d" and read: "descriptor_count version d = Inr (length lines)"
    "descriptor_flag version d = Inr (flag_of version d)"
    using assms(1) by (simp_all add: epoch_typed_def)
  note trimmed = trimmed_descriptor [OF clean]
  have "flag_of version (trim_blanks d) = flag_of version d" using trimmed(2) [OF read(2)] by (simp add: flag_of_def)
  then show ?thesis
    using assms(1) trimmed(1) [OF read(1)] trimmed(2) [OF read(2)] by (simp add: EventRecord epoch_typed_def settled_epoch_def)
next
  case (ObsRecord r)
  have clean: "clean_line (oe_descriptor r)" and read: "descriptor_count version (oe_descriptor r) = Inr (length (oe_sats r))"
    "descriptor_flag version (oe_descriptor r) = Inr (flag_of version (oe_descriptor r))"
    using assms(1) by (simp_all add: ObsRecord epoch_typed_def)
  have "list_all sat_in_columns (oe_sats r)" using assms(2) by (simp add: ObsRecord epoch_in_columns_def)
  note line = settled_line_reads [OF clean this]
  have "flag_of version (settled_line version r) = flag_of version (oe_descriptor r)"
    using line(3) [OF read(2)] by (simp add: flag_of_def)
  then show ?thesis
    using assms(1) line(1,4) line(2) [OF read(1)] line(3) [OF read(2)]
    unfolding ObsRecord settled_obs [OF clean] by (simp add: epoch_typed_def list_all_iff settled_sat_typed)
qed

lemma settled_marked:
  assumes "marked version d" and "clean_line d" and "descriptor_flag version d = Inr f"
  shows "marked version (trim_blanks d)" and "marked version (rebuilt_line (head_end version) m d svs)"
proof -
  have "trim_blanks d \<noteq> []"
    using int_field_nonempty trimmed_descriptor(2) [OF assms(2,3)]
    by (cases version) (auto simp: descriptor_flag_def)
  moreover obtain k where "d = trim_blanks d @ replicate k blank" using trim_blanks_split by blast
  ultimately show "marked version (trim_blanks d)" using assms(1) by (metis marked_def hd_append2)
  show "marked version (rebuilt_line (head_end version) m d svs)"
    using assms(1) by (cases version; cases d) (simp_all add: marked_def rebuilt_line_def pad_to_def head_end_def)
qed

lemma settled_epoch_tidy:
  assumes "epoch_tidy version item" and "epoch_typed version w item"
  shows "epoch_tidy version (settled_epoch version item)"
proof (cases item)
  case (EventRecord d lines)
  with assms settled_marked(1) [of version d] show ?thesis
    by (simp add: epoch_tidy_def settled_epoch_def epoch_typed_def)
next
  case (ObsRecord r)
  then have clean: "clean_line (oe_descriptor r)" using assms(2) by (simp add: epoch_typed_def)
  show ?thesis
    using assms settled_marked(2) [OF _ clean] unfolding ObsRecord settled_obs [OF clean]
    by (auto simp: epoch_tidy_def epoch_typed_def settled_line_def settled_sat_def list_all_iff)
qed

lemma settled_epoch_placed:
  assumes "epoch_in_columns version w item" and "epoch_typed version w item"
  shows "epoch_placed version w (settled_epoch version item)"
proof (cases item)
  case (EventRecord d lines)
  with assms show ?thesis
    by (auto simp: epoch_in_columns_def epoch_placed_def settled_epoch_def trim_blanks_again)
next
  case (ObsRecord r)
  then have clean: "clean_line (oe_descriptor r)" and sats: "list_all sat_in_columns (oe_sats r)"
    using assms by (simp_all add: epoch_typed_def epoch_in_columns_def)
  let ?r = "r\<lparr>oe_sats := map settled_sat (oe_sats r), oe_descriptor := settled_line version r\<rparr>"
  have line: "clean_line (settled_line version r)" by (rule settled_line_reads(1) [OF clean sats])
  have "settled_line version ?r = settled_line version r"
    by (cases version) (simp_all add: settled_line_def rebuilt_again head_end_def svs_start_def)
  then have "rebuilt version ?r"
    using settled_descriptor [of ?r version] line by (simp add: rebuilt_def)
  then show ?thesis
    using assms unfolding ObsRecord settled_obs [OF clean]
    using settled_sat_placed settled_sat_beside
    by (cases version) (fastforce simp: epoch_in_columns_def epoch_placed_def epoch_typed_def list_all_iff)+
qed


section \<open>The text\<close>

lemma listed_columns:
  assumes "epoch_typed version w (ObsRecord r)" and "oe_sats r \<noteq> []"
  shows "svs_start version \<le> length (oe_descriptor r)"
proof -
  have clean: "clean_line (oe_descriptor r)"
    and svs: "descriptor_svs version (oe_descriptor r) (length (oe_sats r)) = Inr (map sat_sv (oe_sats r))"
    using assms(1) by (simp_all add: epoch_typed_def)
  obtain n where "[0..<length (oe_sats r)] = 0 # n" using assms(2) by (auto simp: upt_conv_Cons)
  with svs clean show ?thesis
    by (cases version) (auto simp: descriptor_svs_def sv_tokens_v3_def sv_tokens_v1_def fixed_sv_token_def svs_start_def
        ebind_eq_Inr clean_line_def split: if_splits)
qed

text \<open>A list of satellites that starts at its column, or none: the settled epoch line of RINEX 2 is the same.\<close>

lemma settled_line_v1:
  assumes "svs = [] \<or> 32 \<le> length d" and "clean_line d" and "clean_line (concat svs)"
  shows "map trim_blanks (format_epoch_v1 (rebuilt_line 32 32 d svs) svs clock) = map trim_blanks (format_epoch_v1 d svs clock)"
proof -
  have "clean_line (rebuilt_line 32 32 d svs)" using assms(2,3) by (simp add: rebuilt_line_def pad_to_def)
  then have head: "raw_field (rebuilt_line 32 32 d svs) 0 32 = pad_to (take 32 d) 32" "raw_field d 0 32 = take 32 d"
    using assms(2) by (simp_all add: rebuilt_head)
  show ?thesis
  proof (cases "svs = []")
    case True
    have "pad_to (pad_to (take 32 d) 32) 68 = pad_to (take 32 d) 68" by (rule pad_to_again) simp_all
    moreover have "trim_blanks (pad_to (take 32 d) 32) = trim_blanks (take 32 d)"
      unfolding pad_to_def by (rule trim_blanks_padded)
    ultimately show ?thesis using True by (simp add: format_epoch_v1_def head [unfolded True] Let_def)
  next
    case False
    then have "pad_to (take 32 d) 32 = take 32 d" using assms(1) by (simp add: pad_to_def)
    then show ?thesis by (simp add: format_epoch_v1_def head)
  qed
qed

lemma settled_serialize:
  assumes "epoch_typed version w item" and "epoch_in_columns version w item"
  shows "serialize_rinex_epoch version (settled_epoch version item) = serialize_rinex_epoch version item"
proof (cases item)
  case (EventRecord d lines)
  then show ?thesis
    by (cases version) (simp_all add: settled_epoch_def serialize_rinex_epoch_def serialize_rinex_epoch_v3_def
        serialize_rinex_epoch_v1_def trim_blanks_again)
next
  case (ObsRecord r)
  have clean: "clean_line (oe_descriptor r)" and sats: "list_all sat_in_columns (oe_sats r)"
    using assms by (simp_all add: ObsRecord epoch_typed_def epoch_in_columns_def)
  have line: "clean_line (settled_line version r)" by (rule settled_line_reads(1) [OF clean sats])
  show ?thesis
  proof (cases version)
    case V3
    have head: "raw_field (settled_line V3 r) 0 35 = pad_to (raw_field (oe_descriptor r) 0 35) 35"
      using line clean by (simp add: V3 settled_line_def rebuilt_head head_end_def svs_start_def)
    have "length (raw_field (oe_descriptor r) 0 35) \<le> 35" using clean by simp
    then have "pad_to (pad_to (raw_field (oe_descriptor r) 0 35) 35) 41 = pad_to (raw_field (oe_descriptor r) 0 35) 41"
      by (rule pad_to_again) simp
    moreover have "trim_blanks (pad_to (raw_field (oe_descriptor r) 0 35) 35) = trim_blanks (raw_field (oe_descriptor r) 0 35)"
      unfolding pad_to_def by (rule trim_blanks_padded)
    ultimately show ?thesis
      unfolding ObsRecord settled_obs [OF clean]
      by (auto simp: V3 head settled_sat_text serialize_rinex_epoch_def serialize_rinex_epoch_v3_def Let_def split: option.splits)
  next
    case V1
    have "map sat_sv (oe_sats r) = [] \<or> 32 \<le> length (oe_descriptor r)"
      using listed_columns [of V1 w r] assms(1) by (auto simp: ObsRecord V1 svs_start_def)
    from settled_line_v1 [OF this clean placed_svs(2) [OF sats]] show ?thesis
      unfolding ObsRecord settled_obs [OF clean]
      by (simp add: V1 settled_sat_text comp_def settled_line_def head_end_def svs_start_def serialize_rinex_epoch_def serialize_rinex_epoch_v1_def Let_def)
  qed
qed


lemma settled_after: "after_epoch w (settled_epoch version item) = after_epoch w item"
  by (cases item) (simp_all add: after_epoch_def settled_epoch_def)

lemma settled_picoseconds: "has_picoseconds (settled_epoch version item) = has_picoseconds item"
  by (cases item) (simp_all add: has_picoseconds_def settled_epoch_def)

fun epochs_in_columns :: "crinex_version \<Rightarrow> decoder \<Rightarrow> epoch_record list \<Rightarrow> bool" where
  "epochs_in_columns version w [] \<longleftrightarrow> True"
| "epochs_in_columns version w (item # items) \<longleftrightarrow>
     epoch_in_columns version w item \<and> epochs_in_columns version (after_epoch w item) items"

lemma settled_epochs:
  assumes "epochs_typed version w items" and "list_all (epoch_tidy version) items" and "epochs_in_columns version w items"
  shows "epochs_typed version w (map (settled_epoch version) items) \<and>
    list_all (epoch_tidy version) (map (settled_epoch version) items) \<and>
    epochs_placed version w (map (settled_epoch version) items) \<and>
    map (serialize_rinex_epoch version) (map (settled_epoch version) items) = map (serialize_rinex_epoch version) items"
  using assms
proof (induction items arbitrary: w)
  case (Cons item items)
  then have item: "epoch_typed version w item" "epoch_tidy version item" "epoch_in_columns version w item" by simp_all
  from Cons.IH [of "after_epoch w item"] Cons.prems show ?case
    using settled_epoch_typed [OF item(1,3)] settled_epoch_tidy [OF item(2,1)] settled_epoch_placed [OF item(3,1)]
      settled_serialize [OF item(1,3)] by (simp add: settled_after)
qed simp

text \<open>
  A stream whose header states its revision and announces the picoseconds it has, and whose epochs fit
  their columns.
\<close>

definition stream_in_columns :: "obs_stream \<Rightarrow> bool" where
  "stream_in_columns s \<longleftrightarrow>
     (case scan_rinex_header new_decoder (os_header s) of
        Inl _ \<Rightarrow> False
      | Inr (d, header, rest) \<Rightarrow>
          rest = [] \<and> dc_version d = os_version s \<and>
          (list_ex has_picoseconds (os_epochs s) \<longrightarrow> dc_picoseconds d)) \<and>
     (case header_widths (os_header s) of
        None \<Rightarrow> False | Some w \<Rightarrow> epochs_in_columns (os_version s) w (os_epochs s))"

lemma settled_stream:
  assumes "stream_typed s" and "stream_tidy s" and "stream_in_columns s"
  shows "stream_typed (settle_stream s)" "stream_tidy (settle_stream s)" "stream_placed (settle_stream s)" "stream_text (settle_stream s) = stream_text s"
proof -
  obtain w where w: "header_widths (os_header s) = Some w" and typed: "epochs_typed (os_version s) w (os_epochs s)"
    "list_all clean_line (os_header s)"
    using assms(1) by (auto simp: stream_typed_def split: option.splits)
  have tidy: "list_all (epoch_tidy (os_version s)) (os_epochs s)" using assms(2) by (simp add: stream_tidy_def)
  have "epochs_in_columns (os_version s) w (os_epochs s)" using assms(3) w by (simp add: stream_in_columns_def)
  note epochs = settled_epochs [OF typed(1) tidy this]
  show "stream_typed (settle_stream s)" using w typed(2) epochs by (simp add: stream_typed_def settle_stream_def)
  show "stream_tidy (settle_stream s)" using epochs by (simp add: stream_tidy_def settle_stream_def)
  have "list_ex has_picoseconds (map (settled_epoch (os_version s)) (os_epochs s)) = list_ex has_picoseconds (os_epochs s)"
    by (simp add: list_ex_iff settled_picoseconds)
  then show "stream_placed (settle_stream s)"
    using assms(3) w epochs by (auto simp: stream_placed_def stream_in_columns_def settle_stream_def split: sum.splits)
  show "stream_text (settle_stream s) = stream_text s"
    using epochs by (simp add: stream_text_def stream_lines_def settle_stream_def del: map_map map_eq_conv)
qed

lemma settled_read_back:
  assumes "stream_typed s" and "stream_tidy s" and "stream_in_columns s"
  shows "parse_rinex_obs (stream_text s) = Inr (settle_stream s)"
    and "\<exists>t. encode_crinex (stream_text s) = Some (Inr t) \<and> decode t = Inr (stream_text s)"
  using rinex_read_back [OF settled_stream(1-3) [OF assms]] encode_crinex_back [OF settled_stream(1-3) [OF assms]]
  by (simp_all add: settled_stream(4) [OF assms])

end
