(* ===== verification/Spec2Isabelle.thy ===== *)
theory Spec2Isabelle
  imports Rtcm_Stream Rtcm_Lli Ntrip_Table Ntrip_Limits Crinex_Settle
begin

text \<open>
  The wire protocols of \<^verbatim>\<open>sidereon-core\<close>: the RTCM 3 codec of
  \<^verbatim>\<open>src/crates/sidereon-core/src/rtcm\<close> and the transport below it in \<^verbatim>\<open>src/crates/sidereon-core/src/ntrip\<close>;
  and the compression of observation files in \<^verbatim>\<open>src/crates/sidereon-core/src/crinex\<close>.

  \<^bold>\<open>The program.\<close> The NTRIP client asks a caster for a stream and reads the response: a status, headers,
  and a data stream or a source table, possibly in chunked transfer coding. It is fed fragments of
  the connection's bytes and reports events; what the payload events carry is a stream of RTCM 3 frames: a preamble, a 10-bit length with six reserved
  bits, a body and a CRC-24Q. The framing layer finds frames and resynchronises on anything else;
  the stream layer decodes the bodies of the frames into messages, at once or chunk by chunk
  through an assembler with a carry buffer, and collects diagnostics. Each message type reads its
  fields from a bit reader and writes them through a range-checked field writer. Bodies that depart
  from the format are read under a lenient policy, with a record of each departure, and refused
  under a strict one; bodies of other types are kept whole. On decoded MSM the lock-time layer
  derives loss-of-lock indicators from the history of each signal.

  CRINEX is the Hatanaka compression of RINEX observation files. Its decoder keeps, for each satellite
  and observation, the last values of an arc and recovers a value from a difference of order 1 to 6;
  epoch lines, flags and picoseconds are recovered from text differences. A stream is parsed into
  epochs of integers, from which the RINEX text is written, and the compressor goes the other way:
  RINEX text is read into the same epochs, which are written as a stream of resets.

  \<^bold>\<open>The theories and the code.\<close>

  \<^descr> \<^theory_text>\<open>Rust_Prelude\<close>: widths, casts, error sums, bit lists of values.

  \<^descr> \<^theory_text>\<open>Rtcm_Error\<close>: the error and departure types of \<^verbatim>\<open>encode_error.rs\<close>, \<^verbatim>\<open>mod.rs\<close>, \<^verbatim>\<open>error.rs\<close>.

  \<^descr> \<^theory_text>\<open>Rtcm_Bits\<close>: \<^verbatim>\<open>bits.rs\<close>; the reader as bytes and a bit position, the writers as bytes and a
  bit count. Its lemmas relate them to lists of bits.

  \<^descr> \<^theory_text>\<open>Rtcm_Codec\<close>: the reader and writer steps the messages are composed of, with the relations
  \<open>sync\<close> (a reader reads back what a list of writes wrote), \<open>deco\<close> (what a reader has consumed,
  given its result) and \<open>writes\<close>, and a collection of rules for each.

  \<^descr> \<^theory_text>\<open>Rtcm_Context\<close>: the decode context, the bits after the last field, and the locales
  \<open>body_codec\<close> and \<open>plain_codec\<close>: what one message type promises, and the round trips that follow.
  \<^theory_text>\<open>Rtcm_Counted\<close>: the counted records of \<^verbatim>\<open>network.rs\<close> with the locale \<open>counted_codec\<close>.

  \<^descr> \<^theory_text>\<open>Rtcm_Station\<close>, \<^theory_text>\<open>Rtcm_Network\<close>, \<^theory_text>\<open>Rtcm_Legacy\<close>, \<^theory_text>\<open>Rtcm_Ephemeris\<close>, \<^theory_text>\<open>Rtcm_Transformation\<close>,
  \<^theory_text>\<open>Rtcm_Msm\<close> with \<^theory_text>\<open>Rtcm_Msm_Codec\<close>, \<^theory_text>\<open>Rtcm_Ssr\<close> with \<^theory_text>\<open>Rtcm_Ssr_Codec\<close>, \<^theory_text>\<open>Rtcm_Vtec\<close>: one
  record and one read, check, write and encode function per message type of the file of that name,
  and an interpretation of its locale.

  \<^descr> \<^theory_text>\<open>Rtcm_Message\<close>, \<^theory_text>\<open>Rtcm_Message_Codec\<close>: the \<^verbatim>\<open>Message\<close> enum of \<^verbatim>\<open>mod.rs\<close>, its dispatch on the
  number of a body and its encoders; the round trips over all variants and the two policies.

  \<^descr> \<^theory_text>\<open>Rtcm_Crc\<close>, \<^theory_text>\<open>Rtcm_Framing\<close>: \<^verbatim>\<open>crc.rs\<close> and \<^verbatim>\<open>framing.rs\<close>; the CRC as a linear shift register,
  frames, and the scanner over a buffer.

  \<^descr> \<^theory_text>\<open>Rtcm_Stream\<close>: the stream decoder and the assembler of \<^verbatim>\<open>mod.rs\<close>. Their specification is
  \<open>drain\<close>, which looks at one byte at a time; the locale \<open>scan_loop\<close> shows that a loop which
  jumps from preamble to preamble computes it, and is interpreted on both loops.

  \<^descr> \<^theory_text>\<open>Rtcm_Lli\<close>: \<^verbatim>\<open>lli.rs\<close>; lock times and epochs on words, the tracker as a map of cells.

  \<^descr> \<^theory_text>\<open>Ntrip_Chunk\<close>: \<^verbatim>\<open>ntrip/chunk.rs\<close>; one turn of its loop is \<open>chunk_step\<close>.

  \<^descr> \<^theory_text>\<open>Rust_Text\<close>, \<^theory_text>\<open>Rust_Float\<close>: what the text protocols use of \<^verbatim>\<open>str\<close>, \<^verbatim>\<open>String\<close> and the text of
  \<^verbatim>\<open>f64\<close>: lossy UTF-8, trimming and splitting, number parsing, correctly rounded decimal input and
  shortest decimal output on bit patterns, with the proof that output reads back.

  \<^descr> \<^theory_text>\<open>Ntrip_Request\<close>, \<^theory_text>\<open>Ntrip_Response\<close>, \<^theory_text>\<open>Ntrip_Sourcetable\<close>: \<^verbatim>\<open>request.rs\<close>, \<^verbatim>\<open>response.rs\<close>,
  \<^verbatim>\<open>sourcetable.rs\<close>.

  \<^descr> \<^theory_text>\<open>Ntrip_Machine\<close>: \<^verbatim>\<open>machine.rs\<close>; one turn of the loop of \<^verbatim>\<open>push\<close> is \<open>client_step\<close>, and the abstract
  session \<open>session_step\<close> is what its events obey. \<^theory_text>\<open>Ntrip_Fragments\<close>: pushing parts of the input
  against pushing the whole. \<^theory_text>\<open>Ntrip_Session\<close>: whole ICY and HTTP responses. \<^theory_text>\<open>Ntrip_Table\<close>: whole source
  tables. \<^theory_text>\<open>Ntrip_Limits\<close>: turns,
  memory, the end of source tables, and the relation \<open>reachable\<close> over all operations (requests while
  the client is not closed: a closed one keeps its buffers and has to be reset).

  \<^descr> \<^theory_text>\<open>Rust_Str\<close>: text addressed by byte columns, \<^verbatim>\<open>format/columns.rs\<close>, lines and integer text.

  \<^descr> \<^theory_text>\<open>Crinex_Diff\<close>, \<^theory_text>\<open>Crinex_Decoder\<close>, \<^theory_text>\<open>Crinex_Encoder\<close>, \<^theory_text>\<open>Crinex_Rinex\<close>: \<^verbatim>\<open>crinex/mod.rs\<close>, in
  the order difference engines, parser, writers, RINEX reader; the record \<open>decoder\<close> has the fields of
  \<^verbatim>\<open>Decoder\<close>, its hash maps as functions. The locale \<open>difference_engine\<close> is what both engines promise.
  \<^theory_text>\<open>Crinex_Roundtrip\<close>: a stream within the format (\<open>stream_typed\<close>) with marked descriptors and distinct
  satellites (\<open>stream_tidy\<close>) is written as a text that parses back. \<^theory_text>\<open>Crinex_Types\<close>: what the parser
  returns is within the format, by an invariant of the decoder. \<^theory_text>\<open>Crinex_Rinex_Back\<close>,
  \<^theory_text>\<open>Crinex_Rinex_Text\<close>: the RINEX text of a stream whose lines hold nothing beyond their columns
  (\<open>stream_placed\<close>) reads back, line by line and then whole. \<^theory_text>\<open>Crinex_Settle\<close>: the text of any stream whose
  numbers fit their columns (\<open>stream_in_columns\<close>) is that of a stream of the former kind (\<open>settle_stream\<close>).

  \<^bold>\<open>Conventions.\<close> A \<^verbatim>\<open>Result\<close> is a sum with the error on the left, a mutable reference is passed and
  returned, \<^verbatim>\<open>uN\<close> values that are data are words of that width, signed values are integers with the
  casts written out, and \<^verbatim>\<open>usize\<close> counts are natural numbers (a buffer never reaches \<open>2 ^ 64\<close> bytes).
  Loops are recursive functions with a measure: the bytes or bits left. No fuel is used by
  the model; \<open>client_turns\<close> counts turns only to state how many suffice.

  \<^bold>\<open>What is shown.\<close> For the codec: a body that decodes re-encodes to itself, departures included, and
  a message that encodes decodes to itself up to alignment bits and the order of MSM records; the
  strict policy refines the lenient one. For frames and streams: every accepted byte is accounted
  for, damage by a burst of up to 24 bits is found, the assembler computes the one-shot decoder for
  every cut of the stream and holds less than one frame. For the chunked decoder: every cut of a
  chunked body gives its data. For the client: events follow the session protocol, fragments do not
  matter, memory and turns are bounded, a response of either kind delivers its body and no more, and
  its payloads drive the assembler to the messages of the body; requests cannot be injected into, and
  source tables survive their text. For lock times: the word arithmetic is the arithmetic of the
  standard's tables, and the tracker updates exactly the cells of a message.

  For CRINEX: parsing gives typed streams, writing and parsing are inverse, the decompressor writes the
  text of the parsed stream and nothing else, compressing that text again loses nothing, and the
  differences of any order recover values of up to 56 bits without overflow. A panic of the encoder is
  a value of the model (\<open>None\<close>), and excluded by the typing theorems.

  \<^bold>\<open>Not modelled.\<close> Accessors and conversions to \<^verbatim>\<open>f64\<close> units (coordinates in metres, broadcast
  ephemeris records, ionospheric harmonics), the \<^verbatim>\<open>Display\<close> texts of encode errors, the position
  sentences of \<^verbatim>\<open>gga.rs\<close> (an argument of the client's message operations), and the rest of the crate: astrodynamics,
  estimation, products and the other text formats, which compute on floating point numbers.
\<close>

section \<open>A worked frame\<close>

text \<open>
  The 1005 message of the RTCM 10403 example: its fields, its body and its frame.
  The witnesses below evaluate the codec on it.
\<close>

definition site_1005 :: station_coordinates where
  "site_1005 = \<lparr>st_message_number = 1005, st_reference_station_id = 2003,
     st_itrf_realization_year = 0, st_gps_indicator = True, st_glonass_indicator = False,
     st_galileo_indicator = False, st_reference_station_indicator = False,
     st_ecef_x = 11141045999, st_single_receiver_oscillator = False, st_reserved = False,
     st_ecef_y = -48507297108, st_quarter_cycle_indicator = 0, st_ecef_z = 39755214643,
     st_antenna_height = None, st_trailing_bits = []\<rparr>"

definition body_1005 :: "u8 list" where
  "body_1005 = [0x3E, 0xD7, 0xD3, 0x02, 0x02, 0x98, 0x0E, 0xDE, 0xEF, 0x34, 0xB4, 0xBD, 0x62,
     0xAC, 0x09, 0x41, 0x98, 0x6F, 0x33]"

definition frame_1005 :: "u8 list" where
  "frame_1005 = [0xD3, 0x00, 0x13] @ body_1005 @ [0x36, 0x0B, 0x98]"

lemma decode_1005: "message_decode_with_policy body_1005 pol = Inr (StationCoordinates site_1005, [])"
  by (cases pol) code_simp+

lemma encode_1005: "message_encode_with_policy pol (StationCoordinates site_1005) = Inr (body_1005, [])"
  by (cases pol) code_simp+

lemma frame_1005_encoded: "encode_frame_with_reserved body_1005 0 = Inr frame_1005"
  by code_simp

lemma frame_1005_decoded:
  "decode_frame frame_1005 = Inr \<lparr>df_body = body_1005, df_frame_len = 25, df_reserved = 0\<rparr>"
  by code_simp

lemma to_frame_1005: "to_frame (StationCoordinates site_1005) = Inr frame_1005"
  by code_simp

text \<open>An MSM4 of two satellites, given in descending order.\<close>

definition signal_1074 :: "u8 \<Rightarrow> msm_signal" where
  "signal_1074 sat = \<lparr>sg_satellite_id = sat, sg_signal_id = 2, sg_fine_pseudorange = Some 5,
     sg_fine_phase_range = Some (- 7), sg_lock_time_indicator = Some 6, sg_half_cycle_ambiguity = Some True,
     sg_cnr = Some 40, sg_fine_phase_range_rate = None\<rparr>"

definition satellite_1074 :: "u8 \<Rightarrow> msm_satellite" where
  "satellite_1074 sat = \<lparr>ms_id = sat, ms_rough_range_ms = Some 70, ms_rough_range_mod1 = 512,
     ms_extended_info = None, ms_rough_phase_range_rate_m_s = None\<rparr>"

definition msm_1074 :: msm_message where
  "msm_1074 = \<lparr>mm_message_number = 1074, mm_system = Gps, mm_kind = Msm4,
     mm_header = \<lparr>mh_reference_station_id = 2003, mh_epoch_time = 1000, mh_multiple_message = False,
       mh_iods = 0, mh_reserved = 0, mh_clock_steering = 0, mh_external_clock = 0,
       mh_divergence_free_smoothing = False, mh_smoothing_interval = 0\<rparr>,
     mm_signal_mask = 0x40000000,
     mm_satellites = [satellite_1074 9, satellite_1074 3],
     mm_signals = [signal_1074 9, signal_1074 3], mm_trailing_bits = []\<rparr>"

section \<open>A worked connection\<close>

definition icy_200 :: "u8 list" where
  "icy_200 = [0x49, 0x43, 0x59, 0x20, 0x32, 0x30, 0x30, 0x20, 0x4F, 0x4B]"

lemmas text_eval =
  lit_def trim_def trim_start_def trim_end_def is_whitespace_def strip_prefix_def split_whitespace_once_def
  status_parts_def parse_uint_def is_digit_def decimal_value_def digit_value_def

lemma icy_200_status: "icy_status icy_200"
proof -
  have "from_utf8_lossy icy_200 = map ucast icy_200" by (rule ascii_lossy) (simp add: icy_200_def)
  then have "parse_prefixed_status (trim (from_utf8_lossy icy_200)) ''ICY'' = Some (200, lit ''OK'')"
    by (simp add: icy_200_def parse_prefixed_status_def text_eval)
  then show ?thesis by (simp add: icy_status_def is_line_def icy_200_def LF_def CHUNK_MAX_LINE_def)
qed

definition http_200 :: "u8 list" where
  "http_200 = [0x48, 0x54, 0x54, 0x50, 0x2F, 0x31, 0x2E, 0x31, 0x20, 0x32, 0x30, 0x30, 0x20, 0x4F, 0x4B]"

text \<open>\<^verbatim>\<open>Transfer-Encoding: chunked\<close>\<close>

definition chunked_header :: "u8 list" where
  "chunked_header = [0x54, 0x72, 0x61, 0x6E, 0x73, 0x66, 0x65, 0x72, 0x2D, 0x45, 0x6E, 0x63, 0x6F, 0x64, 0x69, 0x6E, 0x67,
     0x3A, 0x20, 0x63, 0x68, 0x75, 0x6E, 0x6B, 0x65, 0x64]"

definition chunked_handshake :: ntrip_handshake where
  "chunked_handshake = \<lparr>hs_version = Rev2, hs_chunked = True, hs_headers = [(lit ''Transfer-Encoding'', lit ''chunked'')]\<rparr>"

lemma chunked_header_parsed: "http_headers [chunked_header] = [(lit ''Transfer-Encoding'', lit ''chunked'')]"
proof -
  have "from_utf8_lossy (take 17 chunked_header) = map ucast (take 17 chunked_header)"
    "from_utf8_lossy (drop 19 chunked_header) = map ucast (drop 19 chunked_header)"
    by (rule ascii_lossy; simp add: chunked_header_def)+
  moreover have "iter_position (\<lambda>b. b = 0x3A) chunked_header = Some 17" "length chunked_header = 26" "chunked_header ! 18 = 0x20"
    by (simp_all add: chunked_header_def)
  ultimately have "split_header chunked_header
      = Some (trim (map ucast (take 17 chunked_header)), map ucast (drop 19 chunked_header))"
    by (simp add: split_header_def)
  then show ?thesis by (simp add: http_headers_def map_filter_def text_eval) (simp add: chunked_header_def text_eval)
qed

lemma http_200_status: "parse_http_status (trim (from_utf8_lossy http_200)) = Some (Rev2, 200, lit ''OK'')"
proof -
  have "from_utf8_lossy http_200 = map ucast http_200" by (rule ascii_lossy) (simp add: http_200_def)
  then show ?thesis by (simp add: http_200_def parse_http_status_def text_eval)
qed

lemma http_200_response: "http_response http_200 [chunked_header] chunked_handshake"
proof -
  note http_200_status
  moreover have "classify_http_response 200 (lit ''OK'') [(lit ''Transfer-Encoding'', lit ''chunked'')] = ClStream True"
    by code_simp
  ultimately show ?thesis
    by (simp add: http_response_def chunked_header_parsed chunked_header_parsed [unfolded chunked_header_def]
        chunked_handshake_def is_line_def http_200_def chunked_header_def LF_def
        CHUNK_MAX_LINE_def MAX_HEADER_BLOCK_def)
qed

section \<open>Properties\<close>

text \<open>
  C1. A body that decodes, under either policy, re-encodes to exactly the same bytes with the same
  departures, and the decoded variant carries the number of the body.
\<close>

theorem message_reencodes:
  assumes "message_decode_with_policy body pol = Inr (msg, ds)"
  shows "message_encode_with_policy pol msg = Inr (body, ds)
    \<and> message_number_classified body = Inr (message_number msg)"
  using message_decode_reproduces [of body pol msg] assms
  by (auto simp: message_decode_with_policy_def reproduces_def split: sum.splits)

theorem message_reencodes_witness:
  "message_encode_with_policy Strict (StationCoordinates site_1005) = Inr (body_1005, [])
   \<and> message_number_classified body_1005 = Inr (message_number (StationCoordinates site_1005))"
  using message_reencodes [OF decode_1005] by simp

text \<open>
  C2. A message that encodes, with as many records as its header counts, decodes from the encoded
  body: the same variant and fields, the kept bits aligned to a byte, an MSM in mask order,
  the same departures.
\<close>

theorem message_decodes_back:
  assumes "message_encode_with_policy pol msg = Inr (body, ds)" and "records_complete msg"
  shows "\<exists>n. message_decode_with_policy body pol = Inr (message_as_read n msg, ds)"
  using message_encode_reads_back [OF assms]
  by (auto simp: message_decode_with_policy_def reads_back_def)

theorem message_decodes_back_witness:
  "\<exists>n. message_decode_with_policy body_1005 Lenient
     = Inr (message_as_read n (StationCoordinates site_1005), [])"
  by (rule message_decodes_back [OF encode_1005]) (simp add: records_complete_def)

text \<open>
  C3. However a stream is cut into chunks, pushing them into an assembler and finishing gives the
  messages and the diagnostics of decoding the whole stream at once; nothing stays buffered
  and every byte is consumed.
\<close>

theorem stream_chunking:
  assumes "push_all chunks (assembler_with_policy pol) = (out, a)" and "assembler_finish a = (rest, b)"
  shows "decode_stream_with_policy (concat chunks) pol
      = \<lparr>messages = decoded_only (out @ rest), diagnostics = as_diagnostics b\<rparr>
    \<and> as_buf b = [] \<and> as_drained b = length (concat chunks)"
  using assembled_stream [of chunks pol "out @ rest" b] assms by (simp add: assembled_def)

theorem stream_chunking_witness:
  "decode_stream_with_policy (concat [[0x00], take 9 frame_1005, drop 9 frame_1005]) Strict
     = \<lparr>messages = [StationCoordinates site_1005], diagnostics = diagnostics_default\<lparr>resync_bytes := 1\<rparr>\<rparr>"
proof -
  have "push_all [[0x00], take 9 frame_1005, drop 9 frame_1005] (assembler_with_policy Strict)
     = ([Inr (StationCoordinates site_1005)],
        (assembler_with_policy Strict)\<lparr>as_drained := 26, as_diagnostics := diagnostics_default\<lparr>resync_bytes := 1\<rparr>\<rparr>)"
    by code_simp
  then show ?thesis by (rule stream_chunking [THEN conjunct1, THEN trans]) code_simp+
qed

text \<open>
  C4. A frame built from a body and its reserved bits decodes to them from the front of any buffer
  that starts with it.
\<close>

theorem frame_decodes:
  assumes "encode_frame_with_reserved body reserved = Inr frame"
  shows "decode_frame (frame @ rest)
      = Inr \<lparr>df_body = body, df_frame_len = length frame, df_reserved = reserved\<rparr>"
  by (rule decode_frame_encode(1) [OF assms])

theorem frame_decodes_witness:
  "decode_frame (frame_1005 @ [0xD3])
      = Inr \<lparr>df_body = body_1005, df_frame_len = length frame_1005, df_reserved = 0\<rparr>"
  by (rule frame_decodes [OF frame_1005_encoded])

text \<open>
  C5. A scan to the end of a buffer accounts for every byte: the lengths of the frames and the
  resynchronisation count add up to the buffer, and the frames are frames of the buffer in
  order, without overlap.
\<close>

theorem scan_accounts_bytes:
  assumes "scan_all (scanner_new bytes) = (frames, s)"
  shows "sum_list (map df_frame_len frames) + fs_resync_bytes s = length bytes
    \<and> frames_in bytes 0 frames"
  using scan_all_accounts [OF assms] scan_all_frames_in [OF assms] by (auto simp: scanner_new_def)

theorem scan_accounts_bytes_witness:
  "\<exists>frames s. scan_all (scanner_new (0xD3 # frame_1005)) = (frames, s) \<and>
     sum_list (map df_frame_len frames) + fs_resync_bytes s = 26"
proof -
  obtain frames s where eq: "scan_all (scanner_new (0xD3 # frame_1005)) = (frames, s)" by fastforce
  with scan_accounts_bytes [OF eq] show ?thesis by (auto simp: frame_1005_def body_1005_def)
qed

text \<open>The pieces a consumer receives.\<close>

definition payload_chunks :: "ntrip_event list \<Rightarrow> u8 list list" where
  "payload_chunks events = List.map_filter (\<lambda>e. case e of Payload bytes \<Rightarrow> Some bytes | _ \<Rightarrow> None) events"

lemma concat_payload_chunks: "concat (payload_chunks events) = payloads events"
  by (induction events rule: payloads.induct) (simp_all add: payload_chunks_def map_filter_simps)

lemma body_frame: "is_body [([0x31, 0x39], frame_1005)] [0x30] []"
proof -
  have "parse_size_line [0x31, 0x39] = Inr 25" "parse_size_line [0x30] = Inr 0"
    using parse_size_digits [of "[1, 9]"] parse_size_digits [of "[0]"]
    by (simp_all add: hex_value_def hex_char_def MAX_CHUNK_SIZE_def)
  then show ?thesis
    by (simp add: is_body_def is_chunk_def is_line_def are_trailers_def LF_def CHUNK_MAX_LINE_def frame_1005_def body_1005_def)
qed

text \<open>
  C6. The whole receiving path: a chunked HTTP response in any fragments, whose payload events are
  pushed one by one into an RTCM assembler, gives the messages and diagnostics of decoding the
  concatenated chunk data at once.
\<close>

theorem caster_to_messages:
  assumes "http_response line lines hs" and "hs_chunked hs" and "is_body chunks final trailers"
    and "concat fragments = line @ [CR, LF] @ header_bytes lines @ chunked_body chunks final trailers"
    and "client_pushes fragments (requested config) = (m, events)"
    and "push_all (payload_chunks events) (assembler_with_policy pol) = (out, a)" and "assembler_finish a = (rest, b)"
  shows "decode_stream_with_policy (concat (map snd chunks)) pol
      = \<lparr>messages = decoded_only (out @ rest), diagnostics = as_diagnostics b\<rparr>
    \<and> notices events = [Connected hs, StreamEnded] \<and> cm_state m = Closed"
proof -
  have "notices events = [Connected hs, StreamEnded]" "cm_state m = Closed" "payloads events = concat (map snd chunks)"
    using http_chunked [OF assms(1-4), of config] assms(5) by auto
  then show ?thesis
    using assembled_stream [of "payload_chunks events" pol "out @ rest" b] assms(6,7)
    by (simp add: assembled_def concat_payload_chunks)
qed

theorem caster_to_messages_witness:
  "decode_stream_with_policy frame_1005 Strict = \<lparr>messages = [StationCoordinates site_1005], diagnostics = diagnostics_default\<rparr>"
proof -
  define raw where "raw = chunked_body [([0x31, 0x39], frame_1005)] [0x30] []"
  obtain m events where run: "client_pushes [http_200 @ [CR, LF] @ header_bytes [chunked_header] @ raw] (requested config_default)
      = (m, events)" and "payloads events = frame_1005"
    using http_chunked [OF http_200_response _ body_frame, of "[http_200 @ [CR, LF] @ header_bytes [chunked_header] @ raw]" config_default]
    by (auto simp: chunked_handshake_def raw_def)
  obtain out a where p: "push_all (payload_chunks events) (assembler_with_policy Strict) = (out, a)" by fastforce
  obtain rest b where f: "assembler_finish a = (rest, b)" by fastforce
  have "decode_stream_with_policy (concat (map snd [([0x31, 0x39], frame_1005)])) Strict
      = \<lparr>messages = decoded_only (out @ rest), diagnostics = as_diagnostics b\<rparr>"
    using caster_to_messages [OF http_200_response _ body_frame _ run p f] by (simp add: chunked_handshake_def raw_def)
  moreover have "decode_stream_with_policy (concat (map snd [([0x31 :: u8, 0x39], frame_1005)])) Strict
      = \<lparr>messages = [StationCoordinates site_1005], diagnostics = diagnostics_default\<rparr>"
    by code_simp
  ultimately show ?thesis by simp
qed

text \<open>
  C7. Fragments do not matter to the client: in every state, plain or chunked, data or source
  table, pushing two parts of the input ends as pushing the whole, with the same payload bytes
  and the same other events, unless the second part is corrupt or the first has closed it.
\<close>

theorem client_fragments:
  assumes "client_push part1 m = (m1, e1)" and "cm_state m1 \<noteq> Closed"
    and "client_push part2 m1 = (m2, e2)" and "\<not> corrupted e2"
  shows "\<exists>m' e. client_push (part1 @ part2) m = (m', e) \<and> same_events e (e1 @ e2) \<and> alike_client m' m2"
  using client_push_append [OF assms(1-3)] assms(4) by (auto simp: resumed_def)

theorem client_fragments_witness:
  "\<exists>m' e. client_push ((icy_200 @ [CR, LF]) @ [CR, LF, 0xD3]) (requested config_default) = (m', e)
     \<and> payloads e = [0xD3] \<and> notices e = [Connected icy_handshake]"
proof -
  obtain m1 where one: "client_push (icy_200 @ [CR, LF]) (requested config_default) = (m1, [Connected icy_handshake])"
    and m1: "m1 = icy_client config_default []"
    using icy_push [OF icy_200_status, of "[]" config_default] by (simp add: icy_drain)
  have two: "client_push [CR, LF, 0xD3] m1 = ((icy_client config_default [])\<lparr>cm_pending_icy_blank_line := False\<rparr>, [Payload [0xD3]])"
    using icy_drain(2) [of config_default "[0xD3]"]
    by (simp add: m1 client_push_def client_loop.simps client_step_def)
  have "cm_state m1 \<noteq> Closed" by (simp add: m1)
  from client_fragments [OF one this two] show ?thesis by (auto simp: same_events_def)
qed

text \<open>
  C8. Whatever is fed to a client, its events follow the session protocol: at most one connection,
  payloads (never empty) only after it, and nothing after a rejection, a source table, a
  corruption or the end; the state tells where the session stands.
\<close>

theorem client_protocol:
  assumes "client_pushes fragments (client_new config) = (m, events)" and "client_finish m = (m', last_events)"
  shows "session_run Waiting (events @ last_events) = Some (session_of m')"
proof -
  have "session_of (client_new config) = Waiting" by (simp add: session_of_def client_new_def)
  with client_pushes_session [OF assms(1)] client_finish_session [OF assms(2)] show ?thesis
    by (simp add: session_run_append)
qed

theorem client_protocol_witness:
  "\<exists>m events m' last_events. client_pushes [icy_200 @ [CR, LF, CR, LF, 0xD3]] (client_new config_default) = (m, events)
     \<and> client_finish m = (m', last_events) \<and> session_run Waiting (events @ last_events) = Some (session_of m')"
proof -
  obtain m events where p: "client_pushes [icy_200 @ [CR, LF, CR, LF, 0xD3]] (client_new config_default) = (m, events)"
    by fastforce
  obtain m' last_events where f: "client_finish m = (m', last_events)" by fastforce
  from client_protocol [OF p f] p f show ?thesis by blast
qed

section \<open>A worked CRINEX stream\<close>

text \<open>
  A CRINEX 3 stream: a header that declares two observation types, an epoch with a negative clock offset
  and one satellite whose second observation is blank but flagged, its epoch line
  with the blanks of an earlier longer list, and an event that redeclares the types.
\<close>

definition crinex_header :: "rust_str list" where
  "crinex_header =
     [blit ''     4.02'' @ replicate 51 blank @ blit ''RINEX VERSION / TYPE'',
      blit ''G    2 C1C L1C'' @ replicate 46 blank @ blit ''SYS / # / OBS TYPES'',
      replicate 60 blank @ blit ''END OF HEADER'']"

definition crinex_stream :: obs_stream where
  "crinex_stream =
     \<lparr>os_version = V3, os_header = crinex_header,
      os_epochs =
       [ObsRecord
          \<lparr>oe_descriptor = blit ''> 2024 01 01 00 00  0.0000000  0  1      G05   '', oe_clock = Some (- 123456),
           oe_picoseconds = Some (blit ''00042''),
           oe_sats = [\<lparr>sat_sv = blit ''G05'', sat_values = [Some 23456789012, None], sat_flags = blit '' 7 1''\<rparr>]\<rparr>,
        EventRecord (blit ''> 2024 01 01 00 00 30.0000000  4  1'')
          [blit ''G    1 L1C'' @ replicate 50 blank @ blit ''SYS / # / OBS TYPES'']]\<rparr>"

lemma crinex_stream_typed: "stream_typed crinex_stream"
  by code_simp

lemma crinex_stream_tidy: "stream_tidy crinex_stream"
  by code_simp

lemma crinex_stream_in_columns: "stream_in_columns crinex_stream"
proof -
  have first: "scan_version new_decoder (hd crinex_header) =
      Inr (new_decoder\<lparr>dc_version := V3, dc_picoseconds := rinex_version_carries_picoseconds (blit ''4.02'')\<rparr>)"
  proof -
    have "str_trim (raw_field (hd crinex_header) 0 9) = blit ''4.02''" by code_simp
    moreover have "rinex_revision (blit ''4.02'') = Inr V3" by code_simp
    ultimately show ?thesis by (simp only: scan_version_def Let_def ebind_simps)
  qed
  have label: "trim_eol (hd crinex_header) = hd crinex_header"
    "header_label (hd crinex_header) = blit ''RINEX VERSION / TYPE''"
    "blit ''RINEX VERSION / TYPE'' \<noteq> blit ''END OF HEADER''"
    by code_simp+
  have "case ebind (classify_header_label (new_decoder\<lparr>dc_version := V3, dc_picoseconds := on\<rparr>)
          (hd crinex_header) (blit ''RINEX VERSION / TYPE'')) (\<lambda>d. scan_header_lines d True (tl crinex_header)) of
        Inl _ \<Rightarrow> False | Inr (d, header, rest) \<Rightarrow> rest = [] \<and> dc_version d = V3 \<and> dc_picoseconds d = on" for on
    by code_simp
  from this [of True] have "case scan_rinex_header new_decoder (hd crinex_header # tl crinex_header) of
      Inl _ \<Rightarrow> False | Inr (d, header, rest) \<Rightarrow> rest = [] \<and> dc_version d = V3 \<and> dc_picoseconds d"
    unfolding scan_rinex_header_def scan_header_lines.simps Let_def label first ebind_simps
    using label(3) carries_402 by (auto split: sum.splits)
  moreover have "hd crinex_header # tl crinex_header = crinex_header" by (simp add: crinex_header_def)
  moreover have "case header_widths crinex_header of None \<Rightarrow> False | Some w \<Rightarrow> epochs_in_columns V3 w (os_epochs crinex_stream)"
    by code_simp
  moreover have "os_version crinex_stream = V3" "os_header crinex_stream = crinex_header"
    by (simp_all add: crinex_stream_def)
  ultimately show ?thesis by (auto simp: stream_in_columns_def split: sum.splits option.splits)
qed

lemmas crinex_stream_text = encoded_stream_plain [OF crinex_stream_typed crinex_stream_tidy]

text \<open>
  C9. The RINEX text of a stream, in either revision, with its satellite list and observation rows
  wrapped, its trailing blanks removed and its values in fixed columns, parses back to the
  stream, its epoch and event lines rebuilt without what they hold beyond their columns and
  its flags made two for each observation; and compressing that text and decompressing again
  gives the text. The stream has to be within the format (counts, flags, satellites and
  declarations as its descriptors state), with marked descriptors, distinct satellites and, in
  CRINEX 1, two flags for each observation; its header has to be one the RINEX reader takes
  for the same revision and, when an epoch has picoseconds, of a version that carries them;
  its values and clocks have to fit their fields; its satellite names have to be three ASCII
  characters, the last not blank; and in RINEX 2 the lines of a cycle slip event have to be as
  many as its count says.
\<close>

theorem rinex_text_back:
  assumes "stream_typed s" and "stream_tidy s" and "stream_in_columns s"
  shows "parse_rinex_obs (stream_text s) = Inr (settle_stream s)
    \<and> (\<exists>t. encode_crinex (stream_text s) = Some (Inr t) \<and> decode t = Inr (stream_text s))"
  using settled_read_back [OF assms] by blast

theorem rinex_text_back_witness:
  "settle_stream crinex_stream \<noteq> crinex_stream \<and> parse_rinex_obs (stream_text crinex_stream) = Inr (settle_stream crinex_stream)
    \<and> (\<exists>t. encode_crinex (stream_text crinex_stream) = Some (Inr t) \<and> decode t = Inr (stream_text crinex_stream))"
proof -
  have "settle_stream crinex_stream \<noteq> crinex_stream" by code_simp
  with rinex_text_back [OF crinex_stream_typed crinex_stream_tidy crinex_stream_in_columns] show ?thesis by blast
qed

text \<open>
  C10. The guarantee of encode_stream, for ASCII text with LF or CR LF line ends: writing a parsed
  CRINEX stream in the canonical all-reset form gives a text that decompresses to the same
  RINEX lines, whatever orders and differences the source used, when every descriptor carries
  its mark, no epoch has a satellite twice and, in CRINEX 1, every satellite has exactly two
  flags for each observation.
\<close>

theorem crinex_text_back:
  assumes "plain_text x" and "parse_stream x = Inr s" and "stream_tidy s"
  shows "\<exists>t. encode_stream s = Some t \<and> decode t = decode x"
  using encoded_stream_plain [OF parsed_stream_typed [OF assms(1,2)] assms(3)] assms(2)
  by (auto simp: decode_parse)

theorem crinex_text_back_witness:
  "\<exists>x t. parse_stream x = Inr crinex_stream \<and> encode_stream crinex_stream = Some t \<and> decode t = decode x"
  using crinex_stream_text crinex_text_back [OF _ _ crinex_stream_tidy] by blast

text \<open>
  C11. A stream of observation epochs within the format (counts, flags and satellite lists as its
  descriptors state them) and with marked descriptors and distinct satellites is written as
  CRINEX text that parses back to the same stream, clocks, picoseconds, blank observations,
  flags and event records included.
\<close>

theorem crinex_stream_back:
  assumes "stream_typed s" and "stream_tidy s"
  shows "\<exists>t. encode_stream s = Some t \<and> parse_stream t = Inr s"
  using encoded_stream_plain [OF assms] by blast

theorem crinex_stream_back_witness:
  "\<exists>t. encode_stream crinex_stream = Some t \<and> parse_stream t = Inr crinex_stream"
  by (rule crinex_stream_back [OF crinex_stream_typed crinex_stream_tidy])

text \<open>
  C12. Whatever ASCII CRINEX text, with LF or CR LF line ends, the parser accepts, the stream it
  returns is within the format: every satellite has as many observations as the declaration in
  force for its system, all values and clocks are 64-bit integers, picoseconds are five
  digits, flags never hold the blanking mark, and each descriptor states the number of its
  satellites or lines.
\<close>

theorem crinex_streams_typed:
  assumes "plain_text x" and "parse_stream x = Inr s"
  shows "stream_typed s"
  by (rule parsed_stream_typed [OF assms])

theorem crinex_streams_typed_witness:
  "\<exists>x. plain_text x \<and> parse_stream x = Inr crinex_stream \<and> stream_typed crinex_stream"
  using crinex_stream_text crinex_streams_typed by blast

text \<open>
  C13. The streaming decompressor, which emits each RINEX line as it recovers it, gives exactly the
  text of the parsed stream, and refuses exactly the texts the parser refuses, with the same
  error.
\<close>

theorem crinex_decode_parses:
  "decode x = ebind (parse_stream x) (\<lambda>s. Inr (stream_text s))"
  by (rule decode_parse)

lemma body_123: "is_body [([0x33], [1, 2, 3])] [0x30] []"
proof -
  have "parse_size_line [0x33] = Inr 3" "parse_size_line [0x30] = Inr 0"
    using parse_size_digits [of "[3]"] parse_size_digits [of "[0]"]
    by (simp_all add: hex_value_def hex_char_def MAX_CHUNK_SIZE_def)
  then show ?thesis by (simp add: is_body_def is_chunk_def is_line_def are_trailers_def LF_def CHUNK_MAX_LINE_def)
qed

text \<open>
  C14. A chunked body cut into any fragments decodes to the concatenation of its data and finishes:
  every fragment succeeds. Chunks are size lines with their data, then a zero-size line and
  trailer lines.
\<close>

theorem chunked_body_decodes:
  assumes "is_body chunks final trailers" and "concat fragments = chunked_body chunks final trailers"
  shows "\<exists>d. chunk_pushes fragments chunked_new = (Inr (concat (map snd chunks)), d) \<and> cd_finished d"
  by (rule body_pushes [OF assms])

theorem chunked_body_decodes_witness:
  "\<exists>d. chunk_pushes [[0x33, CR], [LF, 1, 2], [3, CR, LF, 0x30], [CR, LF, CR], [LF]] chunked_new
      = (Inr [1, 2, 3], d) \<and> cd_finished d"
  using chunked_body_decodes [of "[([0x33], [1, 2, 3])]" "[0x30]" "[]"
    "[[0x33, CR], [LF, 1, 2], [3, CR, LF, 0x30], [CR, LF, CR], [LF]]"]
  by (simp add: body_123 chunked_body_def chunk_bytes_def trailer_bytes_def)

text \<open>
  C15. The strict policy refines the lenient one: a body the strict policy decodes has no
  departures, and the lenient policy decodes it to the same message.
\<close>

theorem strict_reads_lenient:
  assumes "message_decode_with_policy body Strict = Inr (msg, ds)"
  shows "ds = [] \<and> message_decode_with_policy body Lenient = Inr (msg, [])"
  using assms strict_decode_lenient [of body msg]
  by (auto simp: message_decode_with_policy_def ctx_new_def split: sum.splits prod.splits)

theorem strict_reads_lenient_witness:
  "message_decode_with_policy body_1005 Lenient = Inr (StationCoordinates site_1005, [])"
  using strict_reads_lenient [OF decode_1005] by simp

text \<open>
  C16. The concatenation of the frames of messages that encode strictly decodes to those messages,
  in order, with the kept bits aligned and MSM in mask order.
\<close>

theorem frames_decode:
  assumes "list_all2 (\<lambda>m frame. to_frame m = Inr frame) ms frames"
  shows "\<exists>ns. length ns = length ms \<and> decode_messages (concat frames) = Inr (map2 message_as_read ns ms)"
  by (rule frames_decode_messages [OF assms])

theorem frames_decode_witness:
  "\<exists>ns. length ns = 2 \<and> decode_messages (concat [frame_1005, frame_1005])
     = Inr (map2 message_as_read ns [StationCoordinates site_1005, StationCoordinates site_1005])"
  using frames_decode [of "[StationCoordinates site_1005, StationCoordinates site_1005]" "[frame_1005, frame_1005]"]
  by (simp add: to_frame_1005 numeral_2_eq_2)

text \<open>
  C17. A byte stream that decode_messages accepts is exactly the concatenation of the frames of the
  messages it returns.
\<close>

theorem accepted_stream:
  assumes "decode_messages bytes = Inr ms"
  shows "\<exists>frames. concat frames = bytes \<and> list_all2 (\<lambda>m frame. to_frame m = Inr frame) ms frames"
  by (rule decode_messages_frames [OF assms])

theorem accepted_stream_witness:
  "\<exists>frames. concat frames = frame_1005
     \<and> list_all2 (\<lambda>m frame. to_frame m = Inr frame) [StationCoordinates site_1005] frames"
  by (rule accepted_stream) code_simp

text \<open>
  C18. Whatever decode_frame accepts is the encoding of the body and reserved bits it returns,
  inside the buffer.
\<close>

theorem frame_accepted:
  assumes "decode_frame bytes = Inr f"
  shows "encode_frame_with_reserved (df_body f) (df_reserved f) = Inr (take (df_frame_len f) bytes)
    \<and> df_frame_len f \<le> length bytes"
  using decode_frame_Inr [OF assms] by simp

theorem frame_accepted_witness:
  "encode_frame_with_reserved body_1005 0 = Inr (take 25 frame_1005) \<and> 25 \<le> length frame_1005"
  using frame_accepted [OF frame_1005_decoded] by simp

definition bad_1005 :: "u8 list" where
  "bad_1005 = frame_1005[5 := 0x2C, 6 := 0xFD]"

text \<open>
  C19. A frame whose body and parity are hit by an error burst of at most 24 bits is not accepted.
\<close>

theorem frame_burst_rejected:
  assumes "encode_frame_with_reserved body reserved = Inr frame"
    and "take 3 bad = take 3 frame" and "length bad = length frame"
    and "xor_bits (bits_of_bytes frame) (bits_of_bytes bad)
           = replicate i False @ burst @ replicate j False"
    and "length burst \<le> 24" and "list_ex (\<lambda>b. b) burst"
  shows "\<exists>e. decode_frame bad = Inl e"
  by (rule burst_rejected [OF assms])

theorem frame_burst_rejected_witness: "\<exists>e. decode_frame bad_1005 = Inl e"
proof (rule frame_burst_rejected [OF frame_1005_encoded])
  show "xor_bits (bits_of_bytes frame_1005) (bits_of_bytes bad_1005)
      = replicate 40 False @ replicate 16 True @ replicate 144 False"
    by code_simp
qed (simp_all add: bad_1005_def frame_1005_def body_1005_def eval_nat_numeral)

text \<open>
  C20. A client on which fragments, ends of input, position messages, resets and, while it is not
  closed, requests come in any order keeps its configuration, every recorded message time is
  finite, and while it is open it holds at most 8 KiB of undecoded input, 8 KiB of decoded
  source table that is not yet a line, 8 KiB of chunk lines, 64 Ki characters of headers and 4
  MiB of source table. A request on a closed client, which the code does not refuse, is
  outside: it has to be reset first.
\<close>

theorem client_memory:
  assumes "reachable config m"
  shows "cm_config m = config \<and> (\<forall>t. cm_last_gga_s m = Some t \<longrightarrow> f64_is_finite t)
    \<and> (cm_state m = Closed \<or>
       length (cm_carry m) \<le> 8192 \<and> length (cm_sourcetable_carry m) \<le> 8192
       \<and> length (cd_buf (cm_chunk_decoder m)) \<le> 8192
       \<and> header_chars (cm_headers m) \<le> 65536 \<and> length (str_bytes (cm_sourcetable_text m)) \<le> 4194304)"
  using reachable_ok [OF assms]
  by (auto simp: client_ok_def client_limits_def carry_limit_def MAX_LINE_def MAX_HEADER_BLOCK_def
      MAX_SOURCETABLE_def CHUNK_MAX_LINE_def)

theorem client_memory_witness:
  "\<exists>m. m = fst (client_push icy_200 (snd (connection_request (client_new config_default))))
     \<and> cm_state m = AwaitingStatus \<and> cm_config m = config_default \<and> length (cm_carry m) \<le> 8192"
proof -
  let ?m = "fst (client_push icy_200 (snd (connection_request (client_new config_default))))"
  have "cm_state (client_new config_default) \<noteq> Closed" by (simp add: client_new_def)
  then have "reachable config_default ?m" by (intro reachable.pushed reachable.request reachable.start)
  moreover have "iter_position (\<lambda>b. b = LF) icy_200 = None" by (rule no_position) (simp add: icy_200_def LF_def)
  then have "cm_state ?m = AwaitingStatus"
    by (simp add: connection_request_def client_new_def client_push_def client_loop.simps client_step_def parse_status_def
        take_line_or_reject_def icy_200_def MAX_LINE_def split: sum.splits)
  ultimately show ?thesis using client_memory [of config_default ?m] by auto
qed

text \<open>
  C21. The stream decoder and the frame scanner agree: the same resynchronisation and CRC counts,
  and one message or one skipped frame for every scanned frame.
\<close>

theorem stream_counts_scan:
  assumes "scan_all (scanner_new bytes) = (frames, s)"
    and "decode_stream_with_policy bytes pol = st"
  shows "resync_bytes (diagnostics st) = fs_resync_bytes s
    \<and> crc_failures (diagnostics st) = fs_crc_failures s
    \<and> length (messages st) + length (skipped_frames (diagnostics st)) = length frames"
  using stream_scans [OF assms(1), of pol] assms(2) by simp

theorem stream_counts_scan_witness:
  "\<exists>frames s. scan_all (scanner_new (0xD3 # frame_1005)) = (frames, s)
     \<and> resync_bytes (diagnostics (decode_stream_with_policy (0xD3 # frame_1005) Lenient)) = fs_resync_bytes s"
proof -
  obtain frames s where eq: "scan_all (scanner_new (0xD3 # frame_1005)) = (frames, s)" by fastforce
  with stream_counts_scan [OF eq refl, of Lenient] show ?thesis by blast
qed

definition net_igs :: net_record where
  "net_igs = \<lparr>nt_identifier = lit ''IGS'', nt_operator = lit ''BKG'', nt_authentication = AuthBasic, nt_fee = Parsed False,
     nt_web_net = lit ''a'', nt_web_str = lit ''b'', nt_web_reg = lit ''c'', nt_misc = lit ''x;y''\<rparr>"

definition net_igs_text :: rust_string where
  "net_igs_text = lit ''NET;IGS;BKG;B;N;a;b;c;x;y'' @ [0x0D, 0x0A] @ lit ''ENDSOURCETABLE'' @ [0x0D, 0x0A]"

lemma net_igs_serialises: "to_text \<lparr>st_records = [NetRecord net_igs]\<rparr> = Inr net_igs_text"
  "list_all stable_record (st_records \<lparr>st_records = [NetRecord net_igs]\<rparr>)"
proof -
  show "to_text \<lparr>st_records = [NetRecord net_igs]\<rparr> = Inr net_igs_text" by code_simp
  show "list_all stable_record (st_records \<lparr>st_records = [NetRecord net_igs]\<rparr>)"
    by (simp add: stable_record_def net_igs_def stable_defs)
qed

text \<open>\<^verbatim>\<open>Content-Type: gnss/sourcetable\<close>\<close>

definition table_header :: "u8 list" where
  "table_header = [0x43, 0x6F, 0x6E, 0x74, 0x65, 0x6E, 0x74, 0x2D, 0x54, 0x79, 0x70, 0x65, 0x3A, 0x20, 0x67, 0x6E, 0x73, 0x73,
     0x2F, 0x73, 0x6F, 0x75, 0x72, 0x63, 0x65, 0x74, 0x61, 0x62, 0x6C, 0x65]"

lemma table_header_response: "table_response http_200 [table_header]"
proof -
  have "from_utf8_lossy (take 12 table_header) = map ucast (take 12 table_header)"
    "from_utf8_lossy (drop 14 table_header) = map ucast (drop 14 table_header)"
    by (rule ascii_lossy; simp add: table_header_def)+
  moreover have "iter_position (\<lambda>b. b = 0x3A) table_header = Some 12" "length table_header = 30" "table_header ! 13 = 0x20"
    by (simp_all add: table_header_def)
  ultimately have "split_header table_header = Some (trim (map ucast (take 12 table_header)), map ucast (drop 14 table_header))"
    by (simp add: split_header_def)
  then have "http_headers [table_header] = [(lit ''Content-Type'', lit ''gnss/sourcetable'')]"
    by (simp add: http_headers_def map_filter_def text_eval) (simp add: table_header_def text_eval)
  moreover have "classify_http_response 200 (lit ''OK'') [(lit ''Content-Type'', lit ''gnss/sourcetable'')] = ClSourcetable False"
    by code_simp
  ultimately show ?thesis
    using http_200_status by (simp add: table_response_def is_line_def http_200_def table_header_def LF_def
        CHUNK_MAX_LINE_def MAX_HEADER_BLOCK_def)
qed

text \<open>
  C22. A source table on its way: when an HTTP response that classifies as a plain source table
  carries the text a table serialises to, ASCII, with lines under 8 KiB and of 4 MiB at most,
  then however the connection cuts the bytes, the client reports exactly that table as its
  only event and closes. The table holds what a parsed table can hold: finite coordinates, raw
  fields that the parser keeps raw, no authentication text that reads as N, B or D, no other
  record that is empty or carries a reserved tag.
\<close>

theorem caster_to_sourcetable:
  assumes "table_response line lines" and "to_text table = Inr txt" and "list_all stable_record (st_records table)"
    and "\<forall>c\<in>set txt. c < 0x80" and "\<forall>l\<in>set (str_lines txt). length l < 8192" and "length txt \<le> 4194304"
    and "concat fragments = line @ [CR, LF] @ header_bytes lines @ str_bytes txt"
    and "client_pushes fragments (requested config) = (m, events)"
  shows "events = [EvSourcetable table] \<and> cm_state m = Closed"
  using sourcetable_received [OF assms(1-4) _ _ assms(7), of config] assms(5,6,8)
  by (simp add: MAX_LINE_def MAX_SOURCETABLE_def)

theorem caster_to_sourcetable_witness:
  "snd (client_pushes [http_200 @ [CR, LF] @ header_bytes [table_header] @ str_bytes net_igs_text] (requested config_default))
     = [EvSourcetable \<lparr>st_records = [NetRecord net_igs]\<rparr>]"
proof -
  obtain m events where run: "client_pushes [http_200 @ [CR, LF] @ header_bytes [table_header] @ str_bytes net_igs_text]
      (requested config_default) = (m, events)" by fastforce
  have plain: "list_all (\<lambda>c. c < 0x80) net_igs_text" "list_all (\<lambda>l. length l < 32) (str_lines net_igs_text)"
    "length net_igs_text < 64"
    by code_simp+
  have "events = [EvSourcetable \<lparr>st_records = [NetRecord net_igs]\<rparr>] \<and> cm_state m = Closed"
    by (rule caster_to_sourcetable [OF table_header_response net_igs_serialises(1,2) _ _ _ _ run])
      (use plain in \<open>auto simp: list_all_iff\<close>)
  with run show ?thesis by simp
qed

text \<open>
  C23. Every text whose carriage returns end lines parses, what it parses to serialises, and the
  result is a normal form: it parses to the same table.
\<close>

theorem sourcetable_normal_form:
  assumes "\<forall>l\<in>set (str_lines txt). 0x0D \<notin> set (trim_end_cr l)"
  shows "\<exists>table out. parse_sourcetable txt = Inr table \<and> to_text table = Inr out \<and> parse_sourcetable out = Inr table"
  by (rule normal_form [OF assms])

theorem sourcetable_normal_form_witness:
  "\<exists>table out. parse_sourcetable (lit ''str;A;B;C;D;+2;;;;1e1;x'' @ [0x0A]) = Inr table \<and> to_text table = Inr out
     \<and> parse_sourcetable out = Inr table"
proof (rule sourcetable_normal_form)
  have "list_all (\<lambda>l. 0x0D \<notin> set (trim_end_cr l)) (str_lines (lit ''str;A;B;C;D;+2;;;;1e1;x'' @ [0x0A]))"
    by code_simp
  then show "\<forall>l\<in>set (str_lines (lit ''str;A;B;C;D;+2;;;;1e1;x'' @ [0x0A])). 0x0D \<notin> set (trim_end_cr l)"
    by (simp add: list_all_iff)
qed

text \<open>
  C24. A source table that serialises reads back from its text as it was, floating point
  coordinates included, provided it holds what a parsed table can hold: its coordinates are
  finite, a raw field is a token its parser keeps raw, an authentication given as text is none
  of N, B and D, and another record has a tag or a field and no tag that reads as STR, CAS,
  NET or ENDSOURCETABLE.
\<close>

theorem sourcetable_back:
  assumes "to_text table = Inr txt" and "list_all stable_record (st_records table)"
  shows "parse_sourcetable txt = Inr table"
  by (rule table_back [OF assms])

theorem sourcetable_back_witness:
  "parse_sourcetable (lit ''NET;IGS;BKG;B;N;a;b;c;x;y'' @ [0x0D, 0x0A] @ lit ''ENDSOURCETABLE'' @ [0x0D, 0x0A])
     = Inr \<lparr>st_records = [NetRecord net_igs]\<rparr>"
proof (rule sourcetable_back)
  show "to_text \<lparr>st_records = [NetRecord net_igs]\<rparr>
      = Inr (lit ''NET;IGS;BKG;B;N;a;b;c;x;y'' @ [0x0D, 0x0A] @ lit ''ENDSOURCETABLE'' @ [0x0D, 0x0A])"
    by code_simp
  show "list_all stable_record (st_records \<lparr>st_records = [NetRecord net_igs]\<rparr>)"
    by (simp add: stable_record_def net_igs_def stable_defs)
qed

text \<open>
  C25. A request that is built is its request line, its header lines and a blank line, each ended
  by CR LF and none containing a CR or LF of its own: no configuration can smuggle a header
  into it.
\<close>

theorem request_is_lines:
  assumes "request_bytes config = Inr bytes"
  shows "\<exists>headers. common_headers config = Inr headers
     \<and> bytes = concat (map (\<lambda>line. line @ [CR, LF])
        (str_bytes (lit ''GET /'' @ nc_mountpoint config @ lit (if nc_version config = Rev1 then '' HTTP/1.0'' else '' HTTP/1.1''))
          # map (\<lambda>(name, value). str_bytes (name @ lit '': '' @ value)) headers)) @ [CR, LF]
     \<and> clean (str_bytes (lit ''GET /'' @ nc_mountpoint config @ lit (if nc_version config = Rev1 then '' HTTP/1.0'' else '' HTTP/1.1'')))
     \<and> (\<forall>(name, value)\<in>set headers. clean (str_bytes (name @ lit '': '' @ value)))"
  by (rule request_lines [OF assms])

theorem request_is_lines_witness:
  "\<exists>bytes headers. request_bytes config_default = Inr bytes \<and> common_headers config_default = Inr headers
     \<and> (\<forall>(name, value)\<in>set headers. clean (str_bytes (name @ lit '': '' @ value)))"
proof -
  have "validate_config config_default = Inr ()" by code_simp
  then obtain bytes where "request_bytes config_default = Inr bytes"
    by (auto simp: request_bytes_def validated_path_def common_headers_def)
  with request_is_lines [OF this] show ?thesis by blast
qed

text \<open>
  C26. A buffer of concatenated frames is scanned into exactly those frames, with no byte skipped
  and no CRC failure counted.
\<close>

theorem scan_finds_frames:
  assumes "list_all2 (\<lambda>(body, reserved) frame. encode_frame_with_reserved body reserved = Inr frame)
             sent frames"
  shows "scan_all (scanner_new (concat frames))
     = (map as_decoded sent, \<lparr>fs_bytes = concat frames, fs_pos = length (concat frames),
          fs_resync_bytes = 0, fs_crc_failures = 0\<rparr>)"
proof -
  have "framed_with = (\<lambda>(body, reserved) frame. encode_frame_with_reserved body reserved = Inr frame)"
    by (auto simp: framed_with_def fun_eq_iff)
  with assms have "list_all2 framed_with sent frames" by simp
  from scan_all_frames [OF this, of "scanner_new (concat frames)"] show ?thesis
    by (simp add: scanner_new_def)
qed

theorem scan_finds_frames_witness:
  "fst (scan_all (scanner_new (concat [frame_1005, frame_1005])))
     = map as_decoded [(body_1005, 0), (body_1005, 0)]"
  by (subst scan_finds_frames [of "[(body_1005, 0), (body_1005, 0)]"])
    (simp_all add: frame_1005_encoded)

text \<open>
  C27. After every push the assembler retains fewer bytes than one largest frame, whatever it is
  fed, and the consumed and retained bytes add up to the pushed ones.
\<close>

theorem assembler_retains:
  assumes "push chunk a = (out, a')"
  shows "retained_len a' < MAX_BODY_LEN + FRAME_OVERHEAD
    \<and> as_drained a' + retained_len a' = as_drained a + retained_len a + length chunk"
  using push_pending(3,4) [OF assms] by (simp add: retained_len_def)

theorem assembler_retains_witness:
  "\<exists>out a'. push (take 9 frame_1005) (assembler_with_policy Strict) = (out, a') \<and> as_drained a' + retained_len a' = 9"
proof -
  obtain out a' where eq: "push (take 9 frame_1005) (assembler_with_policy Strict) = (out, a')" by fastforce
  with assembler_retains [OF eq] show ?thesis
    by (auto simp: frame_1005_def body_1005_def assembler_with_policy_def retained_len_def)
qed

text \<open>
  C28. A body with a readable number that the codec does not decode is kept whole as Unsupported
  under either policy, with no departure, and encodes to itself.
\<close>

theorem unsupported_preserved:
  assumes "message_number_classified body = Inr n" and "\<not> is_decoded_body n body"
  shows "message_decode_with_policy body pol
       = Inr (Unsupported \<lparr>um_message_number = n, um_body = body\<rparr>, [])
    \<and> unsupported_encode \<lparr>um_message_number = n, um_body = body\<rparr> = Inr body"
  using assms unsupported_dispatch [OF assms, of "ctx_new pol"]
  by (simp add: message_decode_with_policy_def unsupported_encode_def)

theorem unsupported_preserved_witness:
  "message_decode_with_policy [0xFF, 0xE0, 0x01] Strict
       = Inr (Unsupported \<lparr>um_message_number = 4094, um_body = [0xFF, 0xE0, 0x01]\<rparr>, [])
    \<and> unsupported_encode \<lparr>um_message_number = 4094, um_body = [0xFF, 0xE0, 0x01]\<rparr>
       = Inr [0xFF, 0xE0, 0x01]"
  by (rule unsupported_preserved) code_simp+

text \<open>
  C29. A push of n bytes on a client that carries c bytes returns after at most 2(n + c) + 2 turns
  of its loop, whatever the bytes.
\<close>

theorem push_terminates:
  assumes "cm_state m \<noteq> Closed"
  shows "client_turns (2 * length (cm_carry m @ bytes) + 2) (feed_client bytes m) [] = Some (client_push bytes m)"
  by (rule push_turns [OF assms])

theorem push_terminates_witness:
  "client_turns 22 (feed_client icy_200 (client_new config_default)) [] = Some (client_push icy_200 (client_new config_default))"
  using push_terminates [of "client_new config_default" icy_200] by (simp add: client_new_def icy_200_def)

text \<open>
  C30. At the end of input a client that is collecting a source table is closed and reports one
  event: the table that the lines collected so far parse to, together with the line that still
  waits for its end (unless that line comes before the first record and looks like a header);
  only when that line takes the text over 4 MiB is the event a rejection, and it is never a
  corruption.
\<close>

theorem finish_ends_session:
  assumes "cm_state m = InSourcetable" and "client_finish m = (m', events)"
  shows "cm_state m' = Closed \<and> (\<exists>table. parse_sourcetable (table_text m) = Inr table \<and>
    events = [if last_line_counts m \<and> 4194304 < length (str_bytes (table_text m))
              then Rejected (MalformedHandshake (if cm_sourcetable_chunked m then take 256 (cm_carry m) else []))
              else EvSourcetable table])"
  using finish_table [OF assms]
  by (simp add: table_event_def parse_sourcetable_def MAX_SOURCETABLE_def PREFIX_LIMIT_def)

theorem finish_ends_session_witness:
  "\<exists>m' table. client_finish ((client_new config_default)\<lparr>cm_state := InSourcetable, cm_carry := [0x53, 0x54, 0x52, 0x3B]\<rparr>)
      = (m', [EvSourcetable table])
     \<and> parse_sourcetable [0x53, 0x54, 0x52, 0x3B, 0x0D, 0x0A] = Inr table"
proof -
  let ?m = "(client_new config_default)\<lparr>cm_state := InSourcetable, cm_carry := [0x53, 0x54, 0x52, 0x3B]\<rparr>"
  obtain m' events where f: "client_finish ?m = (m', events)" by fastforce
  have "table_text ?m = [0x53, 0x54, 0x52, 0x3B, 0x0D, 0x0A]" by code_simp
  with finish_ends_session [OF _ f] f show ?thesis by (auto simp: str_bytes_def char_utf8_def)
qed

text \<open>
  C31. On a message with one signal per cell, every signal with a phase range gets the digit
  derived from its own cell of the tracker before the message, in order, and exactly those
  cells are updated; a cell already at the epoch of the message stays as it is.
\<close>

theorem tracker_observes:
  assumes "distinct (map (signal_key msg) (mm_signals msg))"
  shows "observe tracker msg =
    (tracker\<lparr>lt_cells := \<lambda>k. case find (\<lambda>s. has_phase s \<and> signal_key msg s = k) (mm_signals msg) of
        None \<Rightarrow> lt_cells tracker k | Some s \<Rightarrow> cell_next tracker msg s\<rparr>,
     map (cell_out tracker msg) (filter has_phase (mm_signals msg)))"
  by (rule observe_distinct [OF assms])

theorem tracker_observes_witness:
  "snd (observe tracker_new msm_1074)
     = [cell_out tracker_new msm_1074 (signal_1074 9), cell_out tracker_new msm_1074 (signal_1074 3)]"
  by (subst tracker_observes) (simp_all add: msm_1074_def signal_1074_def signal_key_def has_phase_def)

text \<open>
  C32. The derived LLI digit: bit 0 is set exactly when a previous lock exists and the current lock
  is undefined, shorter than before or shorter than the elapsed time; bit 1 copies the half-
  cycle flag; no other bit is ever set.
\<close>

theorem lli_rules:
  "bit (derive_lli previous current half) k \<longleftrightarrow>
     k = 0 \<and> (\<exists>p. previous = Some p \<and>
        (case current of
           None \<Rightarrow> True
         | Some c \<Rightarrow> (\<exists>q. pl_min_lock_time_ms p = Some q \<and> c < q) \<or> unat c < unat (pl_elapsed_ms p)))
   \<or> k = 1 \<and> half"
  unfolding derive_lli_bits lock_may_be_lost_def by (cases current) auto

text \<open>
  C33. The elapsed time between two MSM epochs is the one number of milliseconds below a week
  (below a day when a GLONASS day is unknown) that leads from the first time of week to the
  second.
\<close>

theorem epoch_elapsed:
  assumes "m = (if sys = Glonass \<and> (day_unknown previous \<or> day_unknown current) then 86400000 else 604800000)"
    and "t = (if sys = Glonass \<and> (day_unknown previous \<or> day_unknown current) then ms_of_day else ms_of_week sys)"
  shows "unat (msm_epoch_dt_ms sys previous current) < m
    \<and> (t previous + unat (msm_epoch_dt_ms sys previous current)) mod m = t current mod m"
  using epoch_advances [of sys previous current]
  by (cases "sys = Glonass \<and> (day_unknown previous \<or> day_unknown current)") (auto simp: assms advances_def)

theorem epoch_elapsed_witness: "unat (msm_epoch_dt_ms Gps 604799000 500) < 604800000"
  using epoch_elapsed [of 604800000 Gps 604799000 500 "ms_of_week Gps"] by simp

text \<open>
  C34. Appending three bytes makes the CRC zero exactly when they are the CRC of the data in
  network order.
\<close>

theorem crc_codeword:
  "crc24q (data @ [b0, b1, b2]) = 0 \<longleftrightarrow> crc24q data = framed_crc b0 b1 b2"
  by (rule crc24q_codeword)

text \<open>
  C35. An unsigned field after any bits already written is written and read back exactly when its
  value fits the width; otherwise the writer refuses it with the range error.
\<close>

theorem unsigned_field:
  assumes "n \<le> 64"
  shows "if unat v < 2 ^ n
    then \<exists>w. fw_u f v n (fw_put bs (fw_new k)) = Inr w
      \<and> br_u n (adv (length bs) (br_new (fw_into_bytes w))) = Inr (v, adv (length bs + n) (br_new (fw_into_bytes w)))
    else fw_u f v n (fw_put bs (fw_new k)) = Inl (FieldOutOfRange k f (uint v) n Unsigned)"
  using assms br_u_to_bits [of "adv (length bs) (br_new (pack (bs @ to_bits n v)))" n v]
  by (simp add: fw_u_eq fits_u_def fw_refuse_def bits_of_bytes_pack)

theorem unsigned_field_witness:
  "fw_u ''DF003'' 4096 12 (fw_put [True] (fw_new 1005)) = Inl (FieldOutOfRange 1005 ''DF003'' 4096 12 Unsigned)"
  using unsigned_field [of 12 4096 "''DF003''" "[True]" 1005] by simp

text \<open>
  C36. A two's complement field after any bits already written is written and read back exactly
  when its value is in the range of the width; otherwise the writer refuses it.
\<close>

theorem signed_field:
  assumes "0 < n" and "n < 64"
  shows "if - (2 ^ (n - 1)) \<le> v \<and> v < 2 ^ (n - 1)
    then \<exists>w. fw_i f v n (fw_put bs (fw_new k)) = Inr w
      \<and> br_i n (adv (length bs) (br_new (fw_into_bytes w))) = Inr (v, adv (length bs + n) (br_new (fw_into_bytes w)))
    else fw_i f v n (fw_put bs (fw_new k)) = Inl (FieldOutOfRange k f v n TwosComplement)"
proof -
  have "fits_i n v \<longleftrightarrow> - (2 ^ (n - 1)) \<le> v \<and> v < 2 ^ (n - 1)" by (auto simp: fits_i_def)
  then show ?thesis
    using assms br_i_to_bits [of "adv (length bs) (br_new (pack (bs @ to_bits_i n v)))" n v]
    by (auto simp: fw_i_eq fw_refuse_def bits_of_bytes_pack)
qed

theorem signed_field_witness:
  "fw_i ''DF025'' (- (2 ^ 37) - 1) 38 (fw_put [] (fw_new 1005))
     = Inl (FieldOutOfRange 1005 ''DF025'' (- (2 ^ 37) - 1) 38 TwosComplement)"
  using signed_field [of 38 "- (2 ^ 37) - 1" "''DF025''" "[]" 1005] by simp

text \<open>
  C37. An arc of differences of any order from 1 to 6 over values of up to 56 bits decompresses to
  the values: no intermediate sum leaves the 64-bit range, so no overflow is reported.
\<close>

theorem numeric_arc_back:
  assumes "1 \<le> level" and "level \<le> MAX_ORDER" and "small_value v" and "list_all small_value vs"
  shows "decompress_all num_decompress (num_new v level)
    (compress_all num_compress num_advance (num_new v level) vs) = Some vs"
  using assms by (intro numeric.arc_recovers) (simp_all add: fits_all_const num_new_small)

theorem numeric_arc_back_witness:
  "decompress_all num_decompress (num_new 100 3)
    (compress_all num_compress num_advance (num_new 100 3) [90, - 85, 2 ^ 56, - (2 ^ 56)])
      = Some [90, - 85, 2 ^ 56, - (2 ^ 56)]"
  by (rule numeric_arc_back) (simp_all add: MAX_ORDER_def small_value_def)

text \<open>
  C38. A number the difference engine recovers from a delta is the one whose backward difference of
  the current order, over the values before it, is the delta, and it becomes the newest value
  of the history.
\<close>

theorem numeric_difference:
  assumes "num_typed e" and "fits_i 64 delta" and "num_decompress e delta = Some (e', v)"
  shows "nabla (next_order e) (v # nd_buf e) = delta \<and> hd (nd_buf e') = v \<and> num_typed e'"
  using num_decompress_nabla [OF assms(1,3)] num_decompress_typed [OF assms] by blast

theorem numeric_difference_witness:
  "\<exists>e' v. num_decompress (num_new 100 3) 7 = Some (e', v) \<and> nabla 1 [v, 100, 0, 0, 0, 0, 0] = 7"
proof -
  have e: "num_typed (num_new 100 3)" by (simp add: num_new_typed fits_i_def MAX_ORDER_def)
  have "num_decompress (num_new 100 3) 7 \<noteq> None" by code_simp
  then obtain e' v where "num_decompress (num_new 100 3) 7 = Some (e', v)" by auto
  moreover have "next_order (num_new 100 3) = 1" and "nd_buf (num_new 100 3) = [100, 0, 0, 0, 0, 0]" by code_simp+
  ultimately show ?thesis using numeric_difference [OF e, of 7 e' v] by (auto simp: fits_i_def)
qed

text \<open>
  C39. A value between -10^12 and 10^13 thousandths fills its F14.3 field exactly and reads back
  exactly, and so does a clock offset in its field.
\<close>

theorem rinex_columns:
  assumes "fits_columns 14 v" and "fits_columns 15 c"
  shows "length (format_value v) = OBS_VALUE_WIDTH \<and> parse_scaled_decimal (format_value v) 3 field_name = Inr v
    \<and> length (format_clock c 12 15) = 15 \<and> parse_scaled_decimal (format_clock c 12 15) 12 field_name = Inr c"
  using value_columns [OF assms(1)] value_bytes(4) [of v] fits_columns_64 [OF assms(1)]
    clock_columns [OF _ _ assms(2), of 12] clock_bytes(5) [of 12 c 15] fits_columns_64 [OF assms(2)]
  by (simp add: OBS_VALUE_WIDTH_def)

theorem rinex_columns_witness:
  "length (format_value (- 999999999999)) = OBS_VALUE_WIDTH
    \<and> parse_scaled_decimal (format_value (- 999999999999)) 3 ''observation'' = Inr (- 999999999999)
    \<and> length (format_clock 99999999999999 12 15) = 15"
  using rinex_columns [of "- 999999999999" 99999999999999 "''observation''"] by (simp add: fits_columns_def)

section \<open>Further facts\<close>

text \<open>
  An ICY response, cut into any fragments, connects once and its payloads are exactly the
  bytes after the blank line; the client stays open for more.
\<close>

theorem icy_data:
  assumes "icy_status line" and "concat fragments = line @ [CR, LF, CR, LF] @ body"
  shows "\<exists>m events. client_pushes fragments (requested config) = (m, events) \<and> cm_state m = Streaming
    \<and> notices events = [Connected icy_handshake] \<and> payloads events = body"
  by (rule icy_stream [OF assms])

theorem icy_data_witness:
  "\<exists>m events. client_pushes [take 5 icy_200, drop 5 icy_200 @ [CR], [LF, CR], [LF, 0xD3], [0x00]] (requested config_default)
      = (m, events) \<and> cm_state m = Streaming \<and> payloads events = [0xD3, 0x00]"
  using icy_data [OF icy_200_status, of "[take 5 icy_200, drop 5 icy_200 @ [CR], [LF, CR], [LF, 0xD3], [0x00]]"
      "[0xD3, 0x00]" config_default] by (simp add: icy_200_def) blast

text \<open>
  Feeding fragments one by one is feeding their concatenation: when every fragment succeeds,
  one push of the whole input gives the same output, the same state and the same end (the
  bytes after the end aside).
\<close>

theorem chunked_fragments:
  assumes "chunk_pushes (fragment # fragments) d = (Inr out, d1)"
  shows "\<exists>d2. chunk_push (concat (fragment # fragments)) d = (Inr out, d2) \<and> alike d2 d1"
proof -
  from assms obtain p q e where f: "chunk_push fragment d = (Inr p, e)"
    and g: "chunk_pushes fragments e = (Inr q, d1)" and out: "out = p @ q"
    by (auto split: prod.splits sum.splits)
  from chunk_pushes_concat [OF g f] show ?thesis by (simp add: alike_def out)
qed

theorem chunked_fragments_witness:
  "\<exists>d2. chunk_push (concat [[0x33, CR], [LF, 1, 2]]) chunked_new = (Inr [1, 2], d2) \<and> \<not> cd_finished d2"
proof -
  have "chunk_pushes [[0x33, CR], [LF, 1, 2]] chunked_new
      = (Inr [1, 2], chunked_new\<lparr>cd_state := Data 1\<rparr>)"
    by (simp add: chunk_eval)
  from chunked_fragments [OF this] obtain d2 where
    "chunk_push (concat [[0x33, CR], [LF, 1, 2]]) chunked_new = (Inr [1, 2], d2)"
    "alike d2 (chunked_new\<lparr>cd_state := Data 1\<rparr>)" by blast
  moreover have "\<not> cd_finished (chunked_new\<lparr>cd_state := Data 1\<rparr>)" by (simp add: chunked_new_def)
  ultimately show ?thesis using alike_finished by blast
qed

text \<open>
  DF407 and DF402 in unbounded arithmetic: the extended lock time doubles its step every 32
  indicators up to 704, the coarse one is 2 to the indicator plus 4; no step of the 32-bit
  arithmetic wraps, reserved indicators have no value.
\<close>

theorem lock_time_values:
  "map_option unat (df407_minimum_lock_time_ms i) =
     (if unat i < 64 then Some (unat i)
      else if unat i \<le> 704 then Some (2 ^ (unat i div 32 - 1) * (unat i - 32 * (unat i div 32 - 1)))
      else None)
   \<and> map_option unat (df402_minimum_lock_time_ms i) =
     (if unat i = 0 then Some 0 else if unat i \<le> 15 then Some (2 ^ (unat i + 4)) else None)"
  using df407_spec [of i] df402_values [of i] by (simp add: lock_time_spec_def)

text \<open>
  The bit-at-a-time CRC over whole bytes is the byte-at-a-time CRC.
\<close>

theorem crc_bitwise_bytewise: "crc24q_bits data (8 * length data) = crc24q data"
  by (simp add: crc24q_bits_feed crc24q_feed)

text \<open>
  A sign-magnitude field, negative zero included, is written and read back with its sign of
  zero when the magnitude fits and the zero flag agrees with the value.
\<close>

theorem sign_magnitude_field:
  assumes "0 < n" and "n < 64" and "\<bar>v\<bar> < 2 ^ (n - 1)" and "neg_zero \<longrightarrow> v = 0"
  shows "\<exists>w. fw_ism f v n neg_zero (fw_put bs (fw_new k)) = Inr w
    \<and> br_ism_signed_zero n (adv (length bs) (br_new (fw_into_bytes w)))
        = Inr ((v, neg_zero), adv (length bs + n) (br_new (fw_into_bytes w)))"
  using assms br_ism_to_bits [of "adv (length bs) (br_new (pack (bs @ to_bits_ism n v neg_zero)))" n v neg_zero]
  by (simp add: fw_ism_eq fits_ism_def bits_of_bytes_pack)

theorem sign_magnitude_field_witness:
  "\<exists>w. fw_ism ''tau_n'' 0 22 True (fw_put [] (fw_new 1020)) = Inr w
    \<and> br_ism_signed_zero 22 (br_new (fw_into_bytes w)) = Inr ((0, True), adv 22 (br_new (fw_into_bytes w)))"
  using sign_magnitude_field [of 22 0 True "''tau_n''" "[]" 1020] by simp

text \<open>
  A field read fails exactly when fewer bits are left than it asks for, reporting both counts,
  and otherwise consumes exactly its width.
\<close>

theorem field_exhausted:
  "br_u n r = (if remaining_bits r < n
     then Inl \<lparr>requested_bits = n, left_bits = remaining_bits r\<rparr>
     else Inr (of_bits (take n (rest_bits r)), r\<lparr>bit_pos := bit_pos r + n\<rparr>))"
  by (simp add: br_u_eq remaining_bits_eq adv_def)

text \<open>
  The MSM satellite mask and the list of satellite ids determine each other: the mask of
  distinct ids from 1 to 64 reads back as the ids in ascending order, and every mask is the
  mask of its ids.
\<close>

theorem satellite_mask:
  assumes "distinct ids" and "\<forall>i\<in>set ids. 1 \<le> unat i \<and> unat i \<le> 64"
  shows "mask_ids (msm_satellite_mask ids) 64 = sort ids
    \<and> msm_satellite_mask (mask_ids msk 64) = msk"
  using mask_ids_mask_of [where 'a = 64, OF _ _ assms] mask_of_mask_ids [where 'a = 64, of 64 msk]
  by (simp add: msm_satellite_mask_eq)

theorem satellite_mask_witness:
  "mask_ids (msm_satellite_mask [31, 2, 17]) 64 = [2, 17, 31]"
proof -
  have "mask_ids (msm_satellite_mask [31, 2, 17]) 64 = sort [31, 2, 17 :: u8]"
    using satellite_mask [of "[31, 2, 17]"] by simp
  then show ?thesis by simp
qed

text \<open>
  After a parse error every later push returns the same error and leaves the decoder
  unchanged; a successful push on an unfinished decoder retains at most one line of 8 KiB.
\<close>

theorem chunk_error_sticky:
  assumes "chunk_push bytes d = (result, d1)" and "cd_poison d = None" and "\<not> cd_finished d"
  shows "case result of
      Inl e \<Rightarrow> chunk_push later d1 = (Inl e, d1)
    | Inr _ \<Rightarrow> cd_finished d1 \<or> length (cd_buf d1) \<le> CHUNK_MAX_LINE"
  using assms chunk_error_sticks [of bytes d _ d1 later]
    chunk_loop_retains [of "d\<lparr>cd_buf := cd_buf d @ bytes\<rparr>" "[]" _ d1]
  by (cases result) (auto simp: chunk_push_def)

theorem chunk_error_sticky_witness:
  "chunk_push [0x31] (snd (chunk_push [0x67, LF] chunked_new))
     = (Inl (Parse ''parse error: invalid chunk size digit''), snd (chunk_push [0x67, LF] chunked_new))"
proof -
  have "chunk_push [0x67, LF] chunked_new = (Inl (Parse ''parse error: invalid chunk size digit''),
      chunked_new\<lparr>cd_poison := Some ''parse error: invalid chunk size digit''\<rparr>)"
    by (simp add: chunk_eval)
  from chunk_error_sticky [OF this, of "[0x31]"] this show ?thesis by (simp add: chunked_new_def)
qed

text \<open>
  Where fragments matter: a size line of exactly 8 KiB decodes when its CR and LF come
  together, and is refused when a fragment ends between them, as a trailer line of that length
  is.
\<close>

theorem chunk_line_edge:
  "\<exists>line d e. length line = 8192
     \<and> chunk_push (concat [line @ [CR], [LF, 0x41]]) chunked_new = (Inr [0x41], d)
     \<and> chunk_pushes [line @ [CR], [LF, 0x41]] chunked_new = (Inl (Parse ''chunk line too long''), e)"
proof -
  have "length edge_line = 8192" by (simp add: edge_line_def CHUNK_MAX_LINE_def)
  with edge_line_split show ?thesis by (auto intro!: exI [of _ edge_line])
qed

text \<open>
  Observing a message a second time leaves the tracker as the first observation left it, so a
  duplicate cannot hide a later decrease.
\<close>

theorem tracker_duplicate:
  "fst (observe (fst (observe tracker msg)) msg) = fst (observe tracker msg)"
  by (rule observe_again)

text \<open>
  The extended lock time grows strictly with its indicator, so a smaller indicator always
  means a shorter lock.
\<close>

theorem lock_time_increases:
  assumes "minimum_lock_time_ms Msm7 a = Some s" and "minimum_lock_time_ms Msm7 b = Some t"
  shows "s < t \<longleftrightarrow> a < b"
  using df407_less_iff [of a s b t] assms by (simp add: minimum_lock_time_ms_def)

theorem lock_time_increases_witness: "(126::u32) < 128 \<longleftrightarrow> (95::u16) < 96"
  by (rule lock_time_increases) code_simp+

text \<open>
  The coefficient counts of a VTEC layer in closed form: a triangle of the orders up to the
  degree, the sines without the zonal row; an order above the degree adds none.
\<close>

theorem vtec_coefficients:
  assumes "coefficient_counts degree order = (cosine, sine)"
    and "N = unat degree" and "M = min (unat order) N"
  shows "2 * cosine + (N - M) * (N - M + 1) = (N + 1) * (N + 2) \<and> cosine = sine + (N + 1)"
  unfolding assms(2,3) by (rule coefficient_counts_closed [OF assms(1)])

theorem vtec_coefficients_witness: "2 * 21 + (5 - 5) * (5 - 5 + 1) = (5 + 1) * (5 + (2::nat))"
  by (rule vtec_coefficients [of 5 5 21 15 5 5, THEN conjunct1]) code_simp+

text \<open>
  No two signal ids of one system share a RINEX code.
\<close>

theorem signal_code_injective:
  assumes "msm_signal_rinex_code sys a = Some code" and "msm_signal_rinex_code sys b = Some code"
  shows "a = b"
  by (rule signal_code_unique [OF assms])

theorem signal_code_injective_witness: "(2::u8) = 2"
  by (rule signal_code_injective [of Gps _ "''1C''"]) code_simp+

text \<open>
  A size line of at most eight hexadecimal digits gives their value, or the limit error above
  16 MiB; the shifts never lose a digit.
\<close>

theorem chunk_size_value:
  assumes "set digits \<subseteq> {..<16}" and "digits \<noteq> []" and "length digits \<le> 8"
  shows "parse_size_line (map hex_char digits) =
    (if foldl (\<lambda>a d. 16 * a + d) 0 digits \<le> 16777216 then Inr (foldl (\<lambda>a d. 16 * a + d) 0 digits)
     else Inl (Parse ''chunk size exceeds limit''))"
  using parse_size_digits [OF assms] by (simp add: hex_value_def MAX_CHUNK_SIZE_def)

theorem chunk_size_value_witness:
  "parse_size_line (map hex_char [1, 15, 10]) = Inr 506"
  by (subst chunk_size_value) simp_all

text \<open>
  The decimal reader lets each part carry its own sign, so a field with a sign inside it is
  read as a different number instead of refused.
\<close>

theorem inner_sign_accepted:
  "parse_scaled_decimal (blit ''1.-5'') 3 field_name = Inr 950
    \<and> parse_scaled_decimal (blit ''--5.000'') 3 field_name = Inr 5000"
proof
  show "parse_scaled_decimal (blit ''1.-5'') 3 field_name = Inr 950" by code_simp
  show "parse_scaled_decimal (blit ''--5.000'') 3 field_name = Inr 5000" by code_simp
qed

definition accented_event :: rust_str where
  "accented_event = [0xC3, 0xA9] @ replicate 24 blank @ blit ''  2  0''"

text \<open>
  A RINEX 2 epoch line that starts with a two-byte character is read as an event, and writing
  that event as CRINEX slices the line inside the character.
\<close>

theorem multibyte_descriptor_panics:
  "(case rinex_epoch V1 new_decoder accented_event [] of
      Inl _ \<Rightarrow> False | Inr (d, rest, item) \<Rightarrow> rest = [] \<and> item = EventRecord accented_event [])
    \<and> encode_epoch V1 held (EventRecord accented_event []) = None"
proof
  show "case rinex_epoch V1 new_decoder accented_event [] of
      Inl _ \<Rightarrow> False | Inr (d, rest, item) \<Rightarrow> rest = [] \<and> item = EventRecord accented_event []"
    by code_simp
  show "encode_epoch V1 held (EventRecord accented_event []) = None"
    by code_simp
qed

end
